(* ===== verification/Prelude.thy ===== *)
theory Prelude
  imports Main "HOL-Library.Word"
begin

text \<open>
  The shared layer of the development. It holds the names of the machine types of the Go
  sources, the error values every component returns, the state-and-error monad in which the
  effectful operations are written, a Hoare logic for that monad with one rule per combinator,
  and the generic list lemmas the components use.
\<close>

section \<open>Machine types\<close>

type_synonym byte = "8 word"
type_synonym u64 = "64 word"
type_synonym bytes = "byte list"

section \<open>Errors\<close>

text \<open>
  Every error value of the modelled packages is a constructor. Wrapping with \<open>%w\<close> keeps the
  identity that \<open>errors.Is\<close> tests, so a wrapped error is the same constructor.
  \<open>ErrIO\<close> stands for every failure of the infrastructure below the program (the database
  driver, the network, the file system); \<open>ErrUnique\<close> and \<open>ErrForeignKey\<close> are the SQLSTATE
  classes 23505 and 23503 that the repositories inspect. \<open>ErrFuel\<close> is no error of the program: a model
  function with a bound on its recursion returns it when the bound is reached, and the theorems show
  that it is not. \<open>ErrAbsent\<close> and \<open>ErrAlreadyExists\<close> are the Kubernetes errors \<open>NotFound\<close> and
  \<open>AlreadyExists\<close>; \<open>ErrApi\<close> carries the status and the message of the identity provider's API.
\<close>

datatype err =
    ErrNotFound | ErrForbidden | ErrVersionConflict | ErrModified | ErrNotEmpty | ErrCycle
  | ErrNameRequired | ErrFolderNameRequired | ErrTitleRequired
  | ErrBlobKey | ErrBlobMissing
  | ErrDEKSize | ErrTenantRequired | ErrBlobShort | ErrBlobFormat | ErrBlobOpen | ErrBlobHash
  | ErrAuditActor | ErrAuditFields
  | ErrSearchIdType | ErrSearchOwner | ErrSearchPermalink | ErrSearchRemoveId
  | ErrSubject | ErrSubjectMapped
  | ErrTupleExists | ErrTupleMissing
  | ErrWopiInvalid
  | ErrNoEditor
  | ErrTaskNotFound | ErrTaskForbidden
  | ErrTooLarge | ErrSize | ErrNoProgress | ErrBufferFull
  | ErrUnique | ErrForeignKey | ErrIO | ErrFuel
  | ErrAbsent | ErrAlreadyExists | ErrIamNotFound | ErrApi nat string | ErrDecode
  | ErrUserExists | ErrBadEmail | ErrNoTenant | ErrNotProvisioned | ErrNotOptional string

section \<open>The state-and-error monad\<close>

text \<open>
  An effectful Go function with result \<open>(a, error)\<close> is a function from the world to either an
  error or a value, with the world it leaves behind. An error keeps the effects made before it.
\<close>

type_synonym ('w, 'a) io = "'w \<Rightarrow> (err + 'a) \<times> 'w"

definition ret :: "'a \<Rightarrow> ('w, 'a) io" where
  "ret x = (\<lambda>w. (Inr x, w))"

definition fail :: "err \<Rightarrow> ('w, 'a) io" where
  "fail e = (\<lambda>w. (Inl e, w))"

definition bnd :: "('w, 'a) io \<Rightarrow> ('a \<Rightarrow> ('w, 'b) io) \<Rightarrow> ('w, 'b) io" where
  "bnd m f = (\<lambda>w. case m w of (Inl e, w') \<Rightarrow> (Inl e, w') | (Inr x, w') \<Rightarrow> f x w')"

text \<open>A call whose error the source discards (\<open>_ = f()\<close>).\<close>

definition ignore :: "('w, 'a) io \<Rightarrow> ('w, unit) io" where
  "ignore m = (\<lambda>w. (Inr (), snd (m w)))"

definition guarded :: "bool \<Rightarrow> ('w, unit) io \<Rightarrow> ('w, unit) io" where
  "guarded b m = (if b then m else ret ())"

text \<open>Recovering from an error, and \<open>defer\<close>: run \<open>d\<close>, its error discarded, after \<open>m\<close>.\<close>

definition catch :: "('w, 'a) io \<Rightarrow> (err \<Rightarrow> ('w, 'a) io) \<Rightarrow> ('w, 'a) io" where
  "catch m h = (\<lambda>w. case m w of (Inl e, w') \<Rightarrow> h e w' | (Inr x, w') \<Rightarrow> (Inr x, w'))"

definition deferred :: "('w, 'b) io \<Rightarrow> ('w, 'a) io \<Rightarrow> ('w, 'a) io" where
  "deferred d m = (\<lambda>w. case m w of (r, w') \<Rightarrow> (r, snd (d w')))"

text \<open>Reading the world, and a \<open>for range\<close> loop that stops at the first error.\<close>

definition gets :: "('w \<Rightarrow> 'a) \<Rightarrow> ('w, 'a) io" where
  "gets f = (\<lambda>w. (Inr (f w), w))"

primrec foreach :: "('a \<Rightarrow> ('w, unit) io) \<Rightarrow> 'a list \<Rightarrow> ('w, unit) io" where
  "foreach f [] = ret ()"
| "foreach f (x # xs) = bnd (f x) (\<lambda>_. foreach f xs)"

text \<open>The collection \<open>run\<close> evaluates a computation in a given world.\<close>

named_theorems run

lemma ret_apply [run]: "ret x w = (Inr x, w)"
  by (simp add: ret_def)

lemma fail_apply [run]: "fail e w = (Inl e, w)"
  by (simp add: fail_def)

lemma bnd_apply [run]:
  "bnd m f w = (case m w of (Inl e, w') \<Rightarrow> (Inl e, w') | (Inr x, w') \<Rightarrow> f x w')"
  by (simp add: bnd_def)

lemma bnd_Pair [simp]: "bnd (Pair (Inr x)) f = f x" "bnd (Pair (Inl e)) f = Pair (Inl e)"
  by (simp_all add: bnd_def fun_eq_iff)

lemma ignore_apply [simp]: "ignore m w = (Inr (), snd (m w))"
  by (simp add: ignore_def)

lemma gets_apply [simp]: "gets f w = (Inr (f w), w)"
  by (simp add: gets_def)

lemma guarded_simps [simp]: "guarded True m = m" "guarded False m = ret ()"
  by (simp_all add: guarded_def)

lemma bnd_ret [simp]: "bnd (ret x) f = f x"
  by (simp add: bnd_def ret_def)

lemma bnd_fail [simp]: "bnd (fail e) f = fail e"
  by (simp add: bnd_def fail_def)

lemma bnd_ret_right [simp]: "bnd m ret = m"
  by (rule ext) (simp add: bnd_def ret_def split: prod.split sum.split)

lemma bnd_assoc: "bnd (bnd m f) g = bnd m (\<lambda>x. bnd (f x) g)"
  by (rule ext) (simp add: bnd_def ret_def split: prod.split sum.split)

lemma bnd_Inr: "m w = (Inr x, w') \<Longrightarrow> bnd m f w = f x w'"
  by (simp add: bnd_def)

lemma bnd_Inl: "m w = (Inl e, w') \<Longrightarrow> bnd m f w = (Inl e, w')"
  by (simp add: bnd_def)

text \<open>A run of a sequence that ends well has a well-ended first part.\<close>

lemma bnd_InrE:
  assumes "bnd m f w = (Inr y, w2)"
  obtains x w1 where "m w = (Inr x, w1)" "f x w1 = (Inr y, w2)"
  using assms by (auto simp: bnd_def split: prod.splits sum.splits)

lemma bnd_cong [fundef_cong]:
  assumes "w = w'" "m w' = m' w'"
    and "\<And>x w1. m' w' = (Inr x, w1) \<Longrightarrow> f x w1 = f' x w1"
  shows "bnd m f w = bnd m' f' w'"
  using assms by (simp add: bnd_def split: prod.split sum.split)

lemma foreach_append: "foreach f (xs @ ys) = bnd (foreach f xs) (\<lambda>_. foreach f ys)"
  by (induction xs) (simp_all add: bnd_assoc)

section \<open>A Hoare logic for the monad\<close>

text \<open>
  \<open>hoare P m Q E\<close>: from a world that satisfies \<open>P\<close>, a run of \<open>m\<close> that returns \<open>x\<close> ends in a
  world with \<open>Q x\<close>, one that fails with \<open>e\<close> ends in a world with \<open>E e\<close>. Every run ends, so
  the triple is total. \<open>keeps I m\<close>: \<open>m\<close> preserves \<open>I\<close> whether it succeeds or fails.
\<close>

definition hoare ::
  "('w \<Rightarrow> bool) \<Rightarrow> ('w, 'a) io \<Rightarrow> ('a \<Rightarrow> 'w \<Rightarrow> bool) \<Rightarrow> (err \<Rightarrow> 'w \<Rightarrow> bool) \<Rightarrow> bool" where
  "hoare P m Q E \<longleftrightarrow>
     (\<forall>w. P w \<longrightarrow> (case m w of (Inl e, w') \<Rightarrow> E e w' | (Inr x, w') \<Rightarrow> Q x w'))"

definition keeps :: "('w \<Rightarrow> bool) \<Rightarrow> ('w, 'a) io \<Rightarrow> bool" where
  "keeps I m \<longleftrightarrow> hoare I m (\<lambda>_. I) (\<lambda>_. I)"

named_theorems hoare_rules
named_theorems keeps_rules

lemma hoareI:
  assumes "\<And>w x w'. P w \<Longrightarrow> m w = (Inr x, w') \<Longrightarrow> Q x w'"
    and "\<And>w e w'. P w \<Longrightarrow> m w = (Inl e, w') \<Longrightarrow> E e w'"
  shows "hoare P m Q E"
  using assms by (auto simp: hoare_def split: prod.split sum.split)

lemma hoareD:
  assumes "hoare P m Q E" "P w"
  shows "m w = (Inr x, w') \<Longrightarrow> Q x w'" and "m w = (Inl e, w') \<Longrightarrow> E e w'"
  using assms by (fastforce simp: hoare_def)+

lemma hoare_conseq:
  assumes "hoare P' m Q' E'" "\<And>w. P w \<Longrightarrow> P' w"
    and "\<And>x w. Q' x w \<Longrightarrow> Q x w" "\<And>e w. E' e w \<Longrightarrow> E e w"
  shows "hoare P m Q E"
  using assms by (fastforce simp: hoare_def split: prod.splits sum.splits)

lemma hoare_pre: "hoare P' m Q E \<Longrightarrow> (\<And>w. P w \<Longrightarrow> P' w) \<Longrightarrow> hoare P m Q E"
  by (erule hoare_conseq) auto

lemma hoare_conj:
  assumes "hoare P m Q E" "hoare P' m Q' E'"
  shows "hoare (\<lambda>w. P w \<and> P' w) m (\<lambda>x w. Q x w \<and> Q' x w) (\<lambda>e w. E e w \<and> E' e w)"
  using assms by (fastforce simp: hoare_def split: prod.splits sum.splits)

lemma hoare_ret [hoare_rules]: "hoare (Q x) (ret x) Q E"
  by (simp add: hoare_def run)

lemma hoare_fail [hoare_rules]: "hoare (E e) (fail e) Q E"
  by (simp add: hoare_def run)

lemma hoare_gets [hoare_rules]: "hoare (\<lambda>w. Q (f w) w) (gets f) Q E"
  by (simp add: hoare_def run)

lemma hoare_bnd:
  assumes "hoare P m R E" "\<And>x. hoare (R x) (f x) Q E"
  shows "hoare P (bnd m f) Q E"
  using assms by (fastforce simp: hoare_def bnd_def split: prod.splits sum.splits)

lemma hoare_foreach:
  assumes "\<And>x. x \<in> set xs \<Longrightarrow> hoare I (f x) (\<lambda>_. I) E"
  shows "hoare I (foreach f xs) (\<lambda>_. I) E"
  using assms
proof (induction xs)
  case Nil
  show ?case by (simp add: hoare_def run)
next
  case (Cons x xs)
  then have "hoare I (f x) (\<lambda>_. I) E" "hoare I (foreach f xs) (\<lambda>_. I) E" by simp_all
  then show ?case by (simp add: hoare_bnd)
qed

lemma keepsI:
  assumes "\<And>w. I w \<Longrightarrow> I (snd (m w))"
  shows "keeps I m"
  using assms by (fastforce simp: keeps_def hoare_def split: prod.split sum.split)

lemma keepsD: "keeps I m \<Longrightarrow> I w \<Longrightarrow> I (snd (m w))"
  by (cases "m w") (fastforce simp: keeps_def hoare_def split: sum.splits)

lemma keepsD2: "keeps I m \<Longrightarrow> I w \<Longrightarrow> m w = (r, w') \<Longrightarrow> I w'"
  by (drule keepsD) auto

lemma keeps_ret [keeps_rules, intro!, simp]: "keeps I (ret x)"
  by (rule keepsI) (simp add: run)

lemma keeps_fail [keeps_rules, intro!, simp]: "keeps I (fail e)"
  by (rule keepsI) (simp add: run)

lemma keeps_gets [keeps_rules, intro!, simp]: "keeps I (gets f)"
  by (rule keepsI) (simp add: run)

lemma keeps_bnd [keeps_rules]:
  "keeps I m \<Longrightarrow> (\<And>x. keeps I (f x)) \<Longrightarrow> keeps I (bnd m f)"
  by (simp add: keeps_def hoare_bnd)

lemma keeps_ignore [keeps_rules]: "keeps I m \<Longrightarrow> keeps I (ignore m)"
  by (rule keepsI) (simp add: keepsD)

lemma keeps_catch [keeps_rules]:
  "keeps I m \<Longrightarrow> (\<And>e. keeps I (h e)) \<Longrightarrow> keeps I (catch m h)"
proof (rule keepsI)
  fix w assume m: "keeps I m" and h: "\<And>e. keeps I (h e)" and "I w"
  obtain r w' where r: "m w = (r, w')" by fastforce
  then have "I w'" using m \<open>I w\<close> by (blast dest: keepsD2)
  then show "I (snd (catch m h w))" using r h by (cases r) (simp_all add: catch_def keepsD)
qed

lemma keeps_deferred [keeps_rules]: "keeps I m \<Longrightarrow> keeps I d \<Longrightarrow> keeps I (deferred d m)"
  by (rule keepsI) (auto simp: deferred_def dest: keepsD2 keepsD split: prod.split)

lemma keeps_sum [keeps_rules]:
  "(\<And>a. x = Inl a \<Longrightarrow> keeps I (f a)) \<Longrightarrow> (\<And>b. x = Inr b \<Longrightarrow> keeps I (g b)) \<Longrightarrow>
   keeps I (case x of Inl a \<Rightarrow> f a | Inr b \<Rightarrow> g b)"
  by (cases x) simp_all

lemma keeps_guarded [keeps_rules]: "(b \<Longrightarrow> keeps I m) \<Longrightarrow> keeps I (guarded b m)"
  by (cases b) simp_all

lemma keeps_foreach [keeps_rules]:
  "(\<And>x. x \<in> set xs \<Longrightarrow> keeps I (f x)) \<Longrightarrow> keeps I (foreach f xs)"
  by (simp add: keeps_def hoare_foreach)

lemma keeps_if [keeps_rules]:
  "(b \<Longrightarrow> keeps I m) \<Longrightarrow> (\<not> b \<Longrightarrow> keeps I m') \<Longrightarrow> keeps I (if b then m else m')"
  by simp

lemma keeps_option [keeps_rules]:
  "(x = None \<Longrightarrow> keeps I m) \<Longrightarrow> (\<And>y. x = Some y \<Longrightarrow> keeps I (f y)) \<Longrightarrow>
   keeps I (case x of None \<Rightarrow> m | Some y \<Rightarrow> f y)"
  by (cases x) simp_all

lemma keeps_prod [keeps_rules]:
  "(\<And>a b. x = (a, b) \<Longrightarrow> keeps I (f a b)) \<Longrightarrow> keeps I (case x of (a, b) \<Rightarrow> f a b)"
  by (cases x) simp_all

lemma keeps_let [keeps_rules]: "keeps I (f x) \<Longrightarrow> keeps I (let y = x in f y)"
  by simp

lemma keeps_conj: "keeps I m \<Longrightarrow> keeps J m \<Longrightarrow> keeps (\<lambda>w. I w \<and> J w) m"
  by (rule keepsI) (simp add: keepsD)

section \<open>Lists\<close>

lemma count_list_append: "count_list (xs @ ys) x = count_list xs x + count_list ys x"
  by (induction xs) auto

lemma count_list_filter_map:
  "count_list (map f (filter P xs)) y = length (filter (\<lambda>x. P x \<and> f x = y) xs)"
  by (induction xs) auto

lemma length_filter_conj_split:
  "length (filter P xs) = length (filter (\<lambda>x. P x \<and> Q x) xs) + length (filter (\<lambda>x. P x \<and> \<not> Q x) xs)"
  by (induction xs) auto

lemma distinct_map_filter: "distinct (map f xs) \<Longrightarrow> distinct (map f (filter P xs))"
  by (induction xs) auto

end
