(* ===== verification/GoStrings.thy ===== *)
theory GoStrings
  imports Prelude "HOL-Library.Sublist" "HOL-Library.Char_ord"
begin

text \<open>
  The parts of the Go standard library the sources use on strings. A Go string is a sequence of
  bytes, which is what HOL's \<open>string\<close> is; a byte slice is a list of \<open>8 word\<close>. Decimal and
  hexadecimal printing are proved injective, the UTF-8 coder is proved to keep ASCII apart from
  the bytes of longer sequences.
\<close>

section \<open>Bytes and strings\<close>

definition byte_of_char :: "char \<Rightarrow> byte" where
  "byte_of_char c = word_of_nat (of_char c)"

definition char_of_byte :: "byte \<Rightarrow> char" where
  "char_of_byte b = char_of (unat b)"

definition bytesOf :: "string \<Rightarrow> bytes" where
  "bytesOf s = map byte_of_char s"

definition stringOf :: "bytes \<Rightarrow> string" where
  "stringOf bs = map char_of_byte bs"

lemma of_char_less_256 [simp]: "(of_char c :: nat) < 256"
  using nat_of_char_less_256 [of c] by simp

lemma char_of_byte_of_char [simp]: "char_of_byte (byte_of_char c) = c"
  by (simp add: char_of_byte_def byte_of_char_def unat_of_nat)

lemma unat_byte_less: "unat (b :: byte) < 256"
  using unsigned_less [of b, where 'a = nat] by simp

lemma byte_of_char_of_byte [simp]: "byte_of_char (char_of_byte b) = b"
proof -
  have "unat b < 256" by (rule unat_byte_less)
  then show ?thesis by (simp add: char_of_byte_def byte_of_char_def)
qed

lemma stringOf_bytesOf [simp]: "stringOf (bytesOf s) = s"
  by (simp add: stringOf_def bytesOf_def comp_def)

lemma bytesOf_stringOf [simp]: "bytesOf (stringOf bs) = bs"
  by (simp add: stringOf_def bytesOf_def comp_def)

lemma bytesOf_inj: "bytesOf s = bytesOf t \<longleftrightarrow> s = t"
  by (metis stringOf_bytesOf)

lemma length_bytesOf [simp]: "length (bytesOf s) = length s"
  by (simp add: bytesOf_def)

section \<open>Prefixes, suffixes and cuts\<close>

text \<open>\<open>strings.HasPrefix\<close>, \<open>HasSuffix\<close>, \<open>TrimPrefix\<close>, \<open>TrimSuffix\<close>, \<open>Contains\<close>.\<close>

definition HasPrefix :: "string \<Rightarrow> string \<Rightarrow> bool" where
  "HasPrefix s p \<longleftrightarrow> take (length p) s = p"

definition HasSuffix :: "string \<Rightarrow> string \<Rightarrow> bool" where
  "HasSuffix s p \<longleftrightarrow> length p \<le> length s \<and> drop (length s - length p) s = p"

definition TrimPrefix :: "string \<Rightarrow> string \<Rightarrow> string" where
  "TrimPrefix s p = (if HasPrefix s p then drop (length p) s else s)"

definition TrimSuffix :: "string \<Rightarrow> string \<Rightarrow> string" where
  "TrimSuffix s p = (if HasSuffix s p then take (length s - length p) s else s)"

lemma HasPrefix_append [simp]: "HasPrefix (p @ s) p"
  by (simp add: HasPrefix_def)

lemma HasSuffix_append [simp]: "HasSuffix (s @ p) p"
  by (simp add: HasSuffix_def)

lemma TrimPrefix_append [simp]: "TrimPrefix (p @ s) p = s"
  by (simp add: TrimPrefix_def)

lemma TrimSuffix_append [simp]: "TrimSuffix (s @ p) p = s"
  by (simp add: TrimSuffix_def)

lemma HasPrefixE: "HasPrefix s p \<Longrightarrow> (\<And>t. s = p @ t \<Longrightarrow> P) \<Longrightarrow> P"
  by (metis HasPrefix_def append_take_drop_id)

text \<open>\<open>strings.Cut\<close> at a one-byte separator: the parts around its first occurrence.\<close>

definition Cut :: "string \<Rightarrow> char \<Rightarrow> string \<times> string \<times> bool" where
  "Cut s c = (if c \<in> set s
              then (takeWhile (\<lambda>x. x \<noteq> c) s, tl (dropWhile (\<lambda>x. x \<noteq> c) s), True)
              else (s, [], False))"

lemma Cut_append: "c \<notin> set a \<Longrightarrow> Cut (a @ c # b) c = (a, b, True)"
  by (induction a) (auto simp: Cut_def)

lemma Cut_join: "Cut s c = (a, b, True) \<Longrightarrow> s = a @ c # b \<and> c \<notin> set a"
proof -
  assume cut: "Cut s c = (a, b, True)"
  then have mem: "c \<in> set s" by (simp add: Cut_def split: if_splits)
  then obtain ys zs where s: "s = ys @ c # zs" and "c \<notin> set ys"
    by (meson split_list_first)
  then have "Cut s c = (ys, zs, True)" by (simp add: Cut_append)
  with cut s \<open>c \<notin> set ys\<close> show ?thesis by simp
qed

text \<open>
  \<open>path.Ext\<close> on a name without slashes, and on any path: the suffix that starts at the last dot
  of the last element, empty when there is no dot.
\<close>

definition pathExt :: "string \<Rightarrow> string" where
  "pathExt p =
     (let e = rev (takeWhile (\<lambda>c. c \<noteq> CHR ''/'') (rev p))
      in if CHR ''.'' \<in> set e
         then CHR ''.'' # rev (takeWhile (\<lambda>c. c \<noteq> CHR ''.'') (rev e)) else [])"

lemma pathExt_suffix: "HasSuffix p (pathExt p)"
proof -
  let ?e = "rev (takeWhile (\<lambda>c. c \<noteq> CHR ''/'') (rev p))"
  let ?x = "rev (takeWhile (\<lambda>c. c \<noteq> CHR ''.'') (rev ?e))"
  have pe: "p = rev (dropWhile (\<lambda>c. c \<noteq> CHR ''/'') (rev p)) @ ?e"
    by (metis rev_append rev_rev_ident takeWhile_dropWhile_id)
  show ?thesis
  proof (cases "CHR ''.'' \<in> set ?e")
    case True
    then have "CHR ''.'' \<in> set (rev ?e)" by simp
    then obtain ys zs where re: "rev ?e = ys @ CHR ''.'' # zs" and ny: "CHR ''.'' \<notin> set ys"
      by (meson split_list_first)
    have "takeWhile (\<lambda>c. c \<noteq> CHR ''.'') ys = ys"
      using ny by (auto simp: takeWhile_eq_all_conv)
    then have "takeWhile (\<lambda>c. c \<noteq> CHR ''.'') (ys @ CHR ''.'' # zs) = ys"
      using ny by (subst takeWhile_append2) auto
    then have x: "?x = rev ys" unfolding re by simp
    have "?e = rev (rev ?e)" by simp
    also have "\<dots> = rev zs @ CHR ''.'' # rev ys" unfolding re by simp
    finally have e: "?e = rev zs @ CHR ''.'' # rev ys" .
    have px: "pathExt p = CHR ''.'' # rev ys"
      unfolding pathExt_def Let_def using True x by (simp only: if_True)
    have "p = (rev (dropWhile (\<lambda>c. c \<noteq> CHR ''/'') (rev p)) @ rev zs) @ pathExt p"
      unfolding px by (subst pe, subst e) simp
    then show ?thesis by (metis HasSuffix_append)
  next
    case False
    then show ?thesis by (simp add: pathExt_def Let_def HasSuffix_def)
  qed
qed

lemma TrimSuffix_pathExt: "TrimSuffix p (pathExt p) @ pathExt p = p"
proof -
  have "HasSuffix p (pathExt p)" by (rule pathExt_suffix)
  then show ?thesis
    by (simp add: TrimSuffix_def HasSuffix_def) (metis append_take_drop_id)
qed

section \<open>Decimal and hexadecimal printing\<close>

definition digit :: "nat \<Rightarrow> char" where
  "digit n = ''0123456789abcdef'' ! n"

fun decimal :: "nat \<Rightarrow> string" where
  "decimal n = (if n < 10 then [digit n] else decimal (n div 10) @ [digit (n mod 10)])"

declare decimal.simps [simp del]

text \<open>\<open>strconv.Itoa\<close>, and \<open>%d\<close> of \<open>fmt.Sprintf\<close>.\<close>

definition Itoa :: "int \<Rightarrow> string" where
  "Itoa n = (if n < 0 then CHR ''-'' # decimal (nat (- n)) else decimal (nat n))"

lemma digit_inj: "m < 16 \<Longrightarrow> n < 16 \<Longrightarrow> digit m = digit n \<Longrightarrow> m = n"
proof -
  assume "m < 16" "n < 16" "digit m = digit n"
  moreover have "distinct (''0123456789abcdef'')" by simp
  ultimately show "m = n"
    unfolding digit_def by (subst (asm) nth_eq_iff_index_eq) simp_all
qed

lemma decimal_nonempty [simp]: "decimal n \<noteq> []"
  by (subst decimal.simps) simp

lemma decimal_inj: "decimal m = decimal n \<Longrightarrow> m = n"
proof (induction m arbitrary: n rule: decimal.induct)
  case (1 m)
  show ?case
  proof (cases "m < 10")
    case True
    then have m: "decimal m = [digit m]" by (subst decimal.simps) simp
    have n: "n < 10"
    proof (rule ccontr)
      assume "\<not> n < 10"
      then have "decimal n = decimal (n div 10) @ [digit (n mod 10)]"
        by (subst decimal.simps) simp
      with "1.prems" m have "decimal (n div 10) = []" by simp
      then show False by simp
    qed
    then have "decimal n = [digit n]" by (subst decimal.simps) simp
    with "1.prems" m have "digit m = digit n" by simp
    then show ?thesis using True n digit_inj by simp
  next
    case False
    then have m: "decimal m = decimal (m div 10) @ [digit (m mod 10)]"
      by (subst decimal.simps) simp
    have n: "\<not> n < 10"
    proof
      assume "n < 10"
      then have "decimal n = [digit n]" by (subst decimal.simps) simp
      with "1.prems" m have "decimal (m div 10) = []" by simp
      then show False by simp
    qed
    then have "decimal n = decimal (n div 10) @ [digit (n mod 10)]"
      by (subst decimal.simps) simp
    with "1.prems" m have d: "decimal (m div 10) = decimal (n div 10)"
      and r: "digit (m mod 10) = digit (n mod 10)" by simp_all
    from d False have "m div 10 = n div 10" by (rule "1.IH" [rotated])
    moreover from r have "m mod 10 = n mod 10"
      by (rule digit_inj [rotated 2]) (simp_all add: less_trans [OF mod_less_divisor])
    ultimately show ?thesis by (metis div_mult_mod_eq)
  qed
qed

lemma Itoa_inj_nat: "Itoa (int m) = Itoa (int n) \<Longrightarrow> m = n"
  by (simp add: Itoa_def decimal_inj)

text \<open>\<open>hex.EncodeToString\<close>.\<close>

primrec hexEncode :: "bytes \<Rightarrow> string" where
  "hexEncode [] = []"
| "hexEncode (b # bs) = digit (unat b div 16) # digit (unat b mod 16) # hexEncode bs"

definition isHexChar :: "char \<Rightarrow> bool" where
  "isHexChar c \<longleftrightarrow> c \<in> set ''0123456789abcdef''"

lemma digit_hex [simp]: "n < 16 \<Longrightarrow> isHexChar (digit n)"
  unfolding isHexChar_def digit_def by (rule nth_mem) simp

lemma unat_byte_bounds [simp]: "unat (b :: byte) div 16 < 16" "unat (b :: byte) mod 16 < 16"
proof -
  have "unat b < 256" by (rule unat_byte_less)
  then show "unat b div 16 < 16" by simp
qed simp

lemma hexEncode_hex: "c \<in> set (hexEncode bs) \<Longrightarrow> isHexChar c"
  by (induction bs) auto

lemma length_hexEncode [simp]: "length (hexEncode bs) = 2 * length bs"
  by (induction bs) auto

lemma hexEncode_inj: "hexEncode as = hexEncode bs \<Longrightarrow> as = bs"
proof (induction as arbitrary: bs)
  case Nil
  then show ?case by (cases bs) simp_all
next
  case (Cons a as)
  then obtain b bs' where bs: "bs = b # bs'" by (cases bs) auto
  with Cons.prems have d: "digit (unat a div 16) = digit (unat b div 16)"
    and m: "digit (unat a mod 16) = digit (unat b mod 16)"
    and r: "hexEncode as = hexEncode bs'" by simp_all
  from d have "unat a div 16 = unat b div 16" by (rule digit_inj [rotated 2]) simp_all
  moreover from m have "unat a mod 16 = unat b mod 16" by (rule digit_inj [rotated 2]) simp_all
  ultimately have "unat a = unat b" by (metis div_mult_mod_eq)
  then have "a = b" by (rule unsigned_word_eqI)
  then show ?case using Cons.IH [OF r] bs by simp
qed

section \<open>UTF-8\<close>

type_synonym rune = nat

definition RuneError :: rune where
  "RuneError = 65533"

text \<open>
  \<open>utf8.DecodeRune\<close>: the first rune and its width; an invalid or short sequence gives
  \<open>RuneError\<close> with width one. The ranges are those of the Go decoder's acceptance table.
\<close>

definition isCont :: "nat \<Rightarrow> bool" where
  "isCont b \<longleftrightarrow> 128 \<le> b \<and> b \<le> 191"

fun decodeRune :: "nat list \<Rightarrow> rune \<times> nat" where
  "decodeRune [] = (RuneError, 0)"
| "decodeRune (b0 # bs) =
    (if b0 < 128 then (b0, 1)
     else if 194 \<le> b0 \<and> b0 \<le> 223 then
       (case bs of
          b1 # _ \<Rightarrow> if isCont b1 then ((b0 - 192) * 64 + (b1 - 128), 2) else (RuneError, 1)
        | _ \<Rightarrow> (RuneError, 1))
     else if 224 \<le> b0 \<and> b0 \<le> 239 then
       (case bs of
          b1 # b2 # _ \<Rightarrow>
            if isCont b1 \<and> isCont b2 \<and> (b0 = 224 \<longrightarrow> 160 \<le> b1) \<and> (b0 = 237 \<longrightarrow> b1 \<le> 159)
            then ((b0 - 224) * 4096 + (b1 - 128) * 64 + (b2 - 128), 3) else (RuneError, 1)
        | _ \<Rightarrow> (RuneError, 1))
     else if 240 \<le> b0 \<and> b0 \<le> 244 then
       (case bs of
          b1 # b2 # b3 # _ \<Rightarrow>
            if isCont b1 \<and> isCont b2 \<and> isCont b3 \<and> (b0 = 240 \<longrightarrow> 144 \<le> b1) \<and> (b0 = 244 \<longrightarrow> b1 \<le> 143)
            then ((b0 - 240) * 262144 + (b1 - 128) * 4096 + (b2 - 128) * 64 + (b3 - 128), 4)
            else (RuneError, 1)
        | _ \<Rightarrow> (RuneError, 1))
     else (RuneError, 1))"

lemma decodeRune_width_pos: "0 < snd (decodeRune (b # bs))"
  by (auto split: list.splits)

function runesOf :: "nat list \<Rightarrow> rune list" where
  "runesOf bs = (if bs = [] then []
                 else fst (decodeRune bs) # runesOf (drop (snd (decodeRune bs)) bs))"
  by pat_completeness auto
termination
proof (relation "measure length")
  fix bs :: "nat list"
  assume "bs \<noteq> []"
  then obtain b bs' where "bs = b # bs'" by (cases bs) auto
  then show "(drop (snd (decodeRune bs)) bs, bs) \<in> measure length"
    using decodeRune_width_pos [of b bs'] by simp
qed simp

declare runesOf.simps [simp del]

definition runes :: "string \<Rightarrow> rune list" where
  "runes s = runesOf (map of_char s)"

text \<open>\<open>utf8.AppendRune\<close>: surrogates and values beyond U+10FFFF are written as \<open>RuneError\<close>.\<close>

definition scalarRune :: "rune \<Rightarrow> rune" where
  "scalarRune r = (if (55296 \<le> r \<and> r \<le> 57343) \<or> 1114111 < r then RuneError else r)"

definition utf8Bytes :: "rune \<Rightarrow> nat list" where
  "utf8Bytes r =
     (if r < 128 then [r]
      else if r < 2048 then [192 + r div 64, 128 + r mod 64]
      else if r < 65536 then [224 + r div 4096, 128 + r div 64 mod 64, 128 + r mod 64]
      else [240 + r div 262144, 128 + r div 4096 mod 64, 128 + r div 64 mod 64, 128 + r mod 64])"

definition encodeRune :: "rune \<Rightarrow> string" where
  "encodeRune r = map char_of (utf8Bytes (scalarRune r))"

text \<open>\<open>strings.Map\<close> with a mapping that drops no rune.\<close>

definition stringsMap :: "(rune \<Rightarrow> rune) \<Rightarrow> string \<Rightarrow> string" where
  "stringsMap f s = concat (map (encodeRune \<circ> f) (runes s))"

lemma encodeRune_ascii: "r < 128 \<Longrightarrow> encodeRune r = [char_of r]"
  by (simp add: encodeRune_def utf8Bytes_def scalarRune_def)

lemma utf8Bytes_high:
  assumes "128 \<le> r" "r \<le> 1114111" "n \<in> set (utf8Bytes r)"
  shows "128 \<le> n \<and> n < 256"
proof -
  have m: "x mod 64 < 64" for x :: nat by simp
  have a: "128 + x mod 64 < 256" for x :: nat using m [of x] by linarith
  have b: "r < 2048 \<Longrightarrow> 192 + r div 64 < 256" "r < 65536 \<Longrightarrow> 224 + r div 4096 < 256"
    "240 + r div 262144 < 256" using assms(2) by auto
  from assms(3) show ?thesis
    using assms(1) a b by (auto simp: utf8Bytes_def split: if_splits)
qed

lemma encodeRune_high:
  assumes "128 \<le> r" "c \<in> set (encodeRune r)"
  shows "128 \<le> (of_char c :: nat)"
proof -
  have r: "128 \<le> scalarRune r" "scalarRune r \<le> 1114111"
    using assms(1) by (auto simp: scalarRune_def RuneError_def)
  obtain n where n: "n \<in> set (utf8Bytes (scalarRune r))" "c = char_of n"
    using assms(2) by (auto simp: encodeRune_def)
  with utf8Bytes_high [OF r n(1)] show ?thesis by (simp add: of_char_of)
qed

text \<open>An ASCII byte of an encoded text stands for the rune of the same value.\<close>

lemma encodeRune_ascii_mem:
  assumes "c \<in> set (encodeRune r)" "(of_char c :: nat) < 128"
  shows "r = of_char c"
proof (cases "r < 128")
  case True
  then have "c = char_of r" using assms(1) by (simp add: encodeRune_ascii)
  then show ?thesis using True by (simp add: of_char_of)
next
  case False
  then have "128 \<le> (of_char c :: nat)" using assms(1) by (intro encodeRune_high [of r]) auto
  with assms(2) show ?thesis by simp
qed

lemma stringsMap_ascii_mem:
  assumes "c \<in> set (stringsMap f s)" "(of_char c :: nat) < 128"
  shows "\<exists>r \<in> set (runes s). f r = of_char c"
  using assms encodeRune_ascii_mem by (fastforce simp: stringsMap_def)

text \<open>
  \<open>strings.TrimSpace\<close>: the runes \<open>unicode.IsSpace\<close> accepts are cut off at both ends. The string is
  taken apart into its runes, each with the bytes it was decoded from.
\<close>

function runePieces :: "nat list \<Rightarrow> (rune \<times> nat list) list" where
  "runePieces bs = (if bs = [] then []
     else (fst (decodeRune bs), take (snd (decodeRune bs)) bs) # runePieces (drop (snd (decodeRune bs)) bs))"
  by pat_completeness auto
termination
proof (relation "measure length")
  fix bs :: "nat list"
  assume "bs \<noteq> []"
  then obtain b bs' where "bs = b # bs'" by (cases bs) auto
  then show "(drop (snd (decodeRune bs)) bs, bs) \<in> measure length"
    using decodeRune_width_pos [of b bs'] by simp
qed simp

declare runePieces.simps [simp del]

definition isSpaceRune :: "rune \<Rightarrow> bool" where
  "isSpaceRune r \<longleftrightarrow> 9 \<le> r \<and> r \<le> 13 \<or> r \<in> {32, 133, 160, 5760, 8232, 8233, 8239, 8287, 12288} \<or> 8192 \<le> r \<and> r \<le> 8202"

definition TrimSpace :: "string \<Rightarrow> string" where
  "TrimSpace s = map char_of (concat (map snd (
     rev (dropWhile (isSpaceRune \<circ> fst) (rev (dropWhile (isSpaceRune \<circ> fst) (runePieces (map of_char s))))))))"

end
