(* ===== verification/State.thy ===== *)
theory State
  imports GoStrings
begin

text \<open>
  The world the services run in, and the operations that touch it: the clock, the system's
  random source, the file system below the blob store, the tuples of the authorization server and
  the database. Every call that leaves the process goes through \<open>call\<close>, which consumes one entry
  of a fault schedule; the theorems that quantify over worlds therefore quantify over every
  pattern of infrastructure failures. \<open>InTx\<close> is the unit of work of \<open>lib/dbtx\<close>.
\<close>

section \<open>The world\<close>

text \<open>
  A call can go through, fail without an effect, take effect and still be reported as failed
  (a lost reply), or (writing a file) stop half-way. An exhausted schedule has no more failures.
  A process that crashes is a schedule in which every later call fails without an effect.
  \<open>FConflict\<close> is the conflict of a statement with transactions that commit in between, on behalf of
  other users: it names who they are and the contents they save.
\<close>

record rival =
  rv_Instance :: string
  rv_UserID :: string
  rv_Content :: bytes

datatype fault = FNone | FBefore | FAfter | FPartial nat | FConflict "rival list"

text \<open>A relationship tuple of the authorization server: user, relation, object.\<close>

type_synonym tuple = "string \<times> string \<times> string"

record 'd world =
  w_now :: int
  w_rand :: "nat \<Rightarrow> byte"
  w_faults :: "fault list"
  w_fs :: "string \<rightharpoonup> bytes"
  w_fga :: "tuple list"
  w_db :: 'd

type_synonym ('d, 'a) action = "('d world, 'a) io"

definition next_fault :: "('d, fault) action" where
  "next_fault w = (case w_faults w of
     [] \<Rightarrow> (Inr FNone, w)
   | f # fs \<Rightarrow> (Inr f, w\<lparr>w_faults := fs\<rparr>))"

definition call :: "('d, 'a) action \<Rightarrow> ('d, 'a) action" where
  "call m = bnd next_fault (\<lambda>f.
     case f of
       FNone \<Rightarrow> m
     | FAfter \<Rightarrow> (\<lambda>w. (Inl ErrIO, snd (m w)))
     | _ \<Rightarrow> fail ErrIO)"

text \<open>\<open>crypto/rand\<close>: the next \<open>n\<close> bytes of the random source, and the clock.\<close>

definition randRead :: "nat \<Rightarrow> ('d, bytes) action" where
  "randRead n w = (Inr (map (w_rand w) [0..<n]), w\<lparr>w_rand := (\<lambda>i. w_rand w (i + n))\<rparr>)"

definition time_now :: "('d, int) action" where
  "time_now = gets w_now"

section \<open>The database\<close>

text \<open>
  One statement. A query reads the database; a command replaces it or fails, in which case it has
  no effect. A command may use the server's \<open>now()\<close>.
\<close>

definition query :: "('d \<Rightarrow> 'a) \<Rightarrow> ('d, 'a) action" where
  "query f = call (gets (\<lambda>w. f (w_db w)))"

definition execRaw :: "(int \<Rightarrow> 'd \<Rightarrow> err + 'd) \<Rightarrow> ('d, unit) action" where
  "execRaw f w = (case f (w_now w) (w_db w) of
     Inl e \<Rightarrow> (Inl e, w)
   | Inr d \<Rightarrow> (Inr (), w\<lparr>w_db := d\<rparr>))"

definition exec :: "(int \<Rightarrow> 'd \<Rightarrow> err + 'd) \<Rightarrow> ('d, unit) action" where
  "exec f = call (execRaw f)"

text \<open>
  \<open>dbtx.InTx\<close>: begin, run the body, commit; every exit that is not a successful commit rolls back
  to the database the transaction began with. A commit whose reply is lost is reported as an
  error although it took effect.
\<close>

definition rollback :: "'d \<Rightarrow> (err + 'a) \<times> 'd world \<Rightarrow> (err + 'a) \<times> 'd world" where
  "rollback d r = (fst r, (snd r)\<lparr>w_db := d\<rparr>)"

definition commit :: "'d \<Rightarrow> 'a \<Rightarrow> ('d, 'a) action" where
  "commit d x = bnd next_fault (\<lambda>f.
     case f of
       FNone \<Rightarrow> ret x
     | FAfter \<Rightarrow> fail ErrIO
     | _ \<Rightarrow> (\<lambda>w. rollback d (Inl ErrIO, w)))"

definition InTx :: "('d, 'a) action \<Rightarrow> ('d, 'a) action" where
  "InTx fn = bnd (call (ret ())) (\<lambda>_ w.
     case fn w of
       (Inl e, w') \<Rightarrow> rollback (w_db w) (Inl e, w')
     | (Inr x, w') \<Rightarrow> commit (w_db w) x w')"

section \<open>Running without faults\<close>

definition calm :: "'d world \<Rightarrow> bool" where
  "calm w \<longleftrightarrow> w_faults w = []"

lemma calm_update [simp]:
  "calm (w\<lparr>w_db := d\<rparr>) = calm w" "calm (w\<lparr>w_fs := f\<rparr>) = calm w" "calm (w\<lparr>w_fga := t\<rparr>) = calm w"
  "calm (w\<lparr>w_rand := r\<rparr>) = calm w" "calm (w\<lparr>w_faults := []\<rparr>)"
  by (simp_all add: calm_def)

lemma next_fault_calm: "calm w \<Longrightarrow> next_fault w = (Inr FNone, w)"
  by (simp add: calm_def next_fault_def)

lemma call_calm [simp]: "calm w \<Longrightarrow> call m w = m w"
  by (simp add: call_def bnd_def next_fault_calm)

lemma query_calm [simp]: "calm w \<Longrightarrow> query f w = (Inr (f (w_db w)), w)"
  by (simp add: query_def)

lemma exec_calm [simp]:
  "calm w \<Longrightarrow> exec f w = (case f (w_now w) (w_db w) of
     Inl e \<Rightarrow> (Inl e, w) | Inr d \<Rightarrow> (Inr (), w\<lparr>w_db := d\<rparr>))"
  by (simp add: exec_def execRaw_def)

lemma commit_calm [simp]: "calm w \<Longrightarrow> commit d x w = (Inr x, w)"
  by (simp add: commit_def bnd_def next_fault_calm run)

lemma InTx_calm:
  "calm w \<Longrightarrow> InTx fn w = (case fn w of
     (Inl e, w') \<Rightarrow> (Inl e, w'\<lparr>w_db := w_db w\<rparr>) | (Inr x, w') \<Rightarrow> commit (w_db w) x w')"
  by (simp add: InTx_def bnd_def run rollback_def split: prod.split sum.split)

section \<open>What a call can do\<close>

text \<open>
  The possible outcomes of a call under every schedule: the run itself, the run with its reply
  lost, or an error with no effect. Only the schedule is consumed.
\<close>

lemma call_cases:
  assumes "call m w = (r, w')"
  obtains
    (ran) fs where "m (w\<lparr>w_faults := fs\<rparr>) = (r, w')"
  | (lost) fs r' where "m (w\<lparr>w_faults := fs\<rparr>) = (r', w')" "r = Inl ErrIO"
  | (none) fs where "w' = w\<lparr>w_faults := fs\<rparr>" "r = Inl ErrIO"
proof -
  show ?thesis
  proof (cases "w_faults w")
    case Nil
    then have same: "w\<lparr>w_faults := []\<rparr> = w" by simp
    have "m (w\<lparr>w_faults := []\<rparr>) = (r, w')"
      unfolding same using assms Nil by (simp add: call_def bnd_def next_fault_def)
    then show ?thesis by (rule ran)
  next
    case (Cons f fs)
    then show ?thesis
      using assms ran [of fs] lost [of fs] none [of fs]
      by (cases f) (auto simp: call_def bnd_def next_fault_def run prod_eq_iff)
  qed
qed

text \<open>An assertion that does not look at the fault schedule, or at the random source.\<close>

definition faultless :: "('d world \<Rightarrow> bool) \<Rightarrow> bool" where
  "faultless I \<longleftrightarrow> (\<forall>w fs. I (w\<lparr>w_faults := fs\<rparr>) = I w)"

definition randless :: "('d world \<Rightarrow> bool) \<Rightarrow> bool" where
  "randless I \<longleftrightarrow> (\<forall>w r. I (w\<lparr>w_rand := r\<rparr>) = I w)"

lemma hoare_call:
  assumes "faultless P" "hoare P m Q E" "\<And>w. P w \<Longrightarrow> E ErrIO w"
    and "\<And>x w. Q x w \<Longrightarrow> E ErrIO w" "\<And>e w. E e w \<Longrightarrow> E ErrIO w"
  shows "hoare P (call m) Q E"
proof (rule hoareI)
  fix w x w' assume P: "P w" and c: "call m w = (Inr x, w')"
  have Pf: "P (w\<lparr>w_faults := fs\<rparr>)" for fs using P assms(1) by (simp add: faultless_def)
  from c show "Q x w'"
    by (cases rule: call_cases) (use hoareD(1) [OF assms(2) Pf] in auto)
next
  fix w e w' assume P: "P w" and c: "call m w = (Inl e, w')"
  have Pf: "P (w\<lparr>w_faults := fs\<rparr>)" for fs using P assms(1) by (simp add: faultless_def)
  from c show "E e w'"
  proof (cases rule: call_cases)
    case (ran fs)
    then show ?thesis using hoareD(2) [OF assms(2) Pf] by blast
  next
    case (lost fs r')
    then show ?thesis
      using hoareD [OF assms(2) Pf [of fs]] assms(4,5) by (cases r') auto
  next
    case (none fs)
    then show ?thesis using assms(3) Pf by auto
  qed
qed

lemma keeps_call [keeps_rules]: "faultless I \<Longrightarrow> keeps I m \<Longrightarrow> keeps I (call m)"
  unfolding keeps_def by (rule hoare_call) auto

lemma keeps_query [keeps_rules]: "faultless I \<Longrightarrow> keeps I (query f)"
  unfolding query_def by (intro keeps_rules) auto

lemma keeps_exec [keeps_rules]:
  assumes "faultless I"
    and "\<And>w d. I w \<Longrightarrow> f (w_now w) (w_db w) = Inr d \<Longrightarrow> I (w\<lparr>w_db := d\<rparr>)"
  shows "keeps I (exec f)"
  unfolding exec_def
  by (intro keeps_call keepsI assms(1)) (auto simp: execRaw_def assms(2) split: sum.split)

lemma keeps_randRead [keeps_rules]: "randless I \<Longrightarrow> keeps I (randRead n)"
  by (rule keepsI) (simp add: randRead_def randless_def)

lemma keeps_time_now [keeps_rules]: "keeps I time_now"
  by (simp add: time_now_def)

text \<open>
  The parts of the world an assertion on the files, the tuples, the clock or the database looks
  at. Assertions of these forms ignore the schedule and the random source.
\<close>

lemma faultless_parts [simp]:
  "faultless (\<lambda>w. P (w_fs w))" "faultless (\<lambda>w. P' (w_db w))" "faultless (\<lambda>w. P'' (w_fga w))"
  "faultless (\<lambda>w. R (w_now w) (w_fs w) (w_fga w) (w_db w))"
  by (simp_all add: faultless_def)

lemma randless_parts [simp]:
  "randless (\<lambda>w. P (w_fs w))" "randless (\<lambda>w. P' (w_db w))" "randless (\<lambda>w. P'' (w_fga w))"
  "randless (\<lambda>w. R (w_now w) (w_fs w) (w_fga w) (w_db w))"
  by (simp_all add: randless_def)

section \<open>Atomicity of the unit of work\<close>

text \<open>
  A transaction whose body leaves everything but the database, the schedule and the random source
  alone: it returns, and the database is the one the body made, or it fails and the database is
  the one before, or the one the body made (the reply of the commit was lost).
\<close>

lemma InTx_outcome:
  assumes "InTx fn w = (r, w')"
  obtains
    (committed) x fs w1 where "fn (w\<lparr>w_faults := fs\<rparr>) = (Inr x, w1)" "r = Inr x" "\<exists>fs'. w' = w1\<lparr>w_faults := fs'\<rparr>"
  | (lost) x fs w1 where "fn (w\<lparr>w_faults := fs\<rparr>) = (Inr x, w1)" "r = Inl ErrIO" "\<exists>fs'. w' = w1\<lparr>w_faults := fs'\<rparr>"
  | (undone) e r' fs w1 where "fn (w\<lparr>w_faults := fs\<rparr>) = (r', w1)" "r = Inl e" "r' = Inl e \<or> e = ErrIO"
      "\<exists>fs'. w' = w1\<lparr>w_faults := fs', w_db := w_db w\<rparr>"
  | (unbegun) fs where "r = Inl ErrIO" "w' = w\<lparr>w_faults := fs\<rparr>"
proof -
  obtain b wb where b: "call (ret ()) w = (b, wb)" by fastforce
  then obtain fs where wb: "wb = w\<lparr>w_faults := fs\<rparr>" and bc: "b = Inr () \<or> b = Inl ErrIO"
    by (cases rule: call_cases) (auto simp: run)
  show ?thesis
  proof (cases "b = Inl ErrIO")
    case True
    then have "r = Inl ErrIO \<and> w' = w\<lparr>w_faults := fs\<rparr>"
      using assms b wb by (simp add: InTx_def bnd_def)
    then show ?thesis using unbegun by blast
  next
    case False
    with bc have bi: "b = Inr ()" by blast
    obtain r1 w1 where f: "fn (w\<lparr>w_faults := fs\<rparr>) = (r1, w1)" by fastforce
    have run: "(r, w') = (case r1 of
        Inl e \<Rightarrow> rollback (w_db w) (Inl e, w1) | Inr x \<Rightarrow> commit (w_db w) x w1)"
      using assms b bi wb f by (simp add: InTx_def bnd_def split: sum.splits)
    show ?thesis
    proof (cases r1)
      case (Inl e)
      then have "r = Inl e" "w' = w1\<lparr>w_faults := w_faults w1, w_db := w_db w\<rparr>"
        using run by (simp_all add: rollback_def)
      then show ?thesis using undone [OF f, of e] Inl by blast
    next
      case (Inr x)
      obtain g wg where g: "next_fault w1 = (Inr g, wg)" "\<exists>fs'. wg = w1\<lparr>w_faults := fs'\<rparr>"
        unfolding next_fault_def by (cases "w_faults w1") (auto, metis surjective update_convs(3))
      then have c: "(r, w') = (case g of FNone \<Rightarrow> (Inr x, wg) | FAfter \<Rightarrow> (Inl ErrIO, wg)
          | _ \<Rightarrow> (Inl ErrIO, wg\<lparr>w_db := w_db w\<rparr>))"
        using run Inr by (simp add: commit_def bnd_def ret_def fail_def rollback_def split: fault.splits)
      consider "g = FNone" | "g = FAfter" | "g \<noteq> FNone" "g \<noteq> FAfter" by blast
      then show ?thesis
      proof cases
        case 1
        then show ?thesis using committed [OF f [unfolded Inr]] c g by auto
      next
        case 2
        then show ?thesis using lost [OF f [unfolded Inr]] c g by auto
      next
        case 3
        then have "r = Inl ErrIO" "w' = wg\<lparr>w_db := w_db w\<rparr>"
          using c by (auto split: fault.splits)
        then show ?thesis using undone [OF f, of ErrIO] g by auto
      qed
    qed
  qed
qed

section \<open>A world to run examples in\<close>

definition demoWorld :: "'d \<Rightarrow> 'd world" where
  "demoWorld d = \<lparr>w_now = 0, w_rand = (\<lambda>i. word_of_nat i), w_faults = [], w_fs = Map.empty, w_fga = [], w_db = d\<rparr>"

lemma demoWorld_simps [simp]:
  "w_now (demoWorld d) = 0" "w_faults (demoWorld d) = []" "w_fs (demoWorld d) = Map.empty"
  "w_fga (demoWorld d) = []" "w_db (demoWorld d) = d" "calm (demoWorld d)"
  by (simp_all add: demoWorld_def calm_def)

end
