(* ===== verification/Tenant.thy ===== *)
theory Tenant
  imports State
begin

text \<open>
  The tenant resource of the control plane (\<open>control-plane/apis/v1alpha1/tenant_types.go\<close>), with the two
  patterns that say which slugs and domains are acceptable, and the host names and URLs the reconciler
  derives from a tenant (\<open>tenantDomain\<close>, \<open>issuerHost\<close>, \<open>tenantIssuer\<close>, \<open>instanceDomain\<close>,
  \<open>publicURL\<close> of \<open>control-plane/internal/controller/tenant_controller.go\<close>).
\<close>

section \<open>Regular expressions\<close>

text \<open>
  The part of \<open>regexp\<close> that the two patterns use: classes of ASCII characters, concatenation, choice,
  star and bounded repetition, anchored at both ends. The matcher computes derivatives; \<open>lang\<close> is the
  language of an expression, and the two agree.
\<close>

datatype rexp = Zero | One | Class "char \<Rightarrow> bool" | Seq rexp rexp | Alt rexp rexp | Star rexp

primrec nullable :: "rexp \<Rightarrow> bool" where
  "nullable Zero = False"
| "nullable One = True"
| "nullable (Class p) = False"
| "nullable (Seq r s) = (nullable r \<and> nullable s)"
| "nullable (Alt r s) = (nullable r \<or> nullable s)"
| "nullable (Star r) = True"

primrec deriv :: "char \<Rightarrow> rexp \<Rightarrow> rexp" where
  "deriv c Zero = Zero"
| "deriv c One = Zero"
| "deriv c (Class p) = (if p c then One else Zero)"
| "deriv c (Seq r s) = (if nullable r then Alt (Seq (deriv c r) s) (deriv c s) else Seq (deriv c r) s)"
| "deriv c (Alt r s) = Alt (deriv c r) (deriv c s)"
| "deriv c (Star r) = Seq (deriv c r) (Star r)"

primrec MatchString :: "rexp \<Rightarrow> string \<Rightarrow> bool" where
  "MatchString r [] = nullable r"
| "MatchString r (c # cs) = MatchString (deriv c r) cs"

inductive_set star :: "string set \<Rightarrow> string set" for A where
  star_Nil: "[] \<in> star A"
| star_step: "u \<in> A \<Longrightarrow> v \<in> star A \<Longrightarrow> u @ v \<in> star A"

primrec lang :: "rexp \<Rightarrow> string set" where
  "lang Zero = {}"
| "lang One = {[]}"
| "lang (Class p) = {[c] | c. p c}"
| "lang (Seq r s) = {u @ v | u v. u \<in> lang r \<and> v \<in> lang s}"
| "lang (Alt r s) = lang r \<union> lang s"
| "lang (Star r) = star (lang r)"

primrec upTo :: "nat \<Rightarrow> rexp \<Rightarrow> rexp" where
  "upTo 0 r = One"
| "upTo (Suc n) r = Alt One (Seq r (upTo n r))"

lemma nullable_lang: "nullable r \<longleftrightarrow> [] \<in> lang r"
  by (induction r) (auto intro: star_Nil)

lemma star_Cons: "c # cs \<in> star A \<longleftrightarrow> (\<exists>u v. c # u \<in> A \<and> v \<in> star A \<and> cs = u @ v)"
proof
  have "w \<in> star A \<Longrightarrow> w = c # cs \<Longrightarrow> \<exists>u v. c # u \<in> A \<and> v \<in> star A \<and> cs = u @ v" for w
  proof (induction rule: star.induct)
    case (star_step u v)
    show ?case
    proof (cases u)
      case Nil
      then show ?thesis using star_step by simp
    next
      case (Cons x xs)
      then have "x = c" "cs = xs @ v" using star_step.prems by simp_all
      then show ?thesis using Cons star_step.hyps by blast
    qed
  qed simp
  then show "c # cs \<in> star A \<Longrightarrow> \<exists>u v. c # u \<in> A \<and> v \<in> star A \<and> cs = u @ v" by blast
next
  assume "\<exists>u v. c # u \<in> A \<and> v \<in> star A \<and> cs = u @ v"
  then show "c # cs \<in> star A" using star_step [of "c # _" A] by fastforce
qed

lemma seq_Cons:
  "(\<exists>u v. c # cs = u @ v \<and> u \<in> A \<and> v \<in> B) \<longleftrightarrow>
   ([] \<in> A \<and> c # cs \<in> B) \<or> (\<exists>u v. cs = u @ v \<and> c # u \<in> A \<and> v \<in> B)"
  by (auto simp: Cons_eq_append_conv)

lemma deriv_lang: "cs \<in> lang (deriv c r) \<longleftrightarrow> c # cs \<in> lang r"
proof (induction r arbitrary: cs)
  case (Seq r s)
  have "cs \<in> lang (deriv c (Seq r s)) \<longleftrightarrow>
      ([] \<in> lang r \<and> c # cs \<in> lang s) \<or> (\<exists>u v. cs = u @ v \<and> c # u \<in> lang r \<and> v \<in> lang s)"
    by (auto simp: Seq.IH nullable_lang)
  also have "\<dots> \<longleftrightarrow> (\<exists>u v. c # cs = u @ v \<and> u \<in> lang r \<and> v \<in> lang s)" by (simp only: seq_Cons)
  finally show ?case by simp
next
  case (Star r)
  show ?case by (auto simp: star_Cons Star.IH)
qed auto

lemma MatchString_lang: "MatchString r s \<longleftrightarrow> s \<in> lang r"
  by (induction s arbitrary: r) (simp_all add: nullable_lang deriv_lang)

lemma lang_Class_Seq: "lang (Seq (Class p) r) = {c # v | c v. p c \<and> v \<in> lang r}"
proof -
  have "s \<in> lang (Seq (Class p) r) \<longleftrightarrow> (\<exists>c v. s = c # v \<and> p c \<and> v \<in> lang r)" for s
  proof
    show "\<exists>c v. s = c # v \<and> p c \<and> v \<in> lang r" if "s \<in> lang (Seq (Class p) r)" using that by auto
    show "s \<in> lang (Seq (Class p) r)" if "\<exists>c v. s = c # v \<and> p c \<and> v \<in> lang r"
    proof -
      from that obtain c v where "s = [c] @ v" "p c" "v \<in> lang r" by auto
      then show ?thesis unfolding lang.simps by blast
    qed
  qed
  then show ?thesis by blast
qed

lemma lang_Seq_Class: "lang (Seq r (Class p)) = {u @ [c] | u c. u \<in> lang r \<and> p c}"
  by auto

lemma lang_upTo_Class: "lang (upTo n (Class p)) = {s. length s \<le> n \<and> (\<forall>c \<in> set s. p c)}"
proof (induction n)
  case (Suc n)
  have "s \<in> lang (upTo (Suc n) (Class p)) \<longleftrightarrow> length s \<le> Suc n \<and> (\<forall>c \<in> set s. p c)" for s
    by (cases s) (auto simp: Suc.IH lang_Class_Seq simp del: lang.simps(4))
  then show ?case by blast
qed auto

section \<open>Slugs and domains\<close>

definition lowerNum :: "char \<Rightarrow> bool" where
  "lowerNum c = (let n = of_char c :: nat in 97 \<le> n \<and> n \<le> 122 \<or> 48 \<le> n \<and> n \<le> 57)"

definition lowerNumDash :: "char \<Rightarrow> bool" where
  "lowerNumDash c \<longleftrightarrow> lowerNum c \<or> c = CHR ''-''"

definition lowerLetter :: "char \<Rightarrow> bool" where
  "lowerLetter c = (let n = of_char c :: nat in 97 \<le> n \<and> n \<le> 122)"

definition slugRe :: rexp where
  "slugRe = Seq (Class lowerNum) (Alt One (Seq (upTo 61 (Class lowerNumDash)) (Class lowerNum)))"

definition ValidSlug :: "string \<Rightarrow> bool" where
  "ValidSlug s = MatchString slugRe s"

definition domainRe :: rexp where
  "domainRe =
    (let label = Seq slugRe (Class (\<lambda>c. c = CHR ''.''))
     in Seq (Seq label (Star label)) (Seq (Class lowerLetter) (Seq (Class lowerLetter) (Star (Class lowerLetter)))))"

definition ValidDomain :: "string \<Rightarrow> bool" where
  "ValidDomain s = MatchString domainRe s"

lemma slug_lang:
  "s \<in> lang slugRe \<longleftrightarrow>
   (\<exists>c. s = [c] \<and> lowerNum c) \<or>
   (\<exists>c m d. s = c # m @ [d] \<and> lowerNum c \<and> lowerNum d \<and> length m \<le> 61 \<and> (\<forall>x \<in> set m. lowerNumDash x))"
  unfolding slugRe_def
  by (auto simp: lang_upTo_Class lang_Class_Seq lang_Seq_Class simp del: upTo.simps lang.simps(4))

lemma slug_label:
  "s \<in> lang slugRe \<longleftrightarrow>
   s \<noteq> [] \<and> length s \<le> 63 \<and> (\<forall>c \<in> set s. lowerNumDash c) \<and> hd s \<noteq> CHR ''-'' \<and> last s \<noteq> CHR ''-''"
proof -
  have dash: "\<not> lowerNum (CHR ''-'')" by (simp add: lowerNum_def of_char_def)
  have split: "s = [hd s] \<or> s = hd s # butlast (tl s) @ [last s]" if "s \<noteq> []"
    using that by (cases s) (auto simp: neq_Nil_conv)
  have mid: "set (butlast (tl s)) \<subseteq> set s" for s :: string
    by (cases s) (auto dest: in_set_butlastD)
  show ?thesis
  proof
    assume "s \<in> lang slugRe"
    then show "s \<noteq> [] \<and> length s \<le> 63 \<and> (\<forall>c \<in> set s. lowerNumDash c) \<and> hd s \<noteq> CHR ''-'' \<and> last s \<noteq> CHR ''-''"
      using dash by (auto simp: slug_lang lowerNumDash_def)
  next
    assume s: "s \<noteq> [] \<and> length s \<le> 63 \<and> (\<forall>c \<in> set s. lowerNumDash c) \<and> hd s \<noteq> CHR ''-'' \<and> last s \<noteq> CHR ''-''"
    then have ends: "lowerNum (hd s)" "lowerNum (last s)" by (auto simp: lowerNumDash_def)
    from split s consider "s = [hd s]" | "s = hd s # butlast (tl s) @ [last s]" by blast
    then show "s \<in> lang slugRe"
    proof cases
      case 1
      then show ?thesis using ends by (auto simp: slug_lang)
    next
      case 2
      have "length (butlast (tl s)) \<le> 61" using s by (simp add: le_diff_conv)
      then show ?thesis unfolding slug_lang using 2 ends s mid [of s] by blast
    qed
  qed
qed

lemma ValidSlug_chars: "ValidSlug s \<Longrightarrow> s \<noteq> [] \<and> (\<forall>c \<in> set s. lowerNumDash c)"
  by (simp add: ValidSlug_def MatchString_lang slug_label)

lemma ValidSlug_no_dot: "ValidSlug s \<Longrightarrow> CHR ''.'' \<notin> set s"
proof -
  have "\<not> lowerNumDash (CHR ''.'')" by (simp add: lowerNumDash_def lowerNum_def of_char_def)
  then show "ValidSlug s \<Longrightarrow> CHR ''.'' \<notin> set s" using ValidSlug_chars by blast
qed

lemma star_lang: "s \<in> star A \<longleftrightarrow> (\<exists>us. s = concat us \<and> set us \<subseteq> A)"
proof
  show "s \<in> star A \<Longrightarrow> \<exists>us. s = concat us \<and> set us \<subseteq> A"
  proof (induction rule: star.induct)
    case star_Nil
    show ?case by (rule exI [of _ "[]"]) simp
  next
    case (star_step u v)
    then obtain us where "v = concat us" "set us \<subseteq> A" by blast
    then show ?case using star_step.hyps by (intro exI [of _ "u # us"]) simp
  qed
next
  have "set us \<subseteq> A \<Longrightarrow> concat us \<in> star A" for us
    by (induction us) (auto intro: star.intros)
  then show "\<exists>us. s = concat us \<and> set us \<subseteq> A \<Longrightarrow> s \<in> star A" by blast
qed

section \<open>The tenant resource\<close>

record tenant_spec =
  ts_Slug :: string
  ts_DisplayName :: string
  ts_Domain :: string
  ts_Apps :: "string list"

datatype tenant_phase = PhaseUnset | TenantPending | TenantReady | TenantDeleting | TenantFailed

record condition =
  cd_Type :: string
  cd_Status :: bool
  cd_Reason :: string
  cd_ObservedGeneration :: int

record tenant_status =
  st_Phase :: tenant_phase
  st_InstanceID :: string
  st_Issuer :: string
  st_ClientID :: string
  st_Conditions :: "condition list"

text \<open>Of the metadata the code reads the name, the generation, the deletion time stamp and the finalizers.\<close>

record tenant =
  tn_Name :: string
  tn_Generation :: int
  tn_Deleting :: bool
  tn_Finalizers :: "string list"
  tn_Spec :: tenant_spec
  tn_Status :: tenant_status

section \<open>The reconciler's configuration\<close>

text \<open>
  The fields of \<open>TenantReconciler\<close> but for the two clients. \<open>rc_hostname\<close> stands for \<open>url.Parse\<close> followed
  by \<open>Hostname\<close>; \<open>None\<close> is a parse error.
\<close>

record reconciler =
  rc_BaseDomain :: string
  rc_ExternalPort :: string
  rc_ImagePrefix :: string
  rc_ImageTag :: string
  rc_URLScheme :: string
  rc_TLSIssuer :: string
  rc_HTTP01Issuer :: string
  rc_LoginDomain :: string
  rc_BackupBucket :: string
  rc_BackupEndpoint :: string
  rc_BackupS3KeyID :: string
  rc_BackupS3Secret :: string
  rc_BackupRegion :: string
  rc_BackupAgeRecipient :: string
  rc_BackupHeartbeat :: string
  rc_hostname :: "string \<Rightarrow> string option"

section \<open>Hosts and URLs\<close>

definition hostOf :: "reconciler \<Rightarrow> string \<Rightarrow> string" where
  "hostOf r raw = (if raw = [] then [] else case rc_hostname r raw of None \<Rightarrow> [] | Some h \<Rightarrow> h)"

definition issuerHost :: "reconciler \<Rightarrow> tenant \<Rightarrow> string" where
  "issuerHost r t = ts_Slug (tn_Spec t) @ ''.'' @ rc_BaseDomain r"

definition tenantDomain :: "reconciler \<Rightarrow> tenant \<Rightarrow> string" where
  "tenantDomain r t =
    (let h = hostOf r (st_Issuer (tn_Status t)) in
     if h \<noteq> [] \<and> h \<noteq> issuerHost r t then h
     else if ts_Domain (tn_Spec t) \<noteq> [] then ts_Domain (tn_Spec t)
     else ts_Slug (tn_Spec t) @ ''.'' @ rc_BaseDomain r)"

definition publicURL :: "reconciler \<Rightarrow> string \<Rightarrow> string" where
  "publicURL r host =
    (let scheme = (if rc_URLScheme r = [] then ''http'' else rc_URLScheme r);
         port = rc_ExternalPort r
     in if port = [] \<or> (scheme = ''https'' \<and> port = ''443'') \<or> (scheme = ''http'' \<and> port = ''80'')
        then scheme @ ''://'' @ host
        else scheme @ ''://'' @ host @ '':'' @ port)"

definition tenantIssuer :: "reconciler \<Rightarrow> tenant \<Rightarrow> string" where
  "tenantIssuer r t =
    (if st_Issuer (tn_Status t) \<noteq> [] then st_Issuer (tn_Status t) else publicURL r (issuerHost r t))"

definition instanceDomain :: "reconciler \<Rightarrow> tenant \<Rightarrow> string" where
  "instanceDomain r t =
    (let h = hostOf r (st_Issuer (tn_Status t)) in if h \<noteq> [] then h else issuerHost r t)"

definition orgName :: "tenant \<Rightarrow> string" where
  "orgName t = (if ts_DisplayName (tn_Spec t) \<noteq> [] then ts_DisplayName (tn_Spec t) else ts_Slug (tn_Spec t))"

text \<open>
  A configuration the platform runs with: an HTTP scheme, a decimal port, a base domain of DNS characters,
  and a URL parser that finds the host of \<open>scheme://host\<close> and \<open>scheme://host:port\<close>.
\<close>

definition dnsHost :: "string \<Rightarrow> bool" where
  "dnsHost h \<longleftrightarrow> h \<noteq> [] \<and> list_all (\<lambda>c. lowerNumDash c \<or> c = CHR ''.'') h"

definition isDecimal :: "string \<Rightarrow> bool" where
  "isDecimal s \<longleftrightarrow> list_all (\<lambda>c. 48 \<le> (of_char c :: nat) \<and> (of_char c :: nat) \<le> 57) s"

definition parsesHosts :: "(string \<Rightarrow> string option) \<Rightarrow> bool" where
  "parsesHosts f \<longleftrightarrow>
     (\<forall>scheme h p. scheme \<in> {''http'', ''https''} \<longrightarrow> dnsHost h \<longrightarrow> isDecimal p \<longrightarrow>
        f (scheme @ ''://'' @ h) = Some h \<and> f (scheme @ ''://'' @ h @ '':'' @ p) = Some h)"

definition rcOK :: "reconciler \<Rightarrow> bool" where
  "rcOK r \<longleftrightarrow>
     rc_URLScheme r \<in> {[], ''http'', ''https''} \<and> isDecimal (rc_ExternalPort r) \<and> dnsHost (rc_BaseDomain r) \<and>
     parsesHosts (rc_hostname r)"

lemma publicURL_nonempty [simp]: "publicURL r h \<noteq> []"
  by (simp add: publicURL_def Let_def)

lemma hostOf_publicURL: "rcOK r \<Longrightarrow> dnsHost h \<Longrightarrow> hostOf r (publicURL r h) = h"
  unfolding rcOK_def parsesHosts_def by (auto simp: hostOf_def publicURL_def Let_def)

lemma dnsHost_issuerHost: "rcOK r \<Longrightarrow> ValidSlug (ts_Slug (tn_Spec t)) \<Longrightarrow> dnsHost (issuerHost r t)"
  using ValidSlug_chars by (fastforce simp: rcOK_def dnsHost_def issuerHost_def list_all_iff)

lemma issuer_host: "rcOK r \<Longrightarrow> ValidSlug (ts_Slug (tn_Spec t)) \<Longrightarrow> st_Issuer (tn_Status t) = [] \<Longrightarrow> hostOf r (tenantIssuer r t) = issuerHost r t"
  by (simp add: tenantIssuer_def hostOf_publicURL dnsHost_issuerHost)

definition dottedLabels :: "string set" where
  "dottedLabels = {concat (map (\<lambda>l. l @ ''.'') labels) | labels. labels \<noteq> [] \<and> (\<forall>l \<in> set labels. ValidSlug l)}"

definition topLevel :: "string set" where
  "topLevel = {t. 2 \<le> length t \<and> (\<forall>c \<in> set t. lowerLetter c)}"

lemma label_lang: "lang (Seq slugRe (Class (\<lambda>c. c = CHR ''.''))) = (\<lambda>l. l @ ''.'') ` {l. ValidSlug l}"
  by (auto simp: lang_Seq_Class ValidSlug_def MatchString_lang simp del: lang.simps(4))

lemma star_labels:
  "star ((\<lambda>l. l @ ''.'') ` {l. ValidSlug l}) = {concat (map (\<lambda>l. l @ ''.'') labels) | labels. \<forall>l \<in> set labels. ValidSlug l}"
  (is "star ?A = ?B")
proof -
  have "s \<in> ?B" if s: "s \<in> star ?A" for s
  proof -
    obtain us where us: "s = concat us" "set us \<subseteq> ?A" using s unfolding star_lang by blast
    from us(2) have "\<exists>ls. us = map (\<lambda>l. l @ ''.'') ls \<and> (\<forall>l \<in> set ls. ValidSlug l)"
    proof (induction us)
      case (Cons u us)
      then obtain ls l where "us = map (\<lambda>l. l @ ''.'') ls" "\<forall>l \<in> set ls. ValidSlug l" "u = l @ ''.''" "ValidSlug l" by auto
      then show ?case by (intro exI [of _ "l # ls"]) simp
    qed simp
    then show ?thesis using us(1) by blast
  qed
  moreover have "s \<in> star ?A" if "s \<in> ?B" for s
    using that unfolding star_lang by fastforce
  ultimately show ?thesis by blast
qed

lemma letters_lang: "star {[c] | c. lowerLetter c} = {t. \<forall>c \<in> set t. lowerLetter c}"
proof -
  have "t \<in> star {[c] | c. lowerLetter c} \<longleftrightarrow> (\<forall>c \<in> set t. lowerLetter c)" for t
    by (induction t) (auto simp: star_Nil star_Cons)
  then show ?thesis by blast
qed

lemma topLevel_lang: "lang (Seq (Class lowerLetter) (Seq (Class lowerLetter) (Star (Class lowerLetter)))) = topLevel"
proof -
  have "t \<in> topLevel \<longleftrightarrow> (\<exists>c d v. t = c # d # v \<and> lowerLetter c \<and> lowerLetter d \<and> (\<forall>x \<in> set v. lowerLetter x))" for t
    unfolding topLevel_def by (cases t; cases "tl t") auto
  then show ?thesis
    by (auto simp: lang_Class_Seq letters_lang simp del: lang.simps(4))
qed

lemma dotted_lang:
  "lang (Seq (Seq slugRe (Class (\<lambda>c. c = CHR ''.''))) (Star (Seq slugRe (Class (\<lambda>c. c = CHR ''.''))))) = dottedLabels"
proof -
  have "s \<in> dottedLabels \<longleftrightarrow> (\<exists>l ls. s = (l @ ''.'') @ concat (map (\<lambda>l. l @ ''.'') ls) \<and> ValidSlug l \<and> (\<forall>l \<in> set ls. ValidSlug l))" for s
  proof
    assume "s \<in> dottedLabels"
    then obtain ls where "s = concat (map (\<lambda>l. l @ ''.'') ls)" "ls \<noteq> []" "\<forall>l \<in> set ls. ValidSlug l"
      by (auto simp: dottedLabels_def)
    then show "\<exists>l ls. s = (l @ ''.'') @ concat (map (\<lambda>l. l @ ''.'') ls) \<and> ValidSlug l \<and> (\<forall>l \<in> set ls. ValidSlug l)"
      by (cases ls) auto
  next
    assume "\<exists>l ls. s = (l @ ''.'') @ concat (map (\<lambda>l. l @ ''.'') ls) \<and> ValidSlug l \<and> (\<forall>l \<in> set ls. ValidSlug l)"
    then obtain l ls where "s = concat (map (\<lambda>l. l @ ''.'') (l # ls))" "\<forall>x \<in> set (l # ls). ValidSlug x" by auto
    then show "s \<in> dottedLabels" unfolding dottedLabels_def by (intro CollectI exI [of _ "l # ls"]) simp
  qed
  then have "dottedLabels = {u @ v | u v. u \<in> (\<lambda>l. l @ ''.'') ` {l. ValidSlug l} \<and>
        v \<in> {concat (map (\<lambda>l. l @ ''.'') labels) | labels. \<forall>l \<in> set labels. ValidSlug l}}"
    by (intro set_eqI) (simp only: mem_Collect_eq image_iff Bex_def, blast)
  then show ?thesis
    unfolding lang.simps(4) [of "Seq slugRe _" "Star _"] lang.simps(6) label_lang star_labels by simp
qed

lemma domain_lang: "lang domainRe = {u @ v | u v. u \<in> dottedLabels \<and> v \<in> topLevel}"
  unfolding domainRe_def Let_def lang.simps(4) [of "Seq (Seq slugRe _) (Star _)"] dotted_lang topLevel_lang ..

section \<open>Properties\<close>

text \<open>C36. The two patterns accept exactly what their comments promise: a slug is a DNS label (one to 63 lower-case
  letters, digits and hyphens, with no hyphen at either end), and a domain is one or more labels, each followed by
  a dot, and a top-level label of two or more letters.\<close>

theorem slug_domain_exact:
  "(ValidSlug s \<longleftrightarrow>
      s \<noteq> [] \<and> length s \<le> 63 \<and> list_all lowerNumDash s \<and> hd s \<noteq> CHR ''-'' \<and> last s \<noteq> CHR ''-'') \<and>
   (ValidDomain d \<longleftrightarrow>
      (\<exists>labels tld. d = concat (map (\<lambda>l. l @ ''.'') labels) @ tld \<and> labels \<noteq> [] \<and> list_all ValidSlug labels \<and>
         2 \<le> length tld \<and> list_all lowerLetter tld))"
proof
  show "ValidSlug s \<longleftrightarrow>
      s \<noteq> [] \<and> length s \<le> 63 \<and> list_all lowerNumDash s \<and> hd s \<noteq> CHR ''-'' \<and> last s \<noteq> CHR ''-''"
    by (simp add: ValidSlug_def MatchString_lang slug_label list_all_iff)
  have "ValidDomain d \<longleftrightarrow> (\<exists>u v. d = u @ v \<and> u \<in> dottedLabels \<and> v \<in> topLevel)"
    by (simp add: ValidDomain_def MatchString_lang domain_lang)
  then show "ValidDomain d \<longleftrightarrow>
      (\<exists>labels tld. d = concat (map (\<lambda>l. l @ ''.'') labels) @ tld \<and> labels \<noteq> [] \<and> list_all ValidSlug labels \<and>
         2 \<le> length tld \<and> list_all lowerLetter tld)"
    unfolding dottedLabels_def topLevel_def by (auto simp: list_all_iff)
qed

end
