(* ===== verification/Uuid.thy ===== *)
theory Uuid
  imports State
begin

text \<open>
  Object identifiers, \<open>lib/id\<close>: UUIDv7 from the clock and ten random bytes. The lemmas give the
  layout of the canonical text form and its order by time.
\<close>

unbundle bit_operations_syntax

section \<open>Generation\<close>

definition unixMilli :: "int \<Rightarrow> u64" where
  "unixMilli ns = word_of_int (ns div 1000000)"

definition v7Bytes :: "u64 \<Rightarrow> bytes \<Rightarrow> bytes" where
  "v7Bytes ms r =
    [ucast (drop_bit 40 ms), ucast (drop_bit 32 ms), ucast (drop_bit 24 ms),
     ucast (drop_bit 16 ms), ucast (drop_bit 8 ms), ucast ms,
     (r ! 0 AND 0x0f) OR 0x70, r ! 1, (r ! 2 AND 0x3f) OR 0x80] @ drop 3 r"

definition formatUUID :: "bytes \<Rightarrow> string" where
  "formatUUID u =
     hexEncode (take 4 u) @ ''-'' @ hexEncode (take 2 (drop 4 u)) @ ''-'' @
     hexEncode (take 2 (drop 6 u)) @ ''-'' @ hexEncode (take 2 (drop 8 u)) @ ''-'' @
     hexEncode (take 6 (drop 10 u))"

definition V7 :: "('d, string) action" where
  "V7 = bnd time_now (\<lambda>now.
        bnd (randRead 10) (\<lambda>r.
        ret (formatUUID (v7Bytes (unixMilli now) r))))"

section \<open>Facts\<close>

lemma V7_run:
  "V7 w = (Inr (formatUUID (v7Bytes (unixMilli (w_now w)) (map (w_rand w) [0..<10]))),
           w\<lparr>w_rand := (\<lambda>i. w_rand w (i + 10))\<rparr>)"
  by (simp add: V7_def time_now_def randRead_def bnd_def run)

lemma keeps_V7 [keeps_rules]: "randless I \<Longrightarrow> keeps I V7"
  by (rule keepsI) (simp add: V7_run randless_def)

lemma length_v7Bytes: "length r = 10 \<Longrightarrow> length (v7Bytes ms r) = 16"
  by (simp add: v7Bytes_def)

lemma length_formatUUID: "length u = 16 \<Longrightarrow> length (formatUUID u) = 36"
  by (simp add: formatUUID_def)

lemma formatUUID_chars:
  "c \<in> set (formatUUID u) \<Longrightarrow> isHexChar c \<or> c = CHR ''-''"
  by (auto simp: formatUUID_def dest: hexEncode_hex)

lemma V7_chars: "V7 w = (Inr i, w') \<Longrightarrow> c \<in> set i \<Longrightarrow> isHexChar c \<or> c = CHR ''-''"
  by (auto simp: V7_run dest: formatUUID_chars)

lemma V7_nonempty: "V7 w = (Inr i, w') \<Longrightarrow> i \<noteq> []"
  by (auto simp: V7_run formatUUID_def)

text \<open>The version and variant digits.\<close>

lemma version_digit: "unat ((b AND 0x0f) OR 0x70 :: byte) div 16 = 7"
proof -
  have "drop_bit 4 ((b AND 0x0f) OR 0x70 :: byte) = 7"
    by (rule bit_word_eqI) (auto simp: bit_simps bit_numeral_rec less_Suc_eq numeral_eq_Suc)
  then have "unat (drop_bit 4 ((b AND 0x0f) OR 0x70 :: byte)) = 7" by simp
  then show ?thesis by (simp add: drop_bit_eq_div unat_div)
qed

lemma variant_digit: "unat ((b AND 0x3f) OR 0x80 :: byte) div 16 \<in> {8, 9, 10, 11}"
proof -
  have "drop_bit 6 ((b AND 0x3f) OR 0x80 :: byte) = 2"
    by (rule bit_word_eqI) (auto simp: bit_simps bit_numeral_rec less_Suc_eq numeral_eq_Suc)
  then have "unat (drop_bit 6 ((b AND 0x3f) OR 0x80 :: byte)) = 2" by simp
  then have "unat ((b AND 0x3f) OR 0x80 :: byte) div 64 = 2" by (simp add: drop_bit_eq_div unat_div)
  then have "128 \<le> unat ((b AND 0x3f) OR 0x80 :: byte)" "unat ((b AND 0x3f) OR 0x80 :: byte) < 192"
    by simp_all
  then show ?thesis by auto
qed

section \<open>Order\<close>

text \<open>The lexicographic order of byte strings, which is the order of the text column.\<close>

definition lexLess :: "'a::linorder list \<Rightarrow> 'a list \<Rightarrow> bool" where
  "lexLess xs ys \<longleftrightarrow> (xs, ys) \<in> lexord {(a, b). a < b}"

lemma lexLess_simps [simp]:
  "lexLess [] ys \<longleftrightarrow> ys \<noteq> []" "\<not> lexLess xs []"
  "lexLess (x # xs) (y # ys) \<longleftrightarrow> x < y \<or> x = y \<and> lexLess xs ys"
  by (cases ys) (auto simp: lexLess_def)

lemma lexLess_append: "lexLess xs ys \<Longrightarrow> length xs = length ys \<Longrightarrow> lexLess (xs @ us) (ys @ vs)"
proof (induction xs arbitrary: ys)
  case Nil
  then show ?case by simp
next
  case (Cons x xs)
  then show ?case by (cases ys) auto
qed

lemma lexLess_same: "lexLess us vs \<Longrightarrow> lexLess (xs @ us) (xs @ vs)"
  by (induction xs) auto

lemma digit_less: "m < n \<Longrightarrow> n < 16 \<Longrightarrow> digit m < digit n"
proof -
  have "\<forall>n < 16. \<forall>m < n. digit m < digit n"
    by (simp add: digit_def numeral_eq_Suc All_less_Suc less_char_def)
  then show "m < n \<Longrightarrow> n < 16 \<Longrightarrow> digit m < digit n" by blast
qed

lemma hexEncode_less:
  "lexLess (map unat as) (map unat bs) \<Longrightarrow> length as = length bs \<Longrightarrow> lexLess (hexEncode as) (hexEncode bs)"
proof (induction as arbitrary: bs)
  case Nil
  then show ?case by simp
next
  case (Cons a as)
  then obtain b bs' where bs: "bs = b # bs'" by (cases bs) auto
  show ?case
  proof (cases "unat a < unat b")
    case True
    then consider "unat a div 16 < unat b div 16"
      | "unat a div 16 = unat b div 16" "unat a mod 16 < unat b mod 16"
      by (metis div_le_mono div_mult_mod_eq le_neq_implies_less less_imp_le_nat nat_add_left_cancel_less)
    then show ?thesis
      by cases (auto simp: bs digit_less)
  next
    case False
    then show ?thesis using Cons bs by auto
  qed
qed

text \<open>The first six bytes are the 48 low bits of the millisecond clock, most significant first.\<close>

primrec bigEndian :: "nat \<Rightarrow> nat \<Rightarrow> nat list" where
  "bigEndian 0 n = []"
| "bigEndian (Suc k) n = (n div 256 ^ k mod 256) # bigEndian k n"

lemma bigEndian_less:
  "m mod 256 ^ k < n mod 256 ^ k \<Longrightarrow> lexLess (bigEndian k m) (bigEndian k n)"
proof (induction k)
  case 0
  then show ?case by simp
next
  case (Suc k)
  have split: "x mod 256 ^ Suc k = 256 ^ k * (x div 256 ^ k mod 256) + x mod 256 ^ k" for x :: nat
    by (metis mod_mult2_eq mult.commute power_Suc)
  let ?a = "m div 256 ^ k mod 256" and ?b = "n div 256 ^ k mod 256"
  have lt: "m mod 256 ^ k < 256 ^ k" "n mod 256 ^ k < 256 ^ k" by simp_all
  show ?case
  proof (cases "?a = ?b")
    case True
    then have "m mod 256 ^ k < n mod 256 ^ k" using Suc.prems split [of m] split [of n] by simp
    then show ?thesis using Suc.IH True by simp
  next
    case False
    have "?a \<le> ?b"
    proof (rule ccontr)
      assume "\<not> ?a \<le> ?b"
      then have "256 ^ k * (?b + 1) \<le> 256 ^ k * ?a" by (intro mult_le_mono2) simp
      then show False using Suc.prems split [of m] split [of n] lt by simp
    qed
    then show ?thesis using False by simp
  qed
qed

lemma unat_ucast_byte: "unat (ucast (drop_bit k (w :: u64)) :: byte) = unat w div 2 ^ k mod 256"
proof -
  have "unat (drop_bit k w) = unat w div 2 ^ k" by (metis drop_bit_eq_div unat_drop_bit_eq)
  then show ?thesis by (simp add: unsigned_ucast_eq take_bit_eq_mod del: drop_bit_eq_div)
qed

lemma bigEndian_6:
  "bigEndian 6 n = [n div 256 ^ 5 mod 256, n div 256 ^ 4 mod 256, n div 256 ^ 3 mod 256,
     n div 256 ^ 2 mod 256, n div 256 mod 256, n mod 256]"
proof -
  have "(6 :: nat) = Suc (Suc (Suc (Suc (Suc (Suc 0)))))" by simp
  then show ?thesis by (simp only: bigEndian.simps) simp
qed

lemma v7Bytes_time: "map unat (take 6 (v7Bytes ms r)) = bigEndian 6 (unat ms)"
proof -
  have "unat (ucast ms :: byte) = unat ms mod 256" using unat_ucast_byte [of 0 ms] by simp
  then show ?thesis
    by (simp add: v7Bytes_def bigEndian_6 unat_ucast_byte del: drop_bit_eq_div)
qed

lemma formatUUID_less:
  assumes "lexLess (map unat (take 6 u)) (map unat (take 6 v))" "length u = 16" "length v = 16"
  shows "lexLess (formatUUID u) (formatUUID v)"
proof -
  have split: "take 6 x = take 4 x @ take 2 (drop 4 x)" for x :: bytes
    using take_add [of 4 2 x] by simp
  show ?thesis
  proof (cases "take 4 u = take 4 v")
    case True
    have "lexLess xs ys" if "lexLess (zs @ xs) (zs @ ys)" for xs ys zs :: "nat list"
      using that by (induction zs) auto
    then have "lexLess (map unat (take 2 (drop 4 u))) (map unat (take 2 (drop 4 v)))"
      using assms(1) unfolding split map_append True by blast
    then have "lexLess (hexEncode (take 2 (drop 4 u))) (hexEncode (take 2 (drop 4 v)))"
      using assms(2,3) by (intro hexEncode_less) simp_all
    then show ?thesis
      unfolding formatUUID_def True using assms(2,3)
      by (intro lexLess_same) (simp add: lexLess_append)
  next
    case False
    have "lexLess xs ys"
      if "lexLess (xs @ us) (ys @ vs)" "length xs = length ys" "xs \<noteq> ys" for xs ys us vs :: "nat list"
      using that
    proof (induction xs arbitrary: ys)
      case (Cons x xs)
      then show ?case by (cases ys) auto
    qed simp
    moreover have "map unat (take 4 u) \<noteq> map unat (take 4 v)"
      using False map_injective [of unat] by (metis injI unsigned_word_eqI)
    ultimately have "lexLess (map unat (take 4 u)) (map unat (take 4 v))"
      using assms unfolding split map_append by simp
    then have "lexLess (hexEncode (take 4 u)) (hexEncode (take 4 v))"
      using assms(2,3) by (intro hexEncode_less) simp_all
    then show ?thesis
      unfolding formatUUID_def using assms(2,3) by (intro lexLess_append) simp_all
  qed
qed

lemma take_two_drop: "Suc n < length xs \<Longrightarrow> take 2 (drop n xs) = [xs ! n, xs ! Suc n]"
  by (metis Cons_nth_drop_Suc Suc_lessD numeral_2_eq_2 take0 take_Suc_Cons)

lemma unat_unixMilli:
  assumes "0 \<le> ns div 1000000" "ns div 1000000 < 2 ^ 48"
  shows "unat (unixMilli ns) = nat (ns div 1000000)"
proof -
  have "uint (unixMilli ns) = ns div 1000000"
    using assms unfolding unixMilli_def
    by (simp add: uint_word_of_int)
  then show ?thesis by (metis nat_uint_eq)
qed

section \<open>Properties\<close>

text \<open>C38. The layout of an identifier: 36 characters with dashes after the eighth, twelfth, sixteenth and
  twentieth digit, version digit 7 and a variant digit among 8, 9, a and b.\<close>

theorem V7_layout:
  "\<exists>i. fst (V7 w) = Inr i \<and> length i = 36 \<and> i ! 8 = CHR ''-'' \<and> i ! 13 = CHR ''-'' \<and>
     i ! 18 = CHR ''-'' \<and> i ! 23 = CHR ''-'' \<and> i ! 14 = CHR ''7'' \<and> i ! 19 \<in> set ''89ab''"
proof -
  define r where "r = map (w_rand w) [0..<10]"
  define u where "u = v7Bytes (unixMilli (w_now w)) r"
  have lr: "length r = 10" by (simp add: r_def)
  have lu: "length u = 16" using lr by (simp add: u_def length_v7Bytes)
  have u6: "u ! 6 = (r ! 0 AND 0x0f) OR 0x70" and u8: "u ! 8 = (r ! 2 AND 0x3f) OR 0x80"
    by (simp_all add: u_def v7Bytes_def)
  have t: "take 2 (drop 6 u) = [u ! 6, u ! 7]" "take 2 (drop 8 u) = [u ! 8, u ! 9]"
    using lu by (simp_all add: take_two_drop)
  have "fst (V7 w) = Inr (formatUUID u)" by (simp add: V7_run u_def r_def)
  moreover have "digit (unat (u ! 6) div 16) = CHR ''7''"
    unfolding u6 version_digit by (simp add: digit_def)
  moreover have "digit (unat (u ! 8) div 16) \<in> set ''89ab''"
    unfolding u8 using variant_digit [of "r ! 2"] by (auto simp: digit_def)
  moreover have "length (take 4 u) = 4" "length (take 2 (drop 4 u)) = 2" using lu by simp_all
  ultimately show ?thesis
    using length_formatUUID [OF lu] t
    by (intro exI [of _ "formatUUID u"]) (simp add: formatUUID_def nth_append)
qed

text \<open>Identifiers are ordered by time: an identifier made at an earlier millisecond is lexicographically
  smaller than one made at a later millisecond, whatever the random bytes, up to the year 10889
  (48 bits of milliseconds).\<close>

theorem V7_ordered:
  assumes "0 \<le> w_now w" "w_now w div 1000000 < w_now w' div 1000000" "w_now w' div 1000000 < 2 ^ 48"
    and "V7 w = (Inr i, v)" "V7 w' = (Inr j, v')"
  shows "lexLess i j"
proof -
  let ?m = "w_now w div 1000000" and ?n = "w_now w' div 1000000"
  have pos: "0 \<le> ?m" using assms(1) by simp
  have um: "unat (unixMilli (w_now w)) = nat ?m" and un: "unat (unixMilli (w_now w')) = nat ?n"
    using pos assms(2,3) by (intro unat_unixMilli; linarith)+
  have "nat ?m < nat ?n" "nat ?n < 256 ^ 6" using pos assms(2,3) by simp_all
  then have "lexLess (bigEndian 6 (nat ?m)) (bigEndian 6 (nat ?n))"
    by (intro bigEndian_less) (simp only: mod_less)
  then have "lexLess (formatUUID (v7Bytes (unixMilli (w_now w)) (map (w_rand w) [0..<10])))
      (formatUUID (v7Bytes (unixMilli (w_now w')) (map (w_rand w') [0..<10])))"
    by (intro formatUUID_less) (simp_all add: v7Bytes_time um un length_v7Bytes)
  then show ?thesis using assms(4,5) by (auto simp: V7_run)
qed

theorem V7_ordered_witness:
  "\<exists>i j v v'. V7 (demoWorld ()) = (Inr i, v) \<and> V7 ((demoWorld ())\<lparr>w_now := 1000000\<rparr>) = (Inr j, v') \<and> lexLess i j"
proof -
  obtain i v where i: "V7 (demoWorld ()) = (Inr i, v)" using V7_run by blast
  obtain j v' where j: "V7 ((demoWorld ())\<lparr>w_now := 1000000\<rparr>) = (Inr j, v')" using V7_run by blast
  from V7_ordered [OF _ _ _ i j] i j show ?thesis by simp
qed

end
