(* ===== verification/Pii.thy ===== *)
theory Pii
  imports Uuid "HOL-Library.List_Lexorder" "HOL-Library.Multiset"
begin

text \<open>
  The personal-data library, \<open>lib/pii\<close>: data subjects and their canonical form, the pseudonym
  allocator over any store, the in-memory store, the descriptor registry and retention classes.
  The locale \<open>pseudonym_store\<close> is the contract of the \<open>PseudonymStore\<close> interface.
\<close>

section \<open>Subjects\<close>

record subject =
  sub_Instance :: string
  sub_UserID :: string

definition ParseSubject :: "string \<Rightarrow> err + subject" where
  "ParseSubject s = (case Cut s (CHR ''/'') of (ins, userID, ok) \<Rightarrow>
     if \<not> ok \<or> ins = [] \<or> userID = [] then Inl ErrSubject
     else Inr \<lparr>sub_Instance = ins, sub_UserID = userID\<rparr>)"

definition subjectString :: "subject \<Rightarrow> string" where
  "subjectString s = sub_Instance s @ ''/'' @ sub_UserID s"

definition OpenFGAObject :: "subject \<Rightarrow> string" where
  "OpenFGAObject s = ''user:'' @ subjectString s"

definition Zero :: "subject \<Rightarrow> bool" where
  "Zero s \<longleftrightarrow> sub_Instance s = [] \<and> sub_UserID s = []"

text \<open>A subject as the identity provider issues it: a domain without slashes and a user id.\<close>

definition canonical :: "subject \<Rightarrow> bool" where
  "canonical s \<longleftrightarrow> sub_Instance s \<noteq> [] \<and> sub_UserID s \<noteq> [] \<and> CHR ''/'' \<notin> set (sub_Instance s)"

lemma ParseSubject_String: "canonical s \<Longrightarrow> ParseSubject (subjectString s) = Inr s"
  by (cases s) (simp add: ParseSubject_def subjectString_def canonical_def Cut_append)

lemma String_ParseSubject: "ParseSubject t = Inr s \<Longrightarrow> canonical s \<and> subjectString s = t"
  by (auto simp: ParseSubject_def subjectString_def canonical_def split: prod.splits if_splits dest: Cut_join)

lemma subjectString_inj:
  "canonical s \<Longrightarrow> canonical t \<Longrightarrow> subjectString s = subjectString t \<Longrightarrow> s = t"
  by (metis ParseSubject_String sum.inject(2))

section \<open>Pseudonyms\<close>

record 'd pseud_store =
  ps_Lookup :: "subject \<Rightarrow> ('d, string option) action"
  ps_Save :: "string \<Rightarrow> subject \<Rightarrow> ('d, unit) action"
  ps_Resolve :: "string \<Rightarrow> ('d, subject option) action"
  ps_Delete :: "subject \<Rightarrow> ('d, unit) action"

text \<open>Base32 of five bytes, most significant digit first, in lower case.\<close>

definition base32Digit :: "nat \<Rightarrow> char" where
  "base32Digit n = ''abcdefghijklmnopqrstuvwxyz234567'' ! n"

definition base32Group :: "bytes \<Rightarrow> string" where
  "base32Group b =
    (let n = foldl (\<lambda>a x. a * 256 + unat x) 0 b
     in map (\<lambda>k. base32Digit (n div 32 ^ k mod 32)) [7, 6, 5, 4, 3, 2, 1, 0])"

definition newToken :: "('d, string) action" where
  "newToken = bnd (randRead 15) (\<lambda>b.
     ret (base32Group (take 5 b) @ base32Group (take 5 (drop 5 b)) @ base32Group (drop 10 b)))"

definition TokenFor :: "'d pseud_store \<Rightarrow> subject \<Rightarrow> ('d, string) action" where
  "TokenFor S s =
    bnd (ps_Lookup S s) (\<lambda>found.
    case found of
      Some tok \<Rightarrow> ret tok
    | None \<Rightarrow>
        bnd newToken (\<lambda>tok.
        catch (bnd (ps_Save S tok s) (\<lambda>_. ret tok)) (\<lambda>e w.
          case ps_Lookup S s w of
            (Inr (Some existing), w') \<Rightarrow> (Inr existing, w')
          | (_, w') \<Rightarrow> (Inl e, w'))))"

definition ResolveToken :: "'d pseud_store \<Rightarrow> string \<Rightarrow> ('d, subject option) action" where
  "ResolveToken S token = ps_Resolve S token"

definition Erase :: "'d pseud_store \<Rightarrow> subject \<Rightarrow> ('d, unit) action" where
  "Erase S s = ps_Delete S s"

lemma newToken_run: "\<exists>t. newToken w = (Inr t, w\<lparr>w_rand := (\<lambda>i. w_rand w (i + 15))\<rparr>) \<and> length t = 24"
  by (simp add: newToken_def randRead_def bnd_def run base32Group_def Let_def)

section \<open>The contract of a pseudonym store\<close>

text \<open>
  \<open>tokenOf w s\<close> is the token of a subject, \<open>holder w t\<close> the subject of a token. At most one token
  per subject, a rejected \<open>Save\<close> changes nothing, and deleting a subject makes its token
  unresolvable. \<open>good\<close> is the invariant of the store, \<open>adm\<close> the subjects it is used for.
\<close>

locale pseudonym_store =
  fixes S :: "'d pseud_store"
    and tokenOf :: "'d world \<Rightarrow> subject \<Rightarrow> string option"
    and holder :: "'d world \<Rightarrow> string \<Rightarrow> subject option"
    and good :: "'d world \<Rightarrow> bool"
    and adm :: "subject \<Rightarrow> bool"
  assumes view: "w_db w' = w_db w \<Longrightarrow> tokenOf w' = tokenOf w \<and> holder w' = holder w \<and> good w' = good w"
    and Lookup_law: "ps_Lookup S s w = (rl, w') \<Longrightarrow> good w \<Longrightarrow>
      tokenOf w' = tokenOf w \<and> holder w' = holder w \<and> good w' \<and> (\<forall>t. rl = Inr t \<longrightarrow> t = tokenOf w s)"
    and Save_law: "ps_Save S t s w = (ru, w') \<Longrightarrow> good w \<Longrightarrow> adm s \<Longrightarrow>
      good w' \<and> (\<forall>s'. adm s' \<longrightarrow> s' \<noteq> s \<longrightarrow> tokenOf w' s' = tokenOf w s') \<and>
      (tokenOf w' s = tokenOf w s \<or> tokenOf w s = None \<and> tokenOf w' s = Some t) \<and>
      (ru = Inr () \<longrightarrow> tokenOf w s = None \<and> tokenOf w' s = Some t \<and> holder w' t = Some s)"
    and Resolve_law: "ps_Resolve S t w = (rr, w') \<Longrightarrow> good w \<Longrightarrow>
      tokenOf w' = tokenOf w \<and> holder w' = holder w \<and> good w' \<and> (\<forall>x. rr = Inr x \<longrightarrow> x = holder w t)"
    and Delete_law: "ps_Delete S s w = (ru, w') \<Longrightarrow> good w \<Longrightarrow> adm s \<Longrightarrow>
      good w' \<and> (\<forall>s'. adm s' \<longrightarrow> s' \<noteq> s \<longrightarrow> tokenOf w' s' = tokenOf w s') \<and>
      (ru = Inr () \<longrightarrow> tokenOf w' s = None \<and> (\<forall>t. tokenOf w s = Some t \<longrightarrow> holder w' t = None))"
begin

text \<open>
  \<open>TokenFor\<close> under every fault schedule: a token it returns is the subject's token from then on, it
  is the old one if there was one, and no other subject's token changes.
\<close>

lemma TokenFor_stable:
  assumes "TokenFor S s w = (r, w')" "good w" "adm s"
  shows "good w' \<and> (\<forall>s'. adm s' \<longrightarrow> s' \<noteq> s \<longrightarrow> tokenOf w' s' = tokenOf w s') \<and>
    (\<forall>t. tokenOf w s = Some t \<longrightarrow> tokenOf w' s = Some t \<and> (\<forall>u. r = Inr u \<longrightarrow> u = t)) \<and>
    (\<forall>t. r = Inr t \<longrightarrow> tokenOf w' s = Some t)"
proof -
  obtain rl w1 where l: "ps_Lookup S s w = (rl, w1)" by fastforce
  note L = Lookup_law [OF l assms(2)]
  consider e where "rl = Inl e" | t where "rl = Inr (Some t)" | "rl = Inr None"
    by (metis option.exhaust sum.exhaust)
  then show ?thesis
  proof cases
    case 1
    then show ?thesis using assms(1) l L by (auto simp: TokenFor_def bnd_def)
  next
    case 2
    then show ?thesis using assms(1) l L by (auto simp: TokenFor_def bnd_def run)
  next
    case 3
    obtain tok where n: "newToken w1 = (Inr tok, w1\<lparr>w_rand := (\<lambda>i. w_rand w1 (i + 15))\<rparr>)"
      using newToken_run by blast
    define w2 where "w2 = w1\<lparr>w_rand := (\<lambda>i. w_rand w1 (i + 15))\<rparr>"
    have v2: "tokenOf w2 = tokenOf w" "good w2" and none: "tokenOf w s = None"
      using view [of w2 w1] L 3 by (auto simp: w2_def)
    obtain ru w3 where s: "ps_Save S tok s w2 = (ru, w3)" by fastforce
    note SV = Save_law [OF s v2(2) assms(3)]
    obtain rl2 w4 where l2: "ps_Lookup S s w3 = (rl2, w4)" by fastforce
    have L2: "tokenOf w4 = tokenOf w3" "good w4" "\<And>t. rl2 = Inr t \<Longrightarrow> t = tokenOf w3 s"
      using Lookup_law [OF l2] SV by auto
    have run_eq: "(r, w') = (case ru of Inr _ \<Rightarrow> (Inr tok, w3)
        | Inl e \<Rightarrow> (case rl2 of Inr (Some x) \<Rightarrow> (Inr x, w4) | _ \<Rightarrow> (Inl e, w4)))"
      using assms(1) l 3 n s l2
      by (simp add: TokenFor_def bnd_def catch_def w2_def [symmetric] run split: sum.splits option.splits)
    show ?thesis
    proof (cases ru)
      case (Inl e)
      then show ?thesis
        using run_eq SV L2 v2 none by (cases rl2) (auto split: option.splits)
    next
      case (Inr u)
      then show ?thesis using run_eq SV v2 none by auto
    qed
  qed
qed

text \<open>Erasing a subject breaks the link for good: its old token resolves to nobody.\<close>

lemma Erase_unlinks:
  assumes "Erase S s w = (Inr (), w')" "good w" "adm s" "tokenOf w s = Some t"
    and "ResolveToken S t w' = (Inr x, w'')"
  shows "x = None"
proof -
  have "good w'" "holder w' t = None"
    using Delete_law [of s w "Inr ()" w'] assms by (auto simp: Erase_def)
  then show ?thesis using Resolve_law [of t w' "Inr x" w''] assms(5) by (simp add: ResolveToken_def)
qed

end

section \<open>The in-memory store\<close>

record inmem =
  byToken :: "string \<rightharpoonup> subject"
  bySub :: "string \<rightharpoonup> string"

definition memLookup :: "subject \<Rightarrow> (inmem, string option) action" where
  "memLookup s = gets (\<lambda>w. bySub (w_db w) (subjectString s))"

definition memSave :: "string \<Rightarrow> subject \<Rightarrow> (inmem, unit) action" where
  "memSave token s w =
    (let m = w_db w in
     if bySub m (subjectString s) \<noteq> None then (Inl ErrSubjectMapped, w)
     else (Inr (), w\<lparr>w_db := \<lparr>byToken = (byToken m)(token \<mapsto> s), bySub = (bySub m)(subjectString s \<mapsto> token)\<rparr>\<rparr>))"

definition memResolve :: "string \<Rightarrow> (inmem, subject option) action" where
  "memResolve token = gets (\<lambda>w. byToken (w_db w) token)"

definition memDelete :: "subject \<Rightarrow> (inmem, unit) action" where
  "memDelete s w =
    (let m = w_db w in
     case bySub m (subjectString s) of
       None \<Rightarrow> (Inr (), w)
     | Some tok \<Rightarrow> (Inr (), w\<lparr>w_db := \<lparr>byToken = (byToken m)(tok := None), bySub = (bySub m)(subjectString s := None)\<rparr>\<rparr>))"

definition InMemoryPseudonymStore :: "inmem pseud_store" where
  "InMemoryPseudonymStore = \<lparr>ps_Lookup = memLookup, ps_Save = memSave, ps_Resolve = memResolve, ps_Delete = memDelete\<rparr>"

definition NewInMemoryPseudonymStore :: inmem where
  "NewInMemoryPseudonymStore = \<lparr>byToken = Map.empty, bySub = Map.empty\<rparr>"

interpretation mem_store: pseudonym_store InMemoryPseudonymStore
  "\<lambda>w s. bySub (w_db w) (subjectString s)" "\<lambda>w t. byToken (w_db w) t" "\<lambda>_. True" canonical
proof unfold_locales
  fix t s and w w' :: "inmem world" and ru
  show "ps_Save InMemoryPseudonymStore t s w = (ru, w') \<Longrightarrow> True \<Longrightarrow> canonical s \<Longrightarrow>
    True \<and> (\<forall>s'. canonical s' \<longrightarrow> s' \<noteq> s \<longrightarrow> bySub (w_db w') (subjectString s') = bySub (w_db w) (subjectString s')) \<and>
    (bySub (w_db w') (subjectString s) = bySub (w_db w) (subjectString s) \<or>
     bySub (w_db w) (subjectString s) = None \<and> bySub (w_db w') (subjectString s) = Some t) \<and>
    (ru = Inr () \<longrightarrow> bySub (w_db w) (subjectString s) = None \<and> bySub (w_db w') (subjectString s) = Some t \<and>
      byToken (w_db w') t = Some s)"
    by (auto simp: InMemoryPseudonymStore_def memSave_def Let_def dest: subjectString_inj split: if_splits)
  show "ps_Delete InMemoryPseudonymStore s w = (ru, w') \<Longrightarrow> True \<Longrightarrow> canonical s \<Longrightarrow>
    True \<and> (\<forall>s'. canonical s' \<longrightarrow> s' \<noteq> s \<longrightarrow> bySub (w_db w') (subjectString s') = bySub (w_db w) (subjectString s')) \<and>
    (ru = Inr () \<longrightarrow> bySub (w_db w') (subjectString s) = None \<and>
      (\<forall>t. bySub (w_db w) (subjectString s) = Some t \<longrightarrow> byToken (w_db w') t = None))"
    by (auto simp: InMemoryPseudonymStore_def memDelete_def Let_def dest: subjectString_inj split: option.splits)
qed (auto simp: InMemoryPseudonymStore_def memLookup_def memResolve_def)

section \<open>Retention\<close>

record retention =
  ret_Name :: string
  ret_Min :: int
  ret_LegalBasis :: string

definition NoneClass :: retention where
  "NoneClass = \<lparr>ret_Name = ''none'', ret_Min = 0, ret_LegalBasis = []\<rparr>"

text \<open>\<open>RegisterClass\<close>, with its panics as \<open>None\<close>.\<close>

definition RegisterClass :: "(string \<rightharpoonup> retention) \<Rightarrow> retention \<Rightarrow> (string \<rightharpoonup> retention) option" where
  "RegisterClass classes c =
    (if ret_Name c = [] then None
     else if classes (ret_Name c) \<noteq> None then None
     else Some (classes(ret_Name c \<mapsto> c)))"

definition Class :: "(string \<rightharpoonup> retention) \<Rightarrow> string \<Rightarrow> retention option" where
  "Class classes name = classes name"

definition BlocksErasureAt :: "retention \<Rightarrow> int \<Rightarrow> int \<Rightarrow> bool \<Rightarrow> bool" where
  "BlocksErasureAt c anchor now legalHold =
    (if legalHold then True else if ret_Min c = 0 then False else now < anchor + ret_Min c)"

section \<open>The registry\<close>

record 'w descriptor =
  de_Type :: string
  de_Fields :: "string list"
  de_Retention :: retention
  de_Export :: "subject \<Rightarrow> ('w, string option) io"
  de_Erase :: "subject \<Rightarrow> ('w, unit) io"

definition Register :: "(string \<rightharpoonup> 'w descriptor) \<Rightarrow> 'w descriptor \<Rightarrow> (string \<rightharpoonup> 'w descriptor) option" where
  "Register reg d =
    (if de_Type d = [] then None
     else let d = (if ret_Name (de_Retention d) = [] then d\<lparr>de_Retention := NoneClass\<rparr> else d) in
       if reg (de_Type d) \<noteq> None then None else Some (reg(de_Type d \<mapsto> d)))"

text \<open>The map as the list of its entries, in any order; \<open>Descriptors\<close> sorts it by type.\<close>

definition Descriptors :: "(string \<times> 'w descriptor) list \<Rightarrow> 'w descriptor list" where
  "Descriptors entries = map snd (sort_key fst entries)"

primrec exportLoop :: "'w descriptor list \<Rightarrow> subject \<Rightarrow> (string \<rightharpoonup> string) \<Rightarrow> ('w, string \<rightharpoonup> string) io" where
  "exportLoop [] s out = ret out"
| "exportLoop (d # ds) s out =
    bnd (de_Export d s) (\<lambda>data.
    exportLoop ds s (case data of None \<Rightarrow> out | Some x \<Rightarrow> out(de_Type d \<mapsto> x)))"

definition ExportSubject :: "(string \<times> 'w descriptor) list \<Rightarrow> subject \<Rightarrow> ('w, string \<rightharpoonup> string) io" where
  "ExportSubject reg s = exportLoop (Descriptors reg) s Map.empty"

definition EraseSubject :: "(string \<times> 'w descriptor) list \<Rightarrow> subject \<Rightarrow> ('w, unit) io" where
  "EraseSubject reg s = foreach (\<lambda>d. de_Erase d s) (Descriptors reg)"

section \<open>Properties\<close>

text \<open>Subjects round-trip: printing a canonical subject and parsing it gives it back, what parses is
  canonical and prints to what was parsed, and so two canonical subjects with the same text are
  equal.\<close>

theorem subject_roundtrip:
  "(canonical s \<longrightarrow> ParseSubject (subjectString s) = Inr s) \<and>
   (ParseSubject t = Inr s \<longrightarrow> canonical s \<and> subjectString s = t)"
  using ParseSubject_String String_ParseSubject by blast

theorem subject_roundtrip_witness:
  "ParseSubject ''acme.test/42'' = Inr \<lparr>sub_Instance = ''acme.test'', sub_UserID = ''42''\<rparr>"
proof -
  have "canonical \<lparr>sub_Instance = ''acme.test'', sub_UserID = ''42''\<rparr>" by (simp add: canonical_def)
  with subject_roundtrip [of "\<lparr>sub_Instance = ''acme.test'', sub_UserID = ''42''\<rparr>" "[]"]
  show ?thesis by (simp add: subjectString_def)
qed

text \<open>The Article 30 view: \<open>Descriptors\<close> lists exactly the registered descriptors, sorted by type, and
  erasing a subject across the registry reports success only when every registered type's hook
  succeeded, in that order.\<close>

theorem registry_complete:
  "mset (Descriptors reg) = mset (map snd reg) \<and>
   sorted (map fst (sort_key fst reg)) \<and>
   (EraseSubject reg s w = (Inr (), w') \<longrightarrow>
     (\<forall>d \<in> set (map snd reg). \<exists>v v'. de_Erase d s v = (Inr (), v')))"
proof -
  have "\<forall>d \<in> set ds. \<exists>v v'. de_Erase d s v = (Inr (), v')"
    if "foreach (\<lambda>d. de_Erase d s) ds w = (Inr (), w')" for ds w
    using that
  proof (induction ds arbitrary: w)
    case (Cons d ds)
    then obtain v where "de_Erase d s w = (Inr (), v)" "foreach (\<lambda>d. de_Erase d s) ds v = (Inr (), w')"
      by (auto elim: bnd_InrE)
    with Cons.IH show ?case by auto
  qed simp
  moreover have "set (Descriptors reg) = set (map snd reg)" by (simp add: Descriptors_def)
  ultimately have "EraseSubject reg s w = (Inr (), w') \<longrightarrow>
     (\<forall>d \<in> set (map snd reg). \<exists>v v'. de_Erase d s v = (Inr (), v'))"
    unfolding EraseSubject_def by metis
  moreover have "mset (Descriptors reg) = mset (map snd reg)"
    by (simp add: Descriptors_def)
  ultimately show ?thesis by simp
qed

definition demoDescriptor :: "string \<Rightarrow> nat descriptor" where
  "demoDescriptor t = \<lparr>de_Type = t, de_Fields = [], de_Retention = NoneClass,
     de_Export = (\<lambda>s. ret None), de_Erase = (\<lambda>s n. (Inr (), n + 1))\<rparr>"

theorem registry_complete_witness:
  "mset (Descriptors [(''b'', demoDescriptor ''b''), (''a'', demoDescriptor ''a'')]) =
     mset [demoDescriptor ''b'', demoDescriptor ''a''] \<and>
   (\<exists>v v'. de_Erase (demoDescriptor ''a'') \<lparr>sub_Instance = ''i'', sub_UserID = ''u''\<rparr> v = (Inr (), v'))"
proof -
  let ?reg = "[(''b'', demoDescriptor ''b''), (''a'', demoDescriptor ''a'')]"
  have "EraseSubject ?reg \<lparr>sub_Instance = ''i'', sub_UserID = ''u''\<rparr> 0 = (Inr (), 2)"
    by (simp add: EraseSubject_def Descriptors_def demoDescriptor_def bnd_def run less_char_def)
  with registry_complete [of ?reg "\<lparr>sub_Instance = ''i'', sub_UserID = ''u''\<rparr>" 0 2] show ?thesis by simp
qed

text \<open>Retention: a legal hold blocks erasure at every time; without one, the class of no retention never
  blocks, and once the minimum has passed erasure stays unblocked.\<close>

theorem BlocksErasureAt_rules:
  "BlocksErasureAt c a now True \<and> \<not> BlocksErasureAt NoneClass a now False \<and>
   (now \<le> now' \<and> BlocksErasureAt c a now' False \<longrightarrow> BlocksErasureAt c a now False)"
  by (auto simp: BlocksErasureAt_def NoneClass_def)

theorem BlocksErasureAt_rules_witness:
  "BlocksErasureAt \<lparr>ret_Name = ''y'', ret_Min = 10, ret_LegalBasis = []\<rparr> 0 5 False"
proof -
  have "BlocksErasureAt \<lparr>ret_Name = ''y'', ret_Min = 10, ret_LegalBasis = []\<rparr> 0 7 False"
    by (simp add: BlocksErasureAt_def)
  with BlocksErasureAt_rules [of "\<lparr>ret_Name = ''y'', ret_Min = 10, ret_LegalBasis = []\<rparr>" 0 5 7]
  show ?thesis by simp
qed

end
