(* ===== verification/Conventions.thy ===== *)
theory Conventions
  imports Pii
begin

text \<open>
  The convention stores every app shares: the three tables of \<open>lib/pgconv\<close>, the audit emitter of
  \<open>lib/audit\<close> and the search feeder of \<open>lib/search\<close>. A table is the list of its rows; primary keys
  and unique constraints are enforced by the commands, as the schema declares them.
\<close>

section \<open>Rows and tables\<close>

record audit_object =
  ao_Type :: string
  ao_ID :: string
  ao_Permalink :: string

record audit_event =
  ev_ID :: string
  ev_Time :: int
  ev_ActorToken :: string
  ev_Action :: string
  ev_Object :: audit_object

record search_doc =
  sd_ID :: string
  sd_Type :: string
  sd_Permalink :: string
  sd_Owner :: subject
  sd_Text :: string

record conv_db =
  subject_pseudonyms :: "(string \<times> subject) list"
  audit_events :: "audit_event list"
  search_documents :: "search_doc list"

type_synonym ('z, 'a) conv = "('z conv_db_scheme, 'a) action"

section \<open>The pseudonym table\<close>

definition pgTokenOf :: "'z conv_db_scheme \<Rightarrow> subject \<Rightarrow> string option" where
  "pgTokenOf d s = map_option fst (List.find (\<lambda>r. snd r = s) (subject_pseudonyms d))"

definition pgHolder :: "'z conv_db_scheme \<Rightarrow> string \<Rightarrow> subject option" where
  "pgHolder d t = map_option snd (List.find (\<lambda>r. fst r = t) (subject_pseudonyms d))"

definition pgLookup :: "subject \<Rightarrow> ('z, string option) conv" where
  "pgLookup s = query (\<lambda>d. pgTokenOf d s)"

text \<open>
  The insert with \<open>ON CONFLICT (instance, user_id) DO NOTHING\<close>: a mapped subject affects no row,
  which \<open>Save\<close> reports; a token that is taken violates the primary key.
\<close>

definition pgSave :: "string \<Rightarrow> subject \<Rightarrow> ('z, unit) conv" where
  "pgSave token s = exec (\<lambda>_ d.
     if pgTokenOf d s \<noteq> None then Inl ErrSubjectMapped
     else if pgHolder d token \<noteq> None then Inl ErrUnique
     else Inr (d\<lparr>subject_pseudonyms := subject_pseudonyms d @ [(token, s)]\<rparr>))"

definition pgResolve :: "string \<Rightarrow> ('z, subject option) conv" where
  "pgResolve token = query (\<lambda>d. pgHolder d token)"

definition pgDelete :: "subject \<Rightarrow> ('z, unit) conv" where
  "pgDelete s = exec (\<lambda>_ d.
     Inr (d\<lparr>subject_pseudonyms := filter (\<lambda>r. snd r \<noteq> s) (subject_pseudonyms d)\<rparr>))"

definition PseudonymStore :: "'z conv_db_scheme pseud_store" where
  "PseudonymStore = \<lparr>ps_Lookup = pgLookup, ps_Save = pgSave, ps_Resolve = pgResolve, ps_Delete = pgDelete\<rparr>"

section \<open>Audit\<close>

definition auditAppend :: "audit_event \<Rightarrow> ('z, unit) conv" where
  "auditAppend e = exec (\<lambda>_ d.
     if ev_ID e \<in> ev_ID ` set (audit_events d) then Inl ErrUnique
     else Inr (d\<lparr>audit_events := audit_events d @ [e]\<rparr>))"

definition Emit :: "subject \<Rightarrow> string \<Rightarrow> audit_object \<Rightarrow> ('z, unit) conv" where
  "Emit actor action obj =
    (if Zero actor then fail ErrAuditActor
     else if action = [] \<or> ao_Type obj = [] \<or> ao_ID obj = [] then fail ErrAuditFields
     else
       bnd (TokenFor PseudonymStore actor) (\<lambda>token.
       bnd V7 (\<lambda>i.
       bnd time_now (\<lambda>now.
       auditAppend \<lparr>ev_ID = i, ev_Time = now, ev_ActorToken = token, ev_Action = action, ev_Object = obj\<rparr>))))"

section \<open>Search\<close>

definition searchUpsert :: "search_doc \<Rightarrow> ('z, unit) conv" where
  "searchUpsert doc = exec (\<lambda>_ d.
     Inr (d\<lparr>search_documents :=
       (if sd_ID doc \<in> sd_ID ` set (search_documents d)
        then map (\<lambda>r. if sd_ID r = sd_ID doc then doc else r) (search_documents d)
        else search_documents d @ [doc])\<rparr>))"

definition searchDelete :: "string \<Rightarrow> ('z, unit) conv" where
  "searchDelete i = exec (\<lambda>_ d.
     Inr (d\<lparr>search_documents := filter (\<lambda>r. sd_ID r \<noteq> i) (search_documents d)\<rparr>))"

definition Feed :: "search_doc \<Rightarrow> ('z, unit) conv" where
  "Feed doc =
    (if sd_ID doc = [] \<or> sd_Type doc = [] then fail ErrSearchIdType
     else if Zero (sd_Owner doc) then fail ErrSearchOwner
     else if sd_Permalink doc = [] then fail ErrSearchPermalink
     else searchUpsert doc)"

definition Remove :: "string \<Rightarrow> ('z, unit) conv" where
  "Remove i = (if i = [] then fail ErrSearchRemoveId else searchDelete i)"

section \<open>The table invariant\<close>

definition conv_ok :: "'z conv_db_scheme \<Rightarrow> bool" where
  "conv_ok d \<longleftrightarrow> distinct (map fst (subject_pseudonyms d)) \<and> distinct (map snd (subject_pseudonyms d)) \<and>
     distinct (map ev_ID (audit_events d)) \<and> distinct (map sd_ID (search_documents d))"

lemma find_None: "List.find P xs = None \<longleftrightarrow> (\<forall>x \<in> set xs. \<not> P x)"
  by (induction xs) auto

lemma find_distinct:
  "distinct (map f xs) \<Longrightarrow> x \<in> set xs \<Longrightarrow> List.find (\<lambda>r. f r = f x) xs = Some x"
  by (induction xs) auto

lemma find_SomeD: "List.find P xs = Some x \<Longrightarrow> x \<in> set xs \<and> P x"
  by (induction xs) (auto split: if_splits)

lemma find_append: "List.find P (xs @ ys) = (case List.find P xs of None \<Rightarrow> List.find P ys | r \<Rightarrow> r)"
  by (induction xs) auto

lemma find_filter_other: "(\<And>x. P x \<Longrightarrow> Q x) \<Longrightarrow> List.find P (filter Q xs) = List.find P xs"
  by (induction xs) auto

text \<open>The effect of a command on the tables, under every schedule: it ran, or it did not.\<close>

lemma exec_outcome:
  assumes "exec f w = (r, w')"
  shows "(w_db w' = w_db w \<and> r \<noteq> Inr () \<or> (\<exists>d. f (w_now w) (w_db w) = Inr d \<and> w_db w' = d \<and> (r = Inr () \<or> r = Inl ErrIO))) \<and>
    w_now w' = w_now w \<and> w_fs w' = w_fs w \<and> w_fga w' = w_fga w \<and> w_rand w' = w_rand w"
  using assms unfolding exec_def
  by (cases rule: call_cases) (auto simp: execRaw_def split: sum.splits)

lemma query_outcome:
  assumes "query f w = (r, w')"
  shows "\<exists>fs. w' = w\<lparr>w_faults := fs\<rparr> \<and> (r = Inr (f (w_db w)) \<or> r = Inl ErrIO)"
  using assms unfolding query_def by (cases rule: call_cases) auto

lemma save_rows:
  assumes "pgTokenOf d s = None" "pgHolder d t = None" "conv_ok d"
    and "d' = d\<lparr>subject_pseudonyms := subject_pseudonyms d @ [(t, s)]\<rparr>"
  shows "conv_ok d' \<and> pgTokenOf d' s' = (if s' = s then Some t else pgTokenOf d s') \<and> pgHolder d' t = Some s"
proof -
  have new: "t \<notin> fst ` set (subject_pseudonyms d)" "s \<notin> snd ` set (subject_pseudonyms d)"
    using assms(1,2) by (auto simp: pgTokenOf_def pgHolder_def find_None)
  then show ?thesis
    using assms by (auto simp: conv_ok_def pgTokenOf_def pgHolder_def find_append split: option.split)
qed

lemma delete_rows:
  assumes "conv_ok d" "d' = d\<lparr>subject_pseudonyms := filter (\<lambda>r. snd r \<noteq> s) (subject_pseudonyms d)\<rparr>"
  shows "conv_ok d'" "pgTokenOf d' s' = (if s' = s then None else pgTokenOf d s')"
    "pgTokenOf d s = Some t \<Longrightarrow> pgHolder d' t = None"
proof -
  show "conv_ok d'" using assms by (simp add: conv_ok_def distinct_map_filter)
  show "pgTokenOf d' s' = (if s' = s then None else pgTokenOf d s')"
  proof (cases "s' = s")
    case False
    then have "List.find (\<lambda>r. snd r = s') (filter (\<lambda>r. snd r \<noteq> s) (subject_pseudonyms d)) =
        List.find (\<lambda>r. snd r = s') (subject_pseudonyms d)"
      by (intro find_filter_other) auto
    then show ?thesis using False assms(2) by (simp add: pgTokenOf_def)
  qed (use assms(2) in \<open>simp add: pgTokenOf_def find_None\<close>)
  assume "pgTokenOf d s = Some t"
  then have ts: "(t, s) \<in> set (subject_pseudonyms d)"
    by (auto simp: pgTokenOf_def dest: find_SomeD)
  have "distinct (map fst (subject_pseudonyms d))" using assms(1) by (simp add: conv_ok_def)
  then have "x = (t, s)" if "x \<in> set (subject_pseudonyms d)" "fst x = t" for x
    using that ts by (metis fst_conv inj_onD distinct_map)
  then show "pgHolder d' t = None"
    using assms(2) by (auto simp: pgHolder_def find_None)
qed

lemma pgSave_law:
  assumes "pgSave t s w = (ru, w')" "conv_ok (w_db w)"
  shows "conv_ok (w_db w') \<and> (\<forall>s'. s' \<noteq> s \<longrightarrow> pgTokenOf (w_db w') s' = pgTokenOf (w_db w) s') \<and>
    (pgTokenOf (w_db w') s = pgTokenOf (w_db w) s \<or> pgTokenOf (w_db w) s = None \<and> pgTokenOf (w_db w') s = Some t) \<and>
    (ru = Inr () \<longrightarrow> pgTokenOf (w_db w) s = None \<and> pgTokenOf (w_db w') s = Some t \<and> pgHolder (w_db w') t = Some s)"
proof -
  note o = exec_outcome [OF assms(1) [unfolded pgSave_def]]
  then consider "w_db w' = w_db w" "ru \<noteq> Inr ()"
    | "pgTokenOf (w_db w) s = None" "pgHolder (w_db w) t = None"
      "w_db w' = (w_db w)\<lparr>subject_pseudonyms := subject_pseudonyms (w_db w) @ [(t, s)]\<rparr>"
    by (auto split: if_splits)
  then show ?thesis
  proof cases
    case 1
    then show ?thesis using assms(2) by simp
  next
    case 2
    from save_rows [OF 2(1,2) assms(2) 2(3)] show ?thesis using 2(1) by simp
  qed
qed

lemma pgDelete_law:
  assumes "pgDelete s w = (ru, w')" "conv_ok (w_db w)"
  shows "conv_ok (w_db w') \<and> (\<forall>s'. s' \<noteq> s \<longrightarrow> pgTokenOf (w_db w') s' = pgTokenOf (w_db w) s') \<and>
    (ru = Inr () \<longrightarrow> pgTokenOf (w_db w') s = None \<and>
      (\<forall>t. pgTokenOf (w_db w) s = Some t \<longrightarrow> pgHolder (w_db w') t = None))"
proof -
  note o = exec_outcome [OF assms(1) [unfolded pgDelete_def]]
  then consider "w_db w' = w_db w" "ru \<noteq> Inr ()"
    | "w_db w' = (w_db w)\<lparr>subject_pseudonyms := filter (\<lambda>r. snd r \<noteq> s) (subject_pseudonyms (w_db w))\<rparr>"
    by auto
  then show ?thesis
    using delete_rows [OF assms(2)] assms(2) by cases auto
qed

text \<open>The Postgres store meets the contract of a pseudonym store, for every subject.\<close>

interpretation pg_store: pseudonym_store
  "PseudonymStore :: 'z conv_db_scheme pseud_store" "\<lambda>w. pgTokenOf (w_db w)" "\<lambda>w. pgHolder (w_db w)"
  "\<lambda>w. conv_ok (w_db w)" "\<lambda>_. True"
proof (unfold_locales, goal_cases)
  case (1 w' w)
  then show ?case by simp
next
  case (2 s w rl w')
  then show ?case by (auto simp: PseudonymStore_def pgLookup_def dest!: query_outcome)
next
  case (3 t s w ru w')
  then show ?case using pgSave_law [of t s w ru w'] by (simp add: PseudonymStore_def)
next
  case (4 t w rr w')
  then show ?case by (auto simp: PseudonymStore_def pgResolve_def dest!: query_outcome)
next
  case (5 s w ru w')
  then show ?case using pgDelete_law [of s w ru w'] by (simp add: PseudonymStore_def)
qed

section \<open>What the conventions leave alone\<close>

text \<open>Assertions that do not look at the three tables.\<close>

definition pseudless :: "('z conv_db_scheme world \<Rightarrow> bool) \<Rightarrow> bool" where
  "pseudless I \<longleftrightarrow> (\<forall>w p. I (w\<lparr>w_db := (w_db w)\<lparr>subject_pseudonyms := p\<rparr>\<rparr>) = I w)"

definition convless :: "('z conv_db_scheme world \<Rightarrow> bool) \<Rightarrow> bool" where
  "convless I \<longleftrightarrow> pseudless I \<and>
     (\<forall>w a. I (w\<lparr>w_db := (w_db w)\<lparr>audit_events := a\<rparr>\<rparr>) = I w) \<and>
     (\<forall>w s. I (w\<lparr>w_db := (w_db w)\<lparr>search_documents := s\<rparr>\<rparr>) = I w)"

definition aside :: "('z conv_db_scheme world \<Rightarrow> bool) \<Rightarrow> bool" where
  "aside I \<longleftrightarrow> convless I \<and> faultless I \<and> randless I"

lemma keeps_newToken [keeps_rules]: "randless I \<Longrightarrow> keeps I newToken"
  unfolding newToken_def by (intro keeps_rules)

lemma keeps_TokenFor:
  assumes I: "pseudless I" "faultless I" "randless I"
  shows "keeps I (TokenFor PseudonymStore s)"
proof -
  have l: "keeps I (pgLookup s)" unfolding pgLookup_def using I(2) by (rule keeps_query)
  have sv: "keeps I (pgSave t s)" for t
    unfolding pgSave_def by (rule keeps_exec [OF I(2)]) (use I(1) in \<open>auto simp: pseudless_def split: if_splits\<close>)
  have "keeps I (\<lambda>w. case pgLookup s w of
      (Inr (Some existing), w') \<Rightarrow> (Inr existing, w') | (_, w') \<Rightarrow> (Inl e, w'))" for e
    by (rule keepsI) (use keepsD2 [OF l] in \<open>fastforce split: prod.split sum.split option.split\<close>)
  then show ?thesis
    using l sv I unfolding TokenFor_def PseudonymStore_def by (auto intro!: keeps_rules)
qed

lemma keeps_auditAppend: "aside I \<Longrightarrow> keeps I (auditAppend e)"
  unfolding auditAppend_def aside_def
  by (intro keeps_rules) (auto simp: convless_def split: if_splits)

lemma keeps_Emit [keeps_rules]: "aside I \<Longrightarrow> keeps I (Emit actor action obj)"
  unfolding Emit_def
  by (auto intro!: keeps_rules keeps_TokenFor keeps_auditAppend simp: aside_def convless_def)

lemma keeps_Feed [keeps_rules]: "aside I \<Longrightarrow> keeps I (Feed doc)"
  unfolding Feed_def searchUpsert_def
  by (auto intro!: keeps_rules simp: aside_def convless_def)

lemma keeps_Remove [keeps_rules]: "aside I \<Longrightarrow> keeps I (Remove i)"
  unfolding Remove_def searchDelete_def
  by (auto intro!: keeps_rules simp: aside_def convless_def)

section \<open>The tables stay well-formed\<close>

lemma keeps_conv_TokenFor: "keeps (\<lambda>w. conv_ok (w_db w)) (TokenFor PseudonymStore s)"
  by (rule keepsI) (metis pg_store.TokenFor_stable surjective_pairing)

lemma conv_ok_rows:
  assumes "conv_ok d"
  shows "ev_ID e \<notin> ev_ID ` set (audit_events d) \<Longrightarrow> conv_ok (d\<lparr>audit_events := audit_events d @ [e]\<rparr>)"
    and "sd_ID doc \<in> sd_ID ` set (search_documents d) \<Longrightarrow>
      conv_ok (d\<lparr>search_documents := map (\<lambda>r. if sd_ID r = sd_ID doc then doc else r) (search_documents d)\<rparr>)"
    and "sd_ID doc \<notin> sd_ID ` set (search_documents d) \<Longrightarrow>
      conv_ok (d\<lparr>search_documents := search_documents d @ [doc]\<rparr>)"
    and "conv_ok (d\<lparr>search_documents := filter P (search_documents d)\<rparr>)"
proof -
  have "map sd_ID (map (\<lambda>r. if sd_ID r = sd_ID doc then doc else r) xs) = map sd_ID xs" for xs
    by (induction xs) auto
  then show "conv_ok (d\<lparr>search_documents := map (\<lambda>r. if sd_ID r = sd_ID doc then doc else r) (search_documents d)\<rparr>)"
    using assms by (simp add: conv_ok_def del: map_map)
qed (use assms in \<open>auto simp: conv_ok_def distinct_map_filter\<close>)

lemma keeps_conv_Emit: "keeps (\<lambda>w. conv_ok (w_db w)) (Emit actor action obj)"
  unfolding Emit_def auditAppend_def
  by (auto intro!: keeps_rules keeps_conv_TokenFor conv_ok_rows split: if_splits)

lemma keeps_conv_Feed: "keeps (\<lambda>w. conv_ok (w_db w)) (Feed doc)"
  unfolding Feed_def searchUpsert_def
  by (auto intro!: keeps_rules conv_ok_rows(2,3) split: if_splits)

lemma keeps_conv_Remove: "keeps (\<lambda>w. conv_ok (w_db w)) (Remove i)"
  unfolding Remove_def searchDelete_def
  by (auto intro!: keeps_rules conv_ok_rows(4))

section \<open>Properties\<close>

text \<open>Pseudonyms are stable on the Postgres store, under every fault schedule: the tables stay
  well-formed, a token that \<open>TokenFor\<close> returns is the subject's token afterwards, a subject that had
  a token keeps it and gets it, and no other subject's token changes.\<close>

theorem TokenFor_stable_pg:
  assumes "conv_ok (w_db w)" "TokenFor PseudonymStore s w = (r, w')"
  shows "conv_ok (w_db w') \<and> (\<forall>s'. s' \<noteq> s \<longrightarrow> pgTokenOf (w_db w') s' = pgTokenOf (w_db w) s') \<and>
    (\<forall>t. pgTokenOf (w_db w) s = Some t \<longrightarrow> pgTokenOf (w_db w') s = Some t \<and> (\<forall>u. r = Inr u \<longrightarrow> u = t)) \<and>
    (\<forall>t. r = Inr t \<longrightarrow> pgTokenOf (w_db w') s = Some t)"
  using pg_store.TokenFor_stable [OF assms(2,1)] by simp

definition emptyConv :: conv_db where
  "emptyConv = \<lparr>subject_pseudonyms = [], audit_events = [], search_documents = []\<rparr>"

theorem TokenFor_stable_pg_witness:
  "let s = \<lparr>sub_Instance = ''i'', sub_UserID = ''u''\<rparr>;
       w = demoWorld (emptyConv\<lparr>subject_pseudonyms := [(''tok'', s)]\<rparr>)
   in \<exists>w'. TokenFor PseudonymStore s w = (Inr ''tok'', w') \<and> pgTokenOf (w_db w') s = Some ''tok''"
proof -
  define s where "s = \<lparr>sub_Instance = ''i'', sub_UserID = ''u''\<rparr>"
  define w where "w = demoWorld (emptyConv\<lparr>subject_pseudonyms := [(''tok'', s)]\<rparr>)"
  have ok: "conv_ok (w_db w)" "pgTokenOf (w_db w) s = Some ''tok''"
    by (simp_all add: w_def conv_ok_def emptyConv_def pgTokenOf_def)
  have "calm w" by (simp add: w_def)
  then have run1: "TokenFor PseudonymStore s w = (Inr ''tok'', w)"
    using ok by (simp add: TokenFor_def PseudonymStore_def pgLookup_def bnd_def run)
  from TokenFor_stable_pg [OF ok(1) run1] ok(2) have "pgTokenOf (w_db w) s = Some ''tok''" by simp
  with run1 show ?thesis by (simp add: Let_def s_def w_def)
qed

text \<open>Erasure unlinks: after a successful erase, the token the subject had resolves to nobody, whatever
  calls fail, while every other subject keeps its token; rows that mention the token stay in the
  audit log but no longer lead to the person.\<close>

theorem Erase_unlinks_pg:
  assumes "conv_ok (w_db w)" "pgTokenOf (w_db w) s = Some t" "Erase PseudonymStore s w = (Inr (), w')"
  shows "(\<forall>x w''. ResolveToken PseudonymStore t w' = (Inr x, w'') \<longrightarrow> x = None) \<and>
    audit_events (w_db w') = audit_events (w_db w) \<and>
    (\<forall>s'. s' \<noteq> s \<longrightarrow> pgTokenOf (w_db w') s' = pgTokenOf (w_db w) s')"
proof (intro conjI)
  show "\<forall>x w''. ResolveToken PseudonymStore t w' = (Inr x, w'') \<longrightarrow> x = None"
    using pg_store.Erase_unlinks [OF assms(3) assms(1) _ assms(2)] by blast
  have run1: "pgDelete s w = (Inr (), w')" using assms(3) by (simp add: Erase_def PseudonymStore_def)
  show "audit_events (w_db w') = audit_events (w_db w)"
    using exec_outcome [OF run1 [unfolded pgDelete_def]] by auto
  show "\<forall>s'. s' \<noteq> s \<longrightarrow> pgTokenOf (w_db w') s' = pgTokenOf (w_db w) s'"
    using pgDelete_law [OF run1 assms(1)] by blast
qed

theorem Erase_unlinks_pg_witness:
  "let s = \<lparr>sub_Instance = ''i'', sub_UserID = ''u''\<rparr>;
       w = demoWorld (emptyConv\<lparr>subject_pseudonyms := [(''tok'', s)]\<rparr>)
   in fst (ResolveToken PseudonymStore ''tok'' (snd (Erase PseudonymStore s w))) = Inr None"
proof -
  define s where "s = \<lparr>sub_Instance = ''i'', sub_UserID = ''u''\<rparr>"
  define w where "w = demoWorld (emptyConv\<lparr>subject_pseudonyms := [(''tok'', s)]\<rparr>)"
  have ok: "conv_ok (w_db w)" "pgTokenOf (w_db w) s = Some ''tok''"
    by (simp_all add: w_def conv_ok_def emptyConv_def pgTokenOf_def)
  have er: "Erase PseudonymStore s w = (Inr (), demoWorld emptyConv)"
    by (simp add: Erase_def PseudonymStore_def pgDelete_def w_def emptyConv_def) (simp add: demoWorld_def)
  have "fst (ResolveToken PseudonymStore ''tok'' (demoWorld emptyConv)) = Inr (pgHolder emptyConv ''tok'')"
    by (simp add: ResolveToken_def PseudonymStore_def pgResolve_def)
  with Erase_unlinks_pg [OF ok er] er show ?thesis
    by (simp add: Let_def s_def [symmetric] w_def [symmetric]) (metis fst_conv prod.exhaust)
qed

text \<open>The audit log is append-only and pseudonymous, under every fault schedule: \<open>Emit\<close> leaves the log as
  it is or appends one event whose actor field is the actor's pseudonym token, with the given action
  and object; it returns only if it appended; and the search table is untouched.\<close>

theorem Emit_appends:
  assumes "conv_ok (w_db w)" "Emit actor action obj w = (r, w')"
  shows "(audit_events (w_db w') = audit_events (w_db w) \<and> r \<noteq> Inr () \<or>
     (\<exists>e. audit_events (w_db w') = audit_events (w_db w) @ [e] \<and> ev_Action e = action \<and> ev_Object e = obj \<and>
        pgTokenOf (w_db w') actor = Some (ev_ActorToken e))) \<and>
   search_documents (w_db w') = search_documents (w_db w) \<and> conv_ok (w_db w')"
proof -
  have ok': "conv_ok (w_db w')" by (rule keepsD2 [OF keeps_conv_Emit assms])
  show ?thesis
  proof (cases "Zero actor \<or> action = [] \<or> ao_Type obj = [] \<or> ao_ID obj = []")
    case True
    then show ?thesis using assms ok' by (auto simp: Emit_def run split: if_splits)
  next
    case False
    obtain rt w1 where t: "TokenFor PseudonymStore actor w = (rt, w1)" by fastforce
    note st = TokenFor_stable_pg [OF assms(1) t]
    have same: "audit_events (w_db w1) = audit_events (w_db w) \<and> search_documents (w_db w1) = search_documents (w_db w)"
      by (rule keepsD2 [OF keeps_TokenFor _ t, where I = "\<lambda>v. audit_events (w_db v) = audit_events (w_db w) \<and>
          search_documents (w_db v) = search_documents (w_db w)"])
        (simp_all add: pseudless_def faultless_def randless_def)
    show ?thesis
    proof (cases rt)
      case (Inl e)
      then show ?thesis using assms(2) False t same ok' by (auto simp: Emit_def bnd_def)
    next
      case (Inr token)
      define e where "e = \<lparr>ev_ID = formatUUID (v7Bytes (unixMilli (w_now w1)) (map (w_rand w1) [0..<10])),
        ev_Time = w_now w1, ev_ActorToken = token, ev_Action = action, ev_Object = obj\<rparr>"
      have ap: "auditAppend e (w1\<lparr>w_rand := (\<lambda>i. w_rand w1 (i + 10))\<rparr>) = (r, w')"
        using assms(2) False t Inr by (simp add: Emit_def bnd_def V7_run time_now_def e_def)
      have tok: "pgTokenOf (w_db w1) actor = Some token" using st Inr by simp
      from exec_outcome [OF ap [unfolded auditAppend_def]] consider
        "w_db w' = w_db w1" "r \<noteq> Inr ()" | "w_db w' = (w_db w1)\<lparr>audit_events := audit_events (w_db w1) @ [e]\<rparr>"
        by (auto split: if_splits)
      then show ?thesis
      proof cases
        case 1
        then show ?thesis using same ok' by simp
      next
        case 2
        then show ?thesis
          using same ok' tok by (auto simp: e_def pgTokenOf_def)
      qed
    qed
  qed
qed

theorem Emit_appends_witness:
  "\<exists>e w'. Emit \<lparr>sub_Instance = ''i'', sub_UserID = ''u''\<rparr> ''task.created''
      \<lparr>ao_Type = ''task'', ao_ID = ''1'', ao_Permalink = ''/t/1''\<rparr> (demoWorld emptyConv) = (Inr (), w') \<and>
    audit_events (w_db w') = [e] \<and> ev_Action e = ''task.created''"
proof -
  let ?s = "\<lparr>sub_Instance = ''i'', sub_UserID = ''u''\<rparr>"
  let ?o = "\<lparr>ao_Type = ''task'', ao_ID = ''1'', ao_Permalink = ''/t/1''\<rparr>"
  obtain r w' where em: "Emit ?s ''task.created'' ?o (demoWorld emptyConv) = (r, w')" by fastforce
  have ok: "conv_ok (w_db (demoWorld emptyConv))" by (simp add: conv_ok_def emptyConv_def)
  have "fst (Emit ?s ''task.created'' ?o (demoWorld emptyConv)) = Inr ()"
    by (simp add: Emit_def Zero_def TokenFor_def PseudonymStore_def pgLookup_def pgSave_def newToken_def
        bnd_def catch_def V7_run time_now_def auditAppend_def randRead_def emptyConv_def pgTokenOf_def
        pgHolder_def run del: upt_Suc)
  then show ?thesis using Emit_appends [OF ok em] em by (auto simp: emptyConv_def)
qed

end
