(* ===== verification/Authz.thy ===== *)
theory Authz
  imports Conventions
begin

text \<open>
  The authorization client, \<open>lib/authz\<close>, and Kamara's authorization model (the constant \<open>fgaModel\<close>
  of \<open>kamara/cmd/kamara/main.go\<close>). The OpenFGA server is a service: what it does with its tuples is the
  record \<open>fga\<close>, and the documented behaviour the file service relies on is \<open>fga_ok\<close>. The HTTP request
  is one call that can fail.
\<close>

section \<open>The server\<close>

record fga =
  fga_write :: "tuple \<Rightarrow> tuple list \<Rightarrow> err + tuple list"
  fga_delete :: "tuple \<Rightarrow> tuple list \<Rightarrow> err + tuple list"
  fga_check :: "tuple list \<Rightarrow> tuple \<Rightarrow> bool"
  fga_list :: "tuple list \<Rightarrow> string \<Rightarrow> string \<Rightarrow> string \<Rightarrow> string list"

section \<open>Kamara's model\<close>

text \<open>
  \<open>can_access\<close> on a folder or a file: the owner, or whoever has \<open>can_access\<close> on a parent.
\<close>

definition Relation :: string where
  "Relation = ''owner''"

definition ParentRelation :: string where
  "ParentRelation = ''parent''"

definition AccessRelation :: string where
  "AccessRelation = ''can_access''"

inductive can_access :: "tuple list \<Rightarrow> string \<Rightarrow> string \<Rightarrow> bool" for ts where
  owner: "(u, Relation, obj) \<in> set ts \<Longrightarrow> can_access ts u obj"
| parent: "(p, ParentRelation, obj) \<in> set ts \<Longrightarrow> can_access ts u p \<Longrightarrow> can_access ts u obj"

text \<open>
  The documented behaviour of the server: a write adds the tuple and is an error when it exists, a
  delete removes it and is an error when it does not, and a check of \<open>can_access\<close> evaluates the
  model.
\<close>

definition fga_ok :: "fga \<Rightarrow> bool" where
  "fga_ok F \<longleftrightarrow>
     (\<forall>t ts. t \<in> set ts \<longrightarrow> fga_write F t ts = Inl ErrTupleExists) \<and>
     (\<forall>t ts. t \<notin> set ts \<longrightarrow> (\<exists>ts'. fga_write F t ts = Inr ts' \<and> set ts' = insert t (set ts))) \<and>
     (\<forall>t ts. t \<notin> set ts \<longrightarrow> fga_delete F t ts = Inl ErrTupleMissing) \<and>
     (\<forall>t ts. t \<in> set ts \<longrightarrow> (\<exists>ts'. fga_delete F t ts = Inr ts' \<and> set ts' = set ts - {t})) \<and>
     (\<forall>ts u obj. fga_check F ts (u, AccessRelation, obj) = can_access ts u obj)"

section \<open>The client\<close>

definition Obj :: "string \<Rightarrow> string \<Rightarrow> string" where
  "Obj typ i = typ @ '':'' @ i"

definition rawTuple :: "string \<Rightarrow> string \<Rightarrow> string \<Rightarrow> tuple" where
  "rawTuple user relation object = (user, relation, object)"

definition userTuple :: "subject \<Rightarrow> string \<Rightarrow> string \<Rightarrow> tuple" where
  "userTuple user relation object = rawTuple (OpenFGAObject user) relation object"

text \<open>One request that changes tuples, and one that only reads them.\<close>

definition fgaChange :: "(tuple list \<Rightarrow> err + tuple list) \<Rightarrow> ('d, unit) action" where
  "fgaChange f = call (\<lambda>w. case f (w_fga w) of
     Inl e \<Rightarrow> (Inl e, w) | Inr ts \<Rightarrow> (Inr (), w\<lparr>w_fga := ts\<rparr>))"

definition fgaAsk :: "(tuple list \<Rightarrow> 'a) \<Rightarrow> ('d, 'a) action" where
  "fgaAsk f = call (gets (\<lambda>w. f (w_fga w)))"

definition WriteTuple :: "fga \<Rightarrow> subject \<Rightarrow> string \<Rightarrow> string \<Rightarrow> ('d, unit) action" where
  "WriteTuple F user relation object = fgaChange (fga_write F (userTuple user relation object))"

definition DeleteTuple :: "fga \<Rightarrow> subject \<Rightarrow> string \<Rightarrow> string \<Rightarrow> ('d, unit) action" where
  "DeleteTuple F user relation object = fgaChange (fga_delete F (userTuple user relation object))"

definition WriteObjectTuple :: "fga \<Rightarrow> string \<Rightarrow> string \<Rightarrow> string \<Rightarrow> ('d, unit) action" where
  "WriteObjectTuple F user relation object = fgaChange (fga_write F (rawTuple user relation object))"

definition DeleteObjectTuple :: "fga \<Rightarrow> string \<Rightarrow> string \<Rightarrow> string \<Rightarrow> ('d, unit) action" where
  "DeleteObjectTuple F user relation object = fgaChange (fga_delete F (rawTuple user relation object))"

definition Check :: "fga \<Rightarrow> subject \<Rightarrow> string \<Rightarrow> string \<Rightarrow> ('d, bool) action" where
  "Check F user relation object = fgaAsk (\<lambda>ts. fga_check F ts (userTuple user relation object))"

text \<open>\<open>ListObjects\<close> strips the type prefix and skips every entry that does not have it.\<close>

primrec stripType :: "string \<Rightarrow> string list \<Rightarrow> string list" where
  "stripType pre [] = []"
| "stripType pre (x # xs) =
    (if \<not> HasPrefix x pre then stripType pre xs else drop (length pre) x # stripType pre xs)"

definition ListObjects :: "fga \<Rightarrow> subject \<Rightarrow> string \<Rightarrow> string \<Rightarrow> ('d, string list) action" where
  "ListObjects F user relation objectType =
    bnd (fgaAsk (\<lambda>ts. fga_list F ts (OpenFGAObject user) relation objectType)) (\<lambda>objs.
    ret (stripType (objectType @ '':'') objs))"

section \<open>Facts\<close>

lemma set_stripType: "set (stripType pre xs) = {i. pre @ i \<in> set xs}"
proof (induction xs)
  case (Cons x xs)
  have "HasPrefix x pre \<Longrightarrow> pre @ drop (length pre) x = x"
    by (simp add: HasPrefix_def) (metis append_take_drop_id)
  moreover have "HasPrefix (pre @ i) pre" "drop (length pre) (pre @ i) = i" for i by simp_all
  ultimately show ?case using Cons by (auto simp del: HasPrefix_append)
qed simp

lemma keeps_fgaAsk [keeps_rules]: "faultless I \<Longrightarrow> keeps I (fgaAsk f)"
  unfolding fgaAsk_def by (intro keeps_rules) auto

lemma keeps_Check [keeps_rules]: "faultless I \<Longrightarrow> keeps I (Check F u r x)"
  unfolding Check_def by (rule keeps_fgaAsk)

lemma keeps_ListObjects [keeps_rules]: "faultless I \<Longrightarrow> keeps I (ListObjects F u r t)"
  unfolding ListObjects_def by (intro keeps_rules)

text \<open>An assertion that does not look at the tuples.\<close>

definition tupleless :: "('d world \<Rightarrow> bool) \<Rightarrow> bool" where
  "tupleless I \<longleftrightarrow> faultless I \<and> (\<forall>w ts. I (w\<lparr>w_fga := ts\<rparr>) = I w)"

lemma keeps_fgaChange: "tupleless I \<Longrightarrow> keeps I (fgaChange f)"
  unfolding fgaChange_def
  by (intro keeps_call keepsI) (auto simp: tupleless_def split: sum.split)

lemma keeps_tuple_writes [keeps_rules]:
  assumes "tupleless I"
  shows "keeps I (WriteTuple F u r x)" "keeps I (DeleteTuple F u r x)"
    "keeps I (WriteObjectTuple F p r x)" "keeps I (DeleteObjectTuple F p r x)"
  using assms
  by (simp_all add: WriteTuple_def DeleteTuple_def WriteObjectTuple_def DeleteObjectTuple_def keeps_fgaChange)

lemma fgaAsk_outcome:
  assumes "fgaAsk f w = (r, w')"
  shows "\<exists>fs. w' = w\<lparr>w_faults := fs\<rparr> \<and> (r = Inr (f (w_fga w)) \<or> r = Inl ErrIO)"
  using assms unfolding fgaAsk_def by (cases rule: call_cases) auto

lemma can_access_mono: "can_access ts u x \<Longrightarrow> set ts \<subseteq> set ts' \<Longrightarrow> can_access ts' u x"
  by (induction rule: can_access.induct) (auto intro: can_access.intros)

inductive_cases can_accessE: "can_access ts u x"

text \<open>Access always comes from an owner tuple of the same user, up a chain of parents.\<close>

lemma can_access_owner_up:
  "can_access ts u x \<Longrightarrow> \<exists>y. (u, Relation, y) \<in> set ts \<and> (\<lambda>a b. (b, ParentRelation, a) \<in> set ts)\<^sup>*\<^sup>* x y"
proof (induction rule: can_access.induct)
  case (owner u obj)
  then show ?case by blast
next
  case (parent p obj u)
  then show ?case by (meson converse_rtranclp_into_rtranclp)
qed

lemma can_access_none: "(\<And>y. (u, Relation, y) \<notin> set ts) \<Longrightarrow> \<not> can_access ts u x"
  using can_access_owner_up by blast

section \<open>A concrete server\<close>

definition modelFga :: fga where
  "modelFga = \<lparr>
     fga_write = (\<lambda>t ts. if t \<in> set ts then Inl ErrTupleExists else Inr (t # ts)),
     fga_delete = (\<lambda>t ts. if t \<in> set ts then Inr (filter (\<lambda>x. x \<noteq> t) ts) else Inl ErrTupleMissing),
     fga_check = (\<lambda>ts t. case t of (u, r, x) \<Rightarrow> if r = AccessRelation then can_access ts u x else (u, r, x) \<in> set ts),
     fga_list = (\<lambda>ts u r typ. map (\<lambda>t. snd (snd t)) (filter (\<lambda>t. fst t = u \<and> HasPrefix (snd (snd t)) (typ @ '':'')) ts))\<rparr>"

lemma modelFga_ok [simp]: "fga_ok modelFga"
  unfolding fga_ok_def by (simp add: modelFga_def) (auto intro: exI [of _ "filter P ts" for P ts])

end
