(* ===== verification/Chunk.thy ===== *)
theory Chunk
  imports GoStrings "HOL-Library.Sublist"
begin

text \<open>
  The content-defined chunker, \<open>kamara/internal/chunk\<close>. The gear table and the boundary
  condition are computed on 64-bit words as in \<open>gear.go\<close> and \<open>cutpoint\<close>; \<open>Split\<close> is the
  streaming loop over a \<open>bufio.Reader\<close>, with the reader below it given by the reads it returns.
  The reference definition \<open>chunks_of\<close> cuts a byte string that is wholly in memory; the lemmas
  show that the streaming loop computes it, whatever the sizes of the reads, and that it never
  swallows a read error.
\<close>

unbundle bit_operations_syntax

section \<open>The gear table\<close>

primrec gearLoop :: "nat \<Rightarrow> u64 \<Rightarrow> u64 list" where
  "gearLoop 0 x = []"
| "gearLoop (Suc n) x =
    (let x = x + 0x9e3779b97f4a7c15;
         z = x;
         z = (z XOR drop_bit 30 z) * 0xbf58476d1ce4e5b9;
         z = (z XOR drop_bit 27 z) * 0x94d049bb133111eb;
         z = z XOR drop_bit 31 z
     in z # gearLoop n x)"

definition gear_table :: "u64 list" where
  "gear_table = gearLoop 256 0x9e3779b97f4a7c15"

definition gear :: "byte \<Rightarrow> u64" where
  "gear b = gear_table ! unat b"

lemma length_gearLoop [simp]: "length (gearLoop n x) = n"
  by (induction n arbitrary: x) (simp_all add: Let_def)

lemma gear_in_table: "gear b \<in> set gear_table"
  using unat_byte_less [of b] by (simp add: gear_def gear_table_def)

section \<open>The cut point\<close>

definition MinSize :: nat where
  "MinSize = 256 * 1024"

definition AvgSize :: nat where
  "AvgSize = 1024 * 1024"

definition MaxSize :: nat where
  "MaxSize = 4 * 1024 * 1024"

definition avgBits :: nat where
  "avgBits = 20"

definition maskS :: u64 where
  "maskS = push_bit (avgBits + 2) 1 - 1"

definition maskL :: u64 where
  "maskL = push_bit (avgBits - 2) 1 - 1"

text \<open>
  One of the two scanning loops: from index \<open>i\<close> to \<open>n\<close> with one msk. The result is the cut
  index and \<open>True\<close>, or the index and fingerprint the loop ends with and \<open>False\<close>.
\<close>

function cutScan :: "u64 \<Rightarrow> bytes \<Rightarrow> nat \<Rightarrow> nat \<Rightarrow> u64 \<Rightarrow> nat \<times> u64 \<times> bool" where
  "cutScan msk data n i fp =
    (if i < n
     then (let fp = push_bit 1 fp + gear (data ! i)
           in if fp AND msk = 0 then (i, fp, True) else cutScan msk data n (i + 1) fp)
     else (i, fp, False))"
  by auto
termination by (relation "measure (\<lambda>(_, _, n, i, _). n - i)") auto

declare cutScan.simps [simp del]

definition cutpoint :: "bytes \<Rightarrow> nat" where
  "cutpoint data =
    (if length data \<le> MinSize then length data
     else let n = (if length data > MaxSize then MaxSize else length data);
              normal = (if n < AvgSize then n else AvgSize)
          in case cutScan maskS data normal MinSize 0 of
               (i, fp, True) \<Rightarrow> i
             | (i, fp, False) \<Rightarrow>
                 (case cutScan maskL data n i fp of
                    (j, fp', True) \<Rightarrow> j
                  | (j, fp', False) \<Rightarrow> n))"

lemma sizes_ordered [simp]: "0 < MinSize" "MinSize < AvgSize" "AvgSize < MaxSize" "0 < MaxSize"
  "MinSize < MaxSize" "MinSize \<le> MaxSize"
  by (simp_all add: MinSize_def AvgSize_def MaxSize_def)

lemma cutScan_range:
  "cutScan msk data n i fp = (j, fp', b) \<Longrightarrow> i \<le> n \<Longrightarrow>
   i \<le> j \<and> j \<le> n \<and> (b \<longrightarrow> j < n) \<and> (\<not> b \<longrightarrow> j = n)"
  by (induction msk data n i fp rule: cutScan.induct)
    (subst (asm) (2) cutScan.simps, auto simp: Let_def split: if_splits)

lemma cutScan_local:
  assumes "\<And>k. k < n \<Longrightarrow> xs ! k = ys ! k"
  shows "cutScan msk xs n i fp = cutScan msk ys n i fp"
  using assms
proof (induction msk xs n i fp rule: cutScan.induct)
  case (1 msk xs n i fp)
  show ?case
    by (subst (1 2) cutScan.simps) (use 1 in \<open>auto simp: Let_def\<close>)
qed

text \<open>The bounds the comment on \<open>cutpoint\<close> promises.\<close>

lemma cutpoint_bounds:
  "cutpoint data \<le> length data" "cutpoint data \<le> MaxSize"
  "MinSize < length data \<Longrightarrow> MinSize \<le> cutpoint data"
  "length data \<le> MinSize \<Longrightarrow> cutpoint data = length data"
proof -
  have main: "MinSize \<le> cutpoint data \<and> cutpoint data \<le> length data \<and> cutpoint data \<le> MaxSize"
    if big: "MinSize < length data"
  proof -
    define n where "n = (if length data > MaxSize then MaxSize else length data)"
    define normal where "normal = (if n < AvgSize then n else AvgSize)"
    have nle: "n \<le> length data" "n \<le> MaxSize" "MinSize \<le> n" "normal \<le> n" "MinSize \<le> normal"
      using big sizes_ordered unfolding n_def normal_def by (auto simp del: sizes_ordered)
    obtain i fp b where s1: "cutScan maskS data normal MinSize 0 = (i, fp, b)"
      by (metis prod_cases3)
    have r1: "MinSize \<le> i" "i \<le> normal" using cutScan_range [OF s1] nle by auto
    obtain j fp' b' where s2: "cutScan maskL data n i fp = (j, fp', b')"
      by (metis prod_cases3)
    have r2: "i \<le> j" "j \<le> n" using cutScan_range [OF s2] nle r1 by auto
    have "cutpoint data = (if b then i else if b' then j else n)"
      using big s1 s2 by (simp add: cutpoint_def n_def [symmetric] normal_def [symmetric])
    then show ?thesis using nle r1 r2 by auto
  qed
  show "cutpoint data \<le> length data" "cutpoint data \<le> MaxSize"
    "MinSize < length data \<Longrightarrow> MinSize \<le> cutpoint data"
    "length data \<le> MinSize \<Longrightarrow> cutpoint data = length data"
    using main le_less_trans [OF _ sizes_ordered(5)]
    by (cases "MinSize < length data"; simp add: cutpoint_def less_imp_le)+
qed

lemma cutpoint_pos: "data \<noteq> [] \<Longrightarrow> 0 < cutpoint data"
proof (cases "MinSize < length data")
  case True
  with cutpoint_bounds(3) sizes_ordered(1) show ?thesis by (meson less_le_trans)
next
  case False
  assume "data \<noteq> []"
  then show ?thesis using cutpoint_bounds(4) [of data] False by simp
qed

lemma cutpoint_window:
  assumes "take MaxSize xs = take MaxSize ys"
  shows "cutpoint xs = cutpoint ys"
proof -
  have nth: "xs ! k = ys ! k" if "k < MaxSize" for k
    using assms that by (metis nth_take)
  have len: "min MaxSize (length xs) = min MaxSize (length ys)"
    using assms by (metis length_take min.commute)
  have "cutScan m xs n i fp = cutScan m ys n i fp" if "n \<le> MaxSize" for m n i fp
    using that nth by (intro cutScan_local) auto
  note scan = this
  show ?thesis
  proof (cases "length xs < MaxSize")
    case True
    then have "xs = ys" using assms len by (simp add: min_def split: if_splits)
    then show ?thesis by simp
  next
    case False
    then have big: "MaxSize \<le> length xs" "MaxSize \<le> length ys"
      using len by (simp_all add: min_def split: if_splits)
    have n: "(if MaxSize < length zs then MaxSize else length zs) = MaxSize"
      and nle: "\<not> length zs \<le> MinSize" if "MaxSize \<le> length zs" for zs :: bytes
      using that sizes_ordered(5) by (auto simp del: sizes_ordered)
    have m: "\<not> MaxSize < AvgSize" using sizes_ordered(3) by (meson less_asym)
    have "AvgSize \<le> MaxSize" by (rule less_imp_le [OF sizes_ordered(3)])
    then show ?thesis
      unfolding cutpoint_def Let_def n [OF big(1)] n [OF big(2)]
      using nle [OF big(1)] nle [OF big(2)] m scan by simp
  qed
qed

lemma cutpoint_take [simp]: "cutpoint (take MaxSize xs) = cutpoint xs"
  by (rule cutpoint_window) simp

section \<open>The reference chunking\<close>

function chunks_of :: "bytes \<Rightarrow> bytes list" where
  "chunks_of d = (if d = [] then [] else take (cutpoint d) d # chunks_of (drop (cutpoint d) d))"
  by auto
termination by (relation "measure length") (auto simp: cutpoint_pos)

declare chunks_of.simps [simp del]

lemma chunks_of_Nil [simp]: "chunks_of [] = []"
  by (simp add: chunks_of.simps)

lemma concat_chunks_of [simp]: "concat (chunks_of d) = d"
  by (induction d rule: chunks_of.induct) (subst chunks_of.simps, simp)

lemma chunks_of_sizes:
  "c \<in> set (chunks_of d) \<Longrightarrow> 0 < length c \<and> length c \<le> MaxSize"
proof (induction d rule: chunks_of.induct)
  case (1 d)
  then show ?case
    using cutpoint_bounds(1,2) [of d] cutpoint_pos [of d]
    by (subst (asm) (2) chunks_of.simps) (auto split: if_splits)
qed

lemma chunks_of_min:
  "c \<in> set (butlast (chunks_of d)) \<Longrightarrow> MinSize \<le> length c"
proof (induction d rule: chunks_of.induct)
  case (1 d)
  show ?case
  proof (cases "d = [] \<or> chunks_of (drop (cutpoint d) d) = []")
    case True
    then have "butlast (chunks_of d) = []" by (subst chunks_of.simps) (auto simp del: drop_eq_Nil)
    then show ?thesis using "1.prems" by simp
  next
    case False
    then have "drop (cutpoint d) d \<noteq> []" by auto
    then have "cutpoint d < length d" by simp
    then have "MinSize < length d" using cutpoint_bounds(4) [of d] by (metis less_irrefl not_less)
    then have "MinSize \<le> cutpoint d" by (rule cutpoint_bounds(3))
    moreover have "butlast (chunks_of d) =
        take (cutpoint d) d # butlast (chunks_of (drop (cutpoint d) d))"
      using False by (subst chunks_of.simps) simp
    ultimately show ?thesis
      using "1.prems" "1.IH" False \<open>cutpoint d < length d\<close> by auto
  qed
qed

text \<open>
  Every boundary of the chunking is a fresh start: what follows it is chunked as if it were a
  stream of its own.
\<close>

lemma chunks_of_suffix:
  "chunks_of d = xs @ ys \<Longrightarrow> chunks_of (concat ys) = ys"
proof (induction xs arbitrary: d)
  case Nil
  then show ?case by (metis append_Nil concat_chunks_of)
next
  case (Cons x xs)
  then have "chunks_of (drop (cutpoint d) d) = xs @ ys"
    by (subst (asm) (2) chunks_of.simps) (auto split: if_splits)
  then show ?case by (rule Cons.IH)
qed

text \<open>
  A chunk is determined by at most \<open>MaxSize\<close> bytes from its start, so the chunks of a common
  prefix agree up to one window before the first difference.
\<close>

lemma chunks_of_prefix:
  "chunks_of (p @ s) = xs @ ys \<Longrightarrow> length (concat xs) + MaxSize \<le> length p \<Longrightarrow>
   \<exists>zs. chunks_of (p @ t) = xs @ zs"
proof (induction xs arbitrary: p)
  case Nil
  then show ?case by simp
next
  case (Cons x xs)
  have plong: "MaxSize \<le> length p" using Cons.prems(2) by simp
  then have pne: "p \<noteq> []" using sizes_ordered(4) by fastforce
  have cut: "cutpoint (p @ s) = cutpoint p" "cutpoint (p @ t) = cutpoint p"
    using plong by (auto intro: cutpoint_window)
  have cle: "cutpoint p \<le> length p" by (rule cutpoint_bounds)
  have eq: "chunks_of (p @ u) = take (cutpoint p) p # chunks_of (drop (cutpoint p) p @ u)"
    if "cutpoint (p @ u) = cutpoint p" for u
    using pne cle that by (subst chunks_of.simps) simp
  have x: "x = take (cutpoint p) p" and rest: "chunks_of (drop (cutpoint p) p @ s) = xs @ ys"
    using Cons.prems(1) eq [OF cut(1)] by simp_all
  have "length (concat xs) + MaxSize \<le> length (drop (cutpoint p) p)"
    using Cons.prems(2) x cle by simp
  from Cons.IH [OF rest this] obtain zs where "chunks_of (drop (cutpoint p) p @ t) = xs @ zs" by blast
  then show ?case using eq [OF cut(2)] x by auto
qed

section \<open>Readers\<close>

text \<open>
  The reader below \<open>Split\<close> is the list of the pieces its reads return and how it ends: at
  end of file or with an error, again and again once it got there. A read of at most \<open>cap\<close>
  bytes takes the first piece, or as much of it as fits. An empty piece is a read that returns
  \<open>(0, nil)\<close>, which the contract of \<open>io.Reader\<close> allows; \<open>rd_early\<close> tells whether the last piece
  comes together with the ending.
\<close>

datatype rend = REOF | RFail err

record reader =
  rd_segs :: "bytes list"
  rd_end :: rend
  rd_early :: bool

definition readUnder :: "nat \<Rightarrow> reader \<Rightarrow> bytes \<times> rend option \<times> reader" where
  "readUnder cap r =
    (case rd_segs r of
       [] \<Rightarrow> ([], Some (rd_end r), r)
     | s # ss \<Rightarrow>
         if length s \<le> cap
         then (s, if ss = [] \<and> rd_early r then Some (rd_end r) else None, r\<lparr>rd_segs := ss\<rparr>)
         else (take cap s, None, r\<lparr>rd_segs := drop cap s # ss\<rparr>))"

text \<open>\<open>bufio.Reader\<close> with the buffer size \<open>Split\<close> gives it: \<open>Read\<close>, \<open>fill\<close> and \<open>Peek(1)\<close>.\<close>

record bufio =
  bf_buf :: bytes
  bf_err :: "rend option"
  bf_rd :: reader

definition bufSize :: nat where
  "bufSize = 65536"

definition bufRead :: "nat \<Rightarrow> bufio \<Rightarrow> bytes \<times> rend option \<times> bufio" where
  "bufRead cap b =
    (if bf_buf b = [] then
       (case bf_err b of
          Some e \<Rightarrow> ([], Some e, b\<lparr>bf_err := None\<rparr>)
        | None \<Rightarrow>
            if bufSize \<le> cap then
              (case readUnder cap (bf_rd b) of (d, e, r) \<Rightarrow> (d, e, b\<lparr>bf_rd := r\<rparr>))
            else
              (case readUnder bufSize (bf_rd b) of (d, e, r) \<Rightarrow>
                 if d = [] then ([], e, b\<lparr>bf_rd := r\<rparr>)
                 else (take cap d, None, b\<lparr>bf_buf := drop cap d, bf_err := e, bf_rd := r\<rparr>)))
     else (take cap (bf_buf b), None, b\<lparr>bf_buf := drop cap (bf_buf b)\<rparr>))"

primrec bufFill :: "nat \<Rightarrow> bufio \<Rightarrow> bufio" where
  "bufFill 0 b = b\<lparr>bf_err := Some (RFail ErrNoProgress)\<rparr>"
| "bufFill (Suc n) b =
    (case readUnder (bufSize - length (bf_buf b)) (bf_rd b) of (d, e, r) \<Rightarrow>
       let b' = b\<lparr>bf_buf := bf_buf b @ d, bf_rd := r\<rparr> in
       (case e of
          Some x \<Rightarrow> b'\<lparr>bf_err := Some x\<rparr>
        | None \<Rightarrow> if d \<noteq> [] then b' else bufFill n b'))"

definition bufPeek1 :: "bufio \<Rightarrow> rend option \<times> bufio" where
  "bufPeek1 b =
    (let b' = (if bf_buf b = [] \<and> bf_err b = None then bufFill 100 b else b)
     in if bf_buf b' = []
        then (case bf_err b' of
                Some e \<Rightarrow> (Some e, b'\<lparr>bf_err := None\<rparr>)
              | None \<Rightarrow> (Some (RFail ErrBufferFull), b'))
        else (None, b'))"

definition newBufio :: "reader \<Rightarrow> bufio" where
  "newBufio r = \<lparr>bf_buf = [], bf_err = None, bf_rd = r\<rparr>"

text \<open>What is still to come out of a reader.\<close>

definition pend :: "bufio \<Rightarrow> bytes" where
  "pend b = bf_buf b @ concat (rd_segs (bf_rd b))"

lemma readUnder_pend:
  "readUnder cap r = (d, e, r') \<Longrightarrow>
   concat (rd_segs r) = d @ concat (rd_segs r') \<and> length d \<le> cap \<and> rd_end r' = rd_end r"
  by (auto simp: readUnder_def split: list.splits if_splits)

lemma bufRead_pend:
  "bufRead cap b = (d, e, b') \<Longrightarrow>
   pend b = d @ pend b' \<and> length d \<le> cap \<and> rd_end (bf_rd b') = rd_end (bf_rd b)"
  by (auto simp: bufRead_def pend_def split: prod.splits if_splits option.splits
      dest!: readUnder_pend)

lemma bufFill_pend:
  "pend (bufFill n b) = pend b \<and> rd_end (bf_rd (bufFill n b)) = rd_end (bf_rd b)"
proof (induction n arbitrary: b)
  case (Suc n)
  obtain d e r where r: "readUnder (bufSize - length (bf_buf b)) (bf_rd b) = (d, e, r)"
    by (metis prod_cases3)
  from readUnder_pend [OF r] show ?case
    using Suc [of "b\<lparr>bf_buf := bf_buf b @ d, bf_rd := r\<rparr>"]
    by (auto simp: r Let_def pend_def split: option.split)
qed (simp add: pend_def)

lemma bufPeek1_pend:
  "bufPeek1 b = (e, b') \<Longrightarrow> pend b' = pend b \<and> rd_end (bf_rd b') = rd_end (bf_rd b)"
  using bufFill_pend [of 100 b]
  by (auto simp: bufPeek1_def Let_def pend_def split: if_splits option.splits)

section \<open>The streaming loop\<close>

text \<open>The inner loop of \<open>Split\<close>: fill the buffer up to \<open>MaxSize\<close>. The last component is the error
  with which \<open>Split\<close> returns at once.\<close>

function fill :: "bytes \<Rightarrow> bufio \<Rightarrow> bytes \<times> bufio \<times> err option" where
  "fill buf br =
    (if length buf < MaxSize then
       (case bufRead (MaxSize - length buf) br of (m, e, br') \<Rightarrow>
          (case e of
             Some REOF \<Rightarrow> (buf @ m, br', None)
           | Some (RFail x) \<Rightarrow> (buf @ m, br', Some x)
           | None \<Rightarrow> if m = [] then (buf @ m, br', None) else fill (buf @ m) br'))
     else (buf, br, None))"
  by pat_completeness auto
termination
  by (relation "measure (\<lambda>(buf, _). MaxSize - length buf)") (auto simp: length_greater_0_conv [symmetric] simp del: length_greater_0_conv)

declare fill.simps [simp del]

lemma fill_pend:
  "fill buf br = (buf', br', x) \<Longrightarrow>
   buf @ pend br = buf' @ pend br' \<and> rd_end (bf_rd br') = rd_end (bf_rd br) \<and>
   (length buf \<le> MaxSize \<longrightarrow> length buf' \<le> MaxSize)"
proof (induction buf br rule: fill.induct)
  case (1 buf br)
  obtain m e b1 where r: "bufRead (MaxSize - length buf) br = (m, e, b1)"
    by (metis prod_cases3)
  from bufRead_pend [OF r] have p: "pend br = m @ pend b1" "length m \<le> MaxSize - length buf"
    "rd_end (bf_rd b1) = rd_end (bf_rd br)" by auto
  from "1.prems" show ?case
    using p "1.IH" [OF _ r [symmetric] refl]
    by (subst (asm) fill.simps) (auto simp: r split: if_splits option.splits rend.splits)
qed

function splitLoop :: "(bytes \<Rightarrow> ('w, unit) io) \<Rightarrow> bytes \<Rightarrow> bufio \<Rightarrow> ('w, unit) io" where
  "splitLoop fn buf br =
    (case fill buf br of
       (buf1, br1, Some x) \<Rightarrow> fail x
     | (buf1, br1, None) \<Rightarrow>
         if buf1 = [] then ret ()
         else
           let c = cutpoint buf1; rest = drop c buf1 in
           bnd (fn (take c buf1)) (\<lambda>_.
             let (eof, br2) = (if rest = [] then bufPeek1 br1 else (None, br1)) in
             if eof = Some REOF then ret () else splitLoop fn rest br2))"
  by pat_completeness auto
termination
proof (relation "measure (\<lambda>(_, buf, br). length buf + length (pend br))", goal_cases)
  case 1
  show ?case by simp
next
  case (2 fn buf br buf1 y br1 ya xb xc xd xe eof br2)
  have p1: "buf @ pend br = buf1 @ pend br1"
    using 2(1,2,3) fill_pend [of buf br buf1 br1 None] by simp
  have p2: "pend br2 = pend br1"
    using 2(7,8,9) bufPeek1_pend [of br1 eof br2] by (simp split: if_splits)
  have "0 < cutpoint buf1" "cutpoint buf1 \<le> length buf1"
    using 2 by (simp_all add: cutpoint_pos cutpoint_bounds)
  moreover have "length buf + length (pend br) = length buf1 + length (pend br1)"
    using p1 by (metis length_append)
  ultimately show ?case using 2 p2 by simp
qed

declare splitLoop.simps [simp del]

text \<open>One call: the whole stream through a fresh buffered reader.\<close>

definition Split :: "reader \<Rightarrow> (bytes \<Rightarrow> ('w, unit) io) \<Rightarrow> ('w, unit) io" where
  "Split r fn = splitLoop fn [] (newBufio r)"


section \<open>The streaming loop computes the reference chunking\<close>

text \<open>
  A reader whose reads always make progress, seen through the buffered reader: a pending error
  is the ending of the stream and nothing comes after it.
\<close>

definition steady :: "bufio \<Rightarrow> bool" where
  "steady b \<longleftrightarrow> [] \<notin> set (rd_segs (bf_rd b)) \<and>
     (\<forall>e. bf_err b = Some e \<longrightarrow> e = rd_end (bf_rd b) \<and> rd_segs (bf_rd b) = [])"

lemma readUnder_steady:
  assumes "[] \<notin> set (rd_segs r)" "readUnder cap r = (d, e, r')" "0 < cap"
  shows "[] \<notin> set (rd_segs r')" "e = None \<Longrightarrow> d \<noteq> []"
    "e = Some x \<Longrightarrow> x = rd_end r \<and> x = rd_end r' \<and> rd_segs r' = []"
  using assms by (auto simp: readUnder_def split: list.splits if_splits)

lemma bufRead_steady:
  assumes st: "steady b" and rd: "bufRead cap b = (d, e, b')" and cap: "0 < cap"
  shows "steady b'" "e = None \<Longrightarrow> d \<noteq> []"
    "e = Some x \<Longrightarrow> x = rd_end (bf_rd b) \<and> pend b' = []"
proof -
  have ne: "[] \<notin> set (rd_segs (bf_rd b))" using st by (simp add: steady_def)
  have size: "0 < bufSize" by (simp add: bufSize_def)
  obtain d1 e1 r1 where r1: "readUnder cap (bf_rd b) = (d1, e1, r1)" by (metis prod_cases3)
  obtain d2 e2 r2 where r2: "readUnder bufSize (bf_rd b) = (d2, e2, r2)" by (metis prod_cases3)
  note s1 = readUnder_steady [OF ne r1 cap] and s2 = readUnder_steady [OF ne r2 size]
  have "steady b' \<and> (e = None \<longrightarrow> d \<noteq> []) \<and>
      (\<forall>x. e = Some x \<longrightarrow> x = rd_end (bf_rd b) \<and> pend b' = [])"
  proof (cases "bf_buf b = [] \<and> bf_err b = None")
    case True
    show ?thesis
    proof (cases "bufSize \<le> cap")
      case big: True
      then have "d = d1" "e = e1" "b' = b\<lparr>bf_rd := r1\<rparr>"
        using rd True by (simp_all add: bufRead_def r1)
      then show ?thesis using True s1 by (simp add: steady_def pend_def)
    next
      case small: False
      show ?thesis
      proof (cases "d2 = []")
        case True
        then have "d = []" "e = e2" "b' = b\<lparr>bf_rd := r2\<rparr>"
          using rd small \<open>bf_buf b = [] \<and> bf_err b = None\<close> by (simp_all add: bufRead_def r2)
        then show ?thesis
          using True s2 \<open>bf_buf b = [] \<and> bf_err b = None\<close>
          by (cases e2) (simp_all add: steady_def pend_def)
      next
        case ne: False
        then have "d = take cap d2" "e = None" "b' = b\<lparr>bf_buf := drop cap d2, bf_err := e2, bf_rd := r2\<rparr>"
          using rd small True by (simp_all add: bufRead_def r2)
        then show ?thesis using ne s2 cap by (simp add: steady_def)
      qed
    qed
  next
    case False
    show ?thesis
    proof (cases "bf_buf b = []")
      case True
      with False obtain z where z: "bf_err b = Some z" by auto
      with st have "z = rd_end (bf_rd b)" "rd_segs (bf_rd b) = []" by (auto simp: steady_def)
      moreover have "d = []" "e = Some z" "b' = b\<lparr>bf_err := None\<rparr>"
        using True z rd by (simp_all add: bufRead_def)
      ultimately show ?thesis using True by (simp add: steady_def pend_def)
    next
      case False
      with rd st cap show ?thesis by (auto simp: bufRead_def steady_def pend_def)
    qed
  qed
  then show "steady b'" "e = None \<Longrightarrow> d \<noteq> []"
    "e = Some x \<Longrightarrow> x = rd_end (bf_rd b) \<and> pend b' = []" by simp_all
qed

lemma bufFill_steady:
  assumes st: "steady b" and e: "bf_buf b = []" "bf_err b = None" and "0 < n"
  shows "steady (bufFill n b)"
    "bf_buf (bufFill n b) = [] \<Longrightarrow>
       bf_err (bufFill n b) = Some (rd_end (bf_rd b)) \<and> pend b = []"
proof -
  have ne: "[] \<notin> set (rd_segs (bf_rd b))" using st by (simp add: steady_def)
  have size: "0 < bufSize" by (simp add: bufSize_def)
  obtain d x r where r: "readUnder bufSize (bf_rd b) = (d, x, r)" by (metis prod_cases3)
  note s = readUnder_steady [OF ne r size] readUnder_pend [OF r]
  obtain k where n: "n = Suc k" using \<open>0 < n\<close> gr0_conv_Suc by blast
  show "steady (bufFill n b)"
    "bf_buf (bufFill n b) = [] \<Longrightarrow>
       bf_err (bufFill n b) = Some (rd_end (bf_rd b)) \<and> pend b = []"
    using e s by (cases x; auto simp: n r Let_def steady_def pend_def)+
qed

lemma bufPeek1_steady:
  assumes st: "steady b" and pk: "bufPeek1 b = (e, b')"
  shows "steady b'" "e = (if pend b = [] then Some (rd_end (bf_rd b)) else None)"
proof -
  define b1 where "b1 = (if bf_buf b = [] \<and> bf_err b = None then bufFill 100 b else b)"
  have b1: "steady b1"
    "bf_buf b1 = [] \<Longrightarrow> bf_err b1 = Some (rd_end (bf_rd b)) \<and> pend b = []"
  proof -
    show "steady b1" unfolding b1_def using st bufFill_steady(1) [OF st, of 100] by simp
    assume e: "bf_buf b1 = []"
    show "bf_err b1 = Some (rd_end (bf_rd b)) \<and> pend b = []"
    proof (cases "bf_buf b = [] \<and> bf_err b = None")
      case True
      with e show ?thesis unfolding b1_def using bufFill_steady(2) [OF st, of 100] by simp
    next
      case False
      with e have "b1 = b" "bf_buf b = []" by (auto simp: b1_def)
      with False st show ?thesis by (auto simp: steady_def pend_def)
    qed
  qed
  have pend: "pend b1 = pend b" by (simp add: b1_def bufFill_pend)
  have "bufPeek1 b = (if bf_buf b1 = []
      then (Some (rd_end (bf_rd b)), b1\<lparr>bf_err := None\<rparr>) else (None, b1))"
    using b1(2) by (simp add: bufPeek1_def b1_def [symmetric] Let_def)
  moreover have "pend b = [] \<longleftrightarrow> bf_buf b1 = []"
    using b1(2) pend unfolding pend_def by (metis append_is_Nil_conv)
  ultimately show "steady b'" "e = (if pend b = [] then Some (rd_end (bf_rd b)) else None)"
    using pk b1(1) by (auto simp: steady_def split: if_splits)
qed

lemma fill_steady:
  assumes "steady br" "length buf \<le> MaxSize" "fill buf br = (buf', br', x)"
  shows "steady br' \<and>
    (case x of
       None \<Rightarrow> length buf' = MaxSize \<or> (pend br' = [] \<and> rd_end (bf_rd br) = REOF)
     | Some y \<Rightarrow> pend br' = [] \<and> rd_end (bf_rd br) = RFail y)"
  using assms
proof (induction buf br rule: fill.induct)
  case (1 buf br)
  show ?case
  proof (cases "length buf < MaxSize")
    case True
    obtain m e b1 where r: "bufRead (MaxSize - length buf) br = (m, e, b1)"
      by (metis prod_cases3)
    have pos: "0 < MaxSize - length buf" using True by simp
    note st = bufRead_steady [OF "1.prems"(1) r pos]
    note pd = bufRead_pend [OF r]
    show ?thesis
    proof (cases e)
      case None
      then have "m \<noteq> []" by (rule st(2))
      then have "fill buf br = fill (buf @ m) b1"
        using True None by (subst fill.simps) (simp add: r)
      moreover have "length (buf @ m) \<le> MaxSize"
        using conjunct1 [OF conjunct2 [OF pd]] True by simp
      moreover have "rd_end (bf_rd b1) = rd_end (bf_rd br)" using pd by simp
      ultimately show ?thesis
        using "1.IH" [OF True r [symmetric] refl None \<open>m \<noteq> []\<close> st(1)] "1.prems"(3)
        by (simp split: option.splits)
    next
      case (Some y)
      with st(3) [OF Some] show ?thesis
        using "1.prems"(3) True st(1)
        by (subst (asm) fill.simps) (auto simp: r split: rend.splits)
    qed
  next
    case False
    then show ?thesis using "1.prems" by (subst (asm) fill.simps) auto
  qed
qed

text \<open>
  One round of the loop on a steady reader, with the whole remaining stream \<open>d\<close>: the chunk it
  hands over is the first chunk of \<open>d\<close> and what remains is the rest of \<open>d\<close>.
\<close>

lemma splitLoop_step:
  assumes f: "fill buf br = (b1, br1, None)" and ne: "b1 \<noteq> []"
    and pk: "(if drop (cutpoint b1) b1 = [] then bufPeek1 br1 else (None, br1)) = (eof, br2)"
  shows "splitLoop fn buf br = bnd (fn (take (cutpoint b1) b1)) (\<lambda>_.
    if eof = Some REOF then ret () else splitLoop fn (drop (cutpoint b1) b1) br2)"
  using ne by (subst splitLoop.simps) (simp only: f prod.case option.case Let_def pk if_False)

lemma splitLoop_eof:
  "steady br \<Longrightarrow> length buf \<le> MaxSize \<Longrightarrow> rd_end (bf_rd br) = REOF \<Longrightarrow>
   splitLoop fn buf br = foreach fn (chunks_of (buf @ pend br))"
proof (induction fn buf br rule: splitLoop.induct)
  case (1 fn buf br)
  obtain b1 br1 x where f: "fill buf br = (b1, br1, x)" by (metis prod_cases3)
  note fp = fill_pend [OF f] and fs = fill_steady [OF "1.prems"(1,2) f]
  have x: "x = None" using fs "1.prems"(3) by (cases x) auto
  have d: "buf @ pend br = b1 @ pend br1" using fp by simp
  have eof1: "rd_end (bf_rd br1) = REOF" using fp "1.prems"(3) by simp
  have st1: "steady br1" using fs by simp
  have win: "take MaxSize (b1 @ pend br1) = take MaxSize b1"
    using fs x by auto
  show ?case
  proof (cases "b1 = []")
    case True
    then have "pend br1 = []" using fs x sizes_ordered(4) by auto
    then show ?thesis using True d f x by (subst splitLoop.simps) simp
  next
    case False
    define c where "c = cutpoint b1"
    have c: "cutpoint (b1 @ pend br1) = c" "c \<le> length b1"
      using cutpoint_window [OF win] cutpoint_bounds(1) by (auto simp: c_def)
    have ch: "chunks_of (b1 @ pend br1) = take c b1 # chunks_of (drop c b1 @ pend br1)"
      using False c by (subst chunks_of.simps) simp
    obtain eof br2 where pk:
      "(if drop c b1 = [] then bufPeek1 br1 else (None, br1)) = (eof, br2)" by fastforce
    have st2: "steady br2" "pend br2 = pend br1" "rd_end (bf_rd br2) = REOF"
      using pk st1 eof1 bufPeek1_steady(1) [OF st1] bufPeek1_pend [of br1]
      by (auto split: if_splits)
    have eof: "eof = Some REOF \<longleftrightarrow> drop c b1 = [] \<and> pend br1 = []"
      using pk eof1 bufPeek1_steady(2) [OF st1] by (auto split: if_splits)
    have rest: "(if eof = Some REOF then ret () else splitLoop fn (drop c b1) br2)
        = foreach fn (chunks_of (drop c b1 @ pend br1))"
    proof (cases "eof = Some REOF")
      case True
      then show ?thesis using eof by simp
    next
      case ne: False
      have "length (drop c b1) \<le> MaxSize" using fp "1.prems"(2) by (auto simp: le_diff_conv trans_le_add1)
      then show ?thesis
        using "1.IH" [OF f [symmetric] refl x False c_def refl refl pk [symmetric] ne st2(1)] st2 ne by simp
    qed
    show ?thesis
      unfolding splitLoop_step [OF f [unfolded x] False pk [unfolded c_def]] d ch
        c_def [symmetric] rest by simp
  qed
qed

text \<open>
  A reader that fails: the loop hands over a prefix of the chunks and then returns the error.
\<close>

lemma splitLoop_fail:
  "steady br \<Longrightarrow> length buf \<le> MaxSize \<Longrightarrow> rd_end (bf_rd br) = RFail e \<Longrightarrow>
   \<exists>cs. prefix cs (chunks_of (buf @ pend br)) \<and>
        splitLoop fn buf br = bnd (foreach fn cs) (\<lambda>_. fail e)"
proof (induction fn buf br rule: splitLoop.induct)
  case (1 fn buf br)
  obtain b1 br1 x where f: "fill buf br = (b1, br1, x)" by (metis prod_cases3)
  note fp = fill_pend [OF f] and fs = fill_steady [OF "1.prems"(1,2) f]
  show ?case
  proof (cases x)
    case (Some y)
    then have "y = e" using fs "1.prems"(3) by simp
    then have "splitLoop fn buf br = bnd (foreach fn []) (\<lambda>_. fail e)"
      using Some f by (subst splitLoop.simps) simp
    then show ?thesis by (meson Nil_prefix)
  next
    case x: None
    then have full: "length b1 = MaxSize" using fs "1.prems"(3) by auto
    then have ne: "b1 \<noteq> []" using sizes_ordered(4) by (metis less_irrefl list.size(3))
    have d: "buf @ pend br = b1 @ pend br1" using fp by simp
    have end1: "rd_end (bf_rd br1) = RFail e" using fp "1.prems"(3) by simp
    have st1: "steady br1" using fs by simp
    define c where "c = cutpoint b1"
    have "take MaxSize (b1 @ pend br1) = take MaxSize b1" using full by simp
    then have c: "cutpoint (b1 @ pend br1) = c" "c \<le> length b1"
      using cutpoint_window [of "b1 @ pend br1" b1] cutpoint_bounds(1) by (simp_all add: c_def)
    have ch: "chunks_of (b1 @ pend br1) = take c b1 # chunks_of (drop c b1 @ pend br1)"
      using ne c by (subst chunks_of.simps) simp
    obtain eof br2 where pk:
      "(if drop c b1 = [] then bufPeek1 br1 else (None, br1)) = (eof, br2)" by fastforce
    have st2: "steady br2" "pend br2 = pend br1" "rd_end (bf_rd br2) = RFail e"
      using pk st1 end1 bufPeek1_steady(1) [OF st1] bufPeek1_pend [of br1]
      by (auto split: if_splits)
    have eof: "eof \<noteq> Some REOF"
      using pk end1 bufPeek1_steady(2) [OF st1] by (auto split: if_splits)
    have "length (drop c b1) \<le> MaxSize" using full by simp
    then obtain cs where cs: "prefix cs (chunks_of (drop c b1 @ pend br1))"
      "splitLoop fn (drop c b1) br2 = bnd (foreach fn cs) (\<lambda>_. fail e)"
      using "1.IH" [OF f [symmetric] refl x ne c_def refl refl pk [symmetric] eof st2(1)] st2
      by auto
    have "splitLoop fn buf br = bnd (foreach fn (take c b1 # cs)) (\<lambda>_. fail e)"
      using splitLoop_step [OF f [unfolded x] ne pk [unfolded c_def], of fn] cs(2) eof
      by (simp add: c_def bnd_assoc)
    moreover have "prefix (take c b1 # cs) (chunks_of (buf @ pend br))"
      using cs(1) ch d by simp
    ultimately show ?thesis by blast
  qed
qed

definition progressing :: "reader \<Rightarrow> bool" where
  "progressing r \<longleftrightarrow> [] \<notin> set (rd_segs r)"

definition content :: "reader \<Rightarrow> bytes" where
  "content r = concat (rd_segs r)"

lemma newBufio_simps [simp]:
  "steady (newBufio r) \<longleftrightarrow> progressing r" "pend (newBufio r) = content r"
  "bf_rd (newBufio r) = r"
  by (simp_all add: newBufio_def steady_def progressing_def pend_def content_def)

lemma Split_eof:
  assumes "progressing r" "rd_end r = REOF"
  shows "Split r fn = foreach fn (chunks_of (content r))"
  unfolding Split_def using splitLoop_eof [of "newBufio r" "[]" fn] assms by simp

lemma Split_fail:
  assumes "progressing r" "rd_end r = RFail e"
  obtains cs where "prefix cs (chunks_of (content r))"
    "Split r fn = bnd (foreach fn cs) (\<lambda>_. fail e)"
  unfolding Split_def using splitLoop_fail [of "newBufio r" "[]" e fn] assms by auto

section \<open>Properties\<close>

text \<open>C30. Streaming equals the reference: on a reader whose reads make progress and that ends at end of
  file, \<open>Split\<close> hands exactly the reference chunks of the whole stream to the callback, in order,
  whatever the sizes of the reads and whether or not the last read comes with the end of file; it
  stops at the callback's first error.\<close>

theorem Split_reference:
  assumes "progressing r" "rd_end r = REOF"
  shows "Split r fn = foreach fn (chunks_of (content r))"
  using assms by (rule Split_eof)

definition collect :: "bytes \<Rightarrow> (bytes list, unit) io" where
  "collect x cs = (Inr (), cs @ [x])"

theorem Split_reference_witness:
  "progressing \<lparr>rd_segs = [[1, 2], [3]], rd_end = REOF, rd_early = True\<rparr> \<and>
   Split \<lparr>rd_segs = [[1, 2], [3]], rd_end = REOF, rd_early = True\<rparr> collect [] = (Inr (), [[1, 2, 3]])"
proof -
  let ?r = "\<lparr>rd_segs = [[1, 2], [3]], rd_end = REOF, rd_early = True\<rparr>"
  have p: "progressing ?r" by (simp add: progressing_def)
  have "cutpoint [1, 2, 3] = 3" by (simp add: cutpoint_def MinSize_def)
  then have c: "chunks_of [1, 2, 3] = [[1, 2, 3]]" by (simp add: chunks_of.simps)
  have "Split ?r collect = foreach collect (chunks_of (content ?r))"
    by (rule Split_reference [OF p]) simp
  then have "Split ?r collect [] = (Inr (), [[1, 2, 3]])"
    using c by (simp add: content_def collect_def bnd_def run)
  with p show ?thesis ..
qed

text \<open>C31. The shape of a chunking: the chunks concatenate to the data, none is empty, none is longer than
  \<open>MaxSize\<close>, and every one but the last has at least \<open>MinSize\<close> bytes.\<close>

theorem chunks_of_shape:
  "concat (chunks_of d) = d \<and> (\<forall>c \<in> set (chunks_of d). 0 < length c \<and> length c \<le> MaxSize) \<and>
   (\<forall>c \<in> set (butlast (chunks_of d)). MinSize \<le> length c)"
  using chunks_of_sizes chunks_of_min by auto

theorem chunks_of_shape_witness:
  "chunks_of [7, 8] = [[7, 8]] \<and> (0 :: nat) < length [7 :: byte, 8] \<and> length [7 :: byte, 8] \<le> MaxSize"
proof -
  have "cutpoint [7, 8] = 2" by (simp add: cutpoint_def MinSize_def)
  then have c: "chunks_of [7, 8] = [[7, 8]]" by (simp add: chunks_of.simps)
  with chunks_of_shape [of "[7, 8]"] show ?thesis by auto
qed

text \<open>A read error is never swallowed: on a reader that fails with \<open>e\<close>, \<open>Split\<close> hands over a prefix of
  the chunks and then returns \<open>e\<close>, unless the callback failed before.\<close>

theorem Split_read_error:
  assumes "progressing r" "rd_end r = RFail e"
  shows "\<exists>cs. prefix cs (chunks_of (content r)) \<and> Split r fn = bnd (foreach fn cs) (\<lambda>_. fail e)"
  by (rule Split_fail [OF assms]) blast

theorem Split_read_error_witness:
  "fst (Split \<lparr>rd_segs = [[1, 2]], rd_end = RFail ErrIO, rd_early = False\<rparr> collect []) = Inl ErrIO"
proof -
  have "progressing \<lparr>rd_segs = [[1, 2]], rd_end = RFail ErrIO, rd_early = False\<rparr>"
    by (simp add: progressing_def)
  then obtain cs where
    "Split \<lparr>rd_segs = [[1, 2]], rd_end = RFail ErrIO, rd_early = False\<rparr> collect =
     bnd (foreach collect cs) (\<lambda>_. fail ErrIO)"
    using Split_read_error [of "\<lparr>rd_segs = [[1, 2]], rd_end = RFail ErrIO, rd_early = False\<rparr>" ErrIO collect]
    by auto
  moreover have "\<exists>s'. foreach collect cs s = (Inr (), s')" for s
    by (induction cs arbitrary: s) (simp_all add: collect_def bnd_def run)
  ultimately show ?thesis by (metis bnd_Inr fail_apply fst_conv)
qed

text \<open>Locality: chunking restarts at every boundary, so equal remainders are cut equally, and the chunks
  of two streams that share a prefix agree up to one \<open>MaxSize\<close> window before the end of it.\<close>

theorem chunks_of_local:
  "chunks_of (concat (drop k (chunks_of d))) = drop k (chunks_of d) \<and>
   (length (concat (take k (chunks_of (p @ s)))) + MaxSize \<le> length p \<longrightarrow>
      take k (chunks_of (p @ t)) = take k (chunks_of (p @ s)))"
proof (intro conjI impI)
  show "chunks_of (concat (drop k (chunks_of d))) = drop k (chunks_of d)"
    by (rule chunks_of_suffix [of _ "take k (chunks_of d)"]) simp
next
  assume len: "length (concat (take k (chunks_of (p @ s)))) + MaxSize \<le> length p"
  have split: "chunks_of (p @ s) = take k (chunks_of (p @ s)) @ drop k (chunks_of (p @ s))" by simp
  from chunks_of_prefix [OF split len] obtain zs
    where zs: "chunks_of (p @ t) = take k (chunks_of (p @ s)) @ zs" by blast
  show "take k (chunks_of (p @ t)) = take k (chunks_of (p @ s))"
  proof (cases "k \<le> length (chunks_of (p @ s))")
    case True
    then show ?thesis using zs by simp
  next
    case False
    then have "concat (take k (chunks_of (p @ s))) = p @ s" by simp
    then have False using len sizes_ordered(4) by simp
    then show ?thesis ..
  qed
qed

theorem chunks_of_local_witness:
  "take 1 (chunks_of (replicate (2 * MaxSize) 0 @ [1])) = take 1 (chunks_of (replicate (2 * MaxSize) 0 @ [2, 3]))"
proof -
  let ?cs = "chunks_of (replicate (2 * MaxSize) 0 @ [2, 3])"
  have "length (concat (take 1 ?cs)) \<le> MaxSize"
    using chunks_of_sizes [of "hd ?cs" "replicate (2 * MaxSize) 0 @ [2, 3]"] by (cases ?cs) auto
  then show ?thesis
    using chunks_of_local [of 1 "[]" "replicate (2 * MaxSize) 0" "[2, 3]" "[1]"] by simp
qed

text \<open>A read that returns no bytes and no error is taken for the end of the stream: whatever the reader
  still holds, \<open>Split\<close> succeeds without handing over a single chunk. (The contract of \<open>io.Reader\<close>
  says that such a read does not indicate the end of file.)\<close>

theorem Split_zero_read_truncates:
  "Split \<lparr>rd_segs = [] # rest, rd_end = e, rd_early = False\<rparr> fn = ret ()"
proof -
  have "bufSize \<le> MaxSize" by (simp add: bufSize_def MaxSize_def)
  then have "fill [] (newBufio \<lparr>rd_segs = [] # rest, rd_end = e, rd_early = False\<rparr>) =
      ([], newBufio \<lparr>rd_segs = rest, rd_end = e, rd_early = False\<rparr>, None)"
    by (subst fill.simps) (simp add: bufRead_def readUnder_def newBufio_def)
  then show ?thesis unfolding Split_def by (subst splitLoop.simps) simp
qed

end
