(* ===== verification/Crypto.thy ===== *)
theory Crypto
  imports State
begin

text \<open>
  The at-rest chunk format, \<open>kamara/internal/crypto\<close>. BLAKE3 and XChaCha20-Poly1305 are
  third-party packages: they are the fields of \<open>prims\<close>, and what the code relies on is stated in
  \<open>hash_ok\<close>, \<open>aead_ok\<close> and \<open>aead_canonical\<close>. The lemmas show that \<open>Open\<close> inverts \<open>Seal\<close>, that
  whatever \<open>Open\<close> returns hashes to the key it was asked for, and that the associated data of two
  chunks of two tenants never coincide.
\<close>

unbundle bit_operations_syntax

section \<open>Third-party primitives\<close>

record prims =
  blake3_Sum256 :: "bytes \<Rightarrow> bytes"
  aead_Seal :: "bytes \<Rightarrow> bytes \<Rightarrow> bytes \<Rightarrow> bytes \<Rightarrow> bytes"
  aead_Open :: "bytes \<Rightarrow> bytes \<Rightarrow> bytes \<Rightarrow> bytes \<Rightarrow> bytes option"

text \<open>The sizes the package documentation of \<open>chacha20poly1305\<close> fixes for \<open>NewX\<close>.\<close>

definition KeySize :: nat where
  "KeySize = 32"

definition NonceSize :: nat where
  "NonceSize = 24"

definition Overhead :: nat where
  "Overhead = 16"

definition hash_ok :: "prims \<Rightarrow> bool" where
  "hash_ok P \<longleftrightarrow> (\<forall>x. length (blake3_Sum256 P x) = 32)"

definition aead_ok :: "prims \<Rightarrow> bool" where
  "aead_ok P \<longleftrightarrow> (\<forall>k n p a. length k = KeySize \<longrightarrow> length n = NonceSize \<longrightarrow>
     aead_Open P k n (aead_Seal P k n p a) a = Some p \<and>
     length (aead_Seal P k n p a) = length p + Overhead)"

text \<open>The tag is a function of key, nonce, associated data and ciphertext, and \<open>Open\<close> compares it:
  what it accepts is what \<open>Seal\<close> produces for the plaintext it returns.\<close>

definition aead_canonical :: "prims \<Rightarrow> bool" where
  "aead_canonical P \<longleftrightarrow> (\<forall>k n c a p. length k = KeySize \<longrightarrow> length n = NonceSize \<longrightarrow>
     aead_Open P k n c a = Some p \<longrightarrow> c = aead_Seal P k n p a)"

section \<open>The cipher\<close>

definition FormatVersion :: byte where
  "FormatVersion = 1"

definition adDomain :: string where
  "adDomain = ''peristera.kamara.v1.chunk''"

record cipher =
  ci_key :: bytes
  ci_tenant :: string

definition NewCipher :: "bytes \<Rightarrow> string \<Rightarrow> err + cipher" where
  "NewCipher dek tenant =
    (if length dek \<noteq> KeySize then Inl ErrDEKSize
     else if tenant = [] then Inl ErrTenantRequired
     else Inr \<lparr>ci_key = dek, ci_tenant = tenant\<rparr>)"

definition ChunkHash :: "prims \<Rightarrow> bytes \<Rightarrow> string" where
  "ChunkHash P plaintext = hexEncode (blake3_Sum256 P plaintext)"

definition ad :: "cipher \<Rightarrow> string \<Rightarrow> bytes" where
  "ad c hash = bytesOf adDomain @ [0] @ bytesOf (ci_tenant c) @ [0] @ bytesOf hash @ [0, FormatVersion]"

definition Seal :: "prims \<Rightarrow> cipher \<Rightarrow> bytes \<Rightarrow> ('d, string \<times> bytes) action" where
  "Seal P c plaintext =
    (let hash = ChunkHash P plaintext in
     bnd (randRead NonceSize) (\<lambda>nonce.
     ret (hash, [FormatVersion] @ nonce @ aead_Seal P (ci_key c) nonce plaintext (ad c hash))))"

definition Open :: "prims \<Rightarrow> cipher \<Rightarrow> string \<Rightarrow> bytes \<Rightarrow> err + bytes" where
  "Open P c hash blob =
    (let hdr = 1 + NonceSize in
     if length blob < hdr + Overhead then Inl ErrBlobShort
     else if blob ! 0 \<noteq> FormatVersion then Inl ErrBlobFormat
     else let nonce = drop 1 (take hdr blob) in
       (case aead_Open P (ci_key c) nonce (drop hdr blob) (ad c hash) of
          None \<Rightarrow> Inl ErrBlobOpen
        | Some pt \<Rightarrow> if ChunkHash P pt \<noteq> hash then Inl ErrBlobHash else Inr pt))"

section \<open>Facts\<close>

definition cipher_ok :: "cipher \<Rightarrow> bool" where
  "cipher_ok c \<longleftrightarrow> length (ci_key c) = KeySize \<and> ci_tenant c \<noteq> []"

lemma NewCipher_ok: "NewCipher dek tenant = Inr c \<Longrightarrow> cipher_ok c"
  by (auto simp: NewCipher_def cipher_ok_def split: if_splits)

lemma length_ChunkHash: "hash_ok P \<Longrightarrow> length (ChunkHash P x) = 64"
  by (simp add: ChunkHash_def hash_ok_def)

lemma ChunkHash_hex: "c \<in> set (ChunkHash P x) \<Longrightarrow> isHexChar c"
  by (simp add: ChunkHash_def hexEncode_hex)

text \<open>The blob \<open>Seal\<close> builds with a given nonce.\<close>

definition sealedWith :: "prims \<Rightarrow> cipher \<Rightarrow> bytes \<Rightarrow> bytes \<Rightarrow> bytes" where
  "sealedWith P c nonce pt =
     [FormatVersion] @ nonce @ aead_Seal P (ci_key c) nonce pt (ad c (ChunkHash P pt))"

lemma Seal_result:
  "\<exists>nonce. length nonce = NonceSize \<and>
     Seal P c pt w = (Inr (ChunkHash P pt, sealedWith P c nonce pt), w\<lparr>w_rand := (\<lambda>i. w_rand w (i + NonceSize))\<rparr>)"
  by (rule exI [of _ "map (w_rand w) [0..<NonceSize]"])
    (simp add: Seal_def sealedWith_def randRead_def bnd_def run Let_def)

lemma Open_sealedWith:
  assumes "aead_ok P" "cipher_ok c" "length nonce = NonceSize"
  shows "Open P c (ChunkHash P pt) (sealedWith P c nonce pt) = Inr pt"
proof -
  have a: "aead_Open P (ci_key c) nonce (aead_Seal P (ci_key c) nonce pt (ad c (ChunkHash P pt)))
      (ad c (ChunkHash P pt)) = Some pt"
    "length (aead_Seal P (ci_key c) nonce pt (ad c (ChunkHash P pt))) = length pt + Overhead"
    using assms by (simp_all add: aead_ok_def cipher_ok_def)
  show ?thesis using assms(3) a by (simp add: Open_def sealedWith_def)
qed

lemma Open_hash: "Open P c hash blob = Inr pt \<Longrightarrow> ChunkHash P pt = hash"
  by (auto simp: Open_def Let_def split: if_splits option.splits)

lemma Open_canonical:
  assumes "aead_canonical P" "cipher_ok c" "Open P c hash blob = Inr pt"
  shows "\<exists>nonce. length nonce = NonceSize \<and> blob = sealedWith P c nonce pt"
proof -
  define nonce where "nonce = drop 1 (take (1 + NonceSize) blob)"
  have long: "1 + NonceSize + Overhead \<le> length blob" and fmt: "blob ! 0 = FormatVersion"
    and dec: "aead_Open P (ci_key c) nonce (drop (1 + NonceSize) blob) (ad c hash) = Some pt"
    using assms(3) by (auto simp: Open_def Let_def nonce_def split: if_splits option.splits)
  have h: "hash = ChunkHash P pt" using Open_hash [OF assms(3)] by simp
  have n: "length nonce = NonceSize" using long by (simp add: nonce_def)
  have "drop (1 + NonceSize) blob = aead_Seal P (ci_key c) nonce pt (ad c (ChunkHash P pt))"
    using assms(1,2) dec n unfolding aead_canonical_def cipher_ok_def h by blast
  moreover have "blob = [FormatVersion] @ nonce @ drop (1 + NonceSize) blob"
  proof -
    have "blob \<noteq> []" using long by auto
    then have "take (1 + NonceSize) blob = [blob ! 0] @ nonce"
      by (cases blob) (simp_all add: nonce_def)
    then show ?thesis using fmt by (metis append.assoc append_take_drop_id)
  qed
  ultimately show ?thesis using n by (auto simp: sealedWith_def)
qed

text \<open>
  The comment on \<open>ad\<close>: the separators are unambiguous because no field contains a zero byte.
\<close>

lemma zero_byte_char: "byte_of_char c = 0 \<longleftrightarrow> c = CHR 0x00"
proof -
  have "byte_of_char (CHR 0x00) = 0" by (simp add: byte_of_char_def)
  then show ?thesis by (metis char_of_byte_of_char)
qed

lemma split_at_zero:
  "a @ 0 # b = a' @ 0 # b' \<Longrightarrow> 0 \<notin> set a \<Longrightarrow> 0 \<notin> set a' \<Longrightarrow> a = a' \<and> b = (b' :: bytes)"
proof (induction a arbitrary: a')
  case Nil
  then show ?case by (cases a') auto
next
  case (Cons x a)
  then show ?case by (cases a') auto
qed

lemma bytesOf_zero: "CHR 0x00 \<notin> set s \<Longrightarrow> 0 \<notin> set (bytesOf s)"
  by (auto simp: bytesOf_def) (metis zero_byte_char)

lemma ad_inj:
  assumes eq: "ad c h = ad c' h'"
    and t: "CHR 0x00 \<notin> set (ci_tenant c)" "CHR 0x00 \<notin> set (ci_tenant c')"
  shows "ci_tenant c = ci_tenant c' \<and> h = h'"
proof -
  have "bytesOf (ci_tenant c) @ 0 # (bytesOf h @ [0, FormatVersion]) =
        bytesOf (ci_tenant c') @ 0 # (bytesOf h' @ [0, FormatVersion])"
    using eq by (simp add: ad_def)
  from split_at_zero [OF this] show ?thesis
    using t by (simp add: bytesOf_zero bytesOf_inj)
qed

section \<open>A concrete instance\<close>

text \<open>
  A toy instance of the primitives: the hash is the content cut or padded to 32 bytes, the cipher
  adds the key's first byte and appends a 16-byte tag. It is used
  only to show that the hypotheses can hold and to run the model on concrete inputs.
\<close>

definition toyHash :: "bytes \<Rightarrow> bytes" where
  "toyHash x = take 32 (x @ replicate 32 0)"

definition toyTag :: bytes where
  "toyTag = replicate 16 7"

definition toyPrims :: prims where
  "toyPrims = \<lparr>blake3_Sum256 = toyHash,
     aead_Seal = (\<lambda>k n p a. map (\<lambda>b. b + hd k) p @ toyTag),
     aead_Open = (\<lambda>k n c a.
       if drop (length c - 16) c = toyTag then Some (map (\<lambda>b. b - hd k) (take (length c - 16) c))
       else None)\<rparr>"

definition toyCipher :: cipher where
  "toyCipher = \<lparr>ci_key = replicate 32 5, ci_tenant = ''acme''\<rparr>"

lemma toy_ok [simp]: "hash_ok toyPrims" "aead_ok toyPrims" "aead_canonical toyPrims" "cipher_ok toyCipher"
proof -
  show "hash_ok toyPrims" by (auto simp: hash_ok_def toyPrims_def toyHash_def min_def)
  show "aead_ok toyPrims"
    by (simp add: aead_ok_def toyPrims_def toyTag_def Overhead_def comp_def)
  show "aead_canonical toyPrims"
    by (auto simp: aead_canonical_def toyPrims_def comp_def split: if_splits)
      (metis append_take_drop_id)
  show "cipher_ok toyCipher" by (simp add: cipher_ok_def toyCipher_def KeySize_def)
qed

section \<open>Properties\<close>

text \<open>\<open>Open\<close> inverts \<open>Seal\<close>: sealing a chunk never fails, its first result is the content hash, and
  opening the blob under that hash gives the chunk back.\<close>

theorem Seal_Open_roundtrip:
  assumes "aead_ok P" "cipher_ok c"
  shows "\<exists>blob w'. Seal P c pt w = (Inr (ChunkHash P pt, blob), w') \<and>
     Open P c (ChunkHash P pt) blob = Inr pt"
proof -
  obtain nonce where "length nonce = NonceSize" and "Seal P c pt w =
      (Inr (ChunkHash P pt, sealedWith P c nonce pt), w\<lparr>w_rand := (\<lambda>i. w_rand w (i + NonceSize))\<rparr>)"
    using Seal_result by blast
  then show ?thesis using Open_sealedWith [OF assms] by blast
qed

theorem Seal_Open_roundtrip_witness:
  "\<exists>blob w'. Seal toyPrims toyCipher [1, 2, 3] (demoWorld ()) = (Inr (ChunkHash toyPrims [1, 2, 3], blob), w') \<and>
     Open toyPrims toyCipher (ChunkHash toyPrims [1, 2, 3]) blob = Inr [1, 2, 3]"
  by (rule Seal_Open_roundtrip) simp_all

text \<open>C32. \<open>Open\<close> accepts nothing else: what it returns hashes to the key it was asked for, and the blob is,
  bit for bit, what sealing that content under some nonce produces.\<close>

theorem Open_sound:
  assumes "aead_canonical P" "cipher_ok c" "Open P c hash blob = Inr pt"
  shows "ChunkHash P pt = hash \<and> (\<exists>nonce. length nonce = NonceSize \<and> blob = sealedWith P c nonce pt)"
  using Open_hash [OF assms(3)] Open_canonical [OF assms] by blast

theorem Open_sound_witness:
  "Open toyPrims toyCipher (ChunkHash toyPrims [1]) (sealedWith toyPrims toyCipher (replicate NonceSize 9) [1]) = Inr [1] \<and>
   (\<exists>nonce. length nonce = NonceSize \<and>
      sealedWith toyPrims toyCipher (replicate NonceSize 9) [1] = sealedWith toyPrims toyCipher nonce [1])"
proof -
  have o: "Open toyPrims toyCipher (ChunkHash toyPrims [1]) (sealedWith toyPrims toyCipher (replicate NonceSize 9) [1]) = Inr [1]"
    by (rule Open_sealedWith) simp_all
  with Open_sound [OF _ _ o] show ?thesis by simp
qed

text \<open>The associated data binds tenant and chunk: for tenants without zero bytes, equal associated data
  means the same tenant and the same hash, so no blob of one tenant or chunk authenticates as
  another's.\<close>

theorem ad_binds:
  assumes "CHR 0x00 \<notin> set (ci_tenant c)" "CHR 0x00 \<notin> set (ci_tenant c')" "ad c h = ad c' h'"
  shows "ci_tenant c = ci_tenant c' \<and> h = h'"
  using assms ad_inj by blast

theorem ad_binds_witness:
  "ad toyCipher ''ab'' = ad (toyCipher\<lparr>ci_key := []\<rparr>) ''ab'' \<and>
   ci_tenant toyCipher = ci_tenant (toyCipher\<lparr>ci_key := []\<rparr>)"
proof -
  have "ad toyCipher ''ab'' = ad (toyCipher\<lparr>ci_key := []\<rparr>) ''ab''" by (simp add: ad_def)
  moreover have "CHR 0x00 \<notin> set (ci_tenant toyCipher)" by (simp add: toyCipher_def)
  ultimately show ?thesis using ad_binds [of toyCipher "toyCipher\<lparr>ci_key := []\<rparr>" "''ab''" "''ab''"] by simp
qed

end
