(* ===== verification/Blob.thy ===== *)
theory Blob
  imports State
begin

text \<open>
  The content-addressed blob store, \<open>kamara/internal/blob\<close>: the \<open>Store\<close> interface as a record of
  operations, the file-system implementation \<open>FS\<close>, and the locale \<open>blob_interface\<close> with the laws a
  client may rely on, under every fault schedule. The file system is a map from paths to contents;
  directories are not entries of it, so \<open>MkdirAll\<close> and the fsync calls can fail but change nothing.
\<close>

section \<open>The interface\<close>

record 'd blob_store =
  bs_Has :: "string \<Rightarrow> ('d, bool) action"
  bs_Put :: "string \<Rightarrow> bytes \<Rightarrow> ('d, unit) action"
  bs_Get :: "string \<Rightarrow> ('d, bytes) action"
  bs_Delete :: "string \<Rightarrow> ('d, unit) action"

text \<open>What the operations of a store leave alone.\<close>

definition blob_frame :: "'d world \<Rightarrow> 'd world \<Rightarrow> bool" where
  "blob_frame w w' \<longleftrightarrow> w_db w' = w_db w \<and> w_fga w' = w_fga w \<and> w_now w' = w_now w"

lemma blob_frame_refl [simp]: "blob_frame w w"
  by (simp add: blob_frame_def)

lemma blob_frame_trans: "blob_frame w w' \<Longrightarrow> blob_frame w' w'' \<Longrightarrow> blob_frame w w''"
  by (auto simp: blob_frame_def)

section \<open>The file-system store\<close>

definition isHex :: "string \<Rightarrow> bool" where
  "isHex s \<longleftrightarrow> list_all (\<lambda>c. CHR ''0'' \<le> c \<and> c \<le> CHR ''9'' \<or> CHR ''a'' \<le> c \<and> c \<le> CHR ''f'') s"

text \<open>\<open>filepath.Join\<close> of a root in its clean form with path elements that have no separators.\<close>

definition joinPath :: "string \<Rightarrow> string \<Rightarrow> string" where
  "joinPath root e = (if root = [] then e else if root = ''/'' then ''/'' @ e else root @ ''/'' @ e)"

definition shardDir :: "string \<Rightarrow> string \<Rightarrow> string" where
  "shardDir root key = joinPath (joinPath root (take 2 key)) (take 2 (drop 2 key))"

definition path :: "string \<Rightarrow> string \<Rightarrow> err + string" where
  "path root key =
    (if length key < 4 \<or> \<not> isHex key then Inl ErrBlobKey
     else Inr (joinPath (shardDir root key) key))"

definition Has :: "string \<Rightarrow> string \<Rightarrow> ('d, bool) action" where
  "Has root key = (case path root key of
     Inl e \<Rightarrow> fail e
   | Inr p \<Rightarrow> call (gets (\<lambda>w. w_fs w p \<noteq> None)))"

text \<open>\<open>os.CreateTemp\<close>: a new empty file with a random name; a name in use is another try.\<close>

definition tmpName :: "string \<Rightarrow> bytes \<Rightarrow> string" where
  "tmpName dir r = joinPath dir (''.tmp-'' @ hexEncode r)"

definition openExcl :: "string \<Rightarrow> ('d, bool) action" where
  "openExcl p = call (\<lambda>w. if w_fs w p \<noteq> None then (Inr False, w)
     else (Inr True, w\<lparr>w_fs := (w_fs w)(p \<mapsto> [])\<rparr>))"

primrec createTemp :: "nat \<Rightarrow> string \<Rightarrow> ('d, string) action" where
  "createTemp 0 dir = fail ErrIO"
| "createTemp (Suc n) dir =
    bnd (randRead 4) (\<lambda>r.
    bnd (openExcl (tmpName dir r)) (\<lambda>ok.
    if ok then ret (tmpName dir r) else createTemp n dir))"

text \<open>\<open>io.Copy\<close> into an open file, which can stop after any number of bytes.\<close>

definition copyTo :: "string \<Rightarrow> bytes \<Rightarrow> ('d, unit) action" where
  "copyTo p r = bnd next_fault (\<lambda>f w.
     let wr = (\<lambda>x. w\<lparr>w_fs := (w_fs w)(p \<mapsto> x)\<rparr>) in
     case f of
       FNone \<Rightarrow> (Inr (), wr r)
     | FAfter \<Rightarrow> (Inl ErrIO, wr r)
     | FPartial n \<Rightarrow> (Inl ErrIO, wr (take n r))
     | _ \<Rightarrow> (Inl ErrIO, w))"

definition osRename :: "string \<Rightarrow> string \<Rightarrow> ('d, unit) action" where
  "osRename a b = call (\<lambda>w. case w_fs w a of
     None \<Rightarrow> (Inl ErrBlobMissing, w)
   | Some x \<Rightarrow> (Inr (), w\<lparr>w_fs := (w_fs w)(a := None, b := Some x)\<rparr>))"

definition osRemove :: "string \<Rightarrow> ('d, unit) action" where
  "osRemove p = call (\<lambda>w. case w_fs w p of
     None \<Rightarrow> (Inl ErrBlobMissing, w)
   | Some x \<Rightarrow> (Inr (), w\<lparr>w_fs := (w_fs w)(p := None)\<rparr>))"

text \<open>Opening and fsyncing a directory; the \<open>EINVAL\<close> the source ignores counts as success.\<close>

definition syncDir :: "('d, unit) action" where
  "syncDir = bnd (call (ret ())) (\<lambda>_. call (ret ()))"

definition Put :: "string \<Rightarrow> string \<Rightarrow> bytes \<Rightarrow> ('d, unit) action" where
  "Put root key r = (case path root key of
     Inl e \<Rightarrow> fail e
   | Inr p \<Rightarrow>
       bnd (Has root key) (\<lambda>ok.
       if ok then ret ()
       else
         bnd (call (ret ())) (\<lambda>_. \<comment> \<open>\<open>MkdirAll\<close>\<close>
         bnd (createTemp 10000 (shardDir root key)) (\<lambda>tmp.
         deferred (osRemove tmp) (
           bnd (copyTo tmp r) (\<lambda>_.
           bnd (call (ret ())) (\<lambda>_. \<comment> \<open>\<open>tmp.Sync\<close>\<close>
           bnd (call (ret ())) (\<lambda>_. \<comment> \<open>\<open>tmp.Close\<close>\<close>
           bnd (osRename tmp p) (\<lambda>_.
           syncDir)))))))))"

definition Get :: "string \<Rightarrow> string \<Rightarrow> ('d, bytes) action" where
  "Get root key = (case path root key of
     Inl e \<Rightarrow> fail e
   | Inr p \<Rightarrow> call (\<lambda>w. case w_fs w p of None \<Rightarrow> (Inl ErrBlobMissing, w) | Some x \<Rightarrow> (Inr x, w)))"

definition Delete :: "string \<Rightarrow> string \<Rightarrow> ('d, unit) action" where
  "Delete root key = (case path root key of
     Inl e \<Rightarrow> fail e
   | Inr p \<Rightarrow> catch (osRemove p) (\<lambda>e. if e \<noteq> ErrBlobMissing then fail e else ret ()))"

definition FS :: "string \<Rightarrow> 'd blob_store" where
  "FS root = \<lparr>bs_Has = Has root, bs_Put = Put root, bs_Get = Get root, bs_Delete = Delete root\<rparr>"

section \<open>Paths\<close>

definition validKey :: "string \<Rightarrow> bool" where
  "validKey key \<longleftrightarrow> 4 \<le> length key \<and> isHex key"

lemma isHex_no: "isHex s \<Longrightarrow> CHR ''/'' \<notin> set s \<and> CHR ''.'' \<notin> set s"
  by (auto simp: isHex_def list_all_iff less_eq_char_def)

lemma isHexChar_range:
  "isHexChar c \<Longrightarrow> CHR ''0'' \<le> c \<and> c \<le> CHR ''9'' \<or> CHR ''a'' \<le> c \<and> c \<le> CHR ''f''"
  by (auto simp: isHexChar_def less_eq_char_def)

lemma isHex_hexEncode [simp]: "isHex (hexEncode bs)"
  unfolding isHex_def list_all_iff using isHexChar_range hexEncode_hex by blast

lemma path_valid: "path root key = (if validKey key then Inr (joinPath (shardDir root key) key) else Inl ErrBlobKey)"
  by (auto simp: path_def validKey_def)

lemma joinPath_inj: "joinPath d a = joinPath d b \<Longrightarrow> a = b"
  by (auto simp: joinPath_def split: if_splits)

lemma joinPath_last:
  assumes "joinPath d a = joinPath d' b" "CHR ''/'' \<notin> set a" "CHR ''/'' \<notin> set b"
  shows "a = b"
proof -
  have last: "takeWhile (\<lambda>c. c \<noteq> CHR ''/'') (rev (joinPath d x)) = rev x"
    if "CHR ''/'' \<notin> set x" for d x
  proof -
    have "takeWhile (\<lambda>c. c \<noteq> CHR ''/'') (rev x @ CHR ''/'' # ys) = rev x" for ys
      using that by (subst takeWhile_append2) auto
    moreover have "takeWhile (\<lambda>c. c \<noteq> CHR ''/'') (rev x) = rev x"
      using that by (auto simp: takeWhile_eq_all_conv)
    ultimately show ?thesis by (auto simp: joinPath_def)
  qed
  have "rev a = rev b" using last [OF assms(2), of d] last [OF assms(3), of d'] assms(1) by metis
  then show ?thesis by simp
qed

lemma path_inj: "path root a = Inr p \<Longrightarrow> path root' b = Inr p \<Longrightarrow> a = b"
proof -
  assume "path root a = Inr p" "path root' b = Inr p"
  then have "joinPath (shardDir root a) a = joinPath (shardDir root' b) b" "isHex a" "isHex b"
    by (auto simp: path_valid validKey_def split: if_splits)
  then show "a = b" using joinPath_last isHex_no by blast
qed

lemma path_not_tmp: "path root a = Inr p \<Longrightarrow> p \<noteq> tmpName dir r"
proof
  assume p: "path root a = Inr p" and "p = tmpName dir r"
  then have "joinPath (shardDir root a) a = joinPath dir (''.tmp-'' @ hexEncode r)" and h: "isHex a"
    by (auto simp: path_valid validKey_def tmpName_def split: if_splits)
  moreover have "CHR ''/'' \<notin> set (''.tmp-'' @ hexEncode r)"
    using isHex_no [OF isHex_hexEncode, of r] by simp
  ultimately have "a = ''.tmp-'' @ hexEncode r" using isHex_no [OF h] joinPath_last by blast
  then show False using isHex_no [OF h] by simp
qed

text \<open>A blob path is two directories below the root, and no element of it is \<open>..\<close>.\<close>

lemma path_below_root:
  assumes "path root key = Inr p" "root \<noteq> []" "root \<noteq> ''/''"
  shows "p = root @ ''/'' @ take 2 key @ ''/'' @ take 2 (drop 2 key) @ ''/'' @ key"
    "CHR ''/'' \<notin> set key" "CHR ''.'' \<notin> set key"
proof -
  have v: "validKey key" using assms(1) by (simp add: path_valid split: if_splits)
  then have "4 \<le> length key" by (simp add: validKey_def)
  moreover have "root @ CHR ''/'' # t \<noteq> ''/''" for t using assms(2) by (cases root) auto
  ultimately show "p = root @ ''/'' @ take 2 key @ ''/'' @ take 2 (drop 2 key) @ ''/'' @ key"
    using assms v by (simp add: path_valid shardDir_def joinPath_def)
  show "CHR ''/'' \<notin> set key" "CHR ''.'' \<notin> set key"
    using v isHex_no by (auto simp: validKey_def)
qed

section \<open>The laws of a blob store\<close>

text \<open>
  \<open>blobs w k\<close> is the content stored under \<open>k\<close>. No operation touches any other key, \<open>Put\<close> stores the
  whole content or nothing even when it fails, and in a world that is \<open>clean\<close> (no call fails there, no
  temporary file is in the way) every operation on a valid key succeeds and leaves a clean world.
  Reading a blob needs only that no call fails.
\<close>

locale blob_interface =
  fixes S :: "'d blob_store"
    and blobs :: "'d world \<Rightarrow> string \<Rightarrow> bytes option"
    and valid :: "string \<Rightarrow> bool"
    and clean :: "'d world \<Rightarrow> bool"
  assumes blobs_frame: "w_fs w' = w_fs w \<Longrightarrow> blobs w' = blobs w"
    and clean_calm: "clean w \<Longrightarrow> calm w"
    and clean_frame: "w_fs w' = w_fs w \<Longrightarrow> w_faults w' = w_faults w \<Longrightarrow> clean w' = clean w"
    and Has_frame: "bs_Has S k w = (rh, w') \<Longrightarrow> blob_frame w w' \<and> blobs w' = blobs w"
    and Has_result: "bs_Has S k w = (Inr b, w') \<Longrightarrow> b \<longleftrightarrow> blobs w k \<noteq> None"
    and Has_clean: "clean w \<Longrightarrow> valid k \<Longrightarrow> \<exists>b w'. bs_Has S k w = (Inr b, w') \<and> clean w'"
    and Put_frame: "bs_Put S k x w = (rp, w') \<Longrightarrow> blob_frame w w'"
    and Put_atomic: "bs_Put S k x w = (rp, w') \<Longrightarrow>
          blobs w' = blobs w \<or> blobs w k = None \<and> blobs w' = (blobs w)(k \<mapsto> x)"
    and Put_result: "bs_Put S k x w = (Inr u, w') \<Longrightarrow> blobs w k = None \<Longrightarrow> blobs w' k = Some x"
    and Put_clean: "clean w \<Longrightarrow> valid k \<Longrightarrow> \<exists>w'. bs_Put S k x w = (Inr (), w') \<and> clean w'"
    and Get_frame: "bs_Get S k w = (rg, w') \<Longrightarrow> blob_frame w w' \<and> blobs w' = blobs w"
    and Get_result: "bs_Get S k w = (Inr x, w') \<Longrightarrow> blobs w k = Some x"
    and Get_calm: "calm w \<Longrightarrow> blobs w k = Some x \<Longrightarrow> \<exists>w'. bs_Get S k w = (Inr x, w') \<and> calm w'"
    and Delete_frame: "bs_Delete S k w = (rp, w') \<Longrightarrow> blob_frame w w'"
    and Delete_effect: "bs_Delete S k w = (rp, w') \<Longrightarrow>
          blobs w' = blobs w \<or> blobs w' = (blobs w)(k := None)"
    and Delete_result: "bs_Delete S k w = (Inr u, w') \<Longrightarrow> blobs w' k = None"
    and Delete_clean: "clean w \<Longrightarrow> valid k \<Longrightarrow> \<exists>w'. bs_Delete S k w = (Inr (), w') \<and> clean w'"

section \<open>The file-system store obeys the laws\<close>

definition fsBlobs :: "string \<Rightarrow> 'd world \<Rightarrow> string \<Rightarrow> bytes option" where
  "fsBlobs root w key = (case path root key of Inl e \<Rightarrow> None | Inr p \<Rightarrow> w_fs w p)"

definition fsClean :: "'d world \<Rightarrow> bool" where
  "fsClean w \<longleftrightarrow> calm w \<and> (\<forall>dir r. w_fs w (tmpName dir r) = None)"

text \<open>
  The file system as a \<open>Put\<close> can change it: temporary files come and go, and the blob path gets
  the whole content.
\<close>

definition sameBlobs :: "(string \<rightharpoonup> bytes) \<Rightarrow> (string \<rightharpoonup> bytes) \<Rightarrow> bool" where
  "sameBlobs f g \<longleftrightarrow> (\<forall>p. (\<forall>dir r. p \<noteq> tmpName dir r) \<longrightarrow> f p = g p)"

lemma sameBlobs_refl [simp]: "sameBlobs f f"
  by (simp add: sameBlobs_def)

lemma sameBlobs_tmp [simp]: "sameBlobs f (g(tmpName dir r := x)) = sameBlobs f g"
  by (auto simp: sameBlobs_def)

lemma fsBlobs_same: "sameBlobs (w_fs w) (w_fs w') \<Longrightarrow> fsBlobs root w' = fsBlobs root w"
  using path_not_tmp by (fastforce simp: fsBlobs_def sameBlobs_def fun_eq_iff split: sum.split)

text \<open>The calls of \<open>Put\<close> up to the rename keep the blobs and everything else of the world.\<close>

definition quiet :: "'d world \<Rightarrow> 'd world \<Rightarrow> bool" where
  "quiet w w' \<longleftrightarrow> blob_frame w w' \<and> sameBlobs (w_fs w) (w_fs w')"

lemma quiet_keeps:
  "faultless (quiet w0)" "randless (quiet w0)" "quiet w0 w0"
  "quiet w0 w \<Longrightarrow> quiet w0 (w\<lparr>w_fs := (w_fs w)(tmpName dir r := x)\<rparr>)"
  by (simp_all add: quiet_def faultless_def randless_def blob_frame_def)

lemma keeps_openExcl: "keeps (quiet w0) (openExcl (tmpName dir r))"
  unfolding openExcl_def
  by (intro keeps_call keepsI) (simp_all add: quiet_keeps)

lemma keeps_createTemp: "keeps (quiet w0) (createTemp n dir)"
  by (induction n) (auto intro!: keeps_rules keeps_openExcl simp: quiet_keeps)

lemma createTemp_name: "createTemp n dir w = (Inr t, w') \<Longrightarrow> \<exists>r. t = tmpName dir r"
  by (induction n arbitrary: w)
    (auto simp: run elim!: bnd_InrE split: if_splits prod.splits sum.splits)

lemma keeps_copyTo: "keeps (quiet w0) (copyTo (tmpName dir r) x)"
  unfolding copyTo_def
  by (intro keeps_bnd keepsI)
    (auto simp: quiet_keeps Let_def next_fault_def quiet_def blob_frame_def split: fault.split list.split)

lemma keeps_osRemove_tmp: "keeps (quiet w0) (osRemove (tmpName dir r))"
  unfolding osRemove_def
  by (intro keeps_call keepsI) (auto simp: quiet_keeps split: option.split)

lemma keeps_Has: "keeps (quiet w0) (Has root key)"
  unfolding Has_def by (intro keeps_rules) (simp_all add: quiet_keeps)

text \<open>After the rename: the blob is there, whole.\<close>

definition landed :: "string \<Rightarrow> bytes \<Rightarrow> 'd world \<Rightarrow> 'd world \<Rightarrow> bool" where
  "landed p x w w' \<longleftrightarrow> blob_frame w w' \<and> sameBlobs ((w_fs w)(p \<mapsto> x)) (w_fs w')"

lemma landed_keeps: "faultless (landed p x w0)" "faultless (\<lambda>w. quiet w0 w \<and> w_fs w t = Some x)"
  by (simp_all add: landed_def quiet_def faultless_def blob_frame_def)

lemma hoare_copyTo:
  "hoare (quiet w0) (copyTo (tmpName dir r) x) (\<lambda>_ w. quiet w0 w \<and> w_fs w (tmpName dir r) = Some x) (\<lambda>_. quiet w0)"
  unfolding copyTo_def
  by (auto simp: hoare_def bnd_def quiet_keeps Let_def next_fault_def quiet_def blob_frame_def
      split: fault.split list.split)

lemma hoare_rename:
  assumes "\<And>dir r. p \<noteq> tmpName dir r"
  shows "hoare (\<lambda>w. quiet w0 w \<and> w_fs w (tmpName dir r) = Some x) (osRename (tmpName dir r) p)
    (\<lambda>_. landed p x w0) (\<lambda>_ w. quiet w0 w \<or> landed p x w0 w)"
  unfolding osRename_def
  by (rule hoare_call [OF landed_keeps(2)])
    (use assms in \<open>auto simp: hoare_def quiet_def landed_def blob_frame_def sameBlobs_def\<close>)

text \<open>The part of \<open>Put\<close> that runs with the temporary file.\<close>

lemma hoare_Put_body:
  assumes "\<And>dir r. p \<noteq> tmpName dir r"
  shows "hoare (quiet w0)
    (bnd (copyTo (tmpName dir r) x) (\<lambda>_. bnd (call (ret ())) (\<lambda>_. bnd (call (ret ())) (\<lambda>_.
     bnd (osRename (tmpName dir r) p) (\<lambda>_. syncDir)))))
    (\<lambda>_. landed p x w0) (\<lambda>_ w. quiet w0 w \<or> landed p x w0 w)"
  unfolding syncDir_def
proof (rule hoare_bnd)
  let ?B = "\<lambda>w. quiet w0 w \<and> w_fs w (tmpName dir r) = Some x"
  let ?E = "\<lambda>(_ :: err) w. quiet w0 w \<or> landed p x w0 w"
  show "hoare (quiet w0) (copyTo (tmpName dir r) x) (\<lambda>_. ?B) ?E"
    by (rule hoare_conseq [OF hoare_copyTo]) auto
  have B: "hoare ?B (call (ret ())) (\<lambda>_. ?B) ?E"
    by (rule hoare_call [OF landed_keeps(2)]) (auto simp: hoare_def run)
  have C: "hoare (landed p x w0) (call (ret ())) (\<lambda>_. landed p x w0) ?E"
    by (rule hoare_call [OF landed_keeps(1)]) (auto simp: hoare_def run)
  show "hoare ?B (bnd (call (ret ())) (\<lambda>_. bnd (call (ret ())) (\<lambda>_.
     bnd (osRename (tmpName dir r) p) (\<lambda>_. bnd (call (ret ())) (\<lambda>_. call (ret ()))))))
     (\<lambda>_. landed p x w0) ?E"
    by (rule hoare_bnd [OF B] hoare_bnd [OF hoare_rename [OF assms]] hoare_bnd [OF C] C)+
qed

lemma deferred_result:
  "deferred d m w = (r, w') \<Longrightarrow> \<exists>w1. m w = (r, w1) \<and> w' = snd (d w1)"
  by (auto simp: deferred_def split: prod.splits)

lemma keeps_osRemove_landed:
  assumes "\<And>dir r. p \<noteq> tmpName dir r"
  shows "keeps (landed p x w0) (osRemove (tmpName dir r))"
  unfolding osRemove_def
  by (intro keeps_call keepsI)
    (auto simp: landed_keeps landed_def blob_frame_def split: option.split)

lemma Put_outcome:
  assumes p: "path root key = Inr p" and put: "Put root key x w = (r, w')"
  shows "quiet w w' \<and> (r = Inr () \<longrightarrow> w_fs w p \<noteq> None) \<or> w_fs w p = None \<and> landed p x w w'"
proof -
  obtain h w1 where h: "Has root key w = (h, w1)" by fastforce
  have q1: "quiet w w1" by (rule keepsD2 [OF keeps_Has quiet_keeps(3) h])
  have hb: "b \<longleftrightarrow> w_fs w p \<noteq> None" if "h = Inr b" for b
    using h that p by (auto simp: Has_def elim: call_cases)
  consider e where "h = Inl e" | "h = Inr True" | "h = Inr False" by (cases h) auto
  then show ?thesis
  proof cases
    case (1 e)
    then show ?thesis using put p h q1 by (auto simp add: Put_def bnd_def)
  next
    case 2
    then show ?thesis using put p h q1 hb by (simp add: Put_def bnd_def run)
  next
    case 3
    have np: "p \<noteq> tmpName dir r" for dir r by (rule path_not_tmp [OF p])
    let ?body = "\<lambda>tmp. bnd (copyTo tmp x) (\<lambda>_. bnd (call (ret ())) (\<lambda>_. bnd (call (ret ())) (\<lambda>_.
     bnd (osRename tmp p) (\<lambda>_. syncDir))))"
    let ?m = "bnd (call (ret ())) (\<lambda>_. bnd (createTemp 10000 (shardDir root key)) (\<lambda>tmp.
       deferred (osRemove tmp) (?body tmp)))"
    have m: "?m w1 = (r, w')" using put p h 3 by (simp add: Put_def bnd_def)
    have none: "w_fs w p = None" using hb [of False] 3 by simp
    have tail: "quiet w w' \<and> r \<noteq> Inr () \<or> landed p x w w'"
      if q: "quiet w w2" and t: "createTemp 10000 (shardDir root key) w2 = (Inr tmp, w3)"
        and d: "deferred (osRemove tmp) (?body tmp) w3 = (r, w')" for w2 w3 tmp
    proof -
      have q3: "quiet w w3" by (rule keepsD2 [OF keeps_createTemp q t])
      obtain rr where tmp: "tmp = tmpName (shardDir root key) rr" using createTemp_name [OF t] by blast
      obtain w4 where b: "?body tmp w3 = (r, w4)" and w': "w' = snd (osRemove tmp w4)"
        using deferred_result [OF d] by blast
      note hb = hoareD [OF hoare_Put_body [OF np] q3]
      have "quiet w w4 \<and> r \<noteq> Inr () \<or> landed p x w w4"
        using b hb tmp by (cases r) auto
      then show ?thesis
        using w' keepsD [OF keeps_osRemove_tmp] keepsD [OF keeps_osRemove_landed [OF np]] tmp by blast
    qed
    show ?thesis
    proof (cases "call (ret ()) w1")
      case (Pair c w2)
      have q2: "quiet w w2"
        by (rule keepsD2 [OF keeps_call [OF quiet_keeps(1) keeps_ret] q1 Pair])
      obtain t w3 where t: "createTemp 10000 (shardDir root key) w2 = (t, w3)" by fastforce
      have q3: "quiet w w3" by (rule keepsD2 [OF keeps_createTemp q2 t])
      show ?thesis
        using m Pair t q2 q3 none tail [OF q2]
        by (cases c; cases t) (auto simp: bnd_def)
    qed
  qed
qed

section \<open>Runs without faults\<close>

lemma createTemp_clean:
  assumes "fsClean w" "0 < n"
  shows "\<exists>r. createTemp n dir w =
    (Inr (tmpName dir r), w\<lparr>w_rand := (\<lambda>i. w_rand w (i + 4)), w_fs := (w_fs w)(tmpName dir r \<mapsto> [])\<rparr>)"
proof -
  obtain k where "n = Suc k" using assms(2) gr0_conv_Suc by blast
  then show ?thesis
    using assms(1)
    by (intro exI [of _ "map (w_rand w) [0..<4]"])
      (simp add: bnd_def randRead_def openExcl_def fsClean_def run)
qed

lemma Put_clean_run:
  assumes c: "fsClean w" and v: "validKey key"
  shows "\<exists>w'. Put root key x w = (Inr (), w') \<and> fsClean w'"
proof -
  obtain p where p: "path root key = Inr p" using v by (simp add: path_valid)
  have np: "tmpName dir r \<noteq> p" for dir r using path_not_tmp [OF p] by metis
  have calm: "calm w" using c by (simp add: fsClean_def)
  have has: "Has root key w = (Inr (w_fs w p \<noteq> None), w)" using calm p by (simp add: Has_def)
  show ?thesis
  proof (cases "w_fs w p = None")
    case False
    then show ?thesis using c p has by (simp add: Put_def bnd_def run)
  next
    case True
    obtain r where t: "createTemp 10000 (shardDir root key) w = (Inr (tmpName (shardDir root key) r),
        w\<lparr>w_rand := (\<lambda>i. w_rand w (i + 4)), w_fs := (w_fs w)(tmpName (shardDir root key) r \<mapsto> [])\<rparr>)"
      using createTemp_clean [OF c, of 10000] by fastforce
    let ?t = "tmpName (shardDir root key) r"
    define w1 where "w1 = w\<lparr>w_rand := (\<lambda>i. w_rand w (i + 4)), w_fs := (w_fs w)(?t \<mapsto> [])\<rparr>"
    define w2 where "w2 = w1\<lparr>w_fs := (w_fs w)(?t \<mapsto> x)\<rparr>"
    define w3 where "w3 = w1\<lparr>w_fs := (w_fs w)(?t := None, p \<mapsto> x)\<rparr>"
    have c1: "calm w1" "calm w2" "calm w3" using calm by (simp_all add: w1_def w2_def w3_def)
    have cp: "copyTo ?t x w1 = (Inr (), w2)"
      using c1 by (simp add: copyTo_def bnd_def next_fault_calm Let_def w2_def w1_def)
    have rn: "osRename ?t p w2 = (Inr (), w3)"
      using c1 np by (simp add: osRename_def w2_def w3_def)
    have rm: "osRemove ?t w3 = (Inl ErrBlobMissing, w3)"
      using c1 np by (simp add: osRemove_def w3_def)
    have "Put root key x w = (Inr (), w3)"
      using p has True t calm c1 cp rn rm
      by (simp add: Put_def bnd_def deferred_def syncDir_def w1_def [symmetric] run)
    moreover have "fsClean w3" using c np by (simp add: fsClean_def w3_def w1_def)
    ultimately show ?thesis by blast
  qed
qed

section \<open>The interpretation\<close>

lemma fsBlobs_at:
  assumes p: "path root key = Inr p" and fs: "sameBlobs ((w_fs w)(p := v)) (w_fs w')"
  shows "fsBlobs root w' = (fsBlobs root w)(key := v)"
proof
  fix k
  show "fsBlobs root w' k = ((fsBlobs root w)(key := v)) k"
  proof (cases "path root k")
    case (Inl e)
    then show ?thesis using p by (auto simp: fsBlobs_def)
  next
    case (Inr q)
    then have "w_fs w' q = ((w_fs w)(p := v)) q"
      using fs path_not_tmp [OF Inr] unfolding sameBlobs_def by metis
    moreover have "q = p \<longleftrightarrow> k = key" using path_inj [OF p, of root k] Inr p by auto
    ultimately show ?thesis using Inr by (simp add: fsBlobs_def)
  qed
qed

lemma fsBlobs_landed:
  "path root key = Inr p \<Longrightarrow> landed p x w w' \<Longrightarrow> fsBlobs root w' = (fsBlobs root w)(key \<mapsto> x)"
  by (simp add: landed_def fsBlobs_at)

lemma fsBlobs_quiet: "quiet w w' \<Longrightarrow> blob_frame w w' \<and> fsBlobs root w' = fsBlobs root w"
  by (simp add: quiet_def fsBlobs_same)

lemma keeps_Get: "keeps (quiet w0) (Get root key)"
  unfolding Get_def
  by (intro keeps_rules keepsI) (auto simp: quiet_keeps split: option.split)

lemma Put_invalid: "path root key = Inl e \<Longrightarrow> Put root key x w = (Inl e, w)"
  by (simp add: Put_def run)

lemma Put_fs_laws:
  assumes put: "Put root key x w = (r, w')"
  shows "blob_frame w w'"
    "fsBlobs root w' = fsBlobs root w \<or> fsBlobs root w key = None \<and> fsBlobs root w' = (fsBlobs root w)(key \<mapsto> x)"
    "r = Inr u \<Longrightarrow> fsBlobs root w key = None \<Longrightarrow> fsBlobs root w' key = Some x"
proof -
  have "blob_frame w w' \<and>
    (fsBlobs root w' = fsBlobs root w \<or> fsBlobs root w key = None \<and> fsBlobs root w' = (fsBlobs root w)(key \<mapsto> x)) \<and>
    (r = Inr u \<longrightarrow> fsBlobs root w key = None \<longrightarrow> fsBlobs root w' key = Some x)"
  proof (cases "path root key")
    case (Inl e)
    then show ?thesis using put by (auto simp: Put_invalid)
  next
    case (Inr p)
    from Put_outcome [OF Inr put] show ?thesis
      using fsBlobs_landed [OF Inr, of x w w'] fsBlobs_quiet [of w w' root]
      by (auto simp: landed_def) (auto simp: fsBlobs_def Inr)
  qed
  then show "blob_frame w w'"
    "fsBlobs root w' = fsBlobs root w \<or> fsBlobs root w key = None \<and> fsBlobs root w' = (fsBlobs root w)(key \<mapsto> x)"
    "r = Inr u \<Longrightarrow> fsBlobs root w key = None \<Longrightarrow> fsBlobs root w' key = Some x"
    by simp_all
qed

lemma Delete_fs_laws:
  assumes del: "Delete root key w = (r, w')"
  shows "blob_frame w w'"
    "fsBlobs root w' = fsBlobs root w \<or> fsBlobs root w' = (fsBlobs root w)(key := None)"
    "r = Inr u \<Longrightarrow> fsBlobs root w' key = None"
proof -
  have "blob_frame w w' \<and>
    (fsBlobs root w' = fsBlobs root w \<or> fsBlobs root w' = (fsBlobs root w)(key := None)) \<and>
    (r = Inr u \<longrightarrow> fsBlobs root w' key = None)"
  proof (cases "path root key")
    case (Inl e)
    then show ?thesis using del by (auto simp: Delete_def run)
  next
    case (Inr p)
    have gone: "fsBlobs root (v\<lparr>w_fs := (w_fs w)(p := None)\<rparr>) = (fsBlobs root w)(key := None)" for v :: "'a world"
      by (rule fsBlobs_at [OF Inr]) simp
    have same: "fsBlobs root (w\<lparr>w_faults := fs\<rparr>) = fsBlobs root w" for fs
      by (rule fsBlobs_same) simp
    obtain r1 w1 where rm: "osRemove p w = (r1, w1)" by fastforce
    have ww: "w' = w1" and r: "r = (if r1 = Inl ErrBlobMissing then Inr () else r1)"
      using del Inr rm by (auto simp: Delete_def catch_def run split: sum.splits if_splits)
    from rm show ?thesis unfolding osRemove_def
    proof (cases rule: call_cases)
      case (ran fs)
      then show ?thesis
        using r ww same [of fs] gone [of "w\<lparr>w_faults := fs\<rparr>"] Inr
        by (cases "w_fs w p") (auto simp: blob_frame_def fsBlobs_def)
    next
      case (lost fs r')
      then show ?thesis
        using r ww same [of fs] gone [of "w\<lparr>w_faults := fs\<rparr>"]
        by (cases "w_fs w p") (auto simp: blob_frame_def)
    next
      case (none fs)
      then show ?thesis using r ww same [of fs] by (auto simp: blob_frame_def)
    qed
  qed
  then show "blob_frame w w'"
    "fsBlobs root w' = fsBlobs root w \<or> fsBlobs root w' = (fsBlobs root w)(key := None)"
    "r = Inr u \<Longrightarrow> fsBlobs root w' key = None"
    by simp_all
qed

interpretation fs_store: blob_interface "FS root" "fsBlobs root" validKey fsClean
  for root :: string
proof unfold_locales
  fix w w' :: "'a world" and k x rh rp rg b and u :: unit
  show "w_fs w' = w_fs w \<Longrightarrow> fsBlobs root w' = fsBlobs root w"
    by (rule fsBlobs_same) simp
  show "fsClean w \<Longrightarrow> calm w" by (simp add: fsClean_def)
  show "w_fs w' = w_fs w \<Longrightarrow> w_faults w' = w_faults w \<Longrightarrow> fsClean w' = fsClean w"
    by (simp add: fsClean_def calm_def)
  show "bs_Has (FS root) k w = (rh, w') \<Longrightarrow> blob_frame w w' \<and> fsBlobs root w' = fsBlobs root w"
    using keepsD2 [OF keeps_Has quiet_keeps(3)] fsBlobs_quiet by (simp add: FS_def) blast
  show "bs_Has (FS root) k w = (Inr b, w') \<Longrightarrow> b \<longleftrightarrow> fsBlobs root w k \<noteq> None"
    by (auto simp: FS_def Has_def fsBlobs_def run elim: call_cases split: sum.splits)
  show "fsClean w \<Longrightarrow> validKey k \<Longrightarrow> \<exists>b w'. bs_Has (FS root) k w = (Inr b, w') \<and> fsClean w'"
    by (simp add: FS_def Has_def path_valid fsClean_def)
  show "bs_Put (FS root) k x w = (rp, w') \<Longrightarrow> blob_frame w w'"
    and "bs_Put (FS root) k x w = (rp, w') \<Longrightarrow> fsBlobs root w' = fsBlobs root w \<or>
      fsBlobs root w k = None \<and> fsBlobs root w' = (fsBlobs root w)(k \<mapsto> x)"
    and "bs_Put (FS root) k x w = (Inr u, w') \<Longrightarrow> fsBlobs root w k = None \<Longrightarrow> fsBlobs root w' k = Some x"
    using Put_fs_laws [of root k x w _ w'] by (auto simp: FS_def)
  show "fsClean w \<Longrightarrow> validKey k \<Longrightarrow> \<exists>w'. bs_Put (FS root) k x w = (Inr (), w') \<and> fsClean w'"
    by (simp add: FS_def Put_clean_run)
  show "bs_Get (FS root) k w = (rg, w') \<Longrightarrow> blob_frame w w' \<and> fsBlobs root w' = fsBlobs root w"
    using keepsD2 [OF keeps_Get quiet_keeps(3)] fsBlobs_quiet by (simp add: FS_def) blast
  show "bs_Get (FS root) k w = (Inr x, w') \<Longrightarrow> fsBlobs root w k = Some x"
    by (auto simp: FS_def Get_def fsBlobs_def run elim!: call_cases split: sum.splits option.splits)
  show "calm w \<Longrightarrow> fsBlobs root w k = Some x \<Longrightarrow> \<exists>w'. bs_Get (FS root) k w = (Inr x, w') \<and> calm w'"
    by (simp add: FS_def Get_def fsBlobs_def split: sum.splits)
  show "bs_Delete (FS root) k w = (rp, w') \<Longrightarrow> blob_frame w w'"
    and "bs_Delete (FS root) k w = (rp, w') \<Longrightarrow>
      fsBlobs root w' = fsBlobs root w \<or> fsBlobs root w' = (fsBlobs root w)(k := None)"
    and "bs_Delete (FS root) k w = (Inr u, w') \<Longrightarrow> fsBlobs root w' k = None"
    using Delete_fs_laws [of root k w _ w'] by (auto simp: FS_def)
  show "fsClean w \<Longrightarrow> validKey k \<Longrightarrow> \<exists>w'. bs_Delete (FS root) k w = (Inr (), w') \<and> fsClean w'"
    by (cases "w_fs w (joinPath (shardDir root k) k)")
      (auto simp: FS_def Delete_def path_valid osRemove_def fsClean_def catch_def run)
qed

section \<open>Properties\<close>

text \<open>C37. Keys cannot escape the root: a key that gets a path consists of hexadecimal digits only, the path
  is the root followed by two shard directories and the key, and different keys have different
  paths.\<close>

theorem path_confined:
  assumes "path root key = Inr p" "root \<noteq> []" "root \<noteq> ''/''"
  shows "isHex key \<and> CHR ''/'' \<notin> set key \<and> CHR ''.'' \<notin> set key \<and>
    p = root @ ''/'' @ take 2 key @ ''/'' @ take 2 (drop 2 key) @ ''/'' @ key \<and>
    (\<forall>key'. path root key' = Inr p \<longrightarrow> key' = key)"
proof -
  have "isHex key" using assms(1) by (auto simp: path_valid validKey_def split: if_splits)
  then show ?thesis
    using path_below_root [OF assms] path_inj [OF assms(1)] by blast
qed

theorem path_confined_witness:
  "path ''/data'' ''00ff12'' = Inr ''/data/00/ff/00ff12'' \<and>
   isHex ''00ff12'' \<and> CHR ''/'' \<notin> set ''00ff12''"
proof -
  have p: "path ''/data'' ''00ff12'' = Inr ''/data/00/ff/00ff12''"
    by (simp add: path_def isHex_def shardDir_def joinPath_def less_eq_char_def)
  with path_confined [OF p] show ?thesis by simp
qed

text \<open>C28. \<open>Put\<close> is atomic under every fault schedule: whether it returns or fails at any of its calls, the
  store is as before, or it has the whole content under a key it did not have; every other key is
  untouched, and so are the database, the tuples and the clock. If it returns, the key is there.\<close>

theorem Put_all_or_nothing:
  assumes "Put root key x w = (r, w')"
  shows "(fsBlobs root w' = fsBlobs root w \<or>
      fsBlobs root w key = None \<and> fsBlobs root w' = (fsBlobs root w)(key \<mapsto> x)) \<and>
    (r = Inr () \<longrightarrow> fsBlobs root w key = None \<longrightarrow> fsBlobs root w' key = Some x) \<and> blob_frame w w'"
  using Put_fs_laws [OF assms] by blast

theorem Put_all_or_nothing_witness:
  "fsBlobs ''/data'' (snd (Put ''/data'' ''00ff'' [1, 2] ((demoWorld ())\<lparr>w_faults := [FNone, FNone, FNone, FPartial 1]\<rparr>))) ''00ff'' = None"
proof -
  let ?w = "(demoWorld ())\<lparr>w_faults := [FNone, FNone, FNone, FPartial 1]\<rparr>"
  obtain r w' where put: "Put ''/data'' ''00ff'' [1, 2] ?w = (r, w')" by fastforce
  have p: "path ''/data'' ''00ff'' = Inr ''/data/00/ff/00ff''"
    by (simp add: path_def isHex_def shardDir_def joinPath_def less_eq_char_def)
  have tenk: "(10000 :: nat) = Suc 9999" by simp
  have "w_fs (snd (Put ''/data'' ''00ff'' [1, 2] ?w)) ''/data/00/ff/00ff'' = None"
    unfolding Put_def p tenk createTemp.simps
    by (simp add: Has_def p bnd_def call_def next_fault_def openExcl_def randRead_def copyTo_def
        deferred_def osRemove_def tmpName_def shardDir_def joinPath_def Let_def run del: upt_Suc)
  then have "fsBlobs ''/data'' w' ''00ff'' = None" using put p by (simp add: fsBlobs_def)
  with Put_all_or_nothing [OF put] put show ?thesis by simp
qed

end
