(* ===== verification/Engine.thy ===== *)
theory Engine
  imports Chunk Crypto Blob
begin

text \<open>
  The chunking pipeline, \<open>kamara/internal/engine\<close>: \<open>Ingest\<close> and \<open>Reassemble\<close> over any blob store.
  The variables the callback of \<open>Ingest\<close> captures and the writer of \<open>Reassemble\<close> are a second
  component of the state. The lemmas are proved once for every store that obeys
  \<open>blob_interface\<close>.
\<close>

section \<open>The pipeline\<close>

record chunk_ref =
  cr_Hash :: string
  cr_Size :: int

definition lift :: "('w, 'a) io \<Rightarrow> ('w \<times> 's, 'a) io" where
  "lift m = (\<lambda>(w, s). case m w of (r, w') \<Rightarrow> (r, (w', s)))"

definition appendRef :: "string \<Rightarrow> int \<Rightarrow> ('w \<times> chunk_ref list \<times> int, unit) io" where
  "appendRef hash n = (\<lambda>(w, refs, tot). (Inr (), (w, refs @ [\<lparr>cr_Hash = hash, cr_Size = n\<rparr>], tot + n)))"

definition ingestChunk ::
  "prims \<Rightarrow> 'd blob_store \<Rightarrow> cipher \<Rightarrow> bytes \<Rightarrow> ('d world \<times> chunk_ref list \<times> int, unit) io" where
  "ingestChunk P S c plain =
    (let hash = ChunkHash P plain in
     bnd (lift (bs_Has S hash)) (\<lambda>has.
     bnd (guarded (\<not> has)
       (bnd (lift (Seal P c plain)) (\<lambda>(_, blob). lift (bs_Put S hash blob)))) (\<lambda>_.
     appendRef hash (int (length plain)))))"

definition Ingest ::
  "prims \<Rightarrow> 'd blob_store \<Rightarrow> cipher \<Rightarrow> reader \<Rightarrow> ('d, chunk_ref list \<times> int) action" where
  "Ingest P S c r = (\<lambda>w.
     case Split r (ingestChunk P S c) (w, [], 0) of
       (Inl e, (w', _)) \<Rightarrow> (Inl e, w')
     | (Inr _, (w', refs, tot)) \<Rightarrow> (Inr (refs, tot), w'))"

text \<open>\<open>w.Write(plain)\<close>: the bytes reach the writer, or some of them and an error.\<close>

definition writeOut :: "bytes \<Rightarrow> ('d world \<times> bytes, unit) io" where
  "writeOut x = bnd (lift next_fault) (\<lambda>f (w, out).
     case f of
       FNone \<Rightarrow> (Inr (), (w, out @ x))
     | FAfter \<Rightarrow> (Inl ErrIO, (w, out @ x))
     | FPartial n \<Rightarrow> (Inl ErrIO, (w, out @ take n x))
     | _ \<Rightarrow> (Inl ErrIO, (w, out)))"

definition reassembleRef ::
  "prims \<Rightarrow> 'd blob_store \<Rightarrow> cipher \<Rightarrow> chunk_ref \<Rightarrow> ('d world \<times> bytes, unit) io" where
  "reassembleRef P S c ref =
    bnd (lift (bs_Get S (cr_Hash ref))) (\<lambda>rc.
    bnd (lift (call (ret rc))) (\<lambda>sealed. \<comment> \<open>\<open>io.ReadAll\<close>\<close>
    case Open P c (cr_Hash ref) sealed of
      Inl e \<Rightarrow> fail e
    | Inr plain \<Rightarrow> writeOut plain))"

definition Reassemble ::
  "prims \<Rightarrow> 'd blob_store \<Rightarrow> cipher \<Rightarrow> chunk_ref list \<Rightarrow> ('d world \<times> bytes, unit) io" where
  "Reassemble P S c refs = foreach (reassembleRef P S c) refs"

text \<open>The manifest of a byte string: one reference per chunk, in order.\<close>

definition manifest :: "prims \<Rightarrow> bytes list \<Rightarrow> chunk_ref list" where
  "manifest P cs = map (\<lambda>x. \<lparr>cr_Hash = ChunkHash P x, cr_Size = int (length x)\<rparr>) cs"

definition totalSize :: "bytes list \<Rightarrow> int" where
  "totalSize cs = int (length (concat cs))"

lemma lift_apply [run]: "lift m (w, s) = (case m w of (r, w') \<Rightarrow> (r, (w', s)))"
  by (simp add: lift_def)

lemma manifest_simps [simp]:
  "manifest P [] = []" "manifest P (x # xs) = \<lparr>cr_Hash = ChunkHash P x, cr_Size = int (length x)\<rparr> # manifest P xs"
  by (simp_all add: manifest_def)

section \<open>Ingest on any store\<close>

text \<open>How a sequence of ingests changes the store: keys get sealed chunks, and nothing is lost.\<close>

definition grows ::
  "prims \<Rightarrow> cipher \<Rightarrow> bytes set \<Rightarrow> (string \<Rightarrow> bytes option) \<Rightarrow> (string \<Rightarrow> bytes option) \<Rightarrow> bool" where
  "grows P c X b b' \<longleftrightarrow> (\<forall>k. b' k = b k \<or>
     b k = None \<and> (\<exists>x\<in>X. \<exists>nonce. k = ChunkHash P x \<and> length nonce = NonceSize \<and>
       b' k = Some (sealedWith P c nonce x)))"

lemma grows_refl [simp]: "grows P c X b b"
  by (simp add: grows_def)

lemma grows_trans: "grows P c X b b' \<Longrightarrow> grows P c X b' b'' \<Longrightarrow> grows P c X b b''"
  unfolding grows_def by metis

lemma grows_mono: "grows P c X b b' \<Longrightarrow> X \<subseteq> Y \<Longrightarrow> grows P c Y b b'"
  unfolding grows_def by blast

lemma grows_kept: "grows P c X b b' \<Longrightarrow> b k = Some v \<Longrightarrow> b' k = Some v"
  unfolding grows_def by (metis option.distinct(1))

text \<open>A store is sound when every blob in it opens under its key.\<close>

definition sound :: "prims \<Rightarrow> cipher \<Rightarrow> (string \<Rightarrow> bytes option) \<Rightarrow> bool" where
  "sound P c b \<longleftrightarrow> (\<forall>k v. b k = Some v \<longrightarrow> (\<exists>x. Open P c k v = Inr x))"

lemma grows_sound:
  assumes "aead_ok P" "cipher_ok c" "grows P c X b b'" "sound P c b"
  shows "sound P c b'"
  unfolding sound_def
proof (intro allI impI)
  fix k v assume kv: "b' k = Some v"
  consider "b' k = b k"
    | x nonce where "k = ChunkHash P x" "length nonce = NonceSize" "b' k = Some (sealedWith P c nonce x)"
    using assms(3) unfolding grows_def by blast
  then show "\<exists>x. Open P c k v = Inr x"
  proof cases
    case 1
    then show ?thesis using kv assms(4) by (simp add: sound_def)
  next
    case 2
    then show ?thesis using kv Open_sealedWith [OF assms(1,2)] by auto
  qed
qed

context blob_interface
begin

lemma ingestChunk_step:
  assumes "ingestChunk P S c x (w, refs, tot) = (r, (w', refs', tot'))"
  shows "blob_frame w w' \<and> grows P c {x} (blobs w) (blobs w') \<and>
    (r = Inr () \<longrightarrow> blobs w' (ChunkHash P x) \<noteq> None \<and>
       refs' = refs @ manifest P [x] \<and> tot' = tot + int (length x))"
proof -
  let ?h = "ChunkHash P x"
  obtain rh w1 where h: "bs_Has S ?h w = (rh, w1)" by fastforce
  have f1: "blob_frame w w1" "blobs w1 = blobs w" using Has_frame [OF h] by auto
  consider e where "rh = Inl e" | "rh = Inr True" | "rh = Inr False" by (cases rh) auto
  then show ?thesis
  proof cases
    case (1 e)
    then show ?thesis
      using assms h f1 by (auto simp: ingestChunk_def Let_def bnd_def lift_def)
  next
    case 2
    then have "blobs w ?h \<noteq> None" using Has_result [of ?h w True w1] h by simp
    then show ?thesis
      using assms h f1 2 by (auto simp: ingestChunk_def Let_def bnd_def lift_def appendRef_def run)
  next
    case 3
    then have none: "blobs w1 ?h = None" using Has_result [of ?h w False w1] h f1 by simp
    obtain nonce where n: "length nonce = NonceSize" and s: "Seal P c x w1 =
        (Inr (?h, sealedWith P c nonce x), w1\<lparr>w_rand := (\<lambda>i. w_rand w1 (i + NonceSize))\<rparr>)"
      using Seal_result by blast
    define w2 where "w2 = w1\<lparr>w_rand := (\<lambda>i. w_rand w1 (i + NonceSize))\<rparr>"
    have f2: "blob_frame w w2" "blobs w2 = blobs w"
      using f1 blobs_frame [of w2 w1] by (simp_all add: w2_def blob_frame_def)
    obtain rp w3 where p: "bs_Put S ?h (sealedWith P c nonce x) w2 = (rp, w3)" by fastforce
    have f3: "blob_frame w w3" using f2 Put_frame [OF p] blob_frame_trans by blast
    have g: "grows P c {x} (blobs w) (blobs w3)"
      using Put_atomic [OF p] f2 n unfolding grows_def by (auto split: if_splits)
    have some: "rp = Inr () \<Longrightarrow> blobs w3 ?h \<noteq> None"
      using Put_result [of ?h "sealedWith P c nonce x" w2 "()" w3] p none f1 f2 by simp
    show ?thesis
      using assms h 3 s p f3 g some
      by (cases rp) (auto simp: ingestChunk_def Let_def bnd_def lift_def w2_def [symmetric] appendRef_def)
  qed
qed

lemma ingest_all:
  "foreach (ingestChunk P S c) cs (w, refs, tot) = (r, (w', refs', tot')) \<Longrightarrow>
   blob_frame w w' \<and> grows P c (set cs) (blobs w) (blobs w') \<and>
   (r = Inr () \<longrightarrow> (\<forall>x \<in> set cs. blobs w' (ChunkHash P x) \<noteq> None) \<and>
      refs' = refs @ manifest P cs \<and> tot' = tot + totalSize cs)"
proof (induction cs arbitrary: w refs tot)
  case Nil
  then show ?case by (simp add: run totalSize_def)
next
  case (Cons x cs)
  obtain r1 w1 refs1 tot1 where s: "ingestChunk P S c x (w, refs, tot) = (r1, (w1, refs1, tot1))"
    by (metis prod_cases4)
  note st = ingestChunk_step [OF s]
  show ?case
  proof (cases r1)
    case (Inl e)
    then show ?thesis
      using Cons.prems s st grows_mono [of P c "{x}" "blobs w" "blobs w1" "set (x # cs)"]
      by (auto simp: bnd_def)
  next
    case (Inr u)
    then have rest: "foreach (ingestChunk P S c) cs (w1, refs1, tot1) = (r, (w', refs', tot'))"
      using Cons.prems s by (simp add: bnd_def)
    note ih = Cons.IH [OF rest]
    have g1: "grows P c (set (x # cs)) (blobs w) (blobs w1)"
      and g2: "grows P c (set (x # cs)) (blobs w1) (blobs w')"
      using st ih by (auto intro: grows_mono)
    have "blobs w1 (ChunkHash P x) \<noteq> None" using st Inr by simp
    then have "blobs w' (ChunkHash P x) \<noteq> None" using grows_kept [OF g2] by auto
    then show ?thesis
      using st ih Inr grows_trans [OF g1 g2] blob_frame_trans [of w w1 w']
      by (auto simp: totalSize_def)
  qed
qed

lemma ingestChunk_clean:
  assumes "clean w" "valid (ChunkHash P x)"
  shows "\<exists>w' a'. ingestChunk P S c x (w, a) = (Inr (), (w', a')) \<and> clean w'"
proof -
  let ?h = "ChunkHash P x"
  obtain b w1 where h: "bs_Has S ?h w = (Inr b, w1)" and c1: "clean w1"
    using Has_clean [OF assms] by blast
  obtain nonce where s: "Seal P c x w1 =
      (Inr (?h, sealedWith P c nonce x), w1\<lparr>w_rand := (\<lambda>i. w_rand w1 (i + NonceSize))\<rparr>)"
    using Seal_result by blast
  have "clean (w1\<lparr>w_rand := (\<lambda>i. w_rand w1 (i + NonceSize))\<rparr>)"
    using c1 clean_frame [of "w1\<lparr>w_rand := (\<lambda>i. w_rand w1 (i + NonceSize))\<rparr>" w1] by simp
  then obtain w3 where p: "bs_Put S ?h (sealedWith P c nonce x)
      (w1\<lparr>w_rand := (\<lambda>i. w_rand w1 (i + NonceSize))\<rparr>) = (Inr (), w3)" "clean w3"
    using Put_clean [OF _ assms(2)] by blast
  show ?thesis
    using h s p c1
    by (cases b; cases a) (simp_all add: ingestChunk_def Let_def bnd_def lift_def appendRef_def run)
qed

lemma ingest_all_clean:
  "clean w \<Longrightarrow> \<forall>x \<in> set cs. valid (ChunkHash P x) \<Longrightarrow>
   \<exists>w' a'. foreach (ingestChunk P S c) cs (w, a) = (Inr (), (w', a')) \<and> clean w'"
proof (induction cs arbitrary: w a)
  case Nil
  then show ?case by (simp add: run)
next
  case (Cons x cs)
  then obtain w1 a1 where s: "ingestChunk P S c x (w, a) = (Inr (), (w1, a1))" "clean w1"
    using ingestChunk_clean [of w P x c a] by auto
  show ?case using Cons.IH [OF s(2)] Cons.prems(2) s(1) by (simp add: bnd_def)
qed

text \<open>
  \<open>Ingest\<close> under every fault schedule: the database and the tuples are untouched, no blob is lost
  or changed, new blobs are sealed chunks of the stream; and if it returns, the stream ended at end
  of file, the manifest is that of the stream, and every chunk of it is in the store.
\<close>

lemma Ingest_spec:
  assumes pr: "progressing r" and run: "Ingest P S c r w = (res, w')"
  shows "blob_frame w w'" "grows P c (set (chunks_of (content r))) (blobs w) (blobs w')"
    "res = Inr (refs, tot) \<Longrightarrow> rd_end r = REOF \<and> refs = manifest P (chunks_of (content r)) \<and>
       tot = int (length (content r)) \<and> (\<forall>x \<in> set (chunks_of (content r)). blobs w' (ChunkHash P x) \<noteq> None)"
proof -
  obtain q w1 refs1 tot1 where s: "Split r (ingestChunk P S c) (w, [], 0) = (q, (w1, refs1, tot1))"
    by (metis prod_cases4)
  have w1: "w1 = w'" and res: "res = (case q of Inl e \<Rightarrow> Inl e | Inr _ \<Rightarrow> Inr (refs1, tot1))"
    using run s by (auto simp: Ingest_def split: sum.splits)
  have main: "blob_frame w w' \<and> grows P c (set (chunks_of (content r))) (blobs w) (blobs w') \<and>
    (q = Inr () \<longrightarrow> rd_end r = REOF \<and> refs1 = manifest P (chunks_of (content r)) \<and>
       tot1 = int (length (content r)) \<and>
       (\<forall>x \<in> set (chunks_of (content r)). blobs w' (ChunkHash P x) \<noteq> None))"
  proof (cases "rd_end r")
    case REOF
    then have "foreach (ingestChunk P S c) (chunks_of (content r)) (w, [], 0) = (q, (w', refs1, tot1))"
      using s Split_eof [OF pr REOF] w1 by metis
    from ingest_all [OF this] show ?thesis using REOF by (auto simp: totalSize_def)
  next
    case (RFail e)
    obtain cs where cs: "prefix cs (chunks_of (content r))"
      "Split r (ingestChunk P S c) = bnd (foreach (ingestChunk P S c) cs) (\<lambda>_. fail e)"
      using Split_fail [OF pr RFail] by blast
    obtain q' w2 refs2 tot2 where f: "foreach (ingestChunk P S c) cs (w, [], 0) = (q', (w2, refs2, tot2))"
      by (metis prod_cases4)
    have "q \<noteq> Inr ()" "w2 = w'"
      using s cs(2) f w1 by (auto simp: bnd_def fail_apply split: sum.splits)
    moreover have "set cs \<subseteq> set (chunks_of (content r))" using cs(1) by (auto simp: prefix_def)
    ultimately show ?thesis using ingest_all [OF f] by (auto intro: grows_mono)
  qed
  from main show "blob_frame w w'" "grows P c (set (chunks_of (content r))) (blobs w) (blobs w')"
    by simp_all
  show "res = Inr (refs, tot) \<Longrightarrow> rd_end r = REOF \<and> refs = manifest P (chunks_of (content r)) \<and>
       tot = int (length (content r)) \<and> (\<forall>x \<in> set (chunks_of (content r)). blobs w' (ChunkHash P x) \<noteq> None)"
    using main res by (cases q) auto
qed

lemma Ingest_clean:
  assumes "progressing r" "rd_end r = REOF" "clean w" "\<And>x. valid (ChunkHash P x)"
  shows "\<exists>w'. Ingest P S c r w =
    (Inr (manifest P (chunks_of (content r)), int (length (content r))), w') \<and> clean w'"
proof -
  obtain w' refs' tot' where f:
    "foreach (ingestChunk P S c) (chunks_of (content r)) (w, [], 0) = (Inr (), (w', refs', tot'))" "clean w'"
    using ingest_all_clean [OF assms(3), of "chunks_of (content r)" P c "([], 0)"] assms(4) by auto
  then show ?thesis
    using ingest_all [OF f(1)] Split_eof [OF assms(1,2), of "ingestChunk P S c"]
    by (simp add: Ingest_def totalSize_def)
qed

end

section \<open>Reassemble on any store\<close>

text \<open>What a manifest yields on a sound store: each reference opens to its content.\<close>

definition readable :: "prims \<Rightarrow> cipher \<Rightarrow> (string \<Rightarrow> bytes option) \<Rightarrow> string \<Rightarrow> bytes \<Rightarrow> bool" where
  "readable P c b h x \<longleftrightarrow> (\<exists>v. b h = Some v \<and> Open P c h v = Inr x)"

context blob_interface
begin

lemma reassembleRef_step:
  assumes "reassembleRef P S c ref (w, out) = (r, (w', out'))"
  shows "blob_frame w w' \<and> blobs w' = blobs w \<and>
    (out' = out \<or> (\<exists>x. readable P c (blobs w) (cr_Hash ref) x \<and> prefix out' (out @ x))) \<and>
    (r = Inr () \<longrightarrow> (\<exists>x. readable P c (blobs w) (cr_Hash ref) x \<and> out' = out @ x))"
proof -
  let ?h = "cr_Hash ref"
  obtain rg w1 where g: "bs_Get S ?h w = (rg, w1)" by fastforce
  have f1: "blob_frame w w1" "blobs w1 = blobs w" using Get_frame [OF g] by auto
  show ?thesis
  proof (cases rg)
    case (Inl e)
    then show ?thesis using assms g f1 by (auto simp: reassembleRef_def bnd_def lift_def)
  next
    case (Inr v)
    obtain rc w2 where c2: "call (ret v) w1 = (rc, w2)" by fastforce
    then have f2: "blob_frame w w2" "blobs w2 = blobs w" and rc: "rc = Inr v \<or> rc = Inl ErrIO"
      using f1 blobs_frame [of w2 w1]
      by (cases rule: call_cases; auto simp: run blob_frame_def)+
    have v: "blobs w ?h = Some v" using Get_result g Inr by blast
    obtain f w3 where n: "next_fault w2 = (Inr f, w3)" and f3: "blob_frame w w3" "blobs w3 = blobs w"
      using f2 blobs_frame [of "w2\<lparr>w_faults := tl (w_faults w2)\<rparr>" w2]
      by (cases "w_faults w2") (auto simp: next_fault_def blob_frame_def)
    show ?thesis
    proof (cases "Open P c ?h v")
      case (Inl e)
      then show ?thesis
        using assms g Inr c2 rc f2 by (auto simp: reassembleRef_def bnd_def lift_def run)
    next
      case o: (Inr x)
      have x: "readable P c (blobs w) ?h x" using v o by (auto simp: readable_def)
      show ?thesis
      proof (cases "rc = Inr v")
        case True
        then have wr: "writeOut x (w2, out) = (r, (w', out'))"
          using assms g Inr c2 o by (simp add: reassembleRef_def bnd_def lift_def)
        have "w' = w3 \<and> (out' = out \<or> prefix out' (out @ x)) \<and> (r = Inr () \<longrightarrow> out' = out @ x)"
          using wr n by (cases f) (auto simp: writeOut_def bnd_def lift_def take_is_prefix)
        then show ?thesis using f3 x by auto
      next
        case False
        then show ?thesis
          using rc assms g Inr c2 f2 by (auto simp: reassembleRef_def bnd_def lift_def)
      qed
    qed
  qed
qed

text \<open>
  Whatever happens during a \<open>Reassemble\<close>, the bytes it has written are a prefix of verified chunk
  contents in manifest order, and when it returns they are all of them.
\<close>

lemma Reassemble_spec:
  "Reassemble P S c refs (w, out) = (r, (w', out')) \<Longrightarrow>
   blob_frame w w' \<and> blobs w' = blobs w \<and>
   (\<exists>xs. list_all2 (\<lambda>ref x. readable P c (blobs w) (cr_Hash ref) x) (take (length xs) refs) xs \<and>
      prefix out' (out @ concat xs) \<and>
      (r = Inr () \<longrightarrow> length xs = length refs \<and> out' = out @ concat xs))"
proof (induction refs arbitrary: w out)
  case Nil
  then show ?case by (auto simp: Reassemble_def run intro: exI [of _ "[]"])
next
  case (Cons ref refs)
  obtain r1 w1 out1 where s: "reassembleRef P S c ref (w, out) = (r1, (w1, out1))"
    by (metis prod_cases3)
  note st = reassembleRef_step [OF s]
  show ?case
  proof (cases r1)
    case (Inl e)
    then have "r = Inl e" "w' = w1" "out' = out1"
      using Cons.prems s by (auto simp: Reassemble_def bnd_def)
    moreover from st consider "out1 = out"
      | x where "readable P c (blobs w) (cr_Hash ref) x" "prefix out1 (out @ x)" by blast
    then have "\<exists>xs. list_all2 (\<lambda>ref x. readable P c (blobs w) (cr_Hash ref) x)
        (take (length xs) (ref # refs)) xs \<and> prefix out1 (out @ concat xs)"
    proof cases
      case 1
      then show ?thesis by (intro exI [of _ "[]"]) simp
    next
      case (2 x)
      then show ?thesis by (intro exI [of _ "[x]"]) simp
    qed
    ultimately show ?thesis using st by auto
  next
    case (Inr u)
    then have rest: "Reassemble P S c refs (w1, out1) = (r, (w', out'))"
      using Cons.prems s by (simp add: Reassemble_def bnd_def)
    obtain x where x: "readable P c (blobs w) (cr_Hash ref) x" "out1 = out @ x"
      using st Inr by auto
    have b1: "blobs w1 = blobs w" "blob_frame w w1" using st by auto
    obtain xs where xs: "list_all2 (\<lambda>ref x. readable P c (blobs w) (cr_Hash ref) x) (take (length xs) refs) xs"
      "prefix out' (out1 @ concat xs)" "r = Inr () \<longrightarrow> length xs = length refs \<and> out' = out1 @ concat xs"
      and fr: "blob_frame w1 w'" "blobs w' = blobs w"
      using Cons.IH [OF rest] b1 by auto
    show ?thesis
      using x xs fr b1 blob_frame_trans [OF b1(2) fr(1)] by (intro conjI exI [of _ "x # xs"]) auto
  qed
qed

lemma Reassemble_calm:
  "calm w \<Longrightarrow> list_all2 (\<lambda>ref x. readable P c (blobs w) (cr_Hash ref) x) refs xs \<Longrightarrow>
   \<exists>w'. Reassemble P S c refs (w, out) = (Inr (), (w', out @ concat xs)) \<and> calm w'"
proof (induction refs arbitrary: w out xs)
  case Nil
  then show ?case by (simp add: Reassemble_def run)
next
  case (Cons ref refs)
  then obtain x ys where xs: "xs = x # ys" and x: "readable P c (blobs w) (cr_Hash ref) x"
    and ys: "list_all2 (\<lambda>ref x. readable P c (blobs w) (cr_Hash ref) x) refs ys"
    by (auto simp: list_all2_Cons1)
  obtain v where v: "blobs w (cr_Hash ref) = Some v" "Open P c (cr_Hash ref) v = Inr x"
    using x by (auto simp: readable_def)
  obtain w1 where g: "bs_Get S (cr_Hash ref) w = (Inr v, w1)" "calm w1"
    using Get_calm [OF Cons.prems(1) v(1)] by blast
  have step: "reassembleRef P S c ref (w, out) = (Inr (), (w1, out @ x))"
    using g v
    by (simp add: reassembleRef_def bnd_def lift_def writeOut_def next_fault_calm run)
  have "blobs w1 = blobs w" using Get_frame [OF g(1)] by simp
  then obtain w' where "Reassemble P S c refs (w1, out @ x) = (Inr (), (w', (out @ x) @ concat ys))" "calm w'"
    using Cons.IH [OF g(2), of ys "out @ x"] ys by auto
  then show ?case using step xs by (simp add: Reassemble_def bnd_def)
qed

text \<open>
  What an ingested stream yields: its chunks, provided no two different contents among the chunks
  and the blobs already stored have the same BLAKE3 hash.
\<close>

lemma ingested_readable:
  assumes ok: "aead_ok P" "cipher_ok c" and g: "grows P c (set cs) (blobs w) (blobs w')"
    and sd: "sound P c (blobs w)"
    and inj: "inj_on (ChunkHash P) (set cs \<union> {x. \<exists>h. readable P c (blobs w) h x})"
    and has: "\<forall>x \<in> set cs. blobs w' (ChunkHash P x) \<noteq> None" and x: "x \<in> set cs"
  shows "readable P c (blobs w') (ChunkHash P x) x"
proof -
  obtain v where v: "blobs w' (ChunkHash P x) = Some v" using has x by blast
  consider "blobs w (ChunkHash P x) = Some v"
    | y nonce where "y \<in> set cs" "ChunkHash P x = ChunkHash P y" "length nonce = NonceSize" "v = sealedWith P c nonce y"
    using g [unfolded grows_def, rule_format, of "ChunkHash P x"] v by force
  then show ?thesis
  proof cases
    case 1
    then obtain y where y: "Open P c (ChunkHash P x) v = Inr y" using sd by (auto simp: sound_def)
    then have "readable P c (blobs w) (ChunkHash P x) y" using 1 by (simp add: readable_def)
    then have "y = x" by (intro inj_onD [OF inj]) (use Open_hash [OF y] x in auto)
    then show ?thesis using v y by (simp add: readable_def)
  next
    case (2 y nonce)
    have "y = x" by (rule inj_onD [OF inj]) (use 2 x in simp_all)
    then show ?thesis using v 2(4) Open_sealedWith [OF ok 2(3), of x] by (simp add: readable_def)
  qed
qed

end

section \<open>The pipeline on the file-system store\<close>

lemma validKey_ChunkHash: "hash_ok P \<Longrightarrow> validKey (ChunkHash P x)"
  by (simp add: validKey_def length_ChunkHash) (simp add: ChunkHash_def)

text \<open>Round trip: without faults, on a sound store and provided no two different contents in play have
  the same BLAKE3 hash, \<open>Ingest\<close> returns the manifest and the size of the stream, and
  \<open>Reassemble\<close> of that manifest writes the stream back.\<close>

theorem Ingest_Reassemble:
  fixes w :: "'d world"
  assumes ok: "aead_ok P" "hash_ok P" "cipher_ok c" and r: "progressing r" "rd_end r = REOF"
    and cl: "fsClean w" and sd: "sound P c (fsBlobs root w)"
    and inj: "inj_on (ChunkHash P) (set (chunks_of (content r)) \<union> {x. \<exists>h. readable P c (fsBlobs root w) h x})"
  shows "\<exists>refs w1 w2. Ingest P (FS root) c r w = (Inr (refs, int (length (content r))), w1) \<and>
    Reassemble P (FS root) c refs (w1, []) = (Inr (), (w2, content r))"
proof -
  let ?cs = "chunks_of (content r)"
  obtain w1 where i: "Ingest P (FS root) c r w = (Inr (manifest P ?cs, int (length (content r))), w1)"
    and c1: "fsClean w1"
    using fs_store.Ingest_clean [OF r cl validKey_ChunkHash [OF ok(2)]] by blast
  note sp = fs_store.Ingest_spec [OF r(1) i]
  have "readable P c (fsBlobs root w1) (ChunkHash P x) x" if "x \<in> set ?cs" for x
    using fs_store.ingested_readable [OF ok(1,3) sp(2) sd inj _ that] sp(3) by blast
  then have "list_all2 (\<lambda>ref x. readable P c (fsBlobs root w1) (cr_Hash ref) x) (manifest P ?cs) ?cs"
    unfolding manifest_def list.rel_map by (intro list.rel_refl_strong) simp
  from fs_store.Reassemble_calm [OF fs_store.clean_calm [OF c1] this, of "[]"] obtain w2 where
    "Reassemble P (FS root) c (manifest P ?cs) (w1, []) = (Inr (), (w2, content r))" by auto
  with i show ?thesis by blast
qed

definition demoReader :: reader where
  "demoReader = \<lparr>rd_segs = [[1, 2], [3]], rd_end = REOF, rd_early = False\<rparr>"

lemma demoReader_simps [simp]: "progressing demoReader" "rd_end demoReader = REOF" "content demoReader = [1, 2, 3]"
  "chunks_of [1, 2, 3] = [[1, 2, 3]]"
proof -
  have "cutpoint [1, 2, 3] = 3" by (simp add: cutpoint_def MinSize_def)
  then show "chunks_of [1, 2, 3] = [[1, 2, 3]]" by (simp add: chunks_of.simps)
qed (simp_all add: demoReader_def progressing_def content_def)

lemma fsBlobs_demo [simp]: "fsBlobs root (demoWorld d) = Map.empty"
  by (auto simp: fsBlobs_def fun_eq_iff split: sum.split)

theorem Ingest_Reassemble_witness:
  "\<exists>refs w1 w2. Ingest toyPrims (FS ''/data'') toyCipher demoReader (demoWorld ()) = (Inr (refs, 3), w1) \<and>
    Reassemble toyPrims (FS ''/data'') toyCipher refs (w1, []) = (Inr (), (w2, [1, 2, 3]))"
proof -
  have "fsClean (demoWorld ())" by (simp add: fsClean_def)
  moreover have "sound toyPrims toyCipher (fsBlobs ''/data'' (demoWorld ()))" by (simp add: sound_def)
  moreover have "inj_on (ChunkHash toyPrims) (set (chunks_of (content demoReader)) \<union>
      {x. \<exists>h. readable toyPrims toyCipher (fsBlobs ''/data'' (demoWorld ())) h x})"
    by (simp add: readable_def)
  ultimately show ?thesis
    using Ingest_Reassemble [of toyPrims toyCipher demoReader "demoWorld ()" "''/data''"] by simp
qed

text \<open>C29. \<open>Ingest\<close> under every fault schedule: no stored blob is changed or lost, a sound store stays sound,
  database, tuples and clock are untouched; and if it returns, the stream was read to its end, the
  manifest is that of the stream and every chunk it names is in the store, so a manifest committed
  afterwards does not dangle.\<close>

theorem Ingest_safe:
  assumes "aead_ok P" "cipher_ok c" "progressing r" "Ingest P (FS root) c r w = (res, w')"
  shows "(\<forall>k v. fsBlobs root w k = Some v \<longrightarrow> fsBlobs root w' k = Some v) \<and>
    (sound P c (fsBlobs root w) \<longrightarrow> sound P c (fsBlobs root w')) \<and> blob_frame w w' \<and>
    (\<forall>refs tot. res = Inr (refs, tot) \<longrightarrow> rd_end r = REOF \<and> tot = int (length (content r)) \<and>
       refs = manifest P (chunks_of (content r)) \<and> (\<forall>ref \<in> set refs. fsBlobs root w' (cr_Hash ref) \<noteq> None))"
proof -
  note sp = fs_store.Ingest_spec [OF assms(3,4)]
  have "\<forall>ref \<in> set (manifest P cs). b (cr_Hash ref) \<noteq> None" if "\<forall>x \<in> set cs. b (ChunkHash P x) \<noteq> None"
    for cs and b :: "string \<Rightarrow> bytes option"
    using that by (auto simp: manifest_def)
  note refs_there = this
  have "rd_end r = REOF \<and> tot = int (length (content r)) \<and> refs = manifest P (chunks_of (content r)) \<and>
      (\<forall>ref \<in> set refs. fsBlobs root w' (cr_Hash ref) \<noteq> None)" if "res = Inr (refs, tot)" for refs tot
    using sp(3) [OF that] refs_there [of "chunks_of (content r)" "fsBlobs root w'"] by simp
  then show ?thesis
    using sp(1) grows_kept [OF sp(2)] grows_sound [OF assms(1,2) sp(2)] by simp
qed

theorem Ingest_safe_witness:
  "fsBlobs ''/data'' (snd (Ingest toyPrims (FS ''/data'') toyCipher demoReader
     ((demoWorld ())\<lparr>w_faults := [FBefore], w_fs := [''/data/aa/bb/aabb'' \<mapsto> [9]]\<rparr>))) ''aabb'' = Some [9]"
proof -
  let ?w = "(demoWorld ())\<lparr>w_faults := [FBefore], w_fs := [''/data/aa/bb/aabb'' \<mapsto> [9]]\<rparr>"
  obtain res w' where i: "Ingest toyPrims (FS ''/data'') toyCipher demoReader ?w = (res, w')" by fastforce
  have "fsBlobs ''/data'' ?w ''aabb'' = Some [9]"
    by (simp add: fsBlobs_def path_def isHex_def shardDir_def joinPath_def less_eq_char_def)
  with Ingest_safe [OF _ _ _ i] i show ?thesis by simp
qed

text \<open>\<open>Reassemble\<close> never writes unverified bytes: whatever the store holds and whichever calls fail, the
  output is a prefix of the contents that open, with matching hash, under the references in
  manifest order; if it returns, the output is all of them.\<close>

theorem Reassemble_verified:
  assumes "Reassemble P (FS root) c refs (w, []) = (r, (w', out))"
  shows "\<exists>xs. length xs \<le> length refs \<and>
    (\<forall>i < length xs. ChunkHash P (xs ! i) = cr_Hash (refs ! i) \<and> readable P c (fsBlobs root w) (cr_Hash (refs ! i)) (xs ! i)) \<and>
    prefix out (concat xs) \<and> (r = Inr () \<longrightarrow> length xs = length refs \<and> out = concat xs)"
proof -
  obtain xs where xs: "list_all2 (\<lambda>ref x. readable P c (fsBlobs root w) (cr_Hash ref) x) (take (length xs) refs) xs"
    "prefix out (concat xs)" "r = Inr () \<longrightarrow> length xs = length refs \<and> out = concat xs"
    using fs_store.Reassemble_spec [OF assms] by auto
  have len: "length xs \<le> length refs" using list_all2_lengthD [OF xs(1)] by simp
  have "readable P c (fsBlobs root w) (cr_Hash (refs ! i)) (xs ! i)" if "i < length xs" for i
    using list_all2_nthD2 [OF xs(1) that] that by simp
  moreover have "ChunkHash P x = h" if "readable P c b h x" for b h x
    using that Open_hash by (auto simp: readable_def)
  ultimately show ?thesis using xs len by (intro exI [of _ xs]) (simp, blast)
qed

theorem Reassemble_verified_witness:
  "snd (snd (Reassemble toyPrims (FS ''/data'') toyCipher [\<lparr>cr_Hash = ''aabb'', cr_Size = 1\<rparr>] (demoWorld (), []))) = []"
proof -
  obtain r w' out where run1: "Reassemble toyPrims (FS ''/data'') toyCipher [\<lparr>cr_Hash = ''aabb'', cr_Size = 1\<rparr>]
      (demoWorld (), []) = (r, (w', out))" by (metis prod_cases3)
  from Reassemble_verified [OF run1] obtain xs where xs: "length xs \<le> 1" "prefix out (concat xs)"
    "\<forall>i < length xs. readable toyPrims toyCipher (fsBlobs ''/data'' (demoWorld ())) (cr_Hash ([\<lparr>cr_Hash = ''aabb'', cr_Size = 1\<rparr>] ! i)) (xs ! i)"
    by auto
  then have "xs = []" by (auto simp: readable_def)
  then show ?thesis using xs run1 by simp
qed

end
