(* ===== verification/Store.thy ===== *)
theory Store
  imports Authz Engine
begin

text \<open>
  Kamara's metadata tables and repositories, \<open>kamara/internal/store/repos.go\<close>. Each repository method
  is one statement (or the statements the source issues); the schema's primary keys, unique
  constraints, foreign keys and cascades are part of the commands. The invariant \<open>db_ok\<close> is what the
  schema plus the reference counting promise: every chunk row counts at least the manifest entries
  that name it; \<open>exact\<close> is the sharper form the transactional operations keep.
\<close>

section \<open>Rows\<close>

record object =
  ob_ID :: string
  ob_Owner :: subject
  ob_Name :: string
  ob_Size :: int
  ob_FolderID :: "string option"
  ob_ContentType :: string
  ob_Created :: int
  ob_Updated :: int

record version =
  ve_ID :: string
  ve_Object :: string
  ve_Ordinal :: int
  ve_Size :: int
  ve_Created :: int

record vchunk =
  vc_Version :: string
  vc_Idx :: nat
  vc_Hash :: string

record chunk_row =
  ck_Size :: int
  ck_Ref :: int

record folder =
  fo_ID :: string
  fo_Owner :: subject
  fo_ParentID :: "string option"
  fo_Name :: string
  fo_Created :: int
  fo_Updated :: int

record wopi_session =
  ws_ObjectID :: string
  ws_Subject :: subject
  ws_CanWrite :: bool
  ws_Expires :: int

record kamara_db = conv_db +
  objects :: "object list"
  versions :: "version list"
  version_chunks :: "vchunk list"
  chunks :: "string \<rightharpoonup> chunk_row"
  folders :: "folder list"
  wopi_sessions :: "string \<rightharpoonup> wopi_session"

type_synonym 'a kamara = "(kamara_db, 'a) action"

definition hasFolder :: "kamara_db \<Rightarrow> string option \<Rightarrow> bool" where
  "hasFolder d f = (case f of None \<Rightarrow> True | Some i \<Rightarrow> i \<in> fo_ID ` set (folders d))"

section \<open>Objects\<close>

definition InsertObject :: "object \<Rightarrow> unit kamara" where
  "InsertObject o1 = exec (\<lambda>_ d.
     if ob_ID o1 \<in> ob_ID ` set (objects d) then Inl ErrUnique
     else if \<not> hasFolder d (ob_FolderID o1) then Inl ErrForeignKey
     else Inr (d\<lparr>objects := objects d @ [o1]\<rparr>))"

definition updObject :: "string \<Rightarrow> (object \<Rightarrow> object) \<Rightarrow> kamara_db \<Rightarrow> kamara_db" where
  "updObject i f d = d\<lparr>objects := map (\<lambda>x. if ob_ID x = i then f x else x) (objects d)\<rparr>"

definition SetObjectFolder :: "string \<Rightarrow> string option \<Rightarrow> unit kamara" where
  "SetObjectFolder i folderID = exec (\<lambda>now d.
     if i \<in> ob_ID ` set (objects d) \<and> \<not> hasFolder d folderID then Inl ErrForeignKey
     else Inr (updObject i (\<lambda>x. x\<lparr>ob_FolderID := folderID, ob_Updated := now\<rparr>) d))"

definition SetObjectName :: "string \<Rightarrow> string \<Rightarrow> unit kamara" where
  "SetObjectName i name = exec (\<lambda>now d.
     Inr (updObject i (\<lambda>x. x\<lparr>ob_Name := name, ob_Updated := now\<rparr>) d))"

definition SetObjectSize :: "string \<Rightarrow> int \<Rightarrow> unit kamara" where
  "SetObjectSize i sz = exec (\<lambda>now d.
     Inr (updObject i (\<lambda>x. x\<lparr>ob_Size := sz, ob_Updated := now\<rparr>) d))"

definition findObject :: "kamara_db \<Rightarrow> string \<Rightarrow> object option" where
  "findObject d i = List.find (\<lambda>x. ob_ID x = i) (objects d)"

definition GetObject :: "string \<Rightarrow> object option kamara" where
  "GetObject i = query (\<lambda>d. findObject d i)"

definition ByIDs :: "string list \<Rightarrow> object list kamara" where
  "ByIDs ids = (if ids = [] then ret []
     else query (\<lambda>d. sort_key ob_Created (filter (\<lambda>x. ob_ID x \<in> set ids) (objects d))))"

definition ByOwner :: "subject \<Rightarrow> object list kamara" where
  "ByOwner s = query (\<lambda>d. sort_key ob_Created (filter (\<lambda>x. ob_Owner x = s) (objects d)))"

text \<open>Deleting an object cascades to its versions and their manifest entries.\<close>

definition versionsOf :: "kamara_db \<Rightarrow> string \<Rightarrow> string list" where
  "versionsOf d i = map ve_ID (filter (\<lambda>v. ve_Object v = i) (versions d))"

definition dropObject :: "string \<Rightarrow> kamara_db \<Rightarrow> kamara_db" where
  "dropObject i d = d\<lparr>
     objects := filter (\<lambda>x. ob_ID x \<noteq> i) (objects d),
     versions := filter (\<lambda>v. ve_Object v \<noteq> i) (versions d),
     version_chunks := filter (\<lambda>vc. vc_Version vc \<notin> set (versionsOf d i)) (version_chunks d)\<rparr>"

definition DeleteObject :: "string \<Rightarrow> unit kamara" where
  "DeleteObject i = exec (\<lambda>_ d. Inr (dropObject i d))"

section \<open>Versions and chunks\<close>

text \<open>
  The insert into \<open>versions\<close>. When a transaction that commits in between takes the ordinal
  (\<open>FConflict\<close>), the statement fails with the unique violation. The entry stays in the schedule
  until the loser has rolled back: what the winners have committed is what the loser sees then
  (\<open>rivals\<close> of the file service).
\<close>

definition addVersion :: "version \<Rightarrow> int \<Rightarrow> kamara_db \<Rightarrow> err + kamara_db" where
  "addVersion v now d =
    (if ve_ID v \<in> ve_ID ` set (versions d) \<or>
        (ve_Object v, ve_Ordinal v) \<in> (\<lambda>x. (ve_Object x, ve_Ordinal x)) ` set (versions d) then Inl ErrUnique
     else if ve_Object v \<notin> ob_ID ` set (objects d) then Inl ErrForeignKey
     else Inr (d\<lparr>versions := versions d @ [v\<lparr>ve_Created := now\<rparr>]\<rparr>))"

definition insertVersionRow :: "version \<Rightarrow> unit kamara" where
  "insertVersionRow v = bnd next_fault (\<lambda>f.
     case f of
       FNone \<Rightarrow> execRaw (addVersion v)
     | FAfter \<Rightarrow> (\<lambda>w. (Inl ErrIO, snd (execRaw (addVersion v) w)))
     | FConflict rvs \<Rightarrow> (\<lambda>w. (Inl ErrUnique, w\<lparr>w_faults := f # w_faults w\<rparr>))
     | _ \<Rightarrow> fail ErrIO)"

definition upsertChunk :: "chunk_ref \<Rightarrow> unit kamara" where
  "upsertChunk ref = exec (\<lambda>_ d.
     Inr (d\<lparr>chunks := (chunks d)(cr_Hash ref \<mapsto>
       (case chunks d (cr_Hash ref) of
          None \<Rightarrow> \<lparr>ck_Size = cr_Size ref, ck_Ref = 1\<rparr>
        | Some c \<Rightarrow> c\<lparr>ck_Ref := ck_Ref c + 1\<rparr>))\<rparr>))"

definition insertManifest :: "string \<Rightarrow> nat \<Rightarrow> string \<Rightarrow> unit kamara" where
  "insertManifest versionID i hash = exec (\<lambda>_ d.
     if (versionID, i) \<in> (\<lambda>x. (vc_Version x, vc_Idx x)) ` set (version_chunks d) then Inl ErrUnique
     else if versionID \<notin> ve_ID ` set (versions d) \<or> chunks d hash = None then Inl ErrForeignKey
     else Inr (d\<lparr>version_chunks := version_chunks d @ [\<lparr>vc_Version = versionID, vc_Idx = i, vc_Hash = hash\<rparr>]\<rparr>))"

definition insertRef :: "string \<Rightarrow> nat \<times> chunk_ref \<Rightarrow> unit kamara" where
  "insertRef versionID = (\<lambda>(i, ref).
     bnd (upsertChunk ref) (\<lambda>_. insertManifest versionID i (cr_Hash ref)))"

definition InsertVersion :: "string \<Rightarrow> string \<Rightarrow> int \<Rightarrow> int \<Rightarrow> chunk_ref list \<Rightarrow> unit kamara" where
  "InsertVersion objectID versionID ordinal sz refs =
    bnd (catch (insertVersionRow \<lparr>ve_ID = versionID, ve_Object = objectID, ve_Ordinal = ordinal, ve_Size = sz, ve_Created = 0\<rparr>)
      (\<lambda>e. fail (if e = ErrUnique then ErrVersionConflict else e))) (\<lambda>_.
    foreach (insertRef versionID) (zip [0..<length refs] refs))"

definition latestVersion :: "kamara_db \<Rightarrow> string \<Rightarrow> version option" where
  "latestVersion d i = (case sort_key (\<lambda>v. - ve_Ordinal v) (filter (\<lambda>v. ve_Object v = i) (versions d)) of
     [] \<Rightarrow> None | v # _ \<Rightarrow> Some v)"

definition manifestRows :: "kamara_db \<Rightarrow> string \<Rightarrow> chunk_ref list" where
  "manifestRows d versionID =
     List.map_filter (\<lambda>vc. case chunks d (vc_Hash vc) of
         None \<Rightarrow> None | Some c \<Rightarrow> Some \<lparr>cr_Hash = vc_Hash vc, cr_Size = ck_Size c\<rparr>)
       (sort_key vc_Idx (filter (\<lambda>vc. vc_Version vc = versionID) (version_chunks d)))"

definition ManifestOf :: "string \<Rightarrow> chunk_ref list kamara" where
  "ManifestOf i = query (\<lambda>d. case latestVersion d i of None \<Rightarrow> [] | Some v \<Rightarrow> manifestRows d (ve_ID v))"

definition MaxOrdinal :: "string \<Rightarrow> int option kamara" where
  "MaxOrdinal i = query (\<lambda>d. map_option ve_Ordinal (latestVersion d i))"

definition ListVersionRows :: "string \<Rightarrow> version list kamara" where
  "ListVersionRows i = query (\<lambda>d. sort_key (\<lambda>v. - ve_Ordinal v) (filter (\<lambda>v. ve_Object v = i) (versions d)))"

definition hashesOf :: "kamara_db \<Rightarrow> string \<Rightarrow> string list" where
  "hashesOf d i = map vc_Hash (filter (\<lambda>vc. vc_Version vc \<in> set (versionsOf d i)) (version_chunks d))"

definition ChunkHashesOf :: "string \<Rightarrow> string list kamara" where
  "ChunkHashesOf i = query (\<lambda>d. hashesOf d i)"

definition decOne :: "string \<Rightarrow> int \<Rightarrow> unit kamara" where
  "decOne h n = exec (\<lambda>_ d.
     Inr (d\<lparr>chunks := (\<lambda>k. if k = h then map_option (\<lambda>c. c\<lparr>ck_Ref := ck_Ref c - n\<rparr>) (chunks d k) else chunks d k)\<rparr>))"

text \<open>
  \<open>DecRef\<close>: one update per distinct hash (the source iterates a map, in any order; here the order of
  the list), then the hashes whose count is zero or less.
\<close>

definition DecRef :: "string list \<Rightarrow> string list kamara" where
  "DecRef hashes =
    (if hashes = [] then ret []
     else
       bnd (foreach (\<lambda>h. decOne h (int (count_list hashes h))) (remdups hashes)) (\<lambda>_.
       query (\<lambda>d. filter (\<lambda>h. case chunks d h of None \<Rightarrow> False | Some c \<Rightarrow> ck_Ref c \<le> 0) (remdups hashes))))"

definition DeleteChunks :: "string list \<Rightarrow> unit kamara" where
  "DeleteChunks hashes =
    (if hashes = [] then ret ()
     else exec (\<lambda>_ d.
       if \<exists>vc \<in> set (version_chunks d). vc_Hash vc \<in> set hashes \<and> chunks d (vc_Hash vc) \<noteq> None then Inl ErrForeignKey
       else Inr (d\<lparr>chunks := (\<lambda>k. if k \<in> set hashes then None else chunks d k)\<rparr>)))"

section \<open>Folders\<close>

definition InsertFolder :: "folder \<Rightarrow> unit kamara" where
  "InsertFolder f = exec (\<lambda>_ d.
     if fo_ID f \<in> fo_ID ` set (folders d) then Inl ErrUnique
     else if \<not> (case fo_ParentID f of None \<Rightarrow> True | Some p \<Rightarrow> p \<in> insert (fo_ID f) (fo_ID ` set (folders d))) then Inl ErrForeignKey
     else Inr (d\<lparr>folders := folders d @ [f]\<rparr>))"

definition findFolder :: "kamara_db \<Rightarrow> string \<Rightarrow> folder option" where
  "findFolder d i = List.find (\<lambda>x. fo_ID x = i) (folders d)"

definition GetFolderRow :: "string \<Rightarrow> folder option kamara" where
  "GetFolderRow i = query (\<lambda>d. findFolder d i)"

text \<open>\<open>ORDER BY name\<close> sorts by the database's collation, a function of the name.\<close>

type_synonym collation = "string \<Rightarrow> nat list"

definition foldersIn :: "kamara_db \<Rightarrow> collation \<Rightarrow> subject \<Rightarrow> string option \<Rightarrow> folder list" where
  "foldersIn d coll owner parent =
     sort_key (\<lambda>f. coll (fo_Name f)) (filter (\<lambda>f. fo_Owner f = owner \<and> fo_ParentID f = parent) (folders d))"

definition FoldersInParent :: "collation \<Rightarrow> subject \<Rightarrow> string option \<Rightarrow> folder list kamara" where
  "FoldersInParent coll owner parent = query (\<lambda>d. foldersIn d coll owner parent)"

definition objectsIn :: "kamara_db \<Rightarrow> collation \<Rightarrow> subject \<Rightarrow> string option \<Rightarrow> object list" where
  "objectsIn d coll owner folder =
     sort_key (\<lambda>x. coll (ob_Name x)) (filter (\<lambda>x. ob_Owner x = owner \<and> ob_FolderID x = folder) (objects d))"

definition ObjectsInFolder :: "collation \<Rightarrow> subject \<Rightarrow> string option \<Rightarrow> object list kamara" where
  "ObjectsInFolder coll owner folder = query (\<lambda>d. objectsIn d coll owner folder)"

definition folderBusy :: "kamara_db \<Rightarrow> string \<Rightarrow> bool" where
  "folderBusy d i \<longleftrightarrow> (\<exists>f \<in> set (folders d). fo_ParentID f = Some i) \<or> (\<exists>x \<in> set (objects d). ob_FolderID x = Some i)"

definition FolderHasChildren :: "string \<Rightarrow> bool kamara" where
  "FolderHasChildren i = query (\<lambda>d. folderBusy d i)"

definition updFolder :: "string \<Rightarrow> (folder \<Rightarrow> folder) \<Rightarrow> kamara_db \<Rightarrow> kamara_db" where
  "updFolder i g d = d\<lparr>folders := map (\<lambda>f. if fo_ID f = i then g f else f) (folders d)\<rparr>"

definition SetFolderParent :: "string \<Rightarrow> string option \<Rightarrow> unit kamara" where
  "SetFolderParent i parent = exec (\<lambda>now d.
     if i \<in> fo_ID ` set (folders d) \<and> \<not> hasFolder d parent then Inl ErrForeignKey
     else Inr (updFolder i (\<lambda>f. f\<lparr>fo_ParentID := parent, fo_Updated := now\<rparr>) d))"

definition SetFolderName :: "string \<Rightarrow> string \<Rightarrow> unit kamara" where
  "SetFolderName i name = exec (\<lambda>now d.
     Inr (updFolder i (\<lambda>f. f\<lparr>fo_Name := name, fo_Updated := now\<rparr>) d))"

text \<open>\<open>ON DELETE RESTRICT\<close> is the foreign-key error, which the repository reports as \<open>ErrNotEmpty\<close>.\<close>

definition DeleteFolderRow :: "string \<Rightarrow> unit kamara" where
  "DeleteFolderRow i = catch
     (exec (\<lambda>_ d.
        if i \<in> fo_ID ` set (folders d) \<and> folderBusy d i then Inl ErrForeignKey
        else Inr (d\<lparr>folders := filter (\<lambda>f. fo_ID f \<noteq> i) (folders d)\<rparr>)))
     (\<lambda>e. fail (if e = ErrForeignKey then ErrNotEmpty else e))"

definition FoldersByOwner :: "subject \<Rightarrow> folder list kamara" where
  "FoldersByOwner owner = query (\<lambda>d. sort_key fo_Created (filter (\<lambda>f. fo_Owner f = owner) (folders d)))"

section \<open>WOPI sessions\<close>

definition wopiPut :: "string \<Rightarrow> wopi_session \<Rightarrow> unit kamara" where
  "wopiPut tokenHash s = exec (\<lambda>_ d.
     Inr (if wopi_sessions d tokenHash \<noteq> None then d
          else d\<lparr>wopi_sessions := (wopi_sessions d)(tokenHash \<mapsto> s)\<rparr>))"

definition wopiGet :: "string \<Rightarrow> wopi_session option kamara" where
  "wopiGet tokenHash = query (\<lambda>d. wopi_sessions d tokenHash)"

definition dropSessions :: "(wopi_session \<Rightarrow> bool) \<Rightarrow> kamara_db \<Rightarrow> kamara_db" where
  "dropSessions P d = d\<lparr>wopi_sessions := (\<lambda>k. case wopi_sessions d k of
     None \<Rightarrow> None | Some s \<Rightarrow> if P s then None else Some s)\<rparr>"

definition wopiDeleteExpired :: "int \<Rightarrow> unit kamara" where
  "wopiDeleteExpired before = exec (\<lambda>_ d. Inr (dropSessions (\<lambda>s. ws_Expires s < before) d))"

definition wopiDeleteByObject :: "string \<Rightarrow> unit kamara" where
  "wopiDeleteByObject i = exec (\<lambda>_ d. Inr (dropSessions (\<lambda>s. ws_ObjectID s = i) d))"

end
