(* ===== verification/Store_Inv.thy ===== *)
theory Store_Inv
  imports Store
begin

text \<open>
  The invariant of the metadata tables and how the repository methods keep it. \<open>tables_ok\<close> collects
  the keys and foreign keys of the schema; \<open>cnt\<close> relates the reference counts of the chunk rows to the
  manifest entries, with a slack that the multi-statement operations open and close again: exact
  (\<open>ex = True\<close>), or at least as high as needed (\<open>ex = False\<close>).
\<close>

section \<open>The invariant\<close>

definition refs :: "kamara_db \<Rightarrow> string \<Rightarrow> nat" where
  "refs d h = count_list (map vc_Hash (version_chunks d)) h"

definition tables_ok :: "kamara_db \<Rightarrow> bool" where
  "tables_ok d \<longleftrightarrow>
     distinct (map ob_ID (objects d)) \<and> distinct (map ve_ID (versions d)) \<and>
     distinct (map (\<lambda>v. (ve_Object v, ve_Ordinal v)) (versions d)) \<and>
     distinct (map (\<lambda>x. (vc_Version x, vc_Idx x)) (version_chunks d)) \<and>
     distinct (map fo_ID (folders d)) \<and>
     (\<forall>v \<in> set (versions d). ve_Object v \<in> ob_ID ` set (objects d)) \<and>
     (\<forall>x \<in> set (version_chunks d). vc_Version x \<in> ve_ID ` set (versions d)) \<and>
     (\<forall>x \<in> set (objects d). hasFolder d (ob_FolderID x)) \<and>
     (\<forall>f \<in> set (folders d). hasFolder d (fo_ParentID f))"

definition cnt :: "bool \<Rightarrow> (string \<Rightarrow> int) \<Rightarrow> kamara_db \<Rightarrow> bool" where
  "cnt ex s d \<longleftrightarrow>
     (\<forall>h. chunks d h = None \<longrightarrow> refs d h = 0 \<and> s h = 0) \<and>
     (\<forall>h c. chunks d h = Some c \<longrightarrow>
        int (refs d h) + s h \<le> ck_Ref c \<and> (ex \<longrightarrow> ck_Ref c = int (refs d h) + s h))"

definition noSlack :: "string \<Rightarrow> int" where
  "noSlack h = 0"

text \<open>No row with a count of zero or less is left, outside a set of hashes.\<close>

definition positive :: "string set \<Rightarrow> kamara_db \<Rightarrow> bool" where
  "positive H d \<longleftrightarrow> (\<forall>h c. chunks d h = Some c \<longrightarrow> h \<notin> H \<longrightarrow> 0 < ck_Ref c)"

text \<open>The state between operations; \<open>X\<close> bounds the chunk rows (the hashes that have a blob).\<close>

definition good :: "bool \<Rightarrow> string set \<Rightarrow> (string \<Rightarrow> int) \<Rightarrow> kamara_db \<Rightarrow> bool" where
  "good ex X s d \<longleftrightarrow> tables_ok d \<and> conv_ok d \<and> cnt ex s d \<and> (ex \<longrightarrow> positive {} d) \<and> dom (chunks d) \<subseteq> X"

section \<open>Rules for statements\<close>

lemma hoare_exec:
  assumes "\<And>w d. P w \<Longrightarrow> f (w_now w) (w_db w) = Inr d \<Longrightarrow> Q () (w\<lparr>w_db := d\<rparr>)" "faultless P"
    and "\<And>u. faultless (Q u)"
  shows "hoare P (exec f) Q (\<lambda>_ _. True)"
proof (rule hoareI)
  fix w x w' assume P: "P w" and r: "exec f w = (Inr x, w')"
  from r obtain fs where "execRaw f (w\<lparr>w_faults := fs\<rparr>) = (Inr x, w')"
    unfolding exec_def by (cases rule: call_cases) auto
  then obtain d where "f (w_now w) (w_db w) = Inr d" "w' = (w\<lparr>w_faults := fs\<rparr>)\<lparr>w_db := d\<rparr>"
    by (auto simp: execRaw_def split: sum.splits)
  then show "Q x w'"
    using assms(1) [of "w\<lparr>w_faults := fs\<rparr>" d] P assms(2) by (simp add: faultless_def)
qed simp

lemma hoare_db:
  assumes "\<And>now d d'. R d \<Longrightarrow> f now d = Inr d' \<Longrightarrow> R' d'"
  shows "hoare (\<lambda>w. R (w_db w)) (exec f) (\<lambda>_ w. R' (w_db w)) (\<lambda>_ _. True)"
  using assms by (intro hoare_exec) auto

lemma hoare_query:
  "hoare (\<lambda>w. R (w_db w)) (query f) (\<lambda>x w. R (w_db w) \<and> x = f (w_db w)) (\<lambda>_ _. True)"
  by (rule hoareI) (auto dest!: query_outcome)

lemma hoare_keeps_true: "keeps I m \<Longrightarrow> hoare I m (\<lambda>_. I) (\<lambda>_ _. True)"
  unfolding keeps_def by (erule hoare_conseq) auto

lemma hoare_InTx:
  fixes R :: "(string \<rightharpoonup> bytes) \<Rightarrow> 'd \<Rightarrow> bool"
  assumes ok: "hoare (\<lambda>w. R (w_fs w) (w_db w)) fn (\<lambda>x w. R (w_fs w) (w_db w) \<and> Q x (w_fs w) (w_db w)) (\<lambda>_ _. True)"
    and fs: "\<And>f. keeps (\<lambda>w. w_fs w = f) fn"
  shows "hoare (\<lambda>w. R (w_fs w) (w_db w)) (InTx fn)
    (\<lambda>x w. R (w_fs w) (w_db w) \<and> Q x (w_fs w) (w_db w)) (\<lambda>_ w. R (w_fs w) (w_db w))"
proof -
  have step: "(case r of Inr x \<Rightarrow> R (w_fs w') (w_db w') \<and> Q x (w_fs w') (w_db w') | Inl e \<Rightarrow> R (w_fs w') (w_db w'))"
    if R: "R (w_fs w) (w_db w)" and run: "InTx fn w = (r, w')" for w r w'
    using run
  proof (cases rule: InTx_outcome)
    case (committed x gs w1)
    then show ?thesis using hoareD(1) [OF ok, of "w\<lparr>w_faults := gs\<rparr>" x w1] R by auto
  next
    case (lost x gs w1)
    then show ?thesis using hoareD(1) [OF ok, of "w\<lparr>w_faults := gs\<rparr>" x w1] R by auto
  next
    case (undone e r' gs w1)
    have "w_fs w1 = w_fs w" using keepsD2 [OF fs _ undone(1)] by simp
    then show ?thesis using undone R by auto
  next
    case (unbegun gs)
    then show ?thesis using R by auto
  qed
  show ?thesis
    by (rule hoareI) (use step in fastforce)+
qed

section \<open>Tables\<close>

lemma tables_okD:
  assumes "tables_ok d"
  shows "distinct (map ob_ID (objects d))" "distinct (map ve_ID (versions d))"
    "distinct (map (\<lambda>v. (ve_Object v, ve_Ordinal v)) (versions d))"
    "distinct (map (\<lambda>x. (vc_Version x, vc_Idx x)) (version_chunks d))" "distinct (map fo_ID (folders d))"
    "v \<in> set (versions d) \<Longrightarrow> ve_Object v \<in> ob_ID ` set (objects d)"
    "x \<in> set (version_chunks d) \<Longrightarrow> vc_Version x \<in> ve_ID ` set (versions d)"
    "y \<in> set (objects d) \<Longrightarrow> hasFolder d (ob_FolderID y)"
    "f \<in> set (folders d) \<Longrightarrow> hasFolder d (fo_ParentID f)"
  using assms by (simp_all add: tables_ok_def)

lemma hasFolder_cong: "fo_ID ` set (folders d) = fo_ID ` set (folders d') \<Longrightarrow> hasFolder d = hasFolder d'"
  by (auto simp: hasFolder_def fun_eq_iff split: option.split)

lemma hasFolder_more [simp]:
  "hasFolder (d\<lparr>objects := x1\<rparr>) = hasFolder d" "hasFolder (d\<lparr>versions := x2\<rparr>) = hasFolder d"
  "hasFolder (d\<lparr>version_chunks := x3\<rparr>) = hasFolder d" "hasFolder (d\<lparr>chunks := x4\<rparr>) = hasFolder d"
  "hasFolder (d\<lparr>wopi_sessions := x5\<rparr>) = hasFolder d" "hasFolder (d\<lparr>subject_pseudonyms := x6\<rparr>) = hasFolder d"
  "hasFolder (d\<lparr>audit_events := x7\<rparr>) = hasFolder d" "hasFolder (d\<lparr>search_documents := x8\<rparr>) = hasFolder d"
  by (simp_all add: hasFolder_def fun_eq_iff split: option.split)

lemma tables_ok_more [simp]:
  "tables_ok (d\<lparr>chunks := x4\<rparr>) = tables_ok d"
  "tables_ok (d\<lparr>wopi_sessions := x5\<rparr>) = tables_ok d" "tables_ok (d\<lparr>subject_pseudonyms := x6\<rparr>) = tables_ok d"
  "tables_ok (d\<lparr>audit_events := x7\<rparr>) = tables_ok d" "tables_ok (d\<lparr>search_documents := x8\<rparr>) = tables_ok d"
  by (simp_all add: tables_ok_def)

lemma conv_ok_more [simp]:
  "conv_ok (d\<lparr>objects := x1\<rparr>) = conv_ok d" "conv_ok (d\<lparr>versions := x2\<rparr>) = conv_ok d"
  "conv_ok (d\<lparr>version_chunks := x3\<rparr>) = conv_ok d" "conv_ok (d\<lparr>chunks := x4\<rparr>) = conv_ok d"
  "conv_ok (d\<lparr>folders := x5\<rparr>) = conv_ok d" "conv_ok (d\<lparr>wopi_sessions := x6\<rparr>) = conv_ok d"
  by (simp_all add: conv_ok_def)

lemma refs_more [simp]:
  "refs (d\<lparr>objects := x1\<rparr>) = refs d" "refs (d\<lparr>versions := x2\<rparr>) = refs d" "refs (d\<lparr>chunks := x3\<rparr>) = refs d"
  "refs (d\<lparr>folders := x4\<rparr>) = refs d" "refs (d\<lparr>wopi_sessions := x5\<rparr>) = refs d"
  "refs (d\<lparr>subject_pseudonyms := x6\<rparr>) = refs d" "refs (d\<lparr>audit_events := x7\<rparr>) = refs d"
  "refs (d\<lparr>search_documents := x8\<rparr>) = refs d"
  by (simp_all add: refs_def fun_eq_iff)

lemma cnt_more [simp]:
  "cnt ex s (d\<lparr>objects := x1\<rparr>) = cnt ex s d" "cnt ex s (d\<lparr>versions := x2\<rparr>) = cnt ex s d"
  "cnt ex s (d\<lparr>folders := x4\<rparr>) = cnt ex s d" "cnt ex s (d\<lparr>wopi_sessions := x5\<rparr>) = cnt ex s d"
  "cnt ex s (d\<lparr>subject_pseudonyms := x6\<rparr>) = cnt ex s d" "cnt ex s (d\<lparr>audit_events := x7\<rparr>) = cnt ex s d"
  "cnt ex s (d\<lparr>search_documents := x8\<rparr>) = cnt ex s d"
  by (simp_all add: cnt_def)

lemma positive_more [simp]:
  "positive H (d\<lparr>objects := x1\<rparr>) = positive H d" "positive H (d\<lparr>versions := x2\<rparr>) = positive H d"
  "positive H (d\<lparr>version_chunks := x3\<rparr>) = positive H d"
  "positive H (d\<lparr>folders := x4\<rparr>) = positive H d" "positive H (d\<lparr>wopi_sessions := x5\<rparr>) = positive H d"
  "positive H (d\<lparr>subject_pseudonyms := x6\<rparr>) = positive H d" "positive H (d\<lparr>audit_events := x7\<rparr>) = positive H d"
  "positive H (d\<lparr>search_documents := x8\<rparr>) = positive H d"
  by (simp_all add: positive_def)

lemma good_conv_parts [simp]:
  "conv_ok (d\<lparr>subject_pseudonyms := x6\<rparr>) \<Longrightarrow> good ex X s d \<Longrightarrow> good ex X s (d\<lparr>subject_pseudonyms := x6\<rparr>)"
  "conv_ok (d\<lparr>audit_events := x7\<rparr>) \<Longrightarrow> good ex X s d \<Longrightarrow> good ex X s (d\<lparr>audit_events := x7\<rparr>)"
  "conv_ok (d\<lparr>search_documents := x8\<rparr>) \<Longrightarrow> good ex X s d \<Longrightarrow> good ex X s (d\<lparr>search_documents := x8\<rparr>)"
  by (simp_all add: good_def)

text \<open>The convention operations keep the invariant and everything they do not own.\<close>

definition solid :: "bool \<Rightarrow> string set \<Rightarrow> (string \<Rightarrow> int) \<Rightarrow> kamara_db \<Rightarrow> bool" where
  "solid ex X s d \<longleftrightarrow> tables_ok d \<and> cnt ex s d \<and> (ex \<longrightarrow> positive {} d) \<and> dom (chunks d) \<subseteq> X"

lemma good_solid: "good ex X s d \<longleftrightarrow> solid ex X s d \<and> conv_ok d"
  by (auto simp: good_def solid_def)

lemma aside_solid: "aside (\<lambda>w. solid ex X s (w_db w))"
  by (simp add: aside_def convless_def pseudless_def faultless_def randless_def solid_def)

lemma aside_fs: "aside (\<lambda>w. w_fs w = f)"
  by (simp add: aside_def convless_def pseudless_def faultless_def randless_def)

lemma keeps_good_conv:
  "keeps (\<lambda>w. good ex X s (w_db w)) (Emit a b c)" "keeps (\<lambda>w. good ex X s (w_db w)) (Feed doc)"
  "keeps (\<lambda>w. good ex X s (w_db w)) (Remove i)"
  unfolding good_solid
  by (intro keeps_conj keeps_Emit keeps_Feed keeps_Remove aside_solid keeps_conv_Emit keeps_conv_Feed keeps_conv_Remove)+

section \<open>Objects and versions\<close>

lemma good_InsertObject:
  "hoare (\<lambda>w. good ex X s (w_db w)) (InsertObject x)
     (\<lambda>_ w. good ex X s (w_db w) \<and> ob_ID x \<in> ob_ID ` set (objects (w_db w))) (\<lambda>_ _. True)"
  unfolding InsertObject_def
  by (rule hoare_db) (auto simp: good_def tables_ok_def split: if_splits)

lemma map_upd_ids:
  "(\<And>x. fld (f x) = fld x) \<Longrightarrow> map fld (map (\<lambda>x. if key x = i then f x else x) xs) = map fld xs"
  by (induction xs) auto

lemma tables_updObject:
  assumes "tables_ok d" "\<And>x. ob_ID (f x) = ob_ID x" "\<And>x. hasFolder d (ob_FolderID (f x)) \<or> i \<notin> ob_ID ` set (objects d)"
  shows "tables_ok (updObject i f d)"
proof -
  have ids: "map ob_ID (map (\<lambda>x. if ob_ID x = i then f x else x) (objects d)) = map ob_ID (objects d)"
    by (rule map_upd_ids) (rule assms(2))
  then have img: "ob_ID ` set (map (\<lambda>x. if ob_ID x = i then f x else x) (objects d)) = ob_ID ` set (objects d)"
    by (metis list.set_map)
  have "hasFolder d (ob_FolderID y)"
    if "y \<in> set (map (\<lambda>x. if ob_ID x = i then f x else x) (objects d))" for y
    using that assms(1,3) by (auto simp: tables_ok_def split: if_splits)
  then show ?thesis
    using assms(1) ids img unfolding updObject_def tables_ok_def by (simp del: map_map set_map)
qed

lemma good_updObject:
  assumes "good ex X s d" "\<And>x. ob_ID (f x) = ob_ID x" "\<And>x. hasFolder d (ob_FolderID (f x)) \<or> i \<notin> ob_ID ` set (objects d)"
  shows "good ex X s (updObject i f d)"
proof -
  have "tables_ok (updObject i f d)" using assms by (intro tables_updObject) (auto simp: good_def)
  then show ?thesis using assms(1) by (simp add: good_def) (simp add: updObject_def)
qed

lemma insertVersionRow_cases:
  assumes "insertVersionRow v w = (r, w')"
  shows "(\<exists>fs. w' = w\<lparr>w_faults := fs\<rparr> \<and> r \<in> {Inl ErrIO, Inl ErrUnique}) \<or>
    (\<exists>fs r'. execRaw (addVersion v) (w\<lparr>w_faults := fs\<rparr>) = (r', w') \<and> (r = r' \<or> r = Inl ErrIO))"
proof (cases "w_faults w")
  case Nil
  then have "w\<lparr>w_faults := []\<rparr> = w" by simp
  moreover have "execRaw (addVersion v) w = (r, w')"
    using assms Nil by (simp add: insertVersionRow_def bnd_def next_fault_def)
  ultimately show ?thesis by metis
next
  case (Cons f fs)
  then show ?thesis
    using assms
    by (cases f; cases "execRaw (addVersion v) (w\<lparr>w_faults := fs\<rparr>)")
      (auto simp: insertVersionRow_def bnd_def next_fault_def fail_apply)
qed

lemma addVersion_good:
  "good ex X s d \<Longrightarrow> addVersion v now d = Inr d' \<Longrightarrow> good ex X s d' \<and> ve_ID v \<in> ve_ID ` set (versions d')"
  by (auto simp: addVersion_def good_def tables_ok_def split: if_splits)

lemma good_insertVersionRow:
  "hoare (\<lambda>w. good ex X s (w_db w)) (insertVersionRow v)
     (\<lambda>_ w. good ex X s (w_db w) \<and> ve_ID v \<in> ve_ID ` set (versions (w_db w))) (\<lambda>_ _. True)"
proof (rule hoareI)
  fix w x w' assume g: "good ex X s (w_db w)" and r: "insertVersionRow v w = (Inr x, w')"
  from insertVersionRow_cases [OF r] obtain fs where "execRaw (addVersion v) (w\<lparr>w_faults := fs\<rparr>) = (Inr x, w')"
    by auto
  then obtain d where "addVersion v (w_now w) (w_db w) = Inr d" "w_db w' = d"
    by (auto simp: execRaw_def split: sum.splits)
  then show "good ex X s (w_db w') \<and> ve_ID v \<in> ve_ID ` set (versions (w_db w'))"
    using addVersion_good [OF g] by simp
qed simp

section \<open>The reference counts\<close>

lemma cnt_upsert:
  assumes "cnt ex s d" "0 \<le> s h"
  shows "cnt ex (s(h := s h + 1)) (d\<lparr>chunks := (chunks d)(h \<mapsto>
       (case chunks d h of None \<Rightarrow> \<lparr>ck_Size = n, ck_Ref = 1\<rparr> | Some c \<Rightarrow> c\<lparr>ck_Ref := ck_Ref c + 1\<rparr>))\<rparr>)"
  using assms by (cases "chunks d h") (auto simp: cnt_def)

lemma cnt_manifest:
  assumes "cnt ex s d" "chunks d h \<noteq> None"
  shows "cnt ex (s(h := s h - 1)) (d\<lparr>version_chunks := version_chunks d @ [\<lparr>vc_Version = v, vc_Idx = i, vc_Hash = h\<rparr>]\<rparr>)"
proof -
  have "refs (d\<lparr>version_chunks := version_chunks d @ [\<lparr>vc_Version = v, vc_Idx = i, vc_Hash = h\<rparr>]\<rparr>) k =
      refs d k + (if k = h then 1 else 0)" for k
    by (simp add: refs_def count_list_append)
  then show ?thesis using assms by (auto simp: cnt_def)
qed

lemma good_insertRef:
  assumes "cr_Hash ref \<in> X"
  shows "hoare (\<lambda>w. good ex X noSlack (w_db w)) (insertRef v (i, ref)) (\<lambda>_ w. good ex X noSlack (w_db w)) (\<lambda>_ _. True)"
proof -
  let ?h = "cr_Hash ref"
  let ?mid = "\<lambda>d. good ex X (noSlack(?h := 1)) d \<and> chunks d ?h \<noteq> None"
  have up: "?mid d'" if g: "good ex X noSlack d"
    and d': "d' = d\<lparr>chunks := (chunks d)(?h \<mapsto>
       (case chunks d ?h of None \<Rightarrow> \<lparr>ck_Size = cr_Size ref, ck_Ref = 1\<rparr> | Some c \<Rightarrow> c\<lparr>ck_Ref := ck_Ref c + 1\<rparr>))\<rparr>" for d d'
  proof -
    have "cnt ex (noSlack(?h := 1)) d'"
      using cnt_upsert [of ex noSlack d ?h "cr_Size ref"] g d' by (simp add: good_def noSlack_def)
    moreover have "positive {} d'" if "ex"
    proof -
      have p: "positive {} d" using g that by (simp add: good_def)
      then have "0 < ck_Ref (case chunks d ?h of None \<Rightarrow> \<lparr>ck_Size = cr_Size ref, ck_Ref = 1\<rparr>
          | Some c \<Rightarrow> c\<lparr>ck_Ref := ck_Ref c + 1\<rparr>)"
        by (cases "chunks d ?h") (fastforce simp: positive_def)+
      then show ?thesis using p d' by (simp add: positive_def)
    qed
    ultimately show ?thesis using g d' assms by (auto simp: good_def)
  qed
  have man: "good ex X noSlack d'" if g: "?mid d"
    and ok: "(v, i) \<notin> (\<lambda>x. (vc_Version x, vc_Idx x)) ` set (version_chunks d)" "v \<in> ve_ID ` set (versions d)"
    and d': "d' = d\<lparr>version_chunks := version_chunks d @ [\<lparr>vc_Version = v, vc_Idx = i, vc_Hash = ?h\<rparr>]\<rparr>" for d d'
  proof -
    have c0: "cnt ex (noSlack(?h := 1)) d" and ch: "chunks d ?h \<noteq> None" using g by (auto simp: good_def)
    have "(noSlack(?h := 1))(?h := (noSlack(?h := 1)) ?h - 1) = noSlack"
      by (auto simp: noSlack_def fun_eq_iff)
    then have "cnt ex noSlack d'" using cnt_manifest [OF c0 ch, of v i] d' by (simp del: fun_upd_apply)
    moreover have "tables_ok d'" using g ok d' by (auto simp: good_def tables_ok_def)
    ultimately show ?thesis using g d' by (auto simp: good_def)
  qed
  show ?thesis
    unfolding insertRef_def upsertChunk_def insertManifest_def prod.case
  proof (rule hoare_bnd)
    show "hoare (\<lambda>w. good ex X noSlack (w_db w)) (exec (\<lambda>_ d. Inr (d\<lparr>chunks := (chunks d)(?h \<mapsto>
       (case chunks d ?h of None \<Rightarrow> \<lparr>ck_Size = cr_Size ref, ck_Ref = 1\<rparr> | Some c \<Rightarrow> c\<lparr>ck_Ref := ck_Ref c + 1\<rparr>))\<rparr>)))
      (\<lambda>_ w. ?mid (w_db w)) (\<lambda>_ _. True)"
      by (rule hoare_db) (use up in blast)
    show "hoare (\<lambda>w. ?mid (w_db w)) (exec (\<lambda>_ d.
       if (v, i) \<in> (\<lambda>x. (vc_Version x, vc_Idx x)) ` set (version_chunks d) then Inl ErrUnique
       else if v \<notin> ve_ID ` set (versions d) \<or> chunks d ?h = None then Inl ErrForeignKey
       else Inr (d\<lparr>version_chunks := version_chunks d @ [\<lparr>vc_Version = v, vc_Idx = i, vc_Hash = ?h\<rparr>]\<rparr>)))
      (\<lambda>_ w. good ex X noSlack (w_db w)) (\<lambda>_ _. True)"
      by (rule hoare_db, rule man, assumption) (auto split: if_splits)
  qed
qed

lemma hoare_catch_true:
  "hoare P m Q (\<lambda>_ _. True) \<Longrightarrow> hoare P (catch m (\<lambda>e. fail (g e))) Q (\<lambda>_ _. True)"
  by (auto simp: hoare_def catch_def fail_apply split: prod.splits sum.splits)

lemma good_InsertVersion:
  assumes "\<And>ref. ref \<in> set rs \<Longrightarrow> cr_Hash ref \<in> X"
  shows "hoare (\<lambda>w. good ex X noSlack (w_db w)) (InsertVersion ob v n sz rs)
    (\<lambda>_ w. good ex X noSlack (w_db w)) (\<lambda>_ _. True)"
  unfolding InsertVersion_def
proof (rule hoare_bnd [OF hoare_catch_true [OF good_insertVersionRow]])
  have "hoare (\<lambda>w. good ex X noSlack (w_db w)) (foreach (insertRef v) (zip [0..<length rs] rs))
      (\<lambda>_ w. good ex X noSlack (w_db w)) (\<lambda>_ _. True)"
    by (rule hoare_foreach) (use assms good_insertRef in \<open>auto dest: set_zip_rightD\<close>)
  then show "hoare (\<lambda>w. good ex X noSlack (w_db w) \<and> ve_ID \<lparr>ve_ID = v, ve_Object = ob, ve_Ordinal = n, ve_Size = sz, ve_Created = 0\<rparr> \<in> ve_ID ` set (versions (w_db w)))
      (foreach (insertRef v) (zip [0..<length rs] rs)) (\<lambda>_ w. good ex X noSlack (w_db w)) (\<lambda>_ _. True)"
    by (rule hoare_pre) simp
qed

section \<open>Deleting an object and its references\<close>

lemma refs_dropObject: "int (refs (dropObject i d) h) + int (count_list (hashesOf d i) h) = int (refs d h)"
proof -
  let ?V = "set (versionsOf d i)"
  have "length (filter (\<lambda>x. vc_Hash x = h) (version_chunks d)) =
      length (filter (\<lambda>x. vc_Hash x = h \<and> vc_Version x \<in> ?V) (version_chunks d)) +
      length (filter (\<lambda>x. vc_Hash x = h \<and> vc_Version x \<notin> ?V) (version_chunks d))"
    by (rule length_filter_conj_split)
  moreover have "count_list (map vc_Hash (version_chunks d)) h = length (filter (\<lambda>x. vc_Hash x = h) (version_chunks d))"
    using count_list_filter_map [of vc_Hash "\<lambda>_. True" "version_chunks d" h] by simp
  ultimately show ?thesis
    by (simp add: refs_def dropObject_def hashesOf_def count_list_filter_map conj_commute)
qed

lemma tables_dropObject:
  assumes t: "tables_ok d"
  shows "tables_ok (dropObject i d)"
proof -
  have v: "ve_ID v \<notin> set (versionsOf d i)" if "v \<in> set (versions d)" "ve_Object v \<noteq> i" for v
  proof
    assume "ve_ID v \<in> set (versionsOf d i)"
    then obtain u where u: "u \<in> set (versions d)" "ve_Object u = i" "ve_ID u = ve_ID v"
      by (auto simp: versionsOf_def)
    have "distinct (map ve_ID (versions d))" using t by (simp add: tables_ok_def)
    then have "inj_on ve_ID (set (versions d))" by (simp add: distinct_map)
    then have "u = v" using u that by (simp add: inj_on_eq_iff)
    then show False using u that by simp
  qed
  have keep: "vc_Version x \<in> ve_ID ` set (filter (\<lambda>v. ve_Object v \<noteq> i) (versions d))"
    if x: "x \<in> set (version_chunks d)" "vc_Version x \<notin> set (versionsOf d i)" for x
  proof -
    obtain u where "u \<in> set (versions d)" "ve_ID u = vc_Version x"
      using tables_okD(7) [OF t x(1)] by auto
    then show ?thesis using x by (force simp: versionsOf_def)
  qed
  have objs: "ve_Object v \<in> ob_ID ` set (filter (\<lambda>x. ob_ID x \<noteq> i) (objects d))"
    if "v \<in> set (versions d)" "ve_Object v \<noteq> i" for v
    using that t unfolding tables_ok_def by force
  have hf: "hasFolder (dropObject i d) = hasFolder d" by (rule hasFolder_cong) (simp add: dropObject_def)
  show ?thesis
    using t keep objs
    unfolding tables_ok_def hf
    by (simp add: dropObject_def distinct_map_filter)
qed

lemma cnt_dropObject:
  assumes "cnt ex s d"
  shows "cnt ex (\<lambda>h. s h + int (count_list (hashesOf d i) h)) (dropObject i d)"
proof -
  have "chunks (dropObject i d) = chunks d" by (simp add: dropObject_def)
  moreover have "int (refs d h) + s h = int (refs (dropObject i d) h) + (s h + int (count_list (hashesOf d i) h))" for h
    using refs_dropObject [of i d h] by simp
  moreover have "refs (dropObject i d) h = 0 \<and> count_list (hashesOf d i) h = 0" if "refs d h = 0" for h
    using refs_dropObject [of i d h] that by linarith
  ultimately show ?thesis using assms unfolding cnt_def by (simp add: ac_simps)
qed

text \<open>The state while an object's references are being given back: the hashes still to be
  decremented are the slack.\<close>

definition giving :: "bool \<Rightarrow> string set \<Rightarrow> string list \<Rightarrow> string list \<Rightarrow> kamara_db \<Rightarrow> bool" where
  "giving ex X hs todo d \<longleftrightarrow> tables_ok d \<and> conv_ok d \<and>
     cnt ex (\<lambda>h. if h \<in> set todo then int (count_list hs h) else 0) d \<and>
     (ex \<longrightarrow> positive (set hs) d) \<and> dom (chunks d) \<subseteq> X"

lemma giving_start:
  assumes "good ex X noSlack d" "hs = hashesOf d i"
  shows "giving ex X hs (remdups hs) (dropObject i d)"
proof -
  have "cnt ex (\<lambda>h. noSlack h + int (count_list hs h)) (dropObject i d)"
    using cnt_dropObject [of ex noSlack d i] assms by (simp add: good_def)
  moreover have "(\<lambda>h. noSlack h + int (count_list hs h)) = (\<lambda>h. if h \<in> set (remdups hs) then int (count_list hs h) else 0)"
    by (auto simp: noSlack_def fun_eq_iff count_list_0_iff)
  moreover have "chunks (dropObject i d) = chunks d" "conv_ok (dropObject i d) = conv_ok d"
    by (simp_all add: dropObject_def)
  ultimately show ?thesis
    using assms(1) tables_dropObject by (auto simp: giving_def good_def positive_def)
qed

lemma giving_decOne:
  assumes g: "giving ex X hs (h # todo) d" and nt: "h \<notin> set todo" and mem: "h \<in> set hs"
    and d': "d' = d\<lparr>chunks := (\<lambda>k. if k = h then map_option (\<lambda>c. c\<lparr>ck_Ref := ck_Ref c - int (count_list hs h)\<rparr>) (chunks d k) else chunks d k)\<rparr>"
  shows "giving ex X hs todo d'"
proof -
  let ?s = "\<lambda>l k. if k \<in> set l then int (count_list hs k) else 0"
  have c: "cnt ex (?s (h # todo)) d" using g by (simp add: giving_def)
  have "count_list hs h \<noteq> 0" using mem by (simp add: count_list_0_iff)
  then have some: "chunks d h \<noteq> None" using c by (auto simp: cnt_def)
  have "cnt ex (?s todo) d'"
    using c nt some d' unfolding cnt_def by (auto split: if_splits)
  moreover have "dom (chunks d') \<subseteq> dom (chunks d)" using d' by (auto split: if_splits)
  moreover have "ex \<longrightarrow> positive (set hs) d'"
    using g mem d' by (auto simp: giving_def positive_def split: if_splits)
  ultimately show ?thesis using g d' by (auto simp: giving_def)
qed

lemma giving_DecRef_loop:
  "distinct todo \<Longrightarrow> set todo \<subseteq> set hs \<Longrightarrow>
   hoare (\<lambda>w. giving ex X hs todo (w_db w)) (foreach (\<lambda>h. decOne h (int (count_list hs h))) todo)
     (\<lambda>_ w. giving ex X hs [] (w_db w)) (\<lambda>_ _. True)"
proof (induction todo)
  case Nil
  show ?case by (simp add: hoare_def run)
next
  case (Cons h todo)
  have "hoare (\<lambda>w. giving ex X hs (h # todo) (w_db w)) (decOne h (int (count_list hs h)))
      (\<lambda>_ w. giving ex X hs todo (w_db w)) (\<lambda>_ _. True)"
    unfolding decOne_def by (rule hoare_db) (use Cons.prems giving_decOne in \<open>auto simp del: map_option_case\<close>)
  with Cons show ?case by (auto intro: hoare_bnd)
qed

text \<open>After \<open>DecRef\<close>: its result holds the hashes without references left.\<close>

definition given :: "bool \<Rightarrow> string set \<Rightarrow> string list \<Rightarrow> kamara_db \<Rightarrow> bool" where
  "given ex X orphans d \<longleftrightarrow> tables_ok d \<and> conv_ok d \<and> cnt ex noSlack d \<and>
     (ex \<longrightarrow> positive (set orphans) d) \<and> dom (chunks d) \<subseteq> X \<and>
     (\<forall>h \<in> set orphans. \<exists>c. chunks d h = Some c \<and> ck_Ref c \<le> 0)"

lemma giving_given:
  assumes "giving ex X hs [] d"
  shows "given ex X (filter (\<lambda>h. case chunks d h of None \<Rightarrow> False | Some c \<Rightarrow> ck_Ref c \<le> 0) (remdups hs)) d"
proof -
  have "cnt ex noSlack d" using assms by (simp add: giving_def noSlack_def [abs_def])
  then show ?thesis
    using assms by (auto simp: giving_def given_def positive_def split: option.splits)
qed

lemma good_given_nil: "good ex X noSlack d \<Longrightarrow> given ex X [] d"
  by (simp add: good_def given_def)

lemma hoare_DecRef:
  "hoare (\<lambda>w. giving ex X hs (remdups hs) (w_db w)) (DecRef hs)
     (\<lambda>orphans w. given ex X orphans (w_db w)) (\<lambda>_ _. True)"
proof (cases "hs = []")
  case True
  then show ?thesis
    by (simp add: DecRef_def hoare_def run giving_def given_def noSlack_def [abs_def])
next
  case False
  have q: "hoare (\<lambda>w. giving ex X hs [] (w_db w))
      (query (\<lambda>d. filter (\<lambda>h. case chunks d h of None \<Rightarrow> False | Some c \<Rightarrow> ck_Ref c \<le> 0) (remdups hs)))
      (\<lambda>orphans w. given ex X orphans (w_db w)) (\<lambda>_ _. True)"
    by (rule hoare_conseq [OF hoare_query]) (auto intro: giving_given)
  have eq: "DecRef hs = bnd (foreach (\<lambda>h. decOne h (int (count_list hs h))) (remdups hs)) (\<lambda>_.
      query (\<lambda>d. filter (\<lambda>h. case chunks d h of None \<Rightarrow> False | Some c \<Rightarrow> ck_Ref c \<le> 0) (remdups hs)))"
    unfolding DecRef_def using False by (simp only: if_False)
  show ?thesis
    unfolding eq by (rule hoare_bnd [OF giving_DecRef_loop q]) simp_all
qed

lemma given_deleted:
  assumes g: "given ex X os d" and none: "\<forall>x \<in> set (version_chunks d). vc_Hash x \<in> set os \<longrightarrow> chunks d (vc_Hash x) = None"
    and d': "d' = d\<lparr>chunks := (\<lambda>k. if k \<in> set os then None else chunks d k)\<rparr>"
  shows "good ex X noSlack d' \<and> set os \<inter> dom (chunks d') = {}"
proof -
  have zero: "refs d h = 0" if mem: "h \<in> set os" for h
  proof -
    have "\<forall>h \<in> set os. \<exists>c. chunks d h = Some c \<and> ck_Ref c \<le> 0" using g by (simp add: given_def)
    then obtain c where c: "chunks d h = Some c" "ck_Ref c \<le> 0" using mem by blast
    have "cnt ex noSlack d" using g by (simp add: given_def)
    then have "int (refs d h) \<le> ck_Ref c" using c(1) by (simp add: cnt_def noSlack_def)
    with c(2) have "int (refs d h) \<le> 0" by linarith
    then show ?thesis by simp
  qed
  have "cnt ex noSlack d'"
    using g zero d' by (auto simp: given_def cnt_def noSlack_def)
  then show ?thesis
    using g d' by (auto simp: given_def good_def positive_def split: if_splits)
qed

lemma hoare_DeleteChunks:
  "hoare (\<lambda>w. given ex X os (w_db w)) (DeleteChunks os)
     (\<lambda>_ w. good ex X noSlack (w_db w) \<and> set os \<inter> dom (chunks (w_db w)) = {}) (\<lambda>_ _. True)"
proof (cases "os = []")
  case True
  then show ?thesis by (simp add: DeleteChunks_def hoare_def run given_def good_def)
next
  case False
  let ?busy = "\<lambda>d. \<exists>vc \<in> set (version_chunks d). vc_Hash vc \<in> set os \<and> chunks d (vc_Hash vc) \<noteq> None"
  have "good ex X noSlack d' \<and> set os \<inter> dom (chunks d') = {}"
    if "given ex X os d" "(if ?busy d then Inl ErrForeignKey
       else Inr (d\<lparr>chunks := (\<lambda>k. if k \<in> set os then None else chunks d k)\<rparr>)) = Inr d'" for d d'
    by (rule given_deleted [OF that(1)]) (use that(2) in \<open>auto split: if_splits\<close>)
  then show ?thesis
    unfolding DeleteChunks_def if_not_P [OF False] by (intro hoare_db)
qed

end
