(* ===== verification/File_Service.thy ===== *)
theory File_Service
  imports Store_Inv
begin

text \<open>
  The file domain, \<open>kamara/internal/file/file.go\<close>: upload, download, save-back with optimistic
  concurrency, listing, deletion. The record \<open>svc\<close> is the \<open>Service\<close> with the packages it is built from;
  every operation is written over the repositories, the blob store, the cipher and the authorization
  client, in the order of the source. A \<open>*string\<close> is a \<open>string option\<close>.
\<close>

section \<open>The service\<close>

record svc =
  sv_P :: prims
  sv_cipher :: cipher
  sv_blobs :: "kamara_db blob_store"
  sv_fga :: fga
  sv_mime :: "string \<Rightarrow> string"
  sv_coll :: collation
  sv_revoker :: bool

definition FileType :: string where
  "FileType = ''kamara/file''"

definition FolderType :: string where
  "FolderType = ''kamara/folder''"

definition fileObj :: "string \<Rightarrow> string" where
  "fileObj i = FileType @ '':'' @ i"

definition folderObj :: "string \<Rightarrow> string" where
  "folderObj i = FolderType @ '':'' @ i"

definition Permalink :: "string \<Rightarrow> string" where
  "Permalink i = ''/files/'' @ i"

definition FolderPermalink :: "string \<Rightarrow> string" where
  "FolderPermalink i = ''/folders/'' @ i"

text \<open>The content type of a name: the MIME table is the standard library's and the system's.\<close>

definition contentTypeOf :: "svc \<Rightarrow> string \<Rightarrow> string" where
  "contentTypeOf S name = TrimSpace (takeWhile (\<lambda>c. c \<noteq> CHR '';'') (sv_mime S (pathExt name)))"

definition MaxTextEditBytes :: int where
  "MaxTextEditBytes = 1048576"

definition textEditableTypes :: "string list" where
  "textEditableTypes = [''application/json'', ''application/javascript'', ''application/xml'',
     ''application/yaml'', ''application/toml'', ''application/x-sh'', ''application/sql'']"

definition TextEditable :: "object \<Rightarrow> bool" where
  "TextEditable x =
    (if ob_Size x > MaxTextEditBytes then False
     else if ob_ContentType x = [] \<or> HasPrefix (ob_ContentType x) ''text/'' then True
     else ob_ContentType x \<in> set textEditableTypes)"

definition Previewable :: "object \<Rightarrow> bool" where
  "Previewable x \<longleftrightarrow> HasPrefix (ob_ContentType x) ''image/'' \<and> ob_ContentType x \<noteq> ''image/svg+xml''"

definition noSubject :: subject where
  "noSubject = \<lparr>sub_Instance = [], sub_UserID = []\<rparr>"

definition TextEditableName :: "svc \<Rightarrow> string \<Rightarrow> bool" where
  "TextEditableName S name = TextEditable \<lparr>ob_ID = [], ob_Owner = noSubject, ob_Name = name, ob_Size = 0,
     ob_FolderID = None, ob_ContentType = contentTypeOf S name, ob_Created = 0, ob_Updated = 0\<rparr>"

section \<open>Authorization\<close>

definition authorizeAccess :: "svc \<Rightarrow> subject \<Rightarrow> string \<Rightarrow> unit kamara" where
  "authorizeAccess S caller x =
    bnd (Check (sv_fga S) caller AccessRelation x) (\<lambda>ok.
    if \<not> ok then fail ErrForbidden else ret ())"

definition authorize :: "svc \<Rightarrow> subject \<Rightarrow> string \<Rightarrow> unit kamara" where
  "authorize S caller i = authorizeAccess S caller (fileObj i)"

definition authorizeFolder :: "svc \<Rightarrow> subject \<Rightarrow> string \<Rightarrow> unit kamara" where
  "authorizeFolder S caller i = authorizeAccess S caller (folderObj i)"

definition authorizeFolderOpt :: "svc \<Rightarrow> subject \<Rightarrow> string option \<Rightarrow> unit kamara" where
  "authorizeFolderOpt S caller f = (case f of None \<Rightarrow> ret () | Some i \<Rightarrow> authorizeFolder S caller i)"

section \<open>Upload and download\<close>

definition auditObj :: "string \<Rightarrow> string \<Rightarrow> string \<Rightarrow> audit_object" where
  "auditObj typ i link = \<lparr>ao_Type = typ, ao_ID = i, ao_Permalink = link\<rparr>"

definition uploadTx :: "subject \<Rightarrow> object \<Rightarrow> string \<Rightarrow> int \<Rightarrow> chunk_ref list \<Rightarrow> unit kamara" where
  "uploadTx owner x verID tot rs =
    bnd (InsertObject x) (\<lambda>_.
    bnd (InsertVersion (ob_ID x) verID 0 tot rs) (\<lambda>_.
    bnd (Emit owner ''kamara.file.created'' (auditObj FileType (ob_ID x) (Permalink (ob_ID x)))) (\<lambda>_.
    Feed \<lparr>sd_ID = ob_ID x, sd_Type = FileType, sd_Permalink = Permalink (ob_ID x), sd_Owner = owner, sd_Text = ob_Name x\<rparr>)))"

definition linkFolder :: "svc \<Rightarrow> string option \<Rightarrow> string \<Rightarrow> unit kamara" where
  "linkFolder S folderID child = (case folderID of
     None \<Rightarrow> ret ()
   | Some f \<Rightarrow> WriteObjectTuple (sv_fga S) (folderObj f) ParentRelation child)"

definition Upload :: "svc \<Rightarrow> subject \<Rightarrow> string option \<Rightarrow> string \<Rightarrow> reader \<Rightarrow> object kamara" where
  "Upload S owner folderID name r =
    (if name = [] then fail ErrNameRequired
     else
       bnd (authorizeFolderOpt S owner folderID) (\<lambda>_.
       bnd (Ingest (sv_P S) (sv_blobs S) (sv_cipher S) r) (\<lambda>(rs, tot).
       bnd time_now (\<lambda>now.
       bnd V7 (\<lambda>i.
       let x = \<lparr>ob_ID = i, ob_Owner = owner, ob_Name = name, ob_Size = tot, ob_FolderID = folderID,
                ob_ContentType = contentTypeOf S name, ob_Created = now, ob_Updated = now\<rparr> in
       bnd V7 (\<lambda>verID.
       bnd (InTx (uploadTx owner x verID tot rs)) (\<lambda>_.
       bnd (WriteTuple (sv_fga S) owner Relation (fileObj i)) (\<lambda>_.
       bnd (linkFolder S folderID (fileObj i)) (\<lambda>_.
       ret x)))))))))"

definition Download :: "svc \<Rightarrow> subject \<Rightarrow> string \<Rightarrow> (kamara_db world \<times> bytes, unit) io" where
  "Download S caller i =
    bnd (lift (authorize S caller i)) (\<lambda>_.
    bnd (lift (ManifestOf i)) (\<lambda>rs.
    Reassemble (sv_P S) (sv_blobs S) (sv_cipher S) rs))"

section \<open>Save-back\<close>

definition writeTx :: "subject \<Rightarrow> string \<Rightarrow> string \<Rightarrow> int option \<Rightarrow> int \<Rightarrow> chunk_ref list \<Rightarrow> int kamara" where
  "writeTx caller i verID base tot rs =
    bnd (MaxOrdinal i) (\<lambda>maxOrd.
    case maxOrd of
      None \<Rightarrow> fail ErrNotFound
    | Some m \<Rightarrow>
        if base \<noteq> None \<and> base \<noteq> Some m then fail ErrModified
        else
          bnd (InsertVersion i verID (m + 1) tot rs) (\<lambda>_.
          bnd (SetObjectSize i tot) (\<lambda>_.
          bnd (Emit caller ''kamara.file.version_written'' (auditObj FileType i (Permalink i))) (\<lambda>_.
          ret (m + 1)))))"

definition writeAttempt :: "subject \<Rightarrow> string \<Rightarrow> int option \<Rightarrow> int \<Rightarrow> chunk_ref list \<Rightarrow> int kamara" where
  "writeAttempt caller i base tot rs = bnd V7 (\<lambda>verID. InTx (writeTx caller i verID base tot rs))"

text \<open>
  The saves that win a race: each is the same code, run for another user, up to and with its
  transaction (it may fail as well, and is then no winner). Their commits become visible when the
  transaction that lost has rolled back.
\<close>

definition bytesReader :: "bytes \<Rightarrow> reader" where
  "bytesReader x = \<lparr>rd_segs = (if x = [] then [] else [x]), rd_end = REOF, rd_early = False\<rparr>"

definition rivalSave :: "svc \<Rightarrow> string \<Rightarrow> rival \<Rightarrow> int kamara" where
  "rivalSave S i rv =
    (let caller = \<lparr>sub_Instance = rv_Instance rv, sub_UserID = rv_UserID rv\<rparr> in
     bnd (authorize S caller i) (\<lambda>_.
     bnd (Ingest (sv_P S) (sv_blobs S) (sv_cipher S) (bytesReader (rv_Content rv))) (\<lambda>(rs, tot).
     writeAttempt caller i None tot rs)))"

definition rivals :: "svc \<Rightarrow> string \<Rightarrow> unit kamara" where
  "rivals S i w = (case w_faults w of
     FConflict rvs # fs \<Rightarrow> foreach (\<lambda>rv. ignore (rivalSave S i rv)) rvs (w\<lparr>w_faults := fs\<rparr>)
   | _ \<Rightarrow> (Inr (), w))"

definition contended :: "svc \<Rightarrow> string \<Rightarrow> 'a kamara \<Rightarrow> 'a kamara" where
  "contended S i m = catch m (\<lambda>e. if e = ErrVersionConflict then bnd (rivals S i) (\<lambda>_. fail e) else fail e)"

text \<open>The retry loop: \<open>n\<close> further attempts after a version conflict.\<close>

primrec retry :: "nat \<Rightarrow> 'a kamara \<Rightarrow> 'a kamara" where
  "retry 0 m = m"
| "retry (Suc n) m = catch m (\<lambda>e. if e = ErrVersionConflict then retry n m else fail e)"

definition maxAttempts :: nat where
  "maxAttempts = 5"

definition writeVersion :: "svc \<Rightarrow> subject \<Rightarrow> string \<Rightarrow> reader \<Rightarrow> int option \<Rightarrow> string kamara" where
  "writeVersion S caller i r base =
    bnd (authorize S caller i) (\<lambda>_.
    bnd (Ingest (sv_P S) (sv_blobs S) (sv_cipher S) r) (\<lambda>(rs, tot).
    bnd (retry (maxAttempts - 1) (contended S i (writeAttempt caller i base tot rs))) (\<lambda>ordinal.
    ret (Itoa ordinal))))"

definition WriteVersion :: "svc \<Rightarrow> subject \<Rightarrow> string \<Rightarrow> reader \<Rightarrow> string kamara" where
  "WriteVersion S caller i r = writeVersion S caller i r None"

definition WriteVersionAt :: "svc \<Rightarrow> subject \<Rightarrow> string \<Rightarrow> int \<Rightarrow> reader \<Rightarrow> string kamara" where
  "WriteVersionAt S caller i base r = writeVersion S caller i r (Some base)"

section \<open>Reading metadata\<close>

definition ListVersions :: "svc \<Rightarrow> subject \<Rightarrow> string \<Rightarrow> version list kamara" where
  "ListVersions S caller i = bnd (authorize S caller i) (\<lambda>_. ListVersionRows i)"

definition LatestOrdinal :: "svc \<Rightarrow> subject \<Rightarrow> string \<Rightarrow> int kamara" where
  "LatestOrdinal S caller i =
    bnd (authorize S caller i) (\<lambda>_.
    bnd (MaxOrdinal i) (\<lambda>m.
    case m of None \<Rightarrow> fail ErrNotFound | Some n \<Rightarrow> ret n))"

definition ListFiles :: "svc \<Rightarrow> subject \<Rightarrow> object list kamara" where
  "ListFiles S caller = bnd (ListObjects (sv_fga S) caller AccessRelation FileType) ByIDs"

definition GetFile :: "svc \<Rightarrow> subject \<Rightarrow> string \<Rightarrow> object kamara" where
  "GetFile S caller i =
    bnd (authorize S caller i) (\<lambda>_.
    bnd (GetObject i) (\<lambda>x.
    case x of None \<Rightarrow> fail ErrNotFound | Some y \<Rightarrow> ret y))"

section \<open>Deletion\<close>

definition reclaimObject :: "string \<Rightarrow> string list kamara" where
  "reclaimObject i =
    bnd (ChunkHashesOf i) (\<lambda>hashes.
    bnd (DeleteObject i) (\<lambda>_.
    bnd (DecRef hashes) (\<lambda>orphans.
    bnd (DeleteChunks orphans) (\<lambda>_.
    ret orphans))))"

definition deleteTx :: "subject \<Rightarrow> string \<Rightarrow> (string option \<times> string list) kamara" where
  "deleteTx caller i =
    bnd (Emit caller ''kamara.file.deleted'' (auditObj FileType i (Permalink i))) (\<lambda>_.
    bnd (GetObject i) (\<lambda>x.
    bnd (reclaimObject i) (\<lambda>orphans.
    bnd (Remove i) (\<lambda>_.
    ret (case x of None \<Rightarrow> None | Some y \<Rightarrow> ob_FolderID y, orphans)))))"

definition unlinkFolder :: "svc \<Rightarrow> string option \<Rightarrow> string \<Rightarrow> unit kamara" where
  "unlinkFolder S folderID child = (case folderID of
     None \<Rightarrow> ret ()
   | Some f \<Rightarrow> ignore (DeleteObjectTuple (sv_fga S) (folderObj f) ParentRelation child))"

definition RevokeSessions :: "string \<Rightarrow> unit kamara" where
  "RevokeSessions i = wopiDeleteByObject i"

definition DeleteFile :: "svc \<Rightarrow> subject \<Rightarrow> string \<Rightarrow> unit kamara" where
  "DeleteFile S caller i =
    bnd (authorize S caller i) (\<lambda>_.
    bnd (InTx (deleteTx caller i)) (\<lambda>(folderID, orphans).
    bnd (foreach (\<lambda>h. ignore (bs_Delete (sv_blobs S) h)) orphans) (\<lambda>_.
    bnd (unlinkFolder S folderID (fileObj i)) (\<lambda>_.
    bnd (guarded (sv_revoker S) (ignore (RevokeSessions i))) (\<lambda>_.
    DeleteTuple (sv_fga S) caller Relation (fileObj i))))))"

end
