(* ===== verification/File_Laws.thy ===== *)
theory File_Laws
  imports File_Service
begin

text \<open>
  The consistency of the file service. \<open>consistent\<close> says of the blobs and the tables together: keys and
  foreign keys hold, every chunk row counts its manifest entries, every chunk row has a blob, every
  blob opens. The operations keep it under every fault schedule. The lemmas are proved for any blob
  store (locale \<open>file_store\<close>) and interpreted for the service on the file-system store.
\<close>

section \<open>The invariant\<close>

definition consistent :: "bool \<Rightarrow> svc \<Rightarrow> (string \<Rightarrow> bytes option) \<Rightarrow> kamara_db \<Rightarrow> bool" where
  "consistent ex S b d \<longleftrightarrow> good ex (dom b) noSlack d \<and> sound (sv_P S) (sv_cipher S) b"

definition svc_ok :: "svc \<Rightarrow> bool" where
  "svc_ok S \<longleftrightarrow> aead_ok (sv_P S) \<and> hash_ok (sv_P S) \<and> cipher_ok (sv_cipher S)"

lemma consistent_drop:
  assumes "consistent ex S b d" "h \<notin> dom (chunks d)"
  shows "consistent ex S (b(h := None)) d"
proof -
  have "dom (chunks d) \<subseteq> dom (b(h := None))" using assms by (fastforce simp: consistent_def good_def)
  moreover have "sound (sv_P S) (sv_cipher S) (b(h := None))" using assms(1) by (simp add: consistent_def sound_def)
  ultimately show ?thesis using assms(1) by (simp add: consistent_def good_def)
qed

section \<open>What the statements leave alone\<close>

lemma faultless_eqs [simp]:
  "faultless (\<lambda>w. w_fs w = f)" "faultless (\<lambda>w. w_db w = d)" "faultless (\<lambda>w. w_fga w = t)"
  "randless (\<lambda>w. w_fs w = f)" "randless (\<lambda>w. w_db w = d)" "randless (\<lambda>w. w_fga w = t)"
  by (simp_all add: faultless_def randless_def)

lemma tupleless_parts [simp]:
  "tupleless (\<lambda>w. P (w_db w))" "tupleless (\<lambda>w. w_fs w = f)" "tupleless (\<lambda>w. R (w_fs w) (w_db w))"
  by (simp_all add: tupleless_def faultless_def)

lemma keeps_InTx:
  assumes fn: "keeps I fn" and I: "faultless I" "\<And>w d. I (w\<lparr>w_db := d\<rparr>) = I w"
  shows "keeps I (InTx fn)"
proof (rule keepsI)
  fix w assume w: "I w"
  have pre: "I (w\<lparr>w_faults := fs\<rparr>)" for fs using w I(1) by (simp add: faultless_def)
  obtain r w' where r: "InTx fn w = (r, w')" by fastforce
  then have "I w'"
  proof (cases rule: InTx_outcome)
    case (committed x fs w1)
    then show ?thesis using keepsD2 [OF fn pre] I(1) by (auto simp: faultless_def)
  next
    case (lost x fs w1)
    then show ?thesis using keepsD2 [OF fn pre] I(1) by (auto simp: faultless_def)
  next
    case (undone e r' fs w1)
    then show ?thesis using keepsD2 [OF fn pre] I by (auto simp: faultless_def)
  next
    case (unbegun fs)
    then show ?thesis using pre by simp
  qed
  then show "I (snd (InTx fn w))" using r by simp
qed

lemma keeps_fs_InTx [keeps_rules]:
  "keeps (\<lambda>w. w_fs w = f) fn \<Longrightarrow> keeps (\<lambda>w. w_fs w = f) (InTx fn)"
  by (rule keeps_InTx) simp_all

lemma keeps_insertVersionRow:
  assumes "faultless I" "\<And>w d. I w \<Longrightarrow> addVersion v (w_now w) (w_db w) = Inr d \<Longrightarrow> I (w\<lparr>w_db := d\<rparr>)"
  shows "keeps I (insertVersionRow v)"
proof (rule keepsI)
  fix w assume w: "I w"
  have pre: "I (w\<lparr>w_faults := fs\<rparr>)" for fs using w assms(1) by (simp add: faultless_def)
  obtain r w' where r: "insertVersionRow v w = (r, w')" by fastforce
  have "I w'" if "execRaw (addVersion v) (w\<lparr>w_faults := fs\<rparr>) = (r', w')" for fs r'
    using that pre [of fs] assms(2) [of "w\<lparr>w_faults := fs\<rparr>"] by (auto simp: execRaw_def split: sum.splits)
  then show "I (snd (insertVersionRow v w))" using insertVersionRow_cases [OF r] pre r by auto
qed

lemma keeps_fs_exec [keeps_rules]: "keeps (\<lambda>w. w_fs w = f) (exec g)"
  by (rule keeps_exec) simp_all

lemma keeps_fs_query [keeps_rules]: "keeps (\<lambda>w. w_fs w = f) (query g)"
  by (rule keeps_query) simp

lemma keeps_fs_conv [keeps_rules]:
  "keeps (\<lambda>w. w_fs w = f) (Emit a b c)" "keeps (\<lambda>w. w_fs w = f) (Feed doc)" "keeps (\<lambda>w. w_fs w = f) (Remove i)"
  by (intro keeps_Emit keeps_Feed keeps_Remove aside_fs)+

lemma keeps_fs_InsertVersion [keeps_rules]: "keeps (\<lambda>w. w_fs w = f) (InsertVersion a b n s rs)"
proof -
  have "keeps (\<lambda>w. w_fs w = f) (insertVersionRow v)" for v :: version
    by (rule keeps_insertVersionRow) simp_all
  then show ?thesis
    unfolding InsertVersion_def insertRef_def upsertChunk_def insertManifest_def
    by (intro keeps_rules)
qed

lemma keeps_retry [keeps_rules]: "keeps I m \<Longrightarrow> keeps I (retry n m)"
  by (induction n) (auto intro!: keeps_rules)

text \<open>What every save keeps, the winners of a race keep.\<close>

lemma progressing_bytesReader [simp]: "progressing (bytesReader x)"
  by (simp add: progressing_def bytesReader_def)

lemma keeps_contended:
  assumes "faultless I" "\<And>rv. keeps I (rivalSave V i rv)" "keeps I m"
  shows "keeps I (contended V i m)"
proof -
  have each: "keeps I (foreach (\<lambda>rv. ignore (rivalSave V i rv)) rvs)" for rvs
    by (intro keeps_rules assms(2))
  have "keeps I (rivals V i)"
    by (rule keepsI) (use assms(1) keepsD [OF each] in \<open>auto simp: rivals_def faultless_def split: list.split fault.split\<close>)
  with assms(3) show ?thesis unfolding contended_def by (intro keeps_rules)
qed

lemma keeps_rivalSave:
  assumes "keeps I (Ingest (sv_P V) (sv_blobs V) (sv_cipher V) (bytesReader (rv_Content rv)))"
    "\<And>u. keeps I (authorize V u i)" "\<And>u tot rs. keeps I (writeAttempt u i None tot rs)"
  shows "keeps I (rivalSave V i rv)"
  unfolding rivalSave_def by (intro keeps_rules assms)

lemma keeps_fs_reclaim [keeps_rules]: "keeps (\<lambda>w. w_fs w = f) (reclaimObject i)"
  unfolding reclaimObject_def ChunkHashesOf_def DeleteObject_def DecRef_def decOne_def DeleteChunks_def
  by (intro keeps_rules)

lemma keeps_fs_txs [keeps_rules]:
  "keeps (\<lambda>w. w_fs w = f) (uploadTx owner x v tot rs)"
  "keeps (\<lambda>w. w_fs w = f) (writeTx caller i v base tot rs)"
  "keeps (\<lambda>w. w_fs w = f) (deleteTx caller i)"
  unfolding uploadTx_def InsertObject_def writeTx_def MaxOrdinal_def SetObjectSize_def deleteTx_def GetObject_def
  by (intro keeps_rules)+

lemma keeps_authorize [keeps_rules]:
  assumes "faultless I"
  shows "keeps I (authorizeAccess V u x)" "keeps I (authorize V u i)" "keeps I (authorizeFolder V u i)"
    "keeps I (authorizeFolderOpt V u f)"
  unfolding authorize_def authorizeFolderOpt_def authorizeFolder_def authorizeAccess_def
  by (intro keeps_rules assms)+

lemma keeps_link [keeps_rules]:
  "tupleless I \<Longrightarrow> keeps I (linkFolder V f x)" "tupleless I \<Longrightarrow> keeps I (unlinkFolder V f x)"
  unfolding linkFolder_def unlinkFolder_def by (intro keeps_rules; assumption)+

lemma keeps_good_InTx:
  assumes "hoare (\<lambda>w. good ex X noSlack (w_db w)) fn (\<lambda>_ w. good ex X noSlack (w_db w)) (\<lambda>_ _. True)"
    "\<And>f. keeps (\<lambda>w. w_fs w = f) fn"
  shows "keeps (\<lambda>w. good ex X noSlack (w_db w)) (InTx fn)"
  unfolding keeps_def
  by (rule hoare_conseq [OF hoare_InTx [where R = "\<lambda>_ d. good ex X noSlack d" and Q = "\<lambda>_ _ _. True", OF _ assms(2)]])
    (use assms(1) in auto)

section \<open>The transactions\<close>

lemma good_Upload_tx:
  assumes "\<And>ref. ref \<in> set rs \<Longrightarrow> cr_Hash ref \<in> X"
  shows "keeps (\<lambda>w. good ex X noSlack (w_db w)) (InTx (uploadTx owner x v tot rs))"
proof (rule keeps_good_InTx)
  have obj: "hoare (\<lambda>w. good ex X noSlack (w_db w)) (InsertObject x) (\<lambda>_ w. good ex X noSlack (w_db w)) (\<lambda>_ _. True)"
    by (rule hoare_conseq [OF good_InsertObject]) auto
  show "hoare (\<lambda>w. good ex X noSlack (w_db w)) (uploadTx owner x v tot rs)
      (\<lambda>_ w. good ex X noSlack (w_db w)) (\<lambda>_ _. True)"
    unfolding uploadTx_def
    by (intro hoare_bnd [OF obj] hoare_bnd [OF good_InsertVersion]
        hoare_bnd [OF hoare_keeps_true] hoare_keeps_true keeps_good_conv) (simp_all add: assms)
  show "keeps (\<lambda>w. w_fs w = f) (uploadTx owner x v tot rs)" for f by (rule keeps_fs_txs)
qed

text \<open>An update of an object's own fields keeps the tables.\<close>

lemma good_keep_folders:
  assumes g: "good ex X s d" and f: "\<And>x. ob_ID (f x) = ob_ID x" "\<And>x. ob_FolderID (f x) = ob_FolderID x"
  shows "good ex X s (updObject i f d)"
proof -
  let ?u = "\<lambda>x. if ob_ID x = i then f x else x"
  have ids: "map ob_ID (map ?u (objects d)) = map ob_ID (objects d)" by (rule map_upd_ids) (rule f)
  then have img: "ob_ID ` set (map ?u (objects d)) = ob_ID ` set (objects d)" by (metis list.set_map)
  have "hasFolder d (ob_FolderID y)" if "y \<in> set (map ?u (objects d))" for y
    using that g f by (auto simp: good_def tables_ok_def split: if_splits)
  then have "tables_ok (updObject i f d)"
    using g ids img unfolding good_def updObject_def tables_ok_def by (simp del: map_map set_map)
  then show ?thesis using g by (simp add: good_def) (simp add: updObject_def)
qed

lemma good_SetObjectSize: "hoare (\<lambda>w. good ex X s (w_db w)) (SetObjectSize i n) (\<lambda>_ w. good ex X s (w_db w)) (\<lambda>_ _. True)"
  unfolding SetObjectSize_def
  by (rule hoare_db) (auto intro!: good_keep_folders)

lemma good_Write_tx:
  assumes "\<And>ref. ref \<in> set rs \<Longrightarrow> cr_Hash ref \<in> X"
  shows "keeps (\<lambda>w. good ex X noSlack (w_db w)) (InTx (writeTx caller i v base tot rs))"
proof (rule keeps_good_InTx)
  let ?G = "\<lambda>w. good ex X noSlack (w_db w)"
  have ins: "hoare ?G (bnd (InsertVersion i v (m + 1) tot rs) (\<lambda>_. bnd (SetObjectSize i tot) (\<lambda>_.
      bnd (Emit caller ''kamara.file.version_written'' (auditObj FileType i (Permalink i))) (\<lambda>_. ret (m + 1)))))
      (\<lambda>_. ?G) (\<lambda>_ _. True)" for m
    by (intro hoare_bnd [OF good_InsertVersion] hoare_bnd [OF good_SetObjectSize] hoare_bnd [OF hoare_keeps_true]
        hoare_keeps_true keeps_good_conv keeps_ret) (simp_all add: assms)
  have max: "hoare ?G (MaxOrdinal i) (\<lambda>_. ?G) (\<lambda>_ _. True)"
    unfolding MaxOrdinal_def by (rule hoare_conseq [OF hoare_query]) auto
  have fl: "hoare ?G (fail e) (\<lambda>_. ?G) (\<lambda>_ _. True)" for e by (simp add: hoare_def run)
  show "hoare ?G (writeTx caller i v base tot rs) (\<lambda>_. ?G) (\<lambda>_ _. True)"
    unfolding writeTx_def by (rule hoare_bnd [OF max]) (auto split: option.split simp: fl ins)
  show "keeps (\<lambda>w. w_fs w = f) (writeTx caller i v base tot rs)" for f by (rule keeps_fs_txs)
qed

lemma hoare_reclaimObject:
  "hoare (\<lambda>w. good ex X noSlack (w_db w)) (reclaimObject i)
     (\<lambda>os w. good ex X noSlack (w_db w) \<and> set os \<inter> dom (chunks (w_db w)) = {}) (\<lambda>_ _. True)"
proof -
  have del: "hoare (\<lambda>w. good ex X noSlack (w_db w) \<and> hs = hashesOf (w_db w) i) (DeleteObject i)
      (\<lambda>_ w. giving ex X hs (remdups hs) (w_db w)) (\<lambda>_ _. True)" for hs
    unfolding DeleteObject_def by (rule hoare_db) (auto intro: giving_start)
  have last: "hoare (\<lambda>w. given ex X os (w_db w)) (bnd (DeleteChunks os) (\<lambda>_. ret os))
     (\<lambda>os w. good ex X noSlack (w_db w) \<and> set os \<inter> dom (chunks (w_db w)) = {}) (\<lambda>_ _. True)" for os
    by (rule hoare_bnd [OF hoare_DeleteChunks]) (simp add: hoare_def run)
  show ?thesis
    unfolding reclaimObject_def ChunkHashesOf_def
    by (intro hoare_bnd [OF hoare_query] hoare_bnd [OF del] hoare_bnd [OF hoare_DecRef] last)
qed

lemma hoare_Remove_apart:
  "hoare (\<lambda>w. good ex X s (w_db w) \<and> set os \<inter> dom (chunks (w_db w)) = {}) (Remove i)
     (\<lambda>_ w. good ex X s (w_db w) \<and> set os \<inter> dom (chunks (w_db w)) = {}) (\<lambda>_ _. True)"
proof -
  have "aside (\<lambda>w :: kamara_db world. set os \<inter> dom (chunks (w_db w)) = {})"
    by (simp add: aside_def convless_def pseudless_def faultless_def randless_def)
  then show ?thesis by (intro hoare_keeps_true keeps_conj keeps_good_conv keeps_Remove)
qed

lemma good_Delete_tx:
  "hoare (\<lambda>w. good ex X noSlack (w_db w)) (InTx (deleteTx caller i))
     (\<lambda>r w. good ex X noSlack (w_db w) \<and> set (snd r) \<inter> dom (chunks (w_db w)) = {})
     (\<lambda>_ w. good ex X noSlack (w_db w))"
proof -
  have get: "hoare (\<lambda>w. good ex X noSlack (w_db w)) (GetObject i) (\<lambda>_ w. good ex X noSlack (w_db w)) (\<lambda>_ _. True)"
    unfolding GetObject_def by (rule hoare_conseq [OF hoare_query]) auto
  have "hoare (\<lambda>w. good ex X noSlack (w_db w)) (deleteTx caller i)
     (\<lambda>r w. good ex X noSlack (w_db w) \<and> set (snd r) \<inter> dom (chunks (w_db w)) = {}) (\<lambda>_ _. True)"
    unfolding deleteTx_def
    by (intro hoare_bnd [OF hoare_keeps_true [OF keeps_good_conv(1)]] hoare_bnd [OF get]
        hoare_bnd [OF hoare_reclaimObject] hoare_bnd [OF hoare_Remove_apart]) (simp add: hoare_def run)
  then show ?thesis
    by (intro hoare_InTx [where R = "\<lambda>_ d. good ex X noSlack d" and Q = "\<lambda>r _ d. set (snd r) \<inter> dom (chunks d) = {}"] keeps_fs_txs)
qed

section \<open>The operations on any blob store\<close>

locale file_store = blob_interface S blobs valid clean
  for S :: "kamara_db blob_store" and blobs :: "kamara_db world \<Rightarrow> string \<Rightarrow> bytes option"
    and valid :: "string \<Rightarrow> bool" and clean :: "kamara_db world \<Rightarrow> bool" +
  fixes V :: svc
  assumes backed: "sv_blobs V = S"
begin

lemma hoare_consistent:
  assumes "\<And>X. hoare (\<lambda>w. good ex X noSlack (w_db w)) m (\<lambda>x w. good ex X noSlack (w_db w) \<and> Q x (w_db w))
      (\<lambda>_ w. good ex X noSlack (w_db w))"
    and fs: "\<And>f. keeps (\<lambda>w. w_fs w = f) m"
  shows "hoare (\<lambda>w. consistent ex V (blobs w) (w_db w)) m
    (\<lambda>x w. consistent ex V (blobs w) (w_db w) \<and> Q x (w_db w)) (\<lambda>_ w. consistent ex V (blobs w) (w_db w))"
proof (rule hoareI)
  fix w x w' assume c: "consistent ex V (blobs w) (w_db w)" and r: "m w = (Inr x, w')"
  have "w_fs w' = w_fs w" using keepsD2 [OF fs _ r] by simp
  then have "blobs w' = blobs w" by (rule blobs_frame)
  then show "consistent ex V (blobs w') (w_db w') \<and> Q x (w_db w')"
    using c hoareD(1) [OF assms(1) _ r, of "dom (blobs w)"] by (simp add: consistent_def)
next
  fix w e w' assume c: "consistent ex V (blobs w) (w_db w)" and r: "m w = (Inl e, w')"
  have "w_fs w' = w_fs w" using keepsD2 [OF fs _ r] by simp
  then have "blobs w' = blobs w" by (rule blobs_frame)
  then show "consistent ex V (blobs w') (w_db w')"
    using c hoareD(2) [OF assms(1) _ r, of "dom (blobs w)"] by (simp add: consistent_def)
qed

lemma keeps_consistent:
  assumes "\<And>X. keeps (\<lambda>w. good ex X noSlack (w_db w)) m" "\<And>f. keeps (\<lambda>w. w_fs w = f) m"
  shows "keeps (\<lambda>w. consistent ex V (blobs w) (w_db w)) m"
  unfolding keeps_def
  by (rule hoare_conseq [OF hoare_consistent [where Q = "\<lambda>_ _. True"]])
    (use assms in \<open>auto simp: keeps_def\<close>)

text \<open>A consistent state in which some hashes have their blobs: an ingest adds those of the references
  it returns, a transaction over such references keeps it.\<close>

definition stocked :: "bool \<Rightarrow> string set \<Rightarrow> kamara_db world \<Rightarrow> bool" where
  "stocked ex K w \<longleftrightarrow> consistent ex V (blobs w) (w_db w) \<and> K \<subseteq> dom (blobs w)"

lemma stocked_free: "faultless (stocked ex K)" "randless (stocked ex K)" "tupleless (stocked ex K)"
proof -
  have eq: "stocked ex K w' = stocked ex K w" if "w_fs w' = w_fs w" "w_db w' = w_db w" for w w'
    using blobs_frame [OF that(1)] that(2) by (simp add: stocked_def)
  show "faultless (stocked ex K)" "randless (stocked ex K)" "tupleless (stocked ex K)"
    unfolding faultless_def randless_def tupleless_def by (intro conjI allI eq; simp)+
qed

lemma hoare_Ingest:
  assumes ok: "svc_ok V" and r: "progressing r"
  shows "hoare (stocked ex K) (Ingest (sv_P V) (sv_blobs V) (sv_cipher V) r)
    (\<lambda>(rs, tot). stocked ex (K \<union> cr_Hash ` set rs)) (\<lambda>_. stocked ex K)"
proof -
  have st: "stocked ex K w1" if c: "stocked ex K w" and i: "Ingest (sv_P V) S (sv_cipher V) r w = (res, w1)" for w res w1
  proof -
    note sp = Ingest_spec [OF r i]
    have db: "w_db w1 = w_db w" using sp(1) by (simp add: blob_frame_def)
    have m: "dom (blobs w) \<subseteq> dom (blobs w1)" using grows_kept [OF sp(2)] by blast
    then have "good ex (dom (blobs w1)) noSlack (w_db w1)"
      using c db by (simp add: stocked_def consistent_def good_def) (blast dest: subset_trans)
    moreover have "sound (sv_P V) (sv_cipher V) (blobs w1)"
      using grows_sound [OF _ _ sp(2)] ok c by (simp add: svc_ok_def stocked_def consistent_def)
    ultimately show ?thesis using m c by (simp add: stocked_def consistent_def) (blast dest: subset_trans)
  qed
  show ?thesis
  proof (rule hoareI)
    fix w y w1 assume c: "stocked ex K w" and i: "Ingest (sv_P V) (sv_blobs V) (sv_cipher V) r w = (Inr y, w1)"
    obtain rs tot where y: "y = (rs, tot)" by fastforce
    have "cr_Hash ref \<in> dom (blobs w1)" if "ref \<in> set rs" for ref
      using Ingest_spec(3) [OF r i [unfolded backed], of rs tot] y that by (auto simp: manifest_def)
    then show "(case y of (rs, tot) \<Rightarrow> stocked ex (K \<union> cr_Hash ` set rs)) w1"
      using st [OF c i [unfolded backed]] y by (auto simp: stocked_def)
  next
    fix w e w1 assume "stocked ex K w" "Ingest (sv_P V) (sv_blobs V) (sv_cipher V) r w = (Inl e, w1)"
    then show "stocked ex K w1" using st backed by simp
  qed
qed

lemma keeps_stocked:
  assumes g: "\<And>X. K \<subseteq> X \<Longrightarrow> keeps (\<lambda>w. good ex X noSlack (w_db w)) m" and fs: "\<And>f. keeps (\<lambda>w. w_fs w = f) m"
  shows "keeps (stocked ex K) m"
proof (rule keepsI)
  fix w assume c: "stocked ex K w"
  obtain r w1 where r: "m w = (r, w1)" by fastforce
  have b: "blobs w1 = blobs w" by (rule blobs_frame) (use keepsD2 [OF fs _ r] in simp)
  have "good ex (dom (blobs w)) noSlack (w_db w1)"
    using keepsD2 [OF g _ r] c by (simp add: stocked_def consistent_def)
  with b c r show "stocked ex K (snd (m w))" by (simp add: stocked_def consistent_def)
qed

lemma keeps_Ingest_then:
  assumes "svc_ok V" "progressing r"
    and g: "\<And>rs tot. keeps (stocked ex (K \<union> cr_Hash ` set rs)) (g (rs, tot))"
  shows "keeps (stocked ex K) (bnd (Ingest (sv_P V) (sv_blobs V) (sv_cipher V) r) g)"
proof -
  have "hoare (case y of (rs, tot) \<Rightarrow> stocked ex (K \<union> cr_Hash ` set rs)) (g y) (\<lambda>_. stocked ex K) (\<lambda>_. stocked ex K)" for y
  proof -
    obtain rs tot where y: "y = (rs, tot)" by fastforce
    show ?thesis
      unfolding y prod.case by (rule hoare_conseq [OF g [unfolded keeps_def]]) (auto simp: stocked_def)
  qed
  then show ?thesis unfolding keeps_def by (rule hoare_bnd [OF hoare_Ingest [OF assms(1,2)]])
qed

lemma consistent_stocked: "keeps (stocked ex {}) m \<Longrightarrow> keeps (\<lambda>w. consistent ex V (blobs w) (w_db w)) m"
  by (simp add: stocked_def [abs_def])

lemma Upload_consistent:
  assumes "svc_ok V" "progressing r"
  shows "keeps (\<lambda>w. consistent ex V (blobs w) (w_db w)) (Upload V owner folderID name r)"
proof -
  have chk: "keeps (stocked ex {}) (authorizeFolderOpt V owner folderID)"
    by (intro keeps_authorize stocked_free(1))
  show ?thesis
    unfolding Upload_def Let_def
    by (rule consistent_stocked)
      (intro keeps_if keeps_fail keeps_bnd [OF chk] keeps_Ingest_then assms,
        auto intro!: keeps_stocked keeps_rules good_Upload_tx simp: linkFolder_def stocked_free)
qed

lemma stocked_writeAttempt:
  "cr_Hash ` set rs \<subseteq> K \<Longrightarrow> keeps (stocked ex K) (writeAttempt caller i base tot rs)"
  unfolding writeAttempt_def by (rule keeps_stocked) (auto intro!: keeps_rules good_Write_tx)

lemma stocked_rivalSave:
  assumes "svc_ok V"
  shows "keeps (stocked ex K) (rivalSave V i rv)"
  unfolding rivalSave_def Let_def
  by (intro keeps_bnd [OF keeps_authorize(2) [OF stocked_free(1)]] keeps_Ingest_then assms progressing_bytesReader)
    (auto intro!: stocked_writeAttempt)

lemma writeVersion_consistent:
  assumes "svc_ok V" "progressing r"
  shows "keeps (\<lambda>w. consistent ex V (blobs w) (w_db w)) (writeVersion V caller i r base)"
  unfolding writeVersion_def
  by (rule consistent_stocked)
    (intro keeps_bnd [OF keeps_authorize(2) [OF stocked_free(1)]] keeps_Ingest_then assms,
      auto intro!: keeps_rules keeps_contended stocked_free(1) stocked_rivalSave stocked_writeAttempt assms)

text \<open>Deleting the blobs of hashes without a chunk row.\<close>

lemma keeps_Delete_orphan:
  assumes "h \<in> set os"
  shows "keeps (\<lambda>w. consistent ex V (blobs w) (w_db w) \<and> set os \<inter> dom (chunks (w_db w)) = {})
    (ignore (bs_Delete (sv_blobs V) h))"
proof (intro keeps_ignore keepsI)
  fix w assume c: "consistent ex V (blobs w) (w_db w) \<and> set os \<inter> dom (chunks (w_db w)) = {}"
  obtain r w' where d: "bs_Delete S h w = (r, w')" by fastforce
  have db: "w_db w' = w_db w" using Delete_frame [OF d] by (simp add: blob_frame_def)
  have "h \<notin> dom (chunks (w_db w))" using c assms by blast
  then show "consistent ex V (blobs (snd (bs_Delete (sv_blobs V) h w))) (w_db (snd (bs_Delete (sv_blobs V) h w))) \<and>
      set os \<inter> dom (chunks (w_db (snd (bs_Delete (sv_blobs V) h w)))) = {}"
    using c d db Delete_effect [OF d] backed consistent_drop [of ex V "blobs w" "w_db w" h] by auto
qed

lemma good_dropSessions: "good ex X s (dropSessions P d) = good ex X s d"
  by (simp add: dropSessions_def good_def)

lemma consistent_wopi [simp]: "consistent ex V b (dropSessions P d) = consistent ex V b d"
  by (simp add: consistent_def good_dropSessions)

lemma DeleteFile_consistent:
  "keeps (\<lambda>w. consistent ex V (blobs w) (w_db w)) (DeleteFile V caller i)"
proof -
  let ?I = "\<lambda>w. consistent ex V (blobs w) (w_db w)"
  have chk: "keeps ?I (authorize V caller i)"
    by (rule keeps_consistent) (auto intro!: keeps_rules)
  have tail: "keeps ?I (bnd (unlinkFolder V f (fileObj i)) (\<lambda>_. bnd (guarded (sv_revoker V) (ignore (RevokeSessions i))) (\<lambda>_.
      DeleteTuple (sv_fga V) caller Relation (fileObj i))))" for f
    by (rule keeps_consistent)
      (auto intro!: keeps_rules simp: unlinkFolder_def RevokeSessions_def wopiDeleteByObject_def good_dropSessions)
  have tx: "hoare ?I (InTx (deleteTx caller i))
      (\<lambda>r w. ?I w \<and> set (snd r) \<inter> dom (chunks (w_db w)) = {}) (\<lambda>_. ?I)"
    by (rule hoare_consistent [OF good_Delete_tx]) (intro keeps_rules)
  have del: "hoare (\<lambda>w. ?I w \<and> set os \<inter> dom (chunks (w_db w)) = {})
      (foreach (\<lambda>h. ignore (bs_Delete (sv_blobs V) h)) os) (\<lambda>_. ?I) (\<lambda>_. ?I)" for os
    by (rule hoare_conseq [OF keeps_foreach [OF keeps_Delete_orphan, unfolded keeps_def]]) auto
  have "hoare (\<lambda>w. ?I w \<and> set (snd p) \<inter> dom (chunks (w_db w)) = {})
      (case p of (f, os) \<Rightarrow> bnd (foreach (\<lambda>h. ignore (bs_Delete (sv_blobs V) h)) os) (\<lambda>_.
        bnd (unlinkFolder V f (fileObj i)) (\<lambda>_. bnd (guarded (sv_revoker V) (ignore (RevokeSessions i))) (\<lambda>_.
        DeleteTuple (sv_fga V) caller Relation (fileObj i))))) (\<lambda>_. ?I) (\<lambda>_. ?I)" for p
    using hoare_bnd [OF del tail [unfolded keeps_def]] by (cases p) simp
  then show ?thesis
    unfolding DeleteFile_def by (intro keeps_bnd [OF chk]) (auto simp: keeps_def intro: hoare_bnd [OF tx])
qed

end

end
