(* ===== verification/File_Effects.thy ===== *)
theory File_Effects
  imports File_Laws
begin

text \<open>
  What the operations of the file service do to the tables when they return, under every fault
  schedule: the rows an upload and a save-back write, the version an object then shows, and the
  rows a deletion removes.
\<close>

section \<open>Runs that return\<close>

lemma exec_Inr:
  assumes "exec f w = (Inr x, w')"
  obtains fs d where "f (w_now w) (w_db w) = Inr d" "w' = w\<lparr>w_faults := fs, w_db := d\<rparr>"
  using assms unfolding exec_def
  by (cases rule: call_cases) (auto simp: execRaw_def split: sum.splits)

lemma query_Inr:
  assumes "query f w = (Inr x, w')"
  obtains fs where "x = f (w_db w)" "w' = w\<lparr>w_faults := fs\<rparr>"
  using query_outcome [OF assms] by auto

lemma insertVersionRow_Inr:
  assumes "insertVersionRow v w = (Inr x, w')"
  obtains fs d where "addVersion v (w_now w) (w_db w) = Inr d" "w' = w\<lparr>w_faults := fs, w_db := d\<rparr>"
  using insertVersionRow_cases [OF assms]
  by (cases "addVersion v (w_now w) (w_db w)") (auto simp: execRaw_def)

lemma InTx_Inr:
  assumes "InTx fn w = (Inr x, w')"
  obtains fs fs' w1 where "fn (w\<lparr>w_faults := fs\<rparr>) = (Inr x, w1)" "w' = w1\<lparr>w_faults := fs'\<rparr>"
  using assms by (cases rule: InTx_outcome) auto

lemma catch_Inr:
  assumes "catch m (\<lambda>e. fail (g e)) w = (Inr x, w')"
  shows "m w = (Inr x, w')"
  using assms by (auto simp: catch_def fail_apply split: prod.splits sum.splits)

section \<open>Writing a version\<close>

definition manifestFor :: "string \<Rightarrow> nat \<Rightarrow> chunk_ref list \<Rightarrow> vchunk list" where
  "manifestFor v k rs = map (\<lambda>(i, ref). \<lparr>vc_Version = v, vc_Idx = i, vc_Hash = cr_Hash ref\<rparr>) (zip [k..<k + length rs] rs)"

text \<open>The world a version leaves behind: two tables grow at the end, chunk rows appear, the rest stays.\<close>

definition wroteChunks :: "vchunk list \<Rightarrow> string set \<Rightarrow> kamara_db world \<Rightarrow> kamara_db world \<Rightarrow> bool" where
  "wroteChunks vcs hs w w' \<longleftrightarrow>
     version_chunks (w_db w') = version_chunks (w_db w) @ vcs \<and> dom (chunks (w_db w')) = dom (chunks (w_db w)) \<union> hs \<and>
     versions (w_db w') = versions (w_db w) \<and> objects (w_db w') = objects (w_db w) \<and> folders (w_db w') = folders (w_db w) \<and>
     w_now w' = w_now w \<and> w_fs w' = w_fs w \<and> w_fga w' = w_fga w"

lemma insertRef_effect:
  assumes "insertRef v (i, ref) w = (Inr x, w')"
  shows "wroteChunks [\<lparr>vc_Version = v, vc_Idx = i, vc_Hash = cr_Hash ref\<rparr>] {cr_Hash ref} w w'"
proof -
  obtain w1 where u: "upsertChunk ref w = (Inr (), w1)" and m: "insertManifest v i (cr_Hash ref) w1 = (Inr x, w')"
    using assms by (auto simp: insertRef_def elim: bnd_InrE)
  from u have "wroteChunks [] {cr_Hash ref} w w1"
    unfolding upsertChunk_def by (rule exec_Inr) (auto simp: wroteChunks_def)
  moreover from m have "wroteChunks [\<lparr>vc_Version = v, vc_Idx = i, vc_Hash = cr_Hash ref\<rparr>] {} w1 w'"
    unfolding insertManifest_def by (rule exec_Inr) (auto simp: wroteChunks_def split: if_splits)
  ultimately show ?thesis by (auto simp: wroteChunks_def)
qed

lemma insertRefs_effect:
  "foreach (insertRef v) (zip [k..<k + length rs] rs) w = (Inr x, w') \<Longrightarrow>
   wroteChunks (manifestFor v k rs) (cr_Hash ` set rs) w w'"
proof (induction rs arbitrary: k w)
  case Nil
  then show ?case by (auto simp: run wroteChunks_def manifestFor_def)
next
  case (Cons ref rs)
  have z: "zip [k..<k + length (ref # rs)] (ref # rs) = (k, ref) # zip [Suc k..<Suc k + length rs] rs"
    by (simp add: upt_conv_Cons del: upt_Suc)
  obtain w1 where a: "insertRef v (k, ref) w = (Inr (), w1)"
    and b: "foreach (insertRef v) (zip [Suc k..<Suc k + length rs] rs) w1 = (Inr x, w')"
    using Cons.prems unfolding z by (auto elim: bnd_InrE)
  show ?case
    using insertRef_effect [OF a] Cons.IH [OF b]
    by (auto simp: wroteChunks_def manifestFor_def upt_conv_Cons simp del: upt_Suc)
qed

definition newVersion :: "string \<Rightarrow> string \<Rightarrow> int \<Rightarrow> int \<Rightarrow> int \<Rightarrow> version" where
  "newVersion ob v n sz now = \<lparr>ve_ID = v, ve_Object = ob, ve_Ordinal = n, ve_Size = sz, ve_Created = now\<rparr>"

lemma InsertVersion_effect:
  assumes "InsertVersion ob v n sz rs w = (Inr x, w')"
  shows "\<exists>d. v \<notin> ve_ID ` set (versions (w_db w)) \<and> ob \<in> ob_ID ` set (objects (w_db w)) \<and>
    d = (w_db w)\<lparr>versions := versions (w_db w) @ [newVersion ob v n sz (w_now w)]\<rparr> \<and>
    wroteChunks (manifestFor v 0 rs) (cr_Hash ` set rs) (w\<lparr>w_db := d\<rparr>) w'"
proof -
  obtain w1 where a: "insertVersionRow \<lparr>ve_ID = v, ve_Object = ob, ve_Ordinal = n, ve_Size = sz, ve_Created = 0\<rparr> w = (Inr (), w1)"
    and b: "foreach (insertRef v) (zip [0..<0 + length rs] rs) w1 = (Inr x, w')"
    using assms by (auto simp: InsertVersion_def elim!: bnd_InrE dest!: catch_Inr)
  from a obtain fs d where d: "addVersion \<lparr>ve_ID = v, ve_Object = ob, ve_Ordinal = n, ve_Size = sz, ve_Created = 0\<rparr> (w_now w) (w_db w) = Inr d"
    and w1: "w1 = w\<lparr>w_faults := fs, w_db := d\<rparr>" by (rule insertVersionRow_Inr)
  have "v \<notin> ve_ID ` set (versions (w_db w)) \<and> ob \<in> ob_ID ` set (objects (w_db w)) \<and>
      d = (w_db w)\<lparr>versions := versions (w_db w) @ [newVersion ob v n sz (w_now w)]\<rparr>"
    using d by (auto simp: addVersion_def newVersion_def split: if_splits)
  then show ?thesis using insertRefs_effect [OF b] w1 by (auto simp: wroteChunks_def)
qed

section \<open>Reading the latest version\<close>

lemma latestVersion_Some:
  "latestVersion d i = Some v \<longleftrightarrow>
     (case sort_key (\<lambda>v. - ve_Ordinal v) (filter (\<lambda>v. ve_Object v = i) (versions d)) of [] \<Rightarrow> False | u # _ \<Rightarrow> u = v)"
  by (simp add: latestVersion_def split: list.split)

lemma latestVersion_D:
  assumes "latestVersion d i = Some v"
  shows "v \<in> set (versions d)" "ve_Object v = i"
    "u \<in> set (versions d) \<Longrightarrow> ve_Object u = i \<Longrightarrow> ve_Ordinal u \<le> ve_Ordinal v"
proof -
  let ?vs = "sort_key (\<lambda>v. - ve_Ordinal v) (filter (\<lambda>v. ve_Object v = i) (versions d))"
  obtain us where us: "?vs = v # us" using assms by (auto simp: latestVersion_Some split: list.splits)
  have "set ?vs = {v \<in> set (versions d). ve_Object v = i}" by simp
  then show "v \<in> set (versions d)" "ve_Object v = i" using us by auto
  assume "u \<in> set (versions d)" "ve_Object u = i"
  then have "u \<in> set ?vs" by simp
  moreover have "sorted (map (\<lambda>v. - ve_Ordinal v) ?vs)" by (rule sorted_sort_key)
  ultimately show "ve_Ordinal u \<le> ve_Ordinal v" using us by auto
qed

lemma latestVersion_None: "latestVersion d i = None \<longleftrightarrow> (\<forall>v \<in> set (versions d). ve_Object v \<noteq> i)"
proof -
  have "latestVersion d i = None \<longleftrightarrow> sort_key (\<lambda>v. - ve_Ordinal v) (filter (\<lambda>v. ve_Object v = i) (versions d)) = []"
    unfolding latestVersion_def by (simp split: list.split)
  also have "\<dots> \<longleftrightarrow> set (sort_key (\<lambda>v. - ve_Ordinal v) (filter (\<lambda>v. ve_Object v = i) (versions d))) = {}"
    by (simp only: set_empty)
  finally show ?thesis by (auto simp: filter_empty_conv)
qed

lemma latestVersion_eq:
  assumes "v \<in> set (versions d)" "ve_Object v = i"
    and "\<And>u. u \<in> set (versions d) \<Longrightarrow> ve_Object u = i \<Longrightarrow> u \<noteq> v \<Longrightarrow> ve_Ordinal u < ve_Ordinal v"
  shows "latestVersion d i = Some v"
proof (cases "latestVersion d i")
  case None
  then show ?thesis using assms(1,2) by (auto simp: latestVersion_None)
next
  case (Some u)
  then show ?thesis using latestVersion_D [OF Some] assms by force
qed

text \<open>A version appended with an ordinal above the others is the latest, and its manifest is read back.\<close>

lemma latestVersion_append:
  assumes "versions d' = versions d @ [v]" "ve_Object v = i"
    and "\<And>u. u \<in> set (versions d) \<Longrightarrow> ve_Object u = i \<Longrightarrow> ve_Ordinal u < ve_Ordinal v"
  shows "latestVersion d' i = Some v"
  by (rule latestVersion_eq) (use assms in auto)

lemma map_filter_rows:
  "(\<And>x. x \<in> set xs \<Longrightarrow> chunks d (vc_Hash x) \<noteq> None) \<Longrightarrow>
   map cr_Hash (List.map_filter (\<lambda>vc. case chunks d (vc_Hash vc) of
      None \<Rightarrow> None | Some c \<Rightarrow> Some \<lparr>cr_Hash = vc_Hash vc, cr_Size = ck_Size c\<rparr>) xs) = map vc_Hash xs"
proof (induction xs)
  case (Cons a xs)
  then obtain c where "chunks d (vc_Hash a) = Some c" by fastforce
  with Cons show ?case by (simp add: List.map_filter_def)
qed (simp add: List.map_filter_def)

lemma manifestRows_read:
  assumes t: "tables_ok d" and v: "v \<notin> ve_ID ` set (versions d)"
    and vcs: "version_chunks d' = version_chunks d @ manifestFor v 0 rs"
    and ch: "cr_Hash ` set rs \<subseteq> dom (chunks d')"
  shows "map cr_Hash (manifestRows d' v) = map cr_Hash rs"
proof -
  have "filter (\<lambda>vc. vc_Version vc = v) (version_chunks d) = []"
    using tables_okD(7) [OF t] v by (auto simp: filter_empty_conv)
  moreover have "filter (\<lambda>vc. vc_Version vc = v) (manifestFor v k rs) = manifestFor v k rs" for k
    by (auto simp: manifestFor_def filter_id_conv)
  ultimately have f: "filter (\<lambda>vc. vc_Version vc = v) (version_chunks d') = manifestFor v 0 rs" using vcs by simp
  have "map vc_Idx (manifestFor v 0 rs) = map fst (zip [0..<0 + length rs] rs)"
    by (simp add: manifestFor_def comp_def case_prod_unfold)
  then have "map vc_Idx (manifestFor v 0 rs) = [0..<length rs]" by simp
  then have s: "sort_key vc_Idx (manifestFor v 0 rs) = manifestFor v 0 rs"
    by (intro sort_key_id_if_sorted) simp
  have "map vc_Hash (manifestFor v 0 rs) = map cr_Hash (map snd (zip [0..<0 + length rs] rs))"
    by (simp add: manifestFor_def comp_def case_prod_unfold del: map_snd_zip)
  then have hs: "map vc_Hash (manifestFor v 0 rs) = map cr_Hash rs" by (simp del: map_map)
  have sub: "vc_Hash ` set (manifestFor v 0 rs) \<subseteq> dom (chunks d')"
    using ch hs by (metis list.set_map)
  have "chunks d' (vc_Hash x) \<noteq> None" if "x \<in> set (manifestFor v 0 rs)" for x
    using subsetD [OF sub imageI [OF that]] by auto
  then show ?thesis unfolding manifestRows_def f s hs [symmetric] by (rule map_filter_rows)
qed

section \<open>Upload and save-back\<close>

text \<open>The tables of the files, untouched by the conventions.\<close>

definition sameFiles :: "kamara_db world \<Rightarrow> kamara_db world \<Rightarrow> bool" where
  "sameFiles w w' \<longleftrightarrow>
     objects (w_db w') = objects (w_db w) \<and> versions (w_db w') = versions (w_db w) \<and>
     version_chunks (w_db w') = version_chunks (w_db w) \<and> chunks (w_db w') = chunks (w_db w) \<and>
     folders (w_db w') = folders (w_db w) \<and> w_now w' = w_now w \<and> w_fs w' = w_fs w \<and> w_fga w' = w_fga w"

lemma aside_sameFiles: "aside (sameFiles w)"
  by (simp add: aside_def convless_def pseudless_def faultless_def randless_def sameFiles_def)

lemma sameFiles_refl [simp]: "sameFiles w w"
  by (simp add: sameFiles_def)

lemma sameFiles_faults [simp]: "sameFiles w (w'\<lparr>w_faults := fs\<rparr>) = sameFiles w w'"
  by (simp add: sameFiles_def)

lemma conv_sameFiles:
  "Emit a b c w = (r, w') \<Longrightarrow> sameFiles w w'" "Feed doc w = (r, w') \<Longrightarrow> sameFiles w w'"
  "Remove i w = (r, w') \<Longrightarrow> sameFiles w w'"
  using keepsD2 [OF keeps_Emit [OF aside_sameFiles] sameFiles_refl] keepsD2 [OF keeps_Feed [OF aside_sameFiles] sameFiles_refl]
    keepsD2 [OF keeps_Remove [OF aside_sameFiles] sameFiles_refl] by blast+

text \<open>The latest version of an object and the hashes of its manifest.\<close>

definition presents :: "kamara_db \<Rightarrow> string \<Rightarrow> int \<Rightarrow> string list \<Rightarrow> bool" where
  "presents d i n hs \<longleftrightarrow> (\<exists>v. latestVersion d i = Some v \<and> ve_Ordinal v = n \<and> map cr_Hash (manifestRows d (ve_ID v)) = hs)"

lemma presents_sameFiles: "sameFiles w w' \<Longrightarrow> presents (w_db w') = presents (w_db w)"
  by (simp add: presents_def latestVersion_def manifestRows_def sameFiles_def fun_eq_iff)

lemma InsertVersion_presents:
  assumes t: "tables_ok (w_db w)" and i: "InsertVersion ob v n sz rs w = (Inr x, w')"
    and max: "\<And>u. u \<in> set (versions (w_db w)) \<Longrightarrow> ve_Object u = ob \<Longrightarrow> ve_Ordinal u < n"
  shows "presents (w_db w') ob n (map cr_Hash rs)" "objects (w_db w') = objects (w_db w)" "w_fga w' = w_fga w"
proof -
  obtain d where d: "v \<notin> ve_ID ` set (versions (w_db w))"
      "d = (w_db w)\<lparr>versions := versions (w_db w) @ [newVersion ob v n sz (w_now w)]\<rparr>"
    and wr: "wroteChunks (manifestFor v 0 rs) (cr_Hash ` set rs) (w\<lparr>w_db := d\<rparr>) w'"
    using InsertVersion_effect [OF i] by blast
  have l: "latestVersion (w_db w') ob = Some (newVersion ob v n sz (w_now w))"
    by (rule latestVersion_append [of _ "w_db w"]) (use wr d max in \<open>auto simp: wroteChunks_def newVersion_def\<close>)
  have "map cr_Hash (manifestRows (w_db w') v) = map cr_Hash rs"
    by (rule manifestRows_read [OF t d(1)]) (use wr d in \<open>auto simp: wroteChunks_def\<close>)
  then show "presents (w_db w') ob n (map cr_Hash rs)" using l by (simp add: presents_def newVersion_def)
  show "objects (w_db w') = objects (w_db w)" "w_fga w' = w_fga w" using wr d by (simp_all add: wroteChunks_def)
qed

lemma uploadTx_effect:
  assumes t: "tables_ok (w_db w)" and u: "InTx (uploadTx owner x v tot rs) w = (Inr u, w')"
  shows "presents (w_db w') (ob_ID x) 0 (map cr_Hash rs)" "objects (w_db w') = objects (w_db w) @ [x]"
    "w_fga w' = w_fga w" "hasFolder (w_db w) (ob_FolderID x)"
proof -
  obtain fs fs' w0 where b: "uploadTx owner x v tot rs (w\<lparr>w_faults := fs\<rparr>) = (Inr u, w0)" and w': "w' = w0\<lparr>w_faults := fs'\<rparr>"
    using u by (rule InTx_Inr)
  obtain w1 w2 w3 where io: "InsertObject x (w\<lparr>w_faults := fs\<rparr>) = (Inr (), w1)"
    and iv: "InsertVersion (ob_ID x) v 0 tot rs w1 = (Inr (), w2)"
    and em: "sameFiles w2 w3" "sameFiles w3 w0"
    using b by (auto simp: uploadTx_def elim!: bnd_InrE dest!: conv_sameFiles)
  from io obtain gs where w1: "w1 = w\<lparr>w_faults := gs, w_db := (w_db w)\<lparr>objects := objects (w_db w) @ [x]\<rparr>\<rparr>"
    and new: "ob_ID x \<notin> ob_ID ` set (objects (w_db w))" and hf: "hasFolder (w_db w) (ob_FolderID x)"
    unfolding InsertObject_def by (rule exec_Inr) (auto split: if_splits)
  have "ve_Object n \<noteq> ob_ID x" if "n \<in> set (versions (w_db w))" for n
    using tables_okD(6) [OF t that] new by auto
  moreover have "tables_ok (w_db w1)"
    using t w1 new hf by (auto simp: tables_ok_def)
  ultimately have sh: "presents (w_db w2) (ob_ID x) 0 (map cr_Hash rs)" "objects (w_db w2) = objects (w_db w1)" "w_fga w2 = w_fga w1"
    using InsertVersion_presents [OF _ iv] w1 by auto
  then show "presents (w_db w') (ob_ID x) 0 (map cr_Hash rs)" "objects (w_db w') = objects (w_db w) @ [x]" "w_fga w' = w_fga w"
    using em w1 w' presents_sameFiles [OF em(1)] presents_sameFiles [OF em(2)] by (auto simp: sameFiles_def)
  show "hasFolder (w_db w) (ob_FolderID x)" by (rule hf)
qed

text \<open>A save-back transaction that gets to its end, committed or not.\<close>

lemma writeTx_run:
  assumes b: "writeTx caller i v base tot rs w = (Inr n, w')"
  shows "\<exists>u. latestVersion (w_db w) i = Some u \<and> ve_Ordinal u = n - 1" "base = None \<or> base = Some (n - 1)"
    "versions (w_db w') = versions (w_db w) @ [newVersion i v n tot (w_now w)]"
    "map ob_ID (objects (w_db w')) = map ob_ID (objects (w_db w))" "w_fga w' = w_fga w"
    "tables_ok (w_db w) \<Longrightarrow> presents (w_db w') i n (map cr_Hash rs)"
proof -
  let ?rest = "\<lambda>m. bnd (InsertVersion i v (m + 1) tot rs) (\<lambda>_. bnd (SetObjectSize i tot) (\<lambda>_.
       bnd (Emit caller ''kamara.file.version_written'' (auditObj FileType i (Permalink i))) (\<lambda>_. ret (m + 1))))"
  obtain mo wq where q: "MaxOrdinal i w = (Inr mo, wq)" and k: "(case mo of None \<Rightarrow> fail ErrNotFound
      | Some m \<Rightarrow> if base \<noteq> None \<and> base \<noteq> Some m then fail ErrModified else ?rest m) wq = (Inr n, w')"
    using b unfolding writeTx_def by (rule bnd_InrE)
  from q obtain gs where mo: "mo = map_option ve_Ordinal (latestVersion (w_db w) i)" and wq: "wq = w\<lparr>w_faults := gs\<rparr>"
    unfolding MaxOrdinal_def by (rule query_Inr) auto
  obtain u where l: "latestVersion (w_db w) i = Some u"
    using k mo by (cases "latestVersion (w_db w) i") (auto simp: fail_apply)
  then have bs: "base = None \<or> base = Some (ve_Ordinal u)" and rest: "?rest (ve_Ordinal u) (w\<lparr>w_faults := gs\<rparr>) = (Inr n, w')"
    using k mo wq by (auto simp: fail_apply split: if_splits)
  then have nu: "n = ve_Ordinal u + 1" by (auto elim!: bnd_InrE simp: ret_apply)
  obtain w1 w2 where iv: "InsertVersion i v n tot rs (w\<lparr>w_faults := gs\<rparr>) = (Inr (), w1)"
    and ss: "SetObjectSize i tot w1 = (Inr (), w2)" and em: "sameFiles w2 w'"
    using rest nu by (auto elim!: bnd_InrE dest!: conv_sameFiles simp: ret_apply)
  obtain d where "d = (w_db w)\<lparr>versions := versions (w_db w) @ [newVersion i v n tot (w_now w)]\<rparr>"
    and "wroteChunks (manifestFor v 0 rs) (cr_Hash ` set rs) (w\<lparr>w_faults := gs, w_db := d\<rparr>) w1"
    using InsertVersion_effect [OF iv] by auto
  then have iw: "versions (w_db w1) = versions (w_db w) @ [newVersion i v n tot (w_now w)]"
      "objects (w_db w1) = objects (w_db w)" "w_fga w1 = w_fga w"
    by (simp_all add: wroteChunks_def)
  from ss obtain hs where w2: "w2 = w1\<lparr>w_faults := hs, w_db := updObject i (\<lambda>x. x\<lparr>ob_Size := tot, ob_Updated := w_now w1\<rparr>) (w_db w1)\<rparr>"
    unfolding SetObjectSize_def by (rule exec_Inr) auto
  have pr: "presents (w_db w') = presents (w_db w1)"
    by (simp add: presents_sameFiles [OF em] w2 presents_def latestVersion_def manifestRows_def updObject_def fun_eq_iff)
  have "map ob_ID (objects (w_db w2)) = map ob_ID (objects (w_db w1))"
    by (simp add: w2 updObject_def del: map_map) (rule map_upd_ids, simp)
  then show "versions (w_db w') = versions (w_db w) @ [newVersion i v n tot (w_now w)]"
    "map ob_ID (objects (w_db w')) = map ob_ID (objects (w_db w))" "w_fga w' = w_fga w"
    using em iw w2 by (simp_all add: sameFiles_def updObject_def)
  show "presents (w_db w') i n (map cr_Hash rs)" if "tables_ok (w_db w)"
    using InsertVersion_presents(1) [OF _ iv] that latestVersion_D(3) [OF l] nu pr by force
  show "\<exists>u. latestVersion (w_db w) i = Some u \<and> ve_Ordinal u = n - 1" "base = None \<or> base = Some (n - 1)"
    using l nu bs by auto
qed

lemma writeTx_effect:
  assumes u: "InTx (writeTx caller i v base tot rs) w = (Inr n, w')"
  shows "\<exists>u. latestVersion (w_db w) i = Some u \<and> ve_Ordinal u = n - 1" "base = None \<or> base = Some (n - 1)"
    "versions (w_db w') = versions (w_db w) @ [newVersion i v n tot (w_now w)]"
    "map ob_ID (objects (w_db w')) = map ob_ID (objects (w_db w))" "w_fga w' = w_fga w"
    "tables_ok (w_db w) \<Longrightarrow> presents (w_db w') i n (map cr_Hash rs)"
proof -
  obtain fs fs' w0 where b: "writeTx caller i v base tot rs (w\<lparr>w_faults := fs\<rparr>) = (Inr n, w0)" and w': "w' = w0\<lparr>w_faults := fs'\<rparr>"
    using u by (rule InTx_Inr)
  show "\<exists>u. latestVersion (w_db w) i = Some u \<and> ve_Ordinal u = n - 1" "base = None \<or> base = Some (n - 1)"
    "versions (w_db w') = versions (w_db w) @ [newVersion i v n tot (w_now w)]"
    "map ob_ID (objects (w_db w')) = map ob_ID (objects (w_db w))" "w_fga w' = w_fga w"
    "tables_ok (w_db w) \<Longrightarrow> presents (w_db w') i n (map cr_Hash rs)"
    using writeTx_run [OF b] w' by simp_all
qed

section \<open>Tuples and authorization\<close>

lemma fgaChange_Inr:
  assumes "fgaChange f w = (Inr x, w')"
  obtains fs ts where "f (w_fga w) = Inr ts" "w' = w\<lparr>w_faults := fs, w_fga := ts\<rparr>"
  using assms unfolding fgaChange_def by (cases rule: call_cases) (auto split: sum.splits)

lemma WriteTuple_Inr:
  assumes "fga_ok F" "fgaChange (fga_write F t) w = (Inr x, w')"
  shows "set (w_fga w') = insert t (set (w_fga w))" "w_db w' = w_db w" "w_fs w' = w_fs w" "w_now w' = w_now w"
proof -
  obtain fs ts where f: "fga_write F t (w_fga w) = Inr ts" and w': "w' = w\<lparr>w_faults := fs, w_fga := ts\<rparr>"
    using assms(2) by (rule fgaChange_Inr)
  then have "set ts = insert t (set (w_fga w))"
    using assms(1) unfolding fga_ok_def by (metis Inl_Inr_False Inr_inject)
  then show "set (w_fga w') = insert t (set (w_fga w))" "w_db w' = w_db w" "w_fs w' = w_fs w" "w_now w' = w_now w"
    using w' by simp_all
qed

lemma authorizeAccess_outcome:
  assumes "authorizeAccess V u x w = (r, w')" "fga_ok (sv_fga V)"
  shows "\<exists>fs. w' = w\<lparr>w_faults := fs\<rparr> \<and>
    (r = Inr () \<and> can_access (w_fga w) (OpenFGAObject u) x \<or> r = Inl ErrIO \<or>
     r = Inl ErrForbidden \<and> \<not> can_access (w_fga w) (OpenFGAObject u) x)"
proof -
  obtain rc w1 where c: "Check (sv_fga V) u AccessRelation x w = (rc, w1)" by fastforce
  have ck: "fga_check (sv_fga V) ts (userTuple u AccessRelation x) = can_access ts (OpenFGAObject u) x" for ts
    using assms(2) by (simp add: fga_ok_def userTuple_def rawTuple_def)
  obtain fs where w1: "w1 = w\<lparr>w_faults := fs\<rparr>" and rc: "rc = Inr (can_access (w_fga w) (OpenFGAObject u) x) \<or> rc = Inl ErrIO"
    using fgaAsk_outcome [OF c [unfolded Check_def]] ck by auto
  show ?thesis
    using rc assms(1) c w1 by (auto simp: authorizeAccess_def bnd_def run split: if_splits)
qed

lemma authorizeAccess_Inr:
  "authorizeAccess V u x w = (Inr y, w') \<Longrightarrow> fga_ok (sv_fga V) \<Longrightarrow>
   (\<exists>fs. w' = w\<lparr>w_faults := fs\<rparr>) \<and> can_access (w_fga w) (OpenFGAObject u) x"
  by (drule (1) authorizeAccess_outcome) auto

lemma authorizeFolderOpt_outcome:
  "authorizeFolderOpt V u f w = (r, w') \<Longrightarrow> fga_ok (sv_fga V) \<Longrightarrow> \<exists>fs. w' = w\<lparr>w_faults := fs\<rparr>"
  by (cases f) (auto simp: authorizeFolderOpt_def authorizeFolder_def ret_apply dest: authorizeAccess_outcome intro: exI [of _ "w_faults w"])

lemma authorizeAccess_calm:
  "calm w \<Longrightarrow> fga_ok (sv_fga V) \<Longrightarrow> can_access (w_fga w) (OpenFGAObject u) x \<Longrightarrow> authorizeAccess V u x w = (Inr (), w)"
  by (simp add: authorizeAccess_def Check_def fgaAsk_def bnd_def fga_ok_def userTuple_def rawTuple_def run)

text \<open>The calls of an upload that returns.\<close>

lemma Upload_run:
  assumes up: "Upload V owner folderID name r w = (Inr x, w')"
  shows "\<exists>w1 w2 w3 w4 w5 rs tot v. authorizeFolderOpt V owner folderID w = (Inr (), w1) \<and>
    Ingest (sv_P V) (sv_blobs V) (sv_cipher V) r w1 = (Inr (rs, tot), w2) \<and>
    w_db w3 = w_db w2 \<and> w_fs w3 = w_fs w2 \<and> w_faults w3 = w_faults w2 \<and>
    (ob_Owner x = owner \<and> ob_Name x = name \<and> ob_Size x = tot \<and> ob_FolderID x = folderID) \<and>
    InTx (uploadTx owner x v tot rs) w3 = (Inr (), w4) \<and>
    WriteTuple (sv_fga V) owner Relation (fileObj (ob_ID x)) w4 = (Inr (), w5) \<and>
    linkFolder V folderID (fileObj (ob_ID x)) w5 = (Inr (), w')"
proof -
  have "name \<noteq> []" using up by (auto simp: Upload_def run split: if_splits)
  then obtain w1 rs tot w2 now i w3 v w3' w4 w5 where
    "authorizeFolderOpt V owner folderID w = (Inr (), w1)"
    "Ingest (sv_P V) (sv_blobs V) (sv_cipher V) r w1 = (Inr (rs, tot), w2)"
    "V7 w2 = (Inr i, w3)" "V7 w3 = (Inr v, w3')"
    "x = \<lparr>ob_ID = i, ob_Owner = owner, ob_Name = name, ob_Size = tot, ob_FolderID = folderID,
          ob_ContentType = contentTypeOf V name, ob_Created = now, ob_Updated = now\<rparr>"
    "InTx (uploadTx owner x v tot rs) w3' = (Inr (), w4)"
    "WriteTuple (sv_fga V) owner Relation (fileObj i) w4 = (Inr (), w5)"
    "linkFolder V folderID (fileObj i) w5 = (Inr (), w')"
    using up unfolding Upload_def Let_def time_now_def
    by (auto elim!: bnd_InrE simp: ret_apply)
  moreover have "w_db w3' = w_db w2" "w_fs w3' = w_fs w2" "w_faults w3' = w_faults w2" using calculation(3,4) by (auto simp: V7_run)
  ultimately show ?thesis
    by (intro exI [of _ w1] exI [of _ w2] exI [of _ w3'] exI [of _ w4] exI [of _ w5] exI [of _ rs] exI [of _ tot] exI [of _ v]) simp
qed

section \<open>On any blob store\<close>

context file_store
begin

lemma Upload_effect:
  assumes r: "progressing r" and t: "tables_ok (w_db w)" and F: "fga_ok (sv_fga V)"
    and up: "Upload V owner folderID name r w = (Inr x, w')"
  shows "rd_end r = REOF" "ob_Size x = int (length (content r))" "ob_Owner x = owner" "ob_Name x = name" "ob_FolderID x = folderID"
    "objects (w_db w') = objects (w_db w) @ [x]" "presents (w_db w') (ob_ID x) 0 (map (ChunkHash (sv_P V)) (chunks_of (content r)))"
    "(OpenFGAObject owner, Relation, fileObj (ob_ID x)) \<in> set (w_fga w')"
    "grows (sv_P V) (sv_cipher V) (set (chunks_of (content r))) (blobs w) (blobs w')"
    "\<forall>y \<in> set (chunks_of (content r)). blobs w' (ChunkHash (sv_P V) y) \<noteq> None"
proof -
  obtain w1 w2 w3 w4 w5 rs tot v where a: "authorizeFolderOpt V owner folderID w = (Inr (), w1)"
    and ing: "Ingest (sv_P V) S (sv_cipher V) r w1 = (Inr (rs, tot), w2)"
    and w3: "w_db w3 = w_db w2" "w_fs w3 = w_fs w2"
    and xs: "ob_Owner x = owner \<and> ob_Name x = name \<and> ob_Size x = tot \<and> ob_FolderID x = folderID"
    and tx: "InTx (uploadTx owner x v tot rs) w3 = (Inr (), w4)"
    and wt: "WriteTuple (sv_fga V) owner Relation (fileObj (ob_ID x)) w4 = (Inr (), w5)"
    and lf: "linkFolder V folderID (fileObj (ob_ID x)) w5 = (Inr (), w')"
    using Upload_run [OF up] backed by metis
  have fr: "w_db w1 = w_db w" "w_fs w1 = w_fs w"
    using authorizeFolderOpt_outcome [OF a F] by auto
  note sp = Ingest_spec [OF r ing]
  note sp3 = sp(3) [OF refl]
  have t3: "tables_ok (w_db w3)" using t w3 sp(1) fr by (simp add: blob_frame_def)
  note te = uploadTx_effect [OF t3 tx]
  note wte = WriteTuple_Inr [OF F wt [unfolded WriteTuple_def]]
  have w': "w_db w' = w_db w5" "w_fs w' = w_fs w5" "set (w_fga w5) \<subseteq> set (w_fga w')"
    using lf WriteTuple_Inr [OF F, of "rawTuple (folderObj f) ParentRelation (fileObj (ob_ID x))" w5 "()" w' for f]
    by (auto simp: linkFolder_def WriteObjectTuple_def ret_apply split: option.splits)
  have fs: "blobs w' = blobs w2"
  proof (rule blobs_frame)
    show "w_fs w' = w_fs w2"
      using w' wte w3 keepsD2 [OF keeps_fs_InTx [OF keeps_fs_txs(1)] _ tx, of "w_fs w3"] by simp
  qed
  have "blobs w1 = blobs w" by (rule blobs_frame) (rule fr)
  then show "grows (sv_P V) (sv_cipher V) (set (chunks_of (content r))) (blobs w) (blobs w')" using sp(2) fs by simp
  show "rd_end r = REOF" "ob_Size x = int (length (content r))" "ob_Owner x = owner" "ob_Name x = name" "ob_FolderID x = folderID"
    "\<forall>y \<in> set (chunks_of (content r)). blobs w' (ChunkHash (sv_P V) y) \<noteq> None"
    using sp3 xs fs by auto
  show "objects (w_db w') = objects (w_db w) @ [x]" using te(2) wte w' w3 fr sp(1) by (simp add: blob_frame_def)
  show "presents (w_db w') (ob_ID x) 0 (map (ChunkHash (sv_P V)) (chunks_of (content r)))"
    using te(1) sp3 wte w' by (simp add: manifest_def comp_def)
  show "(OpenFGAObject owner, Relation, fileObj (ob_ID x)) \<in> set (w_fga w')"
    using wte(1) w'(3) by (auto simp: userTuple_def rawTuple_def)
qed

end

section \<open>Quiet runs\<close>

text \<open>Without faults at the start there are none later.\<close>

lemma calm_call: "keeps calm m \<Longrightarrow> keeps calm (call m)"
  by (rule keepsI) (simp add: keepsD)

lemma calm_statements:
  "keeps calm (query f)" "keeps calm (exec g)" "keeps calm V7" "keeps calm (randRead n)" "keeps calm time_now"
  "keeps calm (fgaAsk h)" "keeps calm (fgaChange k)"
  unfolding query_def exec_def fgaAsk_def fgaChange_def time_now_def
  by (auto intro!: calm_call keepsI simp: V7_run randRead_def execRaw_def split: sum.split)

lemma calm_InTx:
  fixes fn :: "('d, 'a) action"
  assumes fn: "keeps calm fn"
  shows "keeps calm (InTx fn)"
proof (rule keepsI)
  fix w :: "'d world" assume w: "calm w"
  obtain r w1 where r: "fn w = (r, w1)" by fastforce
  have "calm w1" by (rule keepsD2 [OF fn w r])
  then show "calm (snd (InTx fn w))" using r w by (cases r) (simp_all add: InTx_calm)
qed

lemma calm_insertVersionRow: "keeps calm (insertVersionRow v)"
  by (rule keepsI) (simp add: insertVersionRow_def bnd_def next_fault_calm execRaw_def split: sum.split)

lemmas calm_rules = keeps_ret keeps_fail keeps_gets keeps_bnd keeps_ignore keeps_catch keeps_guarded keeps_foreach
  keeps_if keeps_option keeps_prod keeps_let calm_InTx calm_insertVersionRow calm_statements keeps_retry

lemma calm_TokenFor: "keeps calm (TokenFor PseudonymStore s)"
proof -
  have l: "keeps calm (pgLookup s)" unfolding pgLookup_def by (rule calm_statements)
  have "keeps calm (\<lambda>w. case pgLookup s w of
      (Inr (Some t), w') \<Rightarrow> (Inr t, w') | (_, w') \<Rightarrow> (Inl e, w'))" for e
    by (rule keepsI) (use keepsD2 [OF l] in \<open>fastforce split: prod.split sum.split option.split\<close>)
  with l show ?thesis
    unfolding TokenFor_def PseudonymStore_def newToken_def
    by (auto intro!: calm_rules simp: pgSave_def)
qed

lemma calm_conv: "keeps calm (Emit a b c)" "keeps calm (Feed doc)" "keeps calm (Remove i)"
  unfolding Emit_def Feed_def Remove_def auditAppend_def searchUpsert_def searchDelete_def
  by (intro calm_rules calm_TokenFor)+

lemma calm_txs: "keeps calm (uploadTx owner x v tot rs)" "keeps calm (writeTx caller i v base tot rs)"
  "keeps calm (deleteTx caller i)"
  unfolding uploadTx_def InsertObject_def InsertVersion_def insertRef_def upsertChunk_def insertManifest_def
    writeTx_def MaxOrdinal_def SetObjectSize_def deleteTx_def GetObject_def reclaimObject_def ChunkHashesOf_def
    DeleteObject_def DecRef_def decOne_def DeleteChunks_def
  by (intro calm_rules calm_conv)+

lemma calm_tuples:
  "keeps calm (WriteTuple F u r x)" "keeps calm (DeleteTuple F u r x)" "keeps calm (linkFolder V f x)"
  "keeps calm (unlinkFolder V f x)" "keeps calm (authorizeAccess V u y)" "keeps calm (authorizeFolderOpt V u f)"
  unfolding WriteTuple_def DeleteTuple_def linkFolder_def unlinkFolder_def WriteObjectTuple_def DeleteObjectTuple_def
    authorizeAccess_def authorizeFolderOpt_def authorizeFolder_def Check_def
  by (intro calm_rules)+

section \<open>Save-back\<close>

lemma retry_Inr:
  assumes m: "hoare I m (\<lambda>_ _. True) (\<lambda>e w. e = ErrVersionConflict \<longrightarrow> I w)"
  shows "I w \<Longrightarrow> retry n m w = (Inr x, w') \<Longrightarrow> \<exists>w1. I w1 \<and> m w1 = (Inr x, w')"
proof (induction n arbitrary: w)
  case 0
  then show ?case by auto
next
  case (Suc n)
  obtain r w1 where r: "m w = (r, w1)" by fastforce
  show ?case
  proof (cases r)
    case (Inl e)
    then have e: "e = ErrVersionConflict" and "retry n m w1 = (Inr x, w')"
      using Suc.prems r by (auto simp: catch_def fail_apply split: if_splits)
    then show ?thesis using Suc.IH [of w1] hoareD(2) [OF m Suc.prems(1)] r Inl by blast
  next
    case (Inr y)
    then show ?thesis using Suc.prems r by (auto simp: catch_def)
  qed
qed

text \<open>The parts of the world a save-back transaction never touches.\<close>

definition sameOut :: "kamara_db world \<Rightarrow> kamara_db world \<Rightarrow> bool" where
  "sameOut w w' \<longleftrightarrow> w_fs w' = w_fs w \<and> w_fga w' = w_fga w \<and> w_now w' = w_now w"

lemma sameOut_free [simp]: "faultless (sameOut w)" "randless (sameOut w)" "aside (sameOut w)" "sameOut w w"
  "sameOut w (w'\<lparr>w_db := d\<rparr>) = sameOut w w'"
  by (simp_all add: aside_def convless_def pseudless_def faultless_def randless_def sameOut_def)

lemma keeps_out_exec: "keeps (sameOut w) (exec f)"
  by (rule keeps_exec) simp_all

lemma keeps_out_txs: "keeps (sameOut w) (writeTx caller i v base tot rs)" "keeps (sameOut w) (uploadTx owner x v tot rs)"
  "keeps (sameOut w) (deleteTx caller i)"
proof -
  have "keeps (sameOut w) (insertVersionRow v)" for v
    by (rule keeps_insertVersionRow) simp_all
  then have iv: "keeps (sameOut w) (InsertVersion a b n s rs)" for a b n s rs
    unfolding InsertVersion_def insertRef_def upsertChunk_def insertManifest_def
    by (intro keeps_rules keeps_out_exec)
  show "keeps (sameOut w) (writeTx caller i v base tot rs)" "keeps (sameOut w) (uploadTx owner x v tot rs)"
    "keeps (sameOut w) (deleteTx caller i)"
    unfolding writeTx_def MaxOrdinal_def SetObjectSize_def uploadTx_def InsertObject_def deleteTx_def GetObject_def
      reclaimObject_def ChunkHashesOf_def DeleteObject_def DecRef_def decOne_def DeleteChunks_def
    by (intro keeps_rules keeps_out_exec iv sameOut_free)+
qed

text \<open>How a unit of work can leave the database, and where its error comes from.\<close>

lemma InTx_db_from:
  assumes "InTx fn w = (r, w')"
  shows "w_db w' = w_db w \<or> (\<exists>fs w1 x. fn (w\<lparr>w_faults := fs\<rparr>) = (Inr x, w1) \<and> w_db w' = w_db w1)"
  using assms by (cases rule: InTx_outcome) (auto, fastforce+)

lemma InTx_Inl_from:
  assumes "InTx fn w = (Inl e, w')"
  shows "e = ErrIO \<or> (\<exists>fs w1. fn (w\<lparr>w_faults := fs\<rparr>) = (Inl e, w1))"
  using assms by (cases rule: InTx_outcome) auto

text \<open>A save-back against an old base never gets into the tables, and is no version conflict.\<close>

lemma writeTx_stale:
  assumes "map_option ve_Ordinal (latestVersion d i) \<noteq> Some b"
  shows "hoare (\<lambda>w. w_db w = d) (InTx (writeTx caller i v (Some b) tot rs)) (\<lambda>_ _. False)
    (\<lambda>e w. w_db w = d \<and> e \<noteq> ErrVersionConflict)"
proof -
  let ?k = "\<lambda>m. case m of None \<Rightarrow> fail ErrNotFound | Some m \<Rightarrow>
        if Some b \<noteq> None \<and> Some b \<noteq> Some m then fail ErrModified
        else bnd (InsertVersion i v (m + 1) tot rs) (\<lambda>_. bnd (SetObjectSize i tot) (\<lambda>_.
          bnd (Emit caller ''kamara.file.version_written'' (auditObj FileType i (Permalink i))) (\<lambda>_. ret (m + 1))))"
  have q: "hoare (\<lambda>w. w_db w = d) (MaxOrdinal i) (\<lambda>m w. m = map_option ve_Ordinal (latestVersion d i)) (\<lambda>e _. e \<noteq> ErrVersionConflict)"
    unfolding MaxOrdinal_def by (rule hoareI) (auto dest: query_outcome)
  have k: "hoare (\<lambda>w. m = l) (?k m) (\<lambda>_ _. False) (\<lambda>e _. e \<noteq> ErrVersionConflict)" if "l \<noteq> Some b" for m l
    by (cases m; cases "m = l") (use that in \<open>auto simp: hoare_def fail_apply\<close>)
  have h: "hoare (\<lambda>w. w_db w = d) (writeTx caller i v (Some b) tot rs) (\<lambda>_ _. False) (\<lambda>e _. e \<noteq> ErrVersionConflict)"
    unfolding writeTx_def by (rule hoare_bnd [OF q k [OF assms]])
  have f: "\<exists>e. writeTx caller i v (Some b) tot rs (u\<lparr>w_faults := fs\<rparr>) = (Inl e, u') \<and> e \<noteq> ErrVersionConflict"
    if "w_db u = d" "writeTx caller i v (Some b) tot rs (u\<lparr>w_faults := fs\<rparr>) = (r, u')" for u fs r u'
    using hoareD [OF h, of "u\<lparr>w_faults := fs\<rparr>"] that by (cases r) auto
  show ?thesis
  proof (rule hoareI)
    fix u x u' assume u: "w_db u = d" and run: "InTx (writeTx caller i v (Some b) tot rs) u = (Inr x, u')"
    from run show False by (cases rule: InTx_outcome) (use f [OF u] in \<open>fastforce+\<close>)
  next
    fix u e u' assume u: "w_db u = d" and run: "InTx (writeTx caller i v (Some b) tot rs) u = (Inl e, u')"
    show "w_db u' = d \<and> e \<noteq> ErrVersionConflict"
      using InTx_db_from [OF run] InTx_Inl_from [OF run] f [OF u] u by fastforce
  qed
qed

text \<open>Racing saves: the database is as it was, or the object has moved beyond the base.\<close>

definition ahead :: "string \<Rightarrow> int \<Rightarrow> kamara_db \<Rightarrow> bool" where
  "ahead i b d \<longleftrightarrow> (\<exists>v. latestVersion d i = Some v \<and> b < ve_Ordinal v)"

definition racing :: "kamara_db \<Rightarrow> string \<Rightarrow> int \<Rightarrow> kamara_db world \<Rightarrow> bool" where
  "racing d i b w \<longleftrightarrow> w_db w = d \<or> ahead i b (w_db w)"

lemma racing_free: "faultless (racing d i b)" "randless (racing d i b)"
  by (simp_all add: faultless_def randless_def racing_def)

lemma writeTx_ahead:
  assumes "writeTx caller i v base tot rs w = (Inr n, w')"
  shows "latestVersion (w_db w') i = Some (newVersion i v n tot (w_now w))"
proof -
  note r = writeTx_run [OF assms]
  obtain u where u: "latestVersion (w_db w) i = Some u" "ve_Ordinal u = n - 1" using r(1) by blast
  show ?thesis
    by (rule latestVersion_append [OF r(3)]) (use latestVersion_D(3) [OF u(1)] u(2) in \<open>fastforce simp: newVersion_def\<close>)+
qed

lemma racing_writeAttempt:
  assumes l: "map_option ve_Ordinal (latestVersion d i) = Some b"
  shows "keeps (racing d i b) (writeAttempt caller i base tot rs)"
proof -
  have "keeps (racing d i b) (InTx (writeTx caller i v base tot rs))" for v
  proof (rule keepsI)
    fix w assume w: "racing d i b w"
    obtain r w' where run: "InTx (writeTx caller i v base tot rs) w = (r, w')" by fastforce
    have "ahead i b (w_db w1)" if b: "writeTx caller i v base tot rs (w\<lparr>w_faults := fs\<rparr>) = (Inr n, w1)" for fs n w1
    proof -
      have "b < n" using writeTx_run(1) [OF b] w l by (auto simp: racing_def ahead_def)
      then show ?thesis using writeTx_ahead [OF b] by (simp add: ahead_def newVersion_def)
    qed
    then have "racing d i b w'" using InTx_db_from [OF run] w by (auto simp: racing_def)
    then show "racing d i b (snd (InTx (writeTx caller i v base tot rs) w))" by (simp add: run)
  qed
  then show ?thesis unfolding writeAttempt_def by (intro keeps_bnd keeps_V7 racing_free)
qed

lemma hoare_catch:
  assumes "hoare P m Q E'" "\<And>e. hoare (E' e) (h e) Q E"
  shows "hoare P (catch m h) Q E"
proof (rule hoareI)
  fix w x w' assume P: "P w" and c: "catch m h w = (Inr x, w')"
  obtain r w1 where r: "m w = (r, w1)" by fastforce
  then show "Q x w'"
    using c hoareD [OF assms(1) P, of _ w1] hoareD(1) [OF assms(2), of _ w1 x w'] by (cases r) (auto simp: catch_def)
next
  fix w e w' assume P: "P w" and c: "catch m h w = (Inl e, w')"
  obtain r w1 where r: "m w = (r, w1)" by fastforce
  then show "E e w'"
    using c hoareD [OF assms(1) P, of _ w1] hoareD(2) [OF assms(2), of _ w1 e w'] by (cases r) (auto simp: catch_def)
qed

lemma hoare_retry_stale:
  assumes m: "hoare I m (\<lambda>_ _. False) (\<lambda>_. I)"
  shows "hoare I (retry n m) (\<lambda>_ _. False) (\<lambda>_. I)"
proof (induction n)
  case (Suc n)
  have "hoare I (if e = ErrVersionConflict then retry n m else fail e) (\<lambda>_ _. False) (\<lambda>_. I)" for e
    using Suc.IH by (simp add: hoare_def fail_apply)
  then show ?case by (simp add: hoare_catch [OF m])
qed (simp add: m)

lemma contended_stale:
  assumes "hoare I m (\<lambda>_ _. False) (\<lambda>e w. I w \<and> e \<noteq> ErrVersionConflict)"
  shows "hoare I (contended V i m) (\<lambda>_ _. False) (\<lambda>_. I)"
  unfolding contended_def by (rule hoare_catch [OF assms]) (simp add: hoare_def fail_apply)

section \<open>Save-back, download and deletion on any blob store\<close>

context file_store
begin

lemma clean_after:
  assumes r: "m w = (r, w')" and c: "clean w" and "\<And>f. keeps (\<lambda>w. w_fs w = f) m" "keeps calm m"
  shows "clean w'"
proof -
  have "calm w" using clean_calm c by blast
  moreover have "calm w'" using keepsD2 [OF assms(4) _ r] calculation by blast
  moreover have "w_fs w' = w_fs w" using keepsD2 [OF assms(3) _ r] by blast
  ultimately show ?thesis using c clean_frame [of w' w] by (simp add: calm_def)
qed

lemma Upload_clean:
  assumes "progressing r" "\<And>y. valid (ChunkHash (sv_P V) y)" "clean w" "Upload V owner folderID name r w = (Inr x, w')"
  shows "clean w'"
proof -
  obtain w1 w2 w3 w4 w5 rs tot v where a: "authorizeFolderOpt V owner folderID w = (Inr (), w1)"
    and ing: "Ingest (sv_P V) S (sv_cipher V) r w1 = (Inr (rs, tot), w2)"
    and w3: "w_fs w3 = w_fs w2" "w_faults w3 = w_faults w2"
    and tx: "InTx (uploadTx owner x v tot rs) w3 = (Inr (), w4)"
    and wt: "WriteTuple (sv_fga V) owner Relation (fileObj (ob_ID x)) w4 = (Inr (), w5)"
    and lf: "linkFolder V folderID (fileObj (ob_ID x)) w5 = (Inr (), w')"
    using Upload_run [OF assms(4)] backed by metis
  have c1: "clean w1"
    by (rule clean_after [where m = "authorizeFolderOpt V owner folderID", OF a assms(3)])
      (simp_all add: keeps_authorize calm_tuples)
  obtain w2' where "Ingest (sv_P V) S (sv_cipher V) r w1 =
      (Inr (manifest (sv_P V) (chunks_of (content r)), int (length (content r))), w2')" "clean w2'"
    using Ingest_clean [OF assms(1) _ c1 assms(2)] Ingest_spec(3) [OF assms(1) ing refl] by blast
  then have "clean w3" using ing w3 clean_frame [of w3 w2] by simp
  then have "clean w4" by (rule clean_after [where m = "InTx (uploadTx owner x v tot rs)", OF tx]) (intro keeps_fs_InTx keeps_fs_txs calm_InTx calm_txs)+
  then have "clean w5" by (rule clean_after [where m = "WriteTuple (sv_fga V) owner Relation (fileObj (ob_ID x))", OF wt]) (auto intro!: keeps_rules calm_tuples)
  then show ?thesis
    by (rule clean_after [where m = "linkFolder V folderID (fileObj (ob_ID x))", OF lf])
      (simp_all add: keeps_link calm_tuples)
qed

text \<open>A manifest whose chunks can be read is downloaded, by whoever has access.\<close>

lemma Download_presents:
  assumes F: "fga_ok (sv_fga V)" and cal: "calm w" and acc: "can_access (w_fga w) (OpenFGAObject u) (fileObj i)"
    and p: "presents (w_db w) i n hs" and rd: "list_all2 (readable (sv_P V) (sv_cipher V) (blobs w)) hs xs"
  shows "\<exists>w'. Download V u i (w, out) = (Inr (), (w', out @ concat xs)) \<and> calm w'"
proof -
  obtain rs where m: "ManifestOf i w = (Inr rs, w)" and hs: "map cr_Hash rs = hs"
    using p cal by (auto simp: presents_def ManifestOf_def)
  have "list_all2 (\<lambda>ref x. readable (sv_P V) (sv_cipher V) (blobs w) (cr_Hash ref) x) rs xs"
    using rd hs by (auto simp: list_all2_map1)
  from Reassemble_calm [OF cal this, of out] show ?thesis
    using authorizeAccess_calm [OF cal F acc] m backed
    by (simp add: Download_def authorize_def bnd_def lift_def)
qed

lemma stored_readable:
  assumes ok: "svc_ok V" and con: "consistent ex V (blobs w) (w_db w)"
    and g: "grows (sv_P V) (sv_cipher V) (set cs) (blobs w) (blobs w')"
    and has: "\<forall>y \<in> set cs. blobs w' (ChunkHash (sv_P V) y) \<noteq> None"
    and inj: "inj_on (ChunkHash (sv_P V)) (set cs \<union> {x. \<exists>h. readable (sv_P V) (sv_cipher V) (blobs w) h x})"
  shows "list_all2 (readable (sv_P V) (sv_cipher V) (blobs w')) (map (ChunkHash (sv_P V)) cs) cs"
proof -
  have "readable (sv_P V) (sv_cipher V) (blobs w') (ChunkHash (sv_P V) x) x" if "x \<in> set cs" for x
    by (rule ingested_readable [OF _ _ g _ inj has that]) (use ok con in \<open>simp_all add: svc_ok_def consistent_def\<close>)
  then show ?thesis unfolding list.rel_map by (intro list.rel_refl_strong)
qed

lemma Upload_then_Download:
  assumes ok: "svc_ok V" "fga_ok (sv_fga V)" and r: "progressing r" and val: "\<And>y. valid (ChunkHash (sv_P V) y)"
    and w: "clean w" "consistent ex V (blobs w) (w_db w)"
    and inj: "inj_on (ChunkHash (sv_P V)) (set (chunks_of (content r)) \<union> {x. \<exists>h. readable (sv_P V) (sv_cipher V) (blobs w) h x})"
    and up: "Upload V owner folderID name r w = (Inr x, w1)"
  shows "\<exists>w2. Download V owner (ob_ID x) (w1, []) = (Inr (), (w2, content r))"
proof -
  have t: "tables_ok (w_db w)" using w(2) by (simp add: consistent_def good_def)
  note e = Upload_effect [OF r t ok(2) up]
  have "can_access (w_fga w1) (OpenFGAObject owner) (fileObj (ob_ID x))" by (rule can_access.owner [OF e(8)])
  from Download_presents [OF ok(2) clean_calm [OF Upload_clean [OF r val w(1) up]] this e(7) stored_readable [OF ok(1) w(2) e(9,10) inj], of "[]"]
  show ?thesis by auto
qed

lemma keeps_Ingest_db:
  assumes "progressing r"
  shows "keeps (\<lambda>w. I (w_db w)) (Ingest (sv_P V) (sv_blobs V) (sv_cipher V) r)"
  unfolding keeps_def
  by (rule hoareI) (use Ingest_spec(1) [OF assms] backed in \<open>auto simp: blob_frame_def\<close>)

lemma writeVersion_stale:
  assumes r: "progressing r" and st: "map_option ve_Ordinal (latestVersion (w_db w) i) \<noteq> Some b"
    and wr: "writeVersion V caller i r (Some b) w = (res, w')"
  shows "(\<exists>e. res = Inl e) \<and> w_db w' = w_db w"
proof -
  let ?I = "\<lambda>u. w_db u = w_db w"
  have att: "hoare ?I (writeAttempt caller i (Some b) tot rs) (\<lambda>_ _. False) (\<lambda>e u. ?I u \<and> e \<noteq> ErrVersionConflict)" for tot rs
    unfolding writeAttempt_def
    by (rule hoare_bnd [where R = "\<lambda>_. ?I", OF _ writeTx_stale [OF st]]) (auto simp: hoare_def V7_run)
  have au: "keeps ?I (authorize V caller i)" by (rule keeps_authorize) (simp add: faultless_def)
  have "hoare ?I (case p of (rs, tot) \<Rightarrow> bnd (retry (maxAttempts - 1) (contended V i (writeAttempt caller i (Some b) tot rs))) (\<lambda>n. ret (Itoa n)))
      (\<lambda>_ _. False) (\<lambda>_. ?I)" for p
    by (cases p, simp only: prod.case, rule hoare_bnd [OF hoare_retry_stale [OF contended_stale [OF att]]]) (simp add: hoare_def)
  then have h: "hoare ?I (writeVersion V caller i r (Some b)) (\<lambda>_ _. False) (\<lambda>_. ?I)"
    unfolding writeVersion_def
    by (intro hoare_bnd [OF au [unfolded keeps_def]] hoare_bnd [OF keeps_Ingest_db [OF r, unfolded keeps_def]])
  show ?thesis using hoareD(1) [OF h refl] hoareD(2) [OF h refl] wr by (cases res) simp_all
qed

lemma racing_contended:
  assumes l: "map_option ve_Ordinal (latestVersion d i) = Some b"
  shows "keeps (racing d i b) (contended V i (writeAttempt caller i base tot rs))"
proof -
  have "keeps (racing d i b) (Ingest (sv_P V) (sv_blobs V) (sv_cipher V) (bytesReader x))" for x
    using keeps_Ingest_db [of _ "\<lambda>e. e = d \<or> ahead i b e"] by (simp add: racing_def [abs_def])
  then show ?thesis
    by (intro keeps_contended keeps_rivalSave keeps_authorize racing_free racing_writeAttempt l)
qed

lemma writeVersion_effect:
  assumes r: "progressing r" and t: "tables_ok (w_db w)"
    and wr: "writeVersion V caller i r (Some b) w = (Inr s, w')"
  shows "s = Itoa (b + 1)" "map_option ve_Ordinal (latestVersion (w_db w) i) = Some b"
    "\<exists>v. versions (w_db w') = versions (w_db w) @ [v] \<and> ve_Object v = i \<and> ve_Ordinal v = b + 1"
    "presents (w_db w') i (b + 1) (map (ChunkHash (sv_P V)) (chunks_of (content r)))"
proof -
  show l: "map_option ve_Ordinal (latestVersion (w_db w) i) = Some b"
    using writeVersion_stale [OF r _ wr] by blast
  obtain w1 rs tot w2 n where a: "authorize V caller i w = (Inr (), w1)"
    and ing: "Ingest (sv_P V) S (sv_cipher V) r w1 = (Inr (rs, tot), w2)"
    and rt: "retry (maxAttempts - 1) (contended V i (writeAttempt caller i (Some b) tot rs)) w2 = (Inr n, w')" and s: "s = Itoa n"
    using wr backed unfolding writeVersion_def by (auto elim!: bnd_InrE simp: ret_apply)
  have "w_db w1 = w_db w"
    by (rule keepsD2 [OF keeps_authorize(2) [of "\<lambda>u. w_db u = w_db w"] _ a]) (simp_all add: faultless_def)
  then have "racing (w_db w) i b w2" using Ingest_spec(1) [OF r ing] by (simp add: racing_def blob_frame_def)
  then obtain w3 where w3: "racing (w_db w) i b w3" and at: "contended V i (writeAttempt caller i (Some b) tot rs) w3 = (Inr n, w')"
    using retry_Inr [OF hoare_conseq [OF racing_contended [OF l, unfolded keeps_def]] _ rt] by auto
  have "writeAttempt caller i (Some b) tot rs w3 = (Inr n, w')"
    using at by (auto simp: contended_def catch_def bnd_def fail_apply split: prod.splits sum.splits if_splits)
  then obtain v w4 where db: "w_db w4 = w_db w3" and tx: "InTx (writeTx caller i v (Some b) tot rs) w4 = (Inr n, w')"
    using that [of "w3\<lparr>w_rand := \<lambda>i. w_rand w3 (i + 10)\<rparr>"] by (simp add: writeAttempt_def bnd_def V7_run)
  note te = writeTx_effect [OF tx]
  have n: "n = b + 1" using te(2) by auto
  then have d: "w_db w4 = w_db w" using te(1) w3 db by (auto simp: racing_def ahead_def)
  show "s = Itoa (b + 1)" using s n by simp
  show "\<exists>v. versions (w_db w') = versions (w_db w) @ [v] \<and> ve_Object v = i \<and> ve_Ordinal v = b + 1"
    using te(3) d n by (simp add: newVersion_def)
  show "presents (w_db w') i (b + 1) (map (ChunkHash (sv_P V)) (chunks_of (content r)))"
    using te(6) d t n Ingest_spec(3) [OF r ing refl] by (simp add: manifest_def comp_def)
qed

end

section \<open>Deletion\<close>

definition sameRows :: "kamara_db \<Rightarrow> kamara_db \<Rightarrow> bool" where
  "sameRows d d' \<longleftrightarrow> objects d' = objects d \<and> versions d' = versions d \<and> version_chunks d' = version_chunks d \<and>
     folders d' = folders d \<and> (\<forall>h. chunks d' h = None \<longleftrightarrow> chunks d h = None)"

lemma DecRef_rows: "keeps (\<lambda>w. sameRows d (w_db w)) (DecRef hs)"
proof -
  have "keeps (\<lambda>w. sameRows d (w_db w)) (decOne h n)" for h n
    unfolding decOne_def by (rule keeps_exec) (simp, auto simp: sameRows_def split: if_splits)
  then show ?thesis unfolding DecRef_def by (auto intro!: keeps_rules)
qed

text \<open>What \<open>reclaimObject\<close> leaves: the object's rows are gone and so are exactly the returned chunk rows.\<close>

definition reclaimed :: "string \<Rightarrow> string list \<Rightarrow> kamara_db \<Rightarrow> kamara_db \<Rightarrow> bool" where
  "reclaimed i os d d' \<longleftrightarrow> objects d' = objects (dropObject i d) \<and> versions d' = versions (dropObject i d) \<and>
     version_chunks d' = version_chunks (dropObject i d) \<and> folders d' = folders d \<and>
     (\<forall>h. chunks d' h = None \<longleftrightarrow> h \<in> set os \<or> chunks d h = None)"

lemma reclaimObject_effect:
  assumes "reclaimObject i w = (Inr os, w')"
  shows "reclaimed i os (w_db w) (w_db w')"
proof -
  obtain hs w1 w2 w3 where q: "ChunkHashesOf i w = (Inr hs, w1)" and d: "DeleteObject i w1 = (Inr (), w2)"
    and r: "DecRef hs w2 = (Inr os, w3)" and c: "DeleteChunks os w3 = (Inr (), w')"
    using assms by (auto simp: reclaimObject_def ret_apply elim!: bnd_InrE)
  have w1: "w_db w1 = w_db w" using q unfolding ChunkHashesOf_def by (rule query_Inr) simp
  have w2: "w_db w2 = dropObject i (w_db w)" using d w1 unfolding DeleteObject_def by (elim exec_Inr) auto
  have w3: "sameRows (w_db w2) (w_db w3)" by (rule keepsD2 [OF DecRef_rows _ r]) (simp add: sameRows_def)
  have "w_db w' = (w_db w3)\<lparr>chunks := (\<lambda>k. if k \<in> set os then None else chunks (w_db w3) k)\<rparr>"
  proof (cases "os = []")
    case True
    then show ?thesis using c by (simp add: DeleteChunks_def ret_apply)
  next
    case False
    then show ?thesis using c unfolding DeleteChunks_def if_not_P [OF False] by (elim exec_Inr) (auto split: if_splits)
  qed
  then show ?thesis
    using w2 w3 by (auto simp: reclaimed_def sameRows_def dropObject_def)
qed

lemma DecRef_subset: "DecRef hs w = (Inr os, w') \<Longrightarrow> set os \<subseteq> set hs"
  by (cases "hs = []") (auto simp: DecRef_def ret_apply elim!: bnd_InrE query_Inr)

lemma reclaimObject_subset: "reclaimObject i w = (Inr os, w') \<Longrightarrow> set os \<subseteq> set (hashesOf (w_db w) i)"
  by (auto simp: reclaimObject_def ChunkHashesOf_def ret_apply elim!: bnd_InrE query_Inr dest!: DecRef_subset)

lemma deleteTx_orphans:
  assumes "InTx (deleteTx caller i) w = (Inr (f, os), w')"
  shows "set os \<subseteq> set (hashesOf (w_db w) i)"
proof -
  obtain fs fs' w0 where b: "deleteTx caller i (w\<lparr>w_faults := fs\<rparr>) = (Inr (f, os), w0)"
    using assms by (rule InTx_Inr)
  obtain w1 w2 w3 x where e: "sameFiles (w\<lparr>w_faults := fs\<rparr>) w1" and g: "GetObject i w1 = (Inr x, w2)"
    and rc: "reclaimObject i w2 = (Inr os, w3)"
    using b by (auto simp: deleteTx_def ret_apply elim!: bnd_InrE dest!: conv_sameFiles(1))
  have "w_db w2 = w_db w1" using g unfolding GetObject_def by (rule query_Inr) simp
  then have "hashesOf (w_db w2) i = hashesOf (w_db w) i"
    using e by (simp add: hashesOf_def versionsOf_def sameFiles_def)
  then show ?thesis using reclaimObject_subset [OF rc] by simp
qed

lemma reclaimed_same: "reclaimed i os d (w_db w) \<Longrightarrow> sameFiles w w' \<Longrightarrow> reclaimed i os d (w_db w')"
  "reclaimed i os (w_db w') d' \<Longrightarrow> sameFiles w w' \<Longrightarrow> reclaimed i os (w_db w) d'"
  by (simp_all add: reclaimed_def sameFiles_def dropObject_def versionsOf_def)

lemma deleteTx_effect:
  assumes "InTx (deleteTx caller i) w = (Inr (f, os), w')"
  shows "reclaimed i os (w_db w) (w_db w')" "i \<noteq> []"
    "f = (case findObject (w_db w) i of None \<Rightarrow> None | Some x \<Rightarrow> ob_FolderID x)"
proof -
  obtain fs fs' w0 where b: "deleteTx caller i (w\<lparr>w_faults := fs\<rparr>) = (Inr (f, os), w0)" and w': "w' = w0\<lparr>w_faults := fs'\<rparr>"
    using assms by (rule InTx_Inr)
  obtain w1 w2 w3 x where e: "sameFiles (w\<lparr>w_faults := fs\<rparr>) w1" and g: "GetObject i w1 = (Inr x, w2)"
    and rc: "reclaimObject i w2 = (Inr os, w3)" and rm: "Remove i w3 = (Inr (), w0)"
    and f: "f = (case x of None \<Rightarrow> None | Some y \<Rightarrow> ob_FolderID y)"
    using b by (auto simp: deleteTx_def ret_apply elim!: bnd_InrE dest!: conv_sameFiles(1))
  obtain gs where x: "x = findObject (w_db w1) i" "w2 = w1\<lparr>w_faults := gs\<rparr>"
    using g unfolding GetObject_def by (rule query_Inr)
  have s: "sameFiles (w\<lparr>w_faults := fs\<rparr>) w2" using e x by simp
  have "reclaimed i os (w_db w) (w_db w0)"
    using reclaimed_same(1) [OF reclaimed_same(2) [OF reclaimObject_effect [OF rc] s] conv_sameFiles(3) [OF rm]] by simp
  then show "reclaimed i os (w_db w) (w_db w')" using w' by simp
  show "i \<noteq> []" using rm by (auto simp: Remove_def fail_apply split: if_splits)
  show "f = (case findObject (w_db w) i of None \<Rightarrow> None | Some x \<Rightarrow> ob_FolderID x)"
    using f x e by (simp add: findObject_def sameFiles_def)
qed

context file_store
begin

lemma delete_blobs:
  "clean w \<Longrightarrow> (\<And>h. h \<in> set os \<Longrightarrow> valid h) \<Longrightarrow>
   \<exists>w'. foreach (\<lambda>h. ignore (bs_Delete (sv_blobs V) h)) os w = (Inr (), w') \<and> clean w' \<and> blob_frame w w' \<and>
     blobs w' = (\<lambda>h. if h \<in> set os then None else blobs w h)"
proof (induction os arbitrary: w)
  case Nil
  then show ?case by (simp add: run)
next
  case (Cons h os)
  obtain w1 where d: "bs_Delete S h w = (Inr (), w1)" "clean w1"
    using Delete_clean [OF Cons.prems(1), of h] Cons.prems(2) by auto
  have b1: "blobs w1 = (blobs w)(h := None)"
    using Delete_effect [OF d(1)] Delete_result [OF d(1)] by auto
  have "\<And>k. k \<in> set os \<Longrightarrow> valid k" using Cons.prems(2) by simp
  from Cons.IH [OF d(2) this] obtain w' where "foreach (\<lambda>h. ignore (bs_Delete (sv_blobs V) h)) os w1 = (Inr (), w')" "clean w'" "blob_frame w1 w'"
    "blobs w' = (\<lambda>k. if k \<in> set os then None else blobs w1 k)"
    by blast
  then have "foreach (\<lambda>h. ignore (bs_Delete (sv_blobs V) h)) (h # os) w = (Inr (), w')" "clean w'" "blob_frame w w'"
    "blobs w' = (\<lambda>k. if k \<in> set (h # os) then None else blobs w k)"
    using d b1 backed blob_frame_trans [OF Delete_frame [OF d(1)]] by (simp_all add: bnd_def fun_eq_iff)
  then show ?case by blast
qed

lemma DeleteFile_effect:
  assumes F: "fga_ok (sv_fga V)" and c: "clean w" and con: "consistent True V (blobs w) (w_db w)"
    and val: "\<And>h. h \<in> dom (chunks (w_db w)) \<Longrightarrow> valid h"
    and del: "DeleteFile V caller i w = (Inr (), w')"
  shows "objects (w_db w') = filter (\<lambda>x. ob_ID x \<noteq> i) (objects (w_db w))"
    "versions (w_db w') = filter (\<lambda>v. ve_Object v \<noteq> i) (versions (w_db w))"
    "blobs w' h = (if h \<in> set (hashesOf (w_db w) i) \<and> refs (w_db w') h = 0 then None else blobs w h)"
proof -
  obtain w1 f os w2 w3 w4 w5 where a: "authorizeAccess V caller (fileObj i) w = (Inr (), w1)"
    and tx: "InTx (deleteTx caller i) w1 = (Inr (f, os), w2)"
    and fe: "foreach (\<lambda>h. ignore (bs_Delete (sv_blobs V) h)) os w2 = (Inr (), w3)"
    and ul: "unlinkFolder V f (fileObj i) w3 = (Inr (), w4)"
    and rv: "guarded (sv_revoker V) (ignore (RevokeSessions i)) w4 = (Inr (), w5)"
    and dt: "DeleteTuple (sv_fga V) caller Relation (fileObj i) w5 = (Inr (), w')"
    using del unfolding DeleteFile_def authorize_def by (auto elim!: bnd_InrE)
  have w1: "w_db w1 = w_db w" "w_fs w1 = w_fs w" using authorizeAccess_Inr [OF a F] by auto
  have "clean w1" by (rule clean_after [where m = "authorizeAccess V caller (fileObj i)", OF a c]) (simp_all add: keeps_authorize calm_tuples)
  then have c2: "clean w2" by (rule clean_after [where m = "InTx (deleteTx caller i)", OF tx]) (intro keeps_fs_InTx keeps_fs_txs calm_InTx calm_txs)+
  have fs2: "w_fs w2 = w_fs w1" using keepsD2 [OF keeps_fs_InTx [OF keeps_fs_txs(3)] _ tx, of "w_fs w1"] by simp
  have bl: "blobs w1 = blobs w" "blobs w2 = blobs w1" by (rule blobs_frame, rule w1 fs2)+
  note rec = deleteTx_effect(1) [OF tx]
  have g1: "good True (dom (blobs w)) noSlack (w_db w1)" using con w1 by (simp add: consistent_def)
  have g2: "good True (dom (blobs w)) noSlack (w_db w2)" "set os \<inter> dom (chunks (w_db w2)) = {}"
    using hoareD(1) [OF good_Delete_tx g1 tx] by auto
  have os: "set os \<subseteq> set (hashesOf (w_db w) i)"
    using deleteTx_orphans [OF tx] w1 by simp
  have in_rows: "set (hashesOf (w_db w) i) \<subseteq> dom (chunks (w_db w))"
    using g1 w1 by (auto simp: good_def cnt_def refs_def hashesOf_def count_list_0_iff)
  obtain w3' where "foreach (\<lambda>h. ignore (bs_Delete (sv_blobs V) h)) os w2 = (Inr (), w3')" "blob_frame w2 w3'"
     "blobs w3' = (\<lambda>h. if h \<in> set os then None else blobs w2 h)"
    using delete_blobs [OF c2, of os] val os in_rows by blast
  then have w3: "w_db w3 = w_db w2" "blobs w3 = (\<lambda>h. if h \<in> set os then None else blobs w h)"
    using fe bl by (auto simp: blob_frame_def)
  let ?fr = "\<lambda>u. w_fs u = w_fs w3 \<and> sameRows (w_db w2) (w_db u)"
  have "?fr w3" using w3 by (simp add: sameRows_def)
  then have f4: "?fr w4" using keepsD2 [of ?fr "unlinkFolder V f (fileObj i)", OF keeps_link(2) _ ul] by (simp add: tupleless_def faultless_def)
  have kg: "keeps ?fr (guarded (sv_revoker V) (ignore (RevokeSessions i)))"
    unfolding RevokeSessions_def wopiDeleteByObject_def
    by (intro keeps_rules) (auto simp: dropSessions_def sameRows_def faultless_def)
  have "?fr w5" by (rule keepsD2 [of ?fr "guarded (sv_revoker V) (ignore (RevokeSessions i))", OF kg f4 rv])
  then have "?fr w'"
    using keepsD2 [of ?fr "DeleteTuple (sv_fga V) caller Relation (fileObj i)", OF keeps_tuple_writes(2) _ dt]
    by (simp add: tupleless_def faultless_def)
  then have fin: "blobs w' = blobs w3" "sameRows (w_db w2) (w_db w')" using blobs_frame by blast+
  show "objects (w_db w') = filter (\<lambda>x. ob_ID x \<noteq> i) (objects (w_db w))"
    "versions (w_db w') = filter (\<lambda>v. ve_Object v \<noteq> i) (versions (w_db w))"
    using rec fin w1 by (simp_all add: reclaimed_def sameRows_def dropObject_def)
  have refs: "refs (w_db w') h = refs (w_db w2) h" using fin by (simp add: refs_def sameRows_def)
  have "h \<in> set os \<longleftrightarrow> h \<in> set (hashesOf (w_db w) i) \<and> refs (w_db w2) h = 0"
  proof
    assume h: "h \<in> set os"
    then have "chunks (w_db w2) h = None" using g2(2) by blast
    then show "h \<in> set (hashesOf (w_db w) i) \<and> refs (w_db w2) h = 0" using g2(1) os h by (auto simp: good_def cnt_def)
  next
    assume h: "h \<in> set (hashesOf (w_db w) i) \<and> refs (w_db w2) h = 0"
    show "h \<in> set os"
    proof (rule ccontr)
      assume "h \<notin> set os"
      then obtain k where k: "chunks (w_db w2) h = Some k" using rec in_rows h w1 by (auto simp: reclaimed_def)
      then have "0 < ck_Ref k" "ck_Ref k = int (refs (w_db w2) h)"
        using g2(1) by (auto simp: good_def cnt_def positive_def noSlack_def)
      then show False using h by simp
    qed
  qed
  then show "blobs w' h = (if h \<in> set (hashesOf (w_db w) i) \<and> refs (w_db w') h = 0 then None else blobs w h)"
    using fin w3 refs by simp
qed

end

end
