(* ===== verification/File_Spec.thy ===== *)
theory File_Spec
  imports File_Effects
begin

text \<open>
  The file service on the file-system store, as \<open>main.go\<close> wires it, and what it promises: round trips
  through upload, save-back and download, no lost update, exact reclamation, nothing for a caller
  without access. The laws of \<open>file_store\<close> are discharged for it here.
\<close>

section \<open>The wired service\<close>

definition onDisk :: "string \<Rightarrow> svc \<Rightarrow> svc" where
  "onDisk root V = V\<lparr>sv_blobs := FS root\<rparr>"

lemma onDisk_simps [simp]:
  "sv_blobs (onDisk root V) = FS root" "sv_P (onDisk root V) = sv_P V" "sv_cipher (onDisk root V) = sv_cipher V"
  "sv_fga (onDisk root V) = sv_fga V" "sv_revoker (onDisk root V) = sv_revoker V" "svc_ok (onDisk root V) = svc_ok V"
  by (simp_all add: onDisk_def svc_ok_def)

interpretation disk: file_store "FS root" "fsBlobs root" validKey fsClean "onDisk root V" for root V
  by unfold_locales simp

lemma validKey_disk: "svc_ok V \<Longrightarrow> validKey (ChunkHash (sv_P (onDisk root V)) y)"
  by (simp add: svc_ok_def validKey_ChunkHash)

section \<open>Refusal\<close>

text \<open>The answer to a caller without access: the error, and no effect.\<close>

definition denied :: "kamara_db world \<Rightarrow> (err + 'a) \<times> kamara_db world \<Rightarrow> bool" where
  "denied w x \<longleftrightarrow> (fst x = Inl ErrForbidden \<or> fst x = Inl ErrIO \<and> \<not> calm w) \<and> (\<exists>fs. snd x = w\<lparr>w_faults := fs\<rparr>)"

lemma denied_bnd:
  assumes F: "fga_ok (sv_fga V)" and no: "\<not> can_access (w_fga w) (OpenFGAObject u) x"
  shows "denied w (bnd (authorizeAccess V u x) g w)"
proof -
  obtain r w' where a: "authorizeAccess V u x w = (r, w')" by fastforce
  have c: "r = Inl ErrForbidden" if "calm w"
  proof -
    have "authorizeAccess V u x w = (Inl ErrForbidden, w)"
      using that F no
      by (simp add: authorizeAccess_def Check_def fgaAsk_def bnd_def fga_ok_def userTuple_def rawTuple_def run)
    then show ?thesis using a by simp
  qed
  show ?thesis
    using authorizeAccess_outcome [OF a F] no c a by (auto simp: denied_def bnd_def)
qed

text \<open>A caller without access gets nothing and changes nothing: every operation on a file, and an
  upload into a folder, fails with the forbidden error (or with an infrastructure error before the check
  answered), the database, the tuples, the blobs and the clock are untouched, and a download writes no byte.\<close>

theorem file_access_denied:
  assumes "fga_ok (sv_fga S)" "\<not> can_access (w_fga w) (OpenFGAObject u) (fileObj i)"
  shows "denied w (GetFile S u i w) \<and> denied w (ListVersions S u i w) \<and> denied w (LatestOrdinal S u i w) \<and>
    denied w (WriteVersion S u i r w) \<and> denied w (WriteVersionAt S u i n r w) \<and> denied w (DeleteFile S u i w) \<and>
    (\<exists>res w'. Download S u i (w, out) = (res, (w', out)) \<and> denied w (res, w'))"
proof -
  note d = denied_bnd [OF assms]
  obtain ra wa where b: "authorizeAccess S u (fileObj i) w = (ra, wa)" by fastforce
  have na: "ra \<noteq> Inr ()" using authorizeAccess_outcome [OF b assms(1)] assms(2) by auto
  then obtain e where e: "ra = Inl e" by (cases ra) auto
  then have "denied w (Inl e :: err + unit, wa)" using d [of ret] b by simp
  moreover have "Download S u i (w, out) = (Inl e, (wa, out))"
    using b e by (simp add: Download_def authorize_def bnd_def lift_def)
  ultimately show ?thesis
    by (simp add: GetFile_def ListVersions_def LatestOrdinal_def WriteVersion_def WriteVersionAt_def
        writeVersion_def DeleteFile_def authorize_def d)
qed

section \<open>A small deployment\<close>

definition demoSvc :: svc where
  "demoSvc = \<lparr>sv_P = toyPrims, sv_cipher = toyCipher, sv_blobs = FS ''/data'', sv_fga = modelFga,
     sv_mime = (\<lambda>_. []), sv_coll = map (\<lambda>c. of_char c), sv_revoker = True\<rparr>"

definition emptyDb :: kamara_db where
  "emptyDb = \<lparr>subject_pseudonyms = [], audit_events = [], search_documents = [], objects = [], versions = [],
     version_chunks = [], chunks = Map.empty, folders = [], wopi_sessions = Map.empty\<rparr>"

definition ann :: subject where
  "ann = \<lparr>sub_Instance = ''acme'', sub_UserID = ''ann''\<rparr>"

lemma demo_simps [simp]:
  "fga_ok (sv_fga demoSvc)" "svc_ok demoSvc" "onDisk ''/data'' demoSvc = demoSvc" "\<not> Zero ann"
  "sv_P demoSvc = toyPrims" "sv_cipher demoSvc = toyCipher" "sv_blobs demoSvc = FS ''/data''" "sv_fga demoSvc = modelFga"
  by (simp_all add: demoSvc_def svc_ok_def onDisk_def Zero_def ann_def)

theorem file_access_denied_witness:
  "fst (DeleteFile demoSvc ann ''1'' (demoWorld emptyDb)) = Inl ErrForbidden"
proof -
  have "\<not> can_access (w_fga (demoWorld emptyDb)) (OpenFGAObject ann) (fileObj ''1'')"
    by (rule can_access_none) simp
  from file_access_denied [of demoSvc, OF _ this] show ?thesis by (simp add: denied_def)
qed

section \<open>Round trips\<close>

lemma demo_start [simp]:
  "fsClean (demoWorld d)" "consistent ex demoSvc Map.empty emptyDb"
  by (simp_all add: fsClean_def consistent_def good_def tables_ok_def conv_ok_def cnt_def positive_def refs_def
      noSlack_def sound_def emptyDb_def)

text \<open>Single statements without faults.\<close>

lemma insertVersionRow_calm: "calm w \<Longrightarrow> insertVersionRow v w = execRaw (addVersion v) w"
  by (simp add: insertVersionRow_def bnd_def next_fault_calm)

lemma Emit_first:
  assumes "calm w" "\<not> Zero a" "act \<noteq> []" "ao_Type ob \<noteq> []" "ao_ID ob \<noteq> []"
    and "subject_pseudonyms (w_db w) = []" "audit_events (w_db w) = []"
  shows "\<exists>w'. Emit a act ob w = (Inr (), w')"
  using assms
  by (simp add: Emit_def TokenFor_def PseudonymStore_def pgLookup_def pgSave_def newToken_def
      bnd_def catch_def V7_run time_now_def auditAppend_def randRead_def pgTokenOf_def
      pgHolder_def run del: upt_Suc)

lemma Feed_calm:
  "calm w \<Longrightarrow> sd_ID doc \<noteq> [] \<Longrightarrow> sd_Type doc \<noteq> [] \<Longrightarrow> \<not> Zero (sd_Owner doc) \<Longrightarrow> sd_Permalink doc \<noteq> [] \<Longrightarrow>
   \<exists>w'. Feed doc w = (Inr (), w')"
  by (simp add: Feed_def searchUpsert_def)

lemma emptyDb_simps [simp]:
  "subject_pseudonyms emptyDb = []" "audit_events emptyDb = []" "objects emptyDb = []" "versions emptyDb = []"
  "version_chunks emptyDb = []" "chunks emptyDb = Map.empty" "folders emptyDb = []"
  by (simp_all add: emptyDb_def)

lemma first_uploadTx:
  assumes c: "calm w" and db: "w_db w = emptyDb" and o: "\<not> Zero owner" and i: "ob_ID x \<noteq> []" "ob_FolderID x = None"
  shows "\<exists>w'. InTx (uploadTx owner x v tot [ref]) w = (Inr (), w') \<and> calm w'"
proof -
  obtain w1 where io: "InsertObject x w = (Inr (), w1)" and w1: "calm w1" "w_db w1 = emptyDb\<lparr>objects := [x]\<rparr>"
    using c db i by (simp add: InsertObject_def hasFolder_def)
  obtain w2 where iv: "InsertVersion (ob_ID x) v 0 tot [ref] w1 = (Inr (), w2)"
    and c2: "calm w2" and db2: "subject_pseudonyms (w_db w2) = []" "audit_events (w_db w2) = []"
    using w1 by (simp add: InsertVersion_def catch_def insertVersionRow_calm execRaw_def addVersion_def bnd_def
        insertRef_def upsertChunk_def insertManifest_def run)
  obtain w3 where em: "Emit owner ''kamara.file.created'' (auditObj FileType (ob_ID x) (Permalink (ob_ID x))) w2 = (Inr (), w3)"
    using Emit_first [OF c2 o _ _ _ db2] i by (fastforce simp: auditObj_def FileType_def)
  have c3: "calm w3" by (rule keepsD2 [OF calm_conv(1) c2 em])
  let ?doc = "\<lparr>sd_ID = ob_ID x, sd_Type = FileType, sd_Permalink = Permalink (ob_ID x), sd_Owner = owner, sd_Text = ob_Name x\<rparr>"
  obtain w4 where fe: "Feed ?doc w3 = (Inr (), w4)"
    using Feed_calm [OF c3, of ?doc] i o by (auto simp: FileType_def Permalink_def)
  have c4: "calm w4" by (rule keepsD2 [OF calm_conv(2) c3 fe])
  have "uploadTx owner x v tot [ref] w = (Inr (), w4)"
    using io iv em fe by (simp add: uploadTx_def bnd_def)
  then show ?thesis using c c4 by (simp add: InTx_calm)
qed

text \<open>An upload into the empty deployment returns.\<close>

lemma demo_upload:
  "\<exists>x w1. Upload demoSvc ann None ''a.txt'' demoReader (demoWorld emptyDb) = (Inr x, w1)"
proof -
  let ?w = "demoWorld emptyDb"
  obtain w1 where i: "Ingest toyPrims (FS ''/data'') toyCipher demoReader ?w = (Inr (manifest toyPrims [[1, 2, 3]], 3), w1)"
    and c1: "fsClean w1"
    using fs_store.Ingest_clean [of demoReader ?w toyPrims "''/data''" toyCipher] validKey_ChunkHash by auto
  have db: "w_db w1 = emptyDb" "w_fga w1 = []" "w_now w1 = 0"
    using fs_store.Ingest_spec(1) [OF _ i] by (simp_all add: blob_frame_def)
  have cal: "calm w1" using c1 by (simp add: fsClean_def)
  define w2 where "w2 = w1\<lparr>w_rand := (\<lambda>i. w_rand w1 (i + 10))\<rparr>"
  define oi where "oi = formatUUID (v7Bytes (unixMilli 0) (map (w_rand w1) [0..<10]))"
  have v1: "V7 w1 = (Inr oi, w2)" using db by (simp add: V7_run w2_def oi_def)
  have oi: "oi \<noteq> []" by (rule V7_nonempty [OF v1])
  define w3 where "w3 = w2\<lparr>w_rand := (\<lambda>i. w_rand w2 (i + 10))\<rparr>"
  obtain vi where v2: "V7 w2 = (Inr vi, w3)" by (simp add: V7_run w3_def)
  have w3: "calm w3" "w_db w3 = emptyDb" "w_fga w3 = []" using cal db by (simp_all add: w3_def w2_def)
  define x where "x = \<lparr>ob_ID = oi, ob_Owner = ann, ob_Name = ''a.txt'', ob_Size = 3, ob_FolderID = None,
      ob_ContentType = contentTypeOf demoSvc ''a.txt'', ob_Created = 0, ob_Updated = 0\<rparr>"
  obtain w4 where tx: "InTx (uploadTx ann x vi 3 (manifest toyPrims [[1, 2, 3]])) w3 = (Inr (), w4)" and c4: "calm w4"
    using first_uploadTx [OF w3(1,2), of ann x vi 3] oi by (auto simp: x_def)
  have "sameOut w3 w4" by (rule keepsD2 [OF keeps_InTx [OF keeps_out_txs(2)] _ tx]) simp_all
  then have g4: "w_fga w4 = []" using w3 by (simp add: sameOut_def)
  then obtain w5 where wt: "WriteTuple modelFga ann Relation (fileObj oi) w4 = (Inr (), w5)"
    using c4 by (simp add: WriteTuple_def fgaChange_def modelFga_def)
  show ?thesis
    using i v1 v2 tx wt db
    by (simp add: Upload_def authorizeFolderOpt_def linkFolder_def bnd_def time_now_def x_def [symmetric] run)
qed

text \<open>C4. Upload and download: if an upload returns on a fault-free world, then the owner downloads exactly the
  uploaded bytes, whatever was stored before, provided no two different chunk contents in play have the same hash.\<close>

theorem Upload_Download:
  assumes "svc_ok S" "fga_ok (sv_fga S)" "progressing r" "fsClean w"
    "consistent ex (onDisk root S) (fsBlobs root w) (w_db w)"
    "inj_on (ChunkHash (sv_P S)) (set (chunks_of (content r)) \<union>
       {x. \<exists>h. readable (sv_P S) (sv_cipher S) (fsBlobs root w) h x})"
    "Upload (onDisk root S) owner folderID name r w = (Inr x, w1)"
  shows "\<exists>w2. Download (onDisk root S) owner (ob_ID x) (w1, []) = (Inr (), (w2, content r))"
  by (rule disk.Upload_then_Download [OF _ _ assms(3) validKey_disk [OF assms(1)] assms(4,5) _ assms(7)])
    (use assms(1,2,6) in simp_all)

theorem Upload_Download_witness:
  "\<exists>x w1 w2. Upload demoSvc ann None ''a.txt'' demoReader (demoWorld emptyDb) = (Inr x, w1) \<and>
     Download demoSvc ann (ob_ID x) (w1, []) = (Inr (), (w2, [1, 2, 3]))"
proof -
  obtain x w1 where u: "Upload (onDisk ''/data'' demoSvc) ann None ''a.txt'' demoReader (demoWorld emptyDb) = (Inr x, w1)"
    using demo_upload by auto
  have "inj_on (ChunkHash (sv_P demoSvc)) (set (chunks_of (content demoReader)) \<union>
       {x. \<exists>h. readable (sv_P demoSvc) (sv_cipher demoSvc) (fsBlobs ''/data'' (demoWorld emptyDb)) h x})"
    by (simp add: readable_def)
  from Upload_Download [OF _ _ _ _ _ this u, of True] u show ?thesis by auto
qed

section \<open>Nothing dangles\<close>

definition latestHashes :: "kamara_db \<Rightarrow> string \<Rightarrow> string list" where
  "latestHashes d i = (case latestVersion d i of None \<Rightarrow> []
     | Some v \<Rightarrow> map vc_Hash (sort_key vc_Idx (filter (\<lambda>x. vc_Version x = ve_ID v) (version_chunks d))))"

lemma manifestRows_hashes:
  assumes "good ex X noSlack d"
  shows "map cr_Hash (manifestRows d v) = map vc_Hash (sort_key vc_Idx (filter (\<lambda>x. vc_Version x = v) (version_chunks d)))"
    and "x \<in> set (version_chunks d) \<Longrightarrow> vc_Hash x \<in> X"
proof -
  have row: "chunks d (vc_Hash x) \<noteq> None" if "x \<in> set (version_chunks d)" for x
  proof
    assume "chunks d (vc_Hash x) = None"
    then have "refs d (vc_Hash x) = 0" using assms by (simp add: good_def cnt_def)
    then show False using that by (simp add: refs_def count_list_0_iff)
  qed
  show "map cr_Hash (manifestRows d v) = map vc_Hash (sort_key vc_Idx (filter (\<lambda>x. vc_Version x = v) (version_chunks d)))"
    unfolding manifestRows_def by (rule map_filter_rows) (use row in simp)
  show "vc_Hash x \<in> X" if "x \<in> set (version_chunks d)" using row [OF that] assms by (auto simp: good_def)
qed

text \<open>Nothing dangles: in a consistent state every file can be downloaded by whoever has access; the
  download writes, in manifest order, contents with the hashes of the latest version's manifest.\<close>

theorem Download_total:
  assumes "fga_ok (sv_fga S)" and cal: "calm w" and "consistent ex (onDisk root S) (fsBlobs root w) (w_db w)"
    "can_access (w_fga w) (OpenFGAObject u) (fileObj i)"
  shows "\<exists>xs w'. map (ChunkHash (sv_P S)) xs = latestHashes (w_db w) i \<and>
    Download (onDisk root S) u i (w, []) = (Inr (), (w', concat xs))"
proof (cases "latestVersion (w_db w) i")
  case None
  have "Download (onDisk root S) u i (w, []) = (Inr (), (w, []))"
    using None authorizeAccess_calm [OF cal _ assms(4), of "onDisk root S"] assms(1) cal
    by (simp add: Download_def authorize_def ManifestOf_def Reassemble_def bnd_def lift_def run)
  then show ?thesis using None by (intro exI [of _ "[]"]) (auto simp: latestHashes_def)
next
  case (Some v)
  have g: "good ex (dom (fsBlobs root w)) noSlack (w_db w)" and sd: "sound (sv_P S) (sv_cipher S) (fsBlobs root w)"
    using assms(3) by (simp_all add: consistent_def)
  have p: "presents (w_db w) i (ve_Ordinal v) (latestHashes (w_db w) i)"
    using Some manifestRows_hashes(1) [OF g] by (simp add: presents_def latestHashes_def)
  have "\<exists>x. readable (sv_P S) (sv_cipher S) (fsBlobs root w) h x" if "h \<in> set (latestHashes (w_db w) i)" for h
    using that Some manifestRows_hashes(2) [OF g] sd by (force simp: latestHashes_def sound_def readable_def)
  then obtain f where f: "\<And>h. h \<in> set (latestHashes (w_db w) i) \<Longrightarrow> readable (sv_P S) (sv_cipher S) (fsBlobs root w) h (f h)"
    by metis
  let ?xs = "map f (latestHashes (w_db w) i)"
  have "list_all2 (readable (sv_P S) (sv_cipher S) (fsBlobs root w)) (latestHashes (w_db w) i) ?xs"
    unfolding list.rel_map using f by (intro list.rel_refl_strong)
  then obtain w' where "Download (onDisk root S) u i (w, []) = (Inr (), (w', concat ?xs))"
    using disk.Download_presents [OF _ assms(2,4) p, of root S ?xs "[]"] assms(1) by auto
  moreover have "map (ChunkHash (sv_P S)) ?xs = latestHashes (w_db w) i"
    using f unfolding readable_def by (auto intro!: map_idI) (meson Open_hash)
  ultimately show ?thesis by blast
qed

section \<open>A deployment with one file\<close>

definition demoHash :: string where
  "demoHash = ChunkHash toyPrims [1, 2, 3]"

definition demoDb :: kamara_db where
  "demoDb = emptyDb\<lparr>
     objects := [\<lparr>ob_ID = ''1'', ob_Owner = ann, ob_Name = ''a'', ob_Size = 3, ob_FolderID = None, ob_ContentType = [],
                  ob_Created = 0, ob_Updated = 0\<rparr>],
     versions := [\<lparr>ve_ID = ''v'', ve_Object = ''1'', ve_Ordinal = 0, ve_Size = 3, ve_Created = 0\<rparr>],
     version_chunks := [\<lparr>vc_Version = ''v'', vc_Idx = 0, vc_Hash = demoHash\<rparr>],
     chunks := [demoHash \<mapsto> \<lparr>ck_Size = 3, ck_Ref = 1\<rparr>]\<rparr>"

lemma demoDb_simps [simp]:
  "map ob_ID (objects demoDb) = [''1'']" "version_chunks demoDb = [\<lparr>vc_Version = ''v'', vc_Idx = 0, vc_Hash = demoHash\<rparr>]"
  "versions demoDb = [\<lparr>ve_ID = ''v'', ve_Object = ''1'', ve_Ordinal = 0, ve_Size = 3, ve_Created = 0\<rparr>]"
  "chunks demoDb = [demoHash \<mapsto> \<lparr>ck_Size = 3, ck_Ref = 1\<rparr>]" "folders demoDb = []"
  "subject_pseudonyms demoDb = []" "audit_events demoDb = []" "hashesOf demoDb ''1'' = [demoHash]"
  "latestHashes demoDb ''1'' = [demoHash]" "filter (\<lambda>x. ob_ID x \<noteq> ''1'') (objects demoDb) = []"
  by (simp_all add: demoDb_def hashesOf_def versionsOf_def latestHashes_def latestVersion_def)

lemma demoDb_good: "X demoHash \<Longrightarrow> good True {h. X h} noSlack demoDb"
  by (auto simp: good_def tables_ok_def conv_ok_def cnt_def positive_def refs_def noSlack_def demoDb_def emptyDb_def hasFolder_def)

lemma demo_file:
  "\<exists>w. fsClean w \<and> consistent True demoSvc (fsBlobs ''/data'' w) demoDb \<and> w_db w = demoDb \<and>
     w_fga w = [(OpenFGAObject ann, Relation, fileObj ''1'')]"
proof -
  let ?w = "demoWorld emptyDb"
  obtain w1 where i: "Ingest toyPrims (FS ''/data'') toyCipher demoReader ?w = (Inr (manifest toyPrims [[1, 2, 3]], 3), w1)"
    and c1: "fsClean w1"
    using fs_store.Ingest_clean [of demoReader ?w toyPrims "''/data''" toyCipher] validKey_ChunkHash by auto
  note sp = fs_store.Ingest_spec [OF _ i]
  have h: "fsBlobs ''/data'' w1 demoHash \<noteq> None" using sp(3) by (simp add: demoHash_def)
  have sd: "sound toyPrims toyCipher (fsBlobs ''/data'' w1)"
    using grows_sound [OF toy_ok(2,4) sp(2)] by (simp add: sound_def)
  define w where "w = w1\<lparr>w_db := demoDb, w_fga := [(OpenFGAObject ann, Relation, fileObj ''1'')]\<rparr>"
  have b: "fsBlobs ''/data'' w = fsBlobs ''/data'' w1" by (rule fs_store.blobs_frame) (simp add: w_def)
  have "good True (dom (fsBlobs ''/data'' w)) noSlack demoDb"
    using demoDb_good [of "\<lambda>k. fsBlobs ''/data'' w k \<noteq> None"] h b by (simp add: dom_def)
  then have "consistent True demoSvc (fsBlobs ''/data'' w) demoDb" using sd b by (simp add: consistent_def)
  moreover have "fsClean w" using c1 by (simp add: w_def fsClean_def)
  ultimately show ?thesis by (intro exI [of _ w]) (simp add: w_def)
qed

theorem Download_total_witness:
  "\<exists>w w' x. w_db w = demoDb \<and> ChunkHash toyPrims x = demoHash \<and> Download demoSvc ann ''1'' (w, []) = (Inr (), (w', x))"
proof -
  obtain w where w: "fsClean w" "consistent True demoSvc (fsBlobs ''/data'' w) (w_db w)" "w_db w = demoDb"
     "w_fga w = [(OpenFGAObject ann, Relation, fileObj ''1'')]"
    using demo_file by metis
  have "can_access (w_fga w) (OpenFGAObject ann) (fileObj ''1'')" using w(4) by (intro can_access.owner) simp
  from Download_total [of demoSvc w True "''/data''", OF _ fs_store.clean_calm [OF w(1)] _ this] w obtain x w' where
    "ChunkHash toyPrims x = demoHash" "Download demoSvc ann ''1'' (w, []) = (Inr (), (w', x))" by auto
  then show ?thesis using w(3) by blast
qed

section \<open>Save-back\<close>

text \<open>C5. No lost update, under every fault schedule and whatever other users save to the object while the save is
  being retried: a conditional save that returns was made against the latest ordinal and returns its successor,
  the versions are then those from before the request and the saved one, nobody else's in between, and the object
  shows the saved content. A save against any other base fails and leaves the database as it was.\<close>

theorem WriteVersionAt_no_lost_update:
  assumes "progressing r" "tables_ok (w_db w)" "WriteVersionAt (onDisk root S) caller i base r w = (res, w')"
  shows "(\<forall>s. res = Inr s \<longrightarrow> s = Itoa (base + 1) \<and> map_option ve_Ordinal (latestVersion (w_db w) i) = Some base \<and>
       (\<exists>v. versions (w_db w') = versions (w_db w) @ [v] \<and> ve_Object v = i \<and> ve_Ordinal v = base + 1) \<and>
       presents (w_db w') i (base + 1) (map (ChunkHash (sv_P S)) (chunks_of (content r)))) \<and>
    (map_option ve_Ordinal (latestVersion (w_db w) i) \<noteq> Some base \<longrightarrow> (\<exists>e. res = Inl e) \<and> w_db w' = w_db w)"
proof -
  have wr: "writeVersion (onDisk root S) caller i r (Some base) w = (res, w')"
    using assms(3) by (simp add: WriteVersionAt_def)
  show ?thesis
    using disk.writeVersion_effect [OF assms(1,2), of root S caller i base _ w'] wr
      disk.writeVersion_stale [OF assms(1) _ wr] by (intro conjI allI impI) simp_all
qed

text \<open>The file of the small deployment saved anew, and a race for its next ordinal that is lost.\<close>

lemma demo_saveTx:
  assumes c: "calm w" and db: "w_db w = demoDb" and v: "v \<noteq> ''v''" and b: "base = None \<or> base = Some 0"
  shows "\<exists>w'. InTx (writeTx ann ''1'' v base tot [ref]) w = (Inr 1, w') \<and> calm w'"
proof -
  have l: "latestVersion demoDb ''1'' = Some \<lparr>ve_ID = ''v'', ve_Object = ''1'', ve_Ordinal = 0, ve_Size = 3, ve_Created = 0\<rparr>"
    by (rule latestVersion_eq) auto
  have ob: "ob_ID ` set (objects demoDb) = {''1''}" using demoDb_simps(1) by (metis list.set(1,2) list.set_map)
  obtain w1 where iv: "InsertVersion ''1'' v 1 tot [ref] w = (Inr (), w1)" and c1: "calm w1"
    and d1: "subject_pseudonyms (w_db w1) = []" "audit_events (w_db w1) = []"
    using c db v ob by (simp add: InsertVersion_def catch_def insertVersionRow_calm execRaw_def addVersion_def bnd_def
        insertRef_def upsertChunk_def insertManifest_def run)
  obtain w2 where ss: "SetObjectSize ''1'' tot w1 = (Inr (), w2)" and c2: "calm w2"
    and d2: "subject_pseudonyms (w_db w2) = []" "audit_events (w_db w2) = []"
    using c1 d1 by (simp add: SetObjectSize_def updObject_def)
  obtain w3 where em: "Emit ann ''kamara.file.version_written'' (auditObj FileType ''1'' (Permalink ''1'')) w2 = (Inr (), w3)"
    using Emit_first [OF c2 _ _ _ _ d2] by (fastforce simp: auditObj_def FileType_def)
  have c3: "calm w3" by (rule keepsD2 [OF calm_conv(1) c2 em])
  have "writeTx ann ''1'' v base tot [ref] w = (Inr 1, w3)"
    using c db l b iv ss em by (auto simp: writeTx_def MaxOrdinal_def bnd_def ret_apply)
  then show ?thesis using c c3 by (simp add: InTx_calm)
qed

lemma demo_attempt:
  assumes c: "calm w" and db: "w_db w = demoDb" and b: "base = None \<or> base = Some 0"
  shows "\<exists>w'. writeAttempt ann ''1'' base tot [ref] w = (Inr 1, w') \<and> calm w'"
proof -
  let ?v = "formatUUID (v7Bytes (unixMilli (w_now w)) (map (w_rand w) [0..<10]))"
  have "?v \<noteq> ''v''" by (simp add: formatUUID_def)
  then obtain w' where "InTx (writeTx ann ''1'' ?v base tot [ref]) (w\<lparr>w_rand := (\<lambda>i. w_rand w (i + 10))\<rparr>) = (Inr 1, w')" "calm w'"
    using demo_saveTx [of "w\<lparr>w_rand := (\<lambda>i. w_rand w (i + 10))\<rparr>" ?v base tot ref] c db b by auto
  then show ?thesis by (simp add: writeAttempt_def bnd_def V7_run)
qed

lemma demo_save:
  assumes c: "fsClean w" and db: "w_db w = demoDb" and g: "w_fga w = [(OpenFGAObject ann, Relation, fileObj ''1'')]"
  shows "\<exists>w'. WriteVersionAt demoSvc ann ''1'' 0 demoReader w = (Inr ''1'', w')"
proof -
  have cal: "calm w" by (rule fs_store.clean_calm [OF c])
  have acc: "can_access (w_fga w) (OpenFGAObject ann) (fileObj ''1'')" using g by (intro can_access.owner) simp
  obtain w1 where i: "Ingest toyPrims (FS ''/data'') toyCipher demoReader w = (Inr (manifest toyPrims [[1, 2, 3]], 3), w1)"
    and c1: "fsClean w1"
    using fs_store.Ingest_clean [of demoReader w toyPrims "''/data''" toyCipher] c validKey_ChunkHash by auto
  have "w_db w1 = demoDb" using fs_store.Ingest_spec(1) [OF _ i] db by (simp add: blob_frame_def)
  then obtain w2 where at: "writeAttempt ann ''1'' (Some 0) 3 (manifest toyPrims [[1, 2, 3]]) w1 = (Inr 1, w2)"
    using demo_attempt [OF fs_store.clean_calm [OF c1], of "Some 0" 3] by (auto simp: manifest_def)
  then have "retry (maxAttempts - 1) (contended demoSvc ''1'' (writeAttempt ann ''1'' (Some 0) 3 (manifest toyPrims [[1, 2, 3]]))) w1 = (Inr 1, w2)"
    by (simp add: maxAttempts_def contended_def catch_def numeral_eq_Suc)
  then show ?thesis
    using authorizeAccess_calm [OF cal _ acc, of demoSvc] i
    by (simp add: WriteVersionAt_def writeVersion_def authorize_def bnd_def ret_apply Itoa_def decimal.simps digit_def)
qed

theorem WriteVersionAt_no_lost_update_witness:
  "\<exists>w w' v. w_db w = demoDb \<and> WriteVersionAt demoSvc ann ''1'' 0 demoReader w = (Inr ''1'', w') \<and>
     versions (w_db w') = versions demoDb @ [v] \<and> presents (w_db w') ''1'' 1 [demoHash]"
proof -
  obtain w where w: "fsClean w" "w_db w = demoDb" "w_fga w = [(OpenFGAObject ann, Relation, fileObj ''1'')]"
    "tables_ok (w_db w)" using demo_file by (auto simp: consistent_def good_def)
  then obtain w' where r: "WriteVersionAt (onDisk ''/data'' demoSvc) ann ''1'' 0 demoReader w = (Inr ''1'', w')"
    using demo_save by auto
  from WriteVersionAt_no_lost_update [OF _ w(4) r] w(2) r show ?thesis by (auto simp: demoHash_def)
qed

text \<open>The race that is lost: another save of the owner takes the ordinal while the transaction runs; the
  retry sees it and gives up, and the other save is the version that stays.\<close>

lemma race_lost:
  assumes c: "fsClean w" and db: "w_db w = demoDb" and g: "w_fga w = [(OpenFGAObject ann, Relation, fileObj ''1'')]"
  shows "\<exists>w'. retry (maxAttempts - 1) (contended demoSvc ''1'' (writeAttempt ann ''1'' (Some 0) 3 [ref]))
      (w\<lparr>w_faults := [FNone, FNone, FConflict [\<lparr>rv_Instance = ''acme'', rv_UserID = ''ann'', rv_Content = [1, 2, 3]\<rparr>]]\<rparr>) =
      (Inl ErrModified, w') \<and> map ve_Ordinal (versions (w_db w')) = [0, 1]"
proof -
  let ?rv = "\<lparr>rv_Instance = ''acme'', rv_UserID = ''ann'', rv_Content = [1, 2, 3]\<rparr>"
  let ?m = "writeAttempt ann ''1'' (Some 0) 3 [ref]"
  define w1 where "w1 = w\<lparr>w_rand := (\<lambda>i. w_rand w (i + 10))\<rparr>"
  have l: "latestVersion demoDb ''1'' = Some \<lparr>ve_ID = ''v'', ve_Object = ''1'', ve_Ordinal = 0, ve_Size = 3, ve_Created = 0\<rparr>"
    by (rule latestVersion_eq) auto
  have first: "?m (w\<lparr>w_faults := [FNone, FNone, FConflict [?rv]]\<rparr>) = (Inl ErrVersionConflict, w1\<lparr>w_faults := [FConflict [?rv]]\<rparr>)"
    using db l by (simp add: writeAttempt_def bnd_def V7_run w1_def InTx_def call_def next_fault_def writeTx_def MaxOrdinal_def query_def
        InsertVersion_def insertVersionRow_def catch_def rollback_def run)
  have c1: "fsClean w1" and d1: "w_db w1 = demoDb" "w_fga w1 = w_fga w" using c db by (simp_all add: w1_def fsClean_def)
  have acc: "can_access (w_fga w1) (OpenFGAObject ann) (fileObj ''1'')" using g d1 by (intro can_access.owner) simp
  have content_bytes: "content (bytesReader [1, 2, 3]) = [1, 2, 3]" "rd_end (bytesReader [1, 2, 3]) = REOF"
    by (simp_all add: bytesReader_def content_def)
  obtain w2 where i: "Ingest toyPrims (FS ''/data'') toyCipher (bytesReader [1, 2, 3]) w1 = (Inr (manifest toyPrims [[1, 2, 3]], 3), w2)"
    and c2: "fsClean w2"
    using fs_store.Ingest_clean [of "bytesReader [1, 2, 3]" w1 toyPrims "''/data''" toyCipher] c1 validKey_ChunkHash
    by (auto simp: content_bytes)
  have d2: "w_db w2 = demoDb" using fs_store.Ingest_spec(1) [OF _ i] d1 by (simp add: blob_frame_def)
  obtain w3 where at: "writeAttempt ann ''1'' None 3 (manifest toyPrims [[1, 2, 3]]) w2 = (Inr 1, w3)" and c3: "calm w3"
    using demo_attempt [OF fs_store.clean_calm [OF c2] d2, of None 3] by (auto simp: manifest_def)
  then obtain v w2' where tx: "InTx (writeTx ann ''1'' v None 3 (manifest toyPrims [[1, 2, 3]])) w2' = (Inr 1, w3)" and "w_db w2' = demoDb"
    using d2 that [of _ "w2\<lparr>w_rand := \<lambda>i. w_rand w2 (i + 10)\<rparr>"] by (simp add: writeAttempt_def bnd_def V7_run)
  with writeTx_effect(3) [OF tx] have vs: "versions (w_db w3) = versions demoDb @ [newVersion ''1'' v 1 3 (w_now w2')]" by simp
  have l3: "latestVersion (w_db w3) ''1'' = Some (newVersion ''1'' v 1 3 (w_now w2'))"
    by (rule latestVersion_eq) (auto simp: vs newVersion_def)
  have rs: "rivalSave demoSvc ''1'' ?rv w1 = (Inr 1, w3)"
    using authorizeAccess_calm [OF fs_store.clean_calm [OF c1] _ acc, of demoSvc] i at
    by (simp add: rivalSave_def Let_def authorize_def bnd_def ann_def)
  define w4 where "w4 = w3\<lparr>w_rand := (\<lambda>i. w_rand w3 (i + 10))\<rparr>"
  have still: "w1\<lparr>w_faults := []\<rparr> = w1" using c1 by (simp add: fsClean_def calm_def)
  have "contended demoSvc ''1'' ?m (w\<lparr>w_faults := [FNone, FNone, FConflict [?rv]]\<rparr>) = (Inl ErrVersionConflict, w3)"
    using first rs still by (simp add: contended_def catch_def rivals_def bnd_def ignore_def run)
  moreover have "?m w3 = (Inl ErrModified, w4)"
    using c3 l3 by (simp add: writeAttempt_def bnd_def V7_run InTx_calm writeTx_def MaxOrdinal_def newVersion_def rollback_def w4_def run)
  ultimately have "retry (maxAttempts - 1) (contended demoSvc ''1'' ?m) (w\<lparr>w_faults := [FNone, FNone, FConflict [?rv]]\<rparr>) = (Inl ErrModified, w4)"
    by (simp add: maxAttempts_def numeral_eq_Suc catch_def contended_def fail_apply)
  then show ?thesis by (simp add: w4_def vs newVersion_def)
qed

section \<open>Deletion\<close>

lemma fsBlobs_valid: "fsBlobs root w h \<noteq> None \<Longrightarrow> validKey h"
  by (auto simp: fsBlobs_def path_valid split: if_splits)

text \<open>C11. Deletion reclaims exactly: after a fault-free deletion that returns, the object and its versions are
  gone, a blob is gone if and only if it belonged to the object and no manifest refers to it any more, and
  the state is consistent again.\<close>

theorem DeleteFile_reclaims:
  assumes "fga_ok (sv_fga S)" "fsClean w" "consistent True (onDisk root S) (fsBlobs root w) (w_db w)"
    "DeleteFile (onDisk root S) caller i w = (Inr (), w')"
  shows "objects (w_db w') = filter (\<lambda>x. ob_ID x \<noteq> i) (objects (w_db w)) \<and>
    versions (w_db w') = filter (\<lambda>v. ve_Object v \<noteq> i) (versions (w_db w)) \<and>
    (\<forall>h. fsBlobs root w' h = (if h \<in> set (hashesOf (w_db w) i) \<and> refs (w_db w') h = 0 then None else fsBlobs root w h)) \<and>
    consistent True (onDisk root S) (fsBlobs root w') (w_db w')"
proof -
  have v: "validKey h" if "h \<in> dom (chunks (w_db w))" for h
    using that assms(3) fsBlobs_valid by (fastforce simp: consistent_def good_def)
  have "consistent True (onDisk root S) (fsBlobs root w') (w_db w')"
    by (rule keepsD2 [OF disk.DeleteFile_consistent assms(3,4)])
  then show ?thesis
    using disk.DeleteFile_effect [OF _ assms(2,3) v assms(4)] assms(1) by simp
qed

lemma Remove_calm: "calm w \<Longrightarrow> i \<noteq> [] \<Longrightarrow> \<exists>w'. Remove i w = (Inr (), w')"
  by (simp add: Remove_def searchDelete_def)

lemma demo_delete:
  assumes c: "fsClean w" and db: "w_db w = demoDb" and g: "w_fga w = [(OpenFGAObject ann, Relation, fileObj ''1'')]"
    and con: "consistent True demoSvc (fsBlobs ''/data'' w) demoDb"
  shows "\<exists>w'. DeleteFile demoSvc ann ''1'' w = (Inr (), w')"
proof -
  have cal: "calm w" using c by (simp add: fsClean_def)
  have acc: "can_access (w_fga w) (OpenFGAObject ann) (fileObj ''1'')" using g by (intro can_access.owner) simp
  obtain w1 where em: "Emit ann ''kamara.file.deleted'' (auditObj FileType ''1'' (Permalink ''1'')) w = (Inr (), w1)"
    using Emit_first [OF cal, of ann "''kamara.file.deleted''"] db by (fastforce simp: auditObj_def FileType_def)
  have c1: "calm w1" and s1: "sameFiles w w1"
    using keepsD2 [OF calm_conv(1) cal em] conv_sameFiles(1) [OF em] by auto
  have ho: "hashesOf (w_db w1) ''1'' = [demoHash]" "chunks (w_db w1) = chunks demoDb" "version_chunks (w_db w1) = version_chunks demoDb"
    "versions (w_db w1) = versions demoDb"
    using s1 db demoDb_simps(8) by (simp_all add: sameFiles_def hashesOf_def versionsOf_def)
  define d1 where "d1 = dropObject ''1'' (w_db w1)"
  have "versionsOf (w_db w1) ''1'' = [''v'']" using ho by (simp add: versionsOf_def)
  then have d1: "version_chunks d1 = []" "chunks d1 = chunks demoDb" using ho by (simp_all add: d1_def dropObject_def)
  have "DecRef [demoHash] (w1\<lparr>w_db := d1\<rparr>) = (Inr [demoHash], w1\<lparr>w_db := d1\<lparr>chunks := [demoHash \<mapsto> \<lparr>ck_Size = 3, ck_Ref = 0\<rparr>]\<rparr>\<rparr>)"
    using c1 d1 by (simp add: DecRef_def decOne_def bnd_def run fun_eq_iff)
  then obtain w2 where rc: "reclaimObject ''1'' w1 = (Inr [demoHash], w2)" and c2: "calm w2"
    using c1 ho(1) d1 by (simp add: reclaimObject_def ChunkHashesOf_def DeleteObject_def d1_def [symmetric] DeleteChunks_def bnd_def run)
  obtain w3 where rm: "Remove ''1'' w2 = (Inr (), w3)" and c3: "calm w3"
    using Remove_calm [OF c2, of "''1''"] keepsD2 [OF calm_conv(3) c2] by blast
  have go: "GetObject ''1'' w1 = (Inr (findObject (w_db w1) ''1''), w1)" using c1 by (simp add: GetObject_def)
  have fo: "(case findObject (w_db w1) ''1'' of None \<Rightarrow> None | Some y \<Rightarrow> ob_FolderID y) = None"
    using s1 db by (simp add: sameFiles_def findObject_def demoDb_def)
  have tx: "InTx (deleteTx ann ''1'') w = (Inr (None, [demoHash]), w3)"
    using em go rc rm fo cal c3 by (simp add: InTx_calm deleteTx_def bnd_def run)
  have "sameOut w w3" by (rule keepsD2 [OF keeps_InTx [OF keeps_out_txs(3)] _ tx]) simp_all
  then have g3: "w_fga w3 = w_fga w" and cl3: "fsClean w3" using c c3 by (auto simp: sameOut_def fsClean_def)
  have val: "validKey h" if "h \<in> set [demoHash]" for h
    using that by (simp add: demoHash_def validKey_ChunkHash)
  obtain w4 where de: "foreach (\<lambda>h. ignore (bs_Delete (FS ''/data'') h)) [demoHash] w3 = (Inr (), w4)"
    and c4: "fsClean w4" "blob_frame w3 w4"
    using disk.delete_blobs [where root = "''/data''" and V = demoSvc and os = "[demoHash]", OF cl3 val] by auto
  have g4: "w_fga w4 = w_fga w" "calm w4" using c4 g3 by (simp_all add: blob_frame_def fsClean_def)
  define w5 where "w5 = w4\<lparr>w_db := dropSessions (\<lambda>s. ws_ObjectID s = ''1'') (w_db w4)\<rparr>"
  have rv: "guarded (sv_revoker demoSvc) (ignore (RevokeSessions ''1'')) w4 = (Inr (), w5)"
    using g4 by (simp add: demoSvc_def RevokeSessions_def wopiDeleteByObject_def w5_def)
  obtain w6 where dt: "DeleteTuple modelFga ann Relation (fileObj ''1'') w5 = (Inr (), w6)"
    using g4 g by (simp add: DeleteTuple_def fgaChange_def modelFga_def userTuple_def rawTuple_def w5_def)
  have ul: "unlinkFolder demoSvc None (fileObj ''1'') w4 = (Inr (), w4)" by (simp add: unlinkFolder_def run)
  have a: "authorizeAccess demoSvc ann (fileObj ''1'') w = (Inr (), w)" by (rule authorizeAccess_calm [OF cal _ acc]) simp
  have "DeleteFile demoSvc ann ''1'' w = (Inr (), w6)"
    unfolding DeleteFile_def authorize_def demo_simps
    by (simp only: bnd_apply a tx de ul rv dt prod.case sum.case)
  then show ?thesis by blast
qed

theorem DeleteFile_reclaims_witness:
  "\<exists>w w'. DeleteFile demoSvc ann ''1'' w = (Inr (), w') \<and> w_db w = demoDb \<and>
     objects (w_db w') = [] \<and> fsBlobs ''/data'' w demoHash \<noteq> None \<and> fsBlobs ''/data'' w' demoHash = None"
proof -
  obtain w where w: "fsClean w" "consistent True demoSvc (fsBlobs ''/data'' w) demoDb" "w_db w = demoDb"
     "w_fga w = [(OpenFGAObject ann, Relation, fileObj ''1'')]"
    using demo_file by metis
  obtain w' where d: "DeleteFile (onDisk ''/data'' demoSvc) ann ''1'' w = (Inr (), w')"
    using demo_delete [OF w(1,3,4,2)] by auto
  note p = DeleteFile_reclaims [OF _ w(1) _ d]
  have "version_chunks (w_db w') = [] \<or> refs (w_db w') demoHash = 0"
    using p w by (auto simp: refs_def consistent_def good_def tables_ok_def)
  then have "refs (w_db w') demoHash = 0" by (auto simp: refs_def)
  moreover have "fsBlobs ''/data'' w demoHash \<noteq> None" using w(2) by (auto simp: consistent_def good_def)
  ultimately show ?thesis using p w d by (intro exI [of _ w] exI [of _ w']) simp
qed

end
