(* ===== verification/Folder.thy ===== *)
theory Folder
  imports File_Spec
begin

text \<open>
  The folder tree, \<open>kamara/internal/file/folder.go\<close>: creating, listing, renaming, moving and deleting
  folders, the walk up to the root and the recursive deletion. The loops that follow parents carry the
  source's visited set and end because it grows inside the folder table.
\<close>

section \<open>Creation and reading\<close>

definition createFolderTx :: "subject \<Rightarrow> folder \<Rightarrow> unit kamara" where
  "createFolderTx owner f =
    bnd (InsertFolder f) (\<lambda>_.
    bnd (Emit owner ''kamara.folder.created'' (auditObj FolderType (fo_ID f) (FolderPermalink (fo_ID f)))) (\<lambda>_.
    Feed \<lparr>sd_ID = fo_ID f, sd_Type = FolderType, sd_Permalink = FolderPermalink (fo_ID f), sd_Owner = owner, sd_Text = fo_Name f\<rparr>))"

definition CreateFolder :: "svc \<Rightarrow> subject \<Rightarrow> string option \<Rightarrow> string \<Rightarrow> folder kamara" where
  "CreateFolder S owner parent name =
    (if name = [] then fail ErrFolderNameRequired
     else
       bnd (authorizeFolderOpt S owner parent) (\<lambda>_.
       bnd time_now (\<lambda>now.
       bnd V7 (\<lambda>i.
       let f = \<lparr>fo_ID = i, fo_Owner = owner, fo_ParentID = parent, fo_Name = name, fo_Created = now, fo_Updated = now\<rparr> in
       bnd (InTx (createFolderTx owner f)) (\<lambda>_.
       bnd (WriteTuple (sv_fga S) owner Relation (folderObj i)) (\<lambda>_.
       bnd (linkFolder S parent (folderObj i)) (\<lambda>_.
       ret f)))))))"

definition GetFolder :: "svc \<Rightarrow> subject \<Rightarrow> string \<Rightarrow> folder kamara" where
  "GetFolder S caller i =
    bnd (authorizeFolder S caller i) (\<lambda>_.
    bnd (GetFolderRow i) (\<lambda>f.
    case f of None \<Rightarrow> fail ErrNotFound | Some g \<Rightarrow> ret g))"

record listing =
  li_Folders :: "folder list"
  li_Files :: "object list"

definition ListChildren :: "svc \<Rightarrow> subject \<Rightarrow> string option \<Rightarrow> listing kamara" where
  "ListChildren S caller folderID =
    bnd (authorizeFolderOpt S caller folderID) (\<lambda>_.
    bnd (FoldersInParent (sv_coll S) caller folderID) (\<lambda>fs.
    bnd (ObjectsInFolder (sv_coll S) caller folderID) (\<lambda>os.
    ret \<lparr>li_Folders = fs, li_Files = os\<rparr>)))"

definition AllFolders :: "svc \<Rightarrow> subject \<Rightarrow> folder list kamara" where
  "AllFolders S caller = FoldersByOwner caller"

section \<open>Walking up\<close>

lemma GetFolderRow_world: "GetFolderRow i w = (Inr f, w') \<Longrightarrow> f = findFolder (w_db w) i \<and> w_db w' = w_db w"
  unfolding GetFolderRow_def by (auto elim: query_Inr)

lemma findFolder_SomeD: "findFolder d i = Some f \<Longrightarrow> f \<in> set (folders d) \<and> fo_ID f = i"
  unfolding findFolder_def by (auto dest: find_SomeD)

text \<open>The folders that a walk has not visited yet.\<close>

definition unseen :: "kamara_db \<Rightarrow> string list \<Rightarrow> nat" where
  "unseen d seen = card (fo_ID ` set (folders d) - set seen)"

lemma unseen_less:
  assumes "Some f = findFolder d i" "i \<notin> set seen"
  shows "unseen d (i # seen) < unseen d seen"
proof -
  have "i \<in> fo_ID ` set (folders d)" using findFolder_SomeD [OF assms(1) [symmetric]] by auto
  then show ?thesis unfolding unseen_def using assms(2) by (intro psubset_card_mono) auto
qed

function ancestorsLoop :: "string option \<Rightarrow> string list \<Rightarrow> folder list \<Rightarrow> folder list kamara" where
  "ancestorsLoop cur seen chain w =
    (case cur of
       None \<Rightarrow> (Inr chain, w)
     | Some i \<Rightarrow>
         if i \<in> set seen then (Inr chain, w)
         else bnd (GetFolderRow i) (\<lambda>f w1.
           case f of
             None \<Rightarrow> (Inr chain, w1)
           | Some g \<Rightarrow> ancestorsLoop (fo_ParentID g) (i # seen) (chain @ [g]) w1) w)"
  by pat_completeness auto
termination
  by (relation "measure (\<lambda>(_, seen, _, w). unseen (w_db w) seen)")
    (auto dest!: GetFolderRow_world intro: unseen_less)

definition Ancestors :: "svc \<Rightarrow> subject \<Rightarrow> string \<Rightarrow> folder list kamara" where
  "Ancestors S caller i =
    bnd (authorizeFolder S caller i) (\<lambda>_.
    bnd (ancestorsLoop (Some i) [] []) (\<lambda>chain.
    ret (rev chain)))"

function wouldCycleLoop :: "string \<Rightarrow> string option \<Rightarrow> string list \<Rightarrow> bool kamara" where
  "wouldCycleLoop moving cur seen w =
    (case cur of
       None \<Rightarrow> (Inr False, w)
     | Some i \<Rightarrow>
         if i = moving \<or> i \<in> set seen then (Inr True, w)
         else bnd (GetFolderRow i) (\<lambda>f w1.
           case f of
             None \<Rightarrow> (Inr False, w1)
           | Some g \<Rightarrow> wouldCycleLoop moving (fo_ParentID g) (i # seen) w1) w)"
  by pat_completeness auto
termination
  by (relation "measure (\<lambda>(_, _, seen, w). unseen (w_db w) seen)")
    (auto dest!: GetFolderRow_world intro: unseen_less)

declare ancestorsLoop.simps [simp del] wouldCycleLoop.simps [simp del]

definition wouldCycle :: "string \<Rightarrow> string \<Rightarrow> bool kamara" where
  "wouldCycle moving dest = wouldCycleLoop moving (Some dest) []"

section \<open>Renaming and moving\<close>

definition reparent :: "svc \<Rightarrow> string \<Rightarrow> string option \<Rightarrow> string option \<Rightarrow> unit kamara" where
  "reparent S child old dest =
    bnd (case old of None \<Rightarrow> ret ()
         | Some f \<Rightarrow> DeleteObjectTuple (sv_fga S) (folderObj f) ParentRelation child) (\<lambda>_.
    case dest of None \<Rightarrow> ret ()
    | Some f \<Rightarrow> WriteObjectTuple (sv_fga S) (folderObj f) ParentRelation child)"

definition renameFileTx :: "subject \<Rightarrow> string \<Rightarrow> object \<Rightarrow> string \<Rightarrow> unit kamara" where
  "renameFileTx caller i x name =
    bnd (SetObjectName i name) (\<lambda>_.
    bnd (Emit caller ''kamara.file.renamed'' (auditObj FileType i (Permalink (ob_ID x)))) (\<lambda>_.
    Feed \<lparr>sd_ID = i, sd_Type = FileType, sd_Permalink = Permalink (ob_ID x), sd_Owner = ob_Owner x, sd_Text = name\<rparr>))"

definition RenameFile :: "svc \<Rightarrow> subject \<Rightarrow> string \<Rightarrow> string \<Rightarrow> unit kamara" where
  "RenameFile S caller i name =
    (if name = [] then fail ErrNameRequired
     else
       bnd (authorize S caller i) (\<lambda>_.
       bnd (GetObject i) (\<lambda>x.
       case x of
         None \<Rightarrow> fail ErrNotFound
       | Some y \<Rightarrow> InTx (renameFileTx caller i y name))))"

definition moveFileTx :: "subject \<Rightarrow> string \<Rightarrow> object \<Rightarrow> string option \<Rightarrow> unit kamara" where
  "moveFileTx caller i x dest =
    bnd (SetObjectFolder i dest) (\<lambda>_.
    Emit caller ''kamara.file.moved'' (auditObj FileType i (Permalink (ob_ID x))))"

definition MoveFile :: "svc \<Rightarrow> subject \<Rightarrow> string \<Rightarrow> string option \<Rightarrow> unit kamara" where
  "MoveFile S caller i dest =
    bnd (authorize S caller i) (\<lambda>_.
    bnd (authorizeFolderOpt S caller dest) (\<lambda>_.
    bnd (GetObject i) (\<lambda>x.
    case x of
      None \<Rightarrow> fail ErrNotFound
    | Some y \<Rightarrow>
        bnd (InTx (moveFileTx caller i y dest)) (\<lambda>_.
        reparent S (fileObj i) (ob_FolderID y) dest))))"

definition renameFolderTx :: "subject \<Rightarrow> string \<Rightarrow> folder \<Rightarrow> string \<Rightarrow> unit kamara" where
  "renameFolderTx caller i f name =
    bnd (SetFolderName i name) (\<lambda>_.
    bnd (Emit caller ''kamara.folder.renamed'' (auditObj FolderType i (FolderPermalink (fo_ID f)))) (\<lambda>_.
    Feed \<lparr>sd_ID = i, sd_Type = FolderType, sd_Permalink = FolderPermalink (fo_ID f), sd_Owner = fo_Owner f, sd_Text = name\<rparr>))"

definition RenameFolder :: "svc \<Rightarrow> subject \<Rightarrow> string \<Rightarrow> string \<Rightarrow> unit kamara" where
  "RenameFolder S caller i name =
    (if name = [] then fail ErrFolderNameRequired
     else
       bnd (authorizeFolder S caller i) (\<lambda>_.
       bnd (GetFolderRow i) (\<lambda>f.
       case f of
         None \<Rightarrow> fail ErrNotFound
       | Some g \<Rightarrow> InTx (renameFolderTx caller i g name))))"

definition moveFolderTx :: "subject \<Rightarrow> string \<Rightarrow> folder \<Rightarrow> string option \<Rightarrow> unit kamara" where
  "moveFolderTx caller i f dest =
    bnd (SetFolderParent i dest) (\<lambda>_.
    Emit caller ''kamara.folder.moved'' (auditObj FolderType i (FolderPermalink (fo_ID f))))"

definition cycleGuard :: "svc \<Rightarrow> subject \<Rightarrow> string \<Rightarrow> string option \<Rightarrow> unit kamara" where
  "cycleGuard S caller i dest = (case dest of
     None \<Rightarrow> ret ()
   | Some p \<Rightarrow>
       bnd (authorizeFolder S caller p) (\<lambda>_.
       bnd (wouldCycle i p) (\<lambda>cyclic.
       if cyclic then fail ErrCycle else ret ())))"

definition MoveFolder :: "svc \<Rightarrow> subject \<Rightarrow> string \<Rightarrow> string option \<Rightarrow> unit kamara" where
  "MoveFolder S caller i dest =
    bnd (authorizeFolder S caller i) (\<lambda>_.
    bnd (cycleGuard S caller i dest) (\<lambda>_.
    bnd (GetFolderRow i) (\<lambda>f.
    case f of
      None \<Rightarrow> fail ErrNotFound
    | Some g \<Rightarrow>
        bnd (InTx (moveFolderTx caller i g dest)) (\<lambda>_.
        reparent S (folderObj i) (fo_ParentID g) dest))))"

section \<open>Deletion\<close>

definition deleteFolderTx :: "subject \<Rightarrow> folder \<Rightarrow> unit kamara" where
  "deleteFolderTx caller f =
    bnd (Emit caller ''kamara.folder.deleted'' (auditObj FolderType (fo_ID f) (FolderPermalink (fo_ID f)))) (\<lambda>_.
    bnd (DeleteFolderRow (fo_ID f)) (\<lambda>_.
    Remove (fo_ID f)))"

definition DeleteFolder :: "svc \<Rightarrow> subject \<Rightarrow> string \<Rightarrow> unit kamara" where
  "DeleteFolder S caller i =
    bnd (authorizeFolder S caller i) (\<lambda>_.
    bnd (FolderHasChildren i) (\<lambda>has.
    if has then fail ErrNotEmpty
    else
      bnd (GetFolderRow i) (\<lambda>f.
      case f of
        None \<Rightarrow> fail ErrNotFound
      | Some g \<Rightarrow>
          bnd (InTx (deleteFolderTx caller g)) (\<lambda>_.
          bnd (unlinkFolder S (fo_ParentID g) (folderObj i)) (\<lambda>_.
          DeleteTuple (sv_fga S) caller Relation (folderObj i))))))"

text \<open>
  The recursive deletion. \<open>collectTree\<close> is the breadth-first loop: the folders visited so far, those
  still to visit, the seen set and the objects found.
\<close>

primrec freshSubs :: "folder list \<Rightarrow> string list \<Rightarrow> folder list \<times> string list" where
  "freshSubs [] seen = ([], seen)"
| "freshSubs (f # fs) seen =
    (if fo_ID f \<in> set seen then freshSubs fs seen
     else case freshSubs fs (fo_ID f # seen) of (new, seen') \<Rightarrow> (f # new, seen'))"

lemma freshSubs_unseen:
  "fo_ID ` set fs \<subseteq> fo_ID ` set (folders d) \<Longrightarrow> freshSubs fs seen = (new, seen') \<Longrightarrow>
   unseen d seen' + length new = unseen d seen"
proof (induction fs arbitrary: seen new)
  case (Cons f fs)
  have sub: "fo_ID ` set fs \<subseteq> fo_ID ` set (folders d)" using Cons.prems(1) by simp
  show ?case
  proof (cases "fo_ID f \<in> set seen")
    case True
    then show ?thesis using Cons.IH [OF sub] Cons.prems(2) by simp
  next
    case False
    obtain new' where r: "freshSubs fs (fo_ID f # seen) = (new', seen')" and n: "new = f # new'"
      using Cons.prems(2) False by (auto split: prod.splits)
    have "fo_ID f \<in> fo_ID ` set (folders d) - set seen" using Cons.prems(1) False by simp
    then have "Suc (card (fo_ID ` set (folders d) - set seen - {fo_ID f})) = unseen d seen"
      unfolding unseen_def by (intro card_Suc_Diff1) simp
    moreover have "fo_ID ` set (folders d) - set seen - {fo_ID f} = fo_ID ` set (folders d) - set (fo_ID f # seen)" by auto
    ultimately have "unseen d seen = Suc (unseen d (fo_ID f # seen))" unfolding unseen_def by metis
    then show ?thesis using Cons.IH [OF sub r] n by simp
  qed
qed simp

lemma FoldersInParent_world:
  "FoldersInParent coll owner p w = (Inr fs, w') \<Longrightarrow> fs = foldersIn (w_db w) coll owner p \<and> w_db w' = w_db w"
  unfolding FoldersInParent_def by (auto elim: query_Inr)

lemma ObjectsInFolder_world:
  "ObjectsInFolder coll owner p w = (Inr xs, w') \<Longrightarrow> xs = objectsIn (w_db w) coll owner p \<and> w_db w' = w_db w"
  unfolding ObjectsInFolder_def by (auto elim: query_Inr)

lemma foldersIn_subset: "set (foldersIn d coll owner p) \<subseteq> set (folders d)"
  by (auto simp: foldersIn_def)

function collectTree ::
  "collation \<Rightarrow> subject \<Rightarrow> folder list \<Rightarrow> folder list \<Rightarrow> string list \<Rightarrow> object list \<Rightarrow> (folder list \<times> object list) kamara" where
  "collectTree coll caller visited [] seen objs w = (Inr (visited, objs), w)"
| "collectTree coll caller visited (f # todo) seen objs w =
    bnd (ObjectsInFolder coll caller (Some (fo_ID f))) (\<lambda>os.
    bnd (FoldersInParent coll caller (Some (fo_ID f))) (\<lambda>subs w2.
      collectTree coll caller (visited @ [f]) (todo @ fst (freshSubs subs seen)) (snd (freshSubs subs seen)) (objs @ os) w2)) w"
  by pat_completeness auto
termination
proof (relation "measure (\<lambda>(_, _, _, todo, seen, _, w). unseen (w_db w) seen + length todo)", goal_cases)
  case (2 coll caller visited f todo seen objs w os w1 subs w2)
  have w1: "w_db w1 = w_db w" using ObjectsInFolder_world [OF 2(1)] by simp
  have w2: "subs = foldersIn (w_db w) coll caller (Some (fo_ID f))" "w_db w2 = w_db w"
    using FoldersInParent_world [OF 2(2)] w1 by simp_all
  have "unseen (w_db w) (snd (freshSubs subs seen)) + length (fst (freshSubs subs seen)) = unseen (w_db w) seen"
    using freshSubs_unseen [of subs "w_db w" seen] foldersIn_subset w2 by (metis image_mono prod.collapse)
  then show ?case using w2 by simp
qed simp

primrec deleteObjects :: "subject \<Rightarrow> object list \<Rightarrow> string list \<Rightarrow> string list kamara" where
  "deleteObjects caller [] orphans = ret orphans"
| "deleteObjects caller (x # xs) orphans =
    bnd (Emit caller ''kamara.file.deleted'' (auditObj FileType (ob_ID x) (Permalink (ob_ID x)))) (\<lambda>_.
    bnd (reclaimObject (ob_ID x)) (\<lambda>gone.
    bnd (Remove (ob_ID x)) (\<lambda>_.
    deleteObjects caller xs (orphans @ gone))))"

definition deleteTreeTx :: "collation \<Rightarrow> subject \<Rightarrow> folder \<Rightarrow> (folder list \<times> object list \<times> string list) kamara" where
  "deleteTreeTx coll caller root =
    bnd (collectTree coll caller [] [root] [fo_ID root] []) (\<lambda>(fs, objs).
    bnd (deleteObjects caller objs []) (\<lambda>orphans.
    bnd (foreach (deleteFolderTx caller) (rev fs)) (\<lambda>_.
    ret (fs, objs, orphans))))"

text \<open>\<open>keep\<close>: a call whose error is remembered if it is the first.\<close>

definition keep :: "err option \<Rightarrow> unit kamara \<Rightarrow> err option kamara" where
  "keep acc m = (\<lambda>w. case m w of
     (Inl e, w') \<Rightarrow> (Inr (if acc = None then Some e else acc), w')
   | (Inr _, w') \<Rightarrow> (Inr acc, w'))"

primrec dropFileTuples :: "svc \<Rightarrow> subject \<Rightarrow> object list \<Rightarrow> err option \<Rightarrow> err option kamara" where
  "dropFileTuples S caller [] acc = ret acc"
| "dropFileTuples S caller (x # xs) acc =
    bnd (guarded (sv_revoker S) (ignore (RevokeSessions (ob_ID x)))) (\<lambda>_.
    bnd (unlinkFolder S (ob_FolderID x) (fileObj (ob_ID x))) (\<lambda>_.
    bnd (keep acc (DeleteTuple (sv_fga S) caller Relation (fileObj (ob_ID x)))) (\<lambda>acc'.
    dropFileTuples S caller xs acc')))"

primrec dropFolderTuples :: "svc \<Rightarrow> subject \<Rightarrow> folder list \<Rightarrow> err option \<Rightarrow> err option kamara" where
  "dropFolderTuples S caller [] acc = ret acc"
| "dropFolderTuples S caller (f # fs) acc =
    bnd (unlinkFolder S (fo_ParentID f) (folderObj (fo_ID f))) (\<lambda>_.
    bnd (keep acc (DeleteTuple (sv_fga S) caller Relation (folderObj (fo_ID f)))) (\<lambda>acc'.
    dropFolderTuples S caller fs acc'))"

definition DeleteFolderTree :: "svc \<Rightarrow> subject \<Rightarrow> string \<Rightarrow> unit kamara" where
  "DeleteFolderTree S caller i =
    bnd (authorizeFolder S caller i) (\<lambda>_.
    bnd (GetFolderRow i) (\<lambda>root.
    case root of
      None \<Rightarrow> fail ErrNotFound
    | Some r \<Rightarrow>
        bnd (InTx (deleteTreeTx (sv_coll S) caller r)) (\<lambda>(fs, objs, orphans).
        bnd (foreach (\<lambda>h. ignore (bs_Delete (sv_blobs S) h)) orphans) (\<lambda>_.
        bnd (dropFileTuples S caller objs None) (\<lambda>acc.
        bnd (dropFolderTuples S caller fs acc) (\<lambda>tupleErr.
        case tupleErr of None \<Rightarrow> ret () | Some e \<Rightarrow> fail e))))))"

end
