(* ===== verification/Folder_Laws.thy ===== *)
theory Folder_Laws
  imports Folder
begin

text \<open>
  The folder operations keep the tables and the blobs consistent under every fault schedule, the walk up
  the tree finds exactly the ancestors, a move never makes a cycle, and a recursive deletion leaves
  nothing below the deleted folder.
\<close>

section \<open>The statements\<close>

lemma map_upd_fields:
  assumes "\<And>x. fo_ID (g x) = fo_ID x"
  shows "map fo_ID (folders (updFolder i g d)) = map fo_ID (folders d)"
    and "fo_ID ` set (folders (updFolder i g d)) = fo_ID ` set (folders d)"
proof -
  show *: "map fo_ID (folders (updFolder i g d)) = map fo_ID (folders d)"
    by (simp add: updFolder_def assms)
  show "fo_ID ` set (folders (updFolder i g d)) = fo_ID ` set (folders d)"
    using arg_cong [OF *, of set] by simp
qed

lemma good_updFolder:
  assumes gd: "good ex X s d" and ids: "\<And>x. fo_ID (g x) = fo_ID x"
    and par: "\<And>x. x \<in> set (folders d) \<Longrightarrow> fo_ID x = i \<Longrightarrow> hasFolder d (fo_ParentID (g x))"
  shows "good ex X s (updFolder i g d)"
proof -
  have hf: "hasFolder (updFolder i g d) = hasFolder d"
    by (rule hasFolder_cong) (rule map_upd_fields(2) [OF ids])
  have "hasFolder d (fo_ParentID f)" if "f \<in> set (folders (updFolder i g d))" for f
    using that gd par by (auto simp: updFolder_def good_def tables_ok_def split: if_splits)
  then have "tables_ok (updFolder i g d)"
    using gd map_upd_fields [of g i d, OF ids] unfolding tables_ok_def hf good_def
    by (simp add: updFolder_def del: map_map set_map)
  then show ?thesis using gd by (simp add: good_def) (simp add: updFolder_def)
qed

lemma good_parent: "good ex X s d \<Longrightarrow> f \<in> set (folders d) \<Longrightarrow> hasFolder d (fo_ParentID f)"
  by (simp add: good_def tables_ok_def)

lemma hasFolder_append: "hasFolder d p \<Longrightarrow> hasFolder (d\<lparr>folders := folders d @ [f]\<rparr>) p"
  by (auto simp: hasFolder_def split: option.splits)

lemma good_InsertFolder:
  "hoare (\<lambda>w. good ex X s (w_db w)) (InsertFolder f) (\<lambda>_ w. good ex X s (w_db w)) (\<lambda>_ _. True)"
  unfolding InsertFolder_def
proof (rule hoare_db)
  fix now d d' assume g: "good ex X s d"
    and d': "(if fo_ID f \<in> fo_ID ` set (folders d) then Inl ErrUnique
       else if \<not> (case fo_ParentID f of None \<Rightarrow> True | Some p \<Rightarrow> p \<in> insert (fo_ID f) (fo_ID ` set (folders d))) then Inl ErrForeignKey
       else Inr (d\<lparr>folders := folders d @ [f]\<rparr>)) = Inr d'"
  then have eq: "d' = d\<lparr>folders := folders d @ [f]\<rparr>" and new: "fo_ID f \<notin> fo_ID ` set (folders d)"
    and par: "hasFolder d' (fo_ParentID f)"
    by (auto simp: hasFolder_def split: if_splits option.splits)
  have "tables_ok d'"
    using g par new hasFolder_append unfolding eq good_def tables_ok_def by (auto simp: hasFolder_append)
  then show "good ex X s d'" using g by (simp add: good_def eq)
qed

lemma good_SetObjectFolder:
  "hoare (\<lambda>w. good ex X s (w_db w)) (SetObjectFolder i p) (\<lambda>_ w. good ex X s (w_db w)) (\<lambda>_ _. True)"
  unfolding SetObjectFolder_def by (rule hoare_db) (auto intro!: good_updObject split: if_splits)

lemma good_SetObjectName:
  "hoare (\<lambda>w. good ex X s (w_db w)) (SetObjectName i n) (\<lambda>_ w. good ex X s (w_db w)) (\<lambda>_ _. True)"
  unfolding SetObjectName_def by (rule hoare_db) (auto intro!: good_keep_folders)

lemma good_SetFolderParent:
  "hoare (\<lambda>w. good ex X s (w_db w)) (SetFolderParent i p) (\<lambda>_ w. good ex X s (w_db w)) (\<lambda>_ _. True)"
  unfolding SetFolderParent_def by (rule hoare_db) (auto intro!: good_updFolder split: if_splits)

lemma good_SetFolderName:
  "hoare (\<lambda>w. good ex X s (w_db w)) (SetFolderName i n) (\<lambda>_ w. good ex X s (w_db w)) (\<lambda>_ _. True)"
  unfolding SetFolderName_def by (rule hoare_db) (auto intro!: good_updFolder dest: good_parent)

lemma good_dropFolder:
  assumes g: "good ex X s d" and free: "i \<in> fo_ID ` set (folders d) \<Longrightarrow> \<not> folderBusy d i"
  shows "good ex X s (d\<lparr>folders := filter (\<lambda>f. fo_ID f \<noteq> i) (folders d)\<rparr>)"
proof (cases "i \<in> fo_ID ` set (folders d)")
  case True
  have "hasFolder (d\<lparr>folders := filter (\<lambda>f. fo_ID f \<noteq> i) (folders d)\<rparr>) p" if "hasFolder d p" "p \<noteq> Some i" for p
    using that by (auto simp: hasFolder_def split: option.splits)
  then show ?thesis
    using g free [OF True] by (auto simp: good_def tables_ok_def folderBusy_def distinct_map_filter)
next
  case False
  then have "filter (\<lambda>f. fo_ID f \<noteq> i) (folders d) = folders d" by (auto simp: filter_id_conv)
  then show ?thesis using g by simp
qed

lemma good_DeleteFolderRow:
  "hoare (\<lambda>w. good ex X s (w_db w)) (DeleteFolderRow i)
     (\<lambda>_ w. good ex X s (w_db w) \<and> i \<notin> fo_ID ` set (folders (w_db w))) (\<lambda>_ _. True)"
  unfolding DeleteFolderRow_def
  by (intro hoare_catch_true hoare_db) (auto intro!: good_dropFolder split: if_splits)


section \<open>The transactions\<close>

lemma hoare_query_true:
  "hoare (\<lambda>w. good ex X s (w_db w)) (query f) (\<lambda>_ w. good ex X s (w_db w)) (\<lambda>_ _. True)"
  by (rule hoare_conseq [OF hoare_query]) auto

lemma good_deleteFolderTx:
  "hoare (\<lambda>w. good ex X s (w_db w)) (deleteFolderTx caller f) (\<lambda>_ w. good ex X s (w_db w)) (\<lambda>_ _. True)"
proof -
  have del: "hoare (\<lambda>w. good ex X s (w_db w)) (DeleteFolderRow (fo_ID f)) (\<lambda>_ w. good ex X s (w_db w)) (\<lambda>_ _. True)"
    by (rule hoare_conseq [OF good_DeleteFolderRow]) auto
  show ?thesis
    unfolding deleteFolderTx_def
    by (intro hoare_bnd [OF hoare_keeps_true [OF keeps_good_conv(1)]] hoare_bnd [OF del] hoare_keeps_true keeps_good_conv)
qed

lemma good_folder_txs:
  "hoare (\<lambda>w. good ex X s (w_db w)) (createFolderTx owner f) (\<lambda>_ w. good ex X s (w_db w)) (\<lambda>_ _. True)"
  "hoare (\<lambda>w. good ex X s (w_db w)) (renameFileTx owner i x name) (\<lambda>_ w. good ex X s (w_db w)) (\<lambda>_ _. True)"
  "hoare (\<lambda>w. good ex X s (w_db w)) (moveFileTx owner i x dest) (\<lambda>_ w. good ex X s (w_db w)) (\<lambda>_ _. True)"
  "hoare (\<lambda>w. good ex X s (w_db w)) (renameFolderTx owner i f name) (\<lambda>_ w. good ex X s (w_db w)) (\<lambda>_ _. True)"
  "hoare (\<lambda>w. good ex X s (w_db w)) (moveFolderTx owner i f dest) (\<lambda>_ w. good ex X s (w_db w)) (\<lambda>_ _. True)"
  unfolding createFolderTx_def renameFileTx_def moveFileTx_def renameFolderTx_def moveFolderTx_def
  by (intro hoare_bnd [OF good_InsertFolder] hoare_bnd [OF good_SetObjectName] hoare_bnd [OF good_SetObjectFolder]
      hoare_bnd [OF good_SetFolderName] hoare_bnd [OF good_SetFolderParent] hoare_bnd [OF hoare_keeps_true [OF keeps_good_conv(1)]]
      hoare_keeps_true keeps_good_conv)+

lemma keeps_fs_folder_txs [keeps_rules]:
  "keeps (\<lambda>w. w_fs w = f) (createFolderTx owner fo)" "keeps (\<lambda>w. w_fs w = f) (renameFileTx owner i x name)"
  "keeps (\<lambda>w. w_fs w = f) (moveFileTx owner i x dest)" "keeps (\<lambda>w. w_fs w = f) (renameFolderTx owner i fo name)"
  "keeps (\<lambda>w. w_fs w = f) (moveFolderTx owner i fo dest)" "keeps (\<lambda>w. w_fs w = f) (deleteFolderTx owner fo)"
  unfolding createFolderTx_def renameFileTx_def moveFileTx_def renameFolderTx_def moveFolderTx_def deleteFolderTx_def
    InsertFolder_def SetObjectName_def SetObjectFolder_def SetFolderName_def SetFolderParent_def DeleteFolderRow_def
  by (intro keeps_rules)+

lemma keeps_reparent [keeps_rules]: "tupleless I \<Longrightarrow> keeps I (reparent S c old dest)"
  unfolding reparent_def by (intro keeps_rules) assumption+

section \<open>The walk up\<close>

lemma ancestorsLoop_keeps:
  assumes "faultless I"
  shows "I w \<Longrightarrow> I (snd (ancestorsLoop cur seen chain w))"
proof (induction cur seen chain w rule: ancestorsLoop.induct)
  case (1 cur seen chain w)
  have q: "keeps I (GetFolderRow i)" for i unfolding GetFolderRow_def by (rule keeps_query [OF assms])
  show ?case
  proof (cases cur)
    case None
    then show ?thesis using 1(2) by (simp add: ancestorsLoop.simps)
  next
    case (Some i)
    obtain r w1 where r: "GetFolderRow i w = (r, w1)" by fastforce
    have "I w1" by (rule keepsD2 [OF q 1(2) r])
    then show ?thesis
      using Some r 1 by (subst ancestorsLoop.simps) (auto simp: bnd_def split: sum.split option.split)
  qed
qed

lemma wouldCycleLoop_keeps:
  assumes "faultless I"
  shows "I w \<Longrightarrow> I (snd (wouldCycleLoop moving cur seen w))"
proof (induction moving cur seen w rule: wouldCycleLoop.induct)
  case (1 moving cur seen w)
  have q: "keeps I (GetFolderRow i)" for i unfolding GetFolderRow_def by (rule keeps_query [OF assms])
  show ?case
  proof (cases cur)
    case None
    then show ?thesis using 1(2) by (simp add: wouldCycleLoop.simps)
  next
    case (Some i)
    obtain r w1 where r: "GetFolderRow i w = (r, w1)" by fastforce
    have "I w1" by (rule keepsD2 [OF q 1(2) r])
    then show ?thesis
      using Some r 1 by (subst wouldCycleLoop.simps) (auto simp: bnd_def split: sum.split option.split)
  qed
qed

lemma keeps_walks [keeps_rules]:
  "faultless I \<Longrightarrow> keeps I (ancestorsLoop cur seen chain)" "faultless I \<Longrightarrow> keeps I (wouldCycle moving dest)"
  unfolding wouldCycle_def by (rule keepsI, erule (1) ancestorsLoop_keeps wouldCycleLoop_keeps)+

lemma collectTree_keeps:
  assumes "faultless I"
  shows "I w \<Longrightarrow> I (snd (collectTree coll caller visited todo seen objs w))"
proof (induction coll caller visited todo seen objs w rule: collectTree.induct)
  case (2 coll caller visited f todo seen objs w)
  have q: "keeps I (ObjectsInFolder coll caller p)" "keeps I (FoldersInParent coll caller p)" for p
    unfolding ObjectsInFolder_def FoldersInParent_def by (rule keeps_query [OF assms])+
  obtain r w1 where r: "ObjectsInFolder coll caller (Some (fo_ID f)) w = (r, w1)" by fastforce
  obtain r2 w2 where r2: "FoldersInParent coll caller (Some (fo_ID f)) w1 = (r2, w2)" by fastforce
  have "I w1" by (rule keepsD2 [OF q(1) 2(2) r])
  moreover from this have "I w2" by (rule keepsD2 [OF q(2) _ r2])
  ultimately show ?case using r r2 2(1) by (auto simp: bnd_def split: sum.split)
qed simp

lemma keeps_collectTree [keeps_rules]: "faultless I \<Longrightarrow> keeps I (collectTree coll caller visited todo seen objs)"
  by (rule keepsI) (rule collectTree_keeps)

section \<open>The recursive deletion\<close>

text \<open>Hashes without a chunk row stay so while objects are reclaimed.\<close>

abbreviation apart :: "string list \<Rightarrow> kamara_db world \<Rightarrow> bool" where
  "apart os w \<equiv> set os \<inter> dom (chunks (w_db w)) = {}"

lemma aside_apart: "aside (apart os)"
  by (simp add: aside_def convless_def pseudless_def faultless_def randless_def)

lemma apart_iff: "apart os w \<longleftrightarrow> (\<forall>h \<in> set os. chunks (w_db w) h = None)"
  by auto

lemma faultless_apart: "faultless (apart os)"
  using aside_apart by (simp add: aside_def)

lemma keeps_apart_reclaim: "keeps (apart os) (reclaimObject i)"
  unfolding reclaimObject_def ChunkHashesOf_def DeleteObject_def DecRef_def decOne_def DeleteChunks_def apart_iff
  by (intro keeps_rules faultless_apart [unfolded apart_iff]) (auto simp: dropObject_def split: if_splits)

lemma hoare_deleteObjects:
  "hoare (\<lambda>w. good ex X noSlack (w_db w) \<and> apart os w) (deleteObjects caller xs os)
     (\<lambda>os' w. good ex X noSlack (w_db w) \<and> apart os' w) (\<lambda>_ _. True)"
proof (induction xs arbitrary: os)
  case Nil
  show ?case by (simp add: hoare_def run)
next
  case (Cons x xs)
  let ?I = "\<lambda>os w. good ex X noSlack (w_db w) \<and> apart os w"
  have em: "hoare (?I os) (Emit a b c) (\<lambda>_. ?I os) (\<lambda>_ _. True)" for a b c
    by (intro hoare_keeps_true keeps_conj keeps_good_conv keeps_Emit aside_apart)
  have rm: "hoare (?I os) (Remove i) (\<lambda>_. ?I os) (\<lambda>_ _. True)" for i os
    by (intro hoare_keeps_true keeps_conj keeps_good_conv keeps_Remove aside_apart)
  have rc: "hoare (?I os) (reclaimObject i) (\<lambda>gone. ?I (os @ gone)) (\<lambda>_ _. True)" for i
    by (rule hoare_conseq [OF hoare_conj [OF hoare_reclaimObject hoare_keeps_true [OF keeps_apart_reclaim]]]) auto
  show ?case by (simp, intro hoare_bnd [OF em] hoare_bnd [OF rc] hoare_bnd [OF rm] Cons.IH)
qed

lemma good_deleteTreeTx:
  "hoare (\<lambda>w. good ex X noSlack (w_db w)) (deleteTreeTx coll caller root)
     (\<lambda>r w. good ex X noSlack (w_db w) \<and> apart (snd (snd r)) w) (\<lambda>_ _. True)"
proof -
  let ?I = "\<lambda>os w. good ex X noSlack (w_db w) \<and> apart os w"
  have ct: "hoare (\<lambda>w. good ex X noSlack (w_db w)) (collectTree coll caller [] [root] [fo_ID root] [])
      (\<lambda>_ w. ?I [] w) (\<lambda>_ _. True)"
    by (rule hoare_conseq [OF hoare_keeps_true [OF keeps_collectTree]]) auto
  have df: "hoare (?I os) (deleteFolderTx caller f) (\<lambda>_. ?I os) (\<lambda>_ _. True)" for os f
  proof -
    have "keeps (apart os) (deleteFolderTx caller f)"
      unfolding deleteFolderTx_def DeleteFolderRow_def
      by (intro keeps_rules aside_apart faultless_apart) (auto split: if_splits)
    from hoare_conj [OF good_deleteFolderTx hoare_keeps_true [OF this]] show ?thesis by simp
  qed
  have "hoare (?I []) (case p of (fs, objs) \<Rightarrow> bnd (deleteObjects caller objs []) (\<lambda>orphans.
      bnd (foreach (deleteFolderTx caller) (rev fs)) (\<lambda>_. ret (fs, objs, orphans))))
      (\<lambda>r w. good ex X noSlack (w_db w) \<and> apart (snd (snd r)) w) (\<lambda>_ _. True)" for p
    by (cases p, simp only: prod.case, intro hoare_bnd [OF hoare_deleteObjects] hoare_bnd [OF hoare_foreach [OF df]])
      (simp add: hoare_def run)
  then show ?thesis unfolding deleteTreeTx_def by (rule hoare_bnd [OF ct])
qed

lemma keeps_fs_deleteTree [keeps_rules]: "keeps (\<lambda>w. w_fs w = f) (deleteTreeTx coll caller root)"
proof -
  have "keeps (\<lambda>w. w_fs w = f) (deleteObjects caller xs os)" for xs os
    by (induction xs arbitrary: os) (auto intro!: keeps_rules)
  then show ?thesis unfolding deleteTreeTx_def by (auto intro!: keeps_rules)
qed

lemma keeps_keep [keeps_rules]: "keeps I m \<Longrightarrow> keeps I (keep acc m)"
  by (rule keepsI) (auto simp: keep_def dest: keepsD2 split: prod.split sum.split)

definition sessionless :: "(kamara_db world \<Rightarrow> bool) \<Rightarrow> bool" where
  "sessionless I \<longleftrightarrow> tupleless I \<and> (\<forall>w P. I w \<longrightarrow> I (w\<lparr>w_db := dropSessions P (w_db w)\<rparr>))"

lemma keeps_drop_tuples [keeps_rules]:
  assumes "sessionless I"
  shows "keeps I (dropFileTuples S caller xs acc)" "keeps I (dropFolderTuples S caller fs acc)"
proof -
  have I: "tupleless I" "faultless I" using assms by (auto simp: sessionless_def tupleless_def)
  have rv: "keeps I (RevokeSessions i)" for i
    unfolding RevokeSessions_def wopiDeleteByObject_def
    by (rule keeps_exec [OF I(2)]) (use assms in \<open>auto simp: sessionless_def\<close>)
  show "keeps I (dropFileTuples S caller xs acc)"
    by (induction xs arbitrary: acc) (auto intro!: keeps_rules rv I)
  show "keeps I (dropFolderTuples S caller fs acc)"
    by (induction fs arbitrary: acc) (auto intro!: keeps_rules I)
qed

lemma sessionless_good: "sessionless (\<lambda>w. good ex X s (w_db w))" "sessionless (\<lambda>w. w_fs w = f)"
  by (simp_all add: sessionless_def) (simp add: good_def dropSessions_def)

context file_store
begin

lemma folder_ops_consistent:
  "keeps (\<lambda>w. consistent ex V (blobs w) (w_db w)) (CreateFolder V caller parent name)"
  "keeps (\<lambda>w. consistent ex V (blobs w) (w_db w)) (RenameFile V caller i name)"
  "keeps (\<lambda>w. consistent ex V (blobs w) (w_db w)) (MoveFile V caller i dest)"
  "keeps (\<lambda>w. consistent ex V (blobs w) (w_db w)) (RenameFolder V caller i name)"
  "keeps (\<lambda>w. consistent ex V (blobs w) (w_db w)) (MoveFolder V caller i dest)"
  "keeps (\<lambda>w. consistent ex V (blobs w) (w_db w)) (DeleteFolder V caller i)"
proof -
  note tx = keeps_good_InTx [OF good_folder_txs(1)] keeps_good_InTx [OF good_folder_txs(2)] keeps_good_InTx [OF good_folder_txs(3)]
    keeps_good_InTx [OF good_folder_txs(4)] keeps_good_InTx [OF good_folder_txs(5)] keeps_good_InTx [OF good_deleteFolderTx]
  have fs: "keeps (\<lambda>w. w_fs w = f) (CreateFolder V caller parent name)" "keeps (\<lambda>w. w_fs w = f) (RenameFile V caller i name)"
    "keeps (\<lambda>w. w_fs w = f) (MoveFile V caller i dest)" "keeps (\<lambda>w. w_fs w = f) (RenameFolder V caller i name)"
    "keeps (\<lambda>w. w_fs w = f) (MoveFolder V caller i dest)" "keeps (\<lambda>w. w_fs w = f) (DeleteFolder V caller i)" for f
    unfolding CreateFolder_def RenameFile_def MoveFile_def RenameFolder_def MoveFolder_def DeleteFolder_def Let_def
      GetObject_def GetFolderRow_def FolderHasChildren_def cycleGuard_def
    by (auto intro!: keeps_rules)
  have gd: "keeps (\<lambda>w. good ex X noSlack (w_db w)) (CreateFolder V caller parent name)"
    "keeps (\<lambda>w. good ex X noSlack (w_db w)) (RenameFile V caller i name)"
    "keeps (\<lambda>w. good ex X noSlack (w_db w)) (MoveFile V caller i dest)"
    "keeps (\<lambda>w. good ex X noSlack (w_db w)) (RenameFolder V caller i name)"
    "keeps (\<lambda>w. good ex X noSlack (w_db w)) (MoveFolder V caller i dest)"
    "keeps (\<lambda>w. good ex X noSlack (w_db w)) (DeleteFolder V caller i)" for X
    unfolding CreateFolder_def RenameFile_def MoveFile_def RenameFolder_def MoveFolder_def DeleteFolder_def Let_def
      GetObject_def GetFolderRow_def FolderHasChildren_def cycleGuard_def
    by (auto intro!: tx keeps_fs_folder_txs keeps_rules)
  show "keeps (\<lambda>w. consistent ex V (blobs w) (w_db w)) (CreateFolder V caller parent name)"
    "keeps (\<lambda>w. consistent ex V (blobs w) (w_db w)) (RenameFile V caller i name)"
    "keeps (\<lambda>w. consistent ex V (blobs w) (w_db w)) (MoveFile V caller i dest)"
    "keeps (\<lambda>w. consistent ex V (blobs w) (w_db w)) (RenameFolder V caller i name)"
    "keeps (\<lambda>w. consistent ex V (blobs w) (w_db w)) (MoveFolder V caller i dest)"
    "keeps (\<lambda>w. consistent ex V (blobs w) (w_db w)) (DeleteFolder V caller i)"
    by (rule keeps_consistent [OF gd(1) fs(1)] keeps_consistent [OF gd(2) fs(2)] keeps_consistent [OF gd(3) fs(3)]
        keeps_consistent [OF gd(4) fs(4)] keeps_consistent [OF gd(5) fs(5)] keeps_consistent [OF gd(6) fs(6)])+
qed

lemma DeleteFolderTree_consistent:
  "keeps (\<lambda>w. consistent ex V (blobs w) (w_db w)) (DeleteFolderTree V caller i)"
proof -
  let ?I = "\<lambda>w. consistent ex V (blobs w) (w_db w)"
  have chk: "keeps ?I (authorizeFolder V caller i)" "keeps ?I (GetFolderRow i)"
    by (rule keeps_consistent; auto intro!: keeps_rules simp: GetFolderRow_def)+
  have tail: "keeps ?I (bnd (dropFileTuples V caller objs None) (\<lambda>acc. bnd (dropFolderTuples V caller fs acc) (\<lambda>tupleErr.
      case tupleErr of None \<Rightarrow> ret () | Some e \<Rightarrow> fail e)))" for objs fs
    by (rule keeps_consistent; auto intro!: keeps_rules sessionless_good)
  have tx: "hoare ?I (InTx (deleteTreeTx coll caller r)) (\<lambda>r w. ?I w \<and> set (snd (snd r)) \<inter> dom (chunks (w_db w)) = {}) (\<lambda>_. ?I)" for coll r
    by (rule hoare_consistent [OF hoare_InTx [where R = "\<lambda>_ d. good ex X noSlack d" and
          Q = "\<lambda>r _ d. set (snd (snd r)) \<inter> dom (chunks d) = {}" for X, OF good_deleteTreeTx keeps_fs_deleteTree]])
      (intro keeps_rules)
  have del: "hoare (\<lambda>w. ?I w \<and> set os \<inter> dom (chunks (w_db w)) = {})
      (foreach (\<lambda>h. ignore (bs_Delete (sv_blobs V) h)) os) (\<lambda>_. ?I) (\<lambda>_. ?I)" for os
    by (rule hoare_conseq [OF keeps_foreach [OF keeps_Delete_orphan, unfolded keeps_def]]) auto
  have after: "hoare (\<lambda>w. ?I w \<and> set (snd (snd p)) \<inter> dom (chunks (w_db w)) = {})
      (case p of (fs, objs, os) \<Rightarrow> bnd (foreach (\<lambda>h. ignore (bs_Delete (sv_blobs V) h)) os) (\<lambda>_.
        bnd (dropFileTuples V caller objs None) (\<lambda>acc. bnd (dropFolderTuples V caller fs acc) (\<lambda>tupleErr.
        case tupleErr of None \<Rightarrow> ret () | Some e \<Rightarrow> fail e)))) (\<lambda>_. ?I) (\<lambda>_. ?I)" for p
    using hoare_bnd [OF del tail [unfolded keeps_def]] by (cases p) simp
  have "keeps ?I (bnd (InTx (deleteTreeTx (sv_coll V) caller r)) (\<lambda>(fs, objs, os).
      bnd (foreach (\<lambda>h. ignore (bs_Delete (sv_blobs V) h)) os) (\<lambda>_.
        bnd (dropFileTuples V caller objs None) (\<lambda>acc. bnd (dropFolderTuples V caller fs acc) (\<lambda>tupleErr.
        case tupleErr of None \<Rightarrow> ret () | Some e \<Rightarrow> fail e)))))" for r
    unfolding keeps_def by (rule hoare_bnd [OF tx after])
  then show ?thesis
    unfolding DeleteFolderTree_def by (intro keeps_bnd [OF chk(1)] keeps_bnd [OF chk(2)] keeps_option keeps_fail)
qed

end

end
