(* ===== verification/Folder_Spec.thy ===== *)
theory Folder_Spec
  imports Folder_Laws
begin

text \<open>
  What the folder operations promise: the cycle check is exact, moves keep the tree a forest, the
  breadcrumb is the path from a root, and a recursive deletion removes exactly the subtree or nothing.
\<close>

section \<open>The tree\<close>

definition parentOf :: "kamara_db \<Rightarrow> string \<Rightarrow> string option" where
  "parentOf d i = (case findFolder d i of None \<Rightarrow> None | Some f \<Rightarrow> fo_ParentID f)"

definition upRel :: "kamara_db \<Rightarrow> (string \<times> string) set" where
  "upRel d = {(a, b). parentOf d a = Some b}"

definition forest :: "kamara_db \<Rightarrow> bool" where
  "forest d \<longleftrightarrow> acyclic (upRel d)"

lemma upRel_step: "(a, b) \<in> upRel d \<longleftrightarrow> parentOf d a = Some b"
  by (simp add: upRel_def)

lemma upRel_funpath: "(a, c) \<in> (upRel d)\<^sup>* \<Longrightarrow> a \<noteq> c \<Longrightarrow> parentOf d a = Some b \<Longrightarrow> (b, c) \<in> (upRel d)\<^sup>*"
  by (erule converse_rtranclE) (auto simp: upRel_step)

lemma upRel_stuck: "(a, c) \<in> (upRel d)\<^sup>* \<Longrightarrow> a \<noteq> c \<Longrightarrow> parentOf d a \<noteq> None"
  by (erule converse_rtranclE) (auto simp: upRel_step)

lemma wouldCycleLoop_spec:
  assumes "wouldCycleLoop moving (Some i) seen w = (Inr b, w')" "forest (w_db w)"
    "\<And>s. s \<in> set seen \<Longrightarrow> (s, i) \<in> (upRel (w_db w))\<^sup>+"
  shows "b \<longleftrightarrow> (i, moving) \<in> (upRel (w_db w))\<^sup>*"
  using assms
proof (induction moving "Some i" seen w arbitrary: i rule: wouldCycleLoop.induct)
  case (1 moving seen w)
  have ns: "i \<notin> set seen" using 1(4) [of i] 1(3) by (auto simp: forest_def acyclic_def)
  show ?case
  proof (cases "i = moving")
    case True
    then show ?thesis using 1(2) by (simp add: wouldCycleLoop.simps)
  next
    case False
    obtain f w1 where q: "GetFolderRow i w = (Inr f, w1)"
      and k: "(case f of None \<Rightarrow> (Inr False, w1) | Some g \<Rightarrow> wouldCycleLoop moving (fo_ParentID g) (i # seen) w1) = (Inr b, w')"
      using 1(2) False ns by (subst (asm) wouldCycleLoop.simps) (auto elim!: bnd_InrE)
    have f: "f = findFolder (w_db w) i" and w1: "w_db w1 = w_db w" using GetFolderRow_world [OF q] by auto
    show ?thesis
    proof (cases "parentOf (w_db w) i")
      case None
      then have "(i, moving) \<notin> (upRel (w_db w))\<^sup>*" using upRel_stuck False by blast
      moreover have "b = False"
        using k f None by (auto simp: parentOf_def wouldCycleLoop.simps split: option.splits)
      ultimately show ?thesis by simp
    next
      case (Some p)
      then obtain g where g: "f = Some g" "fo_ParentID g = Some p"
        using f by (auto simp: parentOf_def split: option.splits)
      have up: "(i, p) \<in> upRel (w_db w)" using Some by (simp add: upRel_step)
      have "b \<longleftrightarrow> (p, moving) \<in> (upRel (w_db w1))\<^sup>*"
      proof (rule 1(1) [OF refl _ q g])
        show "\<not> (i = moving \<or> i \<in> set seen)" using False ns by simp
        show "wouldCycleLoop moving (Some p) (i # seen) w1 = (Inr b, w')" using k g by simp
        show "forest (w_db w1)" using 1(3) w1 by simp
        show "\<And>s. s \<in> set (i # seen) \<Longrightarrow> (s, p) \<in> (upRel (w_db w1))\<^sup>+"
          using 1(4) up w1 by (auto intro: trancl_into_trancl)
      qed
      moreover have "(i, moving) \<in> (upRel (w_db w))\<^sup>* \<longleftrightarrow> (p, moving) \<in> (upRel (w_db w))\<^sup>*"
        using upRel_funpath [OF _ False Some] up by (meson converse_rtrancl_into_rtrancl)
      ultimately show ?thesis using w1 by simp
    qed
  qed
qed


text \<open>C7. The cycle check is exact: on a forest, a \<open>wouldCycle\<close> that returns says yes exactly when the
  destination is the moved folder or lies below it, whatever calls failed before.\<close>

theorem wouldCycle_exact:
  assumes "forest (w_db w)" "wouldCycle moving dest w = (Inr b, w')"
  shows "b \<longleftrightarrow> (dest, moving) \<in> (upRel (w_db w))\<^sup>*"
  by (rule wouldCycleLoop_spec [OF assms(2) [unfolded wouldCycle_def] assms(1)]) simp

section \<open>Moving\<close>

lemma find_updFolder:
  assumes "\<And>x. fo_ID (g x) = fo_ID x"
  shows "findFolder (updFolder i g d) a = map_option (\<lambda>f. if a = i then g f else f) (findFolder d a)"
proof -
  have "List.find (\<lambda>x. fo_ID x = a) (map (\<lambda>f. if fo_ID f = i then g f else f) fs) =
      map_option (\<lambda>f. if a = i then g f else f) (List.find (\<lambda>x. fo_ID x = a) fs)" for fs
    by (induction fs) (auto simp: assms)
  then show ?thesis by (simp add: findFolder_def updFolder_def)
qed

lemma forest_same: "folders d' = folders d \<Longrightarrow> forest d' = forest d" "folders d' = folders d \<Longrightarrow> upRel d' = upRel d"
  by (simp_all add: forest_def upRel_def parentOf_def findFolder_def)

lemma forest_move:
  assumes "forest d" "\<And>p. dest = Some p \<Longrightarrow> (p, i) \<notin> (upRel d)\<^sup>*"
    and "d' = updFolder i (\<lambda>f. f\<lparr>fo_ParentID := dest, fo_Updated := now\<rparr>) d"
  shows "forest d'"
proof -
  have "upRel d' \<subseteq> (case dest of None \<Rightarrow> upRel d | Some p \<Rightarrow> insert (i, p) (upRel d))"
    by (auto simp: upRel_def parentOf_def assms(3) find_updFolder split: option.splits if_splits)
  moreover have "acyclic (case dest of None \<Rightarrow> upRel d | Some p \<Rightarrow> insert (i, p) (upRel d))"
    using assms(1,2) by (auto simp: forest_def split: option.split)
  ultimately show ?thesis unfolding forest_def by (rule acyclic_subset [rotated])
qed

lemma keepsD_db: "keeps (\<lambda>v. w_db v = d) m \<Longrightarrow> m w = (r, w') \<Longrightarrow> w_db w = d \<Longrightarrow> w_db w' = d"
  by (drule keepsD2 [of "\<lambda>v. w_db v = d"]) auto

lemma InTx_db:
  assumes "InTx fn w = (r, w')"
  obtains "w_db w' = w_db w" "\<forall>x. r \<noteq> Inr x"
  | fs x w1 where "fn (w\<lparr>w_faults := fs\<rparr>) = (Inr x, w1)" "w_db w' = w_db w1" "r = Inr x \<or> r = Inl ErrIO"
  using assms by (cases rule: InTx_outcome) auto

lemma moveFolderTx_effect:
  assumes "moveFolderTx caller i f dest w = (Inr x, w')"
  shows "\<exists>now. folders (w_db w') = folders (updFolder i (\<lambda>f. f\<lparr>fo_ParentID := dest, fo_Updated := now\<rparr>) (w_db w))"
proof -
  obtain w1 where s: "SetFolderParent i dest w = (Inr (), w1)" and e: "sameFiles w1 w'"
    using assms by (auto simp: moveFolderTx_def elim!: bnd_InrE dest!: conv_sameFiles(1))
  from s have "w_db w1 = updFolder i (\<lambda>f. f\<lparr>fo_ParentID := dest, fo_Updated := w_now w\<rparr>) (w_db w)"
    unfolding SetFolderParent_def by (elim exec_Inr) (auto split: if_splits)
  then show ?thesis using e by (auto simp: sameFiles_def)
qed

lemma cycleGuard_Inr:
  assumes "fga_ok (sv_fga S)" "forest (w_db w)" "cycleGuard S caller i dest w = (Inr x, w')"
  shows "w_db w' = w_db w" "dest = Some p \<Longrightarrow> (p, i) \<notin> (upRel (w_db w))\<^sup>*"
proof -
  have "keeps (\<lambda>v. w_db v = w_db w) (cycleGuard S caller i dest)"
    unfolding cycleGuard_def by (intro keeps_rules) simp_all
  from keepsD_db [OF this assms(3) refl] show "w_db w' = w_db w" .
  assume d: "dest = Some p"
  then obtain w1 w2 b where a: "authorizeFolder S caller p w = (Inr (), w1)" and c: "wouldCycle i p w1 = (Inr b, w2)" and "\<not> b"
    using assms(3) by (auto simp: cycleGuard_def fail_apply elim!: bnd_InrE split: if_splits)
  moreover have "w_db w1 = w_db w" using authorizeAccess_Inr [OF a [unfolded authorizeFolder_def] assms(1)] by auto
  ultimately show "(p, i) \<notin> (upRel (w_db w))\<^sup>*" using wouldCycleLoop_spec [OF c [unfolded wouldCycle_def]] assms(2) by auto
qed

text \<open>C8. Moves keep the folder tree a forest, under every fault schedule; a move that returns has put the folder
  where it was asked to.\<close>

theorem MoveFolder_forest:
  assumes "fga_ok (sv_fga S)" "forest (w_db w)" "MoveFolder S caller i dest w = (r, w')"
  shows "forest (w_db w') \<and> (r = Inr () \<longrightarrow> parentOf (w_db w') i = dest)"
proof -
  let ?I = "\<lambda>v. w_db v = w_db w"
  obtain ra w1 where a: "authorizeFolder S caller i w = (ra, w1)" by fastforce
  have w1: "?I w1" by (rule keepsD_db [OF keeps_authorize(3) a refl]) simp
  obtain rg w2 where g: "cycleGuard S caller i dest w1 = (rg, w2)" by fastforce
  have kg: "keeps ?I (cycleGuard S caller i dest)" unfolding cycleGuard_def by (intro keeps_rules) simp_all
  have w2: "?I w2" by (rule keepsD_db [OF kg g w1])
  obtain rf w3 where f: "GetFolderRow i w2 = (rf, w3)" by fastforce
  have kf: "keeps ?I (GetFolderRow i)" unfolding GetFolderRow_def by (intro keeps_rules) simp
  have w3: "?I w3" by (rule keepsD_db [OF kf f w2])
  show ?thesis
  proof (cases "ra = Inr () \<and> rg = Inr () \<and> (\<exists>g. rf = Inr (Some g))")
    case False
    then have "w' \<in> {w1, w2, w3}" "r \<noteq> Inr ()"
      using assms(3) a g f
      by (cases ra; cases rg; cases rf; auto simp: MoveFolder_def bnd_def fail_apply split: option.splits)+
    then show ?thesis using assms(2) w1 w2 w3 by auto
  next
    case True
    then obtain fo where fo: "rf = Inr (Some fo)" by blast
    obtain rt w4 where t: "InTx (moveFolderTx caller i fo dest) w3 = (rt, w4)" by fastforce
    have fin: "w_db w' = w_db w4" "r = Inr () \<Longrightarrow> rt = Inr ()"
    proof -
      have "keeps (\<lambda>v. w_db v = w_db w4) (reparent S (folderObj i) (fo_ParentID fo) dest)"
        by (intro keeps_rules) (simp add: tupleless_def faultless_def)
      then show "w_db w' = w_db w4" "r = Inr () \<Longrightarrow> rt = Inr ()"
        using assms(3) a g f True fo t by (cases rt; auto simp: MoveFolder_def bnd_def dest: keepsD_db)+
    qed
    have no: "(p, i) \<notin> (upRel (w_db w))\<^sup>*" if "dest = Some p" for p
      using cycleGuard_Inr(2) [OF assms(1) _ g [unfolded conjunct1 [OF conjunct2 [OF True]]] that] assms(2) w1 by simp
    have "i = fo_ID fo" "findFolder (w_db w) i = Some fo"
      using GetFolderRow_world [OF f [unfolded fo]] w2 findFolder_SomeD by metis+
    from t show ?thesis
    proof (cases rule: InTx_db)
      case 1
      then show ?thesis using fin assms(2) w3 by auto
    next
      case (2 fs x w5)
      obtain now where "folders (w_db w5) = folders (updFolder i (\<lambda>f. f\<lparr>fo_ParentID := dest, fo_Updated := now\<rparr>) (w_db w))"
        using moveFolderTx_effect [OF 2(1)] w3 by auto
      moreover have "forest (updFolder i (\<lambda>f. f\<lparr>fo_ParentID := dest, fo_Updated := now\<rparr>) (w_db w))"
        by (rule forest_move [OF assms(2) no refl])
      moreover have "parentOf (updFolder i (\<lambda>f. f\<lparr>fo_ParentID := dest, fo_Updated := now\<rparr>) (w_db w)) i = dest"
        using \<open>findFolder (w_db w) i = Some fo\<close> by (simp add: parentOf_def find_updFolder)
      ultimately show ?thesis
        using fin 2(2) forest_same(1) by (metis findFolder_def parentOf_def)
    qed
  qed
qed


section \<open>The breadcrumb\<close>

fun upPath :: "kamara_db \<Rightarrow> string option \<Rightarrow> folder list \<Rightarrow> bool" where
  "upPath d None gs \<longleftrightarrow> gs = []"
| "upPath d (Some i) [] \<longleftrightarrow> findFolder d i = None"
| "upPath d (Some i) (g # gs) \<longleftrightarrow> findFolder d i = Some g \<and> upPath d (fo_ParentID g) gs"

lemma ancestorsLoop_spec:
  "ancestorsLoop cur seen chain w = (Inr res, w') \<Longrightarrow> forest (w_db w) \<Longrightarrow>
   (\<And>s i. s \<in> set seen \<Longrightarrow> cur = Some i \<Longrightarrow> (s, i) \<in> (upRel (w_db w))\<^sup>+) \<Longrightarrow>
   \<exists>up. res = chain @ up \<and> upPath (w_db w) cur up"
proof (induction cur seen chain w rule: ancestorsLoop.induct)
  case (1 cur seen chain w)
  show ?case
  proof (cases cur)
    case None
    then show ?thesis using 1(2) by (simp add: ancestorsLoop.simps)
  next
    case (Some i)
    have ns: "i \<notin> set seen" using 1(4) [of i i] 1(3) Some by (auto simp: forest_def acyclic_def)
    obtain f w1 where q: "GetFolderRow i w = (Inr f, w1)"
      and k: "(case f of None \<Rightarrow> (Inr chain, w1) | Some g \<Rightarrow> ancestorsLoop (fo_ParentID g) (i # seen) (chain @ [g]) w1) = (Inr res, w')"
      using 1(2) Some ns by (subst (asm) ancestorsLoop.simps) (auto elim!: bnd_InrE)
    have f: "f = findFolder (w_db w) i" and w1: "w_db w1 = w_db w" using GetFolderRow_world [OF q] by auto
    show ?thesis
    proof (cases f)
      case None
      then show ?thesis using k Some f by simp
    next
      case (Some g)
      have fg: "findFolder (w_db w) i = Some g" using f Some by simp
      have up: "(i, p) \<in> upRel (w_db w)" if "fo_ParentID g = Some p" for p
        using that fg by (simp add: upRel_step parentOf_def)
      have "(s, p) \<in> (upRel (w_db w1))\<^sup>+" if s: "s \<in> set (i # seen)" and p: "fo_ParentID g = Some p" for s p
        using s 1(4) [of s i] \<open>cur = Some i\<close> up [OF p] w1 by (auto intro: trancl_into_trancl)
      from 1(1) [OF \<open>cur = Some i\<close> ns q Some _ _ this] k Some 1(3) w1 obtain ups where
        "res = (chain @ [g]) @ ups" "upPath (w_db w) (fo_ParentID g) ups" by auto
      then show ?thesis using \<open>cur = Some i\<close> f Some by (intro exI [of _ "g # ups"]) simp
    qed
  qed
qed

lemma upPath_root:
  assumes t: "tables_ok d"
  shows "upPath d (Some i) gs \<Longrightarrow> findFolder d i \<noteq> None \<Longrightarrow>
    gs \<noteq> [] \<and> fo_ID (hd gs) = i \<and> fo_ParentID (last gs) = None \<and> successively (\<lambda>a b. fo_ParentID a = Some (fo_ID b)) gs"
proof (induction gs arbitrary: i)
  case (Cons g gs)
  have g: "findFolder d i = Some g" and up: "upPath d (fo_ParentID g) gs" using Cons.prems by auto
  have gi: "g \<in> set (folders d)" "fo_ID g = i" using findFolder_SomeD [OF g] by auto
  show ?case
  proof (cases "fo_ParentID g")
    case None
    then show ?thesis using up gi by simp
  next
    case (Some p)
    have "hasFolder d (Some p)" using tables_okD(9) [OF t gi(1)] Some by simp
    then have "findFolder d p \<noteq> None" by (auto simp: hasFolder_def findFolder_def find_None)
    from Cons.IH [OF up [unfolded Some] this] show ?thesis using gi Some by (cases gs) auto
  qed
qed simp

text \<open>The breadcrumb: on a forest, an \<open>Ancestors\<close> that returns gives the path from a root-level folder down to
  the folder, each element the parent of the next.\<close>

theorem Ancestors_path:
  assumes "tables_ok (w_db w)" "forest (w_db w)" "findFolder (w_db w) i = Some f" "Ancestors S caller i w = (Inr fs, w')"
  shows "fs \<noteq> [] \<and> last fs = f \<and> fo_ParentID (hd fs) = None \<and> successively (\<lambda>a b. fo_ParentID b = Some (fo_ID a)) fs"
proof -
  obtain w1 w2 where a: "authorizeFolder S caller i w = (Inr (), w1)" and l: "ancestorsLoop (Some i) [] [] w1 = (Inr (rev fs), w2)"
    using assms(4) by (auto simp: Ancestors_def ret_apply elim!: bnd_InrE)
  have w1: "w_db w1 = w_db w" by (rule keepsD_db [OF keeps_authorize(3) a refl]) simp
  have up: "upPath (w_db w) (Some i) (rev fs)"
    using ancestorsLoop_spec [OF l] assms(2) w1 by auto
  have r: "rev fs \<noteq> [] \<and> fo_ID (hd (rev fs)) = i \<and> fo_ParentID (last (rev fs)) = None \<and>
      successively (\<lambda>a b. fo_ParentID a = Some (fo_ID b)) (rev fs)"
    by (rule upPath_root [OF assms(1) up]) (use assms(3) in simp)
  moreover have "hd (rev fs) = f" using up assms(3) r by (cases "rev fs") auto
  ultimately show ?thesis by (simp add: hd_rev last_rev successively_rev)
qed


section \<open>The recursive deletion\<close>

definition inTree :: "kamara_db \<Rightarrow> string \<Rightarrow> string \<Rightarrow> bool" where
  "inTree d i p \<longleftrightarrow> (p, i) \<in> (upRel d)\<^sup>*"

definition inFolderTree :: "kamara_db \<Rightarrow> string \<Rightarrow> string option \<Rightarrow> bool" where
  "inFolderTree d i f \<longleftrightarrow> (\<exists>p. f = Some p \<and> inTree d i p)"

lemma child_inTree:
  assumes "distinct (map fo_ID (folders d))" "f \<in> set (folders d)" "fo_ParentID f = Some p" "inTree d i p"
  shows "inTree d i (fo_ID f)"
proof -
  have "findFolder d (fo_ID f) = Some f" unfolding findFolder_def by (rule find_distinct [OF assms(1,2)])
  then have "(fo_ID f, p) \<in> upRel d" using assms(3) by (simp add: upRel_step parentOf_def)
  then show ?thesis using assms(4) unfolding inTree_def by (rule converse_rtrancl_into_rtrancl)
qed

lemma freshSubs_subset: "set (fst (freshSubs fs seen)) \<subseteq> set fs"
  by (induction fs arbitrary: seen) (auto split: prod.splits, metis fst_conv subsetD)

text \<open>The collection stays inside the subtree and starts with its root.\<close>

lemma collectTree_inTree:
  "collectTree coll caller visited todo seen objs w = (Inr (fs, xs), w') \<Longrightarrow> distinct (map fo_ID (folders (w_db w))) \<Longrightarrow>
   (\<And>f. f \<in> set visited \<union> set todo \<Longrightarrow> f \<in> set (folders (w_db w)) \<and> inTree (w_db w) i (fo_ID f)) \<Longrightarrow>
   (\<And>x. x \<in> set objs \<Longrightarrow> x \<in> set (objects (w_db w)) \<and> inFolderTree (w_db w) i (ob_FolderID x)) \<Longrightarrow>
   (\<forall>f \<in> set fs. f \<in> set (folders (w_db w)) \<and> inTree (w_db w) i (fo_ID f)) \<and>
   (\<forall>x \<in> set xs. x \<in> set (objects (w_db w)) \<and> inFolderTree (w_db w) i (ob_FolderID x)) \<and>
   (set visited \<union> set todo \<subseteq> set fs) \<and> w_db w' = w_db w"
proof (induction coll caller visited todo seen objs w rule: collectTree.induct)
  case (1 coll caller visited seen objs w)
  then show ?case by auto
next
  case (2 coll caller visited f todo seen objs w)
  obtain os w1 subs w2 where o: "ObjectsInFolder coll caller (Some (fo_ID f)) w = (Inr os, w1)"
    and s: "FoldersInParent coll caller (Some (fo_ID f)) w1 = (Inr subs, w2)"
    and k: "collectTree coll caller (visited @ [f]) (todo @ fst (freshSubs subs seen)) (snd (freshSubs subs seen)) (objs @ os) w2 = (Inr (fs, xs), w')"
    using 2(2) by (auto elim!: bnd_InrE)
  have os: "os = objectsIn (w_db w) coll caller (Some (fo_ID f))" and w1: "w_db w1 = w_db w"
    using ObjectsInFolder_world [OF o] by auto
  have subs: "subs = foldersIn (w_db w) coll caller (Some (fo_ID f))" and w2: "w_db w2 = w_db w"
    using FoldersInParent_world [OF s] w1 by auto
  have ff: "f \<in> set (folders (w_db w)) \<and> inTree (w_db w) i (fo_ID f)" using 2(4) [of f] by simp
  have sub: "g \<in> set (folders (w_db w)) \<and> inTree (w_db w) i (fo_ID g)" if "g \<in> set (fst (freshSubs subs seen))" for g
  proof -
    have "g \<in> set subs" using that freshSubs_subset by blast
    then have "g \<in> set (folders (w_db w))" "fo_ParentID g = Some (fo_ID f)" using subs by (auto simp: foldersIn_def)
    then show ?thesis using child_inTree [OF 2(3)] ff by blast
  qed
  have fsok: "g \<in> set (folders (w_db w2)) \<and> inTree (w_db w2) i (fo_ID g)"
    if "g \<in> set (visited @ [f]) \<union> set (todo @ fst (freshSubs subs seen))" for g
    using that 2(4) [of g] sub [of g] ff w2 by auto
  have obok: "x \<in> set (objects (w_db w2)) \<and> inFolderTree (w_db w2) i (ob_FolderID x)" if "x \<in> set (objs @ os)" for x
    using that 2(5) [of x] os ff w2 by (auto simp: objectsIn_def inFolderTree_def)
  have "distinct (map fo_ID (folders (w_db w2)))" using 2(3) w2 by simp
  from 2(1) [OF o s k this fsok obok] show ?case using w2 by auto
qed

lemma deleteObjects_effect:
  "deleteObjects caller xs os w = (Inr os', w') \<Longrightarrow>
   objects (w_db w') = filter (\<lambda>x. ob_ID x \<notin> ob_ID ` set xs) (objects (w_db w)) \<and> folders (w_db w') = folders (w_db w)"
proof (induction xs arbitrary: os w)
  case Nil
  then show ?case by (simp add: ret_apply)
next
  case (Cons x xs)
  obtain w1 gone w2 w3 where e: "sameFiles w w1" and r: "reclaimObject (ob_ID x) w1 = (Inr gone, w2)"
    and rm: "sameFiles w2 w3" and k: "deleteObjects caller xs (os @ gone) w3 = (Inr os', w')"
    using Cons.prems by (auto elim!: bnd_InrE dest!: conv_sameFiles)
  have "objects (w_db w3) = filter (\<lambda>y. ob_ID y \<noteq> ob_ID x) (objects (w_db w))" "folders (w_db w3) = folders (w_db w)"
    using reclaimObject_effect [OF r] e rm by (auto simp: reclaimed_def sameFiles_def dropObject_def)
  then show ?case using Cons.IH [OF k] by (auto intro!: filter_cong)
qed

lemma deleteFolders_effect:
  "foreach (deleteFolderTx caller) fs w = (Inr u, w') \<Longrightarrow>
   folders (w_db w') = filter (\<lambda>f. fo_ID f \<notin> fo_ID ` set fs) (folders (w_db w)) \<and> objects (w_db w') = objects (w_db w)"
proof (induction fs arbitrary: w)
  case Nil
  then show ?case by (simp add: ret_apply)
next
  case (Cons f fs)
  obtain w0 where d: "deleteFolderTx caller f w = (Inr (), w0)" and k: "foreach (deleteFolderTx caller) fs w0 = (Inr u, w')"
    using Cons.prems by (auto elim!: bnd_InrE)
  obtain w1 w2 where e: "sameFiles w w1" and r: "DeleteFolderRow (fo_ID f) w1 = (Inr (), w2)" and rm: "sameFiles w2 w0"
    using d by (auto simp: deleteFolderTx_def elim!: bnd_InrE dest!: conv_sameFiles)
  from catch_Inr [OF r [unfolded DeleteFolderRow_def]]
  have "w_db w2 = (w_db w1)\<lparr>folders := filter (\<lambda>g. fo_ID g \<noteq> fo_ID f) (folders (w_db w1))\<rparr>"
    by (elim exec_Inr) (auto split: if_splits)
  then have "folders (w_db w0) = filter (\<lambda>g. fo_ID g \<noteq> fo_ID f) (folders (w_db w))" "objects (w_db w0) = objects (w_db w)"
    using e rm by (auto simp: sameFiles_def)
  then show ?case using Cons.IH [OF k] by (auto intro!: filter_cong)
qed

text \<open>Once the root is gone, the foreign keys leave nothing that was below it.\<close>

lemma survivors_outside:
  assumes t: "tables_ok d" "tables_ok d'" and sub: "set (folders d') \<subseteq> set (folders d)" and gone: "i \<notin> fo_ID ` set (folders d')"
  shows "f \<in> set (folders d') \<Longrightarrow> \<not> inTree d i (fo_ID f)"
proof
  assume f: "f \<in> set (folders d')" and "inTree d i (fo_ID f)"
  then have "(fo_ID f, i) \<in> (upRel d)\<^sup>*" by (simp add: inTree_def)
  then have "fo_ID f \<in> fo_ID ` set (folders d') \<longrightarrow> i \<in> fo_ID ` set (folders d')"
  proof (induction rule: converse_rtrancl_induct)
    case (step y z)
    have "z \<in> fo_ID ` set (folders d')" if y: "y \<in> fo_ID ` set (folders d')"
    proof -
      obtain g where g: "g \<in> set (folders d')" "fo_ID g = y" using y by auto
      have "findFolder d y = Some g"
        using find_distinct [OF tables_okD(5) [OF t(1)], of g] g sub by (auto simp: findFolder_def)
      then have "fo_ParentID g = Some z" using step(1) by (simp add: upRel_step parentOf_def)
      then show ?thesis using tables_okD(9) [OF t(2) g(1)] by (simp add: hasFolder_def)
    qed
    then show ?case using step by blast
  qed simp
  then show False using f gone by blast
qed

lemma deleteTreeTx_exact:
  assumes t: "tables_ok (w_db w)" "tables_ok (w_db w')" and r: "findFolder (w_db w) i = Some r"
    and tx: "deleteTreeTx coll caller r w = (Inr (fs, xs, os), w')"
  shows "folders (w_db w') = filter (\<lambda>f. \<not> inTree (w_db w) i (fo_ID f)) (folders (w_db w)) \<and>
    objects (w_db w') = filter (\<lambda>x. \<not> inFolderTree (w_db w) i (ob_FolderID x)) (objects (w_db w))"
proof -
  obtain w1 w2 where c: "collectTree coll caller [] [r] [fo_ID r] [] w = (Inr (fs, xs), w1)"
    and d: "deleteObjects caller xs [] w1 = (Inr os, w2)" and f: "foreach (deleteFolderTx caller) (rev fs) w2 = (Inr (), w')"
    using tx by (auto simp: deleteTreeTx_def ret_apply elim!: bnd_InrE)
  have ri: "r \<in> set (folders (w_db w))" "fo_ID r = i" using findFolder_SomeD [OF r] by auto
  have col: "(\<forall>f \<in> set fs. f \<in> set (folders (w_db w)) \<and> inTree (w_db w) i (fo_ID f)) \<and>
      (\<forall>x \<in> set xs. x \<in> set (objects (w_db w)) \<and> inFolderTree (w_db w) i (ob_FolderID x)) \<and>
      (set [] \<union> set [r] \<subseteq> set fs) \<and> w_db w1 = w_db w"
    by (rule collectTree_inTree [OF c tables_okD(5) [OF t(1)]]) (use ri in \<open>auto simp: inTree_def\<close>)
  have ob: "objects (w_db w') = filter (\<lambda>x. ob_ID x \<notin> ob_ID ` set xs) (objects (w_db w))"
    and fo: "folders (w_db w') = filter (\<lambda>f. fo_ID f \<notin> fo_ID ` set fs) (folders (w_db w))"
    using deleteObjects_effect [OF d] deleteFolders_effect [OF f] col by auto
  have im: "i \<in> fo_ID ` set fs" using col ri by force
  have gone: "i \<notin> fo_ID ` set (folders (w_db w'))"
  proof
    assume "i \<in> fo_ID ` set (folders (w_db w'))"
    then obtain g where "g \<in> set (folders (w_db w'))" "fo_ID g = i" by blast
    then show False using fo im by simp
  qed
  have out: "\<not> inTree (w_db w) i (fo_ID g)" if "g \<in> set (folders (w_db w'))" for g
    by (rule survivors_outside [OF t _ gone that]) (use fo in auto)
  have "fo_ID g \<notin> fo_ID ` set fs \<longleftrightarrow> \<not> inTree (w_db w) i (fo_ID g)" if "g \<in> set (folders (w_db w))" for g
    using out [of g] fo that col by auto
  then have 1: "folders (w_db w') = filter (\<lambda>f. \<not> inTree (w_db w) i (fo_ID f)) (folders (w_db w))"
    unfolding fo by (rule filter_cong [OF refl])
  have "ob_ID x \<notin> ob_ID ` set xs \<longleftrightarrow> \<not> inFolderTree (w_db w) i (ob_FolderID x)" if x: "x \<in> set (objects (w_db w))" for x
  proof
    assume n: "ob_ID x \<notin> ob_ID ` set xs"
    then have x': "x \<in> set (objects (w_db w'))" using ob x by simp
    show "\<not> inFolderTree (w_db w) i (ob_FolderID x)"
    proof
      assume "inFolderTree (w_db w) i (ob_FolderID x)"
      then obtain p where p: "ob_FolderID x = Some p" "inTree (w_db w) i p" by (auto simp: inFolderTree_def)
      then obtain g where "g \<in> set (folders (w_db w'))" "fo_ID g = p"
        using tables_okD(8) [OF t(2) x'] by (auto simp: hasFolder_def)
      then show False using out p by blast
    qed
  next
    assume n: "\<not> inFolderTree (w_db w) i (ob_FolderID x)"
    show "ob_ID x \<notin> ob_ID ` set xs"
    proof
      assume "ob_ID x \<in> ob_ID ` set xs"
      then obtain y where y: "y \<in> set xs" "ob_ID y = ob_ID x" by auto
      have "inj_on ob_ID (set (objects (w_db w)))" using tables_okD(1) [OF t(1)] by (simp add: distinct_map)
      then have "y = x" using y x col by (auto dest: inj_onD)
      then show False using y n col by blast
    qed
  qed
  then have 2: "objects (w_db w') = filter (\<lambda>x. \<not> inFolderTree (w_db w) i (ob_FolderID x)) (objects (w_db w))"
    unfolding ob by (rule filter_cong [OF refl])
  show ?thesis using 1 2 by simp
qed


lemma sessionless_trees: "sessionless (\<lambda>w. folders (w_db w) = fs \<and> objects (w_db w) = xs)"
  by (simp add: sessionless_def tupleless_def faultless_def dropSessions_def)

text \<open>C12. The recursive deletion is all or nothing and exact, under every fault schedule: either no folder and no
  object is gone (and the call failed), or exactly the folders of the subtree and the objects in them are gone;
  in both cases tables and blobs are consistent.\<close>

theorem DeleteFolderTree_exact:
  assumes "consistent ex (onDisk root S) (fsBlobs root w) (w_db w)" "findFolder (w_db w) i = Some g"
    "DeleteFolderTree (onDisk root S) caller i w = (r, w')"
  shows "(folders (w_db w') = folders (w_db w) \<and> objects (w_db w') = objects (w_db w) \<and> r \<noteq> Inr () \<or>
     folders (w_db w') = filter (\<lambda>f. \<not> inTree (w_db w) i (fo_ID f)) (folders (w_db w)) \<and>
     objects (w_db w') = filter (\<lambda>x. \<not> inFolderTree (w_db w) i (ob_FolderID x)) (objects (w_db w))) \<and>
    consistent ex (onDisk root S) (fsBlobs root w') (w_db w')"
proof -
  let ?V = "onDisk root S" and ?I = "\<lambda>v. w_db v = w_db w"
  have con: "consistent ex ?V (fsBlobs root w') (w_db w')"
    by (rule keepsD2 [OF disk.DeleteFolderTree_consistent assms(1,3)])
  obtain ra w1 where a: "authorizeFolder ?V caller i w = (ra, w1)" by fastforce
  have w1: "?I w1" by (rule keepsD_db [OF keeps_authorize(3) a refl]) simp
  obtain rf w2 where f: "GetFolderRow i w1 = (rf, w2)" by fastforce
  have kf: "keeps ?I (GetFolderRow i)" unfolding GetFolderRow_def by (intro keeps_rules) simp
  have w2: "?I w2" by (rule keepsD_db [OF kf f w1])
  show ?thesis
  proof (cases "ra = Inr () \<and> (\<exists>h. rf = Inr (Some h))")
    case False
    then have "w' \<in> {w1, w2}" "r \<noteq> Inr ()"
      using assms(3) a f
      by (cases ra; cases rf; auto simp: DeleteFolderTree_def bnd_def fail_apply split: option.splits)+
    then show ?thesis using con w1 w2 by auto
  next
    case True
    then have rf: "rf = Inr (Some g)" using GetFolderRow_world [of i w1] f assms(2) w1 by auto
    obtain rt w3 where t: "InTx (deleteTreeTx (sv_coll ?V) caller g) w2 = (rt, w3)" by fastforce
    let ?F = "\<lambda>v :: kamara_db world. folders (w_db v) = folders (w_db w3) \<and> objects (w_db v) = objects (w_db w3)"
    have fin: "?F w' \<and> (r = Inr () \<longrightarrow> (\<exists>x. rt = Inr x))"
    proof (cases rt)
      case (Inl e)
      then show ?thesis using assms(3) a f True rf t by (auto simp: DeleteFolderTree_def bnd_def)
    next
      case (Inr x)
      obtain fs xs os where x: "x = (fs, xs, os)" by (metis prod_cases3)
      have del: "keeps ?F (ignore (bs_Delete (sv_blobs ?V) h))" for h
      proof (intro keeps_ignore keepsI)
        fix v :: "kamara_db world" assume "?F v"
        moreover obtain rd v' where dl: "bs_Delete (FS root) h v = (rd, v')" by fastforce
        moreover have "blob_frame v v'" by (rule fs_store.Delete_frame [OF dl])
        ultimately show "?F (snd (bs_Delete (sv_blobs ?V) h v))" by (simp add: blob_frame_def)
      qed
      have "keeps ?F (bnd (foreach (\<lambda>h. ignore (bs_Delete (sv_blobs ?V) h)) os) (\<lambda>_. bnd (dropFileTuples ?V caller xs None) (\<lambda>acc.
          bnd (dropFolderTuples ?V caller fs acc) (\<lambda>tupleErr. case tupleErr of None \<Rightarrow> ret () | Some e \<Rightarrow> fail e))))"
        by (intro keeps_rules del sessionless_trees)
      then show ?thesis
        using assms(3) a f True rf t Inr x by (auto simp: DeleteFolderTree_def bnd_def dest: keepsD2)
    qed
    have t1: "tables_ok (w_db w)" using assms(1) by (simp add: consistent_def good_def)
    from t show ?thesis
    proof (cases rule: InTx_db)
      case 1
      then show ?thesis using fin con w2 by auto
    next
      case (2 fs y w4)
      obtain a1 b1 c1 where y: "y = (a1, b1, c1)" by (metis prod_cases3)
      have "good ex (dom (fsBlobs root w)) noSlack (w_db (w2\<lparr>w_faults := fs\<rparr>))" using assms(1) w2 by (simp add: consistent_def)
      from hoareD(1) [OF good_deleteTreeTx this 2(1)] have "tables_ok (w_db w4)" by (simp add: good_def)
      then show ?thesis
        using deleteTreeTx_exact [OF _ _ _ 2(1) [unfolded y], of i] t1 assms(2) w2 2(2) fin con by simp
    qed
  qed
qed


section \<open>A small tree\<close>

definition treeDb :: kamara_db where
  "treeDb = emptyDb\<lparr>folders := [
     \<lparr>fo_ID = ''a'', fo_Owner = ann, fo_ParentID = None, fo_Name = ''A'', fo_Created = 0, fo_Updated = 0\<rparr>,
     \<lparr>fo_ID = ''b'', fo_Owner = ann, fo_ParentID = Some ''a'', fo_Name = ''B'', fo_Created = 0, fo_Updated = 0\<rparr>]\<rparr>"

definition treeWorld :: "kamara_db world" where
  "treeWorld = (demoWorld treeDb)\<lparr>w_fga := [(OpenFGAObject ann, Relation, folderObj ''b''), (OpenFGAObject ann, Relation, folderObj ''a'')]\<rparr>"

lemma tree_simps [simp]:
  "w_db treeWorld = treeDb" "calm treeWorld" "objects treeDb = []"
  "w_fga treeWorld = [(OpenFGAObject ann, Relation, folderObj ''b''), (OpenFGAObject ann, Relation, folderObj ''a'')]"
  "parentOf treeDb ''b'' = Some ''a''" "parentOf treeDb ''a'' = None"
  by (simp_all add: treeWorld_def treeDb_def parentOf_def findFolder_def)

lemma tree_up: "upRel treeDb = {(''b'', ''a'')}"
  by (auto simp: upRel_def parentOf_def findFolder_def treeDb_def split: if_splits)

lemma tree_forest [simp]: "forest treeDb"
  by (simp add: forest_def tree_up acyclic_insert) (simp add: acyclic_def)

lemma tree_consistent [simp]: "consistent ex demoSvc (fsBlobs ''/data'' treeWorld) treeDb"
proof -
  have "fsBlobs ''/data'' treeWorld = Map.empty"
    by (rule trans [OF fs_store.blobs_frame fsBlobs_demo]) (simp add: treeWorld_def)
  then show ?thesis
    by (simp add: consistent_def good_def tables_ok_def conv_ok_def cnt_def positive_def refs_def noSlack_def sound_def
        treeDb_def emptyDb_def hasFolder_def)
qed

lemma tree_rows [simp]:
  "findFolder treeDb ''a'' = Some \<lparr>fo_ID = ''a'', fo_Owner = ann, fo_ParentID = None, fo_Name = ''A'', fo_Created = 0, fo_Updated = 0\<rparr>"
  "findFolder treeDb ''b'' = Some \<lparr>fo_ID = ''b'', fo_Owner = ann, fo_ParentID = Some ''a'', fo_Name = ''B'', fo_Created = 0, fo_Updated = 0\<rparr>"
  by (simp_all add: findFolder_def treeDb_def)

theorem wouldCycle_exact_witness:
  "\<exists>w'. wouldCycle ''a'' ''b'' treeWorld = (Inr True, w') \<and> (''b'', ''a'') \<in> (upRel treeDb)\<^sup>*"
proof -
  have r: "wouldCycle ''a'' ''b'' treeWorld = (Inr True, treeWorld)"
    by (simp add: wouldCycle_def wouldCycleLoop.simps bnd_def GetFolderRow_def)
  show ?thesis using wouldCycle_exact [OF _ r] r by simp
qed

theorem MoveFolder_forest_witness: "forest (w_db (snd (MoveFolder demoSvc ann ''b'' None treeWorld)))"
proof -
  obtain r w' where m: "MoveFolder demoSvc ann ''b'' None treeWorld = (r, w')" by fastforce
  show ?thesis using MoveFolder_forest [OF _ _ m] m by simp
qed

theorem Ancestors_path_witness:
  "\<exists>fs w'. Ancestors demoSvc ann ''b'' treeWorld = (Inr fs, w') \<and> fs \<noteq> [] \<and> fo_ParentID (hd fs) = None"
proof -
  have acc: "can_access (w_fga treeWorld) (OpenFGAObject ann) (folderObj ''b'')" by (intro can_access.owner) simp
  have au: "authorizeFolder demoSvc ann ''b'' treeWorld = (Inr (), treeWorld)"
    unfolding authorizeFolder_def by (rule authorizeAccess_calm [OF _ _ acc]) simp_all
  obtain fs w' where a: "Ancestors demoSvc ann ''b'' treeWorld = (Inr fs, w')"
    using au by (simp add: Ancestors_def ancestorsLoop.simps bnd_def GetFolderRow_def run)
  have t: "tables_ok (w_db treeWorld)" using tree_consistent [of True] by (simp add: consistent_def good_def)
  obtain f where "findFolder (w_db treeWorld) ''b'' = Some f" by simp
  from Ancestors_path [OF t _ this a] a show ?thesis by simp
qed

theorem DeleteFolderTree_exact_witness:
  "folders (w_db (snd (DeleteFolderTree demoSvc ann ''a'' treeWorld))) \<in> {folders treeDb, []}"
proof -
  obtain r w' where d: "DeleteFolderTree (onDisk ''/data'' demoSvc) ann ''a'' treeWorld = (r, w')" by fastforce
  obtain g where g: "findFolder (w_db treeWorld) ''a'' = Some g" by simp
  have "inTree treeDb ''a'' ''b''" "inTree treeDb ''a'' ''a''" by (auto simp: inTree_def tree_up intro: r_into_rtrancl)
  then have "filter (\<lambda>f. \<not> inTree treeDb ''a'' (fo_ID f)) (folders treeDb) = []" by (simp add: filter_empty_conv) (simp add: treeDb_def)
  moreover have "consistent True (onDisk ''/data'' demoSvc) (fsBlobs ''/data'' treeWorld) (w_db treeWorld)" by simp
  ultimately show ?thesis using DeleteFolderTree_exact [OF _ g d, of True] d by auto
qed

end
