(* ===== verification/Http.thy ===== *)
theory Http
  imports Folder_Spec
begin

text \<open>
  The HTTP vocabulary of the handlers: requests, responses, the JSON values they write, the body limit of
  \<open>http.MaxBytesReader\<close>, the bearer header, and the header values Kamara builds for downloads
  (\<open>ContentDisposition\<close>, \<open>asciiFilename\<close>, \<open>rfc5987\<close> of \<open>kamara/internal/api/api.go\<close>).
\<close>

section \<open>Requests and responses\<close>

text \<open>
  What a handler reads of a request: header and query values (the first one, empty when missing), the
  path parameter \<open>id\<close> and the body. For the handlers that decode a JSON body the result of the decoder
  is part of the request: the \<open>name\<close> member, or the members of an object of optional strings; \<open>None\<close>
  when the decoder reports an error.
\<close>

record request =
  rq_Header :: "string \<Rightarrow> string"
  rq_Query :: "string \<Rightarrow> string"
  rq_ID :: string
  rq_Body :: reader
  rq_NameBody :: "string option"
  rq_MoveBody :: "(string \<rightharpoonup> string option) option"

text \<open>A JSON value; a number literal with a fraction or an exponent is kept as its text (\<open>JFrac\<close>).\<close>

datatype json = JNull | JBool bool | JNum int | JFrac string | JStr string | JArr "json list" | JObj "(string \<times> json) list"

datatype 'z payload = PNone | PJson json | PBytes bytes | POther 'z

record 'z response =
  rs_Status :: nat
  rs_Header :: "(string \<times> string) list"
  rs_Body :: "'z payload"

definition statusOnly :: "nat \<Rightarrow> 'z response" where
  "statusOnly s = \<lparr>rs_Status = s, rs_Header = [], rs_Body = PNone\<rparr>"

definition writeJSON :: "nat \<Rightarrow> json \<Rightarrow> 'z response" where
  "writeJSON status v = \<lparr>rs_Status = status, rs_Header = [(''Content-Type'', ''application/json'')], rs_Body = PJson v\<rparr>"

definition writeErr :: "nat \<Rightarrow> string \<Rightarrow> 'z response" where
  "writeErr status msg = writeJSON status (JObj [(''message'', JStr msg)])"

text \<open>\<open>x, err := m(); if err != nil { h } else { k }\<close>.\<close>

definition attempt :: "('w, 'a) io \<Rightarrow> (err \<Rightarrow> ('w, 'b) io) \<Rightarrow> ('a \<Rightarrow> ('w, 'b) io) \<Rightarrow> ('w, 'b) io" where
  "attempt m h k = (\<lambda>w. case m w of (Inl e, w') \<Rightarrow> h e w' | (Inr x, w') \<Rightarrow> k x w')"

text \<open>A stream whose error comes after the status: the bytes written so far are the body.\<close>

definition streamBody :: "(kamara_db world \<times> 'a list, unit) io \<Rightarrow> 'a list kamara" where
  "streamBody m = (\<lambda>w. case m (w, []) of (_, (w', out)) \<Rightarrow> (Inr out, w'))"

definition jsonOpt :: "string option \<Rightarrow> json" where
  "jsonOpt x = (case x of None \<Rightarrow> JNull | Some s \<Rightarrow> JStr s)"

definition optStr :: "string \<Rightarrow> string option" where
  "optStr v = (if v = [] then None else Some v)"

section \<open>The body limit\<close>

text \<open>
  \<open>http.MaxBytesReader\<close> lets the first \<open>n\<close> bytes through; the read that would go past them returns
  what is left of the limit together with the error.
\<close>

primrec limitSegs :: "nat \<Rightarrow> bytes list \<Rightarrow> bytes list \<times> bool" where
  "limitSegs n [] = ([], False)"
| "limitSegs n (s # ss) =
    (if length s \<le> n then (case limitSegs (n - length s) ss of (t, over) \<Rightarrow> (s # t, over))
     else (if n = 0 then [] else [take n s], True))"

primrec limitEarly :: "nat \<Rightarrow> bytes list \<Rightarrow> bool" where
  "limitEarly n [] = False"
| "limitEarly n (s # ss) = (if length s \<le> n then limitEarly (n - length s) ss else n \<noteq> 0)"

definition MaxBytesReader :: "reader \<Rightarrow> nat \<Rightarrow> reader" where
  "MaxBytesReader r n =
    (case limitSegs n (rd_segs r) of (t, over) \<Rightarrow>
     if over then \<lparr>rd_segs = t, rd_end = RFail ErrTooLarge, rd_early = limitEarly n (rd_segs r)\<rparr> else r)"

lemma limitSegs_concat: "limitSegs n ss = (t, over) \<Longrightarrow> concat t = take n (concat ss) \<and> (over \<longleftrightarrow> n < length (concat ss))"
proof (induction ss arbitrary: n t over)
  case (Cons s ss)
  show ?case
  proof (cases "length s \<le> n")
    case True
    obtain t' o' where r: "limitSegs (n - length s) ss = (t', o')" by fastforce
    show ?thesis using Cons.IH [OF r] Cons.prems True r by (auto simp: less_diff_conv2)
  next
    case False
    then show ?thesis using Cons.prems by auto
  qed
qed simp

lemma limitSegs_nonempty: "limitSegs n ss = (t, over) \<Longrightarrow> [] \<notin> set ss \<Longrightarrow> [] \<notin> set t"
  by (induction ss arbitrary: n t) (auto split: if_splits prod.splits)

lemma MaxBytesReader_within: "length (content r) \<le> n \<Longrightarrow> MaxBytesReader r n = r"
  using limitSegs_concat [of n "rd_segs r"] by (auto simp: MaxBytesReader_def content_def split: prod.split)

lemma MaxBytesReader_beyond:
  "n < length (content r) \<Longrightarrow> rd_end (MaxBytesReader r n) = RFail ErrTooLarge \<and> content (MaxBytesReader r n) = take n (content r)"
  using limitSegs_concat [of n "rd_segs r"] by (auto simp: MaxBytesReader_def content_def split: prod.split)

lemma MaxBytesReader_progressing [simp]: "progressing r \<Longrightarrow> progressing (MaxBytesReader r n)"
  using limitSegs_nonempty [of n "rd_segs r"] by (auto simp: MaxBytesReader_def progressing_def split: prod.split)

section \<open>Headers\<close>

definition lowerAscii :: "char \<Rightarrow> char" where
  "lowerAscii c = (if 65 \<le> (of_char c :: nat) \<and> (of_char c :: nat) \<le> 90 then char_of (of_char c + 32 :: nat) else c)"

definition bearer :: "request \<Rightarrow> string" where
  "bearer r =
    (let h = rq_Header r ''Authorization'' in
     if 7 < length h \<and> map lowerAscii (take 7 h) = map lowerAscii ''Bearer '' then TrimSpace (drop 7 h) else [])"

definition ContentType :: "string \<Rightarrow> string" where
  "ContentType stored = (if stored = [] then ''application/octet-stream'' else stored)"

primrec asciiRunes :: "rune list \<Rightarrow> string" where
  "asciiRunes [] = []"
| "asciiRunes (r # rs) =
    (if r < 0x20 \<or> r = 0x7f \<or> r = 0x22 \<or> r = 0x5C then asciiRunes rs
     else if r > 0x7f then CHR ''_'' # asciiRunes rs
     else char_of r # asciiRunes rs)"

definition asciiFilename :: "string \<Rightarrow> string" where
  "asciiFilename name = asciiRunes (runes name)"

definition attrChar :: "char \<Rightarrow> bool" where
  "attrChar c \<longleftrightarrow>
     (let n = of_char c :: nat in
      65 \<le> n \<and> n \<le> 90 \<or> 97 \<le> n \<and> n \<le> 122 \<or> 48 \<le> n \<and> n \<le> 57 \<or> c \<in> set ''!#$&+-.^_`|~'')"

definition upperHex :: "nat \<Rightarrow> char" where
  "upperHex n = ''0123456789ABCDEF'' ! n"

primrec rfc5987 :: "string \<Rightarrow> string" where
  "rfc5987 [] = []"
| "rfc5987 (c # cs) =
    (if attrChar c then c # rfc5987 cs
     else CHR ''%'' # upperHex (of_char c div 16) # upperHex (of_char c mod 16) # rfc5987 cs)"

definition ContentDisposition :: "string \<Rightarrow> string \<Rightarrow> string" where
  "ContentDisposition disposition name =
    (let ascii = asciiFilename name;
         v = disposition @ ''; filename='' @ [CHR 0x22] @ ascii @ [CHR 0x22]
     in if ascii \<noteq> name then v @ ''; filename*=UTF-8'' @ [CHR 0x27, CHR 0x27] @ rfc5987 name else v)"

section \<open>Timestamps\<close>

text \<open>
  \<open>Time.UTC().Format\<close> with the layouts the handlers use. Times are nanoseconds since the epoch; the
  date is computed from the day number in the proleptic Gregorian calendar.
\<close>

definition civil :: "int \<Rightarrow> int \<times> int \<times> int" where
  "civil days =
    (let z = days + 719468;
         era = z div 146097;
         doe = z mod 146097;
         yoe = (doe - doe div 1460 + doe div 36524 - doe div 146096) div 365;
         doy = doe - (365 * yoe + yoe div 4 - yoe div 100);
         mp = (5 * doy + 2) div 153;
         m = (if mp < 10 then mp + 3 else mp - 9)
     in (yoe + era * 400 + (if m \<le> 2 then 1 else 0), m, doy - (153 * mp + 2) div 5 + 1))"

definition pad :: "nat \<Rightarrow> int \<Rightarrow> string" where
  "pad k n = replicate (k - length (Itoa n)) (CHR ''0'') @ Itoa n"

definition formatSeconds :: "int \<Rightarrow> string" where
  "formatSeconds t =
    (let secs = t div 1000000000; s = secs mod 86400
     in case civil (secs div 86400) of (y, m, d) \<Rightarrow>
       pad 4 y @ ''-'' @ pad 2 m @ ''-'' @ pad 2 d @ ''T'' @
       pad 2 (s div 3600) @ '':'' @ pad 2 (s mod 3600 div 60) @ '':'' @ pad 2 (s mod 60))"

definition formatTime :: "int \<Rightarrow> string" where
  "formatTime t = formatSeconds t @ ''Z''"

definition formatNano :: "int \<Rightarrow> string" where
  "formatNano t = formatSeconds t @ ''.'' @ pad 9 (t mod 1000000000) @ ''Z''"

section \<open>Header values are well formed\<close>

text \<open>Printable ASCII: nothing that could end the header line.\<close>

definition printable :: "char \<Rightarrow> bool" where
  "printable c \<longleftrightarrow> 0x20 \<le> (of_char c :: nat) \<and> (of_char c :: nat) \<le> 0x7e"

lemma asciiRunes_mem:
  "c \<in> set (asciiRunes rs) \<Longrightarrow> printable c \<and> c \<noteq> CHR 0x22 \<and> c \<noteq> CHR 0x5C"
proof (induction rs)
  case (Cons r rs)
  have "printable (char_of r) \<and> char_of r \<noteq> CHR 0x22 \<and> char_of r \<noteq> CHR 0x5C"
    if "\<not> r < 32" "r \<noteq> 127" "r \<noteq> 34" "r \<noteq> 92" "\<not> 127 < r"
  proof -
    have o: "of_char (char_of r) = r" using that by (simp add: of_char_of)
    moreover have "(of_char (CHR 0x22) :: nat) = 34" "(of_char (CHR 0x5C) :: nat) = 92" by (simp_all add: of_char_def)
    ultimately have "char_of r \<noteq> CHR 0x22" "char_of r \<noteq> CHR 0x5C" using that by metis+
    then show ?thesis using o that by (simp add: printable_def)
  qed
  moreover have "printable (CHR ''_'')" by (simp add: printable_def of_char_def)
  ultimately show ?case using Cons by (auto split: if_splits)
qed simp

text \<open>Percent-decoding, the inverse a client applies.\<close>

definition hexVal :: "char \<Rightarrow> nat" where
  "hexVal c = (let n = of_char c :: nat in if n \<le> 57 then n - 48 else n - 55)"

fun percentDecode :: "string \<Rightarrow> string" where
  "percentDecode (c # cs) =
    (if c = CHR ''%'' then
       (case cs of a # b # ds \<Rightarrow> char_of (16 * hexVal a + hexVal b) # percentDecode ds | _ \<Rightarrow> [])
     else c # percentDecode cs)"
| "percentDecode [] = []"

lemma of_char_nibbles: "(of_char c :: nat) div 16 < 16" "(of_char c :: nat) mod 16 < 16"
  using less_mult_imp_div_less [of "of_char c :: nat" 16 16] of_char_less_256 [of c] by simp_all

lemma upperHex_facts: "n < 16 \<Longrightarrow> hexVal (upperHex n) = n \<and> printable (upperHex n) \<and> upperHex n \<noteq> CHR 0x22"
proof -
  have "list_all (\<lambda>n. hexVal (upperHex n) = n \<and> printable (upperHex n) \<and> upperHex n \<noteq> CHR 0x22) [0..<16]"
    by code_simp
  then show "n < 16 \<Longrightarrow> hexVal (upperHex n) = n \<and> printable (upperHex n) \<and> upperHex n \<noteq> CHR 0x22"
    by (simp add: list_all_iff)
qed

lemma rfc5987_roundtrip: "percentDecode (rfc5987 s) = s"
proof (induction s)
  case (Cons c s)
  have "\<not> attrChar (CHR ''%'')" by (simp add: attrChar_def of_char_def)
  then have ne: "attrChar c \<Longrightarrow> c \<noteq> CHR ''%''" by auto
  have lt: "(of_char c :: nat) div 16 < 16" "(of_char c :: nat) mod 16 < 16" by (rule of_char_nibbles)+
  have "char_of (16 * (of_char c div 16) + of_char c mod 16 :: nat) = c" by simp
  then show ?case using Cons ne upperHex_facts [OF lt(1)] upperHex_facts [OF lt(2)] by simp
qed simp

lemma rfc5987_mem: "c \<in> set (rfc5987 s) \<Longrightarrow> printable c \<and> c \<noteq> CHR 0x22"
proof (induction s)
  case (Cons x s)
  have lt: "(of_char x :: nat) div 16 < 16" "(of_char x :: nat) mod 16 < 16" by (rule of_char_nibbles)+
  have at: "printable x \<and> x \<noteq> CHR 0x22" if "attrChar x"
  proof (cases "x \<in> set ''!#$&+-.^_`|~''")
    case True
    then show ?thesis by (auto simp: printable_def of_char_def)
  next
    case False
    then have n: "48 \<le> (of_char x :: nat) \<and> (of_char x :: nat) \<le> 122"
      using that unfolding attrChar_def Let_def by linarith
    moreover have "(of_char (CHR 0x22) :: nat) = 34" by (simp add: of_char_def)
    ultimately have "x \<noteq> CHR 0x22" using n by (intro notI) simp
    then show ?thesis using n by (simp add: printable_def)
  qed
  have "printable (CHR ''%'')" by (simp add: printable_def of_char_def)
  then show ?case using Cons at upperHex_facts [OF lt(1)] upperHex_facts [OF lt(2)] by (auto split: if_splits)
qed simp

section \<open>Query parameters\<close>

text \<open>\<open>url.QueryEscape\<close>.\<close>

definition unreserved :: "char \<Rightarrow> bool" where
  "unreserved c =
    (let n = of_char c :: nat
     in 65 \<le> n \<and> n \<le> 90 \<or> 97 \<le> n \<and> n \<le> 122 \<or> 48 \<le> n \<and> n \<le> 57 \<or> n = 45 \<or> n = 95 \<or> n = 46 \<or> n = 126)"

primrec QueryEscape :: "string \<Rightarrow> string" where
  "QueryEscape [] = []"
| "QueryEscape (c # cs) =
    (if unreserved c then [c]
     else if c = CHR '' '' then ''+''
     else [CHR ''%'', upperHex (of_char c div 16), upperHex (of_char c mod 16)]) @ QueryEscape cs"

text \<open>\<open>url.QueryUnescape\<close> on well-formed input, which the engine applies.\<close>

definition queryUnescape :: "string \<Rightarrow> string" where
  "queryUnescape s = percentDecode (map (\<lambda>c. if c = CHR ''+'' then CHR '' '' else c) s)"

lemma unreserved_not: "\<not> unreserved (CHR ''%'')" "\<not> unreserved (CHR ''+'')" "\<not> unreserved (CHR '' '')"
    "\<not> unreserved (CHR ''&'')" "\<not> unreserved (CHR ''='')" "\<not> unreserved (CHR ''#'')" "\<not> unreserved (CHR ''?'')"
  by (simp_all add: unreserved_def of_char_def)

lemma upperHex_unreserved: "n < 16 \<Longrightarrow> unreserved (upperHex n) \<and> hexVal (upperHex n) = n"
proof -
  have "list_all (\<lambda>n. unreserved (upperHex n)) [0..<16]" by (simp add: upt_rec upperHex_def unreserved_def of_char_def Let_def)
  then show "n < 16 \<Longrightarrow> unreserved (upperHex n) \<and> hexVal (upperHex n) = n"
    using upperHex_facts by (simp add: list_all_iff)
qed

lemma QueryEscape_chars: "c \<in> set (QueryEscape s) \<Longrightarrow> unreserved c \<or> c = CHR ''%'' \<or> c = CHR ''+''"
proof (induction s)
  case (Cons x s)
  then show ?case
    using upperHex_unreserved [OF of_char_nibbles(1) [of x]] upperHex_unreserved [OF of_char_nibbles(2) [of x]]
    by (auto split: if_splits)
qed simp

lemma queryUnescape_escape: "queryUnescape (QueryEscape s) = s"
proof (induction s)
  case Nil
  show ?case by (simp add: queryUnescape_def)
next
  case (Cons x s)
  note h = upperHex_unreserved [OF of_char_nibbles(1) [of x]] upperHex_unreserved [OF of_char_nibbles(2) [of x]]
  have np: "upperHex (of_char x div 16) \<noteq> CHR ''+''" "upperHex (of_char x mod 16) \<noteq> CHR ''+''" using h unreserved_not by metis+
  have c: "char_of (16 * (of_char x div 16) + of_char x mod 16 :: nat) = x" by simp
  have ux: "x \<noteq> CHR ''%''" "x \<noteq> CHR ''+''" if "unreserved x" using that unreserved_not by auto
  show ?case using Cons h np c ux by (simp add: queryUnescape_def)
qed

section \<open>Properties\<close>

text \<open>A file name cannot break out of the download header: whatever bytes it has, the value is printable
  ASCII (no line break), its quoted part holds no quote and no backslash, and when the plain form is not
  the name itself, a client that percent-decodes the extended form gets the name back.\<close>

theorem ContentDisposition_safe:
  assumes "list_all printable disposition"
  shows "list_all printable (ContentDisposition disposition name) \<and>
    CHR 0x22 \<notin> set (asciiFilename name) \<and> CHR 0x5C \<notin> set (asciiFilename name) \<and>
    percentDecode (rfc5987 name) = name \<and>
    (asciiFilename name = name \<or> (\<exists>pre. ContentDisposition disposition name = pre @ rfc5987 name))"
proof (intro conjI)
  have a: "list_all printable (asciiFilename name)" using asciiRunes_mem by (auto simp: list_all_iff asciiFilename_def)
  have r: "list_all printable (rfc5987 name)" using rfc5987_mem by (auto simp: list_all_iff)
  have l: "list_all printable (''; filename='' @ [CHR 0x22])" "list_all printable (''; filename*=UTF-8'' @ [CHR 0x27, CHR 0x27])"
    by (simp_all add: printable_def of_char_def)
  show "list_all printable (ContentDisposition disposition name)"
    using assms a r l by (cases "asciiFilename name = name") (simp_all add: ContentDisposition_def Let_def)
  show "CHR 0x22 \<notin> set (asciiFilename name)" "CHR 0x5C \<notin> set (asciiFilename name)"
    using asciiRunes_mem unfolding asciiFilename_def by blast+
  show "percentDecode (rfc5987 name) = name" by (rule rfc5987_roundtrip)
  show "asciiFilename name = name \<or> (\<exists>pre. ContentDisposition disposition name = pre @ rfc5987 name)"
    by (simp add: ContentDisposition_def Let_def)
qed

theorem ContentDisposition_safe_witness:
  "list_all printable (ContentDisposition ''attachment'' [CHR ''a'', CHR 0x0A, CHR 0x22])"
proof -
  have "list_all printable ''attachment''" by (simp add: printable_def of_char_def)
  from ContentDisposition_safe [OF this] show ?thesis by blast
qed

end
