(* ===== verification/Kube.thy ===== *)
theory Kube
  imports Tenant Http
begin

text \<open>
  The cluster the control plane works on: the Kubernetes objects it creates, the tenant resources with the
  validation rules of \<open>control-plane/apis/v1alpha1/tenant_types.go\<close>, and the calls of the Kubernetes client
  the reconciler makes, with \<open>createIfAbsent\<close> (\<open>internal/controller/apps.go\<close>) and \<open>setOwnerAndCreate\<close>
  (\<open>internal/controller/infra.go\<close>). Every call consumes an entry of the fault schedule.
\<close>

section \<open>Objects\<close>

type_synonym labels = "(string \<times> string) list"

record env_var =
  en_Name :: string
  en_Value :: string
  en_From :: "(string \<times> string) option"

datatype volume_source = VolPVC string bool | VolSecret string "(string \<times> string) list" | VolEmptyDir

record volume =
  vo_Name :: string
  vo_Source :: volume_source

record volume_mount =
  vm_Name :: string
  vm_Path :: string
  vm_ReadOnly :: bool

text \<open>A container's security context: the flags it sets (unset is \<open>None\<close>) and the capabilities.\<close>

record sec_context =
  sc_PrivilegeEscalation :: "bool option"
  sc_ReadOnlyRoot :: "bool option"
  sc_Drop :: "string list"
  sc_Add :: "string list"

record container =
  cn_Name :: string
  cn_Image :: string
  cn_Command :: "string list"
  cn_Ports :: "int list"
  cn_Env :: "env_var list"
  cn_Mounts :: "volume_mount list"
  cn_Probe :: "(string \<times> int) option"
  cn_Security :: "sec_context option"
  cn_Resources :: "(string \<times> string) list"

record pod_spec =
  ps_Labels :: labels
  ps_RunAsNonRoot :: bool
  ps_RunAsUser :: "int option"
  ps_RunAsGroup :: "int option"
  ps_FSGroup :: "int option"
  ps_SeccompDefault :: bool
  ps_AutomountToken :: bool
  ps_InitContainers :: "container list"
  ps_Containers :: "container list"
  ps_Volumes :: "volume list"

record deployment =
  dp_Replicas :: "int option"
  dp_Selector :: labels
  dp_Recreate :: bool
  dp_Template :: pod_spec

record service =
  se_Selector :: labels
  se_Ports :: "(string \<times> int \<times> int) list"

record ingress =
  ig_Class :: string
  ig_TLS :: "(string list \<times> string) list"
  ig_Rules :: "(string \<times> (string \<times> string \<times> int) list) list"

text \<open>A label selector: equalities and \<open>In\<close> requirements. An empty selector selects everything.\<close>

record selector =
  sl_MatchLabels :: labels
  sl_In :: "(string \<times> string list) list"

record peer =
  pe_Namespaces :: "selector option"
  pe_Pods :: "selector option"

datatype protocol = TCP | UDP

text \<open>A rule of a network policy; an empty list of ports is every port.\<close>

record policy_rule =
  pr_Peers :: "peer list"
  pr_Ports :: "(protocol \<times> int) list"

record network_policy =
  np_Pods :: selector
  np_Ingress :: "policy_rule list"
  np_Egress :: "policy_rule list"

record cron_job =
  cj_Schedule :: string
  cj_Forbid :: bool
  cj_BackoffLimit :: int
  cj_Deadline :: int
  cj_Template :: pod_spec

datatype payload_spec =
    PNamespace
  | PDeployment deployment
  | PService service
  | PIngress ingress
  | PNetworkPolicy network_policy
  | PSecret "(string \<times> string) list"
  | PVolumeClaim "string list" string
  | PCronJob cron_job
  | PUnstructured json

datatype kind =
    Namespace | Deployment | Service | Ingress | NetworkPolicy | Secret | VolumeClaim | CronJob
  | Cluster | Database | ScheduledBackup

text \<open>An object: the metadata the code sets, with the controller reference, and the rest.\<close>

record kobject =
  ob_Labels :: labels
  ob_Annotations :: labels
  ob_Controller :: "string option"
  ob_Payload :: payload_spec

type_synonym objkey = "kind \<times> string \<times> string"

definition mkObject :: "labels \<Rightarrow> payload_spec \<Rightarrow> kobject" where
  "mkObject ls p = \<lparr>ob_Labels = ls, ob_Annotations = [], ob_Controller = None, ob_Payload = p\<rparr>"

section \<open>The platform\<close>

text \<open>
  The state the control plane shares with the rest of the world: the tenant resources, the other objects by
  kind, namespace and name, what the cluster reports of deployments (available replicas) and of Postgres
  clusters (ready instances), the cached bearer token of the identity provider's client, and the state of the
  identity provider, whose type is a parameter.
\<close>

record 'z platform =
  pf_tenants :: "string \<rightharpoonup> tenant"
  pf_objects :: "objkey \<rightharpoonup> kobject"
  pf_available :: "string \<Rightarrow> string \<Rightarrow> int"
  pf_ready :: "string \<Rightarrow> int option"
  pf_token :: "(string \<times> int) option"
  pf_iam :: 'z

type_synonym ('z, 'a) cp = "('z platform, 'a) action"

section \<open>The Kubernetes client\<close>

definition kubeGet :: "objkey \<Rightarrow> ('z, kobject) cp" where
  "kubeGet k = bnd (query (\<lambda>d. pf_objects d k)) (\<lambda>x. case x of None \<Rightarrow> fail ErrAbsent | Some ob \<Rightarrow> ret ob)"

definition kubeCreate :: "objkey \<Rightarrow> kobject \<Rightarrow> ('z, unit) cp" where
  "kubeCreate k ob = exec (\<lambda>_ d.
     if pf_objects d k \<noteq> None then Inl ErrAlreadyExists else Inr (d\<lparr>pf_objects := (pf_objects d)(k \<mapsto> ob)\<rparr>))"

definition kubeUpdate :: "objkey \<Rightarrow> kobject \<Rightarrow> ('z, unit) cp" where
  "kubeUpdate k ob = exec (\<lambda>_ d.
     if pf_objects d k = None then Inl ErrAbsent else Inr (d\<lparr>pf_objects := (pf_objects d)(k \<mapsto> ob)\<rparr>))"

definition kubeDelete :: "objkey \<Rightarrow> ('z, unit) cp" where
  "kubeDelete k = exec (\<lambda>_ d.
     if pf_objects d k = None then Inl ErrAbsent else Inr (d\<lparr>pf_objects := (pf_objects d)(k := None)\<rparr>))"

text \<open>\<open>controllerutil.SetControllerReference\<close> on an object that has no controller yet.\<close>

definition SetControllerReference :: "tenant \<Rightarrow> kobject \<Rightarrow> kobject" where
  "SetControllerReference t ob = ob\<lparr>ob_Controller := Some (tn_Name t)\<rparr>"

definition setOwnerAndCreate :: "tenant \<Rightarrow> objkey \<Rightarrow> kobject \<Rightarrow> ('z, unit) cp" where
  "setOwnerAndCreate t k ob = kubeCreate k (SetControllerReference t ob)"

text \<open>\<open>Get\<close>; when there is no such object, go on with \<open>m\<close>.\<close>

definition ifAbsent :: "objkey \<Rightarrow> ('z, unit) cp \<Rightarrow> ('z, unit) cp" where
  "ifAbsent k m = (\<lambda>w. case kubeGet k w of
     (Inr _, w') \<Rightarrow> (Inr (), w')
   | (Inl e, w') \<Rightarrow> if e = ErrAbsent then m w' else (Inl e, w'))"

definition createIfAbsent :: "tenant \<Rightarrow> objkey \<Rightarrow> kobject \<Rightarrow> ('z, unit) cp" where
  "createIfAbsent t k ob = ifAbsent k (setOwnerAndCreate t k ob)"

section \<open>Tenants\<close>

text \<open>
  The validation the API server does with the rules of the resource definition: the patterns of slug and
  domain, the reserved slugs, and that the slug does not change.
\<close>

definition admissible :: "tenant_spec \<Rightarrow> bool" where
  "admissible s \<longleftrightarrow>
     ValidSlug (ts_Slug s) \<and> ts_Slug s \<notin> {''iam'', ''cp''} \<and> (ts_Domain s = [] \<or> ValidDomain (ts_Domain s))"

definition invalid :: err where
  "invalid = ErrApi 422 ''invalid''"

definition GetTenantRes :: "string \<Rightarrow> ('z, tenant) cp" where
  "GetTenantRes name = bnd (query (\<lambda>d. pf_tenants d name)) (\<lambda>x. case x of None \<Rightarrow> fail ErrAbsent | Some t \<Rightarrow> ret t)"

text \<open>A new resource has no status, no deletion time stamp and generation 1.\<close>

definition emptyStatus :: tenant_status where
  "emptyStatus = \<lparr>st_Phase = PhaseUnset, st_InstanceID = [], st_Issuer = [], st_ClientID = [], st_Conditions = []\<rparr>"

definition CreateTenantRes :: "string \<Rightarrow> tenant_spec \<Rightarrow> ('z, unit) cp" where
  "CreateTenantRes name s = exec (\<lambda>_ d.
     if \<not> admissible s then Inl invalid
     else if pf_tenants d name \<noteq> None then Inl ErrAlreadyExists
     else Inr (d\<lparr>pf_tenants := (pf_tenants d)(name \<mapsto>
       \<lparr>tn_Name = name, tn_Generation = 1, tn_Deleting = False, tn_Finalizers = [], tn_Spec = s, tn_Status = emptyStatus\<rparr>)\<rparr>))"

text \<open>
  \<open>Update\<close> stores metadata and specification and leaves the status alone; an object that is being deleted goes
  with its last finalizer. \<open>Status().Update\<close> stores the status only. \<open>Delete\<close> removes an object without
  finalizers and otherwise sets its deletion time stamp.
\<close>

definition storeTenant :: "tenant \<Rightarrow> tenant \<Rightarrow> tenant option" where
  "storeTenant old t =
    (let t' = old\<lparr>tn_Finalizers := tn_Finalizers t, tn_Spec := tn_Spec t,
                   tn_Generation := (if tn_Spec t = tn_Spec old then tn_Generation old else tn_Generation old + 1)\<rparr>
     in if tn_Deleting old \<and> tn_Finalizers t = [] then None else Some t')"

definition UpdateTenantRes :: "tenant \<Rightarrow> ('z, unit) cp" where
  "UpdateTenantRes t = exec (\<lambda>_ d. case pf_tenants d (tn_Name t) of
     None \<Rightarrow> Inl ErrAbsent
   | Some old \<Rightarrow>
       if \<not> admissible (tn_Spec t) \<or> ts_Slug (tn_Spec t) \<noteq> ts_Slug (tn_Spec old) then Inl invalid
       else Inr (d\<lparr>pf_tenants := (pf_tenants d)(tn_Name t := storeTenant old t)\<rparr>))"

definition UpdateTenantStatus :: "tenant \<Rightarrow> ('z, unit) cp" where
  "UpdateTenantStatus t = exec (\<lambda>_ d. case pf_tenants d (tn_Name t) of
     None \<Rightarrow> Inl ErrAbsent
   | Some old \<Rightarrow> Inr (d\<lparr>pf_tenants := (pf_tenants d)(tn_Name t \<mapsto> old\<lparr>tn_Status := tn_Status t\<rparr>)\<rparr>))"

definition DeleteTenantRes :: "string \<Rightarrow> ('z, unit) cp" where
  "DeleteTenantRes name = exec (\<lambda>_ d. case pf_tenants d name of
     None \<Rightarrow> Inl ErrAbsent
   | Some t \<Rightarrow> Inr (d\<lparr>pf_tenants := (pf_tenants d)(name := (if tn_Finalizers t = [] then None else Some (t\<lparr>tn_Deleting := True\<rparr>)))\<rparr>))"

section \<open>Frames\<close>

text \<open>Assertions that look at nothing but the tenants, the objects, or the identity provider.\<close>

definition onTenants :: "('z platform world \<Rightarrow> bool) \<Rightarrow> bool" where
  "onTenants I \<longleftrightarrow> (\<forall>w w'. pf_tenants (w_db w) = pf_tenants (w_db w') \<longrightarrow> I w = I w')"

definition onObjects :: "('z platform world \<Rightarrow> bool) \<Rightarrow> bool" where
  "onObjects I \<longleftrightarrow> (\<forall>w w'. pf_objects (w_db w) = pf_objects (w_db w') \<longrightarrow> I w = I w')"

definition onIam :: "('z platform world \<Rightarrow> bool) \<Rightarrow> bool" where
  "onIam I \<longleftrightarrow> (\<forall>w w'. pf_iam (w_db w) = pf_iam (w_db w') \<longrightarrow> I w = I w')"

lemma onD:
  "onTenants I \<Longrightarrow> pf_tenants (w_db w) = pf_tenants (w_db w') \<Longrightarrow> I w = I w'"
  "onObjects I \<Longrightarrow> pf_objects (w_db w) = pf_objects (w_db w') \<Longrightarrow> I w = I w'"
  "onIam I \<Longrightarrow> pf_iam (w_db w) = pf_iam (w_db w') \<Longrightarrow> I w = I w'"
  unfolding onTenants_def onObjects_def onIam_def by blast+

lemma on_parts [simp]:
  "onTenants (\<lambda>w. P (pf_tenants (w_db w)))" "onObjects (\<lambda>w. Q (pf_objects (w_db w)))" "onIam (\<lambda>w. R (pf_iam (w_db w)))"
  unfolding onTenants_def onObjects_def onIam_def by simp_all

lemma on_faultless: "onTenants I \<Longrightarrow> faultless I" "onObjects I \<Longrightarrow> faultless I" "onIam I \<Longrightarrow> faultless I"
  unfolding faultless_def by (intro allI onD(1); simp) (intro allI onD(2) onD(3); simp)+

lemma on_randless: "onTenants I \<Longrightarrow> randless I" "onObjects I \<Longrightarrow> randless I" "onIam I \<Longrightarrow> randless I"
  unfolding randless_def by (intro allI onD(1); simp) (intro allI onD(2) onD(3); simp)+

lemma keeps_kubeGet [keeps_rules]: "faultless I \<Longrightarrow> keeps I (kubeGet k)"
  unfolding kubeGet_def by (intro keeps_rules)

lemma keeps_GetTenantRes [keeps_rules]: "faultless I \<Longrightarrow> keeps I (GetTenantRes n)"
  unfolding GetTenantRes_def by (intro keeps_rules)

lemma keeps_ifAbsent [keeps_rules]:
  assumes "faultless I" "keeps I m"
  shows "keeps I (ifAbsent k m)"
proof (rule keepsI)
  fix w assume I: "I w"
  obtain r w1 where g: "kubeGet k w = (r, w1)" by fastforce
  have "I w1" by (rule keepsD2 [OF keeps_kubeGet [OF assms(1)] I g])
  then show "I (snd (ifAbsent k m w))"
    using g keepsD [OF assms(2), of w1] by (auto simp: ifAbsent_def split: sum.split)
qed

text \<open>What the object calls do to an assertion on the objects, and that they leave the other two alone.\<close>

lemma keeps_object_calls:
  assumes "onTenants I \<or> onIam I"
  shows "keeps I (kubeCreate k ob)" "keeps I (kubeUpdate k ob)" "keeps I (kubeDelete k)"
    "keeps I (setOwnerAndCreate t k ob)" "keeps I (createIfAbsent t k ob)"
proof -
  have f: "faultless I" using assms on_faultless by blast
  have u: "I (w\<lparr>w_db := w_db w\<lparr>pf_objects := F\<rparr>\<rparr>) = I w" for w F
    using assms onD(1) [of I "w\<lparr>w_db := w_db w\<lparr>pf_objects := F\<rparr>\<rparr>" w] onD(3) [of I "w\<lparr>w_db := w_db w\<lparr>pf_objects := F\<rparr>\<rparr>" w]
    by auto
  show c: "keeps I (kubeCreate k ob)" for k ob unfolding kubeCreate_def by (rule keeps_exec [OF f]) (auto simp: u split: if_splits)
  show "keeps I (kubeUpdate k ob)" unfolding kubeUpdate_def by (rule keeps_exec [OF f]) (auto simp: u split: if_splits)
  show "keeps I (kubeDelete k)" unfolding kubeDelete_def by (rule keeps_exec [OF f]) (auto simp: u split: if_splits)
  show s: "keeps I (setOwnerAndCreate t k ob)" for k ob unfolding setOwnerAndCreate_def by (rule c)
  show "keeps I (createIfAbsent t k ob)" unfolding createIfAbsent_def by (intro keeps_ifAbsent f s)
qed

end
