(* ===== verification/Zip.thy ===== *)
theory Zip
  imports Folder_Spec
begin

text \<open>
  Streaming a folder as a zip archive, \<open>kamara/internal/file/zip.go\<close>. The archive is the list of the
  entries written so far; a header that the underlying writer refuses is a failed call. The recursion
  over the tree carries a bound, and the theory shows that the bound is never reached. The entry names
  are shown to be unique and to stay inside the extraction directory.
\<close>

section \<open>Names\<close>

definition flattenRune :: "rune \<Rightarrow> rune" where
  "flattenRune r = (if r = 47 \<or> r = 92 then 95 else r)"

definition sanitizeEntryName :: "string \<Rightarrow> string" where
  "sanitizeEntryName name =
    (let n = stringsMap flattenRune name in if n = ''.'' \<or> n = ''..'' then ''_'' else n)"

text \<open>The map \<open>pending\<close>: a missing key counts zero; the newest entry of a key is in front.\<close>

type_synonym pending = "(string \<times> int) list"

definition pendingCount :: "pending \<Rightarrow> string \<Rightarrow> int" where
  "pendingCount p k = (case map_of p k of None \<Rightarrow> 0 | Some n \<Rightarrow> n)"

definition pendingAdd :: "pending \<Rightarrow> string \<Rightarrow> int \<Rightarrow> pending" where
  "pendingAdd p k n = (k, pendingCount p k + n) # p"

definition candidate :: "string \<Rightarrow> string \<Rightarrow> nat \<Rightarrow> string" where
  "candidate stem ext n = stem @ '' ('' @ Itoa (int n) @ '')'' @ ext"

lemma candidate_inj: "candidate stem ext m = candidate stem ext n \<longleftrightarrow> m = n"
  by (auto simp: candidate_def dest: Itoa_inj_nat)

text \<open>The loop for a free suffix ends because only finitely many names are taken.\<close>

function freeName :: "string list \<Rightarrow> pending \<Rightarrow> string \<Rightarrow> string \<Rightarrow> nat \<Rightarrow> string" where
  "freeName used pnd stem ext n =
    (if candidate stem ext n \<notin> set used \<and> pendingCount pnd (candidate stem ext n) \<le> 0 then candidate stem ext n
     else freeName used pnd stem ext (n + 1))"
  by pat_completeness auto
termination
proof (relation "measure (\<lambda>(used, pnd, stem, ext, n).
    card {c \<in> set used \<union> fst ` set pnd. \<exists>m \<ge> n. c = candidate stem ext m})", goal_cases)
  case (2 used pnd stem ext n)
  have "candidate stem ext n \<in> set used \<union> fst ` set pnd"
    using 2 by (auto simp: pendingCount_def split: option.splits dest!: map_of_SomeD) force
  moreover have "\<not> (\<exists>m \<ge> n + 1. candidate stem ext n = candidate stem ext m)" by (auto simp: candidate_inj)
  moreover have "\<exists>m \<ge> n. c = candidate stem ext m" if "\<exists>m \<ge> n + 1. c = candidate stem ext m" for c
    using that add_leD1 by blast
  ultimately have "{c \<in> set used \<union> fst ` set pnd. \<exists>m \<ge> n + 1. c = candidate stem ext m}
      \<subset> {c \<in> set used \<union> fst ` set pnd. \<exists>m \<ge> n. c = candidate stem ext m}"
    by blast
  then show ?case by (simp add: psubset_card_mono)
qed simp

declare freeName.simps [simp del]

definition entryName :: "string list \<Rightarrow> pending \<Rightarrow> string \<Rightarrow> string \<times> string list \<times> pending" where
  "entryName used pnd name0 =
    (let name = sanitizeEntryName name0;
         pnd' = pendingAdd pnd name (- 1)
     in if name \<notin> set used then (name, name # used, pnd')
        else
          let ext = pathExt name;
              stem = TrimSuffix name ext;
              c = freeName used pnd' stem ext 2
          in (c, c # used, pnd'))"

section \<open>The archive\<close>

record zip_entry =
  ze_Name :: string
  ze_Modified :: int
  ze_Data :: bytes

type_synonym archive = "zip_entry list"
type_synonym 'a zipping = "(kamara_db world \<times> archive, 'a) io"

text \<open>\<open>archive/zip\<close> refuses a name longer than 65535 bytes; the header goes to the underlying writer.\<close>

definition CreateHeader :: "string \<Rightarrow> int \<Rightarrow> unit zipping" where
  "CreateHeader name modified =
    (if 65535 < length name then fail ErrSize
     else bnd (lift (call (ret ()))) (\<lambda>_ (w, a).
       (Inr (), (w, a @ [\<lparr>ze_Name = name, ze_Modified = modified, ze_Data = []\<rparr>]))))"

text \<open>\<open>Close\<close> writes the directory of the archive.\<close>

definition closeZip :: "unit zipping" where
  "closeZip = lift (call (ret ()))"

text \<open>Writing into the entry whose header was written last.\<close>

definition intoEntry :: "(kamara_db world \<times> bytes, unit) io \<Rightarrow> unit zipping" where
  "intoEntry m = (\<lambda>(w, a). case m (w, []) of (r, (w', out)) \<Rightarrow>
     (r, (w', if a = [] then [] else butlast a @ [(last a)\<lparr>ze_Data := ze_Data (last a) @ out\<rparr>])))"

primrec zipFiles :: "svc \<Rightarrow> string \<Rightarrow> object list \<Rightarrow> string list \<Rightarrow> pending \<Rightarrow> (string list \<times> pending) zipping" where
  "zipFiles S pre [] used pnd = ret (used, pnd)"
| "zipFiles S pre (x # xs) used pnd =
    (case entryName used pnd (ob_Name x) of (nm, used', pnd') \<Rightarrow>
     bnd (CreateHeader (pre @ nm) (ob_Updated x)) (\<lambda>_.
     bnd (lift (ManifestOf (ob_ID x))) (\<lambda>rs.
     bnd (intoEntry (Reassemble (sv_P S) (sv_blobs S) (sv_cipher S) rs)) (\<lambda>_.
     zipFiles S pre xs used' pnd'))))"

primrec zipFolders ::
  "(string option \<Rightarrow> string \<Rightarrow> string list \<Rightarrow> string list zipping) \<Rightarrow> string \<Rightarrow> folder list \<Rightarrow>
   string list \<Rightarrow> pending \<Rightarrow> string list \<Rightarrow> string list zipping" where
  "zipFolders sub pre [] used pnd seen = ret seen"
| "zipFolders sub pre (f # fs) used pnd seen =
    (if fo_ID f \<in> set seen then zipFolders sub pre fs used pnd seen
     else
       case entryName used pnd (fo_Name f) of (nm, used', pnd') \<Rightarrow>
       bnd (CreateHeader (pre @ nm @ ''/'') (fo_Updated f)) (\<lambda>_.
       bnd (sub (Some (fo_ID f)) (pre @ nm @ ''/'') (fo_ID f # seen)) (\<lambda>seen'.
       zipFolders sub pre fs used' pnd' seen')))"

definition pendingOf :: "string list \<Rightarrow> pending" where
  "pendingOf names = foldl (\<lambda>p n. pendingAdd p (sanitizeEntryName n) 1) [] names"

primrec zipTree :: "svc \<Rightarrow> subject \<Rightarrow> nat \<Rightarrow> string option \<Rightarrow> string \<Rightarrow> string list \<Rightarrow> string list zipping" where
  "zipTree S caller 0 = (\<lambda>folder pre seen. fail ErrFuel)"
| "zipTree S caller (Suc n) = (\<lambda>folder pre seen.
    bnd (lift (ObjectsInFolder (sv_coll S) caller folder)) (\<lambda>files.
    bnd (lift (FoldersInParent (sv_coll S) caller folder)) (\<lambda>fs.
    bnd (zipFiles S pre files [] (pendingOf (map ob_Name files @ map fo_Name fs))) (\<lambda>(used, pnd).
    zipFolders (zipTree S caller n) pre fs used pnd seen))))"

text \<open>The bound: one more than the folders there are.\<close>

definition zipFuel :: "kamara_db \<Rightarrow> nat" where
  "zipFuel d = Suc (length (folders d))"

definition DownloadZip :: "svc \<Rightarrow> subject \<Rightarrow> string option \<Rightarrow> unit zipping" where
  "DownloadZip S caller folder =
    bnd (lift (authorizeFolderOpt S caller folder)) (\<lambda>_.
    bnd (gets (\<lambda>(w, a). zipFuel (w_db w))) (\<lambda>n.
    bnd (catch (zipTree S caller n folder [] (case folder of None \<Rightarrow> [] | Some i \<Rightarrow> [i]))
      (\<lambda>e. bnd (ignore closeZip) (\<lambda>_. fail e))) (\<lambda>_.
    closeZip)))"

section \<open>Entry names\<close>

definition plainName :: "string \<Rightarrow> bool" where
  "plainName c \<longleftrightarrow> c \<noteq> [] \<and> CHR ''/'' \<notin> set c \<and> CHR 0x5C \<notin> set c \<and> c \<noteq> ''.'' \<and> c \<noteq> ''..''"

lemma runesOf_ascii: "(\<And>b. b \<in> set bs \<Longrightarrow> b < 128) \<Longrightarrow> runesOf bs = bs"
  by (induction bs) (simp_all add: runesOf.simps)

lemma stringsMap_ascii:
  "list_all (\<lambda>c. (of_char c :: nat) < 128) s \<Longrightarrow> stringsMap f s = concat (map (\<lambda>c. encodeRune (f (of_char c))) s)"
proof -
  assume "list_all (\<lambda>c. (of_char c :: nat) < 128) s"
  then have "runesOf (map of_char s) = map of_char s" by (intro runesOf_ascii) (auto simp: list_all_iff)
  then show ?thesis by (simp add: stringsMap_def runes_def comp_def)
qed

lemma stringsMap_nonempty: "s \<noteq> [] \<Longrightarrow> stringsMap f s \<noteq> []"
proof (cases s)
  case (Cons c cs)
  have e: "encodeRune r \<noteq> []" for r by (simp add: encodeRune_def utf8Bytes_def)
  show ?thesis unfolding Cons stringsMap_def runes_def by (simp add: runesOf.simps e split: prod.split)
qed simp

lemma sanitize_plain: "name \<noteq> [] \<Longrightarrow> plainName (sanitizeEntryName name)"
proof -
  assume ne: "name \<noteq> []"
  have c: "(of_char (CHR ''/'') :: nat) = 47" "(of_char (CHR 0x5C) :: nat) = 92" by (simp_all add: of_char_def)
  have "CHR ''/'' \<notin> set (stringsMap flattenRune name)"
    using stringsMap_ascii_mem [of "CHR ''/''" flattenRune name] by (auto simp: c flattenRune_def split: if_splits)
  moreover have "CHR 0x5C \<notin> set (stringsMap flattenRune name)"
    using stringsMap_ascii_mem [of "CHR 0x5C" flattenRune name] by (auto simp: c flattenRune_def split: if_splits)
  ultimately show ?thesis using stringsMap_nonempty [OF ne] by (auto simp: sanitizeEntryName_def plainName_def Let_def)
qed

lemma decimal_chars: "c \<in> set (decimal n) \<Longrightarrow> isHexChar c"
  by (induction n rule: decimal.induct) (subst (asm) (2) decimal.simps, auto split: if_splits)

lemma Itoa_chars: "c \<in> set (Itoa (int n)) \<Longrightarrow> c \<noteq> CHR ''/'' \<and> c \<noteq> CHR 0x5C"
  using decimal_chars [of c n] by (auto simp: Itoa_def isHexChar_def)

lemma candidate_plain: "CHR ''/'' \<notin> set (stem @ ext) \<Longrightarrow> CHR 0x5C \<notin> set (stem @ ext) \<Longrightarrow> plainName (candidate stem ext n)"
  using Itoa_chars by (auto simp: plainName_def candidate_def append_eq_Cons_conv)

lemma freeName_candidate: "\<exists>m. freeName used pnd stem ext n = candidate stem ext m"
  by (induction used pnd stem ext n rule: freeName.induct) (subst freeName.simps, auto)

lemma freeName_free:
  "freeName used pnd stem ext n \<notin> set used \<and> pendingCount pnd (freeName used pnd stem ext n) \<le> 0"
proof (induction used pnd stem ext n rule: freeName.induct)
  case (1 used pnd stem ext n)
  then show ?case by (cases "candidate stem ext n \<notin> set used \<and> pendingCount pnd (candidate stem ext n) \<le> 0")
    (simp_all add: freeName.simps [of used pnd stem ext n])
qed

lemma entryName_plain:
  assumes "entryName used pnd name = (nm, used', pnd')"
  shows "name \<noteq> [] \<Longrightarrow> plainName nm" "nm \<notin> set used" "used' = nm # used" "pnd' = pendingAdd pnd (sanitizeEntryName name) (- 1)"
    "nm = sanitizeEntryName name \<or> sanitizeEntryName name \<in> set used \<and> pendingCount pnd' nm \<le> 0"
proof -
  let ?n = "sanitizeEntryName name"
  have j: "TrimSuffix ?n (pathExt ?n) @ pathExt ?n = ?n" by (rule TrimSuffix_pathExt)
  have cand: "plainName (candidate (TrimSuffix ?n (pathExt ?n)) (pathExt ?n) m)" if "name \<noteq> []" for m
    by (rule candidate_plain) (use sanitize_plain [OF that] in \<open>simp_all only: j plainName_def not_False_eq_True simp_thms\<close>)
  show "plainName nm" if "name \<noteq> []"
    using cand [OF that] assms sanitize_plain [OF that] freeName_candidate by (auto simp: entryName_def Let_def split: if_splits) metis
  show "nm \<notin> set used" "used' = nm # used" "pnd' = pendingAdd pnd (sanitizeEntryName name) (- 1)"
    "nm = sanitizeEntryName name \<or> sanitizeEntryName name \<in> set used \<and> pendingCount pnd' nm \<le> 0"
    using assms freeName_free by (auto simp: entryName_def Let_def split: if_splits)
qed

text \<open>The names of one directory, in the order of the listing.\<close>

primrec entryNames :: "string list \<Rightarrow> pending \<Rightarrow> string list \<Rightarrow> string list" where
  "entryNames used pnd [] = []"
| "entryNames used pnd (n # ns) = (case entryName used pnd n of (nm, used', pnd') \<Rightarrow> nm # entryNames used' pnd' ns)"

lemma pendingCount_add: "pendingCount (pendingAdd p k n) x = pendingCount p x + (if x = k then n else 0)"
  by (simp add: pendingCount_def pendingAdd_def)

lemma pendingCount_of: "pendingCount (pendingOf names) x = int (count_list (map sanitizeEntryName names) x)"
proof -
  have "pendingCount (foldl (\<lambda>p n. pendingAdd p (sanitizeEntryName n) 1) p names) x =
      pendingCount p x + int (count_list (map sanitizeEntryName names) x)" for p
    by (induction names arbitrary: p) (simp_all add: pendingCount_add)
  then show ?thesis by (simp add: pendingOf_def pendingCount_def)
qed

lemma entryNames_spec:
  assumes "\<And>x. pendingCount pnd x = int (count_list (map sanitizeEntryName ns) x)"
    and "\<And>u. u \<in> set used \<Longrightarrow> u \<in> L \<or> u \<notin> set (map sanitizeEntryName ns)"
  shows "length (entryNames used pnd ns) = length ns \<and> distinct (entryNames used pnd ns) \<and>
    set (entryNames used pnd ns) \<inter> set used = {} \<and>
    (\<forall>i < length ns. sanitizeEntryName (ns ! i) \<notin> L \<union> set (take i (map sanitizeEntryName ns)) \<longrightarrow>
       entryNames used pnd ns ! i = sanitizeEntryName (ns ! i))"
  using assms
proof (induction ns arbitrary: used pnd L)
  case (Cons n ns)
  let ?s = "sanitizeEntryName n"
  obtain nm used' pnd' where e: "entryName used pnd n = (nm, used', pnd')" by (metis prod_cases3)
  note p = entryName_plain(2-) [OF e]
  have cnt: "pendingCount pnd' x = int (count_list (map sanitizeEntryName ns) x)" for x
    using Cons.prems(1) [of x] by (simp add: p(3) pendingCount_add split: if_splits)
  have us: "u \<in> insert ?s L \<or> u \<notin> set (map sanitizeEntryName ns)" if "u \<in> set used'" for u
    using that p(2,4) Cons.prems(2) [of u] cnt [of nm] by (auto simp: count_list_0_iff)
  note ih = Cons.IH [where pnd = pnd' and used = used' and L = "insert ?s L", OF cnt us]
  have hd: "nm = ?s" if "?s \<notin> L" using p(4) Cons.prems(2) [of ?s] that by auto
  show ?case
  proof (intro conjI allI impI)
    fix i assume i: "i < length (n # ns)" and new: "sanitizeEntryName ((n # ns) ! i) \<notin> L \<union> set (take i (map sanitizeEntryName (n # ns)))"
    then show "entryNames used pnd (n # ns) ! i = sanitizeEntryName ((n # ns) ! i)"
      using e hd ih by (cases i) simp_all
  qed (use e ih p(1,2) in auto)
qed simp

text \<open>In one directory of an archive the entry names are pairwise distinct, and the first item with a
  given (sanitized) name keeps it: a generated suffix never takes the name of an item still to come.\<close>

theorem entryNames_unique:
  "distinct (entryNames [] (pendingOf names) names) \<and>
   (i < length names \<longrightarrow> sanitizeEntryName (names ! i) \<notin> sanitizeEntryName ` set (take i names) \<longrightarrow>
     entryNames [] (pendingOf names) names ! i = sanitizeEntryName (names ! i))"
  using entryNames_spec [of "pendingOf names" names "[]" "{}"] by (simp add: pendingCount_of take_map)

theorem entryNames_unique_witness:
  "entryNames [] (pendingOf [''a.txt'', ''a.txt'', ''a (2).txt'']) [''a.txt'', ''a.txt'', ''a (2).txt''] ! 2 = ''a (2).txt''"
proof -
  have s: "sanitizeEntryName ''a (2).txt'' = ''a (2).txt''" "sanitizeEntryName ''a.txt'' = ''a.txt''"
    by (simp_all add: sanitizeEntryName_def stringsMap_ascii flattenRune_def encodeRune_ascii Let_def char_of_def bit_0)
  show ?thesis using entryNames_unique [of "[''a.txt'', ''a.txt'', ''a (2).txt'']" 2] s by simp
qed

section \<open>The archive of a tree\<close>

text \<open>A relative path that stays below the directory it is extracted in; a directory ends in a slash.\<close>

inductive insidePath :: "string \<Rightarrow> bool" where
  leaf: "plainName c \<Longrightarrow> insidePath c"
| dir: "plainName c \<Longrightarrow> insidePath (c @ ''/'')"
| below: "plainName c \<Longrightarrow> insidePath p \<Longrightarrow> insidePath (c @ ''/'' @ p)"

definition firstPart :: "string \<Rightarrow> string" where
  "firstPart p = takeWhile (\<lambda>c. c \<noteq> CHR ''/'') p"

lemma firstPart_simps:
  assumes "plainName c"
  shows "firstPart c = c" "firstPart (c @ CHR ''/'' # p) = c"
  using assms by (auto simp: firstPart_def plainName_def takeWhile_append takeWhile_eq_all_conv)

lemma insidePath_nonempty: "insidePath p \<Longrightarrow> p \<noteq> []"
  by (induction rule: insidePath.induct) (auto simp: plainName_def)

text \<open>What a part of the walk adds to an archive: new names below \<open>pre\<close> that differ from each other and
  whose first parts avoid \<open>used\<close>.\<close>

definition adds :: "string \<Rightarrow> string set \<Rightarrow> archive \<Rightarrow> archive \<Rightarrow> string list \<Rightarrow> bool" where
  "adds pre used a a' qs \<longleftrightarrow> map ze_Name a' = map ze_Name a @ map ((@) pre) qs \<and> distinct qs \<and>
     (\<forall>q \<in> set qs. insidePath q \<and> firstPart q \<notin> used)"

lemma adds_nil [simp]: "adds pre used a a' [] \<longleftrightarrow> map ze_Name a' = map ze_Name a"
  by (simp add: adds_def)

lemma adds_append:
  assumes "adds pre used a a1 qs" "adds pre (used \<union> U) a1 a2 qs'" "\<And>q. q \<in> set qs \<Longrightarrow> firstPart q \<in> U"
  shows "adds pre used a a2 (qs @ qs')"
  using assms by (fastforce simp: adds_def)

lemma adds_below:
  assumes "plainName c" "adds (pre @ c @ ''/'') {} a a' qs"
  shows "adds pre (- {c}) a a' (map (\<lambda>q. c @ ''/'' @ q) qs)"
  using assms by (auto simp: adds_def distinct_map inj_on_def firstPart_simps intro: insidePath.below [simplified])

lemma CreateHeader_outcome:
  assumes "CreateHeader n m (w, a) = (r, (w', a'))"
  shows "w_db w' = w_db w \<and> (a' = a \<and> r \<in> {Inl ErrSize, Inl ErrIO} \<or>
    a' = a @ [\<lparr>ze_Name = n, ze_Modified = m, ze_Data = []\<rparr>] \<and> r = Inr ())"
proof -
  obtain r1 w1 where c: "call (ret ()) w = (r1, w1)" by fastforce
  then have "w_db w1 = w_db w \<and> (r1 = Inr () \<or> r1 = Inl ErrIO)"
    by (cases rule: call_cases) (auto simp: ret_apply)
  then show ?thesis using assms c by (auto simp: CreateHeader_def bnd_def lift_def fail_apply split: if_splits)
qed

lemma lift_query_outcome:
  assumes "lift (query f) (w, a) = (r, (w', a'))"
  shows "w_db w' = w_db w \<and> a' = a \<and> (r = Inr (f (w_db w)) \<or> r = Inl ErrIO)"
proof -
  obtain r1 w1 where q: "query f w = (r1, w1)" by fastforce
  show ?thesis using query_outcome [OF q] q assms by (auto simp: lift_def)
qed

text \<open>The store on disk: reading blobs into an entry changes no table and never runs out of the bound.\<close>

lemma reassemble_no_fuel:
  assumes "foreach (reassembleRef P (FS root) c) rs (w, out) = (Inl e, s)"
  shows "e \<noteq> ErrFuel"
  using assms
proof (induction rs arbitrary: w out)
  case (Cons ref rs)
  have call_e: "e' \<noteq> ErrFuel" if "call m u = (Inl e', u')" "\<And>v v' e''. m v = (Inl e'', v') \<Longrightarrow> e'' \<noteq> ErrFuel" for m u u' e'
    using that by (cases rule: call_cases) auto
  have get: "e' \<noteq> ErrFuel" if "Get root k u = (Inl e', u')" for k u u' e'
    using that by (auto simp: Get_def path_def fail_apply dest!: call_e split: sum.splits if_splits option.splits)
  have op: "e' \<noteq> ErrFuel" if "Open P c k x = Inl e'" for k x e'
    using that by (auto simp: Open_def Let_def split: if_splits option.splits)
  have step: "e' \<noteq> ErrFuel" if r: "reassembleRef P (FS root) c ref (w, out) = (Inl e', s')" for e' s'
  proof -
    obtain r1 w1 where g: "Get root (cr_Hash ref) w = (r1, w1)" by fastforce
    show ?thesis
    proof (cases r1)
      case (Inl e1)
      then show ?thesis using r g get [of "cr_Hash ref" w e1 w1] by (simp add: reassembleRef_def FS_def lift_def bnd_def)
    next
      case (Inr x)
      obtain r2 w2 where g2: "call (ret x) w1 = (r2, w2)" by fastforce
      have n2: "r2 \<noteq> Inl ErrFuel" using call_e [of "ret x" w1] g2 by (auto simp: ret_apply)
      show ?thesis
      proof (cases r2)
        case (Inl e2)
        then show ?thesis using r g g2 Inr n2 by (simp add: reassembleRef_def FS_def lift_def bnd_def)
      next
        case (Inr y)
        have wo: "writeOut z (w2, out) = (Inl e', s') \<Longrightarrow> e' \<noteq> ErrFuel" for z
          by (auto simp: writeOut_def bnd_def lift_def next_fault_def split: list.splits fault.splits)
        show ?thesis
          using r g g2 \<open>r1 = Inr x\<close> Inr op wo
          by (auto simp: reassembleRef_def FS_def lift_def bnd_def fail_apply split: sum.splits)
      qed
    qed
  qed
  obtain r1 w1 out1 where r1: "reassembleRef P (FS root) c ref (w, out) = (r1, (w1, out1))" by (metis prod_cases3)
  show ?case
    using Cons.prems r1 Cons.IH [of w1 out1] step [of _ "(w1, out1)"] by (cases r1) (auto simp: bnd_def)
qed (simp add: ret_apply)

lemma intoEntry_outcome:
  assumes "sv_blobs S = FS root"
    "intoEntry (Reassemble (sv_P S) (sv_blobs S) (sv_cipher S) rs) (w, a) = (r, (w', a'))"
  shows "w_db w' = w_db w \<and> map ze_Name a' = map ze_Name a \<and> r \<noteq> Inl ErrFuel"
proof -
  obtain r1 w1 out where m: "Reassemble (sv_P S) (FS root) (sv_cipher S) rs (w, []) = (r1, (w1, out))" by (metis prod_cases3)
  have "w_db w1 = w_db w" using fs_store.Reassemble_spec [OF m] by (simp add: blob_frame_def)
  moreover have "r1 \<noteq> Inl ErrFuel" using reassemble_no_fuel m unfolding Reassemble_def by fastforce
  moreover have "map ze_Name (butlast a @ [(last a)\<lparr>ze_Data := x\<rparr>]) = map ze_Name a" if "a \<noteq> []" for x
    using append_butlast_last_id [OF that] by (metis list.simps(8,9) map_append zip_entry.select_convs(1) zip_entry.surjective zip_entry.update_convs(3))
  ultimately show ?thesis using assms m by (auto simp: intoEntry_def split: if_splits)
qed

lemma zipFiles_outcome:
  assumes S: "sv_blobs S = FS root"
  shows "zipFiles S pre xs used pnd (w, a) = (r, (w', a')) \<Longrightarrow> (\<And>x. x \<in> set xs \<Longrightarrow> ob_Name x \<noteq> []) \<Longrightarrow>
    w_db w' = w_db w \<and> r \<noteq> Inl ErrFuel \<and>
    (\<exists>cs. adds pre (set used) a a' cs \<and> (\<forall>c \<in> set cs. plainName c) \<and>
       (\<forall>used' pnd'. r = Inr (used', pnd') \<longrightarrow> set used' = set used \<union> set cs))"
proof (induction xs arbitrary: used pnd w a)
  case Nil
  then show ?case by (auto simp: ret_apply intro!: exI [of _ "[]"])
next
  case (Cons x xs)
  obtain nm used1 pnd1 where e: "entryName used pnd (ob_Name x) = (nm, used1, pnd1)" by (metis prod_cases3)
  have nm: "plainName nm" "nm \<notin> set used" "used1 = nm # used" using entryName_plain [OF e] Cons.prems(2) by auto
  obtain r1 w1 a1 where h: "CreateHeader (pre @ nm) (ob_Updated x) (w, a) = (r1, (w1, a1))" by (metis prod_cases3)
  note oh = CreateHeader_outcome [OF h]
  show ?case
  proof (cases "r1 = Inr ()")
    case False
    then show ?thesis using oh h e Cons.prems(1) by (auto simp: bnd_def intro!: exI [of _ "[]"] split: sum.splits)
  next
    case True
    then have a1: "map ze_Name a1 = map ze_Name a @ [pre @ nm]" "w_db w1 = w_db w" using oh by auto
    have ad: "adds pre (set used) a a1 [nm]" using a1 nm by (simp add: adds_def insidePath.leaf firstPart_simps)
    obtain r2 w2 a2 where q: "lift (ManifestOf (ob_ID x)) (w1, a1) = (r2, (w2, a2))" by (metis prod_cases3)
    note oq = lift_query_outcome [OF q [unfolded ManifestOf_def]]
    show ?thesis
    proof (cases r2)
      case (Inl e2)
      then show ?thesis using oq q h e True Cons.prems(1) a1 ad nm
        by (auto simp: bnd_def intro!: exI [of _ "[nm]"])
    next
      case (Inr rs)
      obtain r3 w3 a3 where i: "intoEntry (Reassemble (sv_P S) (sv_blobs S) (sv_cipher S) rs) (w2, a2) = (r3, (w3, a3))"
        by (metis prod_cases3)
      note oi = intoEntry_outcome [OF S i]
      have ad3: "adds pre (set used) a a3 [nm]" using ad oi oq by (simp add: adds_def)
      have db3: "w_db w3 = w_db w" using oi oq a1 by simp
      show ?thesis
      proof (cases r3)
        case (Inl e3)
        then show ?thesis using i q h e True Inr oi Cons.prems(1) db3 ad3 nm
          by (auto simp: bnd_def intro!: exI [of _ "[nm]"])
      next
        case (Inr u)
        have rest: "zipFiles S pre xs used1 pnd1 (w3, a3) = (r, (w', a'))"
          using Cons.prems(1) e h q i True \<open>r2 = Inr rs\<close> Inr by (simp add: bnd_def)
        have "\<And>y. y \<in> set xs \<Longrightarrow> ob_Name y \<noteq> []" using Cons.prems(2) by simp
        from Cons.IH [OF rest this] obtain cs where cs: "adds pre (set used1) a3 a' cs" "\<forall>c \<in> set cs. plainName c"
          "\<forall>used' pnd'. r = Inr (used', pnd') \<longrightarrow> set used' = set used1 \<union> set cs" and k: "w_db w' = w_db w3" "r \<noteq> Inl ErrFuel" by blast
        have "adds pre (set used) a a' ([nm] @ cs)"
          by (rule adds_append [OF ad3, of "{nm}"]) (use cs(1) nm in \<open>auto simp: firstPart_simps insert_commute\<close>)
        then show ?thesis using cs nm k db3 by (intro conjI exI [of _ "nm # cs"]) auto
      qed
    qed
  qed
qed

text \<open>What the walk of a subtree must satisfy; \<open>k\<close> bounds the folders it has not visited.\<close>

definition walks :: "kamara_db \<Rightarrow> nat \<Rightarrow> (string option \<Rightarrow> string \<Rightarrow> string list \<Rightarrow> string list zipping) \<Rightarrow> bool" where
  "walks d k sub \<longleftrightarrow> (\<forall>folder pre seen w a r w' a'. w_db w = d \<longrightarrow> sub folder pre seen (w, a) = (r, (w', a')) \<longrightarrow>
     w_db w' = d \<and> (\<exists>qs. adds pre {} a a' qs) \<and> (unseen d seen < k \<longrightarrow> r \<noteq> Inl ErrFuel) \<and>
     (\<forall>seen'. r = Inr seen' \<longrightarrow> set seen \<subseteq> set seen'))"

lemma walksD:
  assumes "walks d k sub" "w_db w = d" "sub folder pre seen (w, a) = (r, (w', a'))"
  obtains qs where "w_db w' = d" "adds pre {} a a' qs" "unseen d seen < k \<Longrightarrow> r \<noteq> Inl ErrFuel"
    "\<And>seen'. r = Inr seen' \<Longrightarrow> set seen \<subseteq> set seen'"
proof -
  have "w_db w' = d \<and> (\<exists>qs. adds pre {} a a' qs) \<and> (unseen d seen < k \<longrightarrow> r \<noteq> Inl ErrFuel) \<and>
      (\<forall>seen'. r = Inr seen' \<longrightarrow> set seen \<subseteq> set seen')"
    using assms(1) [unfolded walks_def, rule_format, OF assms(2,3)] .
  then show thesis using that by blast
qed

lemma unseen_mono: "set seen \<subseteq> set seen' \<Longrightarrow> unseen d seen' \<le> unseen d seen"
  unfolding unseen_def by (intro card_mono) auto

lemma unseen_visit: "i \<in> fo_ID ` set (folders d) \<Longrightarrow> i \<notin> set seen \<Longrightarrow> unseen d (i # seen) < unseen d seen"
  unfolding unseen_def by (intro psubset_card_mono) auto

lemma zipFolders_outcome:
  assumes sub: "walks d k sub"
  shows "zipFolders sub pre fs used pnd seen (w, a) = (r, (w', a')) \<Longrightarrow> w_db w = d \<Longrightarrow>
    (\<And>f. f \<in> set fs \<Longrightarrow> f \<in> set (folders d) \<and> fo_Name f \<noteq> []) \<Longrightarrow>
    w_db w' = d \<and> (\<exists>qs. adds pre (set used) a a' qs) \<and> (unseen d seen \<le> k \<longrightarrow> r \<noteq> Inl ErrFuel) \<and>
    (\<forall>seen'. r = Inr seen' \<longrightarrow> set seen \<subseteq> set seen')"
proof (induction fs arbitrary: used pnd seen w a)
  case Nil
  then show ?case by (auto simp: ret_apply intro!: exI [of _ "[]"])
next
  case (Cons f fs)
  have fs: "\<And>g. g \<in> set fs \<Longrightarrow> g \<in> set (folders d) \<and> fo_Name g \<noteq> []" using Cons.prems(3) by simp
  show ?case
  proof (cases "fo_ID f \<in> set seen")
    case True
    then have "zipFolders sub pre fs used pnd seen (w, a) = (r, (w', a'))" using Cons.prems(1) by simp
    then show ?thesis by (rule Cons.IH [OF _ Cons.prems(2) fs])
  next
    case False
    obtain nm used1 pnd1 where e: "entryName used pnd (fo_Name f) = (nm, used1, pnd1)" by (metis prod_cases3)
    have nm: "plainName nm" "nm \<notin> set used" "used1 = nm # used" using entryName_plain [OF e] Cons.prems(3) by auto
    let ?dir = "pre @ nm @ ''/''"
    obtain r1 w1 a1 where h: "CreateHeader ?dir (fo_Updated f) (w, a) = (r1, (w1, a1))" by (metis prod_cases3)
    note oh = CreateHeader_outcome [OF h]
    show ?thesis
    proof (cases "r1 = Inr ()")
      case False
      then show ?thesis using oh h e \<open>fo_ID f \<notin> set seen\<close> Cons.prems(1,2)
        by (auto simp: bnd_def intro!: exI [of _ "[]"] split: sum.splits)
    next
      case True
      then have a1: "map ze_Name a1 = map ze_Name a @ [?dir]" "w_db w1 = d" using oh Cons.prems(2) by auto
      have ad: "adds pre (set used) a a1 [nm @ ''/'']"
        using a1 nm insidePath.dir [OF nm(1)] by (simp add: adds_def firstPart_simps)
      obtain r2 w2 a2 where s: "sub (Some (fo_ID f)) ?dir (fo_ID f # seen) (w1, a1) = (r2, (w2, a2))" by (metis prod_cases3)
      have "unseen d (fo_ID f # seen) < unseen d seen" using unseen_visit [of "fo_ID f" d seen] Cons.prems(3) \<open>fo_ID f \<notin> set seen\<close> by simp
      then obtain qs where s2: "w_db w2 = d" "adds ?dir {} a1 a2 qs" "unseen d seen \<le> k \<longrightarrow> r2 \<noteq> Inl ErrFuel"
        "\<forall>seen'. r2 = Inr seen' \<longrightarrow> set (fo_ID f # seen) \<subseteq> set seen'"
        using walksD [OF sub a1(2) s] by (metis order.strict_trans2)
      have ad2: "adds pre (set used) a a2 ((nm @ ''/'') # map (\<lambda>q. nm @ ''/'' @ q) qs)"
      proof -
        have b: "adds pre (- {nm}) a1 a2 (map (\<lambda>q. nm @ ''/'' @ q) qs)" by (rule adds_below [OF nm(1) s2(2)])
        have "nm @ ''/'' @ q \<noteq> nm @ ''/''" if "q \<in> set qs" for q
          using that s2(2) insidePath_nonempty by (auto simp: adds_def)
        then show ?thesis using ad b nm(2) by (auto simp: adds_def)
      qed
      show ?thesis
      proof (cases r2)
        case (Inl e2)
        then show ?thesis using Cons.prems(1) e h s True \<open>fo_ID f \<notin> set seen\<close> s2 ad2 by (auto simp: bnd_def)
      next
        case (Inr seen2)
        have rest: "zipFolders sub pre fs used1 pnd1 seen2 (w2, a2) = (r, (w', a'))"
          using Cons.prems(1) e h s True \<open>fo_ID f \<notin> set seen\<close> Inr by (simp add: bnd_def)
        have sn: "set seen \<subseteq> set seen2" using s2(4) Inr by simp
        from Cons.IH [OF rest s2(1) fs] obtain qs' where k: "w_db w' = d" "adds pre (set used1) a2 a' qs'"
          "unseen d seen2 \<le> k \<longrightarrow> r \<noteq> Inl ErrFuel" "\<forall>seen'. r = Inr seen' \<longrightarrow> set seen2 \<subseteq> set seen'" by blast
        have "adds pre (set used) a a' (((nm @ ''/'') # map (\<lambda>q. nm @ ''/'' @ q) qs) @ qs')"
          by (rule adds_append [OF ad2, of "{nm}"]) (use k(2) nm in \<open>auto simp: firstPart_simps insert_commute\<close>)
        moreover have "unseen d seen \<le> k \<longrightarrow> r \<noteq> Inl ErrFuel" using k(3) unseen_mono [OF sn, of d] by linarith
        moreover have "\<forall>seen'. r = Inr seen' \<longrightarrow> set seen \<subseteq> set seen'" using k(4) sn by blast
        ultimately show ?thesis using k(1) by blast
      qed
    qed
  qed
qed

text \<open>All rows have names, as the operations that create and rename demand.\<close>

definition named :: "kamara_db \<Rightarrow> bool" where
  "named d \<longleftrightarrow> (\<forall>x \<in> set (objects d). ob_Name x \<noteq> []) \<and> (\<forall>f \<in> set (folders d). fo_Name f \<noteq> [])"

lemma zipTree_walks:
  assumes S: "sv_blobs S = FS root" and nd: "named d"
  shows "walks d n (zipTree S caller n)"
proof (induction n)
  case 0
  show ?case by (auto simp: walks_def fail_apply intro!: exI [of _ "[]"])
next
  case (Suc n)
  show ?case
    unfolding walks_def
  proof (intro allI impI)
    fix folder pre seen w a r w' a'
    assume db: "w_db w = d" and z: "zipTree S caller (Suc n) folder pre seen (w, a) = (r, (w', a'))"
    obtain r1 w1 a1 where q1: "lift (ObjectsInFolder (sv_coll S) caller folder) (w, a) = (r1, (w1, a1))" by (metis prod_cases3)
    note o1 = lift_query_outcome [OF q1 [unfolded ObjectsInFolder_def]]
    obtain r2 w2 a2 where q2: "lift (FoldersInParent (sv_coll S) caller folder) (w1, a1) = (r2, (w2, a2))" by (metis prod_cases3)
    note o2 = lift_query_outcome [OF q2 [unfolded FoldersInParent_def]]
    show "w_db w' = d \<and> (\<exists>qs. adds pre {} a a' qs) \<and> (unseen d seen < Suc n \<longrightarrow> r \<noteq> Inl ErrFuel) \<and>
        (\<forall>seen'. r = Inr seen' \<longrightarrow> set seen \<subseteq> set seen')"
    proof (cases "r1 = Inl ErrIO \<or> r2 = Inl ErrIO")
      case True
      then have "r = Inl ErrIO" "a' = a" "w_db w' = d" using z q1 q2 o1 o2 db by (auto simp: bnd_def)
      then show ?thesis by (auto intro!: exI [of _ "[]"])
    next
      case False
      let ?xs = "objectsIn d (sv_coll S) caller folder" and ?fs = "foldersIn d (sv_coll S) caller folder"
      have rs: "r1 = Inr ?xs" "r2 = Inr ?fs" "a2 = a" "w_db w2 = d" using False o1 o2 db by auto
      let ?p = "pendingOf (map ob_Name ?xs @ map fo_Name ?fs)"
      obtain r3 w3 a3 where zf: "zipFiles S pre ?xs [] ?p (w2, a2) = (r3, (w3, a3))" by (metis prod_cases3)
      have "\<And>x. x \<in> set ?xs \<Longrightarrow> ob_Name x \<noteq> []" using nd by (auto simp: named_def objectsIn_def)
      from zipFiles_outcome [OF S zf this] obtain cs where o3: "w_db w3 = d" "r3 \<noteq> Inl ErrFuel" "adds pre {} a a3 cs"
        "\<forall>c \<in> set cs. plainName c" "\<forall>used' pnd'. r3 = Inr (used', pnd') \<longrightarrow> set used' = set cs" using rs by auto
      show ?thesis
      proof (cases r3)
        case (Inl e)
        then show ?thesis using z q1 q2 rs zf o3 by (auto simp: bnd_def)
      next
        case (Inr up)
        obtain used pnd where up: "up = (used, pnd)" by fastforce
        have rest: "zipFolders (zipTree S caller n) pre ?fs used pnd seen (w3, a3) = (r, (w', a'))"
          using z q1 q2 rs zf Inr up by (simp add: bnd_def)
        have "\<And>f. f \<in> set ?fs \<Longrightarrow> f \<in> set (folders d) \<and> fo_Name f \<noteq> []" using nd by (auto simp: named_def foldersIn_def)
        from zipFolders_outcome [OF Suc rest o3(1) this] obtain qs where k: "w_db w' = d" "adds pre (set used) a3 a' qs"
          "unseen d seen \<le> n \<longrightarrow> r \<noteq> Inl ErrFuel" "\<forall>seen'. r = Inr seen' \<longrightarrow> set seen \<subseteq> set seen'" by blast
        have "adds pre {} a a' (cs @ qs)"
          by (rule adds_append [OF o3(3), of "set cs"]) (use k(2) o3(4,5) Inr up in \<open>auto simp: firstPart_simps\<close>)
        then show ?thesis using k by auto
      qed
    qed
  qed
qed

lemma unseen_fuel: "unseen d seen < zipFuel d"
proof -
  have "unseen d seen \<le> card (fo_ID ` set (folders d))" unfolding unseen_def by (intro card_mono) auto
  also have "\<dots> \<le> length (folders d)" using card_image_le [of "set (folders d)" fo_ID] card_length [of "folders d"] by simp
  finally show ?thesis by (simp add: zipFuel_def)
qed

lemma closeZip_outcome: "closeZip (w, a) = (r, (w', a')) \<Longrightarrow> w_db w' = w_db w \<and> a' = a \<and> (r = Inr () \<or> r = Inl ErrIO)"
proof -
  assume c: "closeZip (w, a) = (r, (w', a'))"
  obtain r1 w1 where q: "call (ret ()) w = (r1, w1)" by fastforce
  then have "w_db w1 = w_db w \<and> (r1 = Inr () \<or> r1 = Inl ErrIO)" by (cases rule: call_cases) (auto simp: ret_apply)
  then show ?thesis using c q by (auto simp: closeZip_def lift_def)
qed

text \<open>C39. Under every fault schedule, whether or not the download is cut short: the names in the archive are
  pairwise distinct, each of them is a relative path that stays below the extraction directory (no
  empty, dot or dot-dot component, no backslash, no leading slash), the tables are untouched, and the
  bound on the recursion is never reached.\<close>

theorem DownloadZip_archive:
  assumes "named (w_db w)" "DownloadZip (onDisk root V) caller folder (w, []) = (r, (w', a))"
  shows "distinct (map ze_Name a) \<and> (\<forall>e \<in> set a. insidePath (ze_Name e)) \<and> w_db w' = w_db w \<and> r \<noteq> Inl ErrFuel"
proof -
  let ?S = "onDisk root V" and ?seen = "case folder of None \<Rightarrow> [] | Some i \<Rightarrow> [i]"
  obtain r0 w0 where au: "authorizeFolderOpt ?S caller folder w = (r0, w0)" by fastforce
  have "keeps (\<lambda>u. w_db u = w_db w) (authorizeFolderOpt ?S caller folder)" by (rule keeps_authorize) simp
  from keepsD_db [OF this au] have db0: "w_db w0 = w_db w" by simp
  have r0: "r0 \<noteq> Inl ErrFuel"
    using au by (cases folder) (auto simp: authorizeFolderOpt_def authorizeFolder_def authorizeAccess_def Check_def bnd_def ret_apply fail_apply
        dest!: fgaAsk_outcome split: prod.splits sum.splits if_splits)
  have ok: "distinct (map ze_Name b) \<and> (\<forall>e \<in> set b. insidePath (ze_Name e))" if "adds [] {} [] b qs" for b qs
  proof -
    have n: "map ze_Name b = qs" using that by (simp add: adds_def map_idI)
    then show ?thesis using that by (auto simp: adds_def)
  qed
  show ?thesis
  proof (cases r0)
    case (Inl e)
    then show ?thesis using assms(2) au db0 r0 by (auto simp: DownloadZip_def bnd_def lift_def)
  next
    case (Inr u)
    obtain r1 w1 a1 where z: "zipTree ?S caller (zipFuel (w_db w)) folder [] ?seen (w0, []) = (r1, (w1, a1))" by (metis prod_cases3)
    have "walks (w_db w) (zipFuel (w_db w)) (zipTree ?S caller (zipFuel (w_db w)))"
      by (rule zipTree_walks [OF _ assms(1)]) simp
    then obtain qs where o1: "w_db w1 = w_db w" "adds [] {} [] a1 qs" "r1 \<noteq> Inl ErrFuel"
      using z db0 unseen_fuel unfolding walks_def by blast
    obtain r2 w2 a2 where c: "closeZip (w1, a1) = (r2, (w2, a2))" by (metis prod_cases3)
    note o2 = closeZip_outcome [OF c]
    have "a = a1 \<and> w_db w' = w_db w \<and> r \<noteq> Inl ErrFuel"
      using assms(2) au Inr z c o1 o2 db0 by (cases r1) (auto simp: DownloadZip_def bnd_def catch_def lift_def fail_apply)
    then show ?thesis using ok [OF o1(2)] by auto
  qed
qed

theorem DownloadZip_archive_witness:
  "\<exists>r w' a. DownloadZip demoSvc ann None (treeWorld, []) = (r, (w', a)) \<and> distinct (map ze_Name a) \<and> r \<noteq> Inl ErrFuel"
proof -
  have "named (w_db treeWorld)" by (simp add: named_def) (simp add: treeDb_def)
  moreover obtain r w' a where d: "DownloadZip (onDisk ''/data'' demoSvc) ann None (treeWorld, []) = (r, (w', a))" by (metis prod_cases3)
  ultimately show ?thesis using DownloadZip_archive [OF _ d] d by simp
qed

end
