(* ===== verification/Session.thy ===== *)
theory Session
  imports Prelude
begin

text \<open>
  The in-memory session store, \<open>lib/session\<close>: a map with per-entry expiry, lazily evicted on \<open>Get\<close>
  and swept on \<open>Put\<close> at most once per TTL window. Times and durations are nanoseconds; the caller
  passes the clock. Each operation runs under the store's mutex, so it is one step.
\<close>

record 'v entry =
  en_val :: 'v
  en_exp :: int

record 'v sstore =
  st_ttl :: int
  st_sweepEvery :: int
  st_items :: "string \<rightharpoonup> 'v entry"
  st_lastSweep :: int

text \<open>The zero \<open>time.Time\<close> (year 1) and \<open>Time.Sub\<close>, which saturates at the \<open>int64\<close> range.\<close>

definition zeroTime :: int where
  "zeroTime = -62135596800 * 1000000000"

definition timeSub :: "int \<Rightarrow> int \<Rightarrow> int" where
  "timeSub a b = max (- (2 ^ 63)) (min (2 ^ 63 - 1) (a - b))"

definition NewStore :: "int \<Rightarrow> 'v sstore" where
  "NewStore ttl = \<lparr>st_ttl = ttl, st_sweepEvery = ttl, st_items = Map.empty, st_lastSweep = zeroTime\<rparr>"

definition sweepLocked :: "int \<Rightarrow> 'v sstore \<Rightarrow> 'v sstore" where
  "sweepLocked now s = s\<lparr>
     st_items := (\<lambda>k. case st_items s k of
        None \<Rightarrow> None | Some e \<Rightarrow> if now > en_exp e then None else Some e),
     st_lastSweep := now\<rparr>"

definition PutSession :: "int \<Rightarrow> string \<Rightarrow> 'v \<Rightarrow> 'v sstore \<Rightarrow> 'v sstore" where
  "PutSession now key v s =
    (let s = (if timeSub now (st_lastSweep s) \<ge> st_sweepEvery s then sweepLocked now s else s)
     in s\<lparr>st_items := (st_items s)(key \<mapsto> \<lparr>en_val = v, en_exp = now + st_ttl s\<rparr>)\<rparr>)"

definition GetSession :: "int \<Rightarrow> string \<Rightarrow> 'v sstore \<Rightarrow> 'v option \<times> 'v sstore" where
  "GetSession now key s =
    (case st_items s key of
       None \<Rightarrow> (None, s)
     | Some e \<Rightarrow>
         if now > en_exp e then (None, s\<lparr>st_items := (st_items s)(key := None)\<rparr>)
         else (Some (en_val e), s))"

definition DeleteSession :: "string \<Rightarrow> 'v sstore \<Rightarrow> 'v sstore" where
  "DeleteSession key s = s\<lparr>st_items := (st_items s)(key := None)\<rparr>"

definition LenSession :: "'v sstore \<Rightarrow> nat" where
  "LenSession s = card (dom (st_items s))"

section \<open>Runs of the store\<close>

text \<open>A run: operations with the clock readings they were made at.\<close>

datatype 'v sop = SPut string 'v | SGet string | SDelete string

fun stepSession :: "int \<Rightarrow> 'v sop \<Rightarrow> 'v sstore \<Rightarrow> 'v sstore" where
  "stepSession now (SPut k v) s = PutSession now k v s"
| "stepSession now (SGet k) s = snd (GetSession now k s)"
| "stepSession now (SDelete k) s = DeleteSession k s"

definition window_ok :: "'v sstore \<Rightarrow> bool" where
  "window_ok s \<longleftrightarrow> 0 < st_ttl s \<and> st_ttl s < 2 ^ 63 \<and> st_sweepEvery s = st_ttl s \<and>
     (\<forall>k e. st_items s k = Some e \<longrightarrow> st_lastSweep s \<le> en_exp e)"

lemma window_ok_new: "0 < ttl \<Longrightarrow> ttl < 2 ^ 63 \<Longrightarrow> window_ok (NewStore ttl)"
  by (simp add: window_ok_def NewStore_def)

lemma window_ok_step:
  assumes "window_ok s" "st_lastSweep s \<le> now"
  shows "window_ok (stepSession now op s) \<and> st_lastSweep (stepSession now op s) \<le> now"
  using assms
  by (cases op)
    (auto simp: window_ok_def PutSession_def sweepLocked_def GetSession_def DeleteSession_def Let_def
      split: option.splits if_splits)

inductive sessionRun :: "int \<Rightarrow> 'v sstore \<Rightarrow> int \<Rightarrow> 'v sstore \<Rightarrow> bool" where
  start: "sessionRun t s t s"
| more: "sessionRun t s t1 s1 \<Longrightarrow> t1 \<le> t2 \<Longrightarrow> sessionRun t s t2 (stepSession t2 op s1)"

lemma sessionRun_window:
  "sessionRun t s t' s' \<Longrightarrow> window_ok s \<Longrightarrow> st_lastSweep s \<le> t \<Longrightarrow> window_ok s' \<and> st_lastSweep s' \<le> t'"
proof (induction rule: sessionRun.induct)
  case (more t s t1 s1 t2 op)
  then show ?case using window_ok_step [of s1 t2 op] by auto
qed simp

section \<open>Entries with a provenance\<close>

text \<open>
  The clients of the store rely on more than the lookup laws: what \<open>Get\<close> returns was put under that key
  no longer than the lifetime ago, at a moment when the client had a reason \<open>P\<close> to put it.
\<close>

definition backed :: "int \<Rightarrow> (int \<Rightarrow> string \<Rightarrow> 'v \<Rightarrow> bool) \<Rightarrow> int \<Rightarrow> 'v sstore \<Rightarrow> bool" where
  "backed ttl P t s \<longleftrightarrow> st_ttl s = ttl \<and>
     (\<forall>k e. st_items s k = Some e \<longrightarrow> en_exp e - ttl \<le> t \<and> P (en_exp e - ttl) k (en_val e))"

lemma backed_new: "backed ttl P t (NewStore ttl)"
  by (simp add: backed_def NewStore_def)

lemma backed_later: "backed ttl P t s \<Longrightarrow> t \<le> t' \<Longrightarrow> backed ttl P t' s"
  by (fastforce simp: backed_def)

lemma backed_put: "backed ttl P t s \<Longrightarrow> P t k v \<Longrightarrow> backed ttl P t (PutSession t k v s)"
  by (auto simp: backed_def PutSession_def Let_def sweepLocked_def split: option.splits if_splits)

lemma backed_delete: "backed ttl P t s \<Longrightarrow> backed ttl P t (DeleteSession k s)"
  by (auto simp: backed_def DeleteSession_def)

lemma backed_get:
  assumes "backed ttl P t s" "GetSession now k s = (v, s')"
  shows "backed ttl P t s' \<and> (\<forall>x. v = Some x \<longrightarrow> (\<exists>t0 \<le> t. P t0 k x \<and> now - t0 \<le> ttl))"
proof -
  have "backed ttl P t s'" using assms by (auto simp: backed_def GetSession_def split: option.splits if_splits)
  moreover have "\<exists>t0 \<le> t. P t0 k x \<and> now - t0 \<le> ttl" if x: "v = Some x" for x
  proof -
    obtain e where e: "st_items s k = Some e" "en_val e = x" "now \<le> en_exp e"
      using assms(2) x by (auto simp: GetSession_def split: option.splits if_splits)
    then show ?thesis using assms(1) unfolding backed_def by (intro exI [of _ "en_exp e - ttl"]) auto
  qed
  ultimately show ?thesis by blast
qed

section \<open>Properties\<close>

text \<open>What is put is read back, unchanged, until its TTL has passed and never after: right after a
  \<open>Put\<close> at \<open>t\<close>, a \<open>Get\<close> at \<open>t'\<close> returns the value if \<open>t' \<le> t + ttl\<close>, and otherwise returns nothing
  and evicts the entry; other keys keep every unexpired value.\<close>

theorem Session_put_get:
  "GetSession t' k (PutSession t k v s) =
     (if t' \<le> t + st_ttl s then (Some v, PutSession t k v s)
      else (None, DeleteSession k (PutSession t k v s))) \<and>
   (k' \<noteq> k \<and> t \<le> t' \<longrightarrow> fst (GetSession t' k' (PutSession t k v s)) = fst (GetSession t' k' s))"
  by (auto simp: PutSession_def GetSession_def DeleteSession_def sweepLocked_def Let_def
      split: option.split)

theorem Session_put_get_witness:
  "fst (GetSession 5 ''b'' (PutSession 3 ''a'' (1 :: nat) (PutSession 0 ''b'' 2 (NewStore 10)))) = Some 2"
  using Session_put_get [of 5 "''a''" 3 1 "PutSession 0 ''b'' 2 (NewStore 10)" "''b''"]
  by (simp add: GetSession_def PutSession_def NewStore_def Let_def sweepLocked_def)

text \<open>Growth is bounded in time: in every run of the store with a clock that does not go back, after a
  \<open>Put\<close> at \<open>now\<close> no entry is left that expired more than one TTL window ago.\<close>

theorem Session_no_old_garbage:
  assumes "0 < ttl" "ttl < 2 ^ 63" "zeroTime \<le> t" "sessionRun t (NewStore ttl) t1 s1" "t1 \<le> now"
    and "st_items (PutSession now k v s1) k' = Some e"
  shows "now - ttl < en_exp e"
proof -
  have w: "window_ok s1 \<and> st_lastSweep s1 \<le> t1"
    using sessionRun_window [OF assms(4)] window_ok_new [OF assms(1,2)] assms(3)
    by (simp add: NewStore_def)
  have ttl: "st_ttl s1 = ttl"
    using assms(4)
  proof (induction t "NewStore ttl :: 'a sstore" t1 s1 rule: sessionRun.induct)
    case (more t t1 s1 t2 op)
    then show ?case
      by (cases op) (auto simp: PutSession_def GetSession_def DeleteSession_def sweepLocked_def Let_def split: option.splits)
  qed (simp add: NewStore_def)
  show ?thesis
  proof (cases "timeSub now (st_lastSweep s1) \<ge> ttl")
    case True
    then show ?thesis
      using assms(1,6) w ttl
      by (auto simp: PutSession_def sweepLocked_def window_ok_def Let_def split: if_splits option.splits)
  next
    case False
    then have "now - st_lastSweep s1 < ttl" using assms(2) by (auto simp: timeSub_def)
    then show ?thesis
      using assms(1,6) w ttl False
      by (fastforce simp: PutSession_def window_ok_def Let_def split: if_splits)
  qed
qed

theorem Session_no_old_garbage_witness:
  "st_items (PutSession 0 ''k'' (7 :: nat) (NewStore 10)) ''k'' = Some \<lparr>en_val = 7, en_exp = 10\<rparr> \<and> (0 :: int) - 10 < 10"
proof -
  have i: "st_items (PutSession 0 ''k'' (7 :: nat) (NewStore 10)) ''k'' = Some \<lparr>en_val = 7, en_exp = 10\<rparr>"
    by (simp add: PutSession_def NewStore_def Let_def sweepLocked_def)
  have "sessionRun zeroTime (NewStore 10 :: nat sstore) zeroTime (NewStore 10)" by (rule sessionRun.start)
  from Session_no_old_garbage [OF _ _ _ this _ i] i show ?thesis by (simp add: zeroTime_def)
qed

end
