(* ===== verification/Api.thy ===== *)
theory Api
  imports Http Zip Session
begin

text \<open>
  The storage API, \<open>kamara/internal/api/api.go\<close>: one definition per handler, the error mapping, the wire
  shapes and the bearer authentication in front of them. A handler is an action that returns the
  response it writes. The authenticator is an interface of the package; its production implementation
  is in \<open>Userinfo\<close>, with a state of its own, so the authenticated handlers run on a pair.
\<close>

type_synonym api_response = "archive response"

section \<open>Wire shapes\<close>

definition toFile :: "object \<Rightarrow> json" where
  "toFile x = JObj [
     (''id'', JStr (ob_ID x)), (''name'', JStr (ob_Name x)), (''size'', JNum (ob_Size x)),
     (''folder'', jsonOpt (ob_FolderID x)), (''contentType'', JStr (ob_ContentType x)),
     (''permalink'', JStr (Permalink (ob_ID x))),
     (''created'', JStr (formatTime (ob_Created x))), (''updated'', JStr (formatTime (ob_Updated x)))]"

definition toVersion :: "version \<Rightarrow> json" where
  "toVersion v = JObj [
     (''id'', JStr (ve_ID v)), (''ordinal'', JNum (ve_Ordinal v)), (''size'', JNum (ve_Size v)),
     (''created'', JStr (formatTime (ve_Created v)))]"

definition toFolder :: "folder \<Rightarrow> json" where
  "toFolder f = JObj [
     (''id'', JStr (fo_ID f)), (''name'', JStr (fo_Name f)), (''parent'', jsonOpt (fo_ParentID f)),
     (''permalink'', JStr (FolderPermalink (fo_ID f))),
     (''created'', JStr (formatTime (fo_Created f))), (''updated'', JStr (formatTime (fo_Updated f)))]"

section \<open>Errors\<close>

definition failApi :: "err \<Rightarrow> api_response" where
  "failApi e =
    (if e = ErrNotFound then writeErr 404 ''not found''
     else if e = ErrForbidden then writeErr 403 ''forbidden''
     else if e = ErrNotEmpty then writeErr 409 ''folder not empty''
     else if e = ErrCycle then writeErr 400 ''move would create a cycle''
     else if e = ErrModified then writeErr 409 ''file was modified since the base version''
     else writeErr 500 ''internal error'')"

definition failOr413 :: "string \<Rightarrow> err \<Rightarrow> api_response" where
  "failOr413 msg e = (if e = ErrTooLarge then writeErr 413 msg else failApi e)"

definition noContent :: "unit kamara \<Rightarrow> api_response kamara" where
  "noContent m = attempt m (\<lambda>e. ret (failApi e)) (\<lambda>_. ret (statusOnly 204))"

section \<open>Files\<close>

definition apiUpload :: "svc \<Rightarrow> nat \<Rightarrow> request \<Rightarrow> subject \<Rightarrow> api_response kamara" where
  "apiUpload S maxUpload r caller =
    (let name = rq_Query r ''name'' in
     if name = [] then ret (writeErr 400 ''name query parameter is required'')
     else
       attempt (Upload S caller (optStr (rq_Query r ''folder'')) name (MaxBytesReader (rq_Body r) maxUpload))
         (\<lambda>e. ret (failOr413 ''file exceeds maximum upload size'' e))
         (\<lambda>x. ret (writeJSON 201 (toFile x))))"

definition apiList :: "svc \<Rightarrow> request \<Rightarrow> subject \<Rightarrow> api_response kamara" where
  "apiList S r caller = attempt (ListFiles S caller) (\<lambda>e. ret (failApi e)) (\<lambda>objs.
     ret (writeJSON 200 (JObj [(''files'', JArr (map toFile objs))])))"

definition apiGet :: "svc \<Rightarrow> request \<Rightarrow> subject \<Rightarrow> api_response kamara" where
  "apiGet S r caller = attempt (GetFile S caller (rq_ID r)) (\<lambda>e. ret (failApi e)) (\<lambda>x.
     ret (writeJSON 200 (toFile x)))"

definition apiDownload :: "svc \<Rightarrow> request \<Rightarrow> subject \<Rightarrow> api_response kamara" where
  "apiDownload S r caller = attempt (GetFile S caller (rq_ID r)) (\<lambda>e. ret (failApi e)) (\<lambda>x.
     bnd (streamBody (Download S caller (ob_ID x))) (\<lambda>out.
     ret \<lparr>rs_Status = 200,
          rs_Header = [(''Content-Type'', ContentType (ob_ContentType x)),
                       (''Content-Disposition'', ContentDisposition ''attachment'' (ob_Name x))],
          rs_Body = PBytes out\<rparr>))"

definition apiPutContent :: "svc \<Rightarrow> nat \<Rightarrow> request \<Rightarrow> subject \<Rightarrow> api_response kamara" where
  "apiPutContent S maxUpload r caller =
     attempt (WriteVersion S caller (rq_ID r) (MaxBytesReader (rq_Body r) maxUpload))
       (\<lambda>e. ret (failOr413 ''content exceeds maximum upload size'' e))
       (\<lambda>_. attempt (GetFile S caller (rq_ID r)) (\<lambda>e. ret (failApi e)) (\<lambda>x.
         ret (writeJSON 200 (toFile x))))"

definition apiListVersions :: "svc \<Rightarrow> request \<Rightarrow> subject \<Rightarrow> api_response kamara" where
  "apiListVersions S r caller = attempt (ListVersions S caller (rq_ID r)) (\<lambda>e. ret (failApi e)) (\<lambda>vs.
     ret (writeJSON 200 (JObj [(''versions'', JArr (map toVersion vs))])))"

definition apiDelete :: "svc \<Rightarrow> request \<Rightarrow> subject \<Rightarrow> api_response kamara" where
  "apiDelete S r caller = noContent (DeleteFile S caller (rq_ID r))"

section \<open>Folders, rename and move\<close>

definition apiListChildren :: "svc \<Rightarrow> request \<Rightarrow> subject \<Rightarrow> api_response kamara" where
  "apiListChildren S r caller =
     attempt (ListChildren S caller (optStr (rq_Query r ''parent''))) (\<lambda>e. ret (failApi e)) (\<lambda>l.
     ret (writeJSON 200 (JObj [(''folders'', JArr (map toFolder (li_Folders l))), (''files'', JArr (map toFile (li_Files l)))])))"

definition apiCreateFolder :: "svc \<Rightarrow> request \<Rightarrow> subject \<Rightarrow> api_response kamara" where
  "apiCreateFolder S r caller =
    (let name = rq_Query r ''name'' in
     if name = [] then ret (writeErr 400 ''name query parameter is required'')
     else
       attempt (CreateFolder S caller (optStr (rq_Query r ''parent'')) name) (\<lambda>e. ret (failApi e)) (\<lambda>f.
       ret (writeJSON 201 (toFolder f))))"

text \<open>\<open>strconv.ParseBool\<close>, its error ignored: a value it does not know is false.\<close>

definition parseBool :: "string \<Rightarrow> bool" where
  "parseBool s \<longleftrightarrow> s \<in> {''1'', ''t'', ''T'', ''true'', ''TRUE'', ''True''}"

definition apiDeleteFolder :: "svc \<Rightarrow> request \<Rightarrow> subject \<Rightarrow> api_response kamara" where
  "apiDeleteFolder S r caller =
     noContent ((if parseBool (rq_Query r ''recursive'') then DeleteFolderTree else DeleteFolder) S caller (rq_ID r))"

definition apiGetFolder :: "svc \<Rightarrow> request \<Rightarrow> subject \<Rightarrow> api_response kamara" where
  "apiGetFolder S r caller = attempt (GetFolder S caller (rq_ID r)) (\<lambda>e. ret (failApi e)) (\<lambda>f.
     ret (writeJSON 200 (toFolder f)))"

definition apiDownloadZip :: "svc \<Rightarrow> request \<Rightarrow> subject \<Rightarrow> api_response kamara" where
  "apiDownloadZip S r caller = attempt (GetFolder S caller (rq_ID r)) (\<lambda>e. ret (failApi e)) (\<lambda>f.
     bnd (streamBody (DownloadZip S caller (Some (rq_ID r)))) (\<lambda>a.
     ret \<lparr>rs_Status = 200,
          rs_Header = [(''Content-Type'', ''application/zip''),
                       (''Content-Disposition'', ContentDisposition ''attachment'' (fo_Name f @ ''.zip''))],
          rs_Body = POther a\<rparr>))"

definition decodeName :: "request \<Rightarrow> api_response + string" where
  "decodeName r = (case rq_NameBody r of
     None \<Rightarrow> Inl (writeErr 400 ''invalid JSON body'')
   | Some name \<Rightarrow> if name = [] then Inl (writeErr 400 ''name is required'') else Inr name)"

definition decodeMove :: "request \<Rightarrow> string \<Rightarrow> api_response + string option" where
  "decodeMove r field = (case rq_MoveBody r of
     None \<Rightarrow> Inl (writeErr 400 ''invalid JSON body'')
   | Some body \<Rightarrow>
       (case body field of
          None \<Rightarrow> Inl (writeErr 400 ([CHR 0x22] @ field @ [CHR 0x22] @ '' field is required (use null for root)''))
        | Some dest \<Rightarrow> Inr dest))"

definition decoded :: "api_response + 'a \<Rightarrow> ('a \<Rightarrow> unit kamara) \<Rightarrow> api_response kamara" where
  "decoded d m = (case d of Inl resp \<Rightarrow> ret resp | Inr x \<Rightarrow> noContent (m x))"

definition apiRenameFile :: "svc \<Rightarrow> request \<Rightarrow> subject \<Rightarrow> api_response kamara" where
  "apiRenameFile S r caller = decoded (decodeName r) (RenameFile S caller (rq_ID r))"

definition apiMoveFile :: "svc \<Rightarrow> request \<Rightarrow> subject \<Rightarrow> api_response kamara" where
  "apiMoveFile S r caller = decoded (decodeMove r ''folder'') (MoveFile S caller (rq_ID r))"

definition apiRenameFolder :: "svc \<Rightarrow> request \<Rightarrow> subject \<Rightarrow> api_response kamara" where
  "apiRenameFolder S r caller = decoded (decodeName r) (RenameFolder S caller (rq_ID r))"

definition apiMoveFolder :: "svc \<Rightarrow> request \<Rightarrow> subject \<Rightarrow> api_response kamara" where
  "apiMoveFolder S r caller = decoded (decodeMove r ''parent'') (MoveFolder S caller (rq_ID r))"

section \<open>Routes and authentication\<close>

datatype api_route =
    ListFilesR | UploadR | GetFileR | DeleteFileR | DownloadR | PutContentR | ListVersionsR | RenameFileR | MoveFileR
  | ListChildrenR | CreateFolderR | GetFolderR | DownloadZipR | DeleteFolderR | RenameFolderR | MoveFolderR

definition apiHandler :: "svc \<Rightarrow> nat \<Rightarrow> api_route \<Rightarrow> request \<Rightarrow> subject \<Rightarrow> api_response kamara" where
  "apiHandler S maxUpload route = (case route of
     ListFilesR \<Rightarrow> apiList S | UploadR \<Rightarrow> apiUpload S maxUpload | GetFileR \<Rightarrow> apiGet S | DeleteFileR \<Rightarrow> apiDelete S
   | DownloadR \<Rightarrow> apiDownload S | PutContentR \<Rightarrow> apiPutContent S maxUpload | ListVersionsR \<Rightarrow> apiListVersions S
   | RenameFileR \<Rightarrow> apiRenameFile S | MoveFileR \<Rightarrow> apiMoveFile S
   | ListChildrenR \<Rightarrow> apiListChildren S | CreateFolderR \<Rightarrow> apiCreateFolder S | GetFolderR \<Rightarrow> apiGetFolder S
   | DownloadZipR \<Rightarrow> apiDownloadZip S | DeleteFolderR \<Rightarrow> apiDeleteFolder S
   | RenameFolderR \<Rightarrow> apiRenameFolder S | MoveFolderR \<Rightarrow> apiMoveFolder S)"

type_synonym 's authenticator = "string \<Rightarrow> (kamara_db world \<times> 's, subject option) io"

definition authed ::
  "'s authenticator \<Rightarrow> (request \<Rightarrow> subject \<Rightarrow> api_response kamara) \<Rightarrow> request \<Rightarrow> (kamara_db world \<times> 's, api_response) io" where
  "authed auth handler r =
    (let tok = bearer r in
     if tok = [] then ret (writeErr 401 ''authentication required'')
     else
       attempt (auth tok) (\<lambda>e. ret (writeErr 502 ''authentication unavailable'')) (\<lambda>caller.
       case caller of
         None \<Rightarrow> ret (writeErr 401 ''invalid token'')
       | Some c \<Rightarrow> lift (handler r c)))"

definition Routes :: "svc \<Rightarrow> nat \<Rightarrow> 's authenticator \<Rightarrow> api_route \<Rightarrow> request \<Rightarrow> (kamara_db world \<times> 's, api_response) io" where
  "Routes S maxUpload auth route = authed auth (apiHandler S maxUpload route)"

section \<open>Callers without access\<close>

lemma attempt_denied:
  assumes "denied w (m w)"
  shows "\<exists>e fs. (e = ErrForbidden \<or> e = ErrIO \<and> \<not> calm w) \<and> attempt m h k w = h e (w\<lparr>w_faults := fs\<rparr>)"
proof -
  obtain r w' where m: "m w = (r, w')" by fastforce
  then obtain fs e where "w' = w\<lparr>w_faults := fs\<rparr>" "r = Inl e" "e = ErrForbidden \<or> e = ErrIO \<and> \<not> calm w"
    using assms by (auto simp: denied_def)
  then show ?thesis using m by (auto simp: attempt_def)
qed

text \<open>The answers to a caller without access: forbidden, or the infrastructure failed before the check
  answered; the world is as it was.\<close>

definition refused :: "kamara_db world \<Rightarrow> (err + api_response) \<times> kamara_db world \<Rightarrow> bool" where
  "refused w x \<longleftrightarrow> (fst x = Inr (failApi ErrForbidden) \<or> fst x = Inr (failApi ErrIO) \<and> \<not> calm w) \<and> (\<exists>fs. snd x = w\<lparr>w_faults := fs\<rparr>)"

lemma attempt_refused:
  assumes "denied w (m w)" "h ErrForbidden = ret (failApi ErrForbidden)" "h ErrIO = ret (failApi ErrIO)"
  shows "refused w (attempt m h k w)"
  using attempt_denied [where m = m, OF assms(1), of h k] assms(2,3) by (auto simp: refused_def ret_apply)

lemma noContent_refused: "denied w (m w) \<Longrightarrow> refused w (noContent m w)"
  unfolding noContent_def by (rule attempt_refused) simp_all

lemma folder_ops_denied:
  assumes "fga_ok (sv_fga S)" "\<not> can_access (w_fga w) (OpenFGAObject u) (folderObj i)"
  shows "denied w (GetFolder S u i w)" "name \<noteq> [] \<Longrightarrow> denied w (RenameFolder S u i name w)" "denied w (MoveFolder S u i dest w)"
    "denied w (DeleteFolder S u i w)" "denied w (DeleteFolderTree S u i w)"
  by (simp_all add: GetFolder_def RenameFolder_def MoveFolder_def DeleteFolder_def DeleteFolderTree_def authorizeFolder_def
      denied_bnd [OF assms])

lemma file_ops_denied:
  assumes "fga_ok (sv_fga S)" "\<not> can_access (w_fga w) (OpenFGAObject u) (fileObj i)"
  shows "denied w (GetFile S u i w)" "denied w (ListVersions S u i w)" "denied w (WriteVersion S u i r w)" "denied w (DeleteFile S u i w)"
    "name \<noteq> [] \<Longrightarrow> denied w (RenameFile S u i name w)" "denied w (MoveFile S u i dest w)"
  by (simp_all add: GetFile_def ListVersions_def WriteVersion_def writeVersion_def DeleteFile_def RenameFile_def MoveFile_def
      authorize_def denied_bnd [OF assms])

lemma decoded_refused:
  assumes "\<And>x. d = Inr x \<Longrightarrow> denied w (m x w)" "\<And>resp. d = Inl resp \<Longrightarrow> rs_Status resp = 400"
  shows "refused w (decoded d m w) \<or> (\<exists>resp. rs_Status resp = 400 \<and> decoded d m w = (Inr resp, w))"
  using assms noContent_refused by (cases d) (auto simp: decoded_def ret_apply)

definition fileRoutes :: "api_route list" where
  "fileRoutes = [GetFileR, DeleteFileR, DownloadR, PutContentR, ListVersionsR, RenameFileR, MoveFileR]"

definition folderRoutes :: "api_route list" where
  "folderRoutes = [GetFolderR, DownloadZipR, DeleteFolderR, RenameFolderR, MoveFolderR]"

lemma apiHandler_refused:
  assumes F: "fga_ok (sv_fga S)"
    and no: "route \<in> set fileRoutes \<and> \<not> can_access (w_fga w) (OpenFGAObject u) (fileObj (rq_ID r)) \<or>
      route \<in> set folderRoutes \<and> \<not> can_access (w_fga w) (OpenFGAObject u) (folderObj (rq_ID r))"
  shows "refused w (apiHandler S n route r u w) \<or>
    (\<exists>resp. rs_Status resp = 400 \<and> apiHandler S n route r u w = (Inr resp, w))"
proof -
  have dn: "name \<noteq> []" if "decodeName r = Inr name" for name using that by (auto simp: decodeName_def split: option.splits if_splits)
  have bad: "rs_Status resp = 400" if "decodeName r = Inl resp \<or> decodeMove r f = Inl resp" for resp f
    using that by (auto simp: decodeName_def decodeMove_def writeErr_def writeJSON_def split: option.splits if_splits)
  from no show ?thesis
  proof
    assume a: "route \<in> set fileRoutes \<and> \<not> can_access (w_fga w) (OpenFGAObject u) (fileObj (rq_ID r))"
    note ops = file_ops_denied [OF F conjunct2 [OF a]]
    have mv: "refused w (apiMoveFile S r u w) \<or> (\<exists>resp. rs_Status resp = 400 \<and> apiMoveFile S r u w = (Inr resp, w))"
      unfolding apiMoveFile_def by (rule decoded_refused) (auto intro: ops bad)
    have rn: "refused w (apiRenameFile S r u w) \<or> (\<exists>resp. rs_Status resp = 400 \<and> apiRenameFile S r u w = (Inr resp, w))"
      unfolding apiRenameFile_def by (rule decoded_refused) (auto intro: ops(5) [OF dn] bad)
    have "refused w (apiGet S r u w)" "refused w (apiDownload S r u w)" "refused w (apiListVersions S r u w)"
      "refused w (apiPutContent S n r u w)" "refused w (apiDelete S r u w)"
      unfolding apiGet_def apiDownload_def apiListVersions_def apiPutContent_def apiDelete_def
      by (rule attempt_refused noContent_refused, rule ops; simp add: failOr413_def)+
    with a mv rn show ?thesis by (auto simp: fileRoutes_def apiHandler_def)
  next
    assume a: "route \<in> set folderRoutes \<and> \<not> can_access (w_fga w) (OpenFGAObject u) (folderObj (rq_ID r))"
    note ops = folder_ops_denied [OF F conjunct2 [OF a]]
    have mv: "refused w (apiMoveFolder S r u w) \<or> (\<exists>resp. rs_Status resp = 400 \<and> apiMoveFolder S r u w = (Inr resp, w))"
      unfolding apiMoveFolder_def by (rule decoded_refused) (auto intro: ops bad)
    have rn: "refused w (apiRenameFolder S r u w) \<or> (\<exists>resp. rs_Status resp = 400 \<and> apiRenameFolder S r u w = (Inr resp, w))"
      unfolding apiRenameFolder_def by (rule decoded_refused) (auto intro: ops(2) [OF dn] bad)
    have "refused w (apiGetFolder S r u w)" "refused w (apiDownloadZip S r u w)"
      unfolding apiGetFolder_def apiDownloadZip_def by (rule attempt_refused, rule ops; simp)+
    moreover have "refused w (apiDeleteFolder S r u w)"
      unfolding apiDeleteFolder_def by (rule noContent_refused) (auto intro: ops)
    ultimately show ?thesis using a mv rn by (auto simp: folderRoutes_def apiHandler_def)
  qed
qed

text \<open>C27. A caller without access to the file or folder of the path is refused by every route that names one:
  403 (or 400 for a malformed body, or 500 when the infrastructure fails before the check answers), with
  no data in the body, and the tables, the blobs and the tuples are exactly as before.\<close>

theorem api_access_denied:
  assumes F: "fga_ok (sv_fga S)" and a: "auth (bearer r) (w, s) = (Inr (Some u), (w1, s1))" "bearer r \<noteq> []"
    and no: "route \<in> set fileRoutes \<and> \<not> can_access (w_fga w1) (OpenFGAObject u) (fileObj (rq_ID r)) \<or>
      route \<in> set folderRoutes \<and> \<not> can_access (w_fga w1) (OpenFGAObject u) (folderObj (rq_ID r))"
  shows "\<exists>resp fs. Routes S n auth route r (w, s) = (Inr resp, (w1\<lparr>w_faults := fs\<rparr>, s1)) \<and>
    (resp = failApi ErrForbidden \<or> resp = failApi ErrIO \<and> \<not> calm w1 \<or> rs_Status resp = 400)"
proof -
  have eq: "Routes S n auth route r (w, s) = lift (apiHandler S n route r u) (w1, s1)"
    using a by (simp add: Routes_def authed_def Let_def attempt_def)
  have self: "\<exists>fs. w1 = w1\<lparr>w_faults := fs\<rparr>" by (rule exI [of _ "w_faults w1"]) simp
  obtain x w2 where h: "apiHandler S n route r u w1 = (x, w2)" by fastforce
  from apiHandler_refused [OF F no, of n] show ?thesis
    unfolding eq lift_def using h self by (auto simp: refused_def)
qed

section \<open>Upload and download over HTTP\<close>

text \<open>An upload whose body breaks off with an error changes no table.\<close>

context file_store
begin

lemma Ingest_broken:
  assumes r: "progressing r" "rd_end r = RFail e" and c: "clean w" and val: "\<And>x. valid (ChunkHash P x)"
  shows "\<exists>w'. Ingest P S ci r w = (Inl e, w') \<and> w_db w' = w_db w \<and> w_fga w' = w_fga w"
proof -
  obtain cs where "Split r (ingestChunk P S ci) = bnd (foreach (ingestChunk P S ci) cs) (\<lambda>_. fail e)"
    using Split_fail [OF r] by blast
  moreover obtain w' x where "foreach (ingestChunk P S ci) cs (w, [], 0) = (Inr (), (w', x))"
    using ingest_all_clean [OF c, of cs P ci "([], 0)"] val by auto
  ultimately have i: "Ingest P S ci r w = (Inl e, w')" by (cases x) (simp add: Ingest_def bnd_def fail_apply)
  then show ?thesis using Ingest_spec(1) [OF r(1) i] by (simp add: blob_frame_def)
qed

end

text \<open>The upload limit: a body longer than the limit is answered with 413, and neither a table row nor a
  tuple comes of it.\<close>

theorem api_upload_limit:
  assumes ok: "svc_ok V" and c: "fsClean w" and r: "progressing (rq_Body r)" "n < length (content (rq_Body r))"
    and q: "rq_Query r ''name'' \<noteq> []" "rq_Query r ''folder'' = []"
  shows "\<exists>w'. apiUpload (onDisk root V) n r u w = (Inr (writeErr 413 ''file exceeds maximum upload size''), w') \<and>
    w_db w' = w_db w \<and> w_fga w' = w_fga w"
proof -
  let ?b = "MaxBytesReader (rq_Body r) n"
  have b: "progressing ?b" "rd_end ?b = RFail ErrTooLarge" using r MaxBytesReader_beyond [OF r(2)] by simp_all
  obtain w' where i: "Ingest (sv_P V) (FS root) (sv_cipher V) ?b w = (Inl ErrTooLarge, w')" "w_db w' = w_db w" "w_fga w' = w_fga w"
    using disk.Ingest_broken [OF b c, of "sv_P V" root "sv_cipher V"] validKey_disk [OF ok, of root] by auto
  then have "Upload (onDisk root V) u None (rq_Query r ''name'') ?b w = (Inl ErrTooLarge, w')"
    using q(1) by (simp add: Upload_def authorizeFolderOpt_def bnd_apply [of "Ingest P B ci b" for P B ci b])
  then show ?thesis using q i(2,3) by (simp add: apiUpload_def Let_def optStr_def attempt_def failOr413_def ret_apply)
qed

text \<open>An upload request that is answered with 201 is an upload of its whole body.\<close>

lemma apiUpload_created:
  assumes r: "progressing (rq_Body r)" and t: "tables_ok (w_db w)" and F: "fga_ok (sv_fga V)"
    and up: "apiUpload (onDisk root V) n r u w = (Inr resp, w1)" "rs_Status resp = 201"
  obtains x where "Upload (onDisk root V) u (optStr (rq_Query r ''folder'')) (rq_Query r ''name'') (rq_Body r) w = (Inr x, w1)"
    "resp = writeJSON 201 (toFile x)" "MaxBytesReader (rq_Body r) n = rq_Body r"
proof -
  let ?b = "MaxBytesReader (rq_Body r) n"
  have st: "rs_Status (failOr413 m e) \<noteq> 201" for m e by (simp add: failOr413_def failApi_def writeErr_def writeJSON_def)
  have ne: "rq_Query r ''name'' \<noteq> []" using up by (auto simp: apiUpload_def ret_apply writeErr_def writeJSON_def)
  obtain x where x: "Upload (onDisk root V) u (optStr (rq_Query r ''folder'')) (rq_Query r ''name'') ?b w = (Inr x, w1)" and rs: "resp = writeJSON 201 (toFile x)"
    using up ne st by (auto simp: apiUpload_def Let_def attempt_def ret_apply split: sum.splits prod.splits)
  have "?b = rq_Body r"
  proof (rule MaxBytesReader_within, rule ccontr)
    assume "\<not> length (content (rq_Body r)) \<le> n"
    then have "rd_end ?b = RFail ErrTooLarge" using MaxBytesReader_beyond [of n "rq_Body r"] by simp
    then show False using disk.Upload_effect(1) [OF _ t _ x] r F by simp
  qed
  then show ?thesis using that x rs by simp
qed

text \<open>End to end: if an upload request is answered with 201 on a fault-free world, then the answer names the
  new file, and a download request for it by the same caller is answered with 200 and exactly the bytes of
  the upload's body, under the name and content type recorded at the upload (provided no two different
  chunk contents in play have the same hash).\<close>

theorem api_upload_download:
  assumes ok: "svc_ok V" "fga_ok (sv_fga V)" and r: "progressing (rq_Body r)" and w: "fsClean w" "consistent ex (onDisk root V) (fsBlobs root w) (w_db w)"
    and inj: "inj_on (ChunkHash (sv_P V)) (set (chunks_of (content (rq_Body r))) \<union>
       {x. \<exists>h. readable (sv_P V) (sv_cipher V) (fsBlobs root w) h x})"
    and up: "apiUpload (onDisk root V) n r u w = (Inr resp, w1)" "rs_Status resp = 201"
  shows "\<exists>x w2. resp = writeJSON 201 (toFile x) \<and> ob_Name x = rq_Query r ''name'' \<and>
    apiDownload (onDisk root V) (r'\<lparr>rq_ID := ob_ID x\<rparr>) u w1 =
      (Inr \<lparr>rs_Status = 200,
            rs_Header = [(''Content-Type'', ContentType (ob_ContentType x)),
                         (''Content-Disposition'', ContentDisposition ''attachment'' (rq_Query r ''name''))],
            rs_Body = PBytes (content (rq_Body r))\<rparr>, w2)"
proof -
  let ?S = "onDisk root V" and ?b = "MaxBytesReader (rq_Body r) n" and ?f = "optStr (rq_Query r ''folder'')"
  have t: "tables_ok (w_db w)" using w(2) by (simp add: consistent_def good_def)
  have F: "fga_ok (sv_fga ?S)" using ok(2) by simp
  obtain x where x: "Upload ?S u ?f (rq_Query r ''name'') ?b w = (Inr x, w1)" and rs: "resp = writeJSON 201 (toFile x)" and cb: "?b = rq_Body r"
    using apiUpload_created [OF r t ok(2) up] by metis
  have pb: "progressing ?b" using r by simp
  note e = disk.Upload_effect [OF pb t F x]
  have cl: "fsClean w1" by (rule disk.Upload_clean [OF pb validKey_disk [OF ok(1)] w(1) x])
  obtain w2 where d: "Download ?S u (ob_ID x) (w1, []) = (Inr (), (w2, content (rq_Body r)))"
    using disk.Upload_then_Download [OF _ F pb validKey_disk [OF ok(1)] w _ x] ok inj cb by auto
  have "consistent ex ?S (fsBlobs root w1) (w_db w1)"
    by (rule keepsD2 [where m = "Upload ?S u ?f (rq_Query r ''name'') ?b", OF disk.Upload_consistent [OF _ pb] w(2) x]) (use ok in simp)
  then have "distinct (map ob_ID (objects (w_db w1)))" by (simp add: consistent_def good_def tables_ok_def)
  moreover have "x \<in> set (objects (w_db w1))" using e(6) by simp
  ultimately have fo: "findObject (w_db w1) (ob_ID x) = Some x" unfolding findObject_def by (rule find_distinct)
  have cal: "calm w1" using cl by (simp add: fsClean_def)
  have g: "GetFile ?S u (ob_ID x) w1 = (Inr x, w1)"
    using authorizeAccess_calm [OF cal F can_access.owner [OF e(8)]] fo cal
    by (simp add: GetFile_def authorize_def bnd_apply GetObject_def ret_apply)
  have "apiDownload ?S (r'\<lparr>rq_ID := ob_ID x\<rparr>) u w1 =
      (Inr \<lparr>rs_Status = 200, rs_Header = [(''Content-Type'', ContentType (ob_ContentType x)),
         (''Content-Disposition'', ContentDisposition ''attachment'' (ob_Name x))], rs_Body = PBytes (content (rq_Body r))\<rparr>, w2)"
    using g d by (simp add: apiDownload_def attempt_def bnd_apply streamBody_def ret_apply)
  then show ?thesis using rs e(4) by (intro exI [of _ x] exI [of _ w2]) simp
qed

section \<open>Witnesses\<close>

definition demoRequest :: "string \<Rightarrow> string \<Rightarrow> request" where
  "demoRequest i name = \<lparr>rq_Header = (\<lambda>h. if h = ''Authorization'' then ''Bearer t'' else []),
     rq_Query = (\<lambda>k. if k = ''name'' then name else []), rq_ID = i, rq_Body = demoReader, rq_NameBody = None, rq_MoveBody = None\<rparr>"

definition demoAuth :: "unit authenticator" where
  "demoAuth tok = ret (Some ann)"

lemma demo_bearer [simp]: "bearer (demoRequest i name) = ''t''"
  by (simp add: bearer_def demoRequest_def TrimSpace_def runePieces.simps isSpaceRune_def char_of_def bit_0)

theorem api_access_denied_witness:
  "\<exists>resp fs. Routes demoSvc 10 demoAuth DeleteFileR (demoRequest ''x'' []) (demoWorld emptyDb, ()) = (Inr resp, ((demoWorld emptyDb)\<lparr>w_faults := fs\<rparr>, ())) \<and>
     rs_Status resp \<in> {400, 403, 500}"
proof -
  let ?w = "demoWorld emptyDb :: kamara_db world"
  have a: "demoAuth (bearer (demoRequest ''x'' [])) (?w, ()) = (Inr (Some ann), (?w, ()))" by (simp add: demoAuth_def ret_apply)
  have no: "\<not> can_access (w_fga ?w) (OpenFGAObject ann) (fileObj (rq_ID (demoRequest ''x'' [])))"
    by (rule can_access_none) (simp add: demoWorld_def)
  have "DeleteFileR \<in> set fileRoutes" by (simp add: fileRoutes_def)
  then obtain resp fs where "Routes demoSvc 10 demoAuth DeleteFileR (demoRequest ''x'' []) (?w, ()) = (Inr resp, (?w\<lparr>w_faults := fs\<rparr>, ()))"
    "resp = failApi ErrForbidden \<or> resp = failApi ErrIO \<and> \<not> calm ?w \<or> rs_Status resp = 400"
    using api_access_denied [where auth = demoAuth and r = "demoRequest ''x'' []", OF _ a, of demoSvc DeleteFileR 10] no by auto
  then show ?thesis by (auto simp: failApi_def writeErr_def writeJSON_def)
qed

theorem api_upload_limit_witness:
  "\<exists>w'. apiUpload demoSvc 2 (demoRequest [] ''a'') ann (demoWorld emptyDb) = (Inr (writeErr 413 ''file exceeds maximum upload size''), w')"
proof -
  have "svc_ok demoSvc" by simp
  then show ?thesis
    using api_upload_limit [of demoSvc "demoWorld emptyDb" "demoRequest [] ''a''" 2 "''/data''" ann] by (auto simp: demoRequest_def)
qed



theorem api_upload_download_witness:
  "\<exists>x w1 w2 resp. apiUpload demoSvc 10 (demoRequest [] ''a.txt'') ann (demoWorld emptyDb) = (Inr (writeJSON 201 (toFile x)), w1) \<and>
     apiDownload demoSvc (demoRequest (ob_ID x) []) ann w1 = (Inr resp, w2) \<and> rs_Body resp = PBytes [1, 2, 3]"
proof -
  let ?r = "demoRequest [] ''a.txt''"
  have fit: "MaxBytesReader demoReader 10 = demoReader" by (rule MaxBytesReader_within) simp
  obtain x w1 where u: "Upload demoSvc ann None ''a.txt'' demoReader (demoWorld emptyDb) = (Inr x, w1)"
    using demo_upload by auto
  then have up: "apiUpload (onDisk ''/data'' demoSvc) 10 ?r ann (demoWorld emptyDb) = (Inr (writeJSON 201 (toFile x)), w1)"
    using fit by (simp add: apiUpload_def demoRequest_def optStr_def attempt_def ret_apply)
  have rb: "rq_Body ?r = demoReader" by (simp add: demoRequest_def)
  have "inj_on (ChunkHash (sv_P demoSvc)) (set (chunks_of (content (rq_Body ?r))) \<union>
       {x. \<exists>h. readable (sv_P demoSvc) (sv_cipher demoSvc) (fsBlobs ''/data'' (demoWorld emptyDb)) h x})"
    by (simp add: readable_def rb)
  from api_upload_download [OF _ _ _ _ _ this up, of True "demoRequest [] []"] obtain y w2 resp where
    y: "writeJSON 201 (toFile x) = (writeJSON 201 (toFile y) :: api_response)" and
    d: "apiDownload demoSvc ((demoRequest [] [])\<lparr>rq_ID := ob_ID y\<rparr>) ann w1 = (Inr resp, w2)" "rs_Body resp = PBytes [1, 2, 3]"
    using rb by (auto simp: writeJSON_def)
  have "ob_ID y = ob_ID x" using y by (simp add: writeJSON_def toFile_def)
  moreover have "(demoRequest [] [])\<lparr>rq_ID := ob_ID x\<rparr> = demoRequest (ob_ID x) []" by (simp add: demoRequest_def)
  ultimately show ?thesis using up d by auto
qed

end
