(* ===== verification/Wopi.thy ===== *)
theory Wopi
  imports Http
begin

text \<open>
  The office-editing sessions, \<open>kamara/internal/wopi/wopi.go\<close>, and the endpoints the office engine drives,
  \<open>kamara/internal/api/wopi.go\<close>. A token is opaque; the table holds its hash. Access is checked against
  the authorization server on every call.
\<close>

section \<open>Tokens\<close>

definition urlDigit :: "nat \<Rightarrow> char" where
  "urlDigit n = ''ABCDEFGHIJKLMNOPQRSTUVWXYZabcdefghijklmnopqrstuvwxyz0123456789-_'' ! n"

text \<open>\<open>base64.RawURLEncoding\<close>: three bytes make four digits, a rest of one or two bytes two or three.\<close>

fun rawURLEncode :: "bytes \<Rightarrow> string" where
  "rawURLEncode (a # b # c # bs) =
    (let n = unat a * 65536 + unat b * 256 + unat c
     in urlDigit (n div 262144) # urlDigit (n div 4096 mod 64) # urlDigit (n div 64 mod 64) # urlDigit (n mod 64) # rawURLEncode bs)"
| "rawURLEncode [a, b] =
    (let n = unat a * 65536 + unat b * 256
     in [urlDigit (n div 262144), urlDigit (n div 4096 mod 64), urlDigit (n div 64 mod 64)])"
| "rawURLEncode [a] = (let n = unat a * 65536 in [urlDigit (n div 262144), urlDigit (n div 4096 mod 64)])"
| "rawURLEncode [] = []"

text \<open>The service: the hash function of the standard library, the authorization server, the lifetime.\<close>

record sessions =
  se_sha256 :: "bytes \<Rightarrow> bytes"
  se_fga :: fga
  se_ttl :: int

definition DefaultTTL :: int where
  "DefaultTTL = 10 * 3600 * 1000000000"

definition NewSessions :: "(bytes \<Rightarrow> bytes) \<Rightarrow> fga \<Rightarrow> int \<Rightarrow> sessions" where
  "NewSessions h F ttl = \<lparr>se_sha256 = h, se_fga = F, se_ttl = (if ttl \<le> 0 then DefaultTTL else ttl)\<rparr>"

definition tokenHash :: "sessions \<Rightarrow> string \<Rightarrow> string" where
  "tokenHash E token = hexEncode (se_sha256 E (bytesOf token))"

definition Mint :: "sessions \<Rightarrow> subject \<Rightarrow> string \<Rightarrow> bool \<Rightarrow> string kamara" where
  "Mint E subject objectID canWrite =
    bnd (randRead 32) (\<lambda>raw.
    let token = rawURLEncode raw in
    bnd time_now (\<lambda>now.
    bnd (wopiPut (tokenHash E token) \<lparr>ws_ObjectID = objectID, ws_Subject = subject, ws_CanWrite = canWrite, ws_Expires = now + se_ttl E\<rparr>) (\<lambda>_.
    bnd (ignore (wopiDeleteExpired now)) (\<lambda>_.
    ret token))))"

definition Validate :: "sessions \<Rightarrow> string \<Rightarrow> wopi_session kamara" where
  "Validate E token =
    (if token = [] then fail ErrWopiInvalid
     else
       bnd (wopiGet (tokenHash E token)) (\<lambda>s.
       case s of
         None \<Rightarrow> fail ErrWopiInvalid
       | Some sess \<Rightarrow>
           bnd time_now (\<lambda>now.
           if now > ws_Expires sess then fail ErrWopiInvalid
           else
             bnd (Check (se_fga E) (ws_Subject sess) AccessRelation (FileType @ '':'' @ ws_ObjectID sess)) (\<lambda>ok.
             if \<not> ok then fail ErrWopiInvalid else ret sess))))"

definition Revoke :: "string \<Rightarrow> unit kamara" where
  "Revoke objectID = wopiDeleteByObject objectID"

section \<open>The host\<close>

type_synonym wopi_response = "unit response"

definition failWopi :: "err \<Rightarrow> wopi_response" where
  "failWopi e =
    (if e = ErrNotFound then statusOnly 404
     else if e = ErrForbidden then statusOnly 403
     else statusOnly 500)"

definition wopiToken :: "request \<Rightarrow> string" where
  "wopiToken r = (let t = bearer r in if t \<noteq> [] then t else rq_Query r ''access_token'')"

definition wopiSession :: "sessions \<Rightarrow> request \<Rightarrow> (wopi_session \<Rightarrow> wopi_response kamara) \<Rightarrow> wopi_response kamara" where
  "wopiSession E r next =
    attempt (Validate E (wopiToken r))
      (\<lambda>e. ret (if e \<noteq> ErrWopiInvalid then statusOnly 500 else statusOnly 401))
      (\<lambda>s. if ws_ObjectID s \<noteq> rq_ID r then ret (statusOnly 401) else next s)"

definition checkFileInfo :: "svc \<Rightarrow> wopi_session \<Rightarrow> wopi_response kamara" where
  "checkFileInfo S s =
    attempt (GetFile S (ws_Subject s) (ws_ObjectID s)) (\<lambda>e. ret (failWopi e)) (\<lambda>x.
    ret (writeJSON 200 (JObj [
      (''BaseFileName'', JStr (ob_Name x)), (''Size'', JNum (ob_Size x)),
      (''Version'', JStr (formatNano (ob_Updated x))), (''OwnerId'', JStr (sub_UserID (ob_Owner x))),
      (''UserId'', JStr (sub_UserID (ws_Subject s))), (''UserFriendlyName'', JStr ''Peristera user''),
      (''UserCanWrite'', JBool (ws_CanWrite s)), (''SupportsUpdate'', JBool True), (''SupportsLocks'', JBool False),
      (''LastModifiedTime'', JStr (formatTime (ob_Updated x)))])))"

definition wopiGetFile :: "svc \<Rightarrow> wopi_session \<Rightarrow> wopi_response kamara" where
  "wopiGetFile S s =
    attempt (GetFile S (ws_Subject s) (ws_ObjectID s)) (\<lambda>e. ret (failWopi e)) (\<lambda>x.
    bnd (streamBody (Download S (ws_Subject s) (ws_ObjectID s))) (\<lambda>out.
    ret \<lparr>rs_Status = 200, rs_Header = [(''Content-Type'', ContentType (ob_ContentType x))], rs_Body = PBytes out\<rparr>))"

definition wopiPutFile :: "svc \<Rightarrow> nat \<Rightarrow> request \<Rightarrow> wopi_session \<Rightarrow> wopi_response kamara" where
  "wopiPutFile S maxUpload r s =
    (let ov = rq_Header r ''X-WOPI-Override'' in
     if ov \<noteq> [] \<and> ov \<noteq> ''PUT'' then ret (statusOnly 501)
     else if \<not> ws_CanWrite s then ret (statusOnly 403)
     else
       attempt (WriteVersion S (ws_Subject s) (ws_ObjectID s) (MaxBytesReader (rq_Body r) maxUpload))
         (\<lambda>e. ret (if e = ErrTooLarge then statusOnly 413 else failWopi e))
         (\<lambda>v. ret \<lparr>rs_Status = 200, rs_Header = [(''X-WOPI-ItemVersion'', v)], rs_Body = PNone\<rparr>))"

datatype wopi_route = CheckFileInfo | GetContents | PutContents

definition wopiRoutes :: "sessions \<Rightarrow> svc \<Rightarrow> nat \<Rightarrow> wopi_route \<Rightarrow> request \<Rightarrow> wopi_response kamara" where
  "wopiRoutes E S maxUpload route r = (case route of
     CheckFileInfo \<Rightarrow> wopiSession E r (checkFileInfo S)
   | GetContents \<Rightarrow> wopiSession E r (wopiGetFile S)
   | PutContents \<Rightarrow> wopiSession E r (wopiPutFile S maxUpload r))"

definition DefaultMaxUploadBytes :: int where
  "DefaultMaxUploadBytes = 5 * 2 ^ 30"

definition NewWopi :: "int \<Rightarrow> nat" where
  "NewWopi maxUpload = nat (if maxUpload \<le> 0 then DefaultMaxUploadBytes else maxUpload)"

section \<open>Sessions\<close>

lemma Validate_Inr:
  assumes "Validate E token w = (Inr s, w')" "fga_ok (se_fga E)"
  shows "token \<noteq> [] \<and> wopi_sessions (w_db w) (tokenHash E token) = Some s \<and> w_now w \<le> ws_Expires s \<and>
    can_access (w_fga w) (OpenFGAObject (ws_Subject s)) (fileObj (ws_ObjectID s)) \<and> (\<exists>fs. w' = w\<lparr>w_faults := fs\<rparr>)"
proof -
  have ne: "token \<noteq> []" using assms(1) by (auto simp: Validate_def fail_apply)
  obtain s0 w1 ok where g: "wopiGet (tokenHash E token) w = (Inr (Some s), w1)" and exp: "w_now w1 \<le> ws_Expires s"
    and c: "Check (se_fga E) (ws_Subject s) AccessRelation (FileType @ '':'' @ ws_ObjectID s) w1 = (Inr True, w')"
    using assms(1) ne unfolding Validate_def
    by (auto elim!: bnd_InrE simp: time_now_def fail_apply ret_apply split: option.splits if_splits)
  obtain fs where w1: "wopi_sessions (w_db w) (tokenHash E token) = Some s" "w1 = w\<lparr>w_faults := fs\<rparr>"
    using g unfolding wopiGet_def by (auto elim!: query_Inr)
  obtain fs' where "w' = w1\<lparr>w_faults := fs'\<rparr>"
    "fga_check (se_fga E) (w_fga w1) (userTuple (ws_Subject s) AccessRelation (FileType @ '':'' @ ws_ObjectID s))"
    using fgaAsk_outcome [OF c [unfolded Check_def]] by auto
  then show ?thesis using ne w1 exp assms(2) by (auto simp: fga_ok_def userTuple_def rawTuple_def fileObj_def)
qed

lemma Validate_calm:
  assumes "calm w" "fga_ok (se_fga E)" "token \<noteq> []" "wopi_sessions (w_db w) (tokenHash E token) = Some s"
  shows "Validate E token w =
    (if w_now w \<le> ws_Expires s \<and> can_access (w_fga w) (OpenFGAObject (ws_Subject s)) (fileObj (ws_ObjectID s))
     then (Inr s, w) else (Inl ErrWopiInvalid, w))"
  using assms by (auto simp: Validate_def wopiGet_def time_now_def bnd_apply Check_def fgaAsk_def fga_ok_def userTuple_def
      rawTuple_def fileObj_def ret_apply fail_apply)

lemma rawURLEncode_nonempty: "bs \<noteq> [] \<Longrightarrow> rawURLEncode bs \<noteq> []"
  by (cases bs rule: rawURLEncode.cases) (simp_all add: Let_def)

text \<open>A session that lets its bearer act on a file now.\<close>

definition liveSession :: "sessions \<Rightarrow> kamara_db world \<Rightarrow> string \<Rightarrow> wopi_session \<Rightarrow> bool" where
  "liveSession E w token s \<longleftrightarrow> token \<noteq> [] \<and> wopi_sessions (w_db w) (tokenHash E token) = Some s \<and> w_now w \<le> ws_Expires s \<and>
     can_access (w_fga w) (OpenFGAObject (ws_Subject s)) (fileObj (ws_ObjectID s))"

lemma Validate_outcome:
  assumes "Validate E token w = (r, w')"
  shows "\<exists>fs. w' = w\<lparr>w_faults := fs\<rparr>"
proof -
  have q: "\<exists>fs. w2 = w1\<lparr>w_faults := fs\<rparr>" if "wopiGet h w1 = (r, w2)" for h w1 r w2
    using query_outcome [OF that [unfolded wopiGet_def]] by auto
  have c: "\<exists>fs. w2 = w1\<lparr>w_faults := fs\<rparr>" if "Check F u rel x w1 = (r, w2)" for F u rel x w1 and r :: "err + bool" and w2 :: "kamara_db world"
    using fgaAsk_outcome [OF that [unfolded Check_def]] by auto
  have self: "\<exists>fs. v = v\<lparr>w_faults := fs\<rparr>" for v :: "kamara_db world" by (rule exI [of _ "w_faults v"]) simp
  show ?thesis
    using assms self
    by (auto simp: Validate_def bnd_def time_now_def ret_apply fail_apply dest!: q c split: if_splits prod.splits sum.splits option.splits)
qed

lemma streamed_world:
  assumes S: "sv_blobs S = FS root" and r: "streamBody (Download S caller i) w = (Inr out, w')"
  shows "w_db w' = w_db w \<and> w_fga w' = w_fga w"
proof -
  obtain r1 w1 out1 where d: "Download S caller i (w, []) = (r1, (w1, out1))" by (metis prod_cases3)
  then have w': "w' = w1" using r by (simp add: streamBody_def)
  obtain r2 w2 where a: "authorize S caller i w = (r2, w2)" by fastforce
  have ka: "keeps (\<lambda>u. w_db u = w_db w \<and> w_fga u = w_fga w) (authorize S caller i)"
    by (rule keeps_authorize) (simp add: faultless_def)
  have w2: "w_db w2 = w_db w \<and> w_fga w2 = w_fga w" by (rule keepsD2 [where m = "authorize S caller i", OF ka _ a]) simp
  obtain r3 w3 where m: "ManifestOf i w2 = (r3, w3)" by fastforce
  have w3: "w_db w3 = w_db w2 \<and> w_fga w3 = w_fga w2" using query_outcome [OF m [unfolded ManifestOf_def]] by auto
  have re: "w_db w4 = w_db w3 \<and> w_fga w4 = w_fga w3" if "Reassemble P (FS root) c rs (w3, []) = (r4, (w4, out4))" for P c rs r4 w4 out4
    using fs_store.Reassemble_spec [OF that] by (simp add: blob_frame_def)
  show ?thesis
    using d a m w2 w3 S w' re
    by (auto simp: Download_def bnd_def lift_def split: sum.splits)
qed

lemma GetFile_world:
  assumes "GetFile S caller i w = (r, w')"
  shows "w_db w' = w_db w \<and> w_fga w' = w_fga w"
proof -
  have "keeps (\<lambda>u. w_db u = w_db w \<and> w_fga u = w_fga w) (GetFile S caller i)"
    unfolding GetFile_def GetObject_def by (intro keeps_rules keeps_query) (simp_all add: faultless_def)
  from keepsD2 [where m = "GetFile S caller i", OF this _ assms] show ?thesis by simp
qed

text \<open>C6. The token is the boundary. Under every fault schedule: a request of the office engine that is
  answered with 200, or that changes anything in the tables, carries a token whose hash names a stored
  session that has not expired, is bound to the very file of the path, and whose user has access at that
  moment; and only a save through a session minted for writing changes anything.\<close>

theorem wopi_boundary:
  assumes F: "fga_ok (se_fga E)" and run: "wopiRoutes E (onDisk root V) n route r w = (res, w')"
  shows "\<exists>resp. res = Inr resp \<and> (rs_Status resp = 200 \<or> w_db w' \<noteq> w_db w \<longrightarrow>
    (\<exists>s. liveSession E w (wopiToken r) s \<and> ws_ObjectID s = rq_ID r \<and>
      (w_db w' \<noteq> w_db w \<longrightarrow> route = PutContents \<and> ws_CanWrite s)))"
proof -
  let ?S = "onDisk root V"
  obtain nxt where n: "wopiRoutes E ?S n route r = wopiSession E r nxt"
    and nx: "nxt = (case route of CheckFileInfo \<Rightarrow> checkFileInfo ?S | GetContents \<Rightarrow> wopiGetFile ?S | PutContents \<Rightarrow> wopiPutFile ?S n r)"
    by (cases route) (simp_all add: wopiRoutes_def)
  have safe: "\<exists>resp. res1 = Inr resp \<and> (w_db w2 \<noteq> w_db w1 \<longrightarrow> route = PutContents \<and> ws_CanWrite s)"
    if nr: "nxt s w1 = (res1, w2)" for s w1 res1 w2
  proof (cases route)
    case CheckFileInfo
    obtain g w3 where "GetFile ?S (ws_Subject s) (ws_ObjectID s) w1 = (g, w3)" by fastforce
    then show ?thesis using nr nx CheckFileInfo GetFile_world
      by (auto simp: checkFileInfo_def attempt_def ret_apply split: sum.splits)
  next
    case GetContents
    obtain g w3 where g: "GetFile ?S (ws_Subject s) (ws_ObjectID s) w1 = (g, w3)" by fastforce
    obtain r5 w4 out where "Download ?S (ws_Subject s) (ws_ObjectID s) (w3, []) = (r5, (w4, out))" by (metis prod_cases3)
    then have d: "streamBody (Download ?S (ws_Subject s) (ws_ObjectID s)) w3 = (Inr out, w4)" by (simp add: streamBody_def)
    have "w_db w4 = w_db w3" using streamed_world [OF _ d, of root] by simp
    then show ?thesis using nr nx GetContents g d GetFile_world [OF g]
      by (cases g) (auto simp: wopiGetFile_def attempt_def bnd_def ret_apply)
  next
    case PutContents
    then show ?thesis using nr nx
      by (auto simp: wopiPutFile_def Let_def attempt_def ret_apply split: if_splits sum.splits prod.splits)
  qed
  obtain v w1 where v: "Validate E (wopiToken r) w = (v, w1)" by fastforce
  have w1: "w_db w1 = w_db w" using Validate_outcome [OF v] by auto
  show ?thesis
  proof (cases v)
    case (Inl e)
    then show ?thesis using run v w1 by (auto simp: n wopiSession_def attempt_def ret_apply statusOnly_def split: if_splits)
  next
    case (Inr s)
    have live: "liveSession E w (wopiToken r) s"
      using Validate_Inr [OF v [unfolded Inr] F] by (simp add: liveSession_def)
    show ?thesis
    proof (cases "ws_ObjectID s = rq_ID r")
      case False
      then show ?thesis using run v w1 Inr by (auto simp: n wopiSession_def attempt_def ret_apply statusOnly_def)
    next
      case True
      have nr: "nxt s w1 = (res, w')" using run v Inr True by (simp add: n wopiSession_def attempt_def)
      from safe [OF nr] show ?thesis using live True w1 by metis
    qed
  qed
qed

lemma Mint_calm:
  assumes c: "calm w" and ttl: "0 < se_ttl E" and m: "Mint E u i cw w = (Inr token, w')"
    and fresh: "wopi_sessions (w_db w) (tokenHash E token) = None"
  shows "token \<noteq> [] \<and> calm w' \<and> w_fga w' = w_fga w \<and>
    wopi_sessions (w_db w') (tokenHash E token) = Some \<lparr>ws_ObjectID = i, ws_Subject = u, ws_CanWrite = cw, ws_Expires = w_now w + se_ttl E\<rparr>"
proof -
  have t: "token = rawURLEncode (map (w_rand w) [0..<32])"
    using m c by (auto simp: Mint_def bnd_apply randRead_def time_now_def wopiPut_def wopiDeleteExpired_def ret_apply Let_def split: if_splits)
  have "token \<noteq> []" unfolding t by (rule rawURLEncode_nonempty) simp
  then show ?thesis
    using m c fresh ttl
    by (auto simp: Mint_def bnd_apply randRead_def time_now_def wopiPut_def wopiDeleteExpired_def ret_apply Let_def dropSessions_def t)
qed

text \<open>A minted token works until it expires, while its user has access, and not after its revocation: after
  a fault-free mint (of a token whose hash is new to the table) validation at any later time returns
  the session exactly when the lifetime is not over and the user has access then; once the sessions of
  the file are revoked it is refused.\<close>

theorem Mint_Validate_Revoke:
  assumes c: "calm w" and ttl: "0 < se_ttl E" and F: "fga_ok (se_fga E)" and m: "Mint E u i cw w = (Inr token, w')"
    and fresh: "wopi_sessions (w_db w) (tokenHash E token) = None"
  shows "fst (Validate E token (w'\<lparr>w_now := t, w_fga := ts\<rparr>)) =
      (if t \<le> w_now w + se_ttl E \<and> can_access ts (OpenFGAObject u) (fileObj i)
       then Inr \<lparr>ws_ObjectID = i, ws_Subject = u, ws_CanWrite = cw, ws_Expires = w_now w + se_ttl E\<rparr> else Inl ErrWopiInvalid) \<and>
    fst (Validate E token (snd (Revoke i (w'\<lparr>w_now := t, w_fga := ts\<rparr>)))) = Inl ErrWopiInvalid"
proof
  note mc = Mint_calm [OF c ttl m fresh]
  let ?w = "w'\<lparr>w_now := t, w_fga := ts\<rparr>"
  have cw: "calm ?w" using mc by (simp add: calm_def)
  show "fst (Validate E token ?w) = (if t \<le> w_now w + se_ttl E \<and> can_access ts (OpenFGAObject u) (fileObj i)
       then Inr \<lparr>ws_ObjectID = i, ws_Subject = u, ws_CanWrite = cw, ws_Expires = w_now w + se_ttl E\<rparr> else Inl ErrWopiInvalid)"
    using Validate_calm [OF cw F, of token] mc by simp
  have "Revoke i ?w = (Inr (), ?w\<lparr>w_db := dropSessions (\<lambda>s. ws_ObjectID s = i) (w_db ?w)\<rparr>)"
    using cw by (simp add: Revoke_def wopiDeleteByObject_def)
  moreover have "calm (?w\<lparr>w_db := dropSessions (\<lambda>s. ws_ObjectID s = i) (w_db ?w)\<rparr>)" using cw by simp
  ultimately show "fst (Validate E token (snd (Revoke i ?w))) = Inl ErrWopiInvalid"
    using mc by (simp add: Validate_def wopiGet_def bnd_apply dropSessions_def fail_apply)
qed

section \<open>Witnesses\<close>

definition demoSessions :: sessions where
  "demoSessions = NewSessions (\<lambda>x. x) modelFga 0"

theorem wopi_boundary_witness:
  "\<exists>resp w'. wopiRoutes demoSessions demoSvc 10 CheckFileInfo
      \<lparr>rq_Header = (\<lambda>_. []), rq_Query = (\<lambda>_. []), rq_ID = ''1'', rq_Body = demoReader, rq_NameBody = None, rq_MoveBody = None\<rparr> treeWorld = (Inr resp, w') \<and>
    rs_Status resp \<noteq> 200 \<and> w_db w' = treeDb"
proof -
  let ?r = "\<lparr>rq_Header = (\<lambda>_. []), rq_Query = (\<lambda>_. []), rq_ID = ''1'', rq_Body = demoReader, rq_NameBody = None, rq_MoveBody = None\<rparr>"
  obtain res w' where d: "wopiRoutes demoSessions (onDisk ''/data'' demoSvc) 10 CheckFileInfo ?r treeWorld = (res, w')" by fastforce
  have "wopiToken ?r = []" by (simp add: wopiToken_def bearer_def)
  then have "\<not> liveSession demoSessions treeWorld (wopiToken ?r) s" for s by (simp add: liveSession_def)
  then show ?thesis using wopi_boundary [OF _ d] d by (auto simp: demoSessions_def NewSessions_def)
qed

theorem Mint_Validate_Revoke_witness:
  "\<exists>token w'. Mint demoSessions ann ''f'' True treeWorld = (Inr token, w') \<and>
     fst (Validate demoSessions token (w'\<lparr>w_now := w_now treeWorld, w_fga := [(OpenFGAObject ann, Relation, fileObj ''f'')]\<rparr>)) =
       Inr \<lparr>ws_ObjectID = ''f'', ws_Subject = ann, ws_CanWrite = True, ws_Expires = w_now treeWorld + DefaultTTL\<rparr>"
proof -
  obtain token w' where m: "Mint demoSessions ann ''f'' True treeWorld = (Inr token, w')"
    by (simp add: Mint_def bnd_apply randRead_def time_now_def wopiPut_def wopiDeleteExpired_def ret_apply Let_def)
  have ttl: "se_ttl demoSessions = DefaultTTL" "0 < DefaultTTL" by (simp_all add: demoSessions_def NewSessions_def DefaultTTL_def)
  have F: "fga_ok (se_fga demoSessions)" by (simp add: demoSessions_def NewSessions_def)
  have fresh: "wopi_sessions (w_db treeWorld) h = None" for h by (simp add: treeDb_def emptyDb_def)
  have acc: "can_access [(OpenFGAObject ann, Relation, fileObj ''f'')] (OpenFGAObject ann) (fileObj ''f'')" by (rule can_access.owner) simp
  show ?thesis
    using Mint_Validate_Revoke [OF _ _ F m fresh, where t = "w_now treeWorld" and ts = "[(OpenFGAObject ann, Relation, fileObj ''f'')]"] ttl acc m
    by (simp add: order_less_imp_le)
qed

end
