(* ===== verification/Reading.thy ===== *)
theory Reading
  imports Api Wopi
begin

text \<open>
  The operations that only read, and the handlers around them: whatever assertion does not look at the
  fault schedule is kept by every query of the file service, by a download and by a zip download; and how
  an assertion on the world is carried through the combinators of the handlers.
\<close>

section \<open>Assertions on the world of a larger state\<close>

abbreviation onWorld :: "('w \<Rightarrow> bool) \<Rightarrow> 'w \<times> 's \<Rightarrow> bool" where
  "onWorld I \<equiv> \<lambda>p. I (fst p)"

lemma keeps_lift [keeps_rules]: "keeps I m \<Longrightarrow> keeps (onWorld I) (lift m)"
  by (rule keepsI) (auto simp: lift_def dest: keepsD split: prod.split)

lemma keeps_attempt [keeps_rules]:
  assumes "keeps I m" "\<And>e. keeps I (h e)" "\<And>x. keeps I (k x)"
  shows "keeps I (attempt m h k)"
proof (rule keepsI)
  fix w assume "I w"
  obtain r w' where r: "m w = (r, w')" by fastforce
  then have "I w'" using assms(1) \<open>I w\<close> by (blast dest: keepsD2)
  then show "I (snd (attempt m h k w))" using r assms(2,3) by (cases r) (simp_all add: attempt_def keepsD)
qed

lemma keeps_streamBody [keeps_rules]: "keeps (onWorld I) m \<Longrightarrow> keeps I (streamBody m)"
proof (rule keepsI)
  fix w assume "keeps (onWorld I) m" "I w"
  then show "I (snd (streamBody m w))" using keepsD [of "onWorld I" m "(w, [])"] by (auto simp: streamBody_def split: prod.split)
qed

section \<open>Streams\<close>

lemma keeps_nextFault: "faultless I \<Longrightarrow> keeps I next_fault"
  by (rule keepsI) (auto simp: next_fault_def faultless_def split: list.split)

lemma keeps_writeOut: "faultless I \<Longrightarrow> keeps (onWorld I) (writeOut x)"
  unfolding writeOut_def
  by (intro keeps_bnd keeps_lift keeps_nextFault) (auto intro!: keepsI split: fault.split)

lemma keeps_Get_FS: "faultless I \<Longrightarrow> keeps I (bs_Get (FS root) key)"
  unfolding FS_def blob_store.simps Get_def
  by (intro keeps_rules) (auto intro!: keepsI split: option.split)

text \<open>A blob store on a file system.\<close>

definition onFS :: "'d blob_store \<Rightarrow> bool" where
  "onFS B \<longleftrightarrow> (\<exists>root. B = FS root)"

lemma onFS_disk [simp]: "onFS (FS root)" "onFS (sv_blobs (onDisk root V))"
  by (auto simp: onFS_def)

lemma keeps_bs_Get: "faultless I \<Longrightarrow> onFS B \<Longrightarrow> keeps I (bs_Get B key)"
  by (auto simp: onFS_def keeps_Get_FS)

lemma keeps_Reassemble:
  assumes "faultless I" "onFS B"
  shows "keeps (onWorld I) (Reassemble P B c rs)"
  unfolding Reassemble_def reassembleRef_def
  by (intro keeps_foreach keeps_bnd keeps_lift keeps_sum keeps_call keeps_bs_Get keeps_writeOut keeps_ret keeps_fail assms)

lemma keeps_Download:
  assumes "faultless I" "onFS (sv_blobs S)"
  shows "keeps (onWorld I) (Download S caller i)"
  unfolding Download_def ManifestOf_def
  by (intro keeps_bnd keeps_lift keeps_authorize keeps_query keeps_Reassemble assms)

lemma keeps_CreateHeader: "faultless I \<Longrightarrow> keeps (onWorld I) (CreateHeader name t)"
  unfolding CreateHeader_def by (intro keeps_if keeps_fail keeps_bnd keeps_lift keeps_call keeps_ret keepsI) auto

lemma keeps_closeZip: "faultless I \<Longrightarrow> keeps (onWorld I) closeZip"
  unfolding closeZip_def by (intro keeps_lift keeps_call keeps_ret)

lemma keeps_intoEntry: "keeps (onWorld I) m \<Longrightarrow> keeps (onWorld I) (intoEntry m)"
proof (rule keepsI)
  fix p :: "kamara_db world \<times> archive"
  assume "keeps (onWorld I) m" "I (fst p)"
  then show "I (fst (snd (intoEntry m p)))" using keepsD [of "onWorld I" m "(fst p, [])"] by (cases p) (auto simp: intoEntry_def split: prod.split)
qed

lemma keeps_zipFiles:
  assumes "faultless I" "onFS (sv_blobs S)"
  shows "keeps (onWorld I) (zipFiles S pre xs used pnd)"
proof (induction xs arbitrary: used pnd)
  case (Cons x xs)
  show ?case
    unfolding zipFiles.simps ManifestOf_def
    by (intro keeps_prod keeps_bnd keeps_CreateHeader keeps_lift keeps_query keeps_intoEntry keeps_Reassemble Cons assms)
qed simp

lemma keeps_zipFolders:
  assumes "faultless I" "\<And>f p s. keeps (onWorld I) (sub f p s)"
  shows "keeps (onWorld I) (zipFolders sub pre fs used pnd seen)"
proof (induction fs arbitrary: used pnd seen)
  case (Cons f fs)
  show ?case unfolding zipFolders.simps by (intro keeps_if keeps_prod keeps_bnd keeps_CreateHeader Cons assms)
qed simp

lemma keeps_zipTree:
  assumes "faultless I" "onFS (sv_blobs S)"
  shows "keeps (onWorld I) (zipTree S caller n fid pre seen)"
proof (induction n arbitrary: fid pre seen)
  case (Suc n)
  show ?case
    unfolding zipTree.simps ObjectsInFolder_def FoldersInParent_def
    by (intro keeps_bnd keeps_lift keeps_query keeps_prod keeps_zipFiles keeps_zipFolders Suc assms)
qed simp

lemma keeps_DownloadZip:
  assumes "faultless I" "onFS (sv_blobs S)"
  shows "keeps (onWorld I) (DownloadZip S caller fid)"
  unfolding DownloadZip_def
  by (intro keeps_bnd keeps_lift keeps_authorize keeps_gets keeps_catch keeps_zipTree keeps_ignore keeps_closeZip keeps_fail assms)

section \<open>Queries\<close>

lemma keeps_reads:
  assumes "faultless I"
  shows "keeps I (GetFile S u i)" "keeps I (ListVersions S u i)" "keeps I (LatestOrdinal S u i)" "keeps I (ListFiles S u)"
    "keeps I (GetFolder S u i)" "keeps I (ListChildren S u f)" "keeps I (AllFolders S u)" "keeps I (Ancestors S u i)"
  unfolding GetFile_def GetObject_def ListVersions_def ListVersionRows_def LatestOrdinal_def MaxOrdinal_def ListFiles_def ByIDs_def
    GetFolder_def GetFolderRow_def ListChildren_def FoldersInParent_def ObjectsInFolder_def AllFolders_def FoldersByOwner_def Ancestors_def
  by (intro keeps_rules assms)+

lemma keeps_Validate:
  assumes "faultless I"
  shows "keeps I (Validate E token)"
  unfolding Validate_def wopiGet_def by (intro keeps_rules assms)

end
