(* ===== verification/Discovery.thy ===== *)
theory Discovery
  imports Http "HOL-Library.AList"
begin

text \<open>
  The client for the office engine's discovery document, \<open>kamara/internal/wopi/discovery.go\<close>: which editor
  URL to embed for a file extension. The XML tokenizer, the engine's HTTP answer and the Unicode case
  table are parameters.
\<close>

section \<open>The document\<close>

record actions =
  ac_edit :: string
  ac_view :: string

datatype xml_token = StartElement string "(string \<times> string) list" | OtherToken

text \<open>The attributes of an element, a later one overriding an earlier one of the same name.\<close>

record action_attrs =
  at_ext :: string
  at_name :: string
  at_urlsrc :: string

definition readAttr :: "(string \<Rightarrow> string) \<Rightarrow> action_attrs \<Rightarrow> string \<times> string \<Rightarrow> action_attrs" where
  "readAttr lower a attr =
    (if fst attr = ''ext'' then a\<lparr>at_ext := lower (snd attr)\<rparr>
     else if fst attr = ''name'' then a\<lparr>at_name := snd attr\<rparr>
     else if fst attr = ''urlsrc'' then a\<lparr>at_urlsrc := snd attr\<rparr>
     else a)"

definition readAttrs :: "(string \<Rightarrow> string) \<Rightarrow> (string \<times> string) list \<Rightarrow> action_attrs" where
  "readAttrs lower attrs = foldl (readAttr lower) \<lparr>at_ext = [], at_name = [], at_urlsrc = []\<rparr> attrs"

text \<open>The map from extensions to actions is an association list with distinct keys.\<close>

type_synonym by_ext = "(string \<times> actions) list"

definition addAction :: "action_attrs \<Rightarrow> by_ext \<Rightarrow> by_ext" where
  "addAction x out =
    (let a = (case map_of out (at_ext x) of None \<Rightarrow> \<lparr>ac_edit = [], ac_view = []\<rparr> | Some a \<Rightarrow> a);
         a' = (if at_name x = ''edit'' then a\<lparr>ac_edit := at_urlsrc x\<rparr>
               else if at_name x = ''view'' then a\<lparr>ac_view := at_urlsrc x\<rparr>
               else if ac_view a = [] then a\<lparr>ac_view := at_urlsrc x\<rparr> else a)
     in AList.update (at_ext x) a' out)"

primrec parseTokens :: "(string \<Rightarrow> string) \<Rightarrow> xml_token list \<Rightarrow> by_ext \<Rightarrow> by_ext" where
  "parseTokens lower [] out = out"
| "parseTokens lower (t # ts) out = parseTokens lower ts (case t of
     StartElement n attrs \<Rightarrow>
       (if n \<noteq> ''action'' then out
        else let x = readAttrs lower attrs in if at_ext x = [] \<or> at_urlsrc x = [] then out else addAction x out)
   | OtherToken \<Rightarrow> out)"

text \<open>The token stream of a document: its tokens, and whether it ends cleanly (\<open>io.EOF\<close>).\<close>

definition parseDiscovery :: "(string \<Rightarrow> string) \<Rightarrow> (bytes \<Rightarrow> xml_token list \<times> bool) \<Rightarrow> bytes \<Rightarrow> err + by_ext" where
  "parseDiscovery lower tokens doc =
    (case tokens doc of (ts, clean) \<Rightarrow>
       if \<not> clean then Inl ErrIO
       else let out = parseTokens lower ts [] in if out = [] then Inl ErrIO else Inr out)"

section \<open>The client\<close>

record engine =
  eg_reply :: "int \<Rightarrow> (nat \<times> bytes) option"
  eg_tokens :: "bytes \<Rightarrow> xml_token list \<times> bool"
  eg_lower :: "rune \<Rightarrow> rune"

record discovery =
  di_byExt :: by_ext
  di_loaded :: bool

definition NewDiscovery :: discovery where
  "NewDiscovery = \<lparr>di_byExt = [], di_loaded = False\<rparr>"

definition fetch :: "engine \<Rightarrow> int \<Rightarrow> err + by_ext" where
  "fetch G now = (case eg_reply G now of
     None \<Rightarrow> Inl ErrIO
   | Some (status, body) \<Rightarrow>
       if status \<noteq> 200 then Inl ErrIO
       else parseDiscovery (stringsMap (eg_lower G)) (eg_tokens G) (take (4 * 2 ^ 20) body))"

definition ensureLoaded :: "engine \<Rightarrow> int \<Rightarrow> discovery \<Rightarrow> (err + unit) \<times> discovery" where
  "ensureLoaded G now d =
    (if di_loaded d then (Inr (), d)
     else case fetch G now of
       Inl e \<Rightarrow> (Inl e, d)
     | Inr byExt \<Rightarrow> (Inr (), \<lparr>di_byExt = byExt, di_loaded = True\<rparr>))"

definition appendWOPISrc :: "string \<Rightarrow> string \<Rightarrow> string" where
  "appendWOPISrc urlsrc wopiSrc =
    (let sep = (if HasSuffix urlsrc ''?'' then [] else if CHR ''?'' \<in> set urlsrc then ''&'' else ''?'')
     in urlsrc @ sep @ ''WOPISrc='' @ QueryEscape wopiSrc)"

definition EditURL :: "engine \<Rightarrow> int \<Rightarrow> string \<Rightarrow> string \<Rightarrow> discovery \<Rightarrow> (err + string) \<times> discovery" where
  "EditURL G now ext wopiSrc d =
    (case ensureLoaded G now d of
       (Inl e, d') \<Rightarrow> (Inl e, d')
     | (Inr _, d') \<Rightarrow>
         (case map_of (di_byExt d') (stringsMap (eg_lower G) (TrimPrefix ext ''.'')) of
            None \<Rightarrow> (Inl ErrNoEditor, d')
          | Some a \<Rightarrow>
              let src = (if ac_edit a = [] then ac_view a else ac_edit a)
              in if src = [] then (Inl ErrNoEditor, d') else (Inr (appendWOPISrc src wopiSrc), d')))"

section \<open>What the document advertises\<close>

definition advertised :: "(string \<Rightarrow> string) \<Rightarrow> xml_token list \<Rightarrow> string \<Rightarrow> string \<Rightarrow> string \<Rightarrow> bool" where
  "advertised lower ts ext name url \<longleftrightarrow> ext \<noteq> [] \<and> url \<noteq> [] \<and>
     (\<exists>attrs. StartElement ''action'' attrs \<in> set ts \<and> readAttrs lower attrs = \<lparr>at_ext = ext, at_name = name, at_urlsrc = url\<rparr>)"

definition traced :: "(string \<Rightarrow> string) \<Rightarrow> xml_token list \<Rightarrow> by_ext \<Rightarrow> bool" where
  "traced lower ts out \<longleftrightarrow> (\<forall>ext a. map_of out ext = Some a \<longrightarrow>
     (ac_edit a \<noteq> [] \<longrightarrow> advertised lower ts ext ''edit'' (ac_edit a)) \<and>
     (ac_view a \<noteq> [] \<longrightarrow> (\<exists>n. n \<noteq> ''edit'' \<and> advertised lower ts ext n (ac_view a))))"

lemma traced_addAction:
  assumes "traced lower ts out" "advertised lower ts (at_ext x) (at_name x) (at_urlsrc x)"
  shows "traced lower ts (addAction x out)"
proof -
  have v: "(\<exists>n. n \<noteq> ''edit'' \<and> advertised lower ts (at_ext x) n (at_urlsrc x))" if "at_name x \<noteq> ''edit''"
    using that assms(2) by blast
  show ?thesis
    using assms v unfolding traced_def
    by (auto simp: addAction_def Let_def update_conv' split: option.splits if_splits)
qed

lemma parseTokens_traced: "set ts \<subseteq> set T \<Longrightarrow> traced lower T out \<Longrightarrow> traced lower T (parseTokens lower ts out)"
proof (induction ts arbitrary: out)
  case (Cons t ts)
  have "advertised lower T (at_ext x) (at_name x) (at_urlsrc x)"
    if "t = StartElement ''action'' attrs" "x = readAttrs lower attrs" "at_ext x \<noteq> []" "at_urlsrc x \<noteq> []" for attrs x
    using that Cons.prems(1) by (auto simp: advertised_def)
  then show ?case using Cons by (auto simp: Let_def split: xml_token.split intro!: Cons.IH traced_addAction)
qed simp

lemma parseTokens_keeps_edit:
  "map_of out ext = Some a \<Longrightarrow> ac_edit a \<noteq> [] \<Longrightarrow> \<exists>b. map_of (parseTokens lower ts out) ext = Some b \<and> ac_edit b \<noteq> []"
proof (induction ts arbitrary: out a)
  case (Cons t ts)
  have "\<exists>b. map_of (addAction x out) ext = Some b \<and> ac_edit b \<noteq> []" if "at_urlsrc x \<noteq> []" for x
    using that Cons.prems by (auto simp: addAction_def Let_def update_conv')
  then show ?case using Cons by (fastforce simp: Let_def split: xml_token.split)
qed simp

lemma parseTokens_edit:
  "advertised lower ts ext ''edit'' url \<Longrightarrow> \<exists>b. map_of (parseTokens lower ts out) ext = Some b \<and> ac_edit b \<noteq> []"
proof (induction ts arbitrary: out)
  case Nil
  then show ?case by (simp add: advertised_def)
next
  case (Cons t ts)
  show ?case
  proof (cases "advertised lower ts ext ''edit'' url")
    case True
    then show ?thesis using Cons.IH by simp
  next
    case False
    then obtain attrs where t: "t = StartElement ''action'' attrs" "readAttrs lower attrs = \<lparr>at_ext = ext, at_name = ''edit'', at_urlsrc = url\<rparr>"
      and ne: "ext \<noteq> []" "url \<noteq> []"
      using Cons.prems by (auto simp: advertised_def)
    let ?x = "\<lparr>at_ext = ext, at_name = ''edit'', at_urlsrc = url\<rparr>"
    have "\<exists>a. map_of (addAction ?x out) ext = Some a \<and> ac_edit a \<noteq> []"
      using ne by (simp add: addAction_def Let_def update_conv')
    then show ?thesis using parseTokens_keeps_edit t ne by (fastforce simp: Let_def)
  qed
qed

section \<open>Properties\<close>

text \<open>The editor URL. The URL handed to the browser embeds an action the engine's document advertises for the
  extension, an edit action whenever there is one; behind it stands a \<open>WOPISrc\<close> parameter that cannot be
  confused with another part of the URL and that decodes to the address Kamara gave; and every later call
  answers from the loaded document, without the engine.\<close>

theorem EditURL_sound:
  assumes reply: "eg_reply G now = Some (200, body)" and toks: "eg_tokens G (take (4 * 2 ^ 20) body) = (ts, True)"
    and run: "EditURL G now ext wopiSrc NewDiscovery = (Inr url, d)"
  shows "(\<exists>src name sep. url = src @ sep @ ''WOPISrc='' @ QueryEscape wopiSrc \<and> sep \<in> {[], ''&'', ''?''} \<and>
       advertised (stringsMap (eg_lower G)) ts (stringsMap (eg_lower G) (TrimPrefix ext ''.'')) name src \<and>
       (name \<noteq> ''edit'' \<longrightarrow> (\<nexists>u. advertised (stringsMap (eg_lower G)) ts (stringsMap (eg_lower G) (TrimPrefix ext ''.'')) ''edit'' u))) \<and>
     set (QueryEscape wopiSrc) \<inter> set ''&=?#'' = {} \<and> queryUnescape (QueryEscape wopiSrc) = wopiSrc \<and>
     EditURL (G\<lparr>eg_reply := r\<rparr>) later ext wopiSrc d = (Inr url, d)"
proof -
  let ?lo = "stringsMap (eg_lower G)" and ?e = "stringsMap (eg_lower G) (TrimPrefix ext ''.'')"
  define m where "m = parseTokens ?lo ts []"
  have d: "d = \<lparr>di_byExt = m, di_loaded = True\<rparr>" and ne: "m \<noteq> []"
    using run reply toks
    by (auto simp: EditURL_def ensureLoaded_def NewDiscovery_def fetch_def parseDiscovery_def m_def Let_def split: if_splits option.splits)
  from run reply toks ne obtain a where a: "map_of m ?e = Some a"
    and src: "(if ac_edit a = [] then ac_view a else ac_edit a) \<noteq> []"
    and url: "url = appendWOPISrc (if ac_edit a = [] then ac_view a else ac_edit a) wopiSrc"
    by (auto simp: EditURL_def ensureLoaded_def NewDiscovery_def fetch_def parseDiscovery_def m_def Let_def split: if_splits option.splits)
  define src where "src = (if ac_edit a = [] then ac_view a else ac_edit a)"
  have tr: "traced ?lo ts m" unfolding m_def by (rule parseTokens_traced) (simp_all add: traced_def)
  have "\<exists>name. advertised ?lo ts ?e name src \<and> (name \<noteq> ''edit'' \<longrightarrow> (\<nexists>u. advertised ?lo ts ?e ''edit'' u))"
  proof (cases "ac_edit a = []")
    case True
    then have "\<nexists>u. advertised ?lo ts ?e ''edit'' u" using parseTokens_edit [of ?lo ts ?e _ "[]"] a by (auto simp: m_def)
    moreover have "\<exists>n. n \<noteq> ''edit'' \<and> advertised ?lo ts ?e n (ac_view a)" using True src tr a unfolding traced_def by simp
    ultimately show ?thesis using True by (auto simp: src_def)
  next
    case False
    then show ?thesis using tr a by (auto simp: traced_def src_def)
  qed
  moreover have "\<exists>sep \<in> {[], ''&'', ''?''}. url = src @ sep @ ''WOPISrc='' @ QueryEscape wopiSrc"
    unfolding url src_def appendWOPISrc_def Let_def by simp
  moreover have "set (QueryEscape wopiSrc) \<inter> set ''&=?#'' = {}" using QueryEscape_chars unreserved_not by fastforce
  moreover have "EditURL (G\<lparr>eg_reply := r\<rparr>) later ext wopiSrc d = (Inr url, d)"
    using a src by (simp add: EditURL_def ensureLoaded_def d url Let_def)
  ultimately show ?thesis using queryUnescape_escape by blast
qed

definition demoEngine :: engine where
  "demoEngine = \<lparr>eg_reply = (\<lambda>_. Some (200, [])), eg_tokens = (\<lambda>_. ([StartElement ''action''
     [(''ext'', ''odt''), (''name'', ''edit''), (''urlsrc'', ''https://o/?'')]], True)), eg_lower = (\<lambda>r. r)\<rparr>"

theorem EditURL_sound_witness:
  "fst (EditURL (demoEngine\<lparr>eg_reply := \<lambda>_. None\<rparr>) 9 ''.odt'' ''k'' (snd (EditURL demoEngine 0 ''.odt'' ''k'' NewDiscovery))) =
     Inr ''https://o/?WOPISrc=k''"
proof -
  have lo: "stringsMap (\<lambda>r. r) ''odt'' = ''odt''"
    by (simp add: stringsMap_def runes_def runesOf.simps of_char_def encodeRune_def utf8Bytes_def scalarRune_def char_of_def bit_0)
  have run: "EditURL demoEngine 0 ''.odt'' ''k'' NewDiscovery =
      (Inr ''https://o/?WOPISrc=k'', \<lparr>di_byExt = [(''odt'', \<lparr>ac_edit = ''https://o/?'', ac_view = []\<rparr>)], di_loaded = True\<rparr>)"
    by (simp add: EditURL_def ensureLoaded_def NewDiscovery_def fetch_def parseDiscovery_def demoEngine_def lo readAttrs_def readAttr_def
        addAction_def Let_def appendWOPISrc_def HasSuffix_def TrimPrefix_def HasPrefix_def unreserved_def of_char_def)
  show ?thesis using EditURL_sound [OF _ _ run, of "[]" _ "\<lambda>_. None" 9] run by (simp add: demoEngine_def)
qed

end
