(* ===== verification/Oidcrp.thy ===== *)
theory Oidcrp
  imports Http Session
begin

text \<open>
  The browser login, \<open>lib/oidcrp\<close>: the authorization-code flow with PKCE, the session cookie, logout, and the
  two guards every browser surface is mounted behind (a live session, and the same-origin check for
  state-changing requests). The OAuth and OpenID libraries and the provider they talk to are the
  parameter \<open>provider\<close>; the two session stores of the relying party are its state.
\<close>

section \<open>Browser requests and cookies\<close>

text \<open>
  What the handlers read of a browser request. \<open>wr_Cookie\<close> is the value of the first cookie of a name.
  \<open>wr_Form\<close> is what \<open>ParseForm\<close> yields on a body: its error, and the values \<open>FormValue\<close> returns afterwards.
  \<open>wr_Multipart\<close> is what the multipart reader yields when the body is capped: \<open>None\<close> when the request is no
  multipart form, else its parts and the error that ends them (\<open>None\<close> for the end of the body).
\<close>

record part =
  pt_FormName :: string
  pt_FileName :: string
  pt_Body :: reader

record web_request =
  wr_Method :: string
  wr_Header :: "string \<Rightarrow> string"
  wr_Query :: "string \<Rightarrow> string"
  wr_Cookie :: "string \<Rightarrow> string option"
  wr_ID :: string
  wr_Body :: reader
  wr_Form :: "reader \<Rightarrow> err option \<times> (string \<Rightarrow> string)"
  wr_Multipart :: "nat \<Rightarrow> (part list \<times> err option) option"

record cookie =
  co_Name :: string
  co_Value :: string
  co_MaxAge :: int
  co_HttpOnly :: bool
  co_Secure :: bool
  co_Lax :: bool

text \<open>\<open>http.Cookie.String\<close> for the cookies of this package (all with the path \<open>/\<close>).\<close>

definition cookieString :: "cookie \<Rightarrow> string" where
  "cookieString c = co_Name c @ ''='' @ co_Value c @ ''; Path=/'' @
     (if co_MaxAge c > 0 then ''; Max-Age='' @ Itoa (co_MaxAge c) else if co_MaxAge c < 0 then ''; Max-Age=0'' else []) @
     (if co_HttpOnly c then ''; HttpOnly'' else []) @ (if co_Secure c then ''; Secure'' else []) @
     (if co_Lax c then ''; SameSite=Lax'' else [])"

definition SetCookie :: "cookie \<Rightarrow> string \<times> string" where
  "SetCookie c = (''Set-Cookie'', cookieString c)"

text \<open>\<open>http.Error\<close>, and \<open>http.Redirect\<close> to an absolute URL or a clean absolute path.\<close>

definition httpError :: "string \<Rightarrow> nat \<Rightarrow> 'z response" where
  "httpError msg status = \<lparr>rs_Status = status,
     rs_Header = [(''Content-Type'', ''text/plain; charset=utf-8''), (''X-Content-Type-Options'', ''nosniff'')],
     rs_Body = PBytes (bytesOf msg @ [10])\<rparr>"

definition Redirect :: "string \<Rightarrow> nat \<Rightarrow> 'z response" where
  "Redirect url status = \<lparr>rs_Status = status, rs_Header = [(''Location'', url)], rs_Body = PNone\<rparr>"

definition withHeaders :: "(string \<times> string) list \<Rightarrow> 'z response \<Rightarrow> 'z response" where
  "withHeaders hs resp = resp\<lparr>rs_Header := hs @ rs_Header resp\<rparr>"

section \<open>The relying party\<close>

record rp_config =
  rc_Issuer :: string
  rc_SuccessURL :: string
  rc_PostLogoutURL :: string
  rc_CookieName :: string
  rc_Secure :: bool
  rc_SessionTTL :: int

record claims =
  cl_Subject :: string
  cl_Name :: string
  cl_Email :: string

record oidc_session =
  os_Claims :: claims
  os_IDToken :: string
  os_AccessToken :: string
  os_AccessTokenExpiry :: int

record oauth_token =
  ot_AccessToken :: string
  ot_Expiry :: int
  ot_IDToken :: string

text \<open>
  The libraries: the verifier made of 32 random bytes, the authorization URL, the code exchange and the
  verification of an ID token at a time (a failure is its message), and the decoding of its claims.
\<close>

record provider =
  pv_GenerateVerifier :: "bytes \<Rightarrow> string"
  pv_AuthCodeURL :: "string \<Rightarrow> string \<Rightarrow> string"
  pv_Exchange :: "int \<Rightarrow> string \<Rightarrow> string \<Rightarrow> string + oauth_token"
  pv_Verify :: "int \<Rightarrow> string \<Rightarrow> string + string + claims"

record relying_party =
  rp_cfg :: rp_config
  rp_provider :: provider

record rp_state =
  rp_sessions :: "oidc_session sstore"
  rp_logins :: "string sstore"

definition minute :: int where
  "minute = 60 * 1000000000"

text \<open>The discovery of the issuer yields the provider, or fails.\<close>

definition NewRelyingParty :: "rp_config \<Rightarrow> provider option \<Rightarrow> (relying_party \<times> rp_state) option" where
  "NewRelyingParty cfg discovered =
    (let cfg = cfg\<lparr>
           rc_SuccessURL := (if rc_SuccessURL cfg = [] then ''/'' else rc_SuccessURL cfg),
           rc_PostLogoutURL := (if rc_PostLogoutURL cfg = [] then ''/'' else rc_PostLogoutURL cfg),
           rc_CookieName := (if rc_CookieName cfg = [] then ''session'' else rc_CookieName cfg),
           rc_SessionTTL := (if rc_SessionTTL cfg = 0 then 12 * 60 * minute else rc_SessionTTL cfg)\<rparr>
     in map_option (\<lambda>P. (\<lparr>rp_cfg = cfg, rp_provider = P\<rparr>,
          \<lparr>rp_sessions = NewStore (rc_SessionTTL cfg), rp_logins = NewStore (10 * minute)\<rparr>)) discovered)"

type_synonym ('d, 'x, 'a) rp_action = "('d world \<times> 'x rp_state_scheme, 'a) io"

definition randID :: "nat \<Rightarrow> ('d, 'x, string) rp_action" where
  "randID n = lift (bnd (randRead n) (\<lambda>b. ret (hexEncode b)))"

definition stateCookie :: string where
  "stateCookie = ''oidc_state''"

definition rpNow :: "('d, 'x, int) rp_action" where
  "rpNow = gets (w_now \<circ> fst)"

definition onLogins :: "(string sstore \<Rightarrow> string sstore) \<Rightarrow> ('d, 'x, unit) rp_action" where
  "onLogins f = (\<lambda>(w, s). (Inr (), (w, s\<lparr>rp_logins := f (rp_logins s)\<rparr>)))"

definition onSessions :: "(oidc_session sstore \<Rightarrow> oidc_session sstore) \<Rightarrow> ('d, 'x, unit) rp_action" where
  "onSessions f = (\<lambda>(w, s). (Inr (), (w, s\<lparr>rp_sessions := f (rp_sessions s)\<rparr>)))"

definition getLogin :: "string \<Rightarrow> ('d, 'x, string option) rp_action" where
  "getLogin k = (\<lambda>(w, s). case GetSession (w_now w) k (rp_logins s) of (v, l) \<Rightarrow> (Inr v, (w, s\<lparr>rp_logins := l\<rparr>)))"

definition getSession :: "string \<Rightarrow> ('d, 'x, oidc_session option) rp_action" where
  "getSession k = (\<lambda>(w, s). case GetSession (w_now w) k (rp_sessions s) of (v, l) \<Rightarrow> (Inr v, (w, s\<lparr>rp_sessions := l\<rparr>)))"

definition sessionCookie :: "relying_party \<Rightarrow> string \<Rightarrow> int \<Rightarrow> cookie" where
  "sessionCookie R v age = \<lparr>co_Name = rc_CookieName (rp_cfg R), co_Value = v, co_MaxAge = age,
     co_HttpOnly = True, co_Secure = rc_Secure (rp_cfg R), co_Lax = True\<rparr>"

definition setCookie :: "relying_party \<Rightarrow> string \<Rightarrow> int \<Rightarrow> string \<times> string" where
  "setCookie R v ttl = SetCookie (sessionCookie R v (ttl div 1000000000))"

definition clearCookie :: "relying_party \<Rightarrow> string \<times> string" where
  "clearCookie R = SetCookie (sessionCookie R [] (- 1))"

section \<open>The flow\<close>

definition Login :: "relying_party \<Rightarrow> web_request \<Rightarrow> ('d, 'x, 'z response) rp_action" where
  "Login R r =
    bnd (randID 16) (\<lambda>state.
    bnd (lift (randRead 32)) (\<lambda>b.
    let verifier = pv_GenerateVerifier (rp_provider R) b in
    bnd rpNow (\<lambda>now.
    bnd (onLogins (PutSession now state verifier)) (\<lambda>_.
    ret (withHeaders
      [SetCookie \<lparr>co_Name = stateCookie, co_Value = state, co_MaxAge = 600, co_HttpOnly = True, co_Secure = rc_Secure (rp_cfg R), co_Lax = True\<rparr>]
      (Redirect (pv_AuthCodeURL (rp_provider R) state verifier) 302))))))"

text \<open>The header the callback has set by the time it can fail behind the state check.\<close>

definition clearState :: "string \<times> string" where
  "clearState = SetCookie \<lparr>co_Name = stateCookie, co_Value = [], co_MaxAge = - 1, co_HttpOnly = False, co_Secure = False, co_Lax = False\<rparr>"

definition completeLogin :: "relying_party \<Rightarrow> string \<Rightarrow> string \<Rightarrow> ('d, 'x, 'z response) rp_action" where
  "completeLogin R code verifier =
    bnd rpNow (\<lambda>now.
    case pv_Exchange (rp_provider R) now code verifier of
      Inl msg \<Rightarrow> ret (httpError (''code exchange: '' @ msg) 502)
    | Inr tok \<Rightarrow>
        let rawID = ot_IDToken tok in
        (case pv_Verify (rp_provider R) now rawID of
           Inl msg \<Rightarrow> ret (httpError (''id token: '' @ msg) 502)
         | Inr (Inl msg) \<Rightarrow> ret (httpError (''claims: '' @ msg) 502)
         | Inr (Inr c) \<Rightarrow>
             bnd (randID 32) (\<lambda>sid.
             bnd (onSessions (PutSession now sid \<lparr>os_Claims = c, os_IDToken = rawID, os_AccessToken = ot_AccessToken tok, os_AccessTokenExpiry = ot_Expiry tok\<rparr>)) (\<lambda>_.
             ret (withHeaders [setCookie R sid (rc_SessionTTL (rp_cfg R))] (Redirect (rc_SuccessURL (rp_cfg R)) 302))))))"

definition Callback :: "relying_party \<Rightarrow> web_request \<Rightarrow> ('d, 'x, 'z response) rp_action" where
  "Callback R r =
    (let state = wr_Query r ''state'' in
     case wr_Cookie r stateCookie of
       None \<Rightarrow> ret (httpError ''state mismatch'' 400)
     | Some sc \<Rightarrow>
         if sc = [] \<or> sc \<noteq> state then ret (httpError ''state mismatch'' 400)
         else
           bnd (getLogin state) (\<lambda>v.
           case v of
             None \<Rightarrow> ret (withHeaders [clearState] (httpError ''unknown or expired login state'' 400))
           | Some verifier \<Rightarrow>
               bnd (onLogins (DeleteSession state)) (\<lambda>_.
               bnd (completeLogin R (wr_Query r ''code'') verifier) (\<lambda>resp.
               ret (withHeaders [clearState] resp)))))"

definition Logout :: "relying_party \<Rightarrow> web_request \<Rightarrow> ('d, 'x, 'z response) rp_action" where
  "Logout R r =
    bnd (case wr_Cookie r (rc_CookieName (rp_cfg R)) of
           None \<Rightarrow> ret []
         | Some c \<Rightarrow>
             bnd (getSession c) (\<lambda>sess.
             bnd (onSessions (DeleteSession c)) (\<lambda>_.
             ret (case sess of None \<Rightarrow> [] | Some s \<Rightarrow> os_IDToken s)))) (\<lambda>idToken.
    ret (withHeaders [clearCookie R]
      (if idToken \<noteq> [] then
         Redirect (rc_Issuer (rp_cfg R) @ ''/oidc/v1/end_session?id_token_hint='' @ QueryEscape idToken @
           ''&post_logout_redirect_uri='' @ QueryEscape (rc_PostLogoutURL (rp_cfg R))) 302
       else Redirect (rc_PostLogoutURL (rp_cfg R)) 302)))"

definition SessionOf :: "relying_party \<Rightarrow> web_request \<Rightarrow> ('d, 'x, oidc_session option) rp_action" where
  "SessionOf R r = (case wr_Cookie r (rc_CookieName (rp_cfg R)) of None \<Rightarrow> ret None | Some c \<Rightarrow> getSession c)"

section \<open>The guards\<close>

definition SameOriginGuard :: "string \<Rightarrow> (web_request \<Rightarrow> ('w, 'z response) io) \<Rightarrow> web_request \<Rightarrow> ('w, 'z response) io" where
  "SameOriginGuard selfOrigin handler r =
    (if wr_Method r \<in> {''GET'', ''HEAD'', ''OPTIONS''} then handler r
     else if wr_Header r ''Sec-Fetch-Site'' \<in> {''same-origin'', ''none''} then handler r
     else if wr_Header r ''Sec-Fetch-Site'' \<in> {''same-site'', ''cross-site''} then ret (httpError ''cross-origin request rejected'' 403)
     else let o' = wr_Header r ''Origin'' in
       if o' \<noteq> [] \<and> o' \<noteq> selfOrigin then ret (httpError ''cross-origin request rejected'' 403)
       else handler r)"

definition Middleware :: "relying_party \<Rightarrow> (web_request \<Rightarrow> ('d, 'x, 'z response) rp_action) \<Rightarrow> (web_request \<Rightarrow> ('d, 'x, 'z response) rp_action) \<Rightarrow> web_request \<Rightarrow> ('d, 'x, 'z response) rp_action" where
  "Middleware R handler onUnauthorized r =
    bnd (SessionOf R r) (\<lambda>s. if s \<noteq> None then handler r else onUnauthorized r)"

definition RedirectToLogin :: "string \<Rightarrow> web_request \<Rightarrow> ('w, 'z response) io" where
  "RedirectToLogin loginPath r = ret (Redirect loginPath 302)"

section \<open>Properties\<close>

text \<open>How the parts of the state move.\<close>

lemma completeLogin_cases:
  assumes "completeLogin R code v (w, s) = (res, (w', s'))"
  shows "\<exists>resp. res = Inr resp \<and> rp_logins s' = rp_logins s \<and> w_db w' = w_db w \<and> w_fga w' = w_fga w \<and> w_fs w' = w_fs w \<and>
    (rp_sessions s' = rp_sessions s \<and> rs_Status resp = 502 \<or>
     (\<exists>tok c sid. pv_Exchange (rp_provider R) (w_now w) code v = Inr tok \<and> pv_Verify (rp_provider R) (w_now w) (ot_IDToken tok) = Inr (Inr c) \<and>
        sid = hexEncode (map (w_rand w) [0..<32]) \<and> rs_Status resp = 302 \<and>
        rp_sessions s' = PutSession (w_now w) sid \<lparr>os_Claims = c, os_IDToken = ot_IDToken tok, os_AccessToken = ot_AccessToken tok,
          os_AccessTokenExpiry = ot_Expiry tok\<rparr> (rp_sessions s)))"
  using assms
  by (auto simp: completeLogin_def bnd_apply ret_apply rpNow_def randID_def lift_def randRead_def onSessions_def httpError_def
      withHeaders_def Redirect_def Let_def split: sum.splits)

lemma Callback_cases:
  assumes "Callback R r (w, s) = (res, (w', s'))"
  shows "\<exists>resp. res = Inr resp \<and> w_db w' = w_db w \<and>
    (rp_sessions s' = rp_sessions s \<and> rs_Status resp \<in> {400, 502} \<or>
     (\<exists>v tok c sid. wr_Query r ''state'' \<noteq> [] \<and> wr_Cookie r stateCookie = Some (wr_Query r ''state'') \<and>
        fst (GetSession (w_now w) (wr_Query r ''state'') (rp_logins s)) = Some v \<and>
        pv_Exchange (rp_provider R) (w_now w) (wr_Query r ''code'') v = Inr tok \<and>
        pv_Verify (rp_provider R) (w_now w) (ot_IDToken tok) = Inr (Inr c) \<and> rs_Status resp = 302 \<and>
        rp_sessions s' = PutSession (w_now w) sid \<lparr>os_Claims = c, os_IDToken = ot_IDToken tok, os_AccessToken = ot_AccessToken tok,
          os_AccessTokenExpiry = ot_Expiry tok\<rparr> (rp_sessions s) \<and>
        st_items (rp_logins s') (wr_Query r ''state'') = None))"
proof (cases "wr_Cookie r stateCookie = Some (wr_Query r ''state'') \<and> wr_Query r ''state'' \<noteq> []")
  case False
  then show ?thesis using assms by (auto simp: Callback_def Let_def ret_apply httpError_def split: option.splits if_splits)
next
  case True
  obtain v l where g: "GetSession (w_now w) (wr_Query r ''state'') (rp_logins s) = (v, l)" by fastforce
  show ?thesis
  proof (cases v)
    case None
    then show ?thesis using True assms g
      by (auto simp: Callback_def Let_def ret_apply bnd_apply getLogin_def httpError_def withHeaders_def)
  next
    case (Some ver)
    let ?s = "s\<lparr>rp_logins := DeleteSession (wr_Query r ''state'') l\<rparr>"
    obtain r1 w1 s1 where c: "completeLogin R (wr_Query r ''code'') ver (w, ?s) = (r1 :: err + 'a response, (w1, s1))" by (metis prod.exhaust)
    note cc = completeLogin_cases [OF c]
    then obtain resp where resp: "r1 = Inr resp" by blast
    have fin: "res = Inr (withHeaders [clearState] resp)" "w' = w1" "s' = s1"
      using assms True g Some c resp by (auto simp: Callback_def Let_def ret_apply bnd_apply getLogin_def onLogins_def)
    have st: "rs_Status (withHeaders [clearState] resp) = rs_Status resp" by (simp add: withHeaders_def)
    show ?thesis
      using cc resp fin g Some True st by (auto simp: DeleteSession_def)
  qed
qed

text \<open>C25. A login is bound to the browser that started it, and redeemed once: a callback that stores a session
  carries a state cookie equal to its state parameter, that state was issued by this relying party and
  has not expired, the code was exchanged with exactly the PKCE verifier of that login, and the stored
  claims are those of a verified ID token; afterwards the state is spent: every further callback with it,
  whoever sends it, stores nothing and is answered with 400.\<close>

theorem Callback_bound:
  assumes run: "Callback R r (w, s) = (res, (w', s'))" and new: "rp_sessions s' \<noteq> rp_sessions s"
    and again: "Callback R r2 (w2, s') = (res2, (w2', s2))" "wr_Query r2 ''state'' = wr_Query r ''state''"
  shows "(\<exists>v tok c sid. wr_Query r ''state'' \<noteq> [] \<and> wr_Cookie r stateCookie = Some (wr_Query r ''state'') \<and>
        fst (GetSession (w_now w) (wr_Query r ''state'') (rp_logins s)) = Some v \<and>
        pv_Exchange (rp_provider R) (w_now w) (wr_Query r ''code'') v = Inr tok \<and>
        pv_Verify (rp_provider R) (w_now w) (ot_IDToken tok) = Inr (Inr c) \<and>
        rp_sessions s' = PutSession (w_now w) sid \<lparr>os_Claims = c, os_IDToken = ot_IDToken tok, os_AccessToken = ot_AccessToken tok,
          os_AccessTokenExpiry = ot_Expiry tok\<rparr> (rp_sessions s)) \<and>
    (\<exists>resp2. res2 = Inr resp2 \<and> rs_Status resp2 = 400) \<and> rp_sessions s2 = rp_sessions s'"
proof -
  from Callback_cases [OF run] new have spent: "st_items (rp_logins s') (wr_Query r ''state'') = None" by auto
  then have "fst (GetSession (w_now w2) (wr_Query r2 ''state'') (rp_logins s')) = None"
    using again(2) by (simp add: GetSession_def)
  then have "(\<exists>resp2. res2 = Inr resp2 \<and> rs_Status resp2 = 400) \<and> rp_sessions s2 = rp_sessions s'"
    using again(1) spent again(2)
    by (auto simp: Callback_def Let_def ret_apply bnd_apply getLogin_def httpError_def withHeaders_def GetSession_def split: option.splits if_splits)
  moreover have "\<exists>v tok c sid. wr_Query r ''state'' \<noteq> [] \<and> wr_Cookie r stateCookie = Some (wr_Query r ''state'') \<and>
        fst (GetSession (w_now w) (wr_Query r ''state'') (rp_logins s)) = Some v \<and>
        pv_Exchange (rp_provider R) (w_now w) (wr_Query r ''code'') v = Inr tok \<and>
        pv_Verify (rp_provider R) (w_now w) (ot_IDToken tok) = Inr (Inr c) \<and>
        rp_sessions s' = PutSession (w_now w) sid \<lparr>os_Claims = c, os_IDToken = ot_IDToken tok, os_AccessToken = ot_AccessToken tok,
          os_AccessTokenExpiry = ot_Expiry tok\<rparr> (rp_sessions s)"
    using Callback_cases [OF run] new by blast
  ultimately show ?thesis by blast
qed

section \<open>Where sessions come from\<close>

text \<open>The ID token behind a session was verified at a time, with these claims.\<close>

definition genuine :: "relying_party \<Rightarrow> int \<Rightarrow> oidc_session \<Rightarrow> bool" where
  "genuine R t s \<longleftrightarrow> pv_Verify (rp_provider R) t (os_IDToken s) = Inr (Inr (os_Claims s))"

definition rpInv :: "relying_party \<Rightarrow> int \<Rightarrow> 'x rp_state_scheme \<Rightarrow> bool" where
  "rpInv R t s \<longleftrightarrow> backed (rc_SessionTTL (rp_cfg R)) (\<lambda>t0 _. genuine R t0) t (rp_sessions s)"

text \<open>The states the relying party reaches while browsers use it over time.\<close>

inductive rpRun :: "relying_party \<Rightarrow> int \<Rightarrow> rp_state \<Rightarrow> int \<Rightarrow> rp_state \<Rightarrow> bool" for R t0 s0 where
  start: "rpRun R t0 s0 t0 s0"
| login: "rpRun R t0 s0 t s \<Longrightarrow> t \<le> w_now (w :: kamara_db world) \<Longrightarrow> Login R r (w, s) = ((res :: err + unit response), (w', s')) \<Longrightarrow> rpRun R t0 s0 (w_now w) s'"
| callback: "rpRun R t0 s0 t s \<Longrightarrow> t \<le> w_now (w :: kamara_db world) \<Longrightarrow> Callback R r (w, s) = ((res :: err + unit response), (w', s')) \<Longrightarrow> rpRun R t0 s0 (w_now w) s'"
| logout: "rpRun R t0 s0 t s \<Longrightarrow> t \<le> w_now (w :: kamara_db world) \<Longrightarrow> Logout R r (w, s) = ((res :: err + unit response), (w', s')) \<Longrightarrow> rpRun R t0 s0 (w_now w) s'"
| visit: "rpRun R t0 s0 t s \<Longrightarrow> t \<le> w_now (w :: kamara_db world) \<Longrightarrow> SessionOf R r (w, s) = (res, (w', s')) \<Longrightarrow> rpRun R t0 s0 (w_now w) s'"

lemma rpInv_later: "rpInv R t s \<Longrightarrow> t \<le> t' \<Longrightarrow> rpInv R t' s"
  unfolding rpInv_def by (rule backed_later)

lemma Login_sessions: "Login R r (w, s) = (res, (w', s')) \<Longrightarrow> rp_sessions s' = rp_sessions s"
  by (auto simp: Login_def bnd_apply ret_apply randID_def lift_def randRead_def rpNow_def onLogins_def Let_def)

lemma rpInv_getSession:
  assumes "rpInv R (w_now w) s" "getSession k (w, s) = (res, (w', s'))"
  shows "w' = w \<and> rpInv R (w_now w) s' \<and> (\<exists>v. res = Inr v \<and> (\<forall>x. v = Some x \<longrightarrow>
    (\<exists>t0 \<le> w_now w. genuine R t0 x \<and> w_now w - t0 \<le> rc_SessionTTL (rp_cfg R))))"
  using assms backed_get [of _ _ "w_now w" "rp_sessions s" "w_now w" k] by (force simp: getSession_def rpInv_def split: prod.splits)

lemma rpInv_ops:
  assumes i: "rpInv R (w_now w) s"
  shows "Login R r (w, s) = (res, (w', s')) \<Longrightarrow> rpInv R (w_now w) s'"
    and "Callback R r (w, s) = (res2, (w', s')) \<Longrightarrow> rpInv R (w_now w) s'"
    and "SessionOf R r (w, s) = (res3, (w', s')) \<Longrightarrow> rpInv R (w_now w) s'"
    and "Logout R r (w, s) = (res4, (w', s')) \<Longrightarrow> rpInv R (w_now w) s'"
proof -
  show "rpInv R (w_now w) s'" if "Login R r (w, s) = (res, (w', s'))" using Login_sessions [OF that] i by (simp add: rpInv_def)
  show "rpInv R (w_now w) s'" if c: "Callback R r (w, s) = (res2, (w', s'))"
    using Callback_cases [OF c] i by (auto simp: rpInv_def genuine_def intro!: backed_put)
  show "rpInv R (w_now w) s'" if "SessionOf R r (w, s) = (res3, (w', s'))"
    using that i rpInv_getSession [OF i] by (auto simp: SessionOf_def ret_apply split: option.splits)
  show "rpInv R (w_now w) s'" if l: "Logout R r (w, s) = (res4, (w', s'))"
  proof (cases "wr_Cookie r (rc_CookieName (rp_cfg R))")
    case None
    then show ?thesis using l i by (simp add: Logout_def ret_apply bnd_apply)
  next
    case (Some c)
    obtain v w1 s1 where g: "getSession c (w, s) = (v, (w1, s1))" by (metis prod.exhaust)
    then obtain x where x: "v = Inr x" by (auto simp: getSession_def split: prod.splits)
    have "rpInv R (w_now w) s1" using rpInv_getSession [OF i g] by blast
    moreover have "s' = s1\<lparr>rp_sessions := DeleteSession c (rp_sessions s1)\<rparr>"
      using l Some g x by (auto simp: Logout_def ret_apply bnd_apply onSessions_def)
    ultimately show ?thesis by (simp add: rpInv_def backed_delete)
  qed
qed

lemma rpRun_inv: "rpRun R t0 s0 t s \<Longrightarrow> rpInv R t0 s0 \<Longrightarrow> rpInv R t s"
proof (induction rule: rpRun.induct)
  case (login t s w r res w' s')
  then show ?case using rpInv_later rpInv_ops(1) by blast
next
  case (callback t s w r res w' s')
  then show ?case using rpInv_later rpInv_ops(2) by blast
next
  case (logout t s w r res w' s')
  then show ?case using rpInv_later rpInv_ops(4) by blast
next
  case (visit t s w r res w' s')
  then show ?case using rpInv_later rpInv_ops(3) by blast
qed

lemma rpInv_new: "NewRelyingParty cfg P = Some (R, s) \<Longrightarrow> rpInv R t s"
  by (auto simp: NewRelyingParty_def rpInv_def Let_def backed_new)

text \<open>
  The login a request comes under, read off the state: the entry stored for the value of the request's session cookie,
  not yet expired, with the claims of an ID token that was verified at most one session lifetime ago.
\<close>

definition loggedIn :: "relying_party \<Rightarrow> web_request \<Rightarrow> int \<Rightarrow> 'x rp_state_scheme \<Rightarrow> oidc_session \<Rightarrow> bool" where
  "loggedIn R r now s x \<longleftrightarrow>
     (\<exists>c e. wr_Cookie r (rc_CookieName (rp_cfg R)) = Some c \<and> st_items (rp_sessions s) c = Some e \<and> now \<le> en_exp e \<and> en_val e = x) \<and>
     (\<exists>t \<le> now. genuine R t x \<and> now - t \<le> rc_SessionTTL (rp_cfg R))"

lemma SessionOf_cookie:
  assumes "SessionOf R r (w, s) = (res, (w', s'))"
  shows "w' = w \<and> (\<exists>v. res = Inr v \<and> (\<forall>x. v = Some x \<longrightarrow>
    (\<exists>c e. wr_Cookie r (rc_CookieName (rp_cfg R)) = Some c \<and> st_items (rp_sessions s) c = Some e \<and> w_now w \<le> en_exp e \<and> en_val e = x)))"
  using assms by (auto simp: SessionOf_def getSession_def GetSession_def ret_apply split: option.splits prod.splits if_splits)

lemma SessionOf_loggedIn:
  assumes i: "rpInv R (w_now w) s" and v: "SessionOf R r (w, s) = (Inr (Some x), (w', s'))"
  shows "loggedIn R r (w_now w) s x"
proof -
  obtain c where "getSession c (w, s) = (Inr (Some x), (w', s'))" using v by (auto simp: SessionOf_def ret_apply split: option.splits)
  then show ?thesis using SessionOf_cookie [OF v] rpInv_getSession [OF i] by (simp add: loggedIn_def) blast
qed

text \<open>C26. The session a request is served under is genuine: in every run of the relying party, whatever browsers
  sent it, the session found for a request holds the claims of an ID token that was verified at most one
  session lifetime ago; and after a logout the same cookie finds no session.\<close>

theorem SessionOf_genuine:
  assumes "NewRelyingParty cfg P = Some (R, s0)" "rpRun R t0 s0 t s" "t \<le> w_now w"
    and v: "SessionOf R r (w, s) = (Inr (Some x), (w1, s1))" and l: "Logout R r (w1, s1) = (res, (w2, s2))"
  shows "(\<exists>t1 \<le> w_now w. pv_Verify (rp_provider R) t1 (os_IDToken x) = Inr (Inr (os_Claims x)) \<and> w_now w - t1 \<le> rc_SessionTTL (rp_cfg R)) \<and>
    fst (SessionOf R r (w3, s2)) = Inr None"
proof -
  have i: "rpInv R (w_now w) s" using rpRun_inv [OF assms(2) rpInv_new [OF assms(1)]] rpInv_later assms(3) by blast
  obtain c where c: "wr_Cookie r (rc_CookieName (rp_cfg R)) = Some c" and g: "getSession c (w, s) = (Inr (Some x), (w1, s1))"
    using v by (auto simp: SessionOf_def ret_apply split: option.splits)
  have "st_items (rp_sessions s2) c = None"
    using l c by (auto simp: Logout_def ret_apply bnd_apply onSessions_def getSession_def DeleteSession_def split: prod.splits)
  then have "fst (SessionOf R r (w3, s2)) = Inr None" using c by (simp add: SessionOf_def getSession_def GetSession_def)
  then show ?thesis using rpInv_getSession [OF i g] by (auto simp: genuine_def)
qed

section \<open>Witnesses\<close>

definition demoIdP :: provider where
  "demoIdP = \<lparr>pv_GenerateVerifier = (\<lambda>_. ''v''), pv_AuthCodeURL = (\<lambda>_ _. ''/authorize''),
     pv_Exchange = (\<lambda>_ _ _. Inr \<lparr>ot_AccessToken = ''at'', ot_Expiry = 0, ot_IDToken = ''id''\<rparr>),
     pv_Verify = (\<lambda>_ _. Inr (Inr \<lparr>cl_Subject = ''ann'', cl_Name = ''Ann'', cl_Email = []\<rparr>))\<rparr>"

definition demoConfig :: rp_config where
  "demoConfig = \<lparr>rc_Issuer = ''https://id'', rc_SuccessURL = [], rc_PostLogoutURL = [], rc_CookieName = [], rc_Secure = True, rc_SessionTTL = 0\<rparr>"

definition demoRP :: relying_party where
  "demoRP = fst (the (NewRelyingParty demoConfig (Some demoIdP)))"

text \<open>A browser that returns from the login with the state and session identifiers a world hands out.\<close>

definition demoState :: "kamara_db world \<Rightarrow> string" where
  "demoState w = hexEncode (map (w_rand w) [0..<16])"

definition demoSid :: "kamara_db world \<Rightarrow> string" where
  "demoSid w = hexEncode (map (w_rand w) [0..<32])"

definition demoBrowser :: "kamara_db world \<Rightarrow> web_request" where
  "demoBrowser w = \<lparr>wr_Method = ''GET'', wr_Header = (\<lambda>_. []), wr_Query = (\<lambda>k. if k = ''state'' then demoState w else ''c''),
     wr_Cookie = (\<lambda>k. if k = stateCookie then Some (demoState w) else Some (demoSid w)), wr_ID = [], wr_Body = demoReader,
     wr_Form = (\<lambda>_. (None, \<lambda>_. [])), wr_Multipart = (\<lambda>_. None)\<rparr>"

definition demoLogins :: "kamara_db world \<Rightarrow> rp_state" where
  "demoLogins w = \<lparr>rp_sessions = NewStore (12 * 60 * minute), rp_logins = PutSession (w_now w) (demoState w) ''v'' (NewStore (10 * minute))\<rparr>"

definition demoLoggedIn :: "kamara_db world \<Rightarrow> rp_state" where
  "demoLoggedIn w = \<lparr>rp_sessions = PutSession (w_now w) (demoSid w)
       \<lparr>os_Claims = \<lparr>cl_Subject = ''ann'', cl_Name = ''Ann'', cl_Email = []\<rparr>, os_IDToken = ''id'', os_AccessToken = ''at'', os_AccessTokenExpiry = 0\<rparr>
       (NewStore (12 * 60 * minute)),
     rp_logins = DeleteSession (demoState w) (rp_logins (demoLogins w))\<rparr>"

lemma demo_ids [simp]: "demoState w \<noteq> []" "stateCookie \<noteq> ''session''"
  by (simp_all add: demoState_def stateCookie_def upt_rec)

lemma demoRP_cfg [simp]: "rp_cfg demoRP = demoConfig\<lparr>rc_SuccessURL := ''/'', rc_PostLogoutURL := ''/'', rc_CookieName := ''session'', rc_SessionTTL := 12 * 60 * minute\<rparr>"
    "rp_provider demoRP = demoIdP"
  by (simp_all add: demoRP_def NewRelyingParty_def demoConfig_def Let_def)

lemma demo_new: "NewRelyingParty demoConfig (Some demoIdP) = Some (demoRP, \<lparr>rp_sessions = NewStore (12 * 60 * minute), rp_logins = NewStore (10 * minute)\<rparr>)"
  by (simp add: demoRP_def NewRelyingParty_def demoConfig_def Let_def)

lemma demo_get: "GetSession t k (PutSession t k v (NewStore ttl)) = (if 0 \<le> ttl then (Some v, PutSession t k v (NewStore ttl))
     else (None, DeleteSession k (PutSession t k v (NewStore ttl))))"
  by (auto simp: GetSession_def PutSession_def NewStore_def Let_def sweepLocked_def DeleteSession_def)

lemma demo_login: "\<exists>res w'. Login demoRP (demoBrowser w) (w, \<lparr>rp_sessions = NewStore (12 * 60 * minute), rp_logins = NewStore (10 * minute)\<rparr>) =
    (res :: err + unit response, (w', demoLogins w))"
  by (simp add: Login_def bnd_apply ret_apply randID_def lift_def randRead_def rpNow_def onLogins_def Let_def demoLogins_def demoState_def demoIdP_def)

lemma demo_callback: "\<exists>res w'. Callback demoRP (demoBrowser w) (w, demoLogins w) = (res :: err + unit response, (w', demoLoggedIn w))"
proof -
  have "0 \<le> 10 * minute" by (simp add: minute_def)
  then show ?thesis
    by (simp add: Callback_def demoBrowser_def getLogin_def demoLogins_def demo_get bnd_apply ret_apply onLogins_def completeLogin_def rpNow_def
        demoIdP_def Let_def randID_def lift_def randRead_def onSessions_def demoLoggedIn_def demoSid_def)
qed

theorem Callback_bound_witness:
  "\<exists>resp w'. Callback demoRP (demoBrowser (demoWorld emptyDb)) (demoWorld emptyDb, demoLoggedIn (demoWorld emptyDb)) =
     (Inr resp :: err + unit response, (w', snd (snd (Callback demoRP (demoBrowser (demoWorld emptyDb)) (demoWorld emptyDb, demoLoggedIn (demoWorld emptyDb)) ::
        (err + unit response) \<times> kamara_db world \<times> rp_state)))) \<and> rs_Status resp = 400"
proof -
  let ?w = "demoWorld emptyDb :: kamara_db world"
  obtain res w' where c: "Callback demoRP (demoBrowser ?w) (?w, demoLogins ?w) = (res :: err + unit response, (w', demoLoggedIn ?w))"
    using demo_callback by blast
  obtain res2 w2 s2 where c2: "Callback demoRP (demoBrowser ?w) (?w, demoLoggedIn ?w) = (res2 :: err + unit response, (w2, s2))" by (metis prod.exhaust)
  have "st_items (rp_sessions (demoLoggedIn ?w)) (demoSid ?w) \<noteq> st_items (rp_sessions (demoLogins ?w)) (demoSid ?w)"
    by (simp add: demoLoggedIn_def demoLogins_def PutSession_def NewStore_def Let_def)
  then have "rp_sessions (demoLoggedIn ?w) \<noteq> rp_sessions (demoLogins ?w)" by metis
  from Callback_bound [OF c this c2 refl] show ?thesis using c2 by auto
qed

theorem SessionOf_genuine_witness:
  "(\<exists>x. fst (SessionOf demoRP (demoBrowser (demoWorld emptyDb)) (demoWorld emptyDb :: kamara_db world, demoLoggedIn (demoWorld emptyDb))) = Inr (Some x) \<and>
     (\<exists>t1 \<le> w_now (demoWorld emptyDb). pv_Verify demoIdP t1 (os_IDToken x) = Inr (Inr (os_Claims x)))) \<and>
   (\<exists>s :: rp_state. fst (SessionOf demoRP (demoBrowser (demoWorld emptyDb)) (demoWorld emptyDb :: kamara_db world, s)) = Inr None)"
proof -
  let ?w = "demoWorld emptyDb :: kamara_db world" and ?r = "demoBrowser (demoWorld emptyDb)"
  let ?x = "\<lparr>os_Claims = \<lparr>cl_Subject = ''ann'', cl_Name = ''Ann'', cl_Email = []\<rparr>, os_IDToken = ''id'', os_AccessToken = ''at'', os_AccessTokenExpiry = 0\<rparr>"
  obtain res w' res2 w2 where l: "Login demoRP ?r (?w, \<lparr>rp_sessions = NewStore (12 * 60 * minute), rp_logins = NewStore (10 * minute)\<rparr>) =
      (res :: err + unit response, (w', demoLogins ?w))"
    and c: "Callback demoRP ?r (?w, demoLogins ?w) = (res2 :: err + unit response, (w2, demoLoggedIn ?w))"
    using demo_login [of ?w] demo_callback [of ?w] by blast
  have run: "rpRun demoRP (w_now ?w) \<lparr>rp_sessions = NewStore (12 * 60 * minute), rp_logins = NewStore (10 * minute)\<rparr> (w_now ?w) (demoLoggedIn ?w)"
    by (rule rpRun.callback [OF rpRun.login [OF rpRun.start _ l] _ c]) simp_all
  have "0 \<le> 12 * 60 * minute" by (simp add: minute_def)
  then have v: "SessionOf demoRP ?r (?w, demoLoggedIn ?w) = (Inr (Some \<lparr>os_Claims = \<lparr>cl_Subject = ''ann'', cl_Name = ''Ann'', cl_Email = []\<rparr>,
      os_IDToken = ''id'', os_AccessToken = ''at'', os_AccessTokenExpiry = 0\<rparr>), (?w, demoLoggedIn ?w))"
    by (simp add: SessionOf_def getSession_def demoLoggedIn_def demo_get demoBrowser_def stateCookie_def)
  obtain res3 w3 s3 where lo: "Logout demoRP ?r (?w, demoLoggedIn ?w) = (res3 :: err + unit response, (w3, s3))" by (metis prod.exhaust)
  have "rp_provider demoRP = demoIdP" by (simp add: demoRP_def NewRelyingParty_def demoConfig_def Let_def)
  with SessionOf_genuine [OF demo_new run order_refl v lo, of ?w]
  have "(\<exists>t1 \<le> w_now ?w. pv_Verify demoIdP t1 (os_IDToken ?x) = Inr (Inr (os_Claims ?x))) \<and> fst (SessionOf demoRP ?r (?w, s3)) = Inr None" by auto
  moreover have "fst (SessionOf demoRP ?r (?w, demoLoggedIn ?w)) = Inr (Some ?x)" using v by simp
  ultimately show ?thesis by blast
qed

end
