(* ===== verification/Web.thy ===== *)
theory Web
  imports Reading Discovery Oidcrp
begin

text \<open>
  The browser front end, \<open>kamara/cmd/kamara/web.go\<close>, with its mounting in \<open>kamara/cmd/kamara/main.go\<close> (the session
  middleware, the same-origin guard and the content-security policy). A page is the view value that the
  templates of \<open>kamara/internal/web\<close> render.
\<close>

section \<open>Views\<close>

record view =
  vw_Crumbs :: "folder list"
  vw_Folders :: "folder list"
  vw_Files :: "object list"
  vw_AllFolders :: "folder list"

record detail_view =
  dv_Object :: object
  dv_Versions :: "version list"
  dv_Latest :: int
  dv_Office :: bool

record editor_view =
  ev_Name :: string
  ev_ActionURL :: string
  ev_AccessToken :: string
  ev_AccessTokenTTL :: int

record text_view =
  tv_Object :: object
  tv_Content :: bytes
  tv_Base :: int
  tv_Saved :: bool
  tv_Conflict :: bool

datatype html = Page view | Listing view | Details detail_view | Editor editor_view | TextEditor text_view | Archive archive

type_synonym web_response = "html response"

definition render :: "nat \<Rightarrow> html \<Rightarrow> web_response" where
  "render status p = \<lparr>rs_Status = status, rs_Header = [(''Content-Type'', ''text/html; charset=utf-8'')], rs_Body = POther p\<rparr>"

section \<open>The application\<close>

record web_app =
  wa_svc :: svc
  wa_rp :: relying_party
  wa_instance :: string
  wa_sessions :: sessions
  wa_engine :: engine
  wa_office :: string
  wa_wopiSrcBase :: string

record web_state = rp_state +
  wb_discovery :: discovery

type_synonym 'a webio = "(kamara_db world \<times> web_state, 'a) io"

definition officeEnabled :: "web_app \<Rightarrow> bool" where
  "officeEnabled A \<longleftrightarrow> wa_office A \<noteq> []"

definition webCaller :: "web_app \<Rightarrow> web_request \<Rightarrow> subject option webio" where
  "webCaller A r = bnd (SessionOf (wa_rp A) r) (\<lambda>sess.
     ret (map_option (\<lambda>s. \<lparr>sub_Instance = wa_instance A, sub_UserID = cl_Subject (os_Claims s)\<rparr>) sess))"

text \<open>The two ways a handler resolves its caller: 401, or a redirect to the login.\<close>

definition webAuthed :: "web_app \<Rightarrow> web_request \<Rightarrow> (subject \<Rightarrow> web_response webio) \<Rightarrow> web_response webio" where
  "webAuthed A r k = bnd (webCaller A r) (\<lambda>c. case c of None \<Rightarrow> ret (httpError ''unauthorized'' 401) | Some u \<Rightarrow> k u)"

definition orLogin :: "web_app \<Rightarrow> web_request \<Rightarrow> (subject \<Rightarrow> web_response webio) \<Rightarrow> web_response webio" where
  "orLogin A r k = bnd (webCaller A r) (\<lambda>c. case c of None \<Rightarrow> ret (Redirect ''/auth/login'' 302) | Some u \<Rightarrow> k u)"

definition failWeb :: "err \<Rightarrow> web_response" where
  "failWeb e =
    (if e = ErrTooLarge then httpError ''file exceeds maximum upload size'' 413
     else if e = ErrNotFound then httpError ''not found'' 404
     else if e = ErrForbidden then httpError ''forbidden'' 403
     else if e = ErrNotEmpty then httpError ''folder not empty'' 409
     else if e = ErrCycle then httpError ''move would create a cycle'' 400
     else if e = ErrModified then httpError ''file was modified since the base version'' 409
     else httpError ''internal error'' 500)"

definition orFail :: "'a kamara \<Rightarrow> ('a \<Rightarrow> web_response webio) \<Rightarrow> web_response webio" where
  "orFail m k = attempt (lift m) (\<lambda>e. ret (failWeb e)) k"

definition viewOf :: "web_app \<Rightarrow> subject \<Rightarrow> string \<Rightarrow> view kamara" where
  "viewOf A caller fid =
    bnd (if fid \<noteq> [] then Ancestors (wa_svc A) caller fid else ret []) (\<lambda>crumbs.
    bnd (ListChildren (wa_svc A) caller (optStr fid)) (\<lambda>l.
    bnd (AllFolders (wa_svc A) caller) (\<lambda>all.
    ret \<lparr>vw_Crumbs = crumbs, vw_Folders = li_Folders l, vw_Files = li_Files l, vw_AllFolders = all\<rparr>)))"

definition renderAt :: "web_app \<Rightarrow> web_request \<Rightarrow> subject \<Rightarrow> web_response webio" where
  "renderAt A r caller = orFail (viewOf A caller (wr_Query r ''at'')) (\<lambda>v. ret (render 200 (Listing v)))"

text \<open>\<open>r.FormValue\<close> without an explicit \<open>ParseForm\<close>: a parse error leaves the values read so far.\<close>

definition FormValue :: "web_request \<Rightarrow> string \<Rightarrow> string" where
  "FormValue r = snd (wr_Form r (wr_Body r))"

section \<open>Mutations\<close>

definition thenListing :: "web_app \<Rightarrow> web_request \<Rightarrow> (subject \<Rightarrow> 'a kamara) \<Rightarrow> web_response webio" where
  "thenListing A r m = webAuthed A r (\<lambda>caller. orFail (m caller) (\<lambda>_. renderAt A r caller))"

definition webCreateFolder :: "web_app \<Rightarrow> web_request \<Rightarrow> web_response webio" where
  "webCreateFolder A r = thenListing A r (\<lambda>caller. CreateFolder (wa_svc A) caller (optStr (wr_Query r ''at'')) (FormValue r ''name''))"

primrec uploadPart :: "svc \<Rightarrow> subject \<Rightarrow> string option \<Rightarrow> err option \<Rightarrow> part list \<Rightarrow> bool kamara" where
  "uploadPart S caller fid e [] = (case e of None \<Rightarrow> ret False | Some x \<Rightarrow> fail x)"
| "uploadPart S caller fid e (p # ps) =
    (if pt_FormName p \<noteq> ''file'' \<or> pt_FileName p = [] then uploadPart S caller fid e ps
     else bnd (Upload S caller fid (pt_FileName p) (pt_Body p)) (\<lambda>_. ret True))"

definition webUpload :: "web_app \<Rightarrow> web_request \<Rightarrow> web_response webio" where
  "webUpload A r = webAuthed A r (\<lambda>caller.
     case wr_Multipart r (nat DefaultMaxUploadBytes) of
       None \<Rightarrow> ret (httpError ''expected a multipart upload'' 400)
     | Some (ps, e) \<Rightarrow>
         orFail (uploadPart (wa_svc A) caller (optStr (wr_Query r ''at'')) e ps) (\<lambda>uploaded.
         if \<not> uploaded then ret (httpError ''no file provided'' 400) else renderAt A r caller))"

definition webRenameFile :: "web_app \<Rightarrow> web_request \<Rightarrow> web_response webio" where
  "webRenameFile A r = thenListing A r (\<lambda>caller. RenameFile (wa_svc A) caller (wr_ID r) (FormValue r ''name''))"

definition webMoveFile :: "web_app \<Rightarrow> web_request \<Rightarrow> web_response webio" where
  "webMoveFile A r = thenListing A r (\<lambda>caller. MoveFile (wa_svc A) caller (wr_ID r) (optStr (FormValue r ''dest'')))"

definition webDeleteFile :: "web_app \<Rightarrow> web_request \<Rightarrow> web_response webio" where
  "webDeleteFile A r = thenListing A r (\<lambda>caller. DeleteFile (wa_svc A) caller (wr_ID r))"

definition webRenameFolder :: "web_app \<Rightarrow> web_request \<Rightarrow> web_response webio" where
  "webRenameFolder A r = thenListing A r (\<lambda>caller. RenameFolder (wa_svc A) caller (wr_ID r) (FormValue r ''name''))"

definition webMoveFolder :: "web_app \<Rightarrow> web_request \<Rightarrow> web_response webio" where
  "webMoveFolder A r = thenListing A r (\<lambda>caller. MoveFolder (wa_svc A) caller (wr_ID r) (optStr (FormValue r ''dest'')))"

definition webDeleteFolder :: "web_app \<Rightarrow> web_request \<Rightarrow> web_response webio" where
  "webDeleteFolder A r = thenListing A r (\<lambda>caller. DeleteFolderTree (wa_svc A) caller (wr_ID r))"

section \<open>Downloads\<close>

definition webDownload :: "web_app \<Rightarrow> web_request \<Rightarrow> web_response webio" where
  "webDownload A r = orLogin A r (\<lambda>caller.
     orFail (GetFile (wa_svc A) caller (wr_ID r)) (\<lambda>x.
     bnd (lift (streamBody (Download (wa_svc A) caller (wr_ID r)))) (\<lambda>out.
     ret \<lparr>rs_Status = 200, rs_Header = [(''Content-Type'', ContentType (ob_ContentType x)),
       (''Content-Disposition'', ContentDisposition ''attachment'' (ob_Name x))], rs_Body = PBytes out\<rparr>)))"

definition webPreview :: "web_app \<Rightarrow> web_request \<Rightarrow> web_response webio" where
  "webPreview A r = webAuthed A r (\<lambda>caller.
     orFail (GetFile (wa_svc A) caller (wr_ID r)) (\<lambda>x.
     if \<not> Previewable x then ret (httpError ''not previewable'' 415)
     else
       bnd (lift (streamBody (Download (wa_svc A) caller (wr_ID r)))) (\<lambda>out.
       ret \<lparr>rs_Status = 200, rs_Header = [(''Content-Type'', ob_ContentType x), (''X-Content-Type-Options'', ''nosniff''),
         (''Content-Disposition'', ContentDisposition ''inline'' (ob_Name x))], rs_Body = PBytes out\<rparr>)))"

definition webZip :: "web_app \<Rightarrow> web_request \<Rightarrow> web_response webio" where
  "webZip A r = orLogin A r (\<lambda>caller.
     let at = wr_Query r ''at'' in
     orFail (if at \<noteq> [] then bnd (GetFolder (wa_svc A) caller at) (\<lambda>f. ret (fo_Name f)) else ret ''kamara'') (\<lambda>name.
     bnd (lift (streamBody (DownloadZip (wa_svc A) caller (optStr at)))) (\<lambda>entries.
     ret \<lparr>rs_Status = 200, rs_Header = [(''Content-Type'', ''application/zip''),
       (''Content-Disposition'', ContentDisposition ''attachment'' (name @ ''.zip''))], rs_Body = POther (Archive entries)\<rparr>)))"

section \<open>The text editor\<close>

text \<open>Downloading into a buffer: here an error is reported.\<close>

definition buffered :: "(kamara_db world \<times> bytes, unit) io \<Rightarrow> bytes kamara" where
  "buffered m = (\<lambda>w. case m (w, []) of (Inl e, (w', _)) \<Rightarrow> (Inl e, w') | (Inr _, (w', out)) \<Rightarrow> (Inr out, w'))"

definition utf8Valid :: "bytes \<Rightarrow> bool" where
  "utf8Valid b = list_all (\<lambda>(r, bs). \<not> (r = RuneError \<and> length bs = 1)) (runePieces (map unat b))"

definition webTextEditor :: "web_app \<Rightarrow> web_request \<Rightarrow> web_response webio" where
  "webTextEditor A r = orLogin A r (\<lambda>caller.
     orFail (GetFile (wa_svc A) caller (wr_ID r)) (\<lambda>x.
     if \<not> TextEditable x then ret (httpError ''not editable as text'' 415)
     else
       orFail (buffered (Download (wa_svc A) caller (wr_ID r))) (\<lambda>buf.
       if \<not> utf8Valid buf then ret (httpError ''not a text file'' 415)
       else
         orFail (LatestOrdinal (wa_svc A) caller (wr_ID r)) (\<lambda>base.
         ret (render 200 (TextEditor \<lparr>tv_Object = x, tv_Content = buf, tv_Base = base,
           tv_Saved = (wr_Query r ''saved'' = ''1''), tv_Conflict = False\<rparr>))))))"

text \<open>\<open>strconv.Atoi\<close>: an optional sign and decimal digits, within \<open>int64\<close>.\<close>

definition digitValue :: "char \<Rightarrow> nat" where
  "digitValue c = of_char c - 48"

definition isDigit :: "char \<Rightarrow> bool" where
  "isDigit c \<longleftrightarrow> 48 \<le> (of_char c :: nat) \<and> (of_char c :: nat) \<le> 57"

definition Atoi :: "string \<Rightarrow> int option" where
  "Atoi s =
    (let neg = take 1 s = ''-'';
         ds = (if neg \<or> take 1 s = ''+'' then drop 1 s else s);
         n = foldl (\<lambda>acc c. acc * 10 + int (digitValue c)) 0 ds;
         v = (if neg then - n else n)
     in if ds = [] \<or> \<not> list_all isDigit ds \<or> v < - (2 ^ 63) \<or> v \<ge> 2 ^ 63 then None else Some v)"

text \<open>\<open>strings.ReplaceAll(s, "\r\n", "\n")\<close>, and a reader over a string.\<close>

fun replaceCRLF :: "string \<Rightarrow> string" where
  "replaceCRLF (a # b # s) = (if a = CHR 0x0D \<and> b = CHR 0x0A then CHR 0x0A # replaceCRLF s else a # replaceCRLF (b # s))"
| "replaceCRLF [a] = [a]"
| "replaceCRLF [] = []"

definition stringReader :: "string \<Rightarrow> reader" where
  "stringReader s = \<lparr>rd_segs = (if s = [] then [] else [bytesOf s]), rd_end = REOF, rd_early = False\<rparr>"

definition webTextSave :: "web_app \<Rightarrow> web_request \<Rightarrow> web_response webio" where
  "webTextSave A r = webAuthed A r (\<lambda>caller.
     orFail (GetFile (wa_svc A) caller (wr_ID r)) (\<lambda>x.
     if \<not> TextEditable x then ret (httpError ''not editable as text'' 415)
     else
       case wr_Form r (MaxBytesReader (wr_Body r) (nat (4 * MaxTextEditBytes + 1024))) of
         (Some e, _) \<Rightarrow>
           ret (if e = ErrTooLarge then httpError ''content exceeds maximum size'' 413 else httpError ''invalid form'' 400)
       | (None, form) \<Rightarrow>
           (case Atoi (form ''base'') of
              None \<Rightarrow> ret (httpError ''invalid base version'' 400)
            | Some base \<Rightarrow>
                let cont = replaceCRLF (form ''content'') in
                attempt (lift (WriteVersionAt (wa_svc A) caller (wr_ID r) base (stringReader cont)))
                  (\<lambda>e. if e = ErrModified then
                         orFail (LatestOrdinal (wa_svc A) caller (wr_ID r)) (\<lambda>latest.
                         ret (render 409 (TextEditor \<lparr>tv_Object = x, tv_Content = bytesOf cont, tv_Base = latest, tv_Saved = False, tv_Conflict = True\<rparr>)))
                       else ret (failWeb e))
                  (\<lambda>_. ret (Redirect (''/text/'' @ wr_ID r @ ''?saved=1'') 303)))))"

definition webNewTextFile :: "web_app \<Rightarrow> web_request \<Rightarrow> web_response webio" where
  "webNewTextFile A r = webAuthed A r (\<lambda>caller.
     let name = TrimSpace (FormValue r ''name'') in
     if name = [] then ret (httpError ''name is required'' 400)
     else if \<not> TextEditableName (wa_svc A) name then ret (httpError ''not a text file name'' 400)
     else
       orFail (Upload (wa_svc A) caller (optStr (wr_Query r ''at'')) name (stringReader [])) (\<lambda>x.
       ret (Redirect (''/text/'' @ ob_ID x) 303)))"

section \<open>Pages\<close>

definition webPage :: "web_app \<Rightarrow> web_request \<Rightarrow> web_response webio" where
  "webPage A r = orLogin A r (\<lambda>caller.
     orFail (viewOf A caller (wr_Query r ''folder'')) (\<lambda>v. ret (render 200 (Page v))))"

definition webFrag :: "web_app \<Rightarrow> web_request \<Rightarrow> web_response webio" where
  "webFrag A r = webAuthed A r (\<lambda>caller.
     orFail (viewOf A caller (wr_Query r ''folder'')) (\<lambda>v. ret (render 200 (Listing v))))"

definition webDetails :: "web_app \<Rightarrow> web_request \<Rightarrow> web_response webio" where
  "webDetails A r = webAuthed A r (\<lambda>caller.
     orFail (GetFile (wa_svc A) caller (wr_ID r)) (\<lambda>x.
     orFail (ListVersions (wa_svc A) caller (wr_ID r)) (\<lambda>vs.
     let latest = (case vs of [] \<Rightarrow> 0 | v # _ \<Rightarrow> ve_Ordinal v) in
     ret (render 200 (Details \<lparr>dv_Object = x, dv_Versions = vs, dv_Latest = latest, dv_Office = officeEnabled A\<rparr>)))))"

definition fileExt :: "string \<Rightarrow> string" where
  "fileExt name =
    (let e = rev (takeWhile (\<lambda>c. c \<noteq> CHR ''.'') (rev name)) in if length e < length name then e else [])"

definition resolveEditor :: "web_app \<Rightarrow> string \<Rightarrow> string \<Rightarrow> string webio" where
  "resolveEditor A ext src = (\<lambda>(w, s).
     case EditURL (wa_engine A) (w_now w) ext src (wb_discovery s) of (u, d) \<Rightarrow> (u, (w, s\<lparr>wb_discovery := d\<rparr>)))"

definition webEdit :: "web_app \<Rightarrow> web_request \<Rightarrow> web_response webio" where
  "webEdit A r = orLogin A r (\<lambda>caller.
     if \<not> officeEnabled A then ret (httpError ''office editing is not enabled'' 404)
     else
       orFail (GetFile (wa_svc A) caller (wr_ID r)) (\<lambda>x.
       attempt (lift (Mint (wa_sessions A) caller (wr_ID r) True)) (\<lambda>e. ret (httpError ''could not open editor'' 500)) (\<lambda>token.
       let wopiSrc = wa_wopiSrcBase A @ ''/wopi/files/'' @ wr_ID r in
       attempt (resolveEditor A (fileExt (ob_Name x)) wopiSrc) (\<lambda>e. ret (httpError ''no editor for this file type'' 415)) (\<lambda>actionURL.
       ret (withHeaders [(''Cache-Control'', ''no-store'')]
         (render 200 (Editor \<lparr>ev_Name = ob_Name x, ev_ActionURL = actionURL, ev_AccessToken = token, ev_AccessTokenTTL = 0\<rparr>)))))))"

section \<open>The surface\<close>

datatype web_route =
    PageR | FragR | WDownloadR | PreviewR | DetailsR | EditR | TextEditorR | ZipR
  | WCreateFolderR | WRenameFolderR | WMoveFolderR | WDeleteFolderR
  | WUploadR | NewTextFileR | WRenameFileR | WMoveFileR | WDeleteFileR | TextSaveR

definition getRoutes :: "web_route list" where
  "getRoutes = [PageR, FragR, WDownloadR, PreviewR, DetailsR, EditR, TextEditorR, ZipR]"

text \<open>The methods a pattern matches: \<open>GET\<close> patterns also match \<open>HEAD\<close>.\<close>

definition routeMethods :: "web_route \<Rightarrow> string list" where
  "routeMethods route = (if route \<in> set getRoutes then [''GET'', ''HEAD''] else [''POST''])"

definition webHandler :: "web_app \<Rightarrow> web_route \<Rightarrow> web_request \<Rightarrow> web_response webio" where
  "webHandler A route = (case route of
     PageR \<Rightarrow> webPage A | FragR \<Rightarrow> webFrag A | WDownloadR \<Rightarrow> webDownload A | PreviewR \<Rightarrow> webPreview A
   | DetailsR \<Rightarrow> webDetails A | EditR \<Rightarrow> webEdit A | TextEditorR \<Rightarrow> webTextEditor A | ZipR \<Rightarrow> webZip A
   | WCreateFolderR \<Rightarrow> webCreateFolder A | WRenameFolderR \<Rightarrow> webRenameFolder A | WMoveFolderR \<Rightarrow> webMoveFolder A
   | WDeleteFolderR \<Rightarrow> webDeleteFolder A | WUploadR \<Rightarrow> webUpload A | NewTextFileR \<Rightarrow> webNewTextFile A
   | WRenameFileR \<Rightarrow> webRenameFile A | WMoveFileR \<Rightarrow> webMoveFile A | WDeleteFileR \<Rightarrow> webDeleteFile A | TextSaveR \<Rightarrow> webTextSave A)"

definition contentSecurityPolicy :: "string \<Rightarrow> string" where
  "contentSecurityPolicy officeURL =
    (let (frameSrc, formAction) =
       (if officeURL \<noteq> [] then (officeURL, CHR 0x27 # ''self'' @ CHR 0x27 # '' '' @ officeURL)
        else (CHR 0x27 # ''none'' @ [CHR 0x27], CHR 0x27 # ''self'' @ [CHR 0x27]))
     in ''default-src '' @ CHR 0x27 # ''self'' @ CHR 0x27 # ''; '' @
        ''script-src '' @ CHR 0x27 # ''self'' @ CHR 0x27 # '' '' @ CHR 0x27 # ''unsafe-eval'' @ CHR 0x27 # ''; '' @
        ''style-src '' @ CHR 0x27 # ''self'' @ CHR 0x27 # '' '' @ CHR 0x27 # ''unsafe-inline'' @ CHR 0x27 # ''; '' @
        ''img-src '' @ CHR 0x27 # ''self'' @ CHR 0x27 # '' data:; '' @
        ''font-src '' @ CHR 0x27 # ''self'' @ CHR 0x27 # ''; '' @
        ''connect-src '' @ CHR 0x27 # ''self'' @ CHR 0x27 # ''; '' @
        ''object-src '' @ CHR 0x27 # ''none'' @ CHR 0x27 # ''; '' @
        ''base-uri '' @ CHR 0x27 # ''self'' @ CHR 0x27 # ''; '' @
        ''frame-src '' @ frameSrc @ ''; form-action '' @ formAction @
        ''; frame-ancestors '' @ CHR 0x27 # ''none'' @ [CHR 0x27])"

definition cspMiddleware :: "string \<Rightarrow> (web_request \<Rightarrow> web_response webio) \<Rightarrow> web_request \<Rightarrow> web_response webio" where
  "cspMiddleware csp handler r = bnd (handler r) (\<lambda>resp. ret (withHeaders [(''Content-Security-Policy'', csp)] resp))"

definition browser :: "web_app \<Rightarrow> string \<Rightarrow> web_route \<Rightarrow> web_request \<Rightarrow> web_response webio" where
  "browser A publicURL route =
    Middleware (wa_rp A)
      (SameOriginGuard publicURL (cspMiddleware (contentSecurityPolicy (wa_office A)) (webHandler A route)))
      (RedirectToLogin ''/auth/login'')"

section \<open>What the read routes can change\<close>

definition tokenless :: "(kamara_db world \<Rightarrow> bool) \<Rightarrow> bool" where
  "tokenless I \<longleftrightarrow> faultless I \<and> randless I \<and> (\<forall>w f. I (w\<lparr>w_db := (w_db w)\<lparr>wopi_sessions := f\<rparr>\<rparr>) = I w)"

lemma tokenlessD: "tokenless I \<Longrightarrow> faultless I" "tokenless I \<Longrightarrow> randless I"
  by (simp_all add: tokenless_def)

lemma keeps_Mint: "tokenless I \<Longrightarrow> keeps I (Mint E u i cw)"
  unfolding Mint_def wopiPut_def wopiDeleteExpired_def
  by (intro keeps_rules) (auto simp: tokenless_def dropSessions_def split: if_splits option.splits)

text \<open>An assertion on the world beside the fact that no login session has been added.\<close>

definition within :: "oidc_session sstore \<Rightarrow> web_state \<Rightarrow> bool" where
  "within c s \<longleftrightarrow> st_ttl (rp_sessions s) = st_ttl c \<and> st_items (rp_sessions s) \<subseteq>\<^sub>m st_items c"

abbreviation onSite :: "('w \<Rightarrow> bool) \<Rightarrow> oidc_session sstore \<Rightarrow> 'w \<times> web_state \<Rightarrow> bool" where
  "onSite I c \<equiv> \<lambda>p. I (fst p) \<and> within c (snd p)"

lemma within_refl [simp]: "within (rp_sessions s) s"
  by (simp add: within_def)

lemma keeps_site: "keeps I m \<Longrightarrow> keeps (onSite I c) (lift m)"
  by (rule keepsI) (auto simp: lift_def dest: keepsD split: prod.split)

lemma keeps_SessionOf: "keeps (onSite I c) (SessionOf R r)"
  unfolding SessionOf_def getSession_def
  by (intro keeps_option keeps_ret keepsI)
    (auto simp: within_def GetSession_def map_le_def dom_def split: prod.splits option.splits if_splits)

lemma keeps_webCaller: "keeps (onSite I c) (webCaller A r)"
  unfolding webCaller_def by (intro keeps_bnd keeps_SessionOf keeps_ret)

lemma keeps_webAuthed [keeps_rules]: "(\<And>u. keeps (onSite I c) (k u)) \<Longrightarrow> keeps (onSite I c) (webAuthed A r k)"
  unfolding webAuthed_def by (intro keeps_bnd keeps_webCaller keeps_option keeps_ret)

lemma keeps_orLogin [keeps_rules]: "(\<And>u. keeps (onSite I c) (k u)) \<Longrightarrow> keeps (onSite I c) (orLogin A r k)"
  unfolding orLogin_def by (intro keeps_bnd keeps_webCaller keeps_option keeps_ret)

lemma keeps_orFail [keeps_rules]: "keeps I m \<Longrightarrow> (\<And>x. keeps (onSite I c) (k x)) \<Longrightarrow> keeps (onSite I c) (orFail m k)"
  unfolding orFail_def by (intro keeps_attempt keeps_site keeps_ret)

lemma keeps_buffered: "keeps (onWorld I) m \<Longrightarrow> keeps I (buffered m)"
proof (rule keepsI)
  fix w assume "keeps (onWorld I) m" "I w"
  then show "I (snd (buffered m w))"
    using keepsD [of "onWorld I" m "(w, [])"] by (auto simp: buffered_def split: prod.split sum.split)
qed

lemma keeps_resolveEditor: "keeps (onSite I c) (resolveEditor A ext src)"
  by (rule keepsI) (auto simp: resolveEditor_def within_def split: prod.split)

lemma keeps_viewOf: "faultless I \<Longrightarrow> keeps I (viewOf A u f)"
  unfolding viewOf_def by (intro keeps_bnd keeps_if keeps_reads keeps_ret)

lemma keeps_get_routes:
  assumes "tokenless I" "onFS (sv_blobs (wa_svc A))" "route \<in> set getRoutes"
  shows "keeps (onSite I c) (webHandler A route r)"
proof -
  note f = tokenlessD(1) [OF assms(1)]
  have "keeps (onSite I c) (webPage A r)" "keeps (onSite I c) (webFrag A r)"
    unfolding webPage_def webFrag_def by (intro keeps_orLogin keeps_webAuthed keeps_orFail keeps_viewOf keeps_ret f)+
  moreover have "keeps (onSite I c) (webDownload A r)" "keeps (onSite I c) (webPreview A r)"
    unfolding webDownload_def webPreview_def
    by (intro keeps_orLogin keeps_webAuthed keeps_orFail keeps_reads keeps_if keeps_bnd keeps_site keeps_streamBody keeps_Download keeps_ret f assms(2))+
  moreover have "keeps (onSite I c) (webDetails A r)"
    unfolding webDetails_def by (intro keeps_webAuthed keeps_orFail keeps_reads keeps_let keeps_ret f)
  moreover have "keeps (onSite I c) (webEdit A r)"
    unfolding webEdit_def
    by (intro keeps_orLogin keeps_if keeps_orFail keeps_attempt keeps_site keeps_Mint keeps_reads keeps_let keeps_resolveEditor keeps_ret f assms(1))
  moreover have "keeps (onSite I c) (webTextEditor A r)"
    unfolding webTextEditor_def
    by (intro keeps_orLogin keeps_orFail keeps_reads keeps_if keeps_buffered keeps_Download keeps_ret f assms(2))
  moreover have "keeps (onSite I c) (webZip A r)"
    unfolding webZip_def
    by (intro keeps_orLogin keeps_let keeps_orFail keeps_if keeps_bnd keeps_site keeps_streamBody keeps_DownloadZip keeps_reads keeps_ret f assms(2))
  ultimately show ?thesis using assms(3) by (auto simp: getRoutes_def webHandler_def)
qed

section \<open>Properties\<close>

text \<open>What the same-origin guard takes for a request of this site.\<close>

definition sameOrigin :: "string \<Rightarrow> web_request \<Rightarrow> bool" where
  "sameOrigin self r \<longleftrightarrow> wr_Header r ''Sec-Fetch-Site'' \<in> {''same-origin'', ''none''} \<or>
     wr_Header r ''Sec-Fetch-Site'' \<notin> {''same-site'', ''cross-site''} \<and> wr_Header r ''Origin'' \<in> {[], self}"

text \<open>C24. The browser surface is guarded. A request without a live session is redirected to the login and
  changes nothing. With one, under every fault schedule: the routes that the guard lets through from
  any origin (the \<open>GET\<close> patterns) change no file, folder, version, audit, search or authorization data, at most
  the office-editing sessions; and on every other route a request that is not of the same origin is
  answered with 403 and changes nothing.\<close>

theorem browser_guarded:
  assumes m: "wr_Method r \<in> set (routeMethods route)" and S: "wa_svc A = onDisk root V"
    and run: "browser A self route r (w, s) = (res, (w', s'))"
  shows "(fst (SessionOf (wa_rp A) r (w, s)) = Inr None \<longrightarrow> res = Inr (Redirect ''/auth/login'' 302) \<and> w' = w) \<and>
    (route \<in> set getRoutes \<longrightarrow> (w_db w')\<lparr>wopi_sessions := t\<rparr> = (w_db w)\<lparr>wopi_sessions := t\<rparr> \<and> w_fga w' = w_fga w \<and> w_fs w' = w_fs w) \<and>
    (route \<notin> set getRoutes \<and> \<not> sameOrigin self r \<longrightarrow>
       w' = w \<and> (res = Inr (Redirect ''/auth/login'' 302) \<or> res = Inr (httpError ''cross-origin request rejected'' 403)))"
proof -
  let ?csp = "contentSecurityPolicy (wa_office A)"
  obtain v w1 s1 where v: "SessionOf (wa_rp A) r (w, s) = (v, (w1, s1))" by (metis prod.exhaust)
  have w1: "w1 = w" using keepsD2 [OF keeps_SessionOf [where I = "\<lambda>u. u = w" and c = "rp_sessions s"] _ v] by simp
  obtain x where x: "v = Inr x" using v by (auto simp: SessionOf_def getSession_def ret_apply split: option.splits prod.splits)
  have none: "res = Inr (Redirect ''/auth/login'' 302) \<and> w' = w" if "x = None"
    using run v x that w1 by (auto simp: browser_def Middleware_def bnd_apply RedirectToLogin_def ret_apply)
  have guard: "w' = w \<and> (res = Inr (Redirect ''/auth/login'' 302) \<or> res = Inr (httpError ''cross-origin request rejected'' 403))"
    if "route \<notin> set getRoutes" "\<not> sameOrigin self r"
  proof (cases x)
    case None
    then show ?thesis using none by simp
  next
    case (Some y)
    have "wr_Method r = ''POST''" using m that(1) by (simp add: routeMethods_def)
    then have "SameOriginGuard self (cspMiddleware ?csp (webHandler A route)) r = ret (httpError ''cross-origin request rejected'' 403)"
      using that(2) by (auto simp: SameOriginGuard_def sameOrigin_def Let_def)
    then show ?thesis using run v x Some w1 by (auto simp: browser_def Middleware_def bnd_apply ret_apply)
  qed
  have get: "(w_db w')\<lparr>wopi_sessions := t\<rparr> = (w_db w)\<lparr>wopi_sessions := t\<rparr> \<and> w_fga w' = w_fga w \<and> w_fs w' = w_fs w"
    if "route \<in> set getRoutes"
  proof -
    let ?I = "\<lambda>u. (w_db u)\<lparr>wopi_sessions := t\<rparr> = (w_db w)\<lparr>wopi_sessions := t\<rparr> \<and> w_fga u = w_fga w \<and> w_fs u = w_fs w"
    have "keeps (onSite ?I (rp_sessions s)) (browser A self route r)"
      unfolding browser_def Middleware_def SameOriginGuard_def cspMiddleware_def RedirectToLogin_def
      by (intro keeps_bnd keeps_SessionOf keeps_if keeps_let keeps_ret keeps_get_routes that)
        (simp_all add: tokenless_def faultless_def randless_def S)
    from keepsD2 [OF this _ run] show ?thesis by simp
  qed
  show ?thesis using none guard get v x by auto
qed

section \<open>Witnesses\<close>

definition demoApp :: web_app where
  "demoApp = \<lparr>wa_svc = demoSvc, wa_rp = demoRP, wa_instance = ''demo'', wa_sessions = demoSessions, wa_engine = demoEngine,
     wa_office = [], wa_wopiSrcBase = []\<rparr>"

definition demoWeb :: web_state where
  "demoWeb = \<lparr>rp_sessions = rp_sessions (demoLoggedIn (demoWorld emptyDb)), rp_logins = rp_logins (demoLoggedIn (demoWorld emptyDb)),
     wb_discovery = NewDiscovery\<rparr>"

definition crossSite :: web_request where
  "crossSite = (demoBrowser (demoWorld emptyDb))\<lparr>wr_Method := ''POST'', wr_ID := ''x'',
     wr_Header := \<lambda>h. if h = ''Sec-Fetch-Site'' then ''cross-site'' else []\<rparr>"

theorem browser_guarded_witness:
  "\<exists>res s'. browser demoApp ''https://k'' WDeleteFileR crossSite (demoWorld emptyDb, demoWeb) = (res, (demoWorld emptyDb, s')) \<and>
     (res = Inr (Redirect ''/auth/login'' 302) \<or> res = Inr (httpError ''cross-origin request rejected'' 403))"
proof -
  obtain res w' s' where run: "browser demoApp ''https://k'' WDeleteFileR crossSite (demoWorld emptyDb, demoWeb) = (res, (w', s'))"
    by (metis prod.exhaust)
  have m: "wr_Method crossSite \<in> set (routeMethods WDeleteFileR)" by (simp add: crossSite_def routeMethods_def getRoutes_def)
  have S: "wa_svc demoApp = onDisk ''/data'' demoSvc" by (simp add: demoApp_def)
  have "\<not> sameOrigin ''https://k'' crossSite" "WDeleteFileR \<notin> set getRoutes" by (simp_all add: sameOrigin_def crossSite_def getRoutes_def)
  then show ?thesis using browser_guarded [OF m S run] run by auto
qed

end
