(* ===== verification/Handlers.thy ===== *)
theory Handlers
  imports Web
begin

text \<open>
  What the three front doors (the API, the office endpoints and the browser surface) rely on of the file
  service, as a locale: an assertion on the world that the mutations of the service keep is kept by
  every handler. The handlers are walked through once, here.
\<close>

text \<open>The bodies of a request make progress: no read returns nothing without an error.\<close>

definition steadyWeb :: "web_request \<Rightarrow> bool" where
  "steadyWeb r \<longleftrightarrow> (\<forall>n ps e. wr_Multipart r n = Some (ps, e) \<longrightarrow> (\<forall>p \<in> set ps. progressing (pt_Body p)))"

locale service_contract =
  fixes S :: svc and J :: "kamara_db world \<Rightarrow> bool"
  assumes J_tokenless: "tokenless J"
    and S_disk: "onFS (sv_blobs S)"
    and keeps_Upload: "progressing r \<Longrightarrow> keeps J (Upload S u fid name r)"
    and keeps_writeVersion: "progressing r \<Longrightarrow> keeps J (writeVersion S u i r base)"
    and keeps_DeleteFile: "keeps J (DeleteFile S u i)"
    and keeps_CreateFolder: "keeps J (CreateFolder S u fid name)"
    and keeps_RenameFile: "keeps J (RenameFile S u i name)"
    and keeps_MoveFile: "keeps J (MoveFile S u i fid)"
    and keeps_RenameFolder: "keeps J (RenameFolder S u i name)"
    and keeps_MoveFolder: "keeps J (MoveFolder S u i fid)"
    and keeps_DeleteFolder: "keeps J (DeleteFolder S u i)"
    and keeps_DeleteFolderTree: "keeps J (DeleteFolderTree S u i)"
begin

lemmas J_faultless = tokenlessD(1) [OF J_tokenless]

lemmas mutations = keeps_Upload keeps_writeVersion keeps_DeleteFile keeps_CreateFolder keeps_RenameFile keeps_MoveFile
  keeps_RenameFolder keeps_MoveFolder keeps_DeleteFolder keeps_DeleteFolderTree

lemmas streams = keeps_streamBody [OF keeps_Download [OF J_faultless S_disk]] keeps_streamBody [OF keeps_DownloadZip [OF J_faultless S_disk]]
  keeps_buffered [OF keeps_Download [OF J_faultless S_disk]]

lemmas reads = keeps_reads [OF J_faultless] keeps_viewOf [OF J_faultless]

lemma keeps_noContent: "keeps J m \<Longrightarrow> keeps J (noContent m)"
  unfolding noContent_def by (intro keeps_attempt keeps_ret)

lemma keeps_decoded: "(\<And>x. keeps J (m x)) \<Longrightarrow> keeps J (decoded d m)"
  unfolding decoded_def by (intro keeps_sum keeps_noContent keeps_ret)

lemma keeps_apiHandler:
  assumes b: "progressing (rq_Body r)"
  shows "keeps J (apiHandler S n route r u)"
proof -
  have m: "progressing (MaxBytesReader (rq_Body r) n)" using b by simp
  have "keeps J (apiUpload S n r u)" "keeps J (apiPutContent S n r u)"
    unfolding apiUpload_def apiPutContent_def WriteVersion_def
    by (intro keeps_let keeps_if keeps_attempt mutations reads keeps_ret m)+
  moreover have "keeps J (apiList S r u)" "keeps J (apiGet S r u)" "keeps J (apiDownload S r u)" "keeps J (apiListVersions S r u)"
    "keeps J (apiListChildren S r u)" "keeps J (apiGetFolder S r u)" "keeps J (apiDownloadZip S r u)"
    unfolding apiList_def apiGet_def apiDownload_def apiListVersions_def apiListChildren_def apiGetFolder_def apiDownloadZip_def
    by (intro keeps_attempt keeps_bnd reads streams keeps_ret)+
  moreover have "keeps J (apiDelete S r u)" "keeps J (apiRenameFile S r u)" "keeps J (apiMoveFile S r u)"
    "keeps J (apiRenameFolder S r u)" "keeps J (apiMoveFolder S r u)" "keeps J (apiDeleteFolder S r u)" "keeps J (apiCreateFolder S r u)"
    unfolding apiDelete_def apiRenameFile_def apiMoveFile_def apiRenameFolder_def apiMoveFolder_def apiDeleteFolder_def apiCreateFolder_def
    by (auto intro!: keeps_noContent keeps_decoded keeps_attempt mutations keeps_ret simp: Let_def)
  ultimately show ?thesis by (cases route) (simp_all add: apiHandler_def)
qed

lemma keeps_wopiRoutes:
  assumes b: "progressing (rq_Body r)"
  shows "keeps J (wopiRoutes E S n route r)"
proof -
  have m: "progressing (MaxBytesReader (rq_Body r) n)" using b by simp
  have w: "keeps J (wopiSession E r nxt)" if "\<And>s. keeps J (nxt s)" for nxt
    unfolding wopiSession_def by (intro keeps_attempt keeps_Validate keeps_if keeps_ret J_faultless that)
  have "keeps J (checkFileInfo S s)" "keeps J (wopiGetFile S s)" "keeps J (wopiPutFile S n r s)" for s
    unfolding checkFileInfo_def wopiGetFile_def wopiPutFile_def WriteVersion_def
    by (intro keeps_let keeps_if keeps_attempt keeps_bnd mutations reads streams keeps_ret m)+
  then show ?thesis unfolding wopiRoutes_def by (cases route) (simp_all add: w)
qed

lemma keeps_thenListing: "wa_svc A = S \<Longrightarrow> (\<And>u. keeps J (m u)) \<Longrightarrow> keeps (onSite J c) (thenListing A r m)"
  unfolding thenListing_def renderAt_def by (intro keeps_webAuthed keeps_orFail reads keeps_ret)

lemma keeps_uploadPart:
  assumes "\<forall>p \<in> set ps. progressing (pt_Body p)"
  shows "keeps J (uploadPart S u fid e ps)"
  using assms
proof (induction ps)
  case Nil
  show ?case unfolding uploadPart.simps by (intro keeps_option keeps_ret keeps_fail)
next
  case (Cons p ps)
  then show ?case unfolding uploadPart.simps by (intro keeps_if keeps_bnd keeps_Upload keeps_ret) simp_all
qed

lemma progressing_stringReader [simp]: "progressing (stringReader s)"
  by (simp add: progressing_def stringReader_def bytesOf_def)

lemma keeps_webHandler:
  assumes A: "wa_svc A = S" and b: "steadyWeb r"
  shows "keeps (onSite J c) (webHandler A route r)"
proof (cases "route \<in> set getRoutes")
  case True
  then show ?thesis using A S_disk by (intro keeps_get_routes J_tokenless) simp_all
next
  case False
  have "keeps (onSite J c) (webCreateFolder A r)" "keeps (onSite J c) (webRenameFile A r)" "keeps (onSite J c) (webMoveFile A r)"
    "keeps (onSite J c) (webDeleteFile A r)" "keeps (onSite J c) (webRenameFolder A r)" "keeps (onSite J c) (webMoveFolder A r)"
    "keeps (onSite J c) (webDeleteFolder A r)"
    unfolding webCreateFolder_def webRenameFile_def webMoveFile_def webDeleteFile_def webRenameFolder_def webMoveFolder_def webDeleteFolder_def A
    by (intro keeps_thenListing A mutations)+
  moreover have "keeps (onSite J c) (webUpload A r)"
  proof -
    have "keeps J (uploadPart S u f e ps)" if "wr_Multipart r n = Some (ps, e)" for u f e ps n
      by (rule keeps_uploadPart) (use b that in \<open>auto simp: steadyWeb_def\<close>)
    then show ?thesis
      unfolding webUpload_def renderAt_def A
      by (auto intro!: keeps_webAuthed keeps_option keeps_orFail reads keeps_ret split: prod.split)
  qed
  moreover have "keeps (onSite J c) (webNewTextFile A r)"
    unfolding webNewTextFile_def A by (intro keeps_webAuthed keeps_let keeps_if keeps_orFail keeps_Upload keeps_ret progressing_stringReader)
  moreover have "keeps (onSite J c) (webTextSave A r)"
    unfolding webTextSave_def WriteVersionAt_def A
    by (intro keeps_webAuthed keeps_orFail reads keeps_if keeps_prod keeps_option keeps_let keeps_attempt keeps_site keeps_writeVersion keeps_ret
        progressing_stringReader)
  ultimately show ?thesis using False by (cases route) (simp_all add: webHandler_def getRoutes_def)
qed

lemma keeps_browser:
  assumes "wa_svc A = S" "steadyWeb r"
  shows "keeps (onSite J c) (browser A self route r)"
  unfolding browser_def Middleware_def SameOriginGuard_def cspMiddleware_def RedirectToLogin_def
  by (intro keeps_bnd keeps_SessionOf keeps_if keeps_let keeps_ret keeps_webHandler assms)

end

end
