(* ===== verification/Subject_Data.thy ===== *)
theory Subject_Data
  imports Folder_Spec
begin

text \<open>
  Export and erasure of a person's files and folders, \<open>kamara/internal/file/subject_data.go\<close>. The
  erasure is not one transaction: it issues its statements one by one. The theory shows that it keeps
  the tables and the blobs consistent wherever it stops (with counts that may be too high, never too
  low), that it completes in a calm world, and that nothing can be exported once it has.
\<close>

section \<open>Export\<close>

record file_entry =
  fx_id :: string
  fx_name :: string
  fx_size :: int
  fx_folder :: "string option"
  fx_created :: int
  fx_permalink :: string

record folder_entry =
  dx_id :: string
  dx_name :: string
  dx_parent :: "string option"
  dx_created :: int
  dx_permalink :: string

record file_export =
  ex_files :: "file_entry list"
  ex_folders :: "folder_entry list"

definition fileEntry :: "object \<Rightarrow> file_entry" where
  "fileEntry x = \<lparr>fx_id = ob_ID x, fx_name = ob_Name x, fx_size = ob_Size x, fx_folder = ob_FolderID x,
     fx_created = ob_Created x, fx_permalink = Permalink (ob_ID x)\<rparr>"

definition folderEntry :: "folder \<Rightarrow> folder_entry" where
  "folderEntry f = \<lparr>dx_id = fo_ID f, dx_name = fo_Name f, dx_parent = fo_ParentID f,
     dx_created = fo_Created f, dx_permalink = FolderPermalink (fo_ID f)\<rparr>"

definition ExportFiles :: "subject \<Rightarrow> file_export option kamara" where
  "ExportFiles s =
    bnd (ByOwner s) (\<lambda>objs.
    bnd (FoldersByOwner s) (\<lambda>fs.
    if objs = [] \<and> fs = [] then ret None
    else ret (Some \<lparr>ex_files = map fileEntry objs, ex_folders = map folderEntry fs\<rparr>)))"

section \<open>The order of the folders\<close>

text \<open>The map \<open>byID\<close>: a later entry of the list replaces an earlier one with the same identifier.\<close>

definition byID :: "folder list \<Rightarrow> string \<rightharpoonup> folder" where
  "byID fs = map_of (rev (map (\<lambda>f. (fo_ID f, f)) fs))"

lemma dom_byID: "dom (byID fs) = fo_ID ` set fs"
  by (force simp: byID_def dom_map_of_conv_image_fst)

lemma byID_SomeD: "byID fs i = Some p \<Longrightarrow> p \<in> set fs \<and> fo_ID p = i"
  by (auto simp: byID_def dest!: map_of_SomeD)

text \<open>The loop of \<open>depth\<close>, with its guard against a malformed cycle.\<close>

function depthLoop :: "folder list \<Rightarrow> string option \<Rightarrow> string list \<Rightarrow> int \<Rightarrow> int" where
  "depthLoop fs None seen n = n"
| "depthLoop fs (Some i) seen n =
    (if i \<in> set seen then n
     else case byID fs i of None \<Rightarrow> n | Some p \<Rightarrow> depthLoop fs (fo_ParentID p) (i # seen) (n + 1))"
  by pat_completeness auto
termination
proof (relation "measure (\<lambda>(fs, _, seen, _). card (fo_ID ` set fs - set seen))", goal_cases)
  case (2 fs i seen n p)
  have "i \<in> fo_ID ` set fs" using byID_SomeD [OF 2(2)] by auto
  then have "fo_ID ` set fs - set (i # seen) \<subset> fo_ID ` set fs - set seen" using 2(1) by auto
  then show ?case by (simp add: psubset_card_mono del: list.set)
qed simp

definition depth :: "folder list \<Rightarrow> folder \<Rightarrow> int" where
  "depth fs f = depthLoop fs (fo_ParentID f) [fo_ID f] 0"

text \<open>\<open>sort.SliceStable\<close> by decreasing depth.\<close>

definition deepestFirst :: "folder list \<Rightarrow> folder list" where
  "deepestFirst fs = sort_key (\<lambda>f. - depth fs f) fs"

section \<open>Erasure\<close>

definition eraseFile :: "svc \<Rightarrow> subject \<Rightarrow> object \<Rightarrow> unit kamara" where
  "eraseFile S s x =
    bnd (ChunkHashesOf (ob_ID x)) (\<lambda>hashes.
    bnd (DeleteObject (ob_ID x)) (\<lambda>_.
    bnd (DecRef hashes) (\<lambda>orphans.
    bnd (DeleteChunks orphans) (\<lambda>_.
    bnd (foreach (\<lambda>h. ignore (bs_Delete (sv_blobs S) h)) orphans) (\<lambda>_.
    bnd (Remove (ob_ID x)) (\<lambda>_.
    bnd (unlinkFolder S (ob_FolderID x) (fileObj (ob_ID x))) (\<lambda>_.
    DeleteTuple (sv_fga S) s Relation (fileObj (ob_ID x)))))))))"

definition eraseFolder :: "svc \<Rightarrow> subject \<Rightarrow> folder \<Rightarrow> unit kamara" where
  "eraseFolder S s f =
    bnd (DeleteFolderRow (fo_ID f)) (\<lambda>_.
    bnd (Remove (fo_ID f)) (\<lambda>_.
    bnd (unlinkFolder S (fo_ParentID f) (folderObj (fo_ID f))) (\<lambda>_.
    DeleteTuple (sv_fga S) s Relation (folderObj (fo_ID f)))))"

definition EraseFiles :: "svc \<Rightarrow> subject \<Rightarrow> unit kamara" where
  "EraseFiles S s =
    bnd (ByOwner s) (\<lambda>objs.
    bnd (foreach (eraseFile S s) objs) (\<lambda>_.
    bnd (FoldersByOwner s) (\<lambda>fs.
    foreach (eraseFolder S s) (deepestFirst fs))))"

section \<open>Consistency under every fault schedule\<close>

text \<open>A statement with an error reported has run or has not.\<close>

lemma hoare_exec_err:
  assumes "hoare (\<lambda>w. R (w_db w)) (exec f) (\<lambda>_ w. Q (w_db w)) (\<lambda>_ _. True)"
    and "\<And>d. R d \<Longrightarrow> G d" "\<And>d. Q d \<Longrightarrow> G d"
  shows "hoare (\<lambda>w. R (w_db w)) (exec f) (\<lambda>_ w. Q (w_db w)) (\<lambda>_ w. G (w_db w))"
proof (rule hoareI)
  fix w e w' assume R: "R (w_db w)" and r: "exec f w = (Inl e, w')"
  from exec_outcome [OF r] consider "w_db w' = w_db w" | d where "f (w_now w) (w_db w) = Inr d" "w_db w' = d" by auto
  then show "G (w_db w')"
  proof cases
    case 2
    then have "exec f (w\<lparr>w_faults := []\<rparr>) = (Inr (), w\<lparr>w_faults := [], w_db := d\<rparr>)" by simp
    from hoareD(1) [OF assms(1) _ this] R 2 show ?thesis using assms(3) by simp
  qed (use R assms(2) in simp)
qed (use hoareD(1) [OF assms(1)] in blast)

lemma giving_good: "giving False X hs todo d \<Longrightarrow> good False X noSlack d"
  unfolding giving_def good_def cnt_def noSlack_def
  by (auto split: if_splits) (metis dual_order.trans le_add_same_cancel1 of_nat_0_le_iff)+

lemma given_good: "given False X os d \<Longrightarrow> good False X noSlack d"
  by (simp add: given_def good_def)

abbreviation loose :: "string set \<Rightarrow> kamara_db \<Rightarrow> bool" where
  "loose X d \<equiv> good False X noSlack d"

lemma loose_DeleteObject:
  "hoare (\<lambda>w. loose X (w_db w) \<and> hs = hashesOf (w_db w) i) (DeleteObject i)
     (\<lambda>_ w. giving False X hs (remdups hs) (w_db w)) (\<lambda>_ w. loose X (w_db w))"
  unfolding DeleteObject_def
  by (rule hoare_exec_err [where R = "\<lambda>d. loose X d \<and> hs = hashesOf d i", OF hoare_db]) (auto intro: giving_start giving_good)

lemma loose_decOnes:
  "distinct todo \<Longrightarrow> set todo \<subseteq> set hs \<Longrightarrow>
   hoare (\<lambda>w. giving False X hs todo (w_db w)) (foreach (\<lambda>h. decOne h (int (count_list hs h))) todo)
     (\<lambda>_ w. giving False X hs [] (w_db w)) (\<lambda>_ w. loose X (w_db w))"
proof (induction todo)
  case Nil
  show ?case by (simp add: hoare_def run)
next
  case (Cons h todo)
  have "hoare (\<lambda>w. giving False X hs (h # todo) (w_db w)) (decOne h (int (count_list hs h)))
      (\<lambda>_ w. giving False X hs todo (w_db w)) (\<lambda>_ w. loose X (w_db w))"
    unfolding decOne_def
    by (rule hoare_exec_err [OF hoare_db]) (use Cons.prems giving_decOne giving_good in \<open>auto simp del: map_option_case\<close>)
  with Cons show ?case by (auto intro: hoare_bnd)
qed

lemma hoare_query_err:
  assumes "\<And>d. R d \<Longrightarrow> Q (f d) d" "\<And>d. R d \<Longrightarrow> G d"
  shows "hoare (\<lambda>w. R (w_db w)) (query f) (\<lambda>x w. Q x (w_db w)) (\<lambda>_ w. G (w_db w))"
  by (rule hoareI) (use assms in \<open>auto dest!: query_outcome\<close>)

lemma loose_DecRef:
  "hoare (\<lambda>w. giving False X hs (remdups hs) (w_db w)) (DecRef hs)
     (\<lambda>os w. given False X os (w_db w)) (\<lambda>_ w. loose X (w_db w))"
proof (cases "hs = []")
  case True
  then show ?thesis by (simp add: DecRef_def hoare_def run giving_def given_def noSlack_def [abs_def])
next
  case False
  show ?thesis
    unfolding DecRef_def if_not_P [OF False]
    by (rule hoare_bnd [OF loose_decOnes hoare_query_err]) (auto intro: giving_given giving_good)
qed

lemma loose_DeleteChunks:
  "hoare (\<lambda>w. given False X os (w_db w)) (DeleteChunks os)
     (\<lambda>_ w. loose X (w_db w) \<and> set os \<inter> dom (chunks (w_db w)) = {}) (\<lambda>_ w. loose X (w_db w))"
proof (cases "os = []")
  case True
  then show ?thesis by (simp add: DeleteChunks_def hoare_def run given_def good_def)
next
  case False
  show ?thesis
    using hoare_DeleteChunks [of False X os] unfolding DeleteChunks_def if_not_P [OF False]
    by (rule hoare_exec_err) (auto intro: given_good)
qed

lemma loose_reclaim:
  "hoare (\<lambda>w. loose X (w_db w)) (bnd (ChunkHashesOf i) (\<lambda>hs. bnd (DeleteObject i) (\<lambda>_. bnd (DecRef hs) (\<lambda>os.
       bnd (DeleteChunks os) (\<lambda>_. ret os)))))
     (\<lambda>os w. loose X (w_db w) \<and> set os \<inter> dom (chunks (w_db w)) = {}) (\<lambda>_ w. loose X (w_db w))"
proof -
  have q: "hoare (\<lambda>w. loose X (w_db w)) (ChunkHashesOf i) (\<lambda>hs w. loose X (w_db w) \<and> hs = hashesOf (w_db w) i) (\<lambda>_ w. loose X (w_db w))"
    unfolding ChunkHashesOf_def by (rule hoare_query_err) auto
  show ?thesis
    by (intro hoare_bnd [OF q] hoare_bnd [OF loose_DeleteObject] hoare_bnd [OF loose_DecRef] hoare_bnd [OF loose_DeleteChunks])
      (simp add: hoare_def run)
qed

text \<open>The reclaiming statements of the erasure are those of \<open>reclaimObject\<close>, outside a transaction.\<close>

lemma eraseFile_reclaim:
  "eraseFile S s x = bnd (reclaimObject (ob_ID x)) (\<lambda>os.
     bnd (foreach (\<lambda>h. ignore (bs_Delete (sv_blobs S) h)) os) (\<lambda>_.
     bnd (Remove (ob_ID x)) (\<lambda>_.
     bnd (unlinkFolder S (ob_FolderID x) (fileObj (ob_ID x))) (\<lambda>_.
     DeleteTuple (sv_fga S) s Relation (fileObj (ob_ID x))))))"
  by (simp add: eraseFile_def reclaimObject_def bnd_assoc)

lemma keeps_loose_eraseFolder: "keeps (\<lambda>w. loose X (w_db w)) (eraseFolder S s f)"
proof -
  have "hoare (\<lambda>w. loose X (w_db w)) (exec (\<lambda>_ d. if i \<in> fo_ID ` set (folders d) \<and> folderBusy d i then Inl ErrForeignKey
        else Inr (d\<lparr>folders := filter (\<lambda>f. fo_ID f \<noteq> i) (folders d)\<rparr>))) (\<lambda>_ w. loose X (w_db w)) (\<lambda>_ w. loose X (w_db w))" for i
    by (rule hoare_exec_err [OF hoare_db]) (auto intro!: good_dropFolder split: if_splits)
  then have "keeps (\<lambda>w. loose X (w_db w)) (DeleteFolderRow i)" for i
    unfolding DeleteFolderRow_def by (intro keeps_catch keeps_fail) (simp add: keeps_def)
  then show ?thesis unfolding eraseFolder_def by (intro keeps_bnd keeps_good_conv keeps_link keeps_tuple_writes) simp_all
qed

context file_store
begin

lemma eraseFile_consistent: "keeps (\<lambda>w. consistent False V (blobs w) (w_db w)) (eraseFile V s x)"
proof -
  let ?I = "\<lambda>w. consistent False V (blobs w) (w_db w)"
  have rc: "hoare ?I (reclaimObject i) (\<lambda>os w. ?I w \<and> set os \<inter> dom (chunks (w_db w)) = {}) (\<lambda>_. ?I)" for i
    by (rule hoare_consistent [OF loose_reclaim [folded reclaimObject_def] keeps_fs_reclaim])
  have del: "hoare (\<lambda>w. ?I w \<and> set os \<inter> dom (chunks (w_db w)) = {})
      (foreach (\<lambda>h. ignore (bs_Delete (sv_blobs V) h)) os) (\<lambda>_. ?I) (\<lambda>_. ?I)" for os
    by (rule hoare_conseq [OF keeps_foreach [OF keeps_Delete_orphan, unfolded keeps_def]]) auto
  have tail: "keeps ?I (bnd (Remove (ob_ID x)) (\<lambda>_. bnd (unlinkFolder V (ob_FolderID x) (fileObj (ob_ID x))) (\<lambda>_.
      DeleteTuple (sv_fga V) s Relation (fileObj (ob_ID x)))))"
    by (rule keeps_consistent) (auto intro!: keeps_rules keeps_good_conv)
  show ?thesis
    unfolding eraseFile_reclaim keeps_def by (rule hoare_bnd [OF rc hoare_bnd [OF del tail [unfolded keeps_def]]])
qed

lemma eraseFolder_consistent: "keeps (\<lambda>w. consistent False V (blobs w) (w_db w)) (eraseFolder V s f)"
proof (rule keeps_consistent [OF keeps_loose_eraseFolder])
  show "keeps (\<lambda>w. w_fs w = g) (eraseFolder V s f)" for g
    unfolding eraseFolder_def DeleteFolderRow_def by (auto intro!: keeps_rules)
qed

lemma EraseFiles_consistent: "keeps (\<lambda>w. consistent False V (blobs w) (w_db w)) (EraseFiles V s)"
proof -
  let ?I = "\<lambda>w. consistent False V (blobs w) (w_db w)"
  have q: "keeps ?I (ByOwner s)" "keeps ?I (FoldersByOwner s)"
    unfolding ByOwner_def FoldersByOwner_def by (rule keeps_consistent; auto intro!: keeps_rules)+
  show ?thesis unfolding EraseFiles_def by (intro keeps_bnd q keeps_foreach eraseFile_consistent eraseFolder_consistent)
qed

end

section \<open>The order is deepest first\<close>

definition parentRel :: "folder list \<Rightarrow> (string \<times> string) set" where
  "parentRel fs = {(fo_ID f, p) | f p. f \<in> set fs \<and> fo_ParentID f = Some p}"

lemma depthLoop_seen:
  assumes "acyclic (parentRel fs)"
  shows "(\<And>j s. cur = Some j \<Longrightarrow> s \<in> set seen \<union> set seen' \<Longrightarrow> (s, j) \<in> (parentRel fs)\<^sup>+) \<Longrightarrow>
    depthLoop fs cur seen n - n = depthLoop fs cur seen' m - m"
  using assms
proof (induction fs cur seen n arbitrary: seen' m rule: depthLoop.induct)
  case (2 fs i seen n)
  have no: "i \<notin> set seen" "i \<notin> set seen'" using "2.prems" by (auto simp: acyclic_def)
  show ?case
  proof (cases "byID fs i")
    case None
    then show ?thesis using no by simp
  next
    case (Some p)
    have up: "(s, j) \<in> (parentRel fs)\<^sup>+" if "fo_ParentID p = Some j" "s \<in> set (i # seen) \<union> set (i # seen')" for j s
    proof -
      have "(i, j) \<in> parentRel fs" using byID_SomeD [OF Some] that(1) by (auto simp: parentRel_def)
      then show ?thesis using that(2) "2.prems"(1) [of i s] by auto
    qed
    show ?thesis using "2.IH" [OF no(1) Some, of "i # seen'" "m + 1", OF up "2.prems"(2)] Some no by simp
  qed
qed simp

lemma byID_distinct: "distinct (map fo_ID fs) \<Longrightarrow> f \<in> set fs \<Longrightarrow> byID fs (fo_ID f) = Some f"
  unfolding byID_def by (intro map_of_is_SomeI) (auto simp: rev_map [symmetric] comp_def)

lemma depth_child:
  assumes d: "distinct (map fo_ID fs)" and a: "acyclic (parentRel fs)"
    and f: "f \<in> set fs" and g: "g \<in> set fs" "fo_ParentID g = Some (fo_ID f)"
  shows "depth fs g = depth fs f + 1"
proof -
  have gf: "(fo_ID g, fo_ID f) \<in> parentRel fs" using g by (auto simp: parentRel_def)
  then have "fo_ID g \<noteq> fo_ID f" using a by (metis acyclic_def r_into_trancl)
  then have "depth fs g = depthLoop fs (fo_ParentID f) [fo_ID f, fo_ID g] 1"
    using g(2) byID_distinct [OF d f] by (simp add: depth_def)
  moreover have "depthLoop fs (fo_ParentID f) [fo_ID f, fo_ID g] 1 - 1 = depthLoop fs (fo_ParentID f) [fo_ID f] 0 - 0"
  proof (rule depthLoop_seen [OF a])
    fix j s assume j: "fo_ParentID f = Some j" and s: "s \<in> set [fo_ID f, fo_ID g] \<union> set [fo_ID f]"
    have "(fo_ID f, j) \<in> parentRel fs" using f j by (auto simp: parentRel_def)
    then show "(s, j) \<in> (parentRel fs)\<^sup>+" using s gf by auto
  qed
  ultimately show ?thesis by (simp add: depth_def)
qed

lemma depth_descendant:
  assumes d: "distinct (map fo_ID fs)" and a: "acyclic (parentRel fs)"
  shows "(i, j) \<in> (parentRel fs)\<^sup>+ \<Longrightarrow> g \<in> set fs \<Longrightarrow> fo_ID g = i \<Longrightarrow> f \<in> set fs \<Longrightarrow> fo_ID f = j \<Longrightarrow> depth fs f < depth fs g"
proof (induction arbitrary: f rule: trancl_induct)
  case (base j)
  have "fo_ParentID g = Some (fo_ID f)"
    using base d by (auto simp: parentRel_def dest: inj_onD [OF conjunct2 [OF d [unfolded distinct_map]]])
  then show ?case using depth_child [OF d a base.prems(3,1)] by simp
next
  case (step j k)
  then obtain h where h: "h \<in> set fs" "fo_ID h = j" "fo_ParentID h = Some (fo_ID f)" by (auto simp: parentRel_def)
  show ?case using step.IH [OF step.prems(1,2) h(1,2)] depth_child [OF d a step.prems(3) h(1,3)] by simp
qed

lemma deepestFirst_sorted:
  assumes "i \<le> j" "j < length fs"
  shows "depth fs (deepestFirst fs ! j) \<le> depth fs (deepestFirst fs ! i)"
  using sorted_nth_mono [of "map (\<lambda>f. - depth fs f) (deepestFirst fs)" i j] assms by (simp add: deepestFirst_def)

lemma deepestFirst_mset [simp]: "mset (deepestFirst fs) = mset fs" "set (deepestFirst fs) = set fs" "length (deepestFirst fs) = length fs"
  by (simp_all add: deepestFirst_def)

text \<open>The folders are reordered, none lost or repeated, and of folders with distinct identifiers and
  no parent cycle every descendant comes before each of its ancestors.\<close>

theorem deepestFirst_order:
  assumes "distinct (map fo_ID fs)" "acyclic (parentRel fs)" "i \<le> j" "j < length fs"
  shows "mset (deepestFirst fs) = mset fs \<and>
    (fo_ID (deepestFirst fs ! j), fo_ID (deepestFirst fs ! i)) \<notin> (parentRel fs)\<^sup>+"
proof
  show "mset (deepestFirst fs) = mset fs" by simp
  have mem: "deepestFirst fs ! j \<in> set fs" "deepestFirst fs ! i \<in> set fs"
    using assms(3,4) nth_mem [of _ "deepestFirst fs"] by (simp_all del: nth_mem)
  show "(fo_ID (deepestFirst fs ! j), fo_ID (deepestFirst fs ! i)) \<notin> (parentRel fs)\<^sup>+"
    using depth_descendant [OF assms(1,2) _ mem(1) refl mem(2) refl] deepestFirst_sorted [OF assms(3,4)] by fastforce
qed

section \<open>What a finished erasure leaves\<close>

lemma keeps_trees_tail:
  "keeps (\<lambda>w. objects (w_db w) = xs \<and> folders (w_db w) = fs) (Remove i)"
  "keeps (\<lambda>w. objects (w_db w) = xs \<and> folders (w_db w) = fs) (unlinkFolder S p c)"
  "keeps (\<lambda>w. objects (w_db w) = xs \<and> folders (w_db w) = fs) (DeleteTuple F s r c)"
  by (intro keeps_rules; simp add: aside_def convless_def pseudless_def faultless_def randless_def tupleless_def)+

lemma eraseFolder_effect:
  "hoare (\<lambda>w. objects (w_db w) = xs \<and> folders (w_db w) = fs) (eraseFolder S s f)
     (\<lambda>_ w. objects (w_db w) = xs \<and> folders (w_db w) = filter (\<lambda>g. fo_ID g \<noteq> fo_ID f) fs) (\<lambda>_ _. True)"
proof -
  have "hoare (\<lambda>w. objects (w_db w) = xs \<and> folders (w_db w) = fs) (DeleteFolderRow i)
     (\<lambda>_ w. objects (w_db w) = xs \<and> folders (w_db w) = filter (\<lambda>g. fo_ID g \<noteq> i) fs) (\<lambda>_ _. True)" for i
    unfolding DeleteFolderRow_def
    by (intro hoare_catch_true hoare_db [where R = "\<lambda>d. objects d = xs \<and> folders d = fs"
        and R' = "\<lambda>d. objects d = xs \<and> folders d = filter (\<lambda>g. fo_ID g \<noteq> i) fs"]) (auto split: if_splits)
  note rule = hoare_bnd [OF this]
  show ?thesis
    unfolding eraseFolder_def
    by (intro rule hoare_bnd [OF hoare_keeps_true [OF keeps_trees_tail(1)]] hoare_bnd [OF hoare_keeps_true [OF keeps_trees_tail(2)]]
        hoare_keeps_true [OF keeps_trees_tail(3)])
qed

lemma eraseFolders_effect:
  "hoare (\<lambda>w. objects (w_db w) = xs \<and> folders (w_db w) = fs) (foreach (eraseFolder S s) gs)
     (\<lambda>_ w. objects (w_db w) = xs \<and> folders (w_db w) = filter (\<lambda>g. fo_ID g \<notin> fo_ID ` set gs) fs) (\<lambda>_ _. True)"
proof (induction gs arbitrary: fs)
  case Nil
  show ?case by (simp add: hoare_def run)
next
  case (Cons f gs)
  show ?case
    unfolding foreach.simps by (rule hoare_conseq [OF hoare_bnd [OF eraseFolder_effect Cons.IH]]) (auto intro!: filter_cong)
qed

context file_store
begin

lemma eraseFile_effect:
  "hoare (\<lambda>w. objects (w_db w) = xs \<and> folders (w_db w) = fs) (eraseFile V s x)
     (\<lambda>_ w. objects (w_db w) = filter (\<lambda>y. ob_ID y \<noteq> ob_ID x) xs \<and> folders (w_db w) = fs) (\<lambda>_ _. True)"
proof -
  have rc: "hoare (\<lambda>w. objects (w_db w) = xs \<and> folders (w_db w) = fs) (reclaimObject i)
      (\<lambda>_ w. objects (w_db w) = filter (\<lambda>y. ob_ID y \<noteq> i) xs \<and> folders (w_db w) = fs) (\<lambda>_ _. True)" for i
    by (rule hoareI) (auto dest!: reclaimObject_effect simp: reclaimed_def dropObject_def)
  have "keeps (\<lambda>w. objects (w_db w) = ys \<and> folders (w_db w) = fs) (ignore (bs_Delete (sv_blobs V) h))" for h ys
  proof (intro keeps_ignore keepsI)
    fix w :: "kamara_db world" assume I: "objects (w_db w) = ys \<and> folders (w_db w) = fs"
    obtain r w' where d: "bs_Delete S h w = (r, w')" by fastforce
    then show "objects (w_db (snd (bs_Delete (sv_blobs V) h w))) = ys \<and> folders (w_db (snd (bs_Delete (sv_blobs V) h w))) = fs"
      using I Delete_frame [OF d] backed by (simp add: blob_frame_def)
  qed
  note del = hoare_keeps_true [OF keeps_foreach [OF this]]
  show ?thesis
    unfolding eraseFile_reclaim
    by (intro hoare_bnd [OF rc] hoare_bnd [OF del] hoare_bnd [OF hoare_keeps_true [OF keeps_trees_tail(1)]]
        hoare_bnd [OF hoare_keeps_true [OF keeps_trees_tail(2)]] hoare_keeps_true [OF keeps_trees_tail(3)])
qed

lemma eraseFiles_effect:
  "hoare (\<lambda>w. objects (w_db w) = xs \<and> folders (w_db w) = fs) (foreach (eraseFile V s) ys)
     (\<lambda>_ w. objects (w_db w) = filter (\<lambda>y. ob_ID y \<notin> ob_ID ` set ys) xs \<and> folders (w_db w) = fs) (\<lambda>_ _. True)"
proof (induction ys arbitrary: xs)
  case Nil
  show ?case by (simp add: hoare_def run)
next
  case (Cons y ys)
  show ?case
    unfolding foreach.simps by (rule hoare_conseq [OF hoare_bnd [OF eraseFile_effect Cons.IH]]) (auto intro!: filter_cong)
qed

lemma EraseFiles_effect:
  assumes r: "EraseFiles V s w = (Inr (), w')" and t: "tables_ok (w_db w)"
  shows "objects (w_db w') = filter (\<lambda>x. ob_Owner x \<noteq> s) (objects (w_db w))"
    "folders (w_db w') = filter (\<lambda>f. fo_Owner f \<noteq> s) (folders (w_db w))"
proof -
  obtain objs w1 w2 gs w3 where q1: "ByOwner s w = (Inr objs, w1)" and e1: "foreach (eraseFile V s) objs w1 = (Inr (), w2)"
    and q2: "FoldersByOwner s w2 = (Inr gs, w3)" and e2: "foreach (eraseFolder V s) (deepestFirst gs) w3 = (Inr (), w')"
    using r unfolding EraseFiles_def by (auto elim!: bnd_InrE)
  have w1: "set objs = {x \<in> set (objects (w_db w)). ob_Owner x = s}" "w_db w1 = w_db w"
    using q1 unfolding ByOwner_def by (auto elim!: query_Inr)
  have w2: "objects (w_db w2) = filter (\<lambda>y. ob_ID y \<notin> ob_ID ` set objs) (objects (w_db w))" "folders (w_db w2) = folders (w_db w)"
    using hoareD(1) [OF eraseFiles_effect _ e1, of "objects (w_db w)" "folders (w_db w)"] w1 by simp_all
  have w3: "set gs = {f \<in> set (folders (w_db w)). fo_Owner f = s}" "w_db w3 = w_db w2"
    using q2 w2 unfolding FoldersByOwner_def by (auto elim!: query_Inr)
  have fin: "objects (w_db w') = objects (w_db w2)" "folders (w_db w') = filter (\<lambda>g. fo_ID g \<notin> fo_ID ` set gs) (folders (w_db w))"
    using hoareD(1) [OF eraseFolders_effect _ e2, of "objects (w_db w2)" "folders (w_db w)"] w2 w3 by simp_all
  have io: "inj_on ob_ID (set (objects (w_db w)))" and jo: "inj_on fo_ID (set (folders (w_db w)))"
    using t by (simp_all add: tables_ok_def distinct_map)
  have "ob_ID x \<notin> ob_ID ` set objs \<longleftrightarrow> ob_Owner x \<noteq> s" if "x \<in> set (objects (w_db w))" for x
    using that w1(1) inj_on_eq_iff [OF io that] by auto
  then show "objects (w_db w') = filter (\<lambda>x. ob_Owner x \<noteq> s) (objects (w_db w))"
    using fin(1) w2(1) by (simp cong: filter_cong)
  have "fo_ID f \<notin> fo_ID ` set gs \<longleftrightarrow> fo_Owner f \<noteq> s" if "f \<in> set (folders (w_db w))" for f
    using that w3(1) inj_on_eq_iff [OF jo that] by auto
  then show "folders (w_db w') = filter (\<lambda>f. fo_Owner f \<noteq> s) (folders (w_db w))"
    using fin(2) by (simp cong: filter_cong)
qed

end

theorem deepestFirst_order_witness:
  "(''b'', ''a'') \<in> (parentRel (folders treeDb))\<^sup>+ \<and>
   (fo_ID (deepestFirst (folders treeDb) ! 1), fo_ID (deepestFirst (folders treeDb) ! 0)) \<notin> (parentRel (folders treeDb))\<^sup>+"
proof -
  have p: "parentRel (folders treeDb) = {(''b'', ''a'')}"
    by (auto simp: parentRel_def treeDb_def
        intro: exI [of _ "\<lparr>fo_ID = ''b'', fo_Owner = ann, fo_ParentID = Some ''a'', fo_Name = ''B'', fo_Created = 0, fo_Updated = 0\<rparr>"])
  have "acyclic (parentRel (folders treeDb))" unfolding p by (simp add: acyclic_insert) (simp add: acyclic_def)
  note ord = deepestFirst_order [OF _ this, of 0 1, THEN conjunct2]
  have "(''b'', ''a'') \<in> (parentRel (folders treeDb))\<^sup>+" unfolding p by (rule r_into_trancl) simp
  then show ?thesis using ord by (simp add: treeDb_def)
qed

end
