(* ===== verification/Subject_Spec.thy ===== *)
theory Subject_Spec
  imports Subject_Data
begin

text \<open>
  The promises of the subject-data erasure: it keeps the store consistent wherever it is interrupted,
  leaves nothing to export when it ends well, and ends well in a calm world in which the subject's
  tuples are in place.
\<close>

section \<open>Runs without faults\<close>

lemma foreach_decOne_calm: "calm w \<Longrightarrow> \<exists>w'. foreach (\<lambda>h. decOne h (n h)) hs w = (Inr (), w') \<and> calm w'"
  by (induction hs arbitrary: w) (simp_all add: decOne_def bnd_def ret_apply)

lemma reclaim_calm:
  assumes c: "calm w" and g: "loose X (w_db w)"
  shows "\<exists>os w'. reclaimObject i w = (Inr os, w') \<and> calm w'"
proof -
  let ?hs = "hashesOf (w_db w) i"
  let ?w1 = "w\<lparr>w_db := dropObject i (w_db w)\<rparr>"
  have q: "ChunkHashesOf i w = (Inr ?hs, w)" and d: "DeleteObject i w = (Inr (), ?w1)"
    using c by (simp_all add: ChunkHashesOf_def DeleteObject_def)
  obtain os w2 where r: "DecRef ?hs ?w1 = (Inr os, w2)" and c2: "calm w2"
    using foreach_decOne_calm [of ?w1 "\<lambda>h. int (count_list ?hs h)" "remdups ?hs"] c
    by (cases "?hs = []") (auto simp: DecRef_def ret_apply bnd_def)
  have gv: "given False X os (w_db w2)"
    using hoareD(1) [OF loose_DecRef _ r, of X] hoareD(1) [OF loose_DeleteObject _ d, of X ?hs] g by simp
  have "refs (w_db w2) h = 0" if h: "h \<in> set os" for h
  proof -
    obtain k where "chunks (w_db w2) h = Some k" "ck_Ref k \<le> 0" using gv h unfolding given_def by blast
    moreover from this have "int (refs (w_db w2) h) \<le> ck_Ref k" using gv by (simp add: given_def cnt_def noSlack_def)
    ultimately show ?thesis by simp
  qed
  then have "vc_Hash v \<notin> set os" if "v \<in> set (version_chunks (w_db w2))" for v
    using that by (auto simp: refs_def count_list_0_iff)
  then have "\<exists>w3. DeleteChunks os w2 = (Inr (), w3) \<and> calm w3"
    using c2 by (auto simp: DeleteChunks_def ret_apply)
  then show ?thesis using q d r by (auto simp: reclaimObject_def bnd_def ret_apply)
qed

lemma fga_delete_ok:
  assumes "fga_ok F"
  shows "t \<in> set ts \<Longrightarrow> \<exists>ts'. fga_delete F t ts = Inr ts' \<and> set ts' = set ts - {t}"
    and "t \<notin> set ts \<Longrightarrow> fga_delete F t ts = Inl ErrTupleMissing"
  using assms unfolding fga_ok_def by blast+

lemma DeleteTuple_calm:
  assumes "calm w" "fga_ok F" "userTuple s r x \<in> set (w_fga w)"
  shows "\<exists>ts. DeleteTuple F s r x w = (Inr (), w\<lparr>w_fga := ts\<rparr>) \<and> set ts = set (w_fga w) - {userTuple s r x}"
  using fga_delete_ok(1) [OF assms(2,3)] assms(1) by (auto simp: DeleteTuple_def fgaChange_def)

lemma unlinkFolder_calm:
  assumes "calm w" "fga_ok (sv_fga V)"
  shows "\<exists>ts. unlinkFolder V p c w = (Inr (), w\<lparr>w_fga := ts\<rparr>) \<and>
    (\<forall>u x. userTuple u Relation x \<in> set (w_fga w) \<longrightarrow> userTuple u Relation x \<in> set ts)"
proof (cases p)
  case None
  then show ?thesis by (intro exI [of _ "w_fga w"]) (simp add: unlinkFolder_def ret_apply)
next
  case (Some f)
  let ?t = "rawTuple (folderObj f) ParentRelation c"
  have ne: "userTuple u Relation x \<noteq> ?t" for u x by (simp add: userTuple_def rawTuple_def Relation_def ParentRelation_def)
  show ?thesis
  proof (cases "?t \<in> set (w_fga w)")
    case True
    then obtain ts where "fga_delete (sv_fga V) ?t (w_fga w) = Inr ts" "set ts = set (w_fga w) - {?t}"
      using fga_delete_ok(1) [OF assms(2)] by blast
    then show ?thesis using assms(1) Some ne
      by (intro exI [of _ ts]) (simp add: unlinkFolder_def DeleteObjectTuple_def fgaChange_def)
  next
    case False
    then have "fga_delete (sv_fga V) ?t (w_fga w) = Inl ErrTupleMissing" by (rule fga_delete_ok(2) [OF assms(2)])
    then show ?thesis using assms(1) Some
      by (intro exI [of _ "w_fga w"]) (simp add: unlinkFolder_def DeleteObjectTuple_def fgaChange_def)
  qed
qed

text \<open>The end of each step: the search entry and the tuples go.\<close>

lemma erase_tail_calm:
  assumes c: "calm w" and F: "fga_ok (sv_fga V)" and t: "userTuple s Relation x \<in> set (w_fga w)" and i: "i \<noteq> []"
  shows "\<exists>w'. bnd (Remove i) (\<lambda>_. bnd (unlinkFolder V p x) (\<lambda>_. DeleteTuple (sv_fga V) s Relation x)) w = (Inr (), w') \<and>
    calm w' \<and> w_fs w' = w_fs w \<and> chunks (w_db w') = chunks (w_db w) \<and>
    (\<forall>u y. userTuple u Relation y \<in> set (w_fga w) \<longrightarrow> userTuple u Relation y \<noteq> userTuple s Relation x \<longrightarrow> userTuple u Relation y \<in> set (w_fga w'))"
proof -
  define w1 where "w1 = w\<lparr>w_db := (w_db w)\<lparr>search_documents := filter (\<lambda>r. sd_ID r \<noteq> i) (search_documents (w_db w))\<rparr>\<rparr>"
  have r: "Remove i w = (Inr (), w1)" "calm w1" using c i by (simp_all add: Remove_def searchDelete_def w1_def)
  obtain ts where u: "unlinkFolder V p x w1 = (Inr (), w1\<lparr>w_fga := ts\<rparr>)"
    "\<forall>u x. userTuple u Relation x \<in> set (w_fga w1) \<longrightarrow> userTuple u Relation x \<in> set ts"
    using unlinkFolder_calm [OF r(2) F] by blast
  obtain ts' where d: "DeleteTuple (sv_fga V) s Relation x (w1\<lparr>w_fga := ts\<rparr>) = (Inr (), w1\<lparr>w_fga := ts'\<rparr>)"
    "set ts' = set ts - {userTuple s Relation x}"
    using DeleteTuple_calm [of "w1\<lparr>w_fga := ts\<rparr>" "sv_fga V" s Relation x] r(2) F u(2) t by (auto simp: w1_def)
  show ?thesis
    using r u d by (intro exI [of _ "w1\<lparr>w_fga := ts'\<rparr>"]) (auto simp: bnd_apply w1_def)
qed

section \<open>The erasure completes\<close>

text \<open>The tuples that name the subject as the owner of the given objects.\<close>

definition owns :: "subject \<Rightarrow> string set \<Rightarrow> 'd world \<Rightarrow> bool" where
  "owns s os w \<longleftrightarrow> (\<forall>x \<in> os. userTuple s Relation x \<in> set (w_fga w))"

lemma userTuple_obj: "userTuple s r x = userTuple s r y \<longleftrightarrow> x = y"
  by (simp add: userTuple_def rawTuple_def)

lemma obj_inj: "fileObj i = fileObj j \<longleftrightarrow> i = j" "folderObj i = folderObj j \<longleftrightarrow> i = j" "fileObj i \<noteq> folderObj j"
  by (simp_all add: fileObj_def folderObj_def FileType_def FolderType_def)

context file_store
begin

definition ready :: "subject \<Rightarrow> string set \<Rightarrow> kamara_db world \<Rightarrow> bool" where
  "ready s os w \<longleftrightarrow> clean w \<and> consistent False V (blobs w) (w_db w) \<and>
     (\<forall>h \<in> dom (chunks (w_db w)). valid h) \<and> owns s os w"

lemma eraseFile_total:
  assumes F: "fga_ok (sv_fga V)" and i: "ob_ID x \<noteq> []" and r: "ready s (insert (fileObj (ob_ID x)) os) w"
    and new: "fileObj (ob_ID x) \<notin> os"
  shows "\<exists>w'. eraseFile V s x w = (Inr (), w') \<and> ready s os w'"
proof -
  have cl: "clean w" and con: "consistent False V (blobs w) (w_db w)" using r by (simp_all add: ready_def)
  obtain gone w1 where rc: "reclaimObject (ob_ID x) w = (Inr gone, w1)"
    using reclaim_calm [OF clean_calm [OF cl], of "dom (blobs w)" "ob_ID x"] con unfolding consistent_def by blast
  have c1: "clean w1"
    by (rule clean_after [OF rc cl keeps_fs_reclaim])
      (unfold reclaimObject_def ChunkHashesOf_def DeleteObject_def DecRef_def decOne_def DeleteChunks_def, intro calm_rules)
  note rec = reclaimObject_effect [OF rc]
  have dom1: "dom (chunks (w_db w1)) \<subseteq> dom (chunks (w_db w))" using rec unfolding reclaimed_def by (metis domIff subsetI)
  have "set (hashesOf (w_db w) (ob_ID x)) \<subseteq> dom (chunks (w_db w))"
    using con by (auto simp: consistent_def good_def cnt_def refs_def hashesOf_def count_list_0_iff)
  then have val: "\<And>h. h \<in> set gone \<Longrightarrow> valid h" using reclaimObject_subset [OF rc] r by (auto simp: ready_def)
  obtain w2 where de: "foreach (\<lambda>h. ignore (bs_Delete (sv_blobs V) h)) gone w1 = (Inr (), w2)" and c2: "clean w2" "blob_frame w1 w2"
    using delete_blobs [OF c1 val] by blast
  have kf: "keeps (\<lambda>w. w_fga w = t) (reclaimObject i)" for t i
    unfolding reclaimObject_def ChunkHashesOf_def DeleteObject_def DecRef_def decOne_def DeleteChunks_def
    by (intro keeps_rules) auto
  have g1: "w_fga w1 = w_fga w" by (rule keepsD2 [where m = "reclaimObject (ob_ID x)", OF kf refl rc])
  then have g2: "w_fga w2 = w_fga w" "w_db w2 = w_db w1" using c2 by (simp_all add: blob_frame_def)
  have "userTuple s Relation (fileObj (ob_ID x)) \<in> set (w_fga w2)" using r g2 by (simp add: ready_def owns_def)
  from erase_tail_calm [OF clean_calm [OF c2(1)] F this i, of "ob_FolderID x"] obtain w' where
    tl: "bnd (Remove (ob_ID x)) (\<lambda>_. bnd (unlinkFolder V (ob_FolderID x) (fileObj (ob_ID x))) (\<lambda>_.
      DeleteTuple (sv_fga V) s Relation (fileObj (ob_ID x)))) w2 = (Inr (), w')"
    and w': "calm w'" "w_fs w' = w_fs w2" "chunks (w_db w') = chunks (w_db w2)"
    and keep: "\<And>u y. userTuple u Relation y \<in> set (w_fga w2) \<Longrightarrow> userTuple u Relation y \<noteq> userTuple s Relation (fileObj (ob_ID x)) \<Longrightarrow>
      userTuple u Relation y \<in> set (w_fga w')"
    by blast
  have run: "eraseFile V s x w = (Inr (), w')"
    unfolding eraseFile_reclaim by (simp only: bnd_apply [of "reclaimObject (ob_ID x)"] bnd_apply [of "foreach f xs" for f xs] rc de prod.case sum.case tl)
  have "clean w'" using c2(1) w'(1,2) clean_calm [OF c2(1)] clean_frame [of w' w2] by (simp add: calm_def)
  moreover have "consistent False V (blobs w') (w_db w')"
    using keepsD2 [where m = "eraseFile V s x", OF eraseFile_consistent con run] .
  moreover have "\<forall>h \<in> dom (chunks (w_db w')). valid h" using r dom1 w'(3) g2 by (auto simp: ready_def)
  moreover have "owns s os w'" using r new keep g2 by (auto simp: ready_def owns_def) (metis userTuple_obj)
  ultimately show ?thesis using run by (auto simp: ready_def)
qed

lemma eraseFiles_total:
  assumes F: "fga_ok (sv_fga V)"
  shows "\<lbrakk>\<And>x. x \<in> set xs \<Longrightarrow> ob_ID x \<noteq> []; distinct (map ob_ID xs); fileObj ` ob_ID ` set xs \<inter> os = {};
     ready s (fileObj ` ob_ID ` set xs \<union> os) w\<rbrakk> \<Longrightarrow> \<exists>w'. foreach (eraseFile V s) xs w = (Inr (), w') \<and> ready s os w'"
proof (induction xs arbitrary: w)
  case Nil
  then show ?case by (simp add: ret_apply)
next
  case (Cons x xs)
  have new: "fileObj (ob_ID x) \<notin> fileObj ` ob_ID ` set xs \<union> os"
    using Cons.prems(2,3) by (auto simp: obj_inj)
  have "ready s (insert (fileObj (ob_ID x)) (fileObj ` ob_ID ` set xs \<union> os)) w" using Cons.prems(4) by simp
  from eraseFile_total [OF F _ this new] obtain w1 where
    "eraseFile V s x w = (Inr (), w1)" and r1: "ready s (fileObj ` ob_ID ` set xs \<union> os) w1" using Cons.prems(1) by auto
  moreover obtain w' where "foreach (eraseFile V s) xs w1 = (Inr (), w')" "ready s os w'"
    using Cons.IH [OF _ _ _ r1] Cons.prems by auto
  ultimately show ?case by (simp add: bnd_apply)
qed

lemma eraseFolder_total:
  assumes F: "fga_ok (sv_fga V)" and i: "fo_ID f \<noteq> []" and r: "ready s (insert (folderObj (fo_ID f)) os) w"
    and new: "folderObj (fo_ID f) \<notin> os" and free: "\<not> folderBusy (w_db w) (fo_ID f)"
  shows "\<exists>w'. eraseFolder V s f w = (Inr (), w') \<and> ready s os w'"
proof -
  have cl: "clean w" and con: "consistent False V (blobs w) (w_db w)" using r by (simp_all add: ready_def)
  define w1 where "w1 = w\<lparr>w_db := (w_db w)\<lparr>folders := filter (\<lambda>g. fo_ID g \<noteq> fo_ID f) (folders (w_db w))\<rparr>\<rparr>"
  have c: "calm w" and c1: "calm w1" using clean_calm [OF cl] by (simp_all add: w1_def)
  have dr: "DeleteFolderRow (fo_ID f) w = (Inr (), w1)"
    using c free by (simp add: DeleteFolderRow_def catch_def w1_def)
  have "userTuple s Relation (folderObj (fo_ID f)) \<in> set (w_fga w1)" using r by (simp add: ready_def owns_def w1_def)
  from erase_tail_calm [OF c1 F this i, of "fo_ParentID f"] obtain w' where
    tl: "bnd (Remove (fo_ID f)) (\<lambda>_. bnd (unlinkFolder V (fo_ParentID f) (folderObj (fo_ID f))) (\<lambda>_.
      DeleteTuple (sv_fga V) s Relation (folderObj (fo_ID f)))) w1 = (Inr (), w')"
    and w': "calm w'" "w_fs w' = w_fs w1" "chunks (w_db w') = chunks (w_db w1)"
    and keep: "\<And>u y. userTuple u Relation y \<in> set (w_fga w1) \<Longrightarrow> userTuple u Relation y \<noteq> userTuple s Relation (folderObj (fo_ID f)) \<Longrightarrow>
      userTuple u Relation y \<in> set (w_fga w')"
    by blast
  have run: "eraseFolder V s f w = (Inr (), w')"
    unfolding eraseFolder_def by (simp only: bnd_apply [of "DeleteFolderRow (fo_ID f)"] dr prod.case sum.case tl)
  have "clean w'" using cl c w' clean_frame [of w' w] by (simp add: calm_def w1_def)
  moreover have "consistent False V (blobs w') (w_db w')"
    using keepsD2 [where m = "eraseFolder V s f", OF eraseFolder_consistent con run] .
  moreover have "\<forall>h \<in> dom (chunks (w_db w')). valid h" using r w'(3) by (simp add: ready_def w1_def)
  moreover have "owns s os w'" using r new keep by (auto simp: ready_def owns_def w1_def) (metis userTuple_obj)
  ultimately show ?thesis using run by (auto simp: ready_def)
qed

end

text \<open>No folder of the list is a child of an earlier one or of itself.\<close>

fun leavesFirst :: "folder list \<Rightarrow> bool" where
  "leavesFirst [] = True"
| "leavesFirst (f # fs) = ((\<forall>g \<in> set (f # fs). fo_ParentID g \<noteq> Some (fo_ID f)) \<and> leavesFirst fs)"

lemma leavesFirst_nth:
  "(\<And>i j. i \<le> j \<Longrightarrow> j < length fs \<Longrightarrow> fo_ParentID (fs ! j) \<noteq> Some (fo_ID (fs ! i))) \<Longrightarrow> leavesFirst fs"
proof (induction fs)
  case (Cons f fs)
  have "fo_ParentID g \<noteq> Some (fo_ID f)" if "g \<in> set (f # fs)" for g
    using that Cons.prems [of 0] by (auto simp: in_set_conv_nth simp del: list.set)
  moreover have "leavesFirst fs"
  proof (rule Cons.IH)
    fix i j assume "i \<le> j" "j < length fs"
    then show "fo_ParentID (fs ! j) \<noteq> Some (fo_ID (fs ! i))" using Cons.prems [of "Suc i" "Suc j"] by simp
  qed
  ultimately show ?case by simp
qed simp

lemma deepestFirst_leaves:
  assumes d: "distinct (map fo_ID fs)" and a: "acyclic (parentRel fs)"
  shows "leavesFirst (deepestFirst fs)"
proof (rule leavesFirst_nth)
  fix i j assume ij: "i \<le> j" "j < length (deepestFirst fs)"
  then have mem: "deepestFirst fs ! j \<in> set fs" "deepestFirst fs ! i \<in> set fs"
    using nth_mem [of _ "deepestFirst fs"] by (simp_all del: nth_mem)
  show "fo_ParentID (deepestFirst fs ! j) \<noteq> Some (fo_ID (deepestFirst fs ! i))"
    using depth_child [OF d a mem(2,1)] deepestFirst_sorted [of i j fs] ij by fastforce
qed

context file_store
begin

lemma eraseFolders_total:
  assumes F: "fga_ok (sv_fga V)"
  shows "\<lbrakk>\<And>f. f \<in> set gs \<Longrightarrow> fo_ID f \<noteq> []; distinct (map fo_ID gs); leavesFirst gs;
     \<And>f g. f \<in> set gs \<Longrightarrow> g \<in> set (folders (w_db w)) \<Longrightarrow> fo_ParentID g = Some (fo_ID f) \<Longrightarrow> g \<in> set gs;
     \<And>f x. f \<in> set gs \<Longrightarrow> x \<in> set (objects (w_db w)) \<Longrightarrow> ob_FolderID x \<noteq> Some (fo_ID f);
     ready s (folderObj ` fo_ID ` set gs) w\<rbrakk> \<Longrightarrow> \<exists>w'. foreach (eraseFolder V s) gs w = (Inr (), w') \<and> ready s {} w'"
proof (induction gs arbitrary: w)
  case Nil
  then show ?case by (simp add: ret_apply)
next
  case (Cons f gs)
  have new: "folderObj (fo_ID f) \<notin> folderObj ` fo_ID ` set gs"
    using Cons.prems(2) by (auto simp: obj_inj)
  have free: "\<not> folderBusy (w_db w) (fo_ID f)"
  proof -
    have "fo_ParentID g \<noteq> Some (fo_ID f)" if "g \<in> set (folders (w_db w))" for g
      using that Cons.prems(3) Cons.prems(4) [of f g] by auto
    then show ?thesis using Cons.prems(5) [of f] by (simp add: folderBusy_def)
  qed
  have "ready s (insert (folderObj (fo_ID f)) (folderObj ` fo_ID ` set gs)) w" using Cons.prems(6) by simp
  from eraseFolder_total [OF F _ this new free] obtain w1 where
    e: "eraseFolder V s f w = (Inr (), w1)" and r1: "ready s (folderObj ` fo_ID ` set gs) w1" using Cons.prems(1) by auto
  have w1: "objects (w_db w1) = objects (w_db w)" "folders (w_db w1) = filter (\<lambda>g. fo_ID g \<noteq> fo_ID f) (folders (w_db w))"
    using hoareD(1) [OF eraseFolder_effect _ e] by auto
  have kids: "g \<in> set gs" if "h \<in> set gs" "g \<in> set (folders (w_db w1))" "fo_ParentID g = Some (fo_ID h)" for g h
    using that Cons.prems(4) [of h g] w1(2) by auto
  have "\<exists>w'. foreach (eraseFolder V s) gs w1 = (Inr (), w') \<and> ready s {} w'"
  proof (rule Cons.IH [OF _ _ _ kids _ r1])
    show "ob_FolderID x \<noteq> Some (fo_ID h)" if "h \<in> set gs" "x \<in> set (objects (w_db w1))" for h x
      using that Cons.prems(5) w1(1) by simp
  qed (use Cons.prems(1,2,3) in simp_all)
  then show ?case using e by (auto simp: bnd_apply)
qed

lemma EraseFiles_total:
  assumes F: "fga_ok (sv_fga V)"
    and r: "ready s (fileObj ` ob_ID ` {x \<in> set (objects (w_db w)). ob_Owner x = s} \<union> folderObj ` fo_ID ` {f \<in> set (folders (w_db w)). fo_Owner f = s}) w"
    and ids: "\<And>x. x \<in> set (objects (w_db w)) \<Longrightarrow> ob_ID x \<noteq> []" "\<And>f. f \<in> set (folders (w_db w)) \<Longrightarrow> fo_ID f \<noteq> []"
    and fo: "acyclic (parentRel (folders (w_db w)))"
    and own: "\<And>f g. f \<in> set (folders (w_db w)) \<Longrightarrow> fo_Owner f = s \<Longrightarrow> g \<in> set (folders (w_db w)) \<Longrightarrow> fo_ParentID g = Some (fo_ID f) \<Longrightarrow> fo_Owner g = s"
    "\<And>f x. f \<in> set (folders (w_db w)) \<Longrightarrow> fo_Owner f = s \<Longrightarrow> x \<in> set (objects (w_db w)) \<Longrightarrow> ob_FolderID x = Some (fo_ID f) \<Longrightarrow> ob_Owner x = s"
  shows "\<exists>w'. EraseFiles V s w = (Inr (), w') \<and> ready s {} w'"
proof -
  let ?xs = "sort_key ob_Created (filter (\<lambda>x. ob_Owner x = s) (objects (w_db w)))"
  let ?gs = "sort_key fo_Created (filter (\<lambda>f. fo_Owner f = s) (folders (w_db w)))"
  have t: "tables_ok (w_db w)" and cl: "clean w" using r by (simp_all add: ready_def consistent_def good_def)
  have sd: "distinct (map k (sort_key h ys))" if "distinct (map k ys)" for k :: "'b \<Rightarrow> string" and h :: "'b \<Rightarrow> int" and ys
    using that by (simp add: distinct_map)
  have q1: "ByOwner s w = (Inr ?xs, w)" using clean_calm [OF cl] by (simp add: ByOwner_def)
  have "\<exists>w'. foreach (eraseFile V s) ?xs w = (Inr (), w') \<and> ready s (folderObj ` fo_ID ` {f \<in> set (folders (w_db w)). fo_Owner f = s}) w'"
  proof (rule eraseFiles_total [OF F])
    show "distinct (map ob_ID ?xs)" using t by (intro sd distinct_map_filter) (simp add: tables_ok_def)
    show "ready s (fileObj ` ob_ID ` set ?xs \<union> folderObj ` fo_ID ` {f \<in> set (folders (w_db w)). fo_Owner f = s}) w" using r by simp
  qed (use ids in \<open>auto simp: obj_inj\<close>)
  then obtain w1 where e1: "foreach (eraseFile V s) ?xs w = (Inr (), w1)"
    and r1: "ready s (folderObj ` fo_ID ` {f \<in> set (folders (w_db w)). fo_Owner f = s}) w1" by blast
  have w1: "objects (w_db w1) = filter (\<lambda>y. ob_ID y \<notin> ob_ID ` set ?xs) (objects (w_db w))" "folders (w_db w1) = folders (w_db w)"
    using hoareD(1) [OF eraseFiles_effect _ e1, of "objects (w_db w)" "folders (w_db w)"] by simp_all
  have c1: "clean w1" using r1 by (simp add: ready_def)
  have q2: "FoldersByOwner s w1 = (Inr ?gs, w1)" using clean_calm [OF c1] w1 by (simp add: FoldersByOwner_def)
  have dg: "distinct (map fo_ID ?gs)" using t by (intro sd distinct_map_filter) (simp add: tables_ok_def)
  have ag: "acyclic (parentRel ?gs)" by (rule acyclic_subset [OF fo]) (auto simp: parentRel_def)
  have dd: "distinct (map fo_ID (deepestFirst ?gs))" using dg by (simp add: deepestFirst_def distinct_map)
  have "\<exists>w'. foreach (eraseFolder V s) (deepestFirst ?gs) w1 = (Inr (), w') \<and> ready s {} w'"
  proof (rule eraseFolders_total [OF F _ dd deepestFirst_leaves [OF dg ag]])
    show "fo_ID f \<noteq> []" if "f \<in> set (deepestFirst ?gs)" for f using that ids(2) by simp
    show "g \<in> set (deepestFirst ?gs)"
      if "f \<in> set (deepestFirst ?gs)" "g \<in> set (folders (w_db w1))" "fo_ParentID g = Some (fo_ID f)" for f g
      using that w1 own(1) [of f g] by simp
    show "ob_FolderID x \<noteq> Some (fo_ID f)" if "f \<in> set (deepestFirst ?gs)" "x \<in> set (objects (w_db w1))" for f x
      using that w1 own(2) [of f x] by auto
    show "ready s (folderObj ` fo_ID ` set (deepestFirst ?gs)) w1" using r1 by simp
  qed
  then obtain w' where e2: "foreach (eraseFolder V s) (deepestFirst ?gs) w1 = (Inr (), w')" and "ready s {} w'" by blast
  moreover have "EraseFiles V s w = (Inr (), w')"
    unfolding EraseFiles_def by (simp only: bnd_apply q1 e1 q2 e2 prod.case sum.case)
  ultimately show ?thesis by blast
qed

end

section \<open>The promises\<close>

text \<open>
  What the erasure needs to go through: identifiers are not empty, the subject's owner tuples are in
  place, and nobody else keeps a folder or a file inside a folder of the subject.
\<close>

definition erasable :: "subject \<Rightarrow> kamara_db world \<Rightarrow> bool" where
  "erasable s w \<longleftrightarrow>
     (\<forall>x \<in> set (objects (w_db w)). ob_ID x \<noteq> [] \<and> (ob_Owner x = s \<longrightarrow> userTuple s Relation (fileObj (ob_ID x)) \<in> set (w_fga w))) \<and>
     (\<forall>f \<in> set (folders (w_db w)). fo_ID f \<noteq> [] \<and> (fo_Owner f = s \<longrightarrow> userTuple s Relation (folderObj (fo_ID f)) \<in> set (w_fga w))) \<and>
     (\<forall>f \<in> set (folders (w_db w)). fo_Owner f = s \<longrightarrow>
        (\<forall>g \<in> set (folders (w_db w)). fo_ParentID g = Some (fo_ID f) \<longrightarrow> fo_Owner g = s) \<and>
        (\<forall>x \<in> set (objects (w_db w)). ob_FolderID x = Some (fo_ID f) \<longrightarrow> ob_Owner x = s))"

lemma parentRel_upRel: "tables_ok d \<Longrightarrow> parentRel (folders d) = upRel d"
proof -
  assume "tables_ok d"
  then have "findFolder d (fo_ID f) = Some f" if "f \<in> set (folders d)" for f
    using that find_distinct [of fo_ID "folders d" f] by (simp add: tables_ok_def findFolder_def)
  then show ?thesis by (auto simp: parentRel_def upRel_def parentOf_def split: option.splits dest!: findFolder_SomeD)
qed

lemma ExportFiles_none:
  assumes "\<And>x. x \<in> set (objects (w_db w)) \<Longrightarrow> ob_Owner x \<noteq> s" "\<And>f. f \<in> set (folders (w_db w)) \<Longrightarrow> fo_Owner f \<noteq> s"
  shows "fst (ExportFiles s w) \<in> {Inr None, Inl ErrIO}" "calm w \<Longrightarrow> ExportFiles s w = (Inr None, w)"
proof -
  have n: "filter (\<lambda>x. ob_Owner x = s) (objects (w_db w)) = []" "filter (\<lambda>f. fo_Owner f = s) (folders (w_db w)) = []"
    using assms by (simp_all add: filter_empty_conv)
  obtain r1 w1 where q1: "ByOwner s w = (r1, w1)" by fastforce
  obtain r2 w2 where q2: "FoldersByOwner s w1 = (r2, w2)" by fastforce
  have "r1 = Inr [] \<or> r1 = Inl ErrIO" "w_db w1 = w_db w"
    using query_outcome [OF q1 [unfolded ByOwner_def]] n by auto
  moreover from this have "r2 = Inr [] \<or> r2 = Inl ErrIO"
    using query_outcome [OF q2 [unfolded FoldersByOwner_def]] n by auto
  ultimately show "fst (ExportFiles s w) \<in> {Inr None, Inl ErrIO}"
    using q1 q2 by (auto simp: ExportFiles_def bnd_apply ret_apply)
  show "calm w \<Longrightarrow> ExportFiles s w = (Inr None, w)"
    using n by (simp add: ExportFiles_def ByOwner_def FoldersByOwner_def bnd_apply ret_apply)
qed

text \<open>C9. Under every fault schedule an erasure keeps the tables and the blobs consistent (no manifest
  entry is left without its chunk and its blob), whether it is interrupted or not; one that returns
  without an error has removed exactly the subject's files and folders, and an export that follows
  finds nothing.\<close>

theorem EraseFiles_safe:
  assumes "consistent False (onDisk root V) (fsBlobs root w) (w_db w)" "EraseFiles (onDisk root V) s w = (r, w')"
  shows "consistent False (onDisk root V) (fsBlobs root w') (w_db w') \<and>
    (r = Inr () \<longrightarrow>
       objects (w_db w') = filter (\<lambda>x. ob_Owner x \<noteq> s) (objects (w_db w)) \<and>
       folders (w_db w') = filter (\<lambda>f. fo_Owner f \<noteq> s) (folders (w_db w)) \<and>
       fst (ExportFiles s w') \<in> {Inr None, Inl ErrIO})"
proof -
  have c: "consistent False (onDisk root V) (fsBlobs root w') (w_db w')"
    using keepsD2 [where m = "EraseFiles (onDisk root V) s", OF disk.EraseFiles_consistent assms] .
  have t: "tables_ok (w_db w)" using assms(1) by (simp add: consistent_def good_def)
  show ?thesis
  proof (intro conjI impI c)
    assume "r = Inr ()"
    note eff = disk.EraseFiles_effect [OF assms(2) [unfolded this] t]
    then show "objects (w_db w') = filter (\<lambda>x. ob_Owner x \<noteq> s) (objects (w_db w))"
      "folders (w_db w') = filter (\<lambda>f. fo_Owner f \<noteq> s) (folders (w_db w))" by simp_all
    from eff show "fst (ExportFiles s w') \<in> {Inr None, Inl ErrIO}" by (intro ExportFiles_none(1)) auto
  qed
qed

text \<open>C10. In a calm world whose folders form a forest, in which the subject's owner tuples are in place and
  nobody else's rows sit in the subject's folders, the erasure completes: it returns without an error,
  exactly the subject's files and folders are gone, and the export returns nothing.\<close>

theorem EraseFiles_completes:
  assumes F: "fga_ok (sv_fga V)" and c: "fsClean w" and con: "consistent False (onDisk root V) (fsBlobs root w) (w_db w)"
    and fo: "forest (w_db w)" and e: "erasable s w"
  shows "\<exists>w'. EraseFiles (onDisk root V) s w = (Inr (), w') \<and> ExportFiles s w' = (Inr None, w') \<and>
    objects (w_db w') = filter (\<lambda>x. ob_Owner x \<noteq> s) (objects (w_db w)) \<and>
    folders (w_db w') = filter (\<lambda>f. fo_Owner f \<noteq> s) (folders (w_db w))"
proof -
  have t: "tables_ok (w_db w)" and rows: "dom (chunks (w_db w)) \<subseteq> dom (fsBlobs root w)"
    using con by (simp_all add: consistent_def good_def)
  have "\<forall>h \<in> dom (chunks (w_db w)). validKey h" using rows fsBlobs_valid by fastforce
  then have r: "disk.ready root V s (fileObj ` ob_ID ` {x \<in> set (objects (w_db w)). ob_Owner x = s} \<union>
      folderObj ` fo_ID ` {f \<in> set (folders (w_db w)). fo_Owner f = s}) w"
    using c con e by (auto simp: disk.ready_def owns_def erasable_def)
  have "\<exists>w'. EraseFiles (onDisk root V) s w = (Inr (), w') \<and> disk.ready root V s {} w'"
  proof (rule disk.EraseFiles_total [OF _ r])
    show "acyclic (parentRel (folders (w_db w)))" using fo parentRel_upRel [OF t] by (simp add: forest_def)
    show "fga_ok (sv_fga (onDisk root V))" using F by simp
  qed (use e in \<open>unfold erasable_def, blast+\<close>)
  then obtain w' where er: "EraseFiles (onDisk root V) s w = (Inr (), w')" and r': "disk.ready root V s {} w'" by blast
  note eff = disk.EraseFiles_effect [OF er t]
  have "calm w'" using r' by (simp add: disk.ready_def fsClean_def)
  then have "ExportFiles s w' = (Inr None, w')" using eff by (intro ExportFiles_none(2)) auto
  then show ?thesis using er eff by blast
qed

section \<open>Witnesses\<close>

lemma consistent_loose: "consistent True S b d \<Longrightarrow> consistent False S b d"
  by (auto simp: consistent_def good_def cnt_def)

theorem EraseFiles_safe_witness:
  "consistent False demoSvc (fsBlobs ''/data'' (snd (EraseFiles demoSvc ann treeWorld))) (w_db (snd (EraseFiles demoSvc ann treeWorld)))"
proof -
  obtain r w' where e: "EraseFiles (onDisk ''/data'' demoSvc) ann treeWorld = (r, w')" by fastforce
  show ?thesis using EraseFiles_safe [OF _ e] e by simp
qed

theorem EraseFiles_completes_witness:
  "\<exists>w w'. w_db w = demoDb \<and> EraseFiles demoSvc ann w = (Inr (), w') \<and> ExportFiles ann w' = (Inr None, w') \<and> objects (w_db w') = []"
proof -
  obtain w where w: "fsClean w" "consistent True demoSvc (fsBlobs ''/data'' w) demoDb" "w_db w = demoDb"
     "w_fga w = [(OpenFGAObject ann, Relation, fileObj ''1'')]"
    using demo_file by metis
  have fo: "forest (w_db w)" using w(3) by (simp add: forest_def upRel_def parentOf_def findFolder_def acyclic_def)
  have e: "erasable ann w" using w(3,4) by (simp add: erasable_def demoDb_def emptyDb_def userTuple_def rawTuple_def)
  have c: "consistent False (onDisk ''/data'' demoSvc) (fsBlobs ''/data'' w) (w_db w)" using w(2,3) by (simp add: consistent_loose)
  have "filter (\<lambda>x. ob_Owner x \<noteq> ann) (objects demoDb) = []" by (simp add: demoDb_def)
  then show ?thesis using EraseFiles_completes [OF _ w(1) c fo e] w(3) by auto
qed

text \<open>
  The erasure is not restartable: cut short after the row of a file is gone, a second, undisturbed
  erasure reports success, and the name of the file stays in the search index.
\<close>

definition leakDb :: kamara_db where
  "leakDb = emptyDb\<lparr>objects := [\<lparr>ob_ID = ''1'', ob_Owner = ann, ob_Name = ''letter.txt'', ob_Size = 0, ob_FolderID = None,
       ob_ContentType = ''text/plain'', ob_Created = 0, ob_Updated = 0\<rparr>],
     search_documents := [\<lparr>sd_ID = ''1'', sd_Type = FileType, sd_Permalink = ''/files/1'', sd_Owner = ann, sd_Text = ''letter.txt''\<rparr>]\<rparr>"

lemma EraseFiles_retry_leaks:
  "let w = (demoWorld leakDb)\<lparr>w_faults := [FNone, FNone, FAfter]\<rparr>; (r1, w1) = EraseFiles demoSvc ann w; (r2, w2) = EraseFiles demoSvc ann w1
   in r1 = Inl ErrIO \<and> r2 = Inr () \<and> objects (w_db w2) = [] \<and> map sd_Text (search_documents (w_db w2)) = [''letter.txt'']"
  by (simp add: EraseFiles_def eraseFile_def ByOwner_def FoldersByOwner_def leakDb_def emptyDb_def Remove_def searchDelete_def ChunkHashesOf_def DeleteObject_def dropObject_def
      query_def exec_def execRaw_def call_def next_fault_def bnd_apply ret_apply fail_apply demoWorld_def deepestFirst_def)

end
