(* ===== verification/Audit_Trail.thy ===== *)
theory Audit_Trail
  imports Handlers Subject_Spec
begin

text \<open>
  The audit log is append-only: every operation of the file service, under every fault schedule and
  wherever it is cut short, leaves the log with everything it held before, in order.
\<close>

definition logged :: "audit_event list \<Rightarrow> kamara_db world \<Rightarrow> bool" where
  "logged A w \<longleftrightarrow> prefix A (audit_events (w_db w))"

lemma logged_aside [simp]:
  "faultless (logged A)" "randless (logged A)" "tupleless (logged A)" "pseudless (logged A)" "tokenless (logged A)"
  by (simp_all add: logged_def faultless_def randless_def tupleless_def pseudless_def tokenless_def)

text \<open>A statement that leaves the log alone, or appends to it.\<close>

lemma logged_exec [keeps_rules]:
  assumes "\<And>now d d'. f now d = Inr d' \<Longrightarrow> prefix (audit_events d) (audit_events d')"
  shows "keeps (logged A) (exec f)"
  by (rule keeps_exec) (use assms in \<open>auto simp: logged_def intro: prefix_order.trans\<close>)

lemma logged_InTx [keeps_rules]:
  assumes "keeps (logged A) fn"
  shows "keeps (logged A) (InTx fn)"
proof (rule keepsI)
  fix w assume w: "logged A w"
  have pre: "logged A (w\<lparr>w_faults := fs\<rparr>)" for fs using w by (simp add: logged_def)
  obtain r w' where r: "InTx fn w = (r, w')" by fastforce
  then have "logged A w'"
  proof (cases rule: InTx_db)
    case 1
    then show ?thesis using w by (simp add: logged_def)
  next
    case (2 fs x w1)
    then show ?thesis using keepsD2 [OF assms pre 2(1)] by (simp add: logged_def)
  qed
  then show "logged A (snd (InTx fn w))" using r by simp
qed

lemma logged_conv [keeps_rules]:
  "keeps (logged A) (Emit actor action obj)" "keeps (logged A) (Feed doc)" "keeps (logged A) (Remove i)"
  unfolding Emit_def auditAppend_def Feed_def searchUpsert_def Remove_def searchDelete_def
  by (intro keeps_rules keeps_TokenFor; auto split: if_splits)+

lemma logged_commands [keeps_rules]:
  "keeps (logged A) (InsertObject x)" "keeps (logged A) (SetObjectFolder i fid)" "keeps (logged A) (SetObjectName i name)"
  "keeps (logged A) (SetObjectSize i sz)" "keeps (logged A) (DeleteObject i)" "keeps (logged A) (DecRef hs)" "keeps (logged A) (DeleteChunks hs)"
  "keeps (logged A) (InsertFolder f)" "keeps (logged A) (SetFolderParent i fid)" "keeps (logged A) (SetFolderName i name)"
  "keeps (logged A) (DeleteFolderRow i)" "keeps (logged A) (RevokeSessions i)"
  unfolding InsertObject_def SetObjectFolder_def SetObjectName_def SetObjectSize_def DeleteObject_def DecRef_def decOne_def DeleteChunks_def
    InsertFolder_def SetFolderParent_def SetFolderName_def DeleteFolderRow_def RevokeSessions_def wopiDeleteByObject_def
  by (intro keeps_rules; auto simp: updObject_def updFolder_def dropObject_def dropSessions_def split: if_splits)+

lemma logged_InsertVersion [keeps_rules]: "keeps (logged A) (InsertVersion i v n s rs)"
proof -
  have "keeps (logged A) (insertVersionRow v)" for v
    by (rule keeps_insertVersionRow) (auto simp: addVersion_def logged_def split: if_splits)
  moreover have "keeps (logged A) (upsertChunk ref)" "keeps (logged A) (insertManifest v n h)" for ref v n h
    unfolding upsertChunk_def insertManifest_def by (intro keeps_rules; auto split: if_splits)+
  ultimately show ?thesis unfolding InsertVersion_def insertRef_def by (intro keeps_rules) auto
qed

text \<open>The stored blobs are beside the log.\<close>

lemma logged_frame: "logged A w \<Longrightarrow> blob_frame w w' \<Longrightarrow> logged A w'"
  by (simp add: logged_def blob_frame_def)

lemma logged_Ingest:
  assumes "progressing r"
  shows "keeps (logged A) (Ingest P (FS root) c r)"
proof (rule keepsI)
  fix w assume w: "logged A w"
  obtain res w' where i: "Ingest P (FS root) c r w = (res, w')" by fastforce
  from fs_store.Ingest_spec(1) [OF assms i] show "logged A (snd (Ingest P (FS root) c r w))"
    using w i logged_frame by simp
qed

lemma logged_bs_Delete [keeps_rules]: "keeps (logged A) (bs_Delete (FS root) h)"
proof (rule keepsI)
  fix w :: "kamara_db world" assume w: "logged A w"
  obtain res w' where d: "bs_Delete (FS root) h w = (res, w')" by fastforce
  from fs_store.Delete_frame [OF d] show "logged A (snd (bs_Delete (FS root) h w))"
    using w d logged_frame by simp
qed

lemma sessionless_logged [simp]: "sessionless (logged A)"
  by (simp add: sessionless_def) (simp add: logged_def dropSessions_def)

lemma logged_reclaim [keeps_rules]: "keeps (logged A) (reclaimObject i)"
  unfolding reclaimObject_def ChunkHashesOf_def by (intro keeps_rules logged_aside)

lemma logged_txs [keeps_rules]:
  "keeps (logged A) (uploadTx owner x v tot rs)" "keeps (logged A) (writeTx caller i v base tot rs)"
  "keeps (logged A) (deleteTx caller i)" "keeps (logged A) (createFolderTx owner fo)" "keeps (logged A) (renameFileTx owner i x name)"
  "keeps (logged A) (moveFileTx owner i x dest)" "keeps (logged A) (renameFolderTx owner i fo name)"
  "keeps (logged A) (moveFolderTx owner i fo dest)" "keeps (logged A) (deleteFolderTx owner fo)"
  unfolding uploadTx_def writeTx_def MaxOrdinal_def deleteTx_def GetObject_def createFolderTx_def renameFileTx_def moveFileTx_def
    renameFolderTx_def moveFolderTx_def deleteFolderTx_def
  by (intro keeps_rules logged_aside)+

lemma logged_deleteTree [keeps_rules]: "keeps (logged A) (deleteTreeTx coll caller root)"
proof -
  have "keeps (logged A) (deleteObjects caller xs os)" for xs os
    by (induction xs arbitrary: os) (auto intro!: keeps_rules)
  then show ?thesis unfolding deleteTreeTx_def by (auto intro!: keeps_rules)
qed

lemma logged_ops:
  "progressing r \<Longrightarrow> keeps (logged A) (Upload (onDisk root V) u fid name r)"
  "progressing r \<Longrightarrow> keeps (logged A) (writeVersion (onDisk root V) u i r base)"
  "keeps (logged A) (DeleteFile (onDisk root V) u i)"
  "keeps (logged A) (CreateFolder S u fid name)" "keeps (logged A) (RenameFile S u i name)" "keeps (logged A) (MoveFile S u i fid)"
  "keeps (logged A) (RenameFolder S u i name)" "keeps (logged A) (MoveFolder S u i fid)" "keeps (logged A) (DeleteFolder S u i)"
  "keeps (logged A) (DeleteFolderTree (onDisk root V) u i)"
  unfolding Upload_def writeVersion_def writeAttempt_def DeleteFile_def CreateFolder_def RenameFile_def MoveFile_def RenameFolder_def
    MoveFolder_def DeleteFolder_def DeleteFolderTree_def Let_def GetObject_def GetFolderRow_def FolderHasChildren_def cycleGuard_def onDisk_simps
  by (auto intro!: logged_Ingest keeps_rules keeps_contended keeps_rivalSave simp: writeAttempt_def)

lemma logged_EraseFiles: "keeps (logged A) (EraseFiles (onDisk root V) s)"
  unfolding EraseFiles_def eraseFile_def eraseFolder_def ByOwner_def FoldersByOwner_def ChunkHashesOf_def onDisk_simps
  by (auto intro!: keeps_rules)

interpretation audit: service_contract "onDisk root V" "logged A" for root V A
  by unfold_locales (simp_all add: logged_ops)

end
