(* ===== verification/Contracts.thy ===== *)
theory Contracts
  imports Audit_Trail
begin

text \<open>
  Two more instances of the contract between the file service and its front doors (\<open>Handlers\<close>), beside the
  audit log: the consistency of the tables with the stored blobs, and the clock, which no operation sets.
\<close>

section \<open>Consistency\<close>

text \<open>With primitives and a key as \<open>svc_ok\<close> states, the tables and the blobs agree.\<close>

definition intact :: "string \<Rightarrow> svc \<Rightarrow> kamara_db world \<Rightarrow> bool" where
  "intact root V w \<longleftrightarrow> (svc_ok V \<longrightarrow> consistent False (onDisk root V) (fsBlobs root w) (w_db w))"

lemma fsBlobs_free [simp]:
  "fsBlobs root (w\<lparr>w_faults := fs\<rparr>) = fsBlobs root w" "fsBlobs root (w\<lparr>w_rand := rn\<rparr>) = fsBlobs root w"
  "fsBlobs root (w\<lparr>w_fga := g\<rparr>) = fsBlobs root w" "fsBlobs root (w\<lparr>w_now := t\<rparr>) = fsBlobs root w"
  "fsBlobs root (w\<lparr>w_db := d\<rparr>) = fsBlobs root w"
  by (rule fs_store.blobs_frame, simp)+

lemma tokenless_intact: "tokenless (intact root V)"
  by (simp add: tokenless_def faultless_def randless_def intact_def) (simp add: consistent_def good_def)

lemma keeps_intact:
  assumes "svc_ok V \<Longrightarrow> keeps (\<lambda>w. consistent False (onDisk root V) (fsBlobs root w) (w_db w)) m"
  shows "keeps (intact root V) m"
  by (rule keepsI) (use assms in \<open>auto simp: intact_def dest: keepsD\<close>)

lemma svc_ok_disk [simp]: "svc_ok (onDisk root V) = svc_ok V"
  by (simp add: svc_ok_def)

interpretation store: service_contract "onDisk root V" "intact root V" for root V
proof (unfold_locales, goal_cases)
  case 1
  show ?case by (rule tokenless_intact)
next
  case 2
  show ?case by simp
next
  case (3 r u fid name)
  then show ?case by (intro keeps_intact disk.Upload_consistent) simp_all
next
  case (4 r u i base)
  then show ?case by (intro keeps_intact disk.writeVersion_consistent) simp_all
qed (intro keeps_intact disk.DeleteFile_consistent disk.folder_ops_consistent disk.DeleteFolderTree_consistent)+

section \<open>The clock\<close>

abbreviation clocked :: "int \<Rightarrow> kamara_db world \<Rightarrow> bool" where
  "clocked t \<equiv> \<lambda>w. w_now w = t"

lemma clocked_free [simp]:
  "faultless (clocked t)" "randless (clocked t)" "tupleless (clocked t)" "tokenless (clocked t)" "sessionless (clocked t)"
  by (simp_all add: faultless_def randless_def tupleless_def tokenless_def sessionless_def)

lemma clocked_exec [keeps_rules]: "keeps (clocked t) (exec f)"
  by (rule keeps_exec) simp_all

lemma clocked_InTx [keeps_rules]: "keeps (clocked t) fn \<Longrightarrow> keeps (clocked t) (InTx fn)"
  by (rule keeps_InTx) simp_all

lemma clocked_conv [keeps_rules]:
  "keeps (clocked t) (Emit actor action obj)" "keeps (clocked t) (Feed doc)" "keeps (clocked t) (Remove i)"
  unfolding Emit_def auditAppend_def Feed_def searchUpsert_def Remove_def searchDelete_def
  by (intro keeps_rules keeps_TokenFor; simp add: pseudless_def)+

lemma clocked_InsertVersion [keeps_rules]: "keeps (clocked t) (InsertVersion i v n s rs)"
proof -
  have "keeps (clocked t) (insertVersionRow v)" for v by (rule keeps_insertVersionRow) simp_all
  then show ?thesis unfolding InsertVersion_def insertRef_def upsertChunk_def insertManifest_def by (intro keeps_rules)
qed

lemma clocked_frame:
  fixes m :: "'a kamara"
  assumes "\<And>w res w'. m w = (res, w') \<Longrightarrow> blob_frame w w'"
  shows "keeps (clocked t) m"
proof (rule keepsI)
  fix w :: "kamara_db world" assume "w_now w = t"
  moreover have "blob_frame w (snd (m w))" using assms by (metis prod.collapse)
  ultimately show "w_now (snd (m w)) = t" by (simp add: blob_frame_def)
qed

lemma clocked_blobs:
  "progressing r \<Longrightarrow> keeps (clocked t) (Ingest P (FS root) c r)" "keeps (clocked t) (bs_Delete (FS root) h)"
  by (rule clocked_frame, erule (1) fs_store.Ingest_spec(1))
    (rule clocked_frame, erule fs_store.Delete_frame)

lemma clocked_txs [keeps_rules]:
  "keeps (clocked t) (reclaimObject i)" "keeps (clocked t) (uploadTx owner x v tot rs)" "keeps (clocked t) (writeTx caller i v base tot rs)"
  "keeps (clocked t) (deleteTx caller i)" "keeps (clocked t) (createFolderTx owner fo)" "keeps (clocked t) (renameFileTx owner i x name)"
  "keeps (clocked t) (moveFileTx owner i x dest)" "keeps (clocked t) (renameFolderTx owner i fo name)"
  "keeps (clocked t) (moveFolderTx owner i fo dest)" "keeps (clocked t) (deleteFolderTx owner fo)"
  unfolding reclaimObject_def ChunkHashesOf_def DeleteObject_def DecRef_def decOne_def DeleteChunks_def uploadTx_def InsertObject_def
    writeTx_def MaxOrdinal_def SetObjectSize_def deleteTx_def GetObject_def createFolderTx_def renameFileTx_def moveFileTx_def
    renameFolderTx_def moveFolderTx_def deleteFolderTx_def InsertFolder_def SetObjectName_def SetObjectFolder_def SetFolderName_def
    SetFolderParent_def DeleteFolderRow_def
  by (intro keeps_rules clocked_free)+

lemma clocked_deleteTree [keeps_rules]: "keeps (clocked t) (deleteTreeTx coll caller root)"
proof -
  have "keeps (clocked t) (deleteObjects caller xs os)" for xs os
    by (induction xs arbitrary: os) (auto intro!: keeps_rules)
  then show ?thesis unfolding deleteTreeTx_def by (auto intro!: keeps_rules)
qed

lemma clocked_ops:
  "progressing r \<Longrightarrow> keeps (clocked t) (Upload (onDisk root V) u fid name r)"
  "progressing r \<Longrightarrow> keeps (clocked t) (writeVersion (onDisk root V) u i r base)"
  "keeps (clocked t) (DeleteFile (onDisk root V) u i)"
  "keeps (clocked t) (CreateFolder S u fid name)" "keeps (clocked t) (RenameFile S u i name)" "keeps (clocked t) (MoveFile S u i fid)"
  "keeps (clocked t) (RenameFolder S u i name)" "keeps (clocked t) (MoveFolder S u i fid)" "keeps (clocked t) (DeleteFolder S u i)"
  "keeps (clocked t) (DeleteFolderTree (onDisk root V) u i)" "keeps (clocked t) (EraseFiles (onDisk root V) u)"
  unfolding Upload_def writeVersion_def writeAttempt_def DeleteFile_def CreateFolder_def RenameFile_def MoveFile_def RenameFolder_def
    MoveFolder_def DeleteFolder_def DeleteFolderTree_def Let_def GetObject_def GetFolderRow_def FolderHasChildren_def cycleGuard_def
    RevokeSessions_def wopiDeleteByObject_def EraseFiles_def eraseFile_def eraseFolder_def ByOwner_def FoldersByOwner_def
    ChunkHashesOf_def DeleteObject_def DecRef_def decOne_def DeleteChunks_def DeleteFolderRow_def onDisk_simps
  by (auto intro!: clocked_blobs keeps_rules keeps_contended keeps_rivalSave simp: writeAttempt_def)

interpretation clock: service_contract "onDisk root V" "clocked t" for root V t
  by unfold_locales (simp_all add: clocked_ops)

end
