(* ===== verification/Userinfo.thy ===== *)
theory Userinfo
  imports Api Wopi Session
begin

text \<open>
  The production authenticator of the storage API, \<open>kamara/internal/api/auth_userinfo.go\<close>: a bearer token is
  resolved by the userinfo endpoint of the tenant's provider, the answer is cached in a session store
  (\<open>lib/session\<close>), and a JWT whose \<open>exp\<close> has passed is refused before the cache is asked. The locale
  \<open>authenticator_contract\<close> is what the handlers rely on of an \<open>Authenticator\<close>.
\<close>

section \<open>Decoding\<close>

text \<open>\<open>strings.Split\<close> at a one-character separator.\<close>

fun splitOn :: "char \<Rightarrow> string \<Rightarrow> string list" where
  "splitOn c [] = [[]]"
| "splitOn c (x # xs) =
    (if x = c then [] # splitOn c xs
     else case splitOn c xs of [] \<Rightarrow> [[x]] | p # ps \<Rightarrow> (x # p) # ps)"

text \<open>
  \<open>base64.RawURLEncoding.DecodeString\<close>: line breaks are skipped, every other character outside the alphabet
  (the padding character too) is an error, and so is a single digit left over; the unused low bits of the
  last digit are not looked at.
\<close>

definition urlValue :: "char \<Rightarrow> nat option" where
  "urlValue c =
    (let n = of_char c :: nat
     in if 65 \<le> n \<and> n \<le> 90 then Some (n - 65)
        else if 97 \<le> n \<and> n \<le> 122 then Some (n - 71)
        else if 48 \<le> n \<and> n \<le> 57 then Some (n + 4)
        else if n = 45 then Some 62 else if n = 95 then Some 63 else None)"

fun urlQuads :: "nat list \<Rightarrow> bytes option" where
  "urlQuads (a # b # c # d # ds) =
    (let n = a * 262144 + b * 4096 + c * 64 + d
     in map_option (\<lambda>bs. of_nat (n div 65536) # of_nat (n div 256 mod 256) # of_nat (n mod 256) # bs) (urlQuads ds))"
| "urlQuads [a, b, c] =
    (let n = a * 262144 + b * 4096 + c * 64 in Some [of_nat (n div 65536), of_nat (n div 256 mod 256)])"
| "urlQuads [a, b] = (let n = a * 262144 + b * 4096 in Some [of_nat (n div 65536)])"
| "urlQuads [a] = None"
| "urlQuads [] = Some []"

definition rawURLDecode :: "string \<Rightarrow> bytes option" where
  "rawURLDecode s =
    (let cs = filter (\<lambda>c. c \<noteq> CHR 0x0A \<and> c \<noteq> CHR 0x0D) s
     in if list_all (\<lambda>c. urlValue c \<noteq> None) cs then urlQuads (map (\<lambda>c. the (urlValue c)) cs) else None)"

text \<open>
  Decoding a JSON document into a struct with one field, as \<open>encoding/json\<close> does: the document \<open>null\<close> leaves
  the zero value, a document that is not an object is an error, every member whose name matches the
  field's (names match up to case folding) is stored in turn, \<open>null\<close> stores nothing, and a value of
  another type is an error.
\<close>

fun foldName :: "string \<Rightarrow> string" where
  "foldName [] = []"
| "foldName (c # cs) =
    (if c = CHR 0xC5 \<and> take 1 cs = [CHR 0xBF] then CHR ''s'' # foldName (drop 1 cs)
     else if c = CHR 0xE2 \<and> take 2 cs = [CHR 0x84, CHR 0xAA] then CHR ''k'' # foldName (drop 2 cs)
     else lowerAscii c # foldName cs)"

definition decodeField :: "(json \<Rightarrow> 'a option) \<Rightarrow> string \<Rightarrow> 'a \<Rightarrow> json \<Rightarrow> 'a option" where
  "decodeField conv name zero doc = (case doc of
     JNull \<Rightarrow> Some zero
   | JObj ms \<Rightarrow>
       foldl (\<lambda>acc m. if foldName (fst m) \<noteq> name \<or> snd m = JNull then acc
                      else case acc of None \<Rightarrow> None | Some _ \<Rightarrow> conv (snd m)) (Some zero) ms
   | _ \<Rightarrow> None)"

definition jsonString :: "json \<Rightarrow> string option" where
  "jsonString j = (case j of JStr s \<Rightarrow> Some s | _ \<Rightarrow> None)"

definition jsonInt64 :: "json \<Rightarrow> int option" where
  "jsonInt64 j = (case j of JNum n \<Rightarrow> if - (2 ^ 63) \<le> n \<and> n < 2 ^ 63 then Some n else None | _ \<Rightarrow> None)"

section \<open>The authenticator\<close>

text \<open>
  The provider's answer to a userinfo request for a token at a time: none (a transport failure), or a
  status with the JSON document of the body (\<open>None\<close> when it does not parse). The parser that
  \<open>tokenExpired\<close> applies to the payload is a parameter.
\<close>

datatype reply = Unreachable | Reply nat "json option"

record userinfo_auth =
  ua_userinfo :: "int \<Rightarrow> string \<Rightarrow> reply"
  ua_parse :: "bytes \<Rightarrow> json option"
  ua_instance :: string
  ua_ttl :: int

definition NewUserinfoAuth :: "(int \<Rightarrow> string \<Rightarrow> reply) \<Rightarrow> (bytes \<Rightarrow> json option) \<Rightarrow> string \<Rightarrow> int \<Rightarrow> userinfo_auth \<times> subject sstore" where
  "NewUserinfoAuth provider parse inst ttl =
    (let ttl = (if ttl = 0 then 60 * 1000000000 else ttl)
     in (\<lparr>ua_userinfo = provider, ua_parse = parse, ua_instance = inst, ua_ttl = ttl\<rparr>, NewStore ttl))"

definition tokenExpired :: "(bytes \<Rightarrow> json option) \<Rightarrow> string \<Rightarrow> int \<Rightarrow> bool" where
  "tokenExpired parse token now =
    (let parts = splitOn (CHR ''.'') token in
     if length parts \<noteq> 3 then False
     else case rawURLDecode (parts ! 1) of
       None \<Rightarrow> False
     | Some payload \<Rightarrow> (case parse payload of
           None \<Rightarrow> False
         | Some doc \<Rightarrow> (case decodeField jsonInt64 ''exp'' 0 doc of
               None \<Rightarrow> False
             | Some e \<Rightarrow> e \<noteq> 0 \<and> now div 1000000000 \<ge> e)))"

definition cacheGet :: "string \<Rightarrow> (kamara_db world \<times> subject sstore, subject option) io" where
  "cacheGet token = (\<lambda>(w, c). case GetSession (w_now w) token c of (v, c') \<Rightarrow> (Inr v, (w, c')))"

definition cachePut :: "string \<Rightarrow> subject \<Rightarrow> (kamara_db world \<times> subject sstore, unit) io" where
  "cachePut token s = (\<lambda>(w, c). (Inr (), (w, PutSession (w_now w) token s c)))"

definition Subject :: "userinfo_auth \<Rightarrow> subject sstore authenticator" where
  "Subject A token =
    bnd (gets (w_now \<circ> fst)) (\<lambda>now.
    if tokenExpired (ua_parse A) token now then ret None
    else
      bnd (cacheGet token) (\<lambda>hit.
      case hit of
        Some s \<Rightarrow> ret (Some s)
      | None \<Rightarrow> (case ua_userinfo A now token of
            Unreachable \<Rightarrow> fail ErrIO
          | Reply status body \<Rightarrow>
              if status = 401 \<or> status = 403 then ret None
              else if status \<noteq> 200 then fail ErrIO
              else case body of
                None \<Rightarrow> fail ErrIO
              | Some doc \<Rightarrow> (case decodeField jsonString ''sub'' [] doc of
                    None \<Rightarrow> fail ErrIO
                  | Some sub \<Rightarrow>
                      if sub = [] then fail ErrIO
                      else
                        let s = \<lparr>sub_Instance = ua_instance A, sub_UserID = sub\<rparr>
                        in bnd (cachePut token s) (\<lambda>_. ret (Some s))))))"

section \<open>What the handlers rely on\<close>

text \<open>The states an authenticator reaches while requests come in over time.\<close>

inductive served :: "'s authenticator \<Rightarrow> int \<Rightarrow> 's \<Rightarrow> int \<Rightarrow> 's \<Rightarrow> bool" for auth t0 s0 where
  start: "served auth t0 s0 t0 s0"
| asked: "served auth t0 s0 t s \<Longrightarrow> t \<le> w_now w \<Longrightarrow> auth tok (w, s) = (r, (w', s')) \<Longrightarrow> served auth t0 s0 (w_now w) s'"

text \<open>
  The contract of an \<open>Authenticator\<close> with its own state: it leaves the rest of the world alone, its
  invariant survives its calls and the passing of time, and it names a subject only when that subject
  is vouched for.
\<close>

locale authenticator_contract =
  fixes auth :: "'s authenticator" and inv :: "int \<Rightarrow> 's \<Rightarrow> bool" and vouched :: "int \<Rightarrow> string \<Rightarrow> subject \<Rightarrow> bool"
  assumes auth_world: "auth tok (w, s) = (r, (w', s')) \<Longrightarrow> w' = w"
    and auth_inv: "inv (w_now w) s \<Longrightarrow> auth tok (w, s) = (r, (w', s')) \<Longrightarrow> inv (w_now w) s'"
    and inv_later: "inv t s \<Longrightarrow> t \<le> t' \<Longrightarrow> inv t' s"
    and auth_vouched: "inv (w_now w) s \<Longrightarrow> auth tok (w, s) = (Inr (Some u), p) \<Longrightarrow> vouched (w_now w) tok u"
begin

lemma authed_cases:
  assumes i: "inv (w_now w) s" and r: "authed auth h r (w, s) = (res, (w', s'))"
  shows "inv (w_now w) s' \<and>
    (w' = w \<and> (\<exists>resp. res = Inr resp \<and> rs_Status resp \<in> {401, 502}) \<or>
     (\<exists>u. bearer r \<noteq> [] \<and> vouched (w_now w) (bearer r) u \<and> h r u w = (res, w')))"
proof (cases "bearer r = []")
  case True
  then show ?thesis using i r by (auto simp: authed_def Let_def ret_apply writeErr_def writeJSON_def)
next
  case False
  obtain a w1 s1 where a: "auth (bearer r) (w, s) = (a, (w1, s1))" by (metis prod.exhaust)
  have w1: "w1 = w" using auth_world [OF a] .
  have i1: "inv (w_now w) s1" using auth_inv [OF i a] .
  show ?thesis
  proof (cases a)
    case (Inl e)
    then show ?thesis using False a w1 i1 r by (auto simp: authed_def Let_def attempt_def ret_apply writeErr_def writeJSON_def)
  next
    case (Inr x)
    show ?thesis
    proof (cases x)
      case None
      then show ?thesis using Inr False a w1 i1 r by (auto simp: authed_def Let_def attempt_def ret_apply writeErr_def writeJSON_def)
    next
      case (Some u)
      then have v: "vouched (w_now w) (bearer r) u" using auth_vouched [OF i] a Inr by simp
      have "lift (h r u) (w, s1) = (res, (w', s'))"
        using Inr Some False a w1 r by (simp add: authed_def Let_def attempt_def)
      then have "h r u w = (res, w')" "s' = s1" by (auto simp: lift_def split: prod.splits)
      then show ?thesis using False v i1 by auto
    qed
  qed
qed

lemma served_inv: "served auth t0 s0 t s \<Longrightarrow> inv t0 s0 \<Longrightarrow> inv t s"
proof (induction rule: served.induct)
  case (asked t s w tok r w' s')
  then show ?case using auth_inv inv_later by blast
qed

end

section \<open>The contract holds\<close>

text \<open>The provider accepted the token, for a subject, at a time.\<close>

definition accepts :: "userinfo_auth \<Rightarrow> int \<Rightarrow> string \<Rightarrow> subject \<Rightarrow> bool" where
  "accepts A t token s \<longleftrightarrow> sub_Instance s = ua_instance A \<and> sub_UserID s \<noteq> [] \<and>
     (\<exists>doc. ua_userinfo A t token = Reply 200 (Some doc) \<and> decodeField jsonString ''sub'' [] doc = Some (sub_UserID s))"

abbreviation cacheInv :: "userinfo_auth \<Rightarrow> int \<Rightarrow> subject sstore \<Rightarrow> bool" where
  "cacheInv A \<equiv> backed (ua_ttl A) (accepts A)"

definition recentlyAccepted :: "userinfo_auth \<Rightarrow> int \<Rightarrow> string \<Rightarrow> subject \<Rightarrow> bool" where
  "recentlyAccepted A t token s \<longleftrightarrow> \<not> tokenExpired (ua_parse A) token t \<and>
     (\<exists>t0 \<le> t. accepts A t0 token s \<and> (t0 = t \<or> t - t0 \<le> ua_ttl A))"

text \<open>Every run of \<open>Subject\<close>: refused as expired, answered from the cache, or asked of the provider.\<close>

lemma Subject_cases:
  assumes S: "Subject A token (w, c) = (r, (w', c'))" and i: "cacheInv A (w_now w) c"
  shows "w' = w \<and> cacheInv A (w_now w) c' \<and> (\<forall>u. r = Inr (Some u) \<longrightarrow> recentlyAccepted A (w_now w) token u)"
proof (cases "tokenExpired (ua_parse A) token (w_now w)")
  case True
  then show ?thesis using S i by (auto simp: Subject_def bnd_apply ret_apply)
next
  case False
  obtain v c1 where g: "GetSession (w_now w) token c = (v, c1)" by fastforce
  note gc = backed_get [OF i g]
  have i1: "cacheInv A (w_now w) c1" using gc by blast
  show ?thesis
  proof (cases v)
    case (Some s)
    then have "recentlyAccepted A (w_now w) token s" unfolding recentlyAccepted_def using False gc by auto
    then show ?thesis using S Some False g i1 by (auto simp: Subject_def bnd_apply ret_apply cacheGet_def)
  next
    case None
    have new: "recentlyAccepted A (w_now w) token s" if "accepts A (w_now w) token s" for s
      unfolding recentlyAccepted_def using False that by auto
    show ?thesis
    proof (cases "ua_userinfo A (w_now w) token")
      case Unreachable
      then show ?thesis using S None False g i1 by (auto simp: Subject_def bnd_apply fail_apply cacheGet_def)
    next
      case (Reply status body)
      show ?thesis
        using S None False g i1 Reply new backed_put [OF i1]
        by (auto simp: Subject_def bnd_apply fail_apply ret_apply cacheGet_def cachePut_def accepts_def Let_def
            split: if_splits option.splits)
    qed
  qed
qed

interpretation userinfo: authenticator_contract "Subject A" "cacheInv A" "recentlyAccepted A" for A
proof (unfold_locales, goal_cases)
  case (1 tok w s r w' s')
  have pure: "fst (snd (Subject A tok (w, s))) = w" for A tok w s
    by (auto simp: Subject_def bnd_apply fail_apply ret_apply cacheGet_def cachePut_def Let_def
        split: if_splits option.splits reply.splits prod.splits)
  show ?case using 1 pure [of A tok w s] by simp
next
  case (2 w s tok r w' s')
  then show ?case using Subject_cases by blast
next
  case (3 t s t')
  then show ?case by (rule backed_later)
next
  case (4 w s tok u p)
  then show ?case using Subject_cases [of A tok w s] by (cases p) auto
qed

lemma cacheInv_new: "NewUserinfoAuth P parse inst ttl = (A, c) \<Longrightarrow> cacheInv A t c"
  by (auto simp: NewUserinfoAuth_def Let_def backed_new)

section \<open>Properties\<close>

text \<open>Authentication, end to end. After any sequence of requests over time, an API request whose answer is
  neither 401 nor 502, or that changes anything, carries a non-empty bearer token that has not expired
  and that the tenant's provider accepted, for the subject on whose behalf the handler then ran, at this
  moment or at most one cache lifetime ago.\<close>

theorem api_authenticated:
  assumes "NewUserinfoAuth provider parse inst ttl = (A, c0)" "served (Subject A) t0 c0 t c" "t \<le> w_now w"
    and run: "Routes S n (Subject A) route r (w, c) = (Inr resp, (w', c'))" and act: "rs_Status resp \<notin> {401, 502} \<or> w' \<noteq> w"
  shows "\<exists>u. bearer r \<noteq> [] \<and> recentlyAccepted A (w_now w) (bearer r) u \<and> apiHandler S n route r u w = (Inr resp, w')"
proof -
  have "cacheInv A t c" using userinfo.served_inv [OF assms(2) cacheInv_new [OF assms(1)]] .
  then have "cacheInv A (w_now w) c" using userinfo.inv_later assms(3) by blast
  then show ?thesis using userinfo.authed_cases [OF _ run [unfolded Routes_def]] act by auto
qed

section \<open>Expired tokens\<close>

lemma urlDigit_all:
  "list_all (\<lambda>n. urlValue (urlDigit n) = Some n \<and> urlDigit n \<noteq> CHR 0x0A \<and> urlDigit n \<noteq> CHR 0x0D \<and> urlDigit n \<noteq> CHR ''.'') [0..<64]"
  by (simp add: urlDigit_def urlValue_def of_char_def upt_rec Let_def)

lemma urlDigit_simps [simp]:
  assumes "n < 64"
  shows "urlValue (urlDigit n) = Some n" "urlDigit n \<noteq> CHR 0x0A" "urlDigit n \<noteq> CHR 0x0D" "urlDigit n \<noteq> CHR ''.''"
  using urlDigit_all assms by (auto simp: list_all_iff)

lemma byte_lt [simp]: "unat (b :: byte) < 256"
  using unsigned_less [of b] by simp

lemma quad_digits:
  fixes n :: nat assumes "n < 16777216"
  shows "n div 262144 * 262144 + n div 4096 mod 64 * 4096 + n div 64 mod 64 * 64 + n mod 64 = n" "n div 262144 < 64"
proof -
  have d: "n div 4096 = n div 64 div 64" "n div 262144 = n div 64 div 64 div 64" by (simp_all add: div_mult2_eq [symmetric])
  show "n div 262144 * 262144 + n div 4096 mod 64 * 4096 + n div 64 mod 64 * 64 + n mod 64 = n"
    using div_mult_mod_eq [of n 64] div_mult_mod_eq [of "n div 64" 64] div_mult_mod_eq [of "n div 64 div 64" 64]
    unfolding d by linarith
  show "n div 262144 < 64" using assms by (simp add: div_less_iff_less_mult)
qed

lemma quad_bytes:
  fixes a b c :: nat assumes "a < 256" "b < 256" "c < 256"
  shows "a * 65536 + b * 256 + c < 16777216" "(a * 65536 + b * 256 + c) div 65536 = a"
    "(a * 65536 + b * 256 + c) div 256 mod 256 = b" "(a * 65536 + b * 256 + c) mod 256 = c"
proof -
  let ?n = "a * 65536 + b * 256 + c" and ?x = "a * 256 + b"
  have n: "?n = c + ?x * 256" by simp
  show "?n < 16777216" using assms by linarith
  show "?n mod 256 = c" unfolding n using assms by (simp only: mod_mult_self1) simp
  have x: "?n div 256 = ?x" unfolding n using assms by simp
  have "?x = b + a * 256" by simp
  then have y: "?x mod 256 = b" "?x div 256 = a" using assms by simp_all
  show "?n div 256 mod 256 = b" unfolding x by (rule y)
  have "?n div 65536 = ?n div 256 div 256" by (simp add: div_mult2_eq [symmetric])
  then show "?n div 65536 = a" unfolding x y .
qed

lemma rawURLEncode_chars: "set (rawURLEncode bs) \<subseteq> urlDigit ` {..<64}"
proof (induction bs rule: rawURLEncode.induct)
  case (1 a b c bs)
  then show ?case using quad_digits(2) [OF quad_bytes(1) [of "unat a" "unat b" "unat c"]]
    by (simp add: Let_def)
next
  case (2 a b)
  then show ?case using quad_digits(2) [OF quad_bytes(1) [of "unat a" "unat b" 0]]
    by (simp add: Let_def)
next
  case (3 a)
  then show ?case using quad_digits(2) [OF quad_bytes(1) [of "unat a" 0 0]]
    by (simp add: Let_def)
qed simp

lemma rawURLEncode_char:
  assumes "c \<in> set (rawURLEncode bs)"
  shows "urlValue c \<noteq> None" "c \<noteq> CHR 0x0A" "c \<noteq> CHR 0x0D" "c \<noteq> CHR ''.''"
proof -
  obtain n where "n < 64" "c = urlDigit n" using assms rawURLEncode_chars [of bs] by auto
  then show "urlValue c \<noteq> None" "c \<noteq> CHR 0x0A" "c \<noteq> CHR 0x0D" "c \<noteq> CHR ''.''" by simp_all
qed

lemma rest_digits:
  fixes a b :: nat
  shows "(a * 65536 + b * 256) mod 64 = 0" "a * 65536 mod 64 = 0" "a * 65536 div 64 mod 64 = 0"
proof -
  have e: "a * 65536 + b * 256 = (a * 1024 + b * 4) * 64" "a * 65536 = a * 1024 * 64" "a * 1024 = a * 16 * 64" by simp_all
  show "(a * 65536 + b * 256) mod 64 = 0" unfolding e(1) by (rule mod_mult_self2_is_0)
  show "a * 65536 mod 64 = 0" unfolding e(2) by (rule mod_mult_self2_is_0)
  have "a * 65536 div 64 = a * 1024" unfolding e(2) by (rule nonzero_mult_div_cancel_right) simp
  then show "a * 65536 div 64 mod 64 = 0" unfolding e(3) by simp
qed

lemma urlQuads_encode: "urlQuads (map (\<lambda>c. the (urlValue c)) (rawURLEncode bs)) = Some bs"
proof (induction bs rule: rawURLEncode.induct)
  case (1 a b c bs)
  define n where "n = unat a * 65536 + unat b * 256 + unat c"
  have q: "n < 16777216" "n div 65536 = unat a" "n div 256 mod 256 = unat b" "n mod 256 = unat c"
    using quad_bytes [of "unat a" "unat b" "unat c"] by (simp_all add: n_def)
  show ?case using 1 q(2-4) quad_digits [OF q(1)] by (simp add: Let_def n_def [symmetric])
next
  case (2 a b)
  define n where "n = unat a * 65536 + unat b * 256"
  have q: "n < 16777216" "n div 65536 = unat a" "n div 256 mod 256 = unat b"
    using quad_bytes [of "unat a" "unat b" 0] by (simp_all add: n_def)
  have "n mod 64 = 0" unfolding n_def by (rule rest_digits)
  then show ?case using q(2,3) quad_digits [OF q(1)] by (simp add: Let_def n_def [symmetric])
next
  case (3 a)
  define n where "n = unat a * 65536"
  have q: "n < 16777216" "n div 65536 = unat a" using quad_bytes [of "unat a" 0 0] by (simp_all add: n_def)
  have "n mod 64 = 0" "n div 64 mod 64 = 0" unfolding n_def by (rule rest_digits)+
  then show ?case using q(2) quad_digits [OF q(1)] by (simp add: Let_def n_def [symmetric])
qed simp

lemma rawURLDecode_encode: "rawURLDecode (rawURLEncode bs) = Some bs"
proof -
  have "filter (\<lambda>c. c \<noteq> CHR 0x0A \<and> c \<noteq> CHR 0x0D) (rawURLEncode bs) = rawURLEncode bs"
    by (rule filter_True) (use rawURLEncode_char in blast)
  moreover have "list_all (\<lambda>c. urlValue c \<noteq> None) (rawURLEncode bs)"
    unfolding list_all_iff using rawURLEncode_char(1) by blast
  ultimately show ?thesis by (simp add: rawURLDecode_def urlQuads_encode)
qed

lemma splitOn_part: "c \<notin> set xs \<Longrightarrow> splitOn c (xs @ c # ys) = xs # splitOn c ys"
  by (induction xs) auto

lemma splitOn_last: "c \<notin> set xs \<Longrightarrow> splitOn c xs = [xs]"
  by (induction xs) auto

text \<open>The three parts of a JWT.\<close>

definition jwt :: "string \<Rightarrow> bytes \<Rightarrow> string \<Rightarrow> string" where
  "jwt header payload sig = header @ ''.'' @ rawURLEncode payload @ ''.'' @ sig"

lemma splitOn_jwt:
  assumes "CHR ''.'' \<notin> set header" "CHR ''.'' \<notin> set sig"
  shows "splitOn (CHR ''.'') (jwt header payload sig) = [header, rawURLEncode payload, sig]"
proof -
  have "CHR ''.'' \<notin> set (rawURLEncode payload)" using rawURLEncode_char(4) by blast
  then show ?thesis using assms by (simp add: jwt_def splitOn_part splitOn_last)
qed

text \<open>A field that occurs once among the members of a document, whatever else the document holds.\<close>

lemma foldl_skip:
  "(\<And>m. m \<in> set ms \<Longrightarrow> f acc m = acc) \<Longrightarrow> foldl f acc ms = acc"
  by (induction ms) simp_all

lemma decodeField_once:
  assumes "filter (\<lambda>m. foldName (fst m) = name) ms = [(k, v)]" "v \<noteq> JNull"
  shows "decodeField conv name zero (JObj ms) = conv v"
proof -
  obtain us vs where ms: "ms = us @ (k, v) # vs" and us: "\<forall>m \<in> set us. foldName (fst m) \<noteq> name"
    and k: "foldName k = name" and vs: "[] = filter (\<lambda>m. foldName (fst m) = name) vs"
    using assms(1) by (auto simp: filter_eq_Cons_iff simp del: filter_empty_conv)
  have no: "foldName (fst m) \<noteq> name" if "m \<in> set us \<union> set vs" for m
    using us vs that by (auto simp: filter_empty_conv eq_commute [of "[]"])
  let ?f = "\<lambda>acc m. if foldName (fst m) \<noteq> name \<or> snd m = JNull then acc else case acc of None \<Rightarrow> None | Some _ \<Rightarrow> conv (snd m)"
  have "foldl ?f (Some zero) us = Some zero" "foldl ?f (conv v) vs = conv v" by (rule foldl_skip; use no in simp)+
  then show ?thesis using assms(2) k by (simp add: ms decodeField_def)
qed

text \<open>C40. A JWT whose \<open>exp\<close> has passed is refused, whatever other claims it carries, whatever the cache holds and
  whatever the provider would answer, and every request that carries it is answered with 401 and changes nothing.
  The \<open>exp\<close> claim occurs once among the members of the payload and is a positive number.\<close>

theorem expired_refused:
  assumes "CHR ''.'' \<notin> set header" "CHR ''.'' \<notin> set sig" "bearer r = jwt header payload sig"
    and doc: "ua_parse A payload = Some (JObj ms)" "filter (\<lambda>m. foldName (fst m) = ''exp'') ms = [(k, JNum e)]"
    and e: "0 < e" "e < 2 ^ 63" "e \<le> w_now w div 1000000000"
  shows "Routes S n (Subject A) route r (w, c) = (Inr (writeErr 401 ''invalid token''), (w, c))"
proof -
  have "decodeField jsonInt64 ''exp'' 0 (JObj ms) = Some e" using decodeField_once [OF doc(2), of jsonInt64 0] e by (simp add: jsonInt64_def)
  then have x: "tokenExpired (ua_parse A) (bearer r) (w_now w)"
    using assms by (simp add: tokenExpired_def Let_def splitOn_jwt rawURLDecode_encode)
  have ne: "bearer r \<noteq> []" using assms(3) by (simp add: jwt_def)
  have "Subject A (bearer r) (w, c) = (Inr None, (w, c))" using x by (simp add: Subject_def bnd_apply ret_apply)
  then show ?thesis using ne by (simp add: Routes_def authed_def Let_def attempt_def ret_apply)
qed

section \<open>Witnesses\<close>

definition demoProvider :: "int \<Rightarrow> string \<Rightarrow> reply" where
  "demoProvider t token = Reply 200 (Some (JObj [(''sub'', JStr ''ann'')]))"

text \<open>A parser for the one document \<open>{"sub":"ann","exp":1}\<close>.\<close>

definition demoParse :: "bytes \<Rightarrow> json option" where
  "demoParse payload = (if payload = bytesOf ''{\"sub\":\"ann\",\"exp\":1}'' then Some (JObj [(''sub'', JStr ''ann''), (''exp'', JNum 1)]) else None)"

definition demoUserinfo :: userinfo_auth where
  "demoUserinfo = fst (NewUserinfoAuth demoProvider demoParse ''demo'' 0)"

definition jwtRequest :: request where
  "jwtRequest = (demoRequest ''x'' [])\<lparr>rq_Header := (\<lambda>h. if h = ''Authorization'' then ''Bearer a.eyJzdWIiOiJhbm4iLCJleHAiOjF9.b'' else [])\<rparr>"

lemma demo_subject: "Subject demoUserinfo ''t'' (w, NewStore ttl) =
  (Inr (Some \<lparr>sub_Instance = ''demo'', sub_UserID = ''ann''\<rparr>), (w, PutSession (w_now w) ''t'' \<lparr>sub_Instance = ''demo'', sub_UserID = ''ann''\<rparr> (NewStore ttl)))"
proof -
  have "foldName ''sub'' = ''sub''" by (simp add: lowerAscii_def of_char_def)
  then show ?thesis
    by (simp add: Subject_def bnd_apply ret_apply demoUserinfo_def NewUserinfoAuth_def Let_def tokenExpired_def cacheGet_def cachePut_def
        GetSession_def NewStore_def demoProvider_def decodeField_def jsonString_def)
qed

theorem api_authenticated_witness:
  "\<exists>u resp w'. recentlyAccepted demoUserinfo (w_now (demoWorld emptyDb)) ''t'' u \<and>
     apiHandler demoSvc 10 GetFileR (demoRequest ''x'' []) u (demoWorld emptyDb) = (Inr resp, w')"
proof -
  let ?w = "demoWorld emptyDb :: kamara_db world" and ?r = "demoRequest ''x'' []" and ?u = "\<lparr>sub_Instance = ''demo'', sub_UserID = ''ann''\<rparr>"
  have no: "\<not> can_access (w_fga ?w) (OpenFGAObject ?u) (fileObj (rq_ID ?r))" by (rule can_access_none) (simp add: demoWorld_def)
  have "GetFileR \<in> set fileRoutes" by (simp add: fileRoutes_def)
  then have "refused ?w (apiHandler demoSvc 10 GetFileR ?r ?u ?w) \<or>
    (\<exists>resp. rs_Status resp = 400 \<and> apiHandler demoSvc 10 GetFileR ?r ?u ?w = (Inr resp, ?w))"
    using apiHandler_refused [of demoSvc GetFileR ?w ?u ?r 10] no by simp
  then obtain resp w' where h: "apiHandler demoSvc 10 GetFileR ?r ?u ?w = (Inr resp, w')" "rs_Status resp \<notin> {401, 502}"
    by (auto simp: refused_def failApi_def writeErr_def writeJSON_def prod_eq_iff)
  have run: "Routes demoSvc 10 (Subject demoUserinfo) GetFileR ?r (?w, NewStore (60 * 1000000000)) =
      (Inr resp, (w', PutSession (w_now ?w) ''t'' ?u (NewStore (60 * 1000000000))))"
    using h by (simp add: Routes_def authed_def Let_def attempt_def demo_subject lift_def)
  have new: "NewUserinfoAuth demoProvider demoParse ''demo'' 0 = (demoUserinfo, NewStore (60 * 1000000000))"
    by (simp add: demoUserinfo_def NewUserinfoAuth_def Let_def)
  show ?thesis
    using api_authenticated [OF new served.start order_refl run disjI1 [OF h(2)]] by auto
qed

lemma demo_jwt: "jwt ''a'' (bytesOf ''{\"sub\":\"ann\",\"exp\":1}'') ''b'' = ''a.eyJzdWIiOiJhbm4iLCJleHAiOjF9.b''"
  by (simp add: jwt_def bytesOf_def byte_of_char_def of_char_def urlDigit_def Let_def)

lemma demo_jwt_bearer: "bearer jwtRequest = ''a.eyJzdWIiOiJhbm4iLCJleHAiOjF9.b''"
  by (simp add: bearer_def jwtRequest_def TrimSpace_def runePieces.simps isSpaceRune_def char_of_def bit_0)

theorem expired_refused_witness:
  "Routes demoSvc 10 (Subject demoUserinfo) GetFileR jwtRequest ((demoWorld emptyDb)\<lparr>w_now := 5000000000\<rparr>, NewStore 1) =
     (Inr (writeErr 401 ''invalid token''), ((demoWorld emptyDb)\<lparr>w_now := 5000000000\<rparr>, NewStore 1))"
  by (rule expired_refused [where header = "''a''" and payload = "bytesOf ''{\"sub\":\"ann\",\"exp\":1}''" and sig = "''b''" and e = 1
        and k = "''exp''" and ms = "[(''sub'', JStr ''ann''), (''exp'', JNum 1)]"])
    (simp_all add: lowerAscii_def of_char_def demo_jwt demo_jwt_bearer demoUserinfo_def NewUserinfoAuth_def Let_def demoParse_def)

end
