(* ===== verification/Startup.thy ===== *)
theory Startup
  imports Contracts Userinfo
begin

text \<open>
  The start of the file application, \<open>kamara/cmd/kamara/main.go\<close>: the environment, the encryption key, and how
  \<open>main\<close> puts the parts together. \<open>log.Fatalf\<close> is a left value with the beginning of its message; what
  \<open>main\<close> connects to (the database, the authorization server, the directory of the blobs, the identity
  provider, the office engine) is the record \<open>externals\<close>.
\<close>

section \<open>The environment\<close>

definition env :: "(string \<Rightarrow> string) \<Rightarrow> string \<Rightarrow> string \<Rightarrow> string" where
  "env getenv key fallback = (if getenv key \<noteq> [] then getenv key else fallback)"

definition andThen :: "'e + 'a \<Rightarrow> ('a \<Rightarrow> 'e + 'b) \<Rightarrow> 'e + 'b" where
  "andThen x f = (case x of Inl e \<Rightarrow> Inl e | Inr y \<Rightarrow> f y)"

definition mustEnv :: "(string \<Rightarrow> string) \<Rightarrow> string \<Rightarrow> string + string" where
  "mustEnv getenv key = (if getenv key = [] then Inl (key @ '' is required'') else Inr (getenv key))"

section \<open>The key\<close>

text \<open>
  \<open>base64.StdEncoding.DecodeString\<close>: line breaks are skipped; what is left comes in groups of four, the last
  of which may end in one or two padding characters.
\<close>

definition stdValue :: "char \<Rightarrow> nat option" where
  "stdValue c =
    (if c = CHR ''+'' then Some 62 else if c = CHR ''/'' then Some 63
     else if c = CHR ''-'' \<or> c = CHR ''_'' then None else urlValue c)"

definition stdDecode :: "string \<Rightarrow> bytes option" where
  "stdDecode s =
    (let cs = filter (\<lambda>c. c \<noteq> CHR 0x0A \<and> c \<noteq> CHR 0x0D) s;
         body = takeWhile (\<lambda>c. c \<noteq> CHR ''='') cs;
         pad = dropWhile (\<lambda>c. c \<noteq> CHR ''='') cs
     in if length cs mod 4 = 0 \<and> pad \<in> {[], ''='', ''==''} \<and> list_all (\<lambda>c. stdValue c \<noteq> None) body
        then urlQuads (map (\<lambda>c. the (stdValue c)) body) else None)"

definition decodeKey :: "bytes \<Rightarrow> string + bytes" where
  "decodeKey b =
    (let b = bytesOf (TrimSpace (stringOf b)) in
     if length b = KeySize then Inr b
     else case stdDecode (stringOf b) of None \<Rightarrow> Inl ''dek: '' | Some dec \<Rightarrow> Inr dec)"

definition loadDEK :: "(string \<Rightarrow> string) \<Rightarrow> (string \<Rightarrow> bytes option) \<Rightarrow> string + bytes" where
  "loadDEK getenv readFile =
    (if getenv ''KAMARA_DEK_FILE'' \<noteq> []
     then (case readFile (getenv ''KAMARA_DEK_FILE'') of None \<Rightarrow> Inl ''dek file: '' | Some b \<Rightarrow> decodeKey b)
     else if getenv ''KAMARA_DEK'' \<noteq> [] then decodeKey (bytesOf (getenv ''KAMARA_DEK''))
     else Inl ''KAMARA_DEK_FILE or KAMARA_DEK is required'')"

section \<open>Putting the parts together\<close>

datatype asset = StyleCSS | HtmxJS | KamaraJS | EditorJS

record externals =
  xt_store :: "string \<Rightarrow> bool"
  xt_authz :: "string \<Rightarrow> fga option"
  xt_blobDir :: "string \<Rightarrow> bool"
  xt_readFile :: "string \<Rightarrow> bytes option"
  xt_hostname :: "string \<Rightarrow> string option"
  xt_prims :: prims
  xt_mime :: "string \<Rightarrow> string"
  xt_coll :: collation
  xt_sha256 :: "bytes \<Rightarrow> bytes"
  xt_userinfo :: "string \<Rightarrow> int \<Rightarrow> string \<Rightarrow> reply"
  xt_parse :: "bytes \<Rightarrow> json option"
  xt_provider :: "string \<Rightarrow> string \<Rightarrow> string \<Rightarrow> provider option"
  xt_engine :: "string \<Rightarrow> engine"
  xt_embedded :: "asset \<Rightarrow> bytes option"

definition issuerHost :: "externals \<Rightarrow> string \<Rightarrow> string" where
  "issuerHost X issuer = (case xt_hostname X issuer of None \<Rightarrow> issuer | Some h \<Rightarrow> h)"

text \<open>The process: the handlers with the limits they were built with, and the state it starts in.\<close>

record process =
  pr_svc :: svc
  pr_auth :: userinfo_auth
  pr_apiLimit :: nat
  pr_sessions :: sessions
  pr_wopiLimit :: nat
  pr_app :: web_app
  pr_publicURL :: string
  pr_embedded :: "asset \<Rightarrow> bytes option"
  pr_cache0 :: "subject sstore"
  pr_site0 :: web_state

definition NewApi :: "int \<Rightarrow> nat" where
  "NewApi maxUpload = nat (if maxUpload \<le> 0 then DefaultMaxUploadBytes else maxUpload)"

definition NewService :: "prims \<Rightarrow> cipher \<Rightarrow> kamara_db blob_store \<Rightarrow> fga \<Rightarrow> (string \<Rightarrow> string) \<Rightarrow> collation \<Rightarrow> svc" where
  "NewService P c B F mime coll =
    \<lparr>sv_P = P, sv_cipher = c, sv_blobs = B, sv_fga = F, sv_mime = mime, sv_coll = coll, sv_revoker = False\<rparr>"

definition SetSessionRevoker :: "svc \<Rightarrow> svc" where
  "SetSessionRevoker S = S\<lparr>sv_revoker := True\<rparr>"

definition assemble :: "(string \<Rightarrow> string) \<Rightarrow> externals \<Rightarrow> string \<Rightarrow> fga \<Rightarrow> string \<Rightarrow> cipher \<Rightarrow> string \<Rightarrow> string + process" where
  "assemble getenv X issuer az dir c clientID =
    (let inst = issuerHost X issuer;
         sessions = NewSessions (xt_sha256 X) az 0;
         svc = SetSessionRevoker (NewService (xt_prims X) c (FS dir) az (xt_mime X) (xt_coll X));
         (auth, cache) = NewUserinfoAuth (xt_userinfo X issuer) (xt_parse X) inst 0;
         publicURL = TrimSuffix (env getenv ''PUBLIC_URL'' ''http://localhost:5580'') ''/'';
         cfg = \<lparr>rc_Issuer = issuer, rc_SuccessURL = [], rc_PostLogoutURL = [], rc_CookieName = ''kamara_session'',
                rc_Secure = HasPrefix publicURL ''https://'', rc_SessionTTL = 0\<rparr>;
         officeURL = getenv ''OFFICE_URL'' in
     case NewRelyingParty cfg (xt_provider X issuer clientID (publicURL @ ''/auth/callback'')) of
       None \<Rightarrow> Inl ''oidc: ''
     | Some (rp, rs) \<Rightarrow>
         Inr \<lparr>pr_svc = svc, pr_auth = auth, pr_apiLimit = NewApi 0, pr_sessions = sessions, pr_wopiLimit = NewWopi 0,
              pr_app = \<lparr>wa_svc = svc, wa_rp = rp, wa_instance = inst, wa_sessions = sessions, wa_engine = xt_engine X officeURL,
                wa_office = officeURL, wa_wopiSrcBase = TrimSuffix (env getenv ''WOPI_SRC_BASE'' ''http://localhost:5580'') ''/''\<rparr>,
              pr_publicURL = publicURL, pr_embedded = xt_embedded X, pr_cache0 = cache,
              pr_site0 = \<lparr>rp_sessions = rp_sessions rs, rp_logins = rp_logins rs, wb_discovery = NewDiscovery\<rparr>\<rparr>)"

definition main :: "(string \<Rightarrow> string) \<Rightarrow> externals \<Rightarrow> string + process" where
  "main getenv X =
    andThen (mustEnv getenv ''DATABASE_DSN'') (\<lambda>dsn.
    if \<not> xt_store X dsn then Inl ''database: ''
    else
      andThen (mustEnv getenv ''OPENFGA_API_URL'') (\<lambda>fgaURL.
      case xt_authz X fgaURL of
        None \<Rightarrow> Inl ''openfga: ''
      | Some az \<Rightarrow>
          andThen (mustEnv getenv ''KAMARA_BLOB_DIR'') (\<lambda>dir.
          if \<not> xt_blobDir X dir then Inl ''blob store: ''
          else
            andThen (mustEnv getenv ''OIDC_ISSUER'') (\<lambda>issuer.
            andThen (loadDEK getenv (xt_readFile X)) (\<lambda>dek.
            case NewCipher dek (issuerHost X issuer) of
              Inl _ \<Rightarrow> Inl ''dek: ''
            | Inr c \<Rightarrow>
                andThen (mustEnv getenv ''OIDC_CLIENT_ID'') (\<lambda>clientID.
                assemble getenv X issuer az dir c clientID))))))"

section \<open>The key is the key\<close>

text \<open>The encoding a secret is written in: padded groups over the standard alphabet.\<close>

definition toStd :: "char \<Rightarrow> char" where
  "toStd c = (if c = CHR ''-'' then CHR ''+'' else if c = CHR ''_'' then CHR ''/'' else c)"

definition stdEncode :: "bytes \<Rightarrow> string" where
  "stdEncode bs = map toStd (rawURLEncode bs) @ replicate ((3 - length bs mod 3) mod 3) CHR ''=''"

lemma urlValue_chars:
  "urlValue CHR ''-'' = Some 62" "urlValue CHR ''_'' = Some 63" "urlValue CHR ''+'' = None" "urlValue CHR ''/'' = None" "urlValue CHR ''='' = None"
  by (simp_all add: urlValue_def)

lemma urlValue_code: "urlValue c = Some n \<Longrightarrow> 43 \<le> (of_char c :: nat) \<and> of_char c \<le> (122 :: nat)"
  by (auto simp: urlValue_def Let_def split: if_splits)

lemma toStd_value:
  assumes "urlValue c = Some n"
  shows "stdValue (toStd c) = Some n" "43 \<le> (of_char (toStd c) :: nat)" "of_char (toStd c) \<le> (122 :: nat)" "toStd c \<noteq> CHR ''=''"
proof -
  consider "c = CHR ''-''" "n = 62" | "c = CHR ''_''" "n = 63" | "c \<notin> {CHR ''-'', CHR ''_'', CHR ''+'', CHR ''/'', CHR ''=''}"
    using assms urlValue_chars by fastforce
  then have "stdValue (toStd c) = Some n \<and> 43 \<le> (of_char (toStd c) :: nat) \<and> of_char (toStd c) \<le> (122 :: nat) \<and> toStd c \<noteq> CHR ''=''"
  proof cases
    case 3
    then show ?thesis using assms urlValue_code [OF assms] by (simp add: toStd_def stdValue_def)
  qed (simp_all add: toStd_def stdValue_def)
  then show "stdValue (toStd c) = Some n" "43 \<le> (of_char (toStd c) :: nat)" "of_char (toStd c) \<le> (122 :: nat)" "toStd c \<noteq> CHR ''=''"
    by simp_all
qed

lemma std_chars:
  assumes "c \<in> set (map toStd (rawURLEncode bs))"
  shows "stdValue c \<noteq> None" "43 \<le> (of_char c :: nat)" "of_char c \<le> (122 :: nat)" "c \<noteq> CHR ''=''"
proof -
  obtain d where d: "c = toStd d" "d \<in> set (rawURLEncode bs)" using assms by auto
  then obtain n where "urlValue d = Some n" using rawURLEncode_char(1) by blast
  note tv = toStd_value [OF this]
  show "stdValue c \<noteq> None" "43 \<le> (of_char c :: nat)" "of_char c \<le> (122 :: nat)" "c \<noteq> CHR ''=''"
    using tv d(1) by simp_all
qed

lemma stdEncode_length: "3 * length (stdEncode bs) = 4 * (length bs + (3 - length bs mod 3) mod 3)"
proof (induction bs rule: rawURLEncode.induct)
  case (1 a b c bs)
  have "length (a # b # c # bs) mod 3 = length bs mod 3" by simp
  then show ?case using 1 by (simp add: stdEncode_def Let_def)
qed (simp_all add: stdEncode_def Let_def)

lemma while_padding:
  "(\<And>c. c \<in> set b \<Longrightarrow> c \<noteq> x) \<Longrightarrow> takeWhile (\<lambda>c. c \<noteq> x) (b @ replicate k x) = b"
  "(\<And>c. c \<in> set b \<Longrightarrow> c \<noteq> x) \<Longrightarrow> dropWhile (\<lambda>c. c \<noteq> x) (b @ replicate k x) = replicate k x"
  by (induction b) (cases k; auto)+

lemma stdDecode_encode: "stdDecode (stdEncode bs) = Some bs"
proof -
  let ?b = "map toStd (rawURLEncode bs)" and ?k = "(3 - length bs mod 3) mod 3"
  have nl: "c \<noteq> CHR 0x0A \<and> c \<noteq> CHR 0x0D" if "c \<in> set ?b" for c
    using std_chars(2) [OF that] by auto
  have f: "filter (\<lambda>c. c \<noteq> CHR 0x0A \<and> c \<noteq> CHR 0x0D) (stdEncode bs) = stdEncode bs"
    unfolding stdEncode_def filter_append using nl by (intro arg_cong2 [where f = append] filter_True) simp_all
  have ne: "c \<noteq> CHR ''=''" if "c \<in> set ?b" for c using std_chars(4) [OF that] .
  have t: "takeWhile (\<lambda>c. c \<noteq> CHR ''='') (stdEncode bs) = ?b" "dropWhile (\<lambda>c. c \<noteq> CHR ''='') (stdEncode bs) = replicate ?k CHR ''=''"
    unfolding stdEncode_def by (rule while_padding(1) [OF ne], assumption) (rule while_padding(2) [OF ne], assumption)
  have "?k = 0 \<or> ?k = 1 \<or> ?k = 2" by auto
  then have p: "replicate ?k CHR ''='' \<in> {[], ''='', ''==''}" by (auto simp: numeral_2_eq_2)
  have l: "length (stdEncode bs) mod 4 = 0" 
  proof -
    have "3 * length (stdEncode bs) mod 4 = 0" unfolding stdEncode_length by simp
    then show ?thesis by presburger
  qed
  have a: "list_all (\<lambda>c. stdValue c \<noteq> None) ?b" unfolding list_all_iff using std_chars(1) by blast
  have "map (\<lambda>c. the (stdValue c)) ?b = map (\<lambda>c. the (urlValue c)) (rawURLEncode bs)"
    using rawURLEncode_char(1) [of _ bs] toStd_value(1) by fastforce
  then show ?thesis unfolding stdDecode_def Let_def f t using p l a urlQuads_encode by (simp only: simp_thms if_True)
qed

text \<open>Trimming plain text.\<close>

lemma runePieces_ascii: "\<forall>c \<in> set s. of_char c < (128 :: nat) \<Longrightarrow> runePieces (map of_char s) = map (\<lambda>c. (of_char c, [of_char c])) s"
proof (induction s)
  case Nil
  show ?case by (simp add: runePieces.simps)
next
  case (Cons c s)
  then show ?case by (subst runePieces.simps) simp
qed

lemma TrimSpace_ascii:
  assumes "\<forall>c \<in> set s. of_char c < (128 :: nat)"
  shows "TrimSpace s = rev (dropWhile (isSpaceRune \<circ> of_char) (rev (dropWhile (isSpaceRune \<circ> of_char) s)))"
  by (simp add: TrimSpace_def runePieces_ascii [OF assms] rev_map dropWhile_map comp_def)

lemma TrimSpace_around:
  assumes "\<forall>c \<in> set (a @ z). of_char c < (128 :: nat) \<and> isSpaceRune (of_char c)"
    and "\<forall>c \<in> set s. of_char c < (128 :: nat) \<and> \<not> isSpaceRune (of_char c)"
  shows "TrimSpace (a @ s @ z) = s"
proof -
  have asc: "\<forall>c \<in> set (a @ s @ z). of_char c < (128 :: nat)" using assms by auto
  have "dropWhile (isSpaceRune \<circ> of_char) (a @ s @ z) = (if s = [] then [] else s @ z)"
    using assms by (cases s) (auto simp: dropWhile_append dropWhile_eq_Nil_conv)
  moreover have "dropWhile (isSpaceRune \<circ> of_char) (rev z @ rev s) = rev s" if "s \<noteq> []"
    using assms that by (cases s rule: rev_cases) (auto simp: dropWhile_append)
  ultimately show ?thesis by (simp add: TrimSpace_ascii [OF asc])
qed

lemma stdEncode_plain:
  assumes "c \<in> set (stdEncode bs)"
  shows "of_char c < (128 :: nat) \<and> \<not> isSpaceRune (of_char c)"
proof -
  have "c \<in> set (map toStd (rawURLEncode bs)) \<or> c = CHR ''=''" using assms by (auto simp: stdEncode_def)
  moreover have "of_char CHR ''='' = (61 :: nat)" by simp
  ultimately have "43 \<le> (of_char c :: nat) \<and> of_char c \<le> (122 :: nat)"
    using std_chars(2,3) [of c bs] by (elim disjE) simp_all
  then show ?thesis by (auto simp: isSpaceRune_def)
qed

lemma decodeKey_encoded:
  assumes "length k = KeySize" "\<forall>c \<in> set (a @ z). of_char c \<in> {9, 10, 13, 32 :: nat}"
  shows "decodeKey (bytesOf (a @ stdEncode k @ z)) = Inr k"
proof -
  have sp: "of_char c < (128 :: nat) \<and> isSpaceRune (of_char c)" if "c \<in> set (a @ z)" for c
  proof -
    have "of_char c \<in> {9, 10, 13, 32 :: nat}" using assms(2) that by (rule bspec)
    then consider "of_char c = (9 :: nat)" | "of_char c = (10 :: nat)" | "of_char c = (13 :: nat)" | "of_char c = (32 :: nat)" by blast
    then show ?thesis by cases (simp_all add: isSpaceRune_def)
  qed
  have t: "TrimSpace (a @ stdEncode k @ z) = stdEncode k"
    by (rule TrimSpace_around, intro ballI sp, assumption) (intro ballI stdEncode_plain)
  have "length (stdEncode k) = 44" using stdEncode_length [of k] assms(1) by (simp add: KeySize_def)
  then show ?thesis using t stdDecode_encode [of k] by (simp add: decodeKey_def KeySize_def)
qed

text \<open>A key stored raw is not always the key: a leading or trailing white-space byte is cut off.\<close>

lemma decodeKey_raw_space: "\<exists>k. length k = KeySize \<and> decodeKey k \<noteq> Inr k"
proof (intro exI conjI)
  let ?k = "bytesOf (CHR 0x0A # replicate 31 CHR ''A'')"
  show "length ?k = KeySize" by (simp add: KeySize_def)
  have "TrimSpace ([CHR 0x0A] @ replicate 31 CHR ''A'' @ []) = replicate 31 CHR ''A''"
    by (rule TrimSpace_around) (simp_all add: isSpaceRune_def)
  then have t: "TrimSpace (CHR 0x0A # replicate 31 CHR ''A'') = replicate 31 CHR ''A''" by simp
  have "filter (\<lambda>c. c \<noteq> CHR 0x0A \<and> c \<noteq> CHR 0x0D) (replicate 31 CHR ''A'') = replicate 31 CHR ''A''" by (rule filter_True) simp
  then have "stdDecode (replicate 31 CHR ''A'') = None" by (simp add: stdDecode_def Let_def)
  then show "decodeKey ?k \<noteq> Inr ?k" using t by (simp add: decodeKey_def KeySize_def)
qed

section \<open>What a started process is\<close>

lemma andThen_Inr: "andThen x f = Inr z \<longleftrightarrow> (\<exists>y. x = Inr y \<and> f y = Inr z)"
  by (cases x) (simp_all add: andThen_def)

lemma case_sum_Inr: "(case x of Inl e \<Rightarrow> Inl (g e) | Inr y \<Rightarrow> f y) = Inr z \<longleftrightarrow> (\<exists>y. x = Inr y \<and> f y = Inr z)"
  by (cases x) simp_all

lemma mustEnv_Inr: "mustEnv getenv k = Inr v \<longleftrightarrow> v = getenv k \<and> getenv k \<noteq> []"
  by (auto simp: mustEnv_def)

lemma assemble_Inr:
  assumes "assemble getenv X issuer az dir c clientID = Inr K"
  shows "pr_svc K = onDisk dir (pr_svc K)" "sv_cipher (pr_svc K) = c" "sv_P (pr_svc K) = xt_prims X" "sv_fga (pr_svc K) = az"
    "se_fga (pr_sessions K) = az" "wa_svc (pr_app K) = pr_svc K" "wa_instance (pr_app K) = issuerHost X issuer"
    "NewUserinfoAuth (xt_userinfo X issuer) (xt_parse X) (issuerHost X issuer) 0 = (pr_auth K, pr_cache0 K)"
  using assms
  by (auto simp: assemble_def Let_def SetSessionRevoker_def NewService_def NewSessions_def onDisk_def split: option.splits prod.splits)

lemma assemble_rp:
  assumes "assemble getenv X issuer az dir c clientID = Inr K"
  shows "\<exists>cfg P s. NewRelyingParty cfg P = Some (wa_rp (pr_app K), s) \<and> rp_sessions (pr_site0 K) = rp_sessions s"
proof -
  obtain cfg P rp s where n: "NewRelyingParty cfg P = Some (rp, s)" and K: "wa_rp (pr_app K) = rp" "rp_sessions (pr_site0 K) = rp_sessions s"
    using assms by (auto simp: assemble_def Let_def split: option.splits prod.splits)
  then show ?thesis by blast
qed

lemma main_Inr:
  assumes "main getenv X = Inr K"
  obtains issuer az dir dek c clientID where
    "xt_authz X (getenv ''OPENFGA_API_URL'') = Some az" "dir = getenv ''KAMARA_BLOB_DIR''" "issuer = getenv ''OIDC_ISSUER''"
    "loadDEK getenv (xt_readFile X) = Inr dek" "NewCipher dek (issuerHost X issuer) = Inr c"
    "assemble getenv X issuer az dir c clientID = Inr K"
  using assms
  by (auto simp: main_def andThen_Inr mustEnv_Inr case_sum_Inr split: if_splits option.splits)

lemma NewCipher_Inr: "NewCipher dek tenant = Inr c \<Longrightarrow> cipher_ok c \<and> ci_key c = dek \<and> ci_tenant c = tenant"
  by (auto simp: NewCipher_def cipher_ok_def split: if_splits)

lemma main_cipher:
  assumes "main getenv X = Inr K"
  shows "\<exists>dek. loadDEK getenv (xt_readFile X) = Inr dek \<and> length dek = KeySize \<and>
      sv_cipher (pr_svc K) = \<lparr>ci_key = dek, ci_tenant = issuerHost X (getenv ''OIDC_ISSUER'')\<rparr> \<and> issuerHost X (getenv ''OIDC_ISSUER'') \<noteq> []"
proof -
  obtain issuer az dir dek c clientID where m: "issuer = getenv ''OIDC_ISSUER''" "loadDEK getenv (xt_readFile X) = Inr dek"
      "NewCipher dek (issuerHost X issuer) = Inr c" "assemble getenv X issuer az dir c clientID = Inr K"
    using main_Inr [OF assms] by metis
  have c: "cipher_ok c" "ci_key c = dek" "ci_tenant c = issuerHost X issuer" using NewCipher_Inr [OF m(3)] by simp_all
  have "c = \<lparr>ci_key = dek, ci_tenant = issuerHost X issuer\<rparr>" using c by (cases c) simp
  then show ?thesis using m assemble_Inr(2) [OF m(4)] c(1) by (auto simp: cipher_ok_def)
qed

section \<open>Properties\<close>

text \<open>The process encrypts under the tenant's key. A process that starts with the key mounted as a base64 secret,
  with white space around it as secret files have, uses exactly that key, bound to the issuer's host as the
  tenant, whatever \<open>KAMARA_DEK\<close> holds; and with neither a key file nor a key in the environment, or a key that is not 32
  bytes, it does not start.\<close>

theorem main_key:
  assumes "main getenv X = Inr K"
  shows "(\<exists>dek. loadDEK getenv (xt_readFile X) = Inr dek \<and> length dek = KeySize \<and>
      sv_cipher (pr_svc K) = \<lparr>ci_key = dek, ci_tenant = issuerHost X (getenv ''OIDC_ISSUER'')\<rparr> \<and> issuerHost X (getenv ''OIDC_ISSUER'') \<noteq> []) \<and>
    (\<forall>a k z. getenv ''KAMARA_DEK_FILE'' \<noteq> [] \<longrightarrow> xt_readFile X (getenv ''KAMARA_DEK_FILE'') = Some (bytesOf (a @ stdEncode k @ z)) \<longrightarrow>
      length k = KeySize \<longrightarrow> (\<forall>c \<in> set (a @ z). of_char c \<in> {9, 10, 13, 32 :: nat}) \<longrightarrow> ci_key (sv_cipher (pr_svc K)) = k)"
proof -
  obtain dek where d: "loadDEK getenv (xt_readFile X) = Inr dek"
      "sv_cipher (pr_svc K) = \<lparr>ci_key = dek, ci_tenant = issuerHost X (getenv ''OIDC_ISSUER'')\<rparr>"
    using main_cipher [OF assms] by blast
  have "ci_key (sv_cipher (pr_svc K)) = k"
    if "getenv ''KAMARA_DEK_FILE'' \<noteq> []" "xt_readFile X (getenv ''KAMARA_DEK_FILE'') = Some (bytesOf (a @ stdEncode k @ z))"
      "length k = KeySize" "\<forall>c \<in> set (a @ z). of_char c \<in> {9, 10, 13, 32 :: nat}" for a k z
    using d that(1,2) decodeKey_encoded [OF that(3,4)] by (simp add: loadDEK_def)
  then show ?thesis using main_cipher [OF assms] by blast
qed

section \<open>Witnesses\<close>

definition demoKey :: bytes where
  "demoKey = replicate 32 5"

definition demoEnv :: "string \<Rightarrow> string" where
  "demoEnv k = (if k = ''KAMARA_DEK_FILE'' then ''/dek'' else if k = ''KAMARA_BLOB_DIR'' then ''/data''
     else if k = ''OFFICE_URL'' \<or> k = ''PUBLIC_URL'' \<or> k = ''WOPI_SRC_BASE'' then [] else ''https://id.demo'')"

definition demoExternals :: externals where
  "demoExternals = \<lparr>xt_store = (\<lambda>_. True), xt_authz = (\<lambda>_. Some modelFga), xt_blobDir = (\<lambda>_. True),
     xt_readFile = (\<lambda>_. Some (bytesOf (stdEncode demoKey @ [CHR 0x0A]))), xt_hostname = (\<lambda>_. Some ''acme''),
     xt_prims = toyPrims, xt_mime = sv_mime demoSvc, xt_coll = sv_coll demoSvc, xt_sha256 = (\<lambda>x. x),
     xt_userinfo = (\<lambda>_. demoProvider), xt_parse = (\<lambda>_. None), xt_provider = (\<lambda>_ _ _. Some demoIdP), xt_engine = (\<lambda>_. demoEngine), xt_embedded = (\<lambda>_. None)\<rparr>"

lemma demo_dek: "loadDEK demoEnv (xt_readFile demoExternals) = Inr demoKey"
proof -
  have "decodeKey (bytesOf ([] @ stdEncode demoKey @ [CHR 0x0A])) = Inr demoKey"
    by (rule decodeKey_encoded) (simp_all add: demoKey_def KeySize_def)
  then show ?thesis by (simp add: loadDEK_def demoEnv_def demoExternals_def)
qed

lemma demo_env: "mustEnv demoEnv ''DATABASE_DSN'' = Inr ''https://id.demo''" "mustEnv demoEnv ''OPENFGA_API_URL'' = Inr ''https://id.demo''"
  "mustEnv demoEnv ''KAMARA_BLOB_DIR'' = Inr ''/data''" "mustEnv demoEnv ''OIDC_ISSUER'' = Inr ''https://id.demo''"
  "mustEnv demoEnv ''OIDC_CLIENT_ID'' = Inr ''https://id.demo''"
  by (simp_all add: mustEnv_def demoEnv_def)

lemma demo_main: "\<exists>K. main demoEnv demoExternals = Inr K"
proof -
  have h: "issuerHost demoExternals i = ''acme''" for i by (simp add: issuerHost_def demoExternals_def)
  have c: "NewCipher demoKey ''acme'' = Inr \<lparr>ci_key = demoKey, ci_tenant = ''acme''\<rparr>"
    by (simp add: NewCipher_def demoKey_def KeySize_def)
  have x: "xt_store demoExternals d" "xt_authz demoExternals d = Some modelFga" "xt_blobDir demoExternals d" for d
    by (simp_all add: demoExternals_def)
  have "\<exists>K. assemble demoEnv demoExternals i az dir c cl = Inr K" for i az dir c cl
    by (simp add: assemble_def Let_def NewRelyingParty_def demoExternals_def split: prod.split)
  then show ?thesis
    using h c x by (simp add: main_def demo_env demo_dek andThen_def)
qed

theorem main_key_witness: "\<exists>K. main demoEnv demoExternals = Inr K \<and> ci_key (sv_cipher (pr_svc K)) = demoKey"
proof -
  obtain K where K: "main demoEnv demoExternals = Inr K" using demo_main by blast
  from main_key [OF K] demo_dek show ?thesis using K by auto
qed

end
