(* ===== verification/Zitadel.thy ===== *)
theory Zitadel
  imports Kube Startup
begin

text \<open>
  The control plane's client of the identity provider (\<open>control-plane/internal/zitadel/client.go\<close>): one JSON call
  (\<open>do\<close>) with its bearer token and its error classes, and the operations built from it. The provider is a
  parameter: a function from its state and a request, at a time, to an answer and its next state.
\<close>

section \<open>The client\<close>

record iam_request =
  ir_Method :: string
  ir_URL :: string
  ir_Bearer :: string
  ir_Org :: string
  ir_Body :: "json option"

text \<open>
  The fields of \<open>Client\<close>. \<open>zt_jwt\<close> makes the compact signed token for a set of claims (\<open>None\<close>: signing failed);
  \<open>zt_serve\<close> is the provider; a transport failure is \<open>Unreachable\<close>.
\<close>

record 'z zitadel =
  zt_BaseURL :: string
  zt_UserID :: string
  zt_DevMode :: bool
  zt_jwt :: "json \<Rightarrow> string option"
  zt_serve :: "int \<Rightarrow> iam_request \<Rightarrow> 'z \<Rightarrow> reply \<times> 'z"

definition second :: int where
  "second = 1000000000"

definition setToken :: "string \<Rightarrow> int \<Rightarrow> ('z, unit) cp" where
  "setToken tok expiry = (\<lambda>w. (Inr (), w\<lparr>w_db := (w_db w)\<lparr>pf_token := Some (tok, expiry)\<rparr>\<rparr>))"

definition bearerToken :: "'z zitadel \<Rightarrow> ('z, string) cp" where
  "bearerToken z =
    bnd time_now (\<lambda>now.
    bnd (gets (\<lambda>w. pf_token (w_db w))) (\<lambda>cached.
    let renew =
      (case zt_jwt z (JObj [(''aud'', JStr (zt_BaseURL z)), (''exp'', JNum ((now + 3600 * second) div second)),
                            (''iat'', JNum (now div second)), (''iss'', JStr (zt_UserID z)), (''sub'', JStr (zt_UserID z))]) of
         None \<Rightarrow> fail ErrIO
       | Some tok \<Rightarrow> bnd (setToken tok (now + 3600 * second)) (\<lambda>_. ret tok))
    in case cached of
      None \<Rightarrow> renew
    | Some (tok, expiry) \<Rightarrow> if tok \<noteq> [] \<and> now < expiry - 120 * second then ret tok else renew))"

text \<open>One exchange with the provider.\<close>

definition serve :: "'z zitadel \<Rightarrow> iam_request \<Rightarrow> ('z, reply) cp" where
  "serve z q = call (\<lambda>w. case zt_serve z (w_now w) q (pf_iam (w_db w)) of
     (a, s) \<Rightarrow> (Inr a, w\<lparr>w_db := (w_db w)\<lparr>pf_iam := s\<rparr>\<rparr>))"

definition messageOf :: "json option \<Rightarrow> string" where
  "messageOf body = (case body of None \<Rightarrow> [] | Some j \<Rightarrow> (case decodeField jsonString ''message'' [] j of None \<Rightarrow> [] | Some m \<Rightarrow> m))"

text \<open>The status classes of \<open>do\<close>, and decoding the answer into the caller's struct.\<close>

definition answer :: "(json \<Rightarrow> 'a option) \<Rightarrow> reply \<Rightarrow> err + 'a" where
  "answer dec a = (case a of
     Unreachable \<Rightarrow> Inl ErrIO
   | Reply status body \<Rightarrow>
       if status = 404 then Inl ErrIamNotFound
       else if status \<ge> 300 then Inl (ErrApi status (messageOf body))
       else case Option.bind body dec of None \<Rightarrow> Inl ErrDecode | Some x \<Rightarrow> Inr x)"

text \<open>The same with no struct to decode into: the body is not looked at.\<close>

definition answered :: "reply \<Rightarrow> err + unit" where
  "answered a = (case a of
     Unreachable \<Rightarrow> Inl ErrIO
   | Reply status body \<Rightarrow>
       if status = 404 then Inl ErrIamNotFound
       else if status \<ge> 300 then Inl (ErrApi status (messageOf body))
       else Inr ())"

definition zdo :: "'z zitadel \<Rightarrow> string \<Rightarrow> string \<Rightarrow> string \<Rightarrow> json option \<Rightarrow> (reply \<Rightarrow> err + 'a) \<Rightarrow> ('z, 'a) cp" where
  "zdo z method url org inp res =
    bnd (bearerToken z) (\<lambda>tok.
    bnd (serve z \<lparr>ir_Method = method, ir_URL = url, ir_Bearer = tok, ir_Org = org, ir_Body = inp\<rparr>) (\<lambda>a w.
    (res a, w)))"

definition zpost :: "'z zitadel \<Rightarrow> string \<Rightarrow> string \<Rightarrow> json \<Rightarrow> (json \<Rightarrow> 'a option) \<Rightarrow> ('z, 'a) cp" where
  "zpost z url org inp dec = zdo z ''POST'' url org (Some inp) (answer dec)"

text \<open>Decoders of the structs the operations use.\<close>

definition jsonText :: "json \<Rightarrow> string option" where
  "jsonText j = (case j of JNull \<Rightarrow> Some [] | JStr s \<Rightarrow> Some s | _ \<Rightarrow> None)"

definition jsonBool :: "json \<Rightarrow> bool option" where
  "jsonBool j = (case j of JBool b \<Rightarrow> Some b | _ \<Rightarrow> None)"

definition jsonObject :: "json \<Rightarrow> json option" where
  "jsonObject j = (case j of JObj _ \<Rightarrow> Some j | _ \<Rightarrow> None)"

definition jsonArray :: "(json \<Rightarrow> 'a option) \<Rightarrow> json \<Rightarrow> 'a list option" where
  "jsonArray dec j = (case j of JArr js \<Rightarrow> those (map dec js) | _ \<Rightarrow> None)"

definition textField :: "string \<Rightarrow> json \<Rightarrow> string option" where
  "textField name j = decodeField jsonString name [] j"

definition resultField :: "(json \<Rightarrow> 'a option) \<Rightarrow> json \<Rightarrow> 'a list option" where
  "resultField dec j = decodeField (jsonArray dec) ''result'' [] j"

text \<open>A search by ID: the first hit, or not found.\<close>

definition firstID :: "string list \<Rightarrow> ('z, string) cp" where
  "firstID ids = (case ids of [] \<Rightarrow> fail ErrIamNotFound | i # _ \<Rightarrow> ret i)"

definition nameQuery :: "string \<Rightarrow> string \<Rightarrow> string \<Rightarrow> json" where
  "nameQuery query_kind member v = JObj [(''queries'', JArr [JObj [(query_kind, JObj [(member, JStr v)])]])]"

section \<open>Instances\<close>

definition CreateInstance :: "'z zitadel \<Rightarrow> string \<Rightarrow> string \<Rightarrow> string \<Rightarrow> ('z, string) cp" where
  "CreateInstance z name customDomain org =
    zpost z (zt_BaseURL z @ ''/system/v1/instances/_create'') []
      (JObj [(''instanceName'', JStr name), (''firstOrgName'', JStr org), (''customDomain'', JStr customDomain),
             (''machine'', JObj [(''userName'', JStr ''org-admin''), (''name'', JStr ''Organization Admin'')])])
      (textField ''instanceid'')"

definition InstanceIDByDomain :: "'z zitadel \<Rightarrow> string \<Rightarrow> ('z, string) cp" where
  "InstanceIDByDomain z domain =
    bnd (zpost z (zt_BaseURL z @ ''/system/v1/instances/_search'') []
      (JObj [(''queries'', JArr [JObj [(''domainQuery'', JObj [(''domains'', JArr [JStr domain])])]])])
      (resultField (textField ''id''))) firstID"

definition deleteRequest :: "'z zitadel \<Rightarrow> string \<Rightarrow> string" where
  "deleteRequest z i = zt_BaseURL z @ ''/system/v1/instances/'' @ i"

definition DeleteInstance :: "'z zitadel \<Rightarrow> string \<Rightarrow> ('z, unit) cp" where
  "DeleteInstance z i = zdo z ''DELETE'' (deleteRequest z i) [] None answered"

text \<open>
  \<open>strings.ToLower\<close>, for a search of ASCII text in its result: beside the ASCII capitals only two letters have an
  ASCII lower case.
\<close>

definition lowerRune :: "rune \<Rightarrow> rune" where
  "lowerRune r = (if 65 \<le> r \<and> r \<le> 90 then r + 32 else if r = 0x130 then 0x69 else if r = 0x212A then 0x6B else r)"

fun Contains :: "string \<Rightarrow> string \<Rightarrow> bool" where
  "Contains [] sub = (sub = [])"
| "Contains (c # cs) sub = (HasPrefix (c # cs) sub \<or> Contains cs sub)"

definition isAlreadyExists :: "err \<Rightarrow> bool" where
  "isAlreadyExists e = (case e of ErrApi _ msg \<Rightarrow> Contains (stringsMap lowerRune msg) ''alreadyexists'' | _ \<Rightarrow> False)"

definition AddTrustedDomain :: "'z zitadel \<Rightarrow> string \<Rightarrow> string \<Rightarrow> string \<Rightarrow> ('z, unit) cp" where
  "AddTrustedDomain z base inst domain =
    catch (zdo z ''POST'' (base @ ''/v2beta/instances/'' @ inst @ ''/trusted-domains'') []
             (Some (JObj [(''domain'', JStr domain)])) answered)
      (\<lambda>e. if isAlreadyExists e then ret () else fail e)"

definition FirstOrgID :: "'z zitadel \<Rightarrow> string \<Rightarrow> ('z, string) cp" where
  "FirstOrgID z base = bnd (zpost z (base @ ''/admin/v1/orgs/_search'') [] (JObj []) (resultField (textField ''id''))) firstID"

definition discoveryRequest :: "string \<Rightarrow> iam_request" where
  "discoveryRequest issuer = \<lparr>ir_Method = ''GET'', ir_URL = issuer @ ''/.well-known/openid-configuration'', ir_Bearer = [], ir_Org = [], ir_Body = None\<rparr>"

text \<open>Whether an issuer answers discovery; a failed call is no.\<close>

definition DiscoveryAlive :: "'z zitadel \<Rightarrow> string \<Rightarrow> ('z, bool) cp" where
  "DiscoveryAlive z issuer =
    catch (bnd (serve z (discoveryRequest issuer)) (\<lambda>a. ret (case a of Unreachable \<Rightarrow> False | Reply status _ \<Rightarrow> status = 200)))
      (\<lambda>_. ret False)"

section \<open>Projects and OIDC apps\<close>

definition projectIDByName :: "'z zitadel \<Rightarrow> string \<Rightarrow> string \<Rightarrow> string \<Rightarrow> ('z, string) cp" where
  "projectIDByName z base org name =
    bnd (zpost z (base @ ''/management/v1/projects/_search'') org (nameQuery ''nameQuery'' ''name'' name) (resultField (textField ''id''))) firstID"

definition ProjectID :: "'z zitadel \<Rightarrow> string \<Rightarrow> string \<Rightarrow> ('z, string) cp" where
  "ProjectID z base org =
    catch (projectIDByName z base org ''peristera'')
      (\<lambda>e. if e = ErrIamNotFound
           then zpost z (base @ ''/management/v1/projects'') org (JObj [(''name'', JStr ''peristera'')]) (textField ''id'')
           else fail e)"

record oidc_app =
  oa_ID :: string
  oa_ClientID :: string
  oa_RedirectURIs :: "string list"
  oa_PostLogoutRedirectURIs :: "string list"
  oa_DevMode :: bool

definition decodeApp :: "json \<Rightarrow> oidc_app option" where
  "decodeApp j =
    Option.bind (textField ''id'' j) (\<lambda>i.
    Option.bind (decodeField jsonObject ''oidcconfig'' JNull j) (\<lambda>cfg.
    Option.bind (textField ''clientid'' cfg) (\<lambda>cid.
    Option.bind (decodeField (jsonArray jsonText) ''redirecturis'' [] cfg) (\<lambda>rs.
    Option.bind (decodeField (jsonArray jsonText) ''postlogoutredirecturis'' [] cfg) (\<lambda>ls.
    Option.bind (decodeField jsonBool ''devmode'' False cfg) (\<lambda>dev.
    Some \<lparr>oa_ID = i, oa_ClientID = cid, oa_RedirectURIs = rs, oa_PostLogoutRedirectURIs = ls, oa_DevMode = dev\<rparr>))))))"

definition oidcAppByName :: "'z zitadel \<Rightarrow> string \<Rightarrow> string \<Rightarrow> string \<Rightarrow> string \<Rightarrow> ('z, oidc_app) cp" where
  "oidcAppByName z base org project name =
    bnd (zpost z (base @ ''/management/v1/projects/'' @ project @ ''/apps/_search'') org (nameQuery ''nameQuery'' ''name'' name) (resultField decodeApp)) (\<lambda>apps.
    case apps of
      [] \<Rightarrow> fail ErrIamNotFound
    | a # _ \<Rightarrow> if oa_ClientID a = [] then fail ErrIamNotFound else ret a)"

text \<open>\<open>union\<close>: the base with what is missing of the extra, and whether anything was.\<close>

definition unionURIs :: "string list \<Rightarrow> string list \<Rightarrow> string list \<times> bool" where
  "unionURIs base extra =
    foldl (\<lambda>(b, added) v. if v \<in> set b then (b, added) else (b @ [v], True)) (base, False) extra"

definition webAppConfig :: "'z zitadel \<Rightarrow> string list \<Rightarrow> string list \<Rightarrow> (string \<times> json) list" where
  "webAppConfig z redirects logouts =
    [(''redirectUris'', JArr (map JStr redirects)),
     (''postLogoutRedirectUris'', JArr (map JStr logouts)),
     (''responseTypes'', JArr [JStr ''OIDC_RESPONSE_TYPE_CODE'']),
     (''grantTypes'', JArr [JStr ''OIDC_GRANT_TYPE_AUTHORIZATION_CODE'']),
     (''appType'', JStr ''OIDC_APP_TYPE_WEB''),
     (''authMethodType'', JStr ''OIDC_AUTH_METHOD_TYPE_NONE''),
     (''accessTokenType'', JStr ''OIDC_TOKEN_TYPE_BEARER''),
     (''devMode'', JBool (zt_DevMode z)),
     (''idTokenUserinfoAssertion'', JBool True)]"

definition updateWebApp :: "'z zitadel \<Rightarrow> string \<Rightarrow> string \<Rightarrow> string \<Rightarrow> oidc_app \<Rightarrow> string list \<Rightarrow> string list \<Rightarrow> ('z, string) cp" where
  "updateWebApp z base org project app redirectURIs postLogoutURIs =
    (case (unionURIs (oa_RedirectURIs app) redirectURIs, unionURIs (oa_PostLogoutRedirectURIs app) postLogoutURIs) of
       ((redirects, addR), (logouts, addL)) \<Rightarrow>
         bnd (guarded (addR \<or> addL \<or> oa_DevMode app \<noteq> zt_DevMode z)
               (zdo z ''PUT'' (base @ ''/management/v1/projects/'' @ project @ ''/apps/'' @ oa_ID app @ ''/oidc_config'') org
                  (Some (JObj (webAppConfig z redirects logouts))) answered))
           (\<lambda>_. ret (oa_ClientID app)))"

definition EnsureWebApp :: "'z zitadel \<Rightarrow> string \<Rightarrow> string \<Rightarrow> string \<Rightarrow> string list \<Rightarrow> string list \<Rightarrow> ('z, string) cp" where
  "EnsureWebApp z base org name redirectURIs postLogoutURIs =
    bnd (ProjectID z base org) (\<lambda>project.
    attempt (oidcAppByName z base org project name)
      (\<lambda>e. if e \<noteq> ErrIamNotFound then fail e
           else zpost z (base @ ''/management/v1/projects/'' @ project @ ''/apps/oidc'') org
                  (JObj ((''name'', JStr name) # webAppConfig z redirectURIs postLogoutURIs)) (textField ''clientid''))
      (\<lambda>app. updateWebApp z base org project app redirectURIs postLogoutURIs))"

definition EnsureStubApp :: "'z zitadel \<Rightarrow> string \<Rightarrow> string \<Rightarrow> string list \<Rightarrow> string list \<Rightarrow> ('z, string) cp" where
  "EnsureStubApp z base org redirectURIs postLogoutURIs = EnsureWebApp z base org ''stub'' redirectURIs postLogoutURIs"

section \<open>Service identities\<close>

definition EnsureS2SClient :: "'z zitadel \<Rightarrow> string \<Rightarrow> string \<Rightarrow> string \<Rightarrow> ('z, string \<times> string) cp" where
  "EnsureS2SClient z base org name =
    bnd (ProjectID z base org) (\<lambda>project.
    attempt (oidcAppByName z base org project name)
      (\<lambda>e. if e \<noteq> ErrIamNotFound then fail e
           else zpost z (base @ ''/management/v1/projects/'' @ project @ ''/apps/oidc'') org
                  (JObj [(''name'', JStr name),
                         (''redirectUris'', JArr [JStr ''http://localhost/unused'']),
                         (''responseTypes'', JArr [JStr ''OIDC_RESPONSE_TYPE_CODE'']),
                         (''grantTypes'', JArr [JStr ''OIDC_GRANT_TYPE_AUTHORIZATION_CODE'', JStr ''OIDC_GRANT_TYPE_TOKEN_EXCHANGE'']),
                         (''appType'', JStr ''OIDC_APP_TYPE_WEB''),
                         (''authMethodType'', JStr ''OIDC_AUTH_METHOD_TYPE_PRIVATE_KEY_JWT''),
                         (''accessTokenType'', JStr ''OIDC_TOKEN_TYPE_JWT'')])
                  (\<lambda>j. Option.bind (textField ''clientid'' j) (\<lambda>c. map_option (Pair c) (textField ''appid'' j))))
      (\<lambda>app. ret (oa_ClientID app, oa_ID app)))"

text \<open>The expiry of a key, ten years ahead: \<open>AddDate\<close> moves the year and normalises the 29th of February.\<close>

definition tenYears :: "int \<Rightarrow> int" where
  "tenYears now =
    (case civil (now div (86400 * second)) of (y, m, d) \<Rightarrow>
       let leap = (\<lambda>y :: int. y mod 4 = 0 \<and> (y mod 100 \<noteq> 0 \<or> y mod 400 = 0));
           days = (\<Sum>k \<leftarrow> [0..9]. if leap (if m > 2 then y + k + 1 else y + k) then 366 else 365)
       in now + days * 86400 * second)"

definition decodeKeyDetails :: "string \<Rightarrow> ('z, bytes) cp" where
  "decodeKeyDetails s = (case stdDecode s of None \<Rightarrow> fail ErrDecode | Some b \<Rightarrow> ret b)"

definition AddAppKey :: "'z zitadel \<Rightarrow> string \<Rightarrow> string \<Rightarrow> string \<Rightarrow> ('z, bytes) cp" where
  "AddAppKey z base org app =
    bnd (ProjectID z base org) (\<lambda>project.
    bnd time_now (\<lambda>now.
    bnd (zpost z (base @ ''/management/v1/projects/'' @ project @ ''/apps/'' @ app @ ''/keys'') org
           (JObj [(''type'', JStr ''KEY_TYPE_JSON''), (''expirationDate'', JStr (formatTime (tenYears now)))])
           (textField ''keydetails'')) decodeKeyDetails))"

section \<open>Users\<close>

definition searchUser :: "'z zitadel \<Rightarrow> string \<Rightarrow> string \<Rightarrow> string \<Rightarrow> ('z, string list) cp" where
  "searchUser z base org name =
    zpost z (base @ ''/management/v1/users/_search'') org (nameQuery ''userNameQuery'' ''userName'' name) (resultField (textField ''id''))"

definition CreateHumanUser :: "'z zitadel \<Rightarrow> string \<Rightarrow> string \<Rightarrow> string \<Rightarrow> string \<Rightarrow> string \<Rightarrow> string \<Rightarrow> ('z, string) cp" where
  "CreateHumanUser z base org email firstName lastName password =
    bnd (searchUser z base org email) (\<lambda>found.
    if found \<noteq> [] then fail ErrUserExists
    else zpost z (base @ ''/management/v1/users/human/_import'') org
      (JObj [(''userName'', JStr email),
             (''profile'', JObj [(''firstName'', JStr firstName), (''lastName'', JStr lastName)]),
             (''email'', JObj [(''email'', JStr email), (''isEmailVerified'', JBool True)]),
             (''password'', JStr password),
             (''passwordChangeRequired'', JBool True)])
      (textField ''userid''))"

definition AddOrgMember :: "'z zitadel \<Rightarrow> string \<Rightarrow> string \<Rightarrow> string \<Rightarrow> string list \<Rightarrow> ('z, unit) cp" where
  "AddOrgMember z base org user roles =
    zdo z ''POST'' (base @ ''/management/v1/orgs/me/members'') org
      (Some (JObj [(''userId'', JStr user), (''roles'', JArr (map JStr roles))])) answered"

definition EnsureMachineUser :: "'z zitadel \<Rightarrow> string \<Rightarrow> string \<Rightarrow> string \<Rightarrow> ('z, string) cp" where
  "EnsureMachineUser z base org username =
    bnd (searchUser z base org username) (\<lambda>found.
    case found of
      i # _ \<Rightarrow> ret i
    | [] \<Rightarrow> zpost z (base @ ''/management/v1/users/machine'') org
        (JObj [(''userName'', JStr username), (''name'', JStr username), (''accessTokenType'', JStr ''ACCESS_TOKEN_TYPE_BEARER'')])
        (textField ''userid''))"

definition CreatePAT :: "'z zitadel \<Rightarrow> string \<Rightarrow> string \<Rightarrow> string \<Rightarrow> ('z, string) cp" where
  "CreatePAT z base org user =
    zpost z (base @ ''/management/v1/users/'' @ user @ ''/pats'') org
      (JObj [(''expirationDate'', JStr ''2028-01-01T00:00:00Z'')]) (textField ''token'')"

definition AddMachineKey :: "'z zitadel \<Rightarrow> string \<Rightarrow> string \<Rightarrow> string \<Rightarrow> ('z, bytes) cp" where
  "AddMachineKey z base org user =
    bnd (zpost z (base @ ''/management/v1/users/'' @ user @ ''/keys'') org
           (JObj [(''type'', JStr ''KEY_TYPE_JSON''), (''expirationDate'', JStr ''2028-01-01T00:00:00Z'')])
           (textField ''keydetails'')) decodeKeyDetails"

definition userinfoRequest :: "string \<Rightarrow> string \<Rightarrow> iam_request" where
  "userinfoRequest issuer token = \<lparr>ir_Method = ''GET'', ir_URL = issuer @ ''/oidc/v1/userinfo'', ir_Bearer = token, ir_Org = [], ir_Body = None\<rparr>"

definition userinfoSub :: "reply \<Rightarrow> string option" where
  "userinfoSub a = (case a of
     Unreachable \<Rightarrow> None
   | Reply status body \<Rightarrow>
       if status \<noteq> 200 then None
       else case Option.bind body (textField ''sub'') of None \<Rightarrow> None | Some s \<Rightarrow> if s = [] then None else Some s)"

definition UserinfoSubject :: "'z zitadel \<Rightarrow> string \<Rightarrow> string \<Rightarrow> ('z, string option) cp" where
  "UserinfoSubject z issuer token = catch (bnd (serve z (userinfoRequest issuer token)) (\<lambda>a. ret (userinfoSub a))) (\<lambda>_. ret None)"

definition UserinfoOK :: "'z zitadel \<Rightarrow> string \<Rightarrow> string \<Rightarrow> ('z, bool) cp" where
  "UserinfoOK z issuer token = bnd (UserinfoSubject z issuer token) (\<lambda>s. ret (s \<noteq> None))"

section \<open>Lemmas\<close>

lemma unionURIs_spec:
  "set (fst (unionURIs base extra)) = set base \<union> set extra \<and> (snd (unionURIs base extra) \<longleftrightarrow> \<not> set extra \<subseteq> set base) \<and>
   (set extra \<subseteq> set base \<longrightarrow> fst (unionURIs base extra) = base)"
proof -
  let ?f = "\<lambda>(b, added) v. if v \<in> set b then (b, added) else (b @ [v], True)"
  have "set (fst (foldl ?f (b, added) xs)) = set b \<union> set xs \<and> (snd (foldl ?f (b, added) xs) \<longleftrightarrow> added \<or> \<not> set xs \<subseteq> set b) \<and>
      (set xs \<subseteq> set b \<longrightarrow> fst (foldl ?f (b, added) xs) = b)" for b added and xs :: "string list"
  proof (induction xs arbitrary: b added)
    case (Cons x xs)
    show ?case
    proof (cases "x \<in> set b")
      case True
      then show ?thesis using Cons.IH [of b added] by auto
    next
      case False
      then show ?thesis using Cons.IH [of "b @ [x]" True] by auto
    qed
  qed simp
  then show ?thesis by (simp add: unionURIs_def)
qed

text \<open>An app that already has every URI and the right mode is not written to; otherwise nothing registered is dropped.\<close>

lemma updateWebApp_settled:
  assumes "set redirects \<subseteq> set (oa_RedirectURIs app)" "set logouts \<subseteq> set (oa_PostLogoutRedirectURIs app)" "oa_DevMode app = zt_DevMode z"
  shows "updateWebApp z base org project app redirects logouts = ret (oa_ClientID app)"
  using assms unionURIs_spec [of "oa_RedirectURIs app" redirects] unionURIs_spec [of "oa_PostLogoutRedirectURIs app" logouts]
  by (cases "unionURIs (oa_RedirectURIs app) redirects"; cases "unionURIs (oa_PostLogoutRedirectURIs app) logouts")
     (simp add: updateWebApp_def)

text \<open>The token a request carries is cached with an expiry more than two minutes ahead.\<close>

lemma bearerToken_fresh:
  "bearerToken z w = (Inr tok, w') \<Longrightarrow> \<exists>e. pf_token (w_db w') = Some (tok, e) \<and> w_now w < e - 120 * second"
  by (auto simp: bearerToken_def bnd_def time_now_def setToken_def second_def run Let_def split: option.splits if_splits prod.splits)

text \<open>An assertion that looks neither at the schedule nor at the cached token nor at the identity provider.\<close>

definition iamless :: "('z platform world \<Rightarrow> bool) \<Rightarrow> bool" where
  "iamless I \<longleftrightarrow> faultless I \<and> (\<forall>w tok. I (w\<lparr>w_db := (w_db w)\<lparr>pf_token := tok\<rparr>\<rparr>) = I w) \<and>
     (\<forall>w s. I (w\<lparr>w_db := (w_db w)\<lparr>pf_iam := s\<rparr>\<rparr>) = I w)"

lemma iamless_on [simp]: "onTenants I \<Longrightarrow> iamless I" "onObjects I \<Longrightarrow> iamless I"
proof -
  show "iamless I" if "onTenants I"
    unfolding iamless_def using on_faultless(1) [OF that] by (intro conjI allI onD(1) [OF that]; simp)
  show "iamless I" if "onObjects I"
    unfolding iamless_def using on_faultless(2) [OF that] by (intro conjI allI onD(2) [OF that]; simp)
qed

lemma iamless_faultless: "iamless I \<Longrightarrow> faultless I"
  by (simp add: iamless_def)

lemma iamless_upd:
  "iamless I \<Longrightarrow> I (w\<lparr>w_db := (w_db w)\<lparr>pf_token := tok\<rparr>\<rparr>) = I w" "iamless I \<Longrightarrow> I (w\<lparr>w_db := (w_db w)\<lparr>pf_iam := s\<rparr>\<rparr>) = I w"
  by (simp_all add: iamless_def)

lemma keeps_bearerToken [keeps_rules]: "iamless I \<Longrightarrow> keeps I (bearerToken z)"
proof -
  assume I: "iamless I"
  have "keeps I (setToken tok e)" for tok e by (rule keepsI) (simp add: setToken_def iamless_upd [OF I])
  then show ?thesis unfolding bearerToken_def Let_def by (intro keeps_rules)
qed

lemma keeps_serve [keeps_rules]: "iamless I \<Longrightarrow> keeps I (serve z q)"
  unfolding serve_def by (intro keeps_call iamless_faultless keepsI) (auto simp: iamless_upd split: prod.split)

lemma keeps_zdo [keeps_rules]: "iamless I \<Longrightarrow> keeps I (zdo z m u g b res)"
proof -
  assume I: "iamless I"
  have "keeps I (\<lambda>w. (res a, w))" for a by (rule keepsI) simp
  then show ?thesis unfolding zdo_def by (intro keeps_rules I)
qed

lemma keeps_attempt_io:
  assumes "keeps I m" "\<And>e. keeps I (h e)" "\<And>x. keeps I (k x)"
  shows "keeps I (attempt m h k)"
proof (rule keepsI)
  fix w assume I: "I w"
  obtain r w1 where m: "m w = (r, w1)" by fastforce
  have "I w1" by (rule keepsD2 [OF assms(1) I m])
  then show "I (snd (attempt m h k w))"
    using m keepsD [OF assms(2)] keepsD [OF assms(3)] by (auto simp: attempt_def split: sum.split)
qed

lemma keeps_firstID [keeps_rules]: "keeps I (firstID ids)"
  by (simp add: firstID_def split: list.split)

lemma keeps_decodeKeyDetails [keeps_rules]: "keeps I (decodeKeyDetails s)"
  by (simp add: decodeKeyDetails_def split: option.split)

lemma keeps_list [keeps_rules]: "keeps I m \<Longrightarrow> (\<And>x xs. keeps I (f x xs)) \<Longrightarrow> keeps I (case ys of [] \<Rightarrow> m | x # xs \<Rightarrow> f x xs)"
  by (cases ys) simp_all

lemma keeps_iam:
  assumes I: "iamless I"
  shows "keeps I (CreateInstance z n d g)" "keeps I (InstanceIDByDomain z d)" "keeps I (DeleteInstance z i)"
    "keeps I (AddTrustedDomain z base i d)" "keeps I (FirstOrgID z base)" "keeps I (DiscoveryAlive z base)"
    "keeps I (ProjectID z base g)" "keeps I (EnsureWebApp z base g name rs ls)" "keeps I (EnsureStubApp z base g rs ls)"
    "keeps I (EnsureS2SClient z base g name)" "keeps I (AddAppKey z base g name)"
    "keeps I (CreateHumanUser z base g email f l pw)" "keeps I (AddOrgMember z base g user roles)" "keeps I (UserinfoSubject z base tok)"
proof -
  note defs = CreateInstance_def InstanceIDByDomain_def DeleteInstance_def AddTrustedDomain_def FirstOrgID_def DiscoveryAlive_def
    ProjectID_def projectIDByName_def zpost_def oidcAppByName_def EnsureS2SClient_def AddAppKey_def CreateHumanUser_def
    searchUser_def AddOrgMember_def UserinfoSubject_def
  show "keeps I (CreateInstance z n d g)" "keeps I (InstanceIDByDomain z d)" "keeps I (DeleteInstance z i)"
    "keeps I (AddTrustedDomain z base i d)" "keeps I (FirstOrgID z base)" "keeps I (DiscoveryAlive z base)"
    "keeps I (CreateHumanUser z base g email f l pw)" "keeps I (AddOrgMember z base g user roles)" "keeps I (UserinfoSubject z base tok)"
    unfolding defs by (intro keeps_rules I)+
  show p: "keeps I (ProjectID z base g)" for base g unfolding defs by (intro keeps_rules I)
  have a: "keeps I (oidcAppByName z base g p name)" for p name unfolding defs by (intro keeps_rules I)
  have u: "keeps I (updateWebApp z base g p app rs ls)" for p app unfolding updateWebApp_def by (intro keeps_rules I)
  show e: "keeps I (EnsureWebApp z base g name rs ls)" for name
    unfolding EnsureWebApp_def zpost_def by (intro keeps_rules keeps_attempt_io I p a u)
  show "keeps I (EnsureStubApp z base g rs ls)" unfolding EnsureStubApp_def by (rule e)
  show "keeps I (EnsureS2SClient z base g name)"
    unfolding EnsureS2SClient_def zpost_def by (intro keeps_rules keeps_attempt_io I p a)
  show "keeps I (AddAppKey z base g name)" unfolding AddAppKey_def zpost_def by (intro keeps_rules I p)
qed

end
