(* ===== verification/Svcauth.thy ===== *)
theory Svcauth
  imports Zitadel
begin

text \<open>
  Calls from one service to another on behalf of a user (\<open>lib/svcauth\<close>): the client half, which exchanges the access
  token of a user for one that the called service accepts, and the callee half, which asks the identity provider
  about a token. Both authenticate with an assertion signed by the key of the service.
\<close>

section \<open>The standard library\<close>

text \<open>
  \<open>json.Marshal\<close> of a string, by runes: quotes, backslashes and control characters are escaped, so are the characters that
  matter in HTML and the two line separators; a byte that is no rune becomes the replacement character.
\<close>

definition quoteRune :: "rune \<times> nat list \<Rightarrow> string" where
  "quoteRune = (\<lambda>(r, bs).
     if r = 0x22 \<or> r = 0x5C then [CHR 0x5C, char_of r]
     else if r = 8 then [CHR 0x5C, CHR ''b''] else if r = 9 then [CHR 0x5C, CHR ''t'']
     else if r = 10 then [CHR 0x5C, CHR ''n''] else if r = 12 then [CHR 0x5C, CHR ''f'']
     else if r = 13 then [CHR 0x5C, CHR ''r'']
     else if r < 0x20 \<or> r \<in> {0x26, 0x3C, 0x3E} then CHR 0x5C # ''u00'' @ hexEncode [of_nat r]
     else if r = 0xFFFD \<and> length bs = 1 then CHR 0x5C # ''ufffd''
     else if r = 0x2028 \<or> r = 0x2029 then CHR 0x5C # ''u202'' @ [digit (r mod 16)]
     else map char_of bs)"

definition jsonQuote :: "string \<Rightarrow> string" where
  "jsonQuote s = CHR 0x22 # concat (map quoteRune (runePieces (map of_char s))) @ [CHR 0x22]"

text \<open>\<open>json.Marshal\<close> of a map from strings to strings and integers: the members are sorted by name.\<close>

definition marshalValue :: "string + int \<Rightarrow> string" where
  "marshalValue v = (case v of Inl s \<Rightarrow> jsonQuote s | Inr n \<Rightarrow> Itoa n)"

definition joinWith :: "char \<Rightarrow> string list \<Rightarrow> string" where
  "joinWith c ss = (case ss of [] \<Rightarrow> [] | s # rest \<Rightarrow> s @ concat (map (\<lambda>x. c # x) rest))"

definition marshalMap :: "(string \<times> (string + int)) list \<Rightarrow> string" where
  "marshalMap ms = CHR ''{'' # joinWith (CHR '','') (map (\<lambda>(k, v). jsonQuote k @ CHR '':'' # marshalValue v) (sort_key fst ms)) @ ''}''"

text \<open>\<open>url.Values.Encode\<close> for one value per key, and how a server reads it.\<close>

definition formEncode :: "(string \<times> string) list \<Rightarrow> string" where
  "formEncode kvs = joinWith (CHR ''&'') (map (\<lambda>(k, v). QueryEscape k @ CHR ''='' # QueryEscape v) (sort_key fst kvs))"

definition formDecode :: "string \<Rightarrow> (string \<times> string) list" where
  "formDecode s = map (\<lambda>p. case Cut p (CHR ''='') of (k, v, _) \<Rightarrow> (queryUnescape k, queryUnescape v)) (splitOn (CHR ''&'') s)"

text \<open>\<open>strings.TrimRight\<close> with a single character.\<close>

definition TrimRight :: "string \<Rightarrow> char \<Rightarrow> string" where
  "TrimRight s c = rev (dropWhile (\<lambda>x. x = c) (rev s))"

section \<open>Keys and assertions\<close>

text \<open>
  The libraries: JSON and PEM decoding, the two private-key formats (\<open>None\<close> in the second: another kind of key), the hash,
  the signature (\<open>None\<close>: it failed), and the provider's endpoints, which answer a form posted to a URL at a time.
\<close>

record 'k svc_library =
  sl_parse :: "bytes \<Rightarrow> json option"
  sl_pem :: "bytes \<Rightarrow> bytes option"
  sl_pkcs1 :: "bytes \<Rightarrow> 'k option"
  sl_pkcs8 :: "bytes \<Rightarrow> 'k option option"
  sl_sha256 :: "bytes \<Rightarrow> bytes"
  sl_sign :: "'k \<Rightarrow> bytes \<Rightarrow> bytes option"
  sl_post :: "int \<Rightarrow> string \<Rightarrow> string \<Rightarrow> reply"

definition ProjectAudienceScope :: "string \<Rightarrow> string" where
  "ProjectAudienceScope projectID = ''urn:zitadel:iam:org:project:id:'' @ projectID @ '':aud''"

record app_key =
  ak_KeyID :: string
  ak_Key :: string
  ak_ClientID :: string

definition decodeAppKey :: "json \<Rightarrow> app_key option" where
  "decodeAppKey doc =
    Option.bind (textField ''keyid'' doc) (\<lambda>kid.
    Option.bind (textField ''key'' doc) (\<lambda>key.
    Option.bind (textField ''clientid'' doc) (\<lambda>cid. Some \<lparr>ak_KeyID = kid, ak_Key = key, ak_ClientID = cid\<rparr>)))"

definition parseRSAKey :: "'k svc_library \<Rightarrow> string \<Rightarrow> string + 'k" where
  "parseRSAKey L pemStr = (case sl_pem L (bytesOf pemStr) of
     None \<Rightarrow> Inl ''no PEM block in app key''
   | Some block \<Rightarrow> (case sl_pkcs1 L block of
         Some k \<Rightarrow> Inr k
       | None \<Rightarrow> (case sl_pkcs8 L block of
             None \<Rightarrow> Inl ''parsing app key: ''
           | Some None \<Rightarrow> Inl ''app key is not RSA''
           | Some (Some k) \<Rightarrow> Inr k)))"

definition b64json :: "(string \<times> (string + int)) list \<Rightarrow> string" where
  "b64json v = rawURLEncode (bytesOf (marshalMap v))"

text \<open>A signature that fails leaves the third part of the token empty.\<close>

definition clientAssertion :: "'k svc_library \<Rightarrow> string \<Rightarrow> string \<Rightarrow> string \<Rightarrow> 'k \<Rightarrow> int \<Rightarrow> string" where
  "clientAssertion L clientID keyID issuer key now =
    (let header = b64json [(''alg'', Inl ''RS256''), (''typ'', Inl ''JWT''), (''kid'', Inl keyID)];
         claims = b64json [(''iss'', Inl clientID), (''sub'', Inl clientID), (''aud'', Inl issuer),
           (''iat'', Inr (now div second)), (''exp'', Inr ((now + 5 * minute) div second))];
         signingInput = header @ CHR ''.'' # claims;
         sig = (case sl_sign L key (sl_sha256 L (bytesOf signingInput)) of None \<Rightarrow> [] | Some s \<Rightarrow> s)
     in signingInput @ CHR ''.'' # rawURLEncode sig)"

section \<open>The client half\<close>

record 'k exchanger =
  ex_issuer :: string
  ex_tokenURL :: string
  ex_clientID :: string
  ex_keyID :: string
  ex_key :: 'k
  ex_projScope :: string
  ex_lib :: "'k svc_library"

definition NewExchanger :: "'k svc_library \<Rightarrow> string \<Rightarrow> string \<Rightarrow> bytes \<Rightarrow> string + 'k exchanger" where
  "NewExchanger L issuer projectID keyJSON = (case Option.bind (sl_parse L keyJSON) decodeAppKey of
     None \<Rightarrow> Inl ''svcauth: parsing app key: ''
   | Some k \<Rightarrow>
       if ak_ClientID k = [] \<or> ak_Key k = [] then Inl ''svcauth: app key missing clientId or key''
       else (case parseRSAKey L (ak_Key k) of
         Inl e \<Rightarrow> Inl (''svcauth: '' @ e)
       | Inr priv \<Rightarrow>
           Inr \<lparr>ex_issuer = issuer, ex_tokenURL = TrimRight issuer (CHR ''/'') @ ''/oauth/v2/token'', ex_clientID = ak_ClientID k,
                ex_keyID = ak_KeyID k, ex_key = priv, ex_projScope = ProjectAudienceScope projectID, ex_lib = L\<rparr>))"

definition assertion :: "'k exchanger \<Rightarrow> int \<Rightarrow> string" where
  "assertion e now = clientAssertion (ex_lib e) (ex_clientID e) (ex_keyID e) (ex_issuer e) (ex_key e) now"

definition exchangeForm :: "'k exchanger \<Rightarrow> int \<Rightarrow> string \<Rightarrow> (string \<times> string) list" where
  "exchangeForm e now userAccessToken =
    [(''grant_type'', ''urn:ietf:params:oauth:grant-type:token-exchange''),
     (''subject_token'', userAccessToken),
     (''subject_token_type'', ''urn:ietf:params:oauth:token-type:access_token''),
     (''requested_token_type'', ''urn:ietf:params:oauth:token-type:access_token''),
     (''scope'', ''openid '' @ ex_projScope e),
     (''client_assertion_type'', ''urn:ietf:params:oauth:client-assertion-type:jwt-bearer''),
     (''client_assertion'', assertion e now)]"

text \<open>The answer to a posted form: transport failures, error statuses, and the decoded body.\<close>

definition posted :: "'k svc_library \<Rightarrow> string \<Rightarrow> string \<Rightarrow> int \<Rightarrow> err + json" where
  "posted L url body now = (case sl_post L now url body of
     Unreachable \<Rightarrow> Inl ErrIO
   | Reply status doc \<Rightarrow>
       if status \<ge> 300 then Inl (ErrApi status [])
       else case doc of None \<Rightarrow> Inl ErrDecode | Some j \<Rightarrow> Inr j)"

definition OnBehalfOf :: "'k exchanger \<Rightarrow> string \<Rightarrow> ('d, string) action" where
  "OnBehalfOf e userAccessToken =
    (if userAccessToken = [] then fail ErrDecode
     else
       bnd time_now (\<lambda>now.
       case posted (ex_lib e) (ex_tokenURL e) (formEncode (exchangeForm e now userAccessToken)) now of
         Inl err \<Rightarrow> fail err
       | Inr doc \<Rightarrow> (case textField ''access_token'' doc of
             None \<Rightarrow> fail ErrDecode
           | Some tok \<Rightarrow> if tok = [] then fail ErrDecode else ret tok)))"

section \<open>The callee half\<close>

record 'k validator =
  vd_introspectURL :: string
  vd_clientID :: string
  vd_keyID :: string
  vd_key :: 'k
  vd_issuer :: string
  vd_lib :: "'k svc_library"

record token_info =
  ti_Active :: bool
  ti_Subject :: string
  ti_ActorClient :: string
  ti_ActorName :: string

definition NewValidator :: "'k svc_library \<Rightarrow> string \<Rightarrow> bytes \<Rightarrow> string + 'k validator" where
  "NewValidator L issuer keyJSON = (case Option.bind (sl_parse L keyJSON) decodeAppKey of
     None \<Rightarrow> Inl ''svcauth: parsing app key: ''
   | Some k \<Rightarrow> (case parseRSAKey L (ak_Key k) of
         Inl e \<Rightarrow> Inl (''svcauth: '' @ e)
       | Inr priv \<Rightarrow>
           Inr \<lparr>vd_introspectURL = TrimRight issuer (CHR ''/'') @ ''/oauth/v2/introspect'', vd_clientID = ak_ClientID k,
                vd_keyID = ak_KeyID k, vd_key = priv, vd_issuer = issuer, vd_lib = L\<rparr>))"

definition introspectForm :: "'k validator \<Rightarrow> int \<Rightarrow> string \<Rightarrow> (string \<times> string) list" where
  "introspectForm v now token =
    [(''token'', token),
     (''client_assertion_type'', ''urn:ietf:params:oauth:client-assertion-type:jwt-bearer''),
     (''client_assertion'', clientAssertion (vd_lib v) (vd_clientID v) (vd_keyID v) (vd_issuer v) (vd_key v) now)]"

definition decodeInfo :: "json \<Rightarrow> token_info option" where
  "decodeInfo doc =
    Option.bind (decodeField jsonBool ''active'' False doc) (\<lambda>active.
    Option.bind (textField ''sub'' doc) (\<lambda>sub.
    Option.bind (textField ''azp'' doc) (\<lambda>azp.
    Option.bind (textField ''username'' doc) (\<lambda>username.
    Option.bind (textField ''client_id'' doc) (\<lambda>clientID.
    Some (if \<not> active then \<lparr>ti_Active = False, ti_Subject = [], ti_ActorClient = [], ti_ActorName = []\<rparr>
          else \<lparr>ti_Active = True, ti_Subject = sub, ti_ActorClient = (if azp = [] then clientID else azp), ti_ActorName = username\<rparr>))))))"

definition Introspect :: "'k validator \<Rightarrow> string \<Rightarrow> ('d, token_info) action" where
  "Introspect v token =
    bnd time_now (\<lambda>now.
    case posted (vd_lib v) (vd_introspectURL v) (formEncode (introspectForm v now token)) now of
      Inl err \<Rightarrow> fail err
    | Inr doc \<Rightarrow> (case decodeInfo doc of None \<Rightarrow> fail ErrDecode | Some i \<Rightarrow> ret i))"

section \<open>Forms and assertions are read as they were written\<close>

lemma splitOn_joinWith: "ss \<noteq> [] \<Longrightarrow> \<forall>s \<in> set ss. c \<notin> set s \<Longrightarrow> splitOn c (joinWith c ss) = ss"
proof (induction ss rule: induct_list012)
  case (3 s t ts)
  have "joinWith c (s # t # ts) = s @ c # joinWith c (t # ts)" by (simp add: joinWith_def)
  then show ?case using 3 by (simp add: splitOn_part)
qed (simp_all add: joinWith_def splitOn_last)

lemma QueryEscape_safe: "CHR ''&'' \<notin> set (QueryEscape s)" "CHR ''='' \<notin> set (QueryEscape s)"
  using QueryEscape_chars [of _ s] by (force simp: unreserved_def of_char_def)+

lemma formDecode_encode:
  assumes "kvs \<noteq> []"
  shows "formDecode (formEncode kvs) = sort_key fst kvs"
proof -
  let ?pair = "\<lambda>(k, v). QueryEscape k @ CHR ''='' # QueryEscape v"
  have ne: "map ?pair (sort_key fst kvs) \<noteq> []" using assms by (metis length_0_conv length_map length_sort)
  have "splitOn (CHR ''&'') (formEncode kvs) = map ?pair (sort_key fst kvs)"
    unfolding formEncode_def using ne QueryEscape_safe(1) by (intro splitOn_joinWith) auto
  moreover have "(case Cut (?pair p) (CHR ''='') of (k, v, _) \<Rightarrow> (queryUnescape k, queryUnescape v)) = p" for p
    using Cut_append [OF QueryEscape_safe(2)] by (auto simp: queryUnescape_escape split: prod.splits)
  ultimately show ?thesis by (simp add: formDecode_def comp_def)
qed

lemma map_of_sorted: "distinct (map fst kvs) \<Longrightarrow> map_of (sort_key fst kvs) = map_of kvs"
  by (rule map_of_eqI) (auto simp: distinct_map distinct_sort inj_on_def intro!: map_of_is_SomeI)

lemma dot_free: "CHR ''.'' \<notin> set (rawURLEncode bs)"
  using rawURLEncode_chars [of bs] urlDigit_simps(4) by fastforce

text \<open>
  What makes a token a signed assertion of a client for an issuer: header, claims and the signature the key makes over the
  two. \<open>signs\<close> is what the service relies on: the key signs a digest (\<open>rsa.SignPKCS1v15\<close> fails only when the
  modulus is too short for it).
\<close>

definition signs :: "'k svc_library \<Rightarrow> 'k \<Rightarrow> bool" where
  "signs L key \<longleftrightarrow> (\<forall>b. sl_sign L key (sl_sha256 L b) \<noteq> None)"

definition assertionOf :: "'k svc_library \<Rightarrow> string \<Rightarrow> string \<Rightarrow> string \<Rightarrow> 'k \<Rightarrow> int \<Rightarrow> string \<Rightarrow> bool" where
  "assertionOf L clientID keyID issuer key now tok \<longleftrightarrow>
    (\<exists>h c sig s. splitOn (CHR ''.'') tok = [h, c, sig] \<and>
       rawURLDecode h = Some (bytesOf (marshalMap [(''alg'', Inl ''RS256''), (''typ'', Inl ''JWT''), (''kid'', Inl keyID)])) \<and>
       rawURLDecode c = Some (bytesOf (marshalMap [(''iss'', Inl clientID), (''sub'', Inl clientID), (''aud'', Inl issuer),
         (''iat'', Inr (now div second)), (''exp'', Inr (now div second + 300))])) \<and>
       sl_sign L key (sl_sha256 L (bytesOf (h @ CHR ''.'' # c))) = Some s \<and> rawURLDecode sig = Some s)"

lemma clientAssertion_parts:
  assumes "signs L key"
  shows "assertionOf L clientID keyID issuer key now (clientAssertion L clientID keyID issuer key now)"
proof -
  have m: "(now + 5 * minute) div second = now div second + 300" by (simp add: minute_def second_def)
  have "splitOn (CHR ''.'') ((rawURLEncode x @ CHR ''.'' # rawURLEncode y) @ CHR ''.'' # rawURLEncode z) = [rawURLEncode x, rawURLEncode y, rawURLEncode z]" for x y z
    by (simp add: splitOn_part splitOn_last dot_free)
  moreover obtain s where "sl_sign L key (sl_sha256 L (bytesOf (b64json [(''alg'', Inl ''RS256''), (''typ'', Inl ''JWT''), (''kid'', Inl keyID)] @
      CHR ''.'' # b64json [(''iss'', Inl clientID), (''sub'', Inl clientID), (''aud'', Inl issuer), (''iat'', Inr (now div second)),
        (''exp'', Inr (now div second + 300))]))) = Some s"
    using assms unfolding signs_def by blast
  ultimately show ?thesis unfolding assertionOf_def clientAssertion_def Let_def b64json_def m by (simp add: rawURLDecode_encode)
qed

section \<open>Properties\<close>

lemma OnBehalfOf_run:
  assumes "OnBehalfOf e tok w = (Inr new, w')"
  shows "w' = w" "tok \<noteq> []" "new \<noteq> []" "\<exists>status doc. status < 300 \<and> textField ''access_token'' doc = Some new \<and>
    sl_post (ex_lib e) (w_now w) (ex_tokenURL e) (formEncode (exchangeForm e (w_now w) tok)) = Reply status (Some doc)"
  using assms
  by (auto simp: OnBehalfOf_def posted_def bnd_apply ret_apply fail_apply time_now_def
      split: if_splits sum.splits option.splits reply.splits)

text \<open>C34. A token exchange says who asks, for whom and for what. When \<open>OnBehalfOf\<close> returns a token, and the key of the
  service can sign, the token endpoint of the issuer was sent a form that reads back as: the user's token as the subject token, the project of the tenant as the
  requested audience, and an assertion with the service itself as issuer and subject, meant for this issuer, valid for five
  minutes from now, and carrying the signature made with the service's key; and the token is the one in a successful answer.\<close>

theorem OnBehalfOf_request:
  assumes "NewExchanger L issuer projectID keyJSON = Inr e" "OnBehalfOf e tok w = (Inr new, w')" "signs L (ex_key e)"
  shows "\<exists>body k key a status doc. sl_post L (w_now w) (TrimRight issuer (CHR ''/'') @ ''/oauth/v2/token'') body = Reply status (Some doc) \<and>
    status < 300 \<and> textField ''access_token'' doc = Some new \<and> new \<noteq> [] \<and>
    map_of (formDecode body) ''subject_token'' = Some tok \<and>
    map_of (formDecode body) ''scope'' = Some (''openid urn:zitadel:iam:org:project:id:'' @ projectID @ '':aud'') \<and>
    map_of (formDecode body) ''client_assertion'' = Some a \<and> Option.bind (sl_parse L keyJSON) decodeAppKey = Some k \<and> parseRSAKey L (ak_Key k) = Inr key \<and>
    assertionOf L (ak_ClientID k) (ak_KeyID k) issuer key (w_now w) a"
proof -
  obtain k key where k: "Option.bind (sl_parse L keyJSON) decodeAppKey = Some k" "parseRSAKey L (ak_Key k) = Inr key"
    and e: "e = \<lparr>ex_issuer = issuer, ex_tokenURL = TrimRight issuer (CHR ''/'') @ ''/oauth/v2/token'', ex_clientID = ak_ClientID k,
                ex_keyID = ak_KeyID k, ex_key = key, ex_projScope = ProjectAudienceScope projectID, ex_lib = L\<rparr>"
    using assms(1) by (auto simp: NewExchanger_def split: option.splits if_splits sum.splits)
  let ?form = "exchangeForm e (w_now w) tok"
  have ne: "?form \<noteq> []" and d: "distinct (map fst ?form)" by (simp_all add: exchangeForm_def)
  have f: "map_of (formDecode (formEncode ?form)) = map_of ?form" by (simp only: formDecode_encode [OF ne] map_of_sorted [OF d])
  have "map_of ?form ''scope'' = Some (''openid urn:zitadel:iam:org:project:id:'' @ projectID @ '':aud'')"
    by (simp add: exchangeForm_def e ProjectAudienceScope_def)
  moreover have "map_of ?form ''client_assertion'' = Some (assertion e (w_now w))" "map_of ?form ''subject_token'' = Some tok"
    by (simp_all add: exchangeForm_def)
  moreover have "assertionOf L (ak_ClientID k) (ak_KeyID k) issuer key (w_now w) (assertion e (w_now w))"
    using assms(3) unfolding assertion_def e by (simp add: clientAssertion_parts)
  moreover obtain status doc where "status < 300" "textField ''access_token'' doc = Some new"
    "sl_post L (w_now w) (TrimRight issuer (CHR ''/'') @ ''/oauth/v2/token'') (formEncode ?form) = Reply status (Some doc)"
    using OnBehalfOf_run(4) [OF assms(2)] by (auto simp: e)
  ultimately show ?thesis using OnBehalfOf_run(3) [OF assms(2)] k f
    by (intro exI [of _ "formEncode ?form"] exI [of _ k] exI [of _ key] exI [of _ "assertion e (w_now w)"] exI [of _ status] exI [of _ doc]) simp
qed

text \<open>A token the provider calls inactive names nobody.\<close>

lemma Introspect_inactive:
  assumes "Introspect v token w = (Inr i, w')" "ti_Subject i \<noteq> [] \<or> ti_ActorClient i \<noteq> [] \<or> ti_ActorName i \<noteq> []"
  shows "ti_Active i"
  using assms
  by (auto simp: Introspect_def posted_def decodeInfo_def bnd_apply ret_apply fail_apply time_now_def bind_eq_Some_conv
      split: if_splits sum.splits option.splits reply.splits)

section \<open>Witnesses\<close>

definition demoLib :: "unit svc_library" where
  "demoLib = \<lparr>sl_parse = (\<lambda>_. Some (JObj [(''clientId'', JStr ''c''), (''keyId'', JStr ''1''), (''key'', JStr ''k'')])), sl_pem = (\<lambda>b. Some b),
     sl_pkcs1 = (\<lambda>_. Some ()), sl_pkcs8 = (\<lambda>_. None), sl_sha256 = id, sl_sign = (\<lambda>_ b. Some b),
     sl_post = (\<lambda>_ _ _. Reply 200 (Some (JObj [(''access_token'', JStr ''obo'')])))\<rparr>"

lemma demoLib_key: "Option.bind (sl_parse demoLib b) decodeAppKey = Some \<lparr>ak_KeyID = ''1'', ak_Key = ''k'', ak_ClientID = ''c''\<rparr>"
  by (simp add: demoLib_def decodeAppKey_def textField_def decodeField_def jsonString_def lowerAscii_def of_char_def char_of_def bit_0)

definition demoExchanger :: "unit exchanger" where
  "demoExchanger = \<lparr>ex_issuer = ''https://id'', ex_tokenURL = ''https://id/oauth/v2/token'', ex_clientID = ''c'', ex_keyID = ''1'', ex_key = (),
     ex_projScope = ProjectAudienceScope ''7'', ex_lib = demoLib\<rparr>"

lemma demo_exchanger: "NewExchanger demoLib ''https://id'' ''7'' [] = Inr demoExchanger"
  unfolding NewExchanger_def demoLib_key
  by (simp add: parseRSAKey_def demoExchanger_def) (simp add: demoLib_def TrimRight_def)

lemma demo_exchange: "OnBehalfOf demoExchanger ''at'' w = (Inr ''obo'', w)"
  by (simp add: OnBehalfOf_def demoExchanger_def demoLib_def posted_def bnd_apply ret_apply time_now_def textField_def decodeField_def jsonString_def
      lowerAscii_def of_char_def)

theorem OnBehalfOf_request_witness:
  "\<exists>body a. map_of (formDecode body) ''subject_token'' = Some ''at'' \<and>
    map_of (formDecode body) ''client_assertion'' = Some a \<and> assertionOf demoLib ''c'' ''1'' ''https://id'' () (w_now (demoWorld ())) a"
proof -
  have "signs demoLib (ex_key demoExchanger)" by (simp add: signs_def demoLib_def)
  from OnBehalfOf_request [OF demo_exchanger demo_exchange [of "demoWorld ()"] this] show ?thesis by (auto simp: demoLib_key)
qed

end
