(* ===== verification/Kamara.thy ===== *)
theory Kamara
  imports Startup
begin

text \<open>
  The file application as a whole: the multiplexer of \<open>kamara/cmd/kamara/main.go\<close> over the three front doors, and
  the runs of the process, as a step relation. A step is one request, an erasure, a restart, or the
  environment moving: time passes, the fault schedule and the tuples of the authorization server are
  replaced by any others. A request is one step; two requests do not interleave.
\<close>

section \<open>The multiplexer\<close>

datatype endpoint =
    Healthz
  | Static asset
  | Api api_route request
  | Office wopi_route request
  | AuthLogin web_request
  | AuthCallback web_request
  | AuthLogout web_request
  | Site web_route web_request

datatype answer =
    Plain string
  | ApiAnswer api_response
  | OfficeAnswer wopi_response
  | PageAnswer web_response

type_synonym kstate = "kamara_db world \<times> subject sstore \<times> web_state"

text \<open>The embedded files: \<open>serveCSS\<close>, \<open>serveJS\<close>, \<open>serveUploader\<close> and \<open>serveEditorJS\<close>.\<close>

definition serveAsset :: "(asset \<Rightarrow> bytes option) \<Rightarrow> asset \<Rightarrow> web_response" where
  "serveAsset embedded a = (case embedded a of
     None \<Rightarrow> httpError (if a = StyleCSS then ''stylesheet unavailable'' else ''script unavailable'') 500
   | Some b \<Rightarrow> \<lparr>rs_Status = 200,
       rs_Header = [(''Content-Type'', if a = StyleCSS then ''text/css; charset=utf-8'' else ''text/javascript; charset=utf-8''),
         (''Cache-Control'', ''public, max-age=3600'')],
       rs_Body = PBytes b\<rparr>)"

text \<open>The handlers share the world; the API has the token cache beside it, the site its sessions.\<close>

definition viaWorld :: "'a kamara \<Rightarrow> (kstate, 'a) io" where
  "viaWorld m = (\<lambda>(w, c, s). case m w of (r, w') \<Rightarrow> (r, (w', c, s)))"

definition viaCache :: "(kamara_db world \<times> subject sstore, 'a) io \<Rightarrow> (kstate, 'a) io" where
  "viaCache m = (\<lambda>(w, c, s). case m (w, c) of (r, (w', c')) \<Rightarrow> (r, (w', c', s)))"

definition viaSite :: "'a webio \<Rightarrow> (kstate, 'a) io" where
  "viaSite m = (\<lambda>(w, c, s). case m (w, s) of (r, (w', s')) \<Rightarrow> (r, (w', c, s')))"

definition serve :: "process \<Rightarrow> endpoint \<Rightarrow> (kstate, answer) io" where
  "serve K e = (case e of
     Healthz \<Rightarrow> ret (Plain ''ok'')
   | Static a \<Rightarrow> ret (PageAnswer (serveAsset (pr_embedded K) a))
   | Api route r \<Rightarrow> bnd (viaCache (Routes (pr_svc K) (pr_apiLimit K) (Subject (pr_auth K)) route r)) (\<lambda>a. ret (ApiAnswer a))
   | Office route r \<Rightarrow> bnd (viaWorld (wopiRoutes (pr_sessions K) (pr_svc K) (pr_wopiLimit K) route r)) (\<lambda>a. ret (OfficeAnswer a))
   | AuthLogin r \<Rightarrow> bnd (viaSite (Login (wa_rp (pr_app K)) r)) (\<lambda>a. ret (PageAnswer a))
   | AuthCallback r \<Rightarrow> bnd (viaSite (Callback (wa_rp (pr_app K)) r)) (\<lambda>a. ret (PageAnswer a))
   | AuthLogout r \<Rightarrow> bnd (viaSite (Logout (wa_rp (pr_app K)) r)) (\<lambda>a. ret (PageAnswer a))
   | Site route r \<Rightarrow> bnd (viaSite (browser (pr_app K) (pr_publicURL K) route r)) (\<lambda>a. ret (PageAnswer a)))"

section \<open>Runs\<close>

text \<open>A request whose body makes progress while it is read.\<close>

definition steady :: "endpoint \<Rightarrow> bool" where
  "steady e = (case e of Api _ r \<Rightarrow> progressing (rq_Body r) | Office _ r \<Rightarrow> progressing (rq_Body r) | Site _ r \<Rightarrow> steadyWeb r | _ \<Rightarrow> True)"

inductive kamara_step :: "process \<Rightarrow> kstate \<Rightarrow> kstate \<Rightarrow> bool" for K where
  request: "steady e \<Longrightarrow> serve K e st = (res, st') \<Longrightarrow> kamara_step K st st'"
| erase: "EraseFiles (pr_svc K) u w = (res, w') \<Longrightarrow> kamara_step K (w, c, s) (w', c, s)"
| environment: "w_now w \<le> t \<Longrightarrow> kamara_step K (w, c, s) (w\<lparr>w_now := t, w_faults := fs, w_fga := g\<rparr>, c, s)"
| restart: "kamara_step K (w, c, s) (w, pr_cache0 K, pr_site0 K)"

abbreviation kamara_run :: "process \<Rightarrow> kstate \<Rightarrow> kstate \<Rightarrow> bool" where
  "kamara_run K \<equiv> (kamara_step K)\<^sup>*\<^sup>*"

section \<open>Assertions on the world\<close>

text \<open>
  An assertion on the world that is kept by the service (through the contract of \<open>Handlers\<close>), by an erasure
  and by the environment is kept by every step.
\<close>

lemma bnd_ret_world: "bnd m (\<lambda>a. ret (f a)) st = (res, st') \<Longrightarrow> \<exists>r. m st = (r, st')"
  by (auto simp: bnd_apply ret_apply split: prod.splits sum.splits)

lemma via_runs:
  "viaWorld m (w, c, s) = (x, (w', c', s')) \<longleftrightarrow> m w = (x, w') \<and> c' = c \<and> s' = s"
  "viaCache n (w, c, s) = (y, (w', c', s')) \<longleftrightarrow> n (w, c) = (y, (w', c')) \<and> s' = s"
  "viaSite p (w, c, s) = (z, (w', c', s')) \<longleftrightarrow> p (w, s) = (z, (w', s')) \<and> c' = c"
  by (auto simp: viaWorld_def viaCache_def viaSite_def split: prod.splits)

text \<open>What a served request ran.\<close>

lemma serve_runs:
  "serve K (Api route r) (w, c, s) = (res, (w', c', s')) \<Longrightarrow>
    s' = s \<and> (\<exists>x. Routes (pr_svc K) (pr_apiLimit K) (Subject (pr_auth K)) route r (w, c) = (x, (w', c')))"
  "serve K (Office wroute r) (w, c, s) = (res, (w', c', s')) \<Longrightarrow>
    c' = c \<and> s' = s \<and> (\<exists>x. wopiRoutes (pr_sessions K) (pr_svc K) (pr_wopiLimit K) wroute r w = (x, w'))"
  "serve K (Site sroute q) (w, c, s) = (res, (w', c', s')) \<Longrightarrow>
    c' = c \<and> (\<exists>x. browser (pr_app K) (pr_publicURL K) sroute q (w, s) = (x, (w', s')))"
  "serve K (AuthLogin q) (w, c, s) = (res, (w', c', s')) \<Longrightarrow>
    c' = c \<and> (\<exists>x :: err + web_response. Login (wa_rp (pr_app K)) q (w, s) = (x, (w', s')))"
  "serve K (AuthCallback q) (w, c, s) = (res, (w', c', s')) \<Longrightarrow>
    c' = c \<and> (\<exists>x :: err + web_response. Callback (wa_rp (pr_app K)) q (w, s) = (x, (w', s')))"
  "serve K (AuthLogout q) (w, c, s) = (res, (w', c', s')) \<Longrightarrow>
    c' = c \<and> (\<exists>x :: err + web_response. Logout (wa_rp (pr_app K)) q (w, s) = (x, (w', s')))"
  by (auto simp: serve_def via_runs dest!: bnd_ret_world)

lemma keeps_Routes:
  assumes "\<And>u. keeps I (apiHandler S n route r u)"
  shows "keeps (onWorld I) (Routes S n (Subject A) route r)"
proof -
  have "keeps (onWorld I) (Subject A tok)" for tok
  proof (rule keepsI)
    fix p :: "kamara_db world \<times> subject sstore" assume "I (fst p)"
    then show "I (fst (snd (Subject A tok p)))" using userinfo.auth_world [of A tok "fst p" "snd p"] by (metis prod.collapse)
  qed
  then show ?thesis
    unfolding Routes_def authed_def by (intro keeps_let keeps_if keeps_ret keeps_attempt keeps_option keeps_lift assms)
qed

lemma keeps_rp_parts:
  "keeps (onWorld I) rpNow" "keeps (onWorld I) (onLogins g)" "keeps (onWorld I) (onSessions h)" "keeps (onWorld I) (getLogin k)" "keeps (onWorld I) (getSession k)"
  by (auto intro!: keepsI simp: rpNow_def onLogins_def onSessions_def getLogin_def getSession_def split: prod.splits)

lemma keeps_rp:
  assumes "randless I"
  shows "keeps (onWorld I) (Login R r)" "keeps (onWorld I) (Callback R r)" "keeps (onWorld I) (Logout R r)"
  unfolding Login_def Callback_def completeLogin_def Logout_def randID_def
  by (intro keeps_rules keeps_rp_parts assms)+

locale site_contract = service_contract "pr_svc K" J for K :: process and J +
  assumes app: "wa_svc (pr_app K) = pr_svc K"
begin

lemma serve_keeps:
  assumes st: "steady e" and run: "serve K e (w, c, s) = (res, (w', c', s'))" and w: "J w"
  shows "J w'"
proof -
  note rp = keeps_rp [OF tokenlessD(2) [OF J_tokenless]]
  have api: "keeps (onWorld J) (Routes (pr_svc K) (pr_apiLimit K) (Subject (pr_auth K)) route r)" if "e = Api route r" for route r
    using st that by (intro keeps_Routes keeps_apiHandler) (simp add: steady_def)
  have office: "keeps J (wopiRoutes (pr_sessions K) (pr_svc K) (pr_wopiLimit K) route r)" if "e = Office route r" for route r
    using st that by (intro keeps_wopiRoutes) (simp add: steady_def)
  have site: "keeps (onSite J (rp_sessions s)) (browser (pr_app K) (pr_publicURL K) route r)" if "e = Site route r" for route r
    using st that by (intro keeps_browser app) (simp add: steady_def)
  show ?thesis
  proof (cases e)
    case (Static a)
    then show ?thesis using run w by (simp add: serve_def ret_apply)
  next
    case Healthz
    then show ?thesis using run w by (simp add: serve_def ret_apply)
  next
    case (Api route r)
    then obtain x where x: "Routes (pr_svc K) (pr_apiLimit K) (Subject (pr_auth K)) route r (w, c) = (x, (w', c'))" using serve_runs(1) run by blast
    from keepsD2 [OF api [OF Api] _ x] show ?thesis using w by simp
  next
    case (Office route r)
    then obtain x where x: "wopiRoutes (pr_sessions K) (pr_svc K) (pr_wopiLimit K) route r w = (x, w')" using serve_runs(2) run by blast
    from keepsD2 [OF office [OF Office] _ x] show ?thesis using w by simp
  next
    case (Site route r)
    then obtain x where x: "browser (pr_app K) (pr_publicURL K) route r (w, s) = (x, (w', s'))" using serve_runs(3) run by blast
    from keepsD2 [OF site [OF Site] _ x] show ?thesis using w by simp
  next
    case (AuthLogin r)
    then obtain x where x: "Login (wa_rp (pr_app K)) r (w, s) = (x :: err + web_response, (w', s'))" using serve_runs(4) run by blast
    from keepsD2 [OF rp(1) _ x] show ?thesis using w by simp
  next
    case (AuthCallback r)
    then obtain x where x: "Callback (wa_rp (pr_app K)) r (w, s) = (x :: err + web_response, (w', s'))" using serve_runs(5) run by blast
    from keepsD2 [OF rp(2) _ x] show ?thesis using w by simp
  next
    case (AuthLogout r)
    then obtain x where x: "Logout (wa_rp (pr_app K)) r (w, s) = (x :: err + web_response, (w', s'))" using serve_runs(6) run by blast
    from keepsD2 [OF rp(3) _ x] show ?thesis using w by simp
  qed
qed

end

locale process_contract = site_contract +
  assumes keeps_erase: "keeps J (EraseFiles (pr_svc K) u)"
    and environment: "J w \<Longrightarrow> w_now w \<le> t \<Longrightarrow> J (w\<lparr>w_now := t, w_faults := fs, w_fga := g\<rparr>)"
begin

lemma step_keeps: "kamara_step K st st' \<Longrightarrow> J (fst st) \<Longrightarrow> J (fst st')"
proof (induction rule: kamara_step.induct)
  case (request e st res st')
  then show ?case using serve_keeps by (cases st; cases st') auto
next
  case (erase u w res w' c s)
  then show ?case using keepsD2 [OF keeps_erase] by fastforce
qed (simp_all add: environment)

lemma run_keeps: "kamara_run K st st' \<Longrightarrow> J (fst st) \<Longrightarrow> J (fst st')"
  by (induction rule: rtranclp_induct) (simp_all add: step_keeps)

end

text \<open>The contracts hold for a process on a file system.\<close>

definition mounted :: "string \<Rightarrow> process \<Rightarrow> process" where
  "mounted root K = K\<lparr>pr_svc := onDisk root (pr_svc K), pr_app := (pr_app K)\<lparr>wa_svc := onDisk root (pr_svc K)\<rparr>\<rparr>"

lemma mounted_simps [simp]: "pr_svc (mounted root K) = onDisk root (pr_svc K)" "wa_svc (pr_app (mounted root K)) = onDisk root (pr_svc K)"
  by (simp_all add: mounted_def)

interpretation ticking: site_contract "mounted root K" "clocked t" for root K t
  using clock.service_contract_axioms by (intro site_contract.intro site_contract_axioms.intro) simp_all

interpretation logging: process_contract "mounted root K" "logged A" for root K A
  using audit.service_contract_axioms logged_EraseFiles
  by (intro process_contract.intro process_contract_axioms.intro site_contract.intro site_contract_axioms.intro) (simp_all add: logged_def)

interpretation sound_store: process_contract "mounted root K" "intact root (pr_svc K)" for root K
  using store.service_contract_axioms
  by (intro process_contract.intro process_contract_axioms.intro site_contract.intro site_contract_axioms.intro)
    (auto simp: intact_def intro!: keeps_intact disk.EraseFiles_consistent)

section \<open>Who the process believes\<close>

text \<open>Every cached subject was accepted by the provider, every login session verified, within its lifetime.\<close>

definition trusted :: "process \<Rightarrow> kstate \<Rightarrow> bool" where
  "trusted K = (\<lambda>(w, c, s). cacheInv (pr_auth K) (w_now w) c \<and> rpInv (wa_rp (pr_app K)) (w_now w) s)"

lemma within_rpInv: "within (rp_sessions s) s' \<Longrightarrow> rpInv R t s \<Longrightarrow> rpInv R t s'"
  unfolding within_def rpInv_def backed_def map_le_def by (metis domI)

lemma serve_trusted:
  assumes K: "K = mounted root K" and st: "steady e" and run: "serve K e (w, c, s) = (res, (w', c', s'))" and t: "trusted K (w, c, s)"
  shows "trusted K (w', c', s')"
proof -
  have now: "w_now w' = w_now w"
    using ticking.serve_keeps [where root = root and K = K and t = "w_now w", folded K, OF st run] by simp
  note ci = t [unfolded trusted_def, simplified, THEN conjunct1] and ri = t [unfolded trusted_def, simplified, THEN conjunct2]
  have "cacheInv (pr_auth K) (w_now w) c' \<and> rpInv (wa_rp (pr_app K)) (w_now w) s'"
  proof (cases e)
    case (Static a)
    then show ?thesis using run ci ri by (simp add: serve_def ret_apply)
  next
    case Healthz
    then show ?thesis using run ci ri by (simp add: serve_def ret_apply)
  next
    case (Api route r)
    then obtain x where x: "s' = s" "Routes (pr_svc K) (pr_apiLimit K) (Subject (pr_auth K)) route r (w, c) = (x, (w', c'))"
      using serve_runs(1) run by blast
    from userinfo.authed_cases [OF ci x(2) [unfolded Routes_def]] show ?thesis using x(1) ri by simp
  next
    case (Office route r)
    then show ?thesis using serve_runs(2) run ci ri by blast
  next
    case (Site route r)
    then obtain x where x: "c' = c" "browser (pr_app K) (pr_publicURL K) route r (w, s) = (x, (w', s'))" using serve_runs(3) run by blast
    have "steadyWeb r" using st Site by (simp add: steady_def)
    then have "keeps (onSite (clocked (w_now w)) (rp_sessions s)) (browser (pr_app K) (pr_publicURL K) route r)"
      using ticking.keeps_browser [where root = root and K = K, folded K, OF ticking.app [where root = root and K = K, folded K]] by blast
    from keepsD2 [OF this _ x(2)] show ?thesis using within_rpInv [OF _ ri] x(1) ci by simp
  next
    case (AuthLogin r)
    then obtain x where x: "c' = c" "Login (wa_rp (pr_app K)) r (w, s) = (x :: err + web_response, (w', s'))" using serve_runs(4) run by blast
    from rpInv_ops(1) [OF ri x(2)] show ?thesis using x(1) ci by simp
  next
    case (AuthCallback r)
    then obtain x where x: "c' = c" "Callback (wa_rp (pr_app K)) r (w, s) = (x :: err + web_response, (w', s'))" using serve_runs(5) run by blast
    from rpInv_ops(2) [OF ri x(2)] show ?thesis using x(1) ci by simp
  next
    case (AuthLogout r)
    then obtain x where x: "c' = c" "Logout (wa_rp (pr_app K)) r (w, s) = (x :: err + web_response, (w', s'))" using serve_runs(6) run by blast
    from rpInv_ops(4) [OF ri x(2)] show ?thesis using x(1) ci by simp
  qed
  then show ?thesis by (simp add: trusted_def now)
qed

lemma step_trusted:
  assumes K: "K = mounted root K" and fresh: "\<And>w. trusted K (w, pr_cache0 K, pr_site0 K)"
  shows "kamara_step K st st' \<Longrightarrow> trusted K st \<Longrightarrow> trusted K st'"
proof (induction rule: kamara_step.induct)
  case (request e st res st')
  then show ?case using serve_trusted [OF K] by (cases st; cases st') auto
next
  case (erase u w res w' c s)
  have "pr_svc K = onDisk root (pr_svc K)" using mounted_simps(1) [of root K] K by simp
  then have "keeps (clocked (w_now w)) (EraseFiles (pr_svc K) u)" using clocked_ops(11) by metis
  from keepsD2 [OF this _ erase.hyps] show ?case using erase.prems by (simp add: trusted_def)
next
  case (environment w t c s fs g)
  then show ?case using backed_later rpInv_later by (auto simp: trusted_def)
qed (rule fresh)

lemma run_trusted:
  assumes "K = mounted root K" "\<And>w. trusted K (w, pr_cache0 K, pr_site0 K)"
  shows "kamara_run K st st' \<Longrightarrow> trusted K st \<Longrightarrow> trusted K st'"
  by (induction rule: rtranclp_induct) (simp_all add: step_trusted [OF assms])

lemma main_process:
  assumes "main getenv X = Inr K"
  shows "K = mounted (getenv ''KAMARA_BLOB_DIR'') K" "cipher_ok (sv_cipher (pr_svc K))" "sv_P (pr_svc K) = xt_prims X"
    "xt_authz X (getenv ''OPENFGA_API_URL'') = Some (sv_fga (pr_svc K))" "se_fga (pr_sessions K) = sv_fga (pr_svc K)"
    "trusted K (w, pr_cache0 K, pr_site0 K)"
proof -
  obtain issuer az dir dek c clientID where m: "xt_authz X (getenv ''OPENFGA_API_URL'') = Some az" "dir = getenv ''KAMARA_BLOB_DIR''"
      "NewCipher dek (issuerHost X issuer) = Inr c" "assemble getenv X issuer az dir c clientID = Inr K"
    using main_Inr [OF assms] by metis
  note a = assemble_Inr [OF m(4)]
  show "K = mounted (getenv ''KAMARA_BLOB_DIR'') K" using a(1,6) m(2) by (simp add: mounted_def)
  show "cipher_ok (sv_cipher (pr_svc K))" using NewCipher_Inr [OF m(3)] a(2) by simp
  show "sv_P (pr_svc K) = xt_prims X" by (rule a(3))
  show "xt_authz X (getenv ''OPENFGA_API_URL'') = Some (sv_fga (pr_svc K))" "se_fga (pr_sessions K) = sv_fga (pr_svc K)"
    using m(1) a(4,5) by simp_all
  obtain cfg P s where rp: "NewRelyingParty cfg P = Some (wa_rp (pr_app K), s)" "rp_sessions (pr_site0 K) = rp_sessions s"
    using assemble_rp [OF m(4)] by blast
  then show "trusted K (w, pr_cache0 K, pr_site0 K)"
    using cacheInv_new [OF a(8)] rpInv_new [OF rp(1)] by (simp add: trusted_def rpInv_def)
qed

text \<open>The caller a request comes from, as the front doors establish it.\<close>

definition authenticated :: "process \<Rightarrow> kamara_db world \<Rightarrow> web_state \<Rightarrow> endpoint \<Rightarrow> subject \<Rightarrow> bool" where
  "authenticated K w s e u = (case e of
     Api _ r \<Rightarrow> bearer r \<noteq> [] \<and> recentlyAccepted (pr_auth K) (w_now w) (bearer r) u
   | Office _ r \<Rightarrow> (\<exists>x. liveSession (pr_sessions K) w (wopiToken r) x \<and> ws_ObjectID x = rq_ID r \<and> ws_Subject x = u)
   | Site _ r \<Rightarrow> (\<exists>x. loggedIn (wa_rp (pr_app K)) r (w_now w) s x \<and>
       u = \<lparr>sub_Instance = wa_instance (pr_app K), sub_UserID = cl_Subject (os_Claims x)\<rparr>)
   | _ \<Rightarrow> False)"

abbreviation stored :: "kamara_db world \<Rightarrow> kamara_db \<times> _ \<times> _" where
  "stored w \<equiv> (w_db w, w_fga w, w_fs w)"

lemma wopi_live:
  assumes F: "fga_ok (se_fga E)" and run: "wopiRoutes E S n route r w = (res, w')" and ch: "stored w' \<noteq> stored w"
  shows "\<exists>x. liveSession E w (wopiToken r) x \<and> ws_ObjectID x = rq_ID r"
proof -
  obtain nxt where n: "wopiRoutes E S n route r = wopiSession E r nxt" by (cases route) (auto simp: wopiRoutes_def)
  obtain v w1 where v: "Validate E (wopiToken r) w = (v, w1)" by fastforce
  have w1: "stored w1 = stored w" using Validate_outcome [OF v] by auto
  show ?thesis
  proof (cases v)
    case (Inl e)
    then show ?thesis using run v w1 ch by (auto simp: n wopiSession_def attempt_def ret_apply)
  next
    case (Inr x)
    have "ws_ObjectID x = rq_ID r"
      using run v w1 ch Inr by (auto simp: n wopiSession_def attempt_def ret_apply split: if_splits)
    then show ?thesis using Validate_Inr [OF v [unfolded Inr] F] by (auto simp: liveSession_def)
  qed
qed

lemma browser_live:
  assumes i: "rpInv (wa_rp A) (w_now w) s" and run: "browser A self route r (w, s) = (res, (w', s'))" and ch: "w' \<noteq> w"
  shows "\<exists>x. loggedIn (wa_rp A) r (w_now w) s x"
proof -
  obtain v w1 s1 where v: "SessionOf (wa_rp A) r (w, s) = (v, (w1, s1))" by (metis prod.exhaust)
  have w1: "w1 = w" using keepsD2 [OF keeps_SessionOf [where I = "\<lambda>u. u = w" and c = "rp_sessions s"] _ v] by simp
  obtain x where x: "v = Inr x" using v by (auto simp: SessionOf_def getSession_def ret_apply split: option.splits prod.splits)
  have "x \<noteq> None"
  proof
    assume "x = None"
    then show False using run v x w1 ch by (simp add: browser_def Middleware_def bnd_apply RedirectToLogin_def ret_apply)
  qed
  then show ?thesis using SessionOf_loggedIn [OF i] v x by blast
qed

lemma main_disk: "main getenv X = Inr K \<Longrightarrow> onDisk (getenv ''KAMARA_BLOB_DIR'') (pr_svc K) = pr_svc K"
  using mounted_simps(1) [of "getenv ''KAMARA_BLOB_DIR''" K] main_process(1) [of getenv X K] by simp

lemma run_consistent:
  assumes K: "main getenv X = Inr K" and P: "aead_ok (xt_prims X)" "hash_ok (xt_prims X)"
    and run: "kamara_run K (w0, pr_cache0 K, pr_site0 K) (w, c, s)"
    and ok: "consistent False (pr_svc K) (fsBlobs (getenv ''KAMARA_BLOB_DIR'') w0) (w_db w0)"
  shows "consistent False (pr_svc K) (fsBlobs (getenv ''KAMARA_BLOB_DIR'') w) (w_db w)"
proof -
  let ?dir = "getenv ''KAMARA_BLOB_DIR''"
  note m = main_process [OF K]
  have sv: "svc_ok (pr_svc K)" using m(2,3) P by (simp add: svc_ok_def)
  have "intact ?dir (pr_svc K) w"
    using sound_store.run_keeps [where root = ?dir and K = K, folded m(1), OF run] ok main_disk [OF K] by (simp add: intact_def)
  then show ?thesis using sv main_disk [OF K] by (simp add: intact_def)
qed

section \<open>Properties\<close>

text \<open>C1. The whole application keeps its data intact. From any state in which the tables and the stored blobs agree,
  through any run of a started process (requests to the API, the office endpoints and the site in any
  order, erasures, restarts, any faults of the database, the disk and the authorization server, and
  any change of the authorization tuples), the tables and the blobs agree: reference counts cover the manifests,
  every chunk row has its blob, and every blob decrypts to contents with the hash it is stored under. And
  the audit log only ever grows.\<close>

theorem kamara_invariant:
  assumes K: "main getenv X = Inr K" and P: "aead_ok (xt_prims X)" "hash_ok (xt_prims X)"
    and run: "kamara_run K (w0, pr_cache0 K, pr_site0 K) (w, c, s)"
    and ok: "consistent False (pr_svc K) (fsBlobs (getenv ''KAMARA_BLOB_DIR'') w0) (w_db w0)"
  shows "consistent False (pr_svc K) (fsBlobs (getenv ''KAMARA_BLOB_DIR'') w) (w_db w) \<and>
    prefix (audit_events (w_db w0)) (audit_events (w_db w))"
proof -
  have "logged (audit_events (w_db w0)) w"
    using logging.run_keeps [where root = "getenv ''KAMARA_BLOB_DIR''" and K = K, folded main_process(1) [OF K], OF run] by (simp add: logged_def)
  then show ?thesis using run_consistent [OF assms] by (simp add: logged_def)
qed

text \<open>C3. Nothing is ever lost to its readers. In every state a started process reaches, whatever failed before and
  whatever it left behind, a download by whoever has access to a file succeeds as soon as no call fails any more, and
  writes contents with exactly the hashes of the latest version's manifest.\<close>

theorem kamara_serves:
  assumes K: "main getenv X = Inr K" and P: "aead_ok (xt_prims X)" "hash_ok (xt_prims X)"
    and run: "kamara_run K (w0, pr_cache0 K, pr_site0 K) (w, c, s)"
    and ok: "consistent False (pr_svc K) (fsBlobs (getenv ''KAMARA_BLOB_DIR'') w0) (w_db w0)"
    and now: "fga_ok (sv_fga (pr_svc K))" "can_access (w_fga w) (OpenFGAObject u) (fileObj i)"
  shows "\<exists>xs w'. map (ChunkHash (xt_prims X)) xs = latestHashes (w_db w) i \<and>
    Download (pr_svc K) u i (w\<lparr>w_faults := []\<rparr>, []) = (Inr (), (w', concat xs))"
proof -
  let ?dir = "getenv ''KAMARA_BLOB_DIR''" and ?w = "w\<lparr>w_faults := []\<rparr>"
  have "fsBlobs ?dir ?w = fsBlobs ?dir w" by (rule fs_store.blobs_frame) simp
  then show ?thesis
    using Download_total [of "pr_svc K" ?w False ?dir u i] now run_consistent [OF K P run ok] main_disk [OF K] main_process(3) [OF K] by simp
qed

text \<open>C2. No change without an authenticated caller. In every state a started process reaches, a request that changes anything
  in the tables, the tuples or the stored blobs is an API request with a bearer token the identity provider
  accepted for the caller within the cache lifetime, an office request under a live editing session for the
  file it names, or a request of the site whose session cookie stands for an unexpired login, the ID token of which was
  verified within the session lifetime.\<close>

theorem kamara_authenticated:
  assumes K: "main getenv X = Inr K" and run: "kamara_run K (w0, pr_cache0 K, pr_site0 K) (w, c, s)"
    and F: "fga_ok (sv_fga (pr_svc K))" and req: "serve K e (w, c, s) = (res, (w', c', s'))" and ch: "stored w' \<noteq> stored w"
  shows "\<exists>u. authenticated K w s e u"
proof -
  note m = main_process [OF K]
  have "trusted K (w, c, s)" using run_trusted [OF m(1,6) run m(6)] .
  then have ci: "cacheInv (pr_auth K) (w_now w) c" and ri: "rpInv (wa_rp (pr_app K)) (w_now w) s" by (simp_all add: trusted_def)
  have same: "stored w2 = stored w" if "keeps (onWorld (\<lambda>u. stored u = stored w)) a" "a (w, s) = (x, (w2, s2))" for a x w2 s2
    using keepsD2 [OF that(1) _ that(2)] by simp
  have rl: "randless (\<lambda>u. stored u = stored w)" by (simp add: randless_def)
  show ?thesis
  proof (cases e)
    case (Static a)
    then show ?thesis using req ch by (simp add: serve_def ret_apply)
  next
    case Healthz
    then show ?thesis using req ch by (simp add: serve_def ret_apply)
  next
    case (Api route r)
    then obtain x where "Routes (pr_svc K) (pr_apiLimit K) (Subject (pr_auth K)) route r (w, c) = (x, (w', c'))"
      using serve_runs(1) req by blast
    from userinfo.authed_cases [OF ci this [unfolded Routes_def]] show ?thesis using ch Api by (auto simp: authenticated_def)
  next
    case (Office route r)
    then obtain x where "wopiRoutes (pr_sessions K) (pr_svc K) (pr_wopiLimit K) route r w = (x, w')" using serve_runs(2) req by blast
    from wopi_live [OF _ this ch] show ?thesis using m(5) F Office by (auto simp: authenticated_def)
  next
    case (Site route r)
    then obtain x where "browser (pr_app K) (pr_publicURL K) route r (w, s) = (x, (w', s'))" using serve_runs(3) req by blast
    from browser_live [OF ri this] show ?thesis using ch Site by (auto simp: authenticated_def)
  next
    case (AuthLogin r)
    then show ?thesis using serve_runs(4) req same [OF keeps_rp(1) [OF rl]] ch by blast
  next
    case (AuthCallback r)
    then show ?thesis using serve_runs(5) req same [OF keeps_rp(2) [OF rl]] ch by blast
  next
    case (AuthLogout r)
    then show ?thesis using serve_runs(6) req same [OF keeps_rp(3) [OF rl]] ch by blast
  qed
qed

section \<open>Witnesses\<close>

definition demoProcess :: process where
  "demoProcess = (case main demoEnv demoExternals of Inr K \<Rightarrow> K | Inl _ \<Rightarrow> undefined)"

lemma demo_process: "main demoEnv demoExternals = Inr demoProcess"
  using demo_main by (auto simp: demoProcess_def)

lemma demo_dir [simp]: "demoEnv ''KAMARA_BLOB_DIR'' = ''/data''"
  by (simp add: demoEnv_def)

lemma demo_prims [simp]: "xt_prims demoExternals = toyPrims"
  by (simp add: demoExternals_def)

lemma assemble_limits:
  assumes "assemble getenv X issuer az dir c clientID = Inr K"
  shows "pr_svc K = \<lparr>sv_P = xt_prims X, sv_cipher = c, sv_blobs = FS dir, sv_fga = az, sv_mime = xt_mime X, sv_coll = xt_coll X, sv_revoker = True\<rparr>"
    "pr_apiLimit K = NewApi 0"
  using assms by (auto simp: assemble_def Let_def SetSessionRevoker_def NewService_def split: option.splits prod.splits)

lemma demo_svc: "pr_svc demoProcess = demoSvc" "pr_apiLimit demoProcess = NewApi 0"
  "NewUserinfoAuth demoProvider (\<lambda>_. None) ''acme'' 0 = (pr_auth demoProcess, pr_cache0 demoProcess)"
proof -
  obtain issuer az dir dek c clientID where m: "xt_authz demoExternals (demoEnv ''OPENFGA_API_URL'') = Some az" "dir = ''/data''"
      "assemble demoEnv demoExternals issuer az dir c clientID = Inr demoProcess"
    using main_Inr [OF demo_process] demo_dir by metis
  note a = assemble_limits [OF m(3)]
  have "sv_cipher (pr_svc demoProcess) = toyCipher"
    using main_cipher [OF demo_process] demo_dek by (auto simp: issuerHost_def demoExternals_def toyCipher_def demoKey_def)
  then have c: "c = toyCipher" using a by simp
  have "az = modelFga" using m(1) by (simp add: demoExternals_def)
  then show "pr_svc demoProcess = demoSvc" using a m(2) c by (simp add: demoExternals_def demoSvc_def)
  show "pr_apiLimit demoProcess = NewApi 0" by (rule a(2))
  show "NewUserinfoAuth demoProvider (\<lambda>_. None) ''acme'' 0 = (pr_auth demoProcess, pr_cache0 demoProcess)"
    using assemble_Inr(8) [OF m(3)] by (simp add: demoExternals_def issuerHost_def)
qed

lemma demo_auth: "Subject (pr_auth demoProcess) ''t'' (w, pr_cache0 demoProcess) =
    (Inr (Some ann), (w, PutSession (w_now w) ''t'' ann (pr_cache0 demoProcess)))"
proof -
  have "foldName ''sub'' = ''sub''" by (simp add: lowerAscii_def of_char_def)
  moreover have "pr_auth demoProcess = \<lparr>ua_userinfo = demoProvider, ua_parse = (\<lambda>_. None), ua_instance = ''acme'', ua_ttl = 60 * 1000000000\<rparr>"
    "pr_cache0 demoProcess = NewStore (60 * 1000000000)"
    using demo_svc(3) by (auto simp: NewUserinfoAuth_def Let_def)
  ultimately show ?thesis
    by (simp add: Subject_def bnd_apply ret_apply Let_def tokenExpired_def cacheGet_def cachePut_def
        GetSession_def NewStore_def demoProvider_def decodeField_def jsonString_def ann_def)
qed

text \<open>A first upload over the API.\<close>

lemma demo_upload_step:
  "\<exists>x w1 c1 a. serve demoProcess (Api UploadR (demoRequest [] ''a.txt'')) (demoWorld emptyDb, pr_cache0 demoProcess, pr_site0 demoProcess) =
     (Inr a, (w1, c1, pr_site0 demoProcess)) \<and> Upload demoSvc ann None ''a.txt'' demoReader (demoWorld emptyDb) = (Inr x, w1)"
proof -
  let ?r = "demoRequest [] ''a.txt''" and ?w = "demoWorld emptyDb :: kamara_db world"
  have fit: "MaxBytesReader demoReader (NewApi 0) = demoReader"
    by (rule MaxBytesReader_within) (simp add: NewApi_def DefaultMaxUploadBytes_def)
  obtain x w1 where u: "Upload demoSvc ann None ''a.txt'' demoReader ?w = (Inr x, w1)" using demo_upload by auto
  have up: "apiUpload demoSvc (NewApi 0) ?r ann ?w = (Inr (writeJSON 201 (toFile x)), w1)"
    using u fit by (simp add: apiUpload_def demoRequest_def optStr_def attempt_def ret_apply)
  have "Routes demoSvc (NewApi 0) (Subject (pr_auth demoProcess)) UploadR ?r (?w, pr_cache0 demoProcess) =
      (Inr (writeJSON 201 (toFile x)), (w1, PutSession (w_now ?w) ''t'' ann (pr_cache0 demoProcess)))"
    using up by (simp add: Routes_def authed_def Let_def attempt_def demo_auth lift_def apiHandler_def)
  then show ?thesis using u by (auto simp: serve_def demo_svc viaCache_def bnd_apply ret_apply)
qed

lemma demo_started: "consistent False (pr_svc demoProcess) (fsBlobs (demoEnv ''KAMARA_BLOB_DIR'') (demoWorld emptyDb)) (w_db (demoWorld emptyDb))"
  by (simp add: demo_svc)

lemma demo_uploaded:
  "\<exists>x w1 c1. kamara_run demoProcess (demoWorld emptyDb, pr_cache0 demoProcess, pr_site0 demoProcess) (w1, c1, pr_site0 demoProcess) \<and>
     objects (w_db w1) = [x] \<and> fsClean w1 \<and> can_access (w_fga w1) (OpenFGAObject ann) (fileObj (ob_ID x))"
proof -
  obtain x w1 c1 a where u: "serve demoProcess (Api UploadR (demoRequest [] ''a.txt'')) (demoWorld emptyDb, pr_cache0 demoProcess, pr_site0 demoProcess) =
     (Inr a, (w1, c1, pr_site0 demoProcess))" "Upload demoSvc ann None ''a.txt'' demoReader (demoWorld emptyDb) = (Inr x, w1)"
    using demo_upload_step by blast
  have "kamara_step demoProcess (demoWorld emptyDb, pr_cache0 demoProcess, pr_site0 demoProcess) (w1, c1, pr_site0 demoProcess)"
    by (rule kamara_step.request [OF _ u(1)]) (simp add: steady_def demoRequest_def)
  moreover have up: "Upload (onDisk ''/data'' demoSvc) ann None ''a.txt'' demoReader (demoWorld emptyDb) = (Inr x, w1)" using u(2) by simp
  have "tables_ok (w_db (demoWorld emptyDb))" using demo_started by (simp add: consistent_def good_def)
  note e = disk.Upload_effect [OF _ this _ up]
  have "objects (w_db w1) = [x]" using e(6) by (simp add: emptyDb_def)
  moreover have "can_access (w_fga w1) (OpenFGAObject ann) (fileObj (ob_ID x))" using e(8) by (intro can_access.owner) simp
  moreover have "fsClean w1" using disk.Upload_clean [OF _ _ _ up] validKey_ChunkHash by simp
  ultimately show ?thesis by blast
qed

theorem kamara_invariant_witness:
  "\<exists>w c s x. kamara_run demoProcess (demoWorld emptyDb, pr_cache0 demoProcess, pr_site0 demoProcess) (w, c, s) \<and>
     objects (w_db w) = [x] \<and> consistent False demoSvc (fsBlobs ''/data'' w) (w_db w)"
proof -
  obtain x w1 c1 where u: "kamara_run demoProcess (demoWorld emptyDb, pr_cache0 demoProcess, pr_site0 demoProcess) (w1, c1, pr_site0 demoProcess)"
     "objects (w_db w1) = [x]" using demo_uploaded by blast
  then show ?thesis using kamara_invariant [OF demo_process _ _ u(1) demo_started] by (auto simp: demo_svc)
qed

theorem kamara_serves_witness:
  "\<exists>w c s x xs w'. kamara_run demoProcess (demoWorld emptyDb, pr_cache0 demoProcess, pr_site0 demoProcess) (w, c, s) \<and>
     objects (w_db w) = [x] \<and> Download demoSvc ann (ob_ID x) (w\<lparr>w_faults := []\<rparr>, []) = (Inr (), (w', concat xs)) \<and>
     map (ChunkHash toyPrims) xs = latestHashes (w_db w) (ob_ID x)"
proof -
  obtain x w1 c1 where u: "kamara_run demoProcess (demoWorld emptyDb, pr_cache0 demoProcess, pr_site0 demoProcess) (w1, c1, pr_site0 demoProcess)"
     "objects (w_db w1) = [x]" "can_access (w_fga w1) (OpenFGAObject ann) (fileObj (ob_ID x))" using demo_uploaded by blast
  have "fga_ok (sv_fga (pr_svc demoProcess))" by (simp add: demo_svc)
  from kamara_serves [OF demo_process _ _ u(1) demo_started this u(3)] obtain xs w' where
    "map (ChunkHash toyPrims) xs = latestHashes (w_db w1) (ob_ID x)" "Download demoSvc ann (ob_ID x) (w1\<lparr>w_faults := []\<rparr>, []) = (Inr (), (w', concat xs))"
    by (auto simp: demo_svc)
  then show ?thesis using u(1,2) by blast
qed

theorem kamara_authenticated_witness:
  "\<exists>u. authenticated demoProcess (demoWorld emptyDb) (pr_site0 demoProcess) (Api UploadR (demoRequest [] ''a.txt'')) u"
proof -
  obtain x w1 c1 a where u: "serve demoProcess (Api UploadR (demoRequest [] ''a.txt'')) (demoWorld emptyDb, pr_cache0 demoProcess, pr_site0 demoProcess) =
     (Inr a, (w1, c1, pr_site0 demoProcess))" "Upload demoSvc ann None ''a.txt'' demoReader (demoWorld emptyDb) = (Inr x, w1)"
    using demo_upload_step by blast
  have up: "Upload (onDisk ''/data'' demoSvc) ann None ''a.txt'' demoReader (demoWorld emptyDb) = (Inr x, w1)" using u(2) by simp
  have "tables_ok (w_db (demoWorld emptyDb))" using demo_started by (simp add: consistent_def good_def)
  from disk.Upload_effect(6) [OF _ this _ up] have ch: "stored w1 \<noteq> stored (demoWorld emptyDb)" by (auto simp: emptyDb_def)
  have "fga_ok (sv_fga (pr_svc demoProcess))" by (simp add: demo_svc)
  from kamara_authenticated [OF demo_process rtranclp.rtrancl_refl this u(1) ch] show ?thesis .
qed

end
