(* ===== verification/Task.thy ===== *)
theory Task
  imports Folder_Spec
begin

text \<open>
  The task application Ergonomos: the rows of \<open>ergonomos/internal/store/stores.go\<close>, the domain of
  \<open>ergonomos/internal/task/task.go\<close> and its personal data (\<open>subject_data.go\<close>). It is built from the same
  conventions as the file service, over a database of its own.
\<close>

section \<open>Rows\<close>

record task =
  ta_ID :: string
  ta_Owner :: subject
  ta_Title :: string
  ta_Done :: bool
  ta_Created :: int
  ta_Updated :: int

record ergo_db = conv_db +
  tasks :: "task list"

type_synonym 'a ergo = "(ergo_db, 'a) action"

definition taskInsert :: "task \<Rightarrow> unit ergo" where
  "taskInsert t = exec (\<lambda>_ d.
     if ta_ID t \<in> ta_ID ` set (tasks d) then Inl ErrUnique else Inr (d\<lparr>tasks := tasks d @ [t]\<rparr>))"

definition findTask :: "ergo_db \<Rightarrow> string \<Rightarrow> task option" where
  "findTask d i = List.find (\<lambda>t. ta_ID t = i) (tasks d)"

definition taskGet :: "string \<Rightarrow> task option ergo" where
  "taskGet i = query (\<lambda>d. findTask d i)"

definition tasksByIDs :: "string list \<Rightarrow> task list ergo" where
  "tasksByIDs ids = (if ids = [] then ret []
     else query (\<lambda>d. sort_key ta_Created (filter (\<lambda>t. ta_ID t \<in> set ids) (tasks d))))"

definition tasksByOwner :: "subject \<Rightarrow> task list ergo" where
  "tasksByOwner s = query (\<lambda>d. sort_key ta_Created (filter (\<lambda>t. ta_Owner t = s) (tasks d)))"

text \<open>\<open>UPDATE ... RETURNING\<close>: the row as it is afterwards.\<close>

definition taskSetDone :: "string \<Rightarrow> bool \<Rightarrow> task ergo" where
  "taskSetDone i done' = call (\<lambda>w. case findTask (w_db w) i of
     None \<Rightarrow> (Inl ErrTaskNotFound, w)
   | Some t \<Rightarrow>
       let t' = t\<lparr>ta_Done := done', ta_Updated := w_now w\<rparr>
       in (Inr t', w\<lparr>w_db := (w_db w)\<lparr>tasks := map (\<lambda>x. if ta_ID x = i then t' else x) (tasks (w_db w))\<rparr>\<rparr>))"

definition taskDelete :: "string \<Rightarrow> unit ergo" where
  "taskDelete i = exec (\<lambda>_ d. Inr (d\<lparr>tasks := filter (\<lambda>t. ta_ID t \<noteq> i) (tasks d)\<rparr>))"

definition tasksDeleteByOwner :: "subject \<Rightarrow> unit ergo" where
  "tasksDeleteByOwner s = exec (\<lambda>_ d. Inr (d\<lparr>tasks := filter (\<lambda>t. ta_Owner t \<noteq> s) (tasks d)\<rparr>))"

section \<open>The domain\<close>

definition TaskType :: string where
  "TaskType = ''ergonomos/task''"

definition taskPermalink :: "string \<Rightarrow> string" where
  "taskPermalink i = ''/tasks/'' @ i"

definition taskObj :: "string \<Rightarrow> string" where
  "taskObj i = TaskType @ '':'' @ i"

definition taskDoc :: "task \<Rightarrow> search_doc" where
  "taskDoc t = \<lparr>sd_ID = ta_ID t, sd_Type = TaskType, sd_Permalink = taskPermalink (ta_ID t), sd_Owner = ta_Owner t, sd_Text = ta_Title t\<rparr>"

definition taskAudit :: "string \<Rightarrow> audit_object" where
  "taskAudit i = \<lparr>ao_Type = TaskType, ao_ID = i, ao_Permalink = taskPermalink i\<rparr>"

definition createTaskTx :: "subject \<Rightarrow> task \<Rightarrow> unit ergo" where
  "createTaskTx owner t =
    bnd (taskInsert t) (\<lambda>_.
    bnd (Emit owner ''ergonomos.task.created'' (taskAudit (ta_ID t))) (\<lambda>_.
    Feed (taskDoc t)))"

definition CreateTask :: "fga \<Rightarrow> subject \<Rightarrow> string \<Rightarrow> task ergo" where
  "CreateTask F owner title =
    (if title = [] then fail ErrTitleRequired
     else
       bnd time_now (\<lambda>now.
       bnd V7 (\<lambda>i.
       let t = \<lparr>ta_ID = i, ta_Owner = owner, ta_Title = title, ta_Done = False, ta_Created = now, ta_Updated = now\<rparr> in
       bnd (InTx (createTaskTx owner t)) (\<lambda>_.
       bnd (WriteTuple F owner Relation (taskObj i)) (\<lambda>_.
       ret t)))))"

definition ListTasks :: "fga \<Rightarrow> subject \<Rightarrow> task list ergo" where
  "ListTasks F caller = bnd (ListObjects F caller Relation TaskType) tasksByIDs"

definition authorizeTask :: "fga \<Rightarrow> subject \<Rightarrow> string \<Rightarrow> unit ergo" where
  "authorizeTask F caller i =
    bnd (Check F caller Relation (taskObj i)) (\<lambda>ok. if \<not> ok then fail ErrTaskForbidden else ret ())"

definition setDoneTx :: "subject \<Rightarrow> string \<Rightarrow> bool \<Rightarrow> task ergo" where
  "setDoneTx caller i done' =
    bnd (taskSetDone i done') (\<lambda>t.
    bnd (Emit caller (if done' then ''ergonomos.task.completed'' else ''ergonomos.task.reopened'') (taskAudit (ta_ID t))) (\<lambda>_.
    bnd (Feed (taskDoc t)) (\<lambda>_.
    ret t)))"

definition SetDone :: "fga \<Rightarrow> subject \<Rightarrow> string \<Rightarrow> bool \<Rightarrow> task ergo" where
  "SetDone F caller i done' = bnd (authorizeTask F caller i) (\<lambda>_. InTx (setDoneTx caller i done'))"

definition deleteTaskTx :: "subject \<Rightarrow> string \<Rightarrow> unit ergo" where
  "deleteTaskTx caller i =
    bnd (Emit caller ''ergonomos.task.deleted'' (taskAudit i)) (\<lambda>_.
    bnd (taskDelete i) (\<lambda>_.
    Remove i))"

definition DeleteTask :: "fga \<Rightarrow> subject \<Rightarrow> string \<Rightarrow> unit ergo" where
  "DeleteTask F caller i =
    bnd (authorizeTask F caller i) (\<lambda>_.
    bnd (InTx (deleteTaskTx caller i)) (\<lambda>_.
    DeleteTuple F caller Relation (taskObj i)))"

section \<open>Personal data\<close>

record task_entry =
  te_id :: string
  te_title :: string
  te_done :: bool
  te_created :: int
  te_permalink :: string

definition taskEntry :: "task \<Rightarrow> task_entry" where
  "taskEntry t = \<lparr>te_id = ta_ID t, te_title = ta_Title t, te_done = ta_Done t, te_created = ta_Created t, te_permalink = taskPermalink (ta_ID t)\<rparr>"

definition ExportTasks :: "subject \<Rightarrow> task_entry list option ergo" where
  "ExportTasks s = bnd (tasksByOwner s) (\<lambda>ts. ret (if ts = [] then None else Some (map taskEntry ts)))"

definition EraseTasks :: "subject \<Rightarrow> unit ergo" where
  "EraseTasks s =
    bnd (tasksByOwner s) (\<lambda>ts.
    bnd (tasksDeleteByOwner s) (\<lambda>_.
    foreach (\<lambda>t. Remove (ta_ID t)) ts))"

section \<open>What an audit event adds\<close>

lemma upd_pseud_eq: "(d :: 'z conv_db_scheme)\<lparr>subject_pseudonyms := q\<rparr> = d0\<lparr>subject_pseudonyms := p\<rparr> \<Longrightarrow> d = d0\<lparr>subject_pseudonyms := subject_pseudonyms d\<rparr>"
  by (cases d, cases d0) simp

lemma Emit_Inr:
  fixes w :: "'z conv_db_scheme world"
  assumes e: "Emit a act ob w = (Inr x, w')" and c: "conv_ok (w_db w)"
  shows "\<exists>ev p. w_db w' = (w_db w)\<lparr>subject_pseudonyms := p, audit_events := audit_events (w_db w) @ [ev]\<rparr> \<and>
    ev_Action ev = act \<and> ev_Object ev = ob \<and> pgTokenOf (w_db w') a = Some (ev_ActorToken ev) \<and> \<not> Zero a \<and> conv_ok (w_db w')"
proof -
  obtain tok w1 i w2 where z: "\<not> Zero a" and t: "TokenFor PseudonymStore a w = (Inr tok, w1)" and v: "V7 w1 = (Inr i, w2)"
    and ap: "auditAppend \<lparr>ev_ID = i, ev_Time = w_now w2, ev_ActorToken = tok, ev_Action = act, ev_Object = ob\<rparr> w2 = (Inr x, w')"
    using e by (auto simp: Emit_def time_now_def fail_apply elim!: bnd_InrE split: if_splits)
  let ?I = "\<lambda>u :: 'z conv_db_scheme world. \<exists>p. w_db u = (w_db w)\<lparr>subject_pseudonyms := p\<rparr>"
  have "pseudless ?I" unfolding pseudless_def by (auto dest: upd_pseud_eq)
  then have "keeps ?I (TokenFor PseudonymStore a)" by (rule keeps_TokenFor) (simp_all add: faultless_def randless_def)
  moreover have "?I w" by (rule exI [of _ "subject_pseudonyms (w_db w)"]) simp
  ultimately have "?I w1" using keepsD2 [where I = ?I and m = "TokenFor PseudonymStore a" and w = w, OF _ _ t] by simp
  then obtain p where p: "w_db w1 = (w_db w)\<lparr>subject_pseudonyms := p\<rparr>" by blast
  have w2: "w_db w2 = w_db w1" using v by (auto simp: V7_run)
  have tk: "pgTokenOf (w_db w1) a = Some tok" using pg_store.TokenFor_stable [OF t c] by simp
  have "w_db w' = (w_db w2)\<lparr>audit_events := audit_events (w_db w2) @ [\<lparr>ev_ID = i, ev_Time = w_now w2, ev_ActorToken = tok, ev_Action = act, ev_Object = ob\<rparr>]\<rparr>"
    using ap unfolding auditAppend_def by (elim exec_Inr) (auto split: if_splits)
  moreover have "conv_ok (w_db w')" using keepsD2 [OF keeps_conv_Emit _ e] c by simp
  moreover have "pgTokenOf (d\<lparr>audit_events := b\<rparr>) a = pgTokenOf d a" for d :: "'z conv_db_scheme" and b by (simp add: pgTokenOf_def)
  ultimately show ?thesis using p w2 tk z
    by (intro exI [of _ "\<lparr>ev_ID = i, ev_Time = w_now w2, ev_ActorToken = tok, ev_Action = act, ev_Object = ob\<rparr>"] exI [of _ p]) simp
qed

section \<open>The specification\<close>

text \<open>
  A task list is a map from identifiers to tasks. The search index is derived from it, and every
  change has its audit event.
\<close>

datatype task_op = OpCreate string | OpSetDone string bool | OpDelete string

definition perform :: "fga \<Rightarrow> subject \<Rightarrow> task_op \<Rightarrow> unit ergo" where
  "perform F u op = (case op of
     OpCreate title \<Rightarrow> bnd (CreateTask F u title) (\<lambda>_. ret ())
   | OpSetDone i b \<Rightarrow> bnd (SetDone F u i b) (\<lambda>_. ret ())
   | OpDelete i \<Rightarrow> DeleteTask F u i)"

definition intended :: "task_op \<Rightarrow> subject \<Rightarrow> int \<Rightarrow> string \<Rightarrow> (string \<rightharpoonup> task) \<Rightarrow> (string \<rightharpoonup> task) option" where
  "intended op u now i m = (case op of
     OpCreate title \<Rightarrow> if m i = None then Some (m(i \<mapsto> \<lparr>ta_ID = i, ta_Owner = u, ta_Title = title, ta_Done = False, ta_Created = now, ta_Updated = now\<rparr>)) else None
   | OpSetDone j b \<Rightarrow> if j = i then map_option (\<lambda>t. m(i \<mapsto> t\<lparr>ta_Done := b, ta_Updated := now\<rparr>)) (m i) else None
   | OpDelete j \<Rightarrow> if j = i then Some (m(i := None)) else None)"

definition action :: "task_op \<Rightarrow> string" where
  "action op = (case op of OpCreate _ \<Rightarrow> ''ergonomos.task.created''
     | OpSetDone _ b \<Rightarrow> if b then ''ergonomos.task.completed'' else ''ergonomos.task.reopened''
     | OpDelete _ \<Rightarrow> ''ergonomos.task.deleted'')"

definition tidy :: "ergo_db \<Rightarrow> bool" where
  "tidy d \<longleftrightarrow> distinct (map ta_ID (tasks d)) \<and> conv_ok d \<and> set (search_documents d) = taskDoc ` set (tasks d)"

lemma sd_ID_doc [simp]: "sd_ID (taskDoc t) = ta_ID t"
  by (simp add: taskDoc_def)

lemma tidy_ids: "tidy d \<Longrightarrow> sd_ID ` set (search_documents d) = ta_ID ` set (tasks d)"
  by (force simp: tidy_def)

lemma findTask_Some: "tidy d \<Longrightarrow> findTask d i = Some t \<longleftrightarrow> t \<in> set (tasks d) \<and> ta_ID t = i"
  unfolding findTask_def tidy_def using find_distinct [of ta_ID "tasks d" t] by (auto dest: find_SomeD)

lemma findTask_None: "findTask d i = None \<longleftrightarrow> i \<notin> ta_ID ` set (tasks d)"
  by (auto simp: findTask_def find_None)

lemma tidy_doc: "tidy d \<Longrightarrow> r \<in> set (search_documents d) \<Longrightarrow> x \<in> set (tasks d) \<Longrightarrow> sd_ID r = ta_ID x \<Longrightarrow> r = taskDoc x"
  unfolding tidy_def distinct_map by (auto dest: inj_onD)

lemma find_new: "ta_ID x \<notin> ta_ID ` set xs \<Longrightarrow>
    List.find (\<lambda>t. ta_ID t = j) (xs @ [x]) = (if j = ta_ID x then Some x else List.find (\<lambda>t. ta_ID t = j) xs)"
  by (induction xs) auto

lemma find_changed: "ta_ID x = i \<Longrightarrow>
    List.find (\<lambda>t. ta_ID t = j) (map (\<lambda>t. if ta_ID t = i then x else t) xs) =
    (if j = i then if i \<in> ta_ID ` set xs then Some x else None else List.find (\<lambda>t. ta_ID t = j) xs)"
  by (cases "j = i") (induction xs; simp)+

lemma find_gone: "List.find (\<lambda>t. ta_ID t = j) (filter (\<lambda>t. ta_ID t \<noteq> i) xs) = (if j = i then None else List.find (\<lambda>t. ta_ID t = j) xs)"
  by (induction xs) auto

text \<open>The effects of the transactions.\<close>

lemma Feed_Inr:
  assumes "Feed doc w = (Inr x, w')"
  shows "w_db w' = (w_db w)\<lparr>search_documents := (if sd_ID doc \<in> sd_ID ` set (search_documents (w_db w))
        then map (\<lambda>r. if sd_ID r = sd_ID doc then doc else r) (search_documents (w_db w))
        else search_documents (w_db w) @ [doc])\<rparr>"
  using assms unfolding Feed_def searchUpsert_def by (auto simp: fail_apply elim!: exec_Inr split: if_splits)

definition did :: "subject \<Rightarrow> task_op \<Rightarrow> string \<Rightarrow> int \<Rightarrow> ergo_db \<Rightarrow> ergo_db \<Rightarrow> bool" where
  "did u op i now d d' \<longleftrightarrow> tidy d' \<and> intended op u now i (findTask d) = Some (findTask d') \<and>
     (\<exists>ev. audit_events d' = audit_events d @ [ev] \<and> ev_Action ev = action op \<and> ev_Object ev = taskAudit i \<and>
        pgTokenOf d' u = Some (ev_ActorToken ev))"

lemma createTaskTx_did:
  assumes t: "tidy (w_db w)" and r: "createTaskTx u x w = (Inr y, w')"
    and x: "x = \<lparr>ta_ID = i, ta_Owner = u, ta_Title = title, ta_Done = False, ta_Created = now, ta_Updated = now\<rparr>"
  shows "did u (OpCreate title) i now (w_db w) (w_db w')"
proof -
  let ?d = "w_db w"
  obtain w1 w2 y2 where i: "taskInsert x w = (Inr (), w1)" and e: "Emit u ''ergonomos.task.created'' (taskAudit i) w1 = (Inr y2, w2)"
    and f: "Feed (taskDoc x) w2 = (Inr y, w')"
    using r x by (auto simp: createTaskTx_def elim!: bnd_InrE)
  have new: "i \<notin> ta_ID ` set (tasks ?d)" "w_db w1 = ?d\<lparr>tasks := tasks ?d @ [x]\<rparr>"
    using i x unfolding taskInsert_def by (auto elim!: exec_Inr split: if_splits)
  have "conv_ok (w_db w1)" using t new by (simp add: tidy_def conv_ok_def)
  from Emit_Inr [OF e this] obtain ev p where ev: "w_db w2 = (w_db w1)\<lparr>subject_pseudonyms := p, audit_events := audit_events (w_db w1) @ [ev]\<rparr>"
    "ev_Action ev = ''ergonomos.task.created''" "ev_Object ev = taskAudit i" "pgTokenOf (w_db w2) u = Some (ev_ActorToken ev)" "conv_ok (w_db w2)" by blast
  have sd: "search_documents (w_db w2) = search_documents ?d" "tasks (w_db w2) = tasks ?d @ [x]" using ev(1) new(2) by simp_all
  have "sd_ID (taskDoc x) \<notin> sd_ID ` set (search_documents (w_db w2))" using new(1) tidy_ids [OF t] sd x by simp
  then have d': "w_db w' = (w_db w2)\<lparr>search_documents := search_documents ?d @ [taskDoc x]\<rparr>" using Feed_Inr [OF f] sd by simp
  have cf: "conv_ok (w_db w')" using keepsD2 [OF keeps_conv_Feed _ f] ev(5) by simp
  have td: "tidy (w_db w')" using t cf d' sd new(1) x by (auto simp: tidy_def)
  moreover have "findTask (w_db w') = (findTask ?d)(i \<mapsto> x)"
    using d' sd find_new [of x "tasks ?d"] new(1) x by (auto simp: findTask_def fun_eq_iff)
  moreover have "findTask ?d i = None" using new(1) by (simp add: findTask_None)
  moreover have "audit_events (w_db w') = audit_events ?d @ [ev]" "pgTokenOf (w_db w') u = Some (ev_ActorToken ev)"
    using d' ev new(2) by (simp_all add: pgTokenOf_def)
  ultimately show ?thesis using ev x by (auto simp: did_def intended_def action_def)
qed

lemma setDoneTx_did:
  assumes t: "tidy (w_db w)" and r: "setDoneTx u i b w = (Inr y, w')"
  shows "did u (OpSetDone i b) i (w_now w) (w_db w) (w_db w')"
proof -
  let ?d = "w_db w"
  obtain w1 w2 y2 y3 where s: "taskSetDone i b w = (Inr y, w1)" and e: "Emit u (action (OpSetDone i b)) (taskAudit (ta_ID y)) w1 = (Inr y2, w2)"
    and f: "Feed (taskDoc y) w2 = (Inr y3, w')"
    using r by (auto simp: setDoneTx_def action_def ret_apply elim!: bnd_InrE)
  obtain x where x: "findTask ?d i = Some x" "y = x\<lparr>ta_Done := b, ta_Updated := w_now w\<rparr>"
    and w1: "w_db w1 = ?d\<lparr>tasks := map (\<lambda>x. if ta_ID x = i then y else x) (tasks ?d)\<rparr>"
    using s unfolding taskSetDone_def by (cases rule: call_cases) (auto simp: Let_def split: option.splits)
  have xt: "x \<in> set (tasks ?d)" "ta_ID x = i" "ta_ID y = i" "taskDoc y = taskDoc x"
    using x findTask_Some [OF t] by (auto simp: taskDoc_def)
  have "conv_ok (w_db w1)" using t w1 by (simp add: tidy_def conv_ok_def)
  from Emit_Inr [OF e this] obtain ev p where ev: "w_db w2 = (w_db w1)\<lparr>subject_pseudonyms := p, audit_events := audit_events (w_db w1) @ [ev]\<rparr>"
    "ev_Action ev = action (OpSetDone i b)" "ev_Object ev = taskAudit i" "pgTokenOf (w_db w2) u = Some (ev_ActorToken ev)" "conv_ok (w_db w2)"
    using xt by auto
  have sd: "search_documents (w_db w2) = search_documents ?d" "tasks (w_db w2) = map (\<lambda>x. if ta_ID x = i then y else x) (tasks ?d)"
    using ev(1) w1 by simp_all
  have "map (\<lambda>r. if sd_ID r = ta_ID y then taskDoc y else r) (search_documents ?d) = search_documents ?d"
    using tidy_doc [OF t _ xt(1)] xt by (intro map_idI) simp
  moreover have "ta_ID y \<in> sd_ID ` set (search_documents ?d)" using tidy_ids [OF t] xt by force
  ultimately have d': "w_db w' = w_db w2" using Feed_Inr [OF f] sd by simp
  have "map ta_ID (map (\<lambda>z. if ta_ID z = i then y else z) xs) = map ta_ID xs" for xs
    using xt by (induction xs) auto
  moreover have "taskDoc ` set (map (\<lambda>z. if ta_ID z = i then y else z) (tasks ?d)) = taskDoc ` set (tasks ?d)"
  proof -
    have "taskDoc (if ta_ID z = i then y else z) = taskDoc z" if "z \<in> set (tasks ?d)" for z
      using tidy_doc [OF t _ xt(1), of "taskDoc z"] t that xt by (auto simp: tidy_def)
    then show ?thesis unfolding set_map image_image by (rule image_cong [OF refl])
  qed
  ultimately have "tidy (w_db w')" using t ev(5) d' sd by (simp add: tidy_def del: map_map set_map)
  moreover have "findTask (w_db w') = (findTask ?d)(i \<mapsto> y)"
    using d' sd find_changed [of y i _ "tasks ?d"] xt by (auto simp: findTask_def fun_eq_iff)
  moreover have "audit_events (w_db w') = audit_events ?d @ [ev]" "pgTokenOf (w_db w') u = Some (ev_ActorToken ev)"
    using d' ev w1 by simp_all
  ultimately show ?thesis using ev x by (auto simp: did_def intended_def)
qed

lemma deleteTaskTx_did:
  assumes t: "tidy (w_db w)" and r: "deleteTaskTx u i w = (Inr y, w')"
  shows "did u (OpDelete i) i now (w_db w) (w_db w')"
proof -
  let ?d = "w_db w"
  obtain w1 w2 y1 where e: "Emit u ''ergonomos.task.deleted'' (taskAudit i) w = (Inr y1, w1)" and s: "taskDelete i w1 = (Inr (), w2)"
    and f: "Remove i w2 = (Inr y, w')"
    using r by (auto simp: deleteTaskTx_def elim!: bnd_InrE)
  from Emit_Inr [OF e] t obtain ev p where ev: "w_db w1 = ?d\<lparr>subject_pseudonyms := p, audit_events := audit_events ?d @ [ev]\<rparr>"
    "ev_Action ev = ''ergonomos.task.deleted''" "ev_Object ev = taskAudit i" "pgTokenOf (w_db w1) u = Some (ev_ActorToken ev)" "conv_ok (w_db w1)"
    by (auto simp: tidy_def)
  have w2: "w_db w2 = (w_db w1)\<lparr>tasks := filter (\<lambda>t. ta_ID t \<noteq> i) (tasks ?d)\<rparr>"
    using s ev(1) unfolding taskDelete_def by (auto elim!: exec_Inr)
  have d': "w_db w' = (w_db w2)\<lparr>search_documents := filter (\<lambda>r. sd_ID r \<noteq> i) (search_documents ?d)\<rparr>"
    using f ev(1) w2 unfolding Remove_def searchDelete_def by (auto simp: fail_apply elim!: exec_Inr split: if_splits)
  have "conv_ok (w_db w2)" using ev(5) w2 by (simp add: conv_ok_def)
  then have "conv_ok (w_db w')" using keepsD2 [OF keeps_conv_Remove _ f] by simp
  then have "tidy (w_db w')" using t d' w2 by (auto simp: tidy_def distinct_map_filter)
  moreover have "findTask (w_db w') = (findTask ?d)(i := None)"
    using d' w2 find_gone [of _ i "tasks ?d"] by (auto simp: findTask_def fun_eq_iff)
  moreover have "audit_events (w_db w') = audit_events ?d @ [ev]" "pgTokenOf (w_db w') u = Some (ev_ActorToken ev)"
    using d' w2 ev by (simp_all add: pgTokenOf_def)
  ultimately show ?thesis using ev by (auto simp: did_def intended_def action_def)
qed

text \<open>A transaction of the domain: it happened as intended, or not at all.\<close>

lemma InTx_did:
  assumes "InTx fn w = (r, w')" "tidy (w_db w)"
    and "\<And>fs x w1. fn (w\<lparr>w_faults := fs\<rparr>) = (Inr x, w1) \<Longrightarrow> did u op i (w_now w) (w_db w) (w_db w1)"
  shows "did u op i (w_now w) (w_db w) (w_db w') \<or> w_db w' = w_db w \<and> (\<exists>e. r = Inl e)"
  using assms(1)
proof (cases rule: InTx_db)
  case 1
  then show ?thesis by (cases r) auto
next
  case (2 fs x w1)
  then show ?thesis using assms(3) by metis
qed

lemma WriteTuple_db: "WriteTuple F u rel x w = (r, w') \<Longrightarrow> w_db w' = w_db w"
  by (rule keepsD_db [OF keeps_tuple_writes(1)]) (simp_all add: tupleless_def faultless_def)

lemma DeleteTuple_db: "DeleteTuple F u rel x w = (r, w') \<Longrightarrow> w_db w' = w_db w"
  by (rule keepsD_db [OF keeps_tuple_writes(2)]) (simp_all add: tupleless_def faultless_def)

lemma authorizeTask_frame: "authorizeTask F u i w = (r, w') \<Longrightarrow> w_db w' = w_db w \<and> w_now w' = w_now w"
proof -
  assume a: "authorizeTask F u i w = (r, w')"
  have "keeps (\<lambda>v. w_db v = w_db w \<and> w_now v = w_now w) (authorizeTask F u i)"
    unfolding authorizeTask_def by (intro keeps_rules) (simp add: faultless_def)
  from keepsD2 [OF this _ a] show ?thesis by simp
qed

text \<open>Each operation of the service.\<close>

definition outcome :: "subject \<Rightarrow> task_op \<Rightarrow> ergo_db world \<Rightarrow> err + 'a \<Rightarrow> ergo_db world \<Rightarrow> bool" where
  "outcome u op w r w' \<longleftrightarrow> (\<exists>i. did u op i (w_now w) (w_db w) (w_db w')) \<or> w_db w' = w_db w \<and> (\<exists>e. r = Inl e)"

lemma CreateTask_outcome:
  assumes t: "tidy (w_db w)" and run: "CreateTask F u title w = (r, w')"
  shows "outcome u (OpCreate title) w r w'"
proof (cases "title = []")
  case True
  then show ?thesis using run by (auto simp: CreateTask_def fail_apply outcome_def)
next
  case False
  obtain i w1 where v: "V7 w = (Inr i, w1)" and w1: "w_db w1 = w_db w" "w_now w1 = w_now w" by (auto simp: V7_run)
  let ?x = "\<lparr>ta_ID = i, ta_Owner = u, ta_Title = title, ta_Done = False, ta_Created = w_now w, ta_Updated = w_now w\<rparr>"
  obtain q w2 where tx: "InTx (createTaskTx u ?x) w1 = (q, w2)" by fastforce
  have "did u (OpCreate title) i (w_now w1) (w_db w1) (w_db w2) \<or> w_db w2 = w_db w1 \<and> (\<exists>e. q = Inl e)"
  proof (rule InTx_did [OF tx])
    show "tidy (w_db w1)" using t w1 by simp
    show "did u (OpCreate title) i (w_now w1) (w_db w1) (w_db w3)" if "createTaskTx u ?x (w1\<lparr>w_faults := fs\<rparr>) = (Inr y, w3)" for fs y w3
      using createTaskTx_did [OF _ that] t w1 by simp
  qed
  moreover have "q = Inl e \<Longrightarrow> r = Inl e \<and> w' = w2" "q = Inr () \<Longrightarrow> w_db w' = w_db w2" for e
    using run False v w1 tx WriteTuple_db by (auto simp: CreateTask_def bnd_apply time_now_def Let_def ret_apply split: prod.splits sum.splits)
  ultimately show ?thesis using w1 by (cases q) (auto simp: outcome_def)
qed

lemma SetDone_outcome:
  assumes t: "tidy (w_db w)" and run: "SetDone F u i b w = (r, w')"
  shows "outcome u (OpSetDone i b) w r w'"
proof -
  obtain q w1 where a: "authorizeTask F u i w = (q, w1)" by fastforce
  note w1 = authorizeTask_frame [OF a]
  show ?thesis
  proof (cases q)
    case (Inl e)
    then show ?thesis using run a w1 by (auto simp: SetDone_def bnd_apply outcome_def)
  next
    case (Inr y)
    then have tx: "InTx (setDoneTx u i b) w1 = (r, w')" using run a by (simp add: SetDone_def bnd_apply)
    have "did u (OpSetDone i b) i (w_now w1) (w_db w1) (w_db w3)" if "setDoneTx u i b (w1\<lparr>w_faults := fs\<rparr>) = (Inr y, w3)" for fs y w3
      using setDoneTx_did [OF _ that] t w1 by simp
    from InTx_did [OF tx _ this] show ?thesis using t w1 by (auto simp: outcome_def)
  qed
qed

lemma DeleteTask_outcome:
  assumes t: "tidy (w_db w)" and run: "DeleteTask F u i w = (r, w')"
  shows "outcome u (OpDelete i) w r w'"
proof -
  obtain q w1 where a: "authorizeTask F u i w = (q, w1)" by fastforce
  note w1 = authorizeTask_frame [OF a]
  show ?thesis
  proof (cases q)
    case (Inl e)
    then show ?thesis using run a w1 by (auto simp: DeleteTask_def bnd_apply outcome_def)
  next
    case (Inr y)
    obtain z w2 where tx: "InTx (deleteTaskTx u i) w1 = (z, w2)" by fastforce
    have "did u (OpDelete i) i (w_now w1) (w_db w1) (w_db w3)" if "deleteTaskTx u i (w1\<lparr>w_faults := fs\<rparr>) = (Inr y, w3)" for fs y w3
      using deleteTaskTx_did [OF _ that] t w1 by simp
    from InTx_did [OF tx _ this] have "did u (OpDelete i) i (w_now w1) (w_db w1) (w_db w2) \<or> w_db w2 = w_db w1 \<and> (\<exists>e. z = Inl e)"
      using t w1 by auto
    moreover have "z = Inl e \<Longrightarrow> r = Inl e \<and> w' = w2" "z = Inr () \<Longrightarrow> w_db w' = w_db w2" for e
      using run a Inr tx DeleteTuple_db by (auto simp: DeleteTask_def bnd_apply)
    ultimately show ?thesis using w1 by (cases z) (auto simp: outcome_def)
  qed
qed

section \<open>Properties\<close>

text \<open>C33. The task application refines its specification. Whatever the faults, an operation that runs either changes
  nothing in the tables, or does to the map of tasks exactly what it is meant to, together with exactly
  one audit event for that task under the caller's pseudonym, and with the search index the image of the tasks;
  and an operation that reports success has done so.\<close>

theorem perform_refines:
  assumes t: "tidy (w_db w)" and run: "perform F u op w = (r, w')"
  shows "tidy (w_db w') \<and> (r \<noteq> Inr () \<and> w_db w' = w_db w \<or>
    (\<exists>i. intended op u (w_now w) i (findTask (w_db w)) = Some (findTask (w_db w')) \<and>
      (\<exists>ev. audit_events (w_db w') = audit_events (w_db w) @ [ev] \<and> ev_Action ev = action op \<and> ev_Object ev = taskAudit i \<and>
        pgTokenOf (w_db w') u = Some (ev_ActorToken ev))))"
proof -
  have "outcome u op w r w'"
  proof (cases op)
    case (OpCreate title)
    obtain q where "CreateTask F u title w = (q, w')" "\<forall>e. q = Inl e \<longrightarrow> r = Inl e"
      using run OpCreate by (auto simp: perform_def bnd_apply ret_apply split: prod.splits sum.splits)
    from CreateTask_outcome [OF t this(1)] this(2) show ?thesis using OpCreate by (auto simp: outcome_def)
  next
    case (OpSetDone i b)
    obtain q where "SetDone F u i b w = (q, w')" "\<forall>e. q = Inl e \<longrightarrow> r = Inl e"
      using run OpSetDone by (auto simp: perform_def bnd_apply ret_apply split: prod.splits sum.splits)
    from SetDone_outcome [OF t this(1)] this(2) show ?thesis using OpSetDone by (auto simp: outcome_def)
  next
    case (OpDelete i)
    then show ?thesis using DeleteTask_outcome [OF t] run by (simp add: perform_def)
  qed
  then show ?thesis using t by (auto simp: outcome_def did_def)
qed

text \<open>
  What the task application relies on of the authorization server, with the model in which \<open>owner\<close> is a
  direct relation: a check answers whether the tuple is there, a list returns the objects of the
  type with one, and writes and deletes change the tuples.
\<close>

definition owner_fga :: "fga \<Rightarrow> bool" where
  "owner_fga F \<longleftrightarrow>
     (\<forall>t ts. t \<notin> set ts \<longrightarrow> (\<exists>ts'. fga_write F t ts = Inr ts' \<and> set ts' = insert t (set ts))) \<and>
     (\<forall>ts u x. fga_check F ts (u, Relation, x) \<longleftrightarrow> (u, Relation, x) \<in> set ts) \<and>
     (\<forall>ts u typ. set (fga_list F ts u Relation typ) = {x. (u, Relation, x) \<in> set ts \<and> HasPrefix x (typ @ '':'')})"

lemma authorizeTask_denied:
  assumes "owner_fga F" "(OpenFGAObject u, Relation, taskObj i) \<notin> set (w_fga w)"
  shows "\<exists>fs e. authorizeTask F u i w = (Inl e, w\<lparr>w_faults := fs\<rparr>) \<and> (e = ErrTaskForbidden \<or> e = ErrIO)"
proof -
  obtain q w1 where c: "Check F u Relation (taskObj i) w = (q, w1)" by fastforce
  from fgaAsk_outcome [OF this [unfolded Check_def]] show ?thesis
    using c assms by (auto simp: authorizeTask_def bnd_apply owner_fga_def userTuple_def rawTuple_def fail_apply)
qed

text \<open>Erasing a person's tasks, in a calm world.\<close>

lemma foreach_Remove:
  fixes w :: "ergo_db world"
  assumes "calm w" "\<forall>t \<in> set ts. ta_ID t \<noteq> []"
  shows "foreach (\<lambda>t. Remove (ta_ID t)) ts w =
    (Inr (), w\<lparr>w_db := (w_db w)\<lparr>search_documents := filter (\<lambda>r. sd_ID r \<notin> ta_ID ` set ts) (search_documents (w_db w))\<rparr>\<rparr>)"
  using assms
proof (induction ts arbitrary: w)
  case (Cons t ts)
  let ?w = "w\<lparr>w_db := (w_db w)\<lparr>search_documents := filter (\<lambda>r. sd_ID r \<noteq> ta_ID t) (search_documents (w_db w))\<rparr>\<rparr>"
  have "Remove (ta_ID t) w = (Inr (), ?w)" using Cons.prems by (simp add: Remove_def searchDelete_def)
  then show ?case using Cons.IH [of ?w] Cons.prems by (simp add: bnd_apply conj_commute)
qed (simp add: ret_apply)

lemma EraseTasks_calm:
  assumes t: "tidy (w_db w)" and c: "calm w" and ids: "\<forall>x \<in> set (tasks (w_db w)). ta_ID x \<noteq> []"
  shows "\<exists>w'. EraseTasks s w = (Inr (), w') \<and> tidy (w_db w') \<and> tasks (w_db w') = filter (\<lambda>x. ta_Owner x \<noteq> s) (tasks (w_db w)) \<and>
    (\<forall>r \<in> set (search_documents (w_db w')). sd_Owner r \<noteq> s) \<and> audit_events (w_db w') = audit_events (w_db w)"
proof -
  let ?d = "w_db w" and ?gone = "filter (\<lambda>x. ta_Owner x = s) (tasks (w_db w))"
  define docs where "docs = filter (\<lambda>r. sd_ID r \<notin> ta_ID ` set ?gone) (search_documents ?d)"
  let ?d' = "?d\<lparr>tasks := filter (\<lambda>x. ta_Owner x \<noteq> s) (tasks ?d), search_documents := docs\<rparr>"
  have run: "EraseTasks s w = (Inr (), w\<lparr>w_db := ?d'\<rparr>)"
    using c ids foreach_Remove [of "w\<lparr>w_db := ?d\<lparr>tasks := filter (\<lambda>x. ta_Owner x \<noteq> s) (tasks ?d)\<rparr>\<rparr>" "sort_key ta_Created ?gone"]
    by (simp add: EraseTasks_def tasksByOwner_def tasksDeleteByOwner_def bnd_apply docs_def)
  have inj: "x = y" if "x \<in> set (tasks ?d)" "y \<in> set (tasks ?d)" "ta_ID x = ta_ID y" for x y
    using t that by (auto simp: tidy_def distinct_map dest: inj_onD)
  have docs: "set docs = taskDoc ` {x \<in> set (tasks ?d). ta_Owner x \<noteq> s}"
    using t inj by (fastforce simp: docs_def tidy_def)
  have "tidy ?d'" using t docs by (auto simp: tidy_def conv_ok_def distinct_map_filter docs_def)
  moreover have "\<forall>r \<in> set docs. sd_Owner r \<noteq> s" using docs by (auto simp: taskDoc_def)
  ultimately show ?thesis using run by simp
qed

text \<open>
  The erasure is not restartable: when it is cut short after the rows are gone, a second, undisturbed
  erasure reports success, and the title stays in the search index.
\<close>

definition demoTask :: task where
  "demoTask = \<lparr>ta_ID = ''1'', ta_Owner = ann, ta_Title = ''tax return'', ta_Done = False, ta_Created = 0, ta_Updated = 0\<rparr>"

definition ergoDemo :: ergo_db where
  "ergoDemo = \<lparr>subject_pseudonyms = [], audit_events = [], search_documents = [taskDoc demoTask], tasks = [demoTask]\<rparr>"

lemma EraseTasks_retry_leaks:
  "let w = (demoWorld ergoDemo)\<lparr>w_faults := [FNone, FNone, FBefore]\<rparr>; (r1, w1) = EraseTasks ann w; (r2, w2) = EraseTasks ann w1
   in tidy ergoDemo \<and> r1 = Inl ErrIO \<and> r2 = Inr () \<and> tasks (w_db w2) = [] \<and> map sd_Text (search_documents (w_db w2)) = [''tax return'']"
  by (simp add: EraseTasks_def tasksByOwner_def tasksDeleteByOwner_def ergoDemo_def demoTask_def taskDoc_def Remove_def searchDelete_def
      query_def exec_def execRaw_def call_def next_fault_def bnd_apply ret_apply fail_apply demoWorld_def tidy_def conv_ok_def)

section \<open>Witnesses\<close>

theorem perform_refines_witness:
  "\<exists>r w'. perform modelFga ann (OpCreate ''call home'') (demoWorld ergoDemo) = (r, w') \<and> tidy (w_db w') \<and>
     (w_db w' = ergoDemo \<or> length (audit_events (w_db w')) = 1)"
proof -
  have "tidy (w_db (demoWorld ergoDemo))" by (simp add: tidy_def conv_ok_def ergoDemo_def)
  moreover obtain r w' where r: "perform modelFga ann (OpCreate ''call home'') (demoWorld ergoDemo) = (r, w')" by fastforce
  ultimately show ?thesis using perform_refines [of "demoWorld ergoDemo" modelFga ann "OpCreate ''call home''" r w'] by (auto simp: ergoDemo_def)
qed

end
