(* ===== verification/Ergonomos.thy ===== *)
theory Ergonomos
  imports Svcauth Kamara Task
begin

text \<open>
  The task application as a whole: its pages (\<open>ergonomos/cmd/ergonomos/web.go\<close>), its client of Kamara
  (\<open>ergonomos/internal/kamara/client.go\<close>), its start and its routes (\<open>ergonomos/cmd/ergonomos/main.go\<close>). The state of whatever
  the client's requests reach is part of the state, so that the application can be put beside a running Kamara.
\<close>

section \<open>The client of Kamara\<close>

text \<open>\<open>kc_do\<close> is the HTTP transport: a POST with a URL, headers and a body, against the state of the other side.\<close>

record ('k, 'n) kamara_client =
  kc_baseURL :: string
  kc_ex :: "'k exchanger"
  kc_do :: "string \<Rightarrow> (string \<Rightarrow> string) \<Rightarrow> reader \<Rightarrow> 'n \<Rightarrow> reply \<times> 'n"

definition NewKamara :: "(string \<Rightarrow> (string \<Rightarrow> string) \<Rightarrow> reader \<Rightarrow> 'n \<Rightarrow> reply \<times> 'n) \<Rightarrow> string \<Rightarrow> 'k exchanger \<Rightarrow> ('k, 'n) kamara_client" where
  "NewKamara send baseURL ex = \<lparr>kc_baseURL = TrimRight baseURL (CHR ''/''), kc_ex = ex, kc_do = send\<rparr>"

definition uploadHeader :: "string \<Rightarrow> string \<Rightarrow> string" where
  "uploadHeader tok h =
    (if h = ''Authorization'' then ''Bearer '' @ tok else if h = ''Content-Type'' then ''application/octet-stream'' else [])"

definition clientUpload :: "('k, 'n) kamara_client \<Rightarrow> string \<Rightarrow> string \<Rightarrow> reader \<Rightarrow> ('d world \<times> 'n, string) io" where
  "clientUpload C userAccessToken name body =
    bnd (lift (OnBehalfOf (kc_ex C) userAccessToken)) (\<lambda>tok.
    bnd (\<lambda>(w, n). case kc_do C (kc_baseURL C @ ''/v1/files?name='' @ QueryEscape name) (uploadHeader tok) body n of
           (a, n') \<Rightarrow> (Inr a, (w, n'))) (\<lambda>a.
    case a of
      Unreachable \<Rightarrow> fail ErrIO
    | Reply status doc \<Rightarrow>
        if status \<noteq> 201 then fail (ErrApi status [])
        else (case Option.bind doc (textField ''id'') of None \<Rightarrow> fail ErrDecode | Some i \<Rightarrow> ret i)))"

section \<open>The pages\<close>

record ('k, 'n) ergo_app =
  ea_fga :: fga
  ea_rp :: relying_party
  ea_instance :: string
  ea_kamara :: "('k, 'n) kamara_client option"
  ea_text :: "err \<Rightarrow> string"

record 'n ergo_state = rp_state +
  es_net :: 'n

datatype ergo_html = TaskPage "task list" | TaskList "task list"

type_synonym ('n, 'a) ergoio = "(ergo_db world \<times> 'n ergo_state, 'a) io"

type_synonym ergo_response = "ergo_html response"

definition maxAttachBytes :: nat where
  "maxAttachBytes = 100 * 2 ^ 20"

definition statusFor :: "err \<Rightarrow> nat" where
  "statusFor e = (if e = ErrTaskNotFound then 404 else 403)"

definition ergoCaller :: "('k, 'n) ergo_app \<Rightarrow> web_request \<Rightarrow> ('n, subject option) ergoio" where
  "ergoCaller A r = bnd (SessionOf (ea_rp A) r) (\<lambda>sess.
     ret (map_option (\<lambda>s. \<lparr>sub_Instance = ea_instance A, sub_UserID = cl_Subject (os_Claims s)\<rparr>) sess))"

definition ergoAuthed :: "('k, 'n) ergo_app \<Rightarrow> web_request \<Rightarrow> (subject \<Rightarrow> ('n, ergo_response) ergoio) \<Rightarrow> ('n, ergo_response) ergoio" where
  "ergoAuthed A r k = bnd (ergoCaller A r) (\<lambda>c. case c of None \<Rightarrow> ret (httpError ''no session'' 401) | Some u \<Rightarrow> k u)"

definition ergoPage :: "ergo_html \<Rightarrow> ergo_response" where
  "ergoPage p = \<lparr>rs_Status = 200, rs_Header = [], rs_Body = POther p\<rparr>"

definition ergoRender :: "('k, 'n) ergo_app \<Rightarrow> web_request \<Rightarrow> bool \<Rightarrow> ('n, ergo_response) ergoio" where
  "ergoRender A r whole = ergoAuthed A r (\<lambda>caller.
     attempt (lift (ListTasks (ea_fga A) caller)) (\<lambda>e. ret (httpError (ea_text A e) 500))
       (\<lambda>ts. ret (ergoPage (if whole then TaskPage ts else TaskList ts))))"

definition ergoIndex :: "('k, 'n) ergo_app \<Rightarrow> web_request \<Rightarrow> ('n, ergo_response) ergoio" where
  "ergoIndex A r = ergoRender A r True"

definition ergoCreate :: "('k, 'n) ergo_app \<Rightarrow> web_request \<Rightarrow> ('n, ergo_response) ergoio" where
  "ergoCreate A r = ergoAuthed A r (\<lambda>caller.
     attempt (lift (CreateTask (ea_fga A) caller (FormValue r ''title''))) (\<lambda>e. ret (httpError (ea_text A e) 400)) (\<lambda>_. ergoRender A r False))"

definition ergoSetDone :: "('k, 'n) ergo_app \<Rightarrow> web_request \<Rightarrow> ('n, ergo_response) ergoio" where
  "ergoSetDone A r = ergoAuthed A r (\<lambda>caller.
     attempt (lift (SetDone (ea_fga A) caller (wr_ID r) (FormValue r ''done'' = ''true'')))
       (\<lambda>e. ret (httpError (ea_text A e) (statusFor e))) (\<lambda>_. ergoRender A r False))"

definition ergoDelete :: "('k, 'n) ergo_app \<Rightarrow> web_request \<Rightarrow> ('n, ergo_response) ergoio" where
  "ergoDelete A r = ergoAuthed A r (\<lambda>caller.
     attempt (lift (DeleteTask (ea_fga A) caller (wr_ID r))) (\<lambda>e. ret (httpError (ea_text A e) 403)) (\<lambda>_. ergoRender A r False))"

definition viaNet :: "(ergo_db world \<times> 'n, 'a) io \<Rightarrow> ('n, 'a) ergoio" where
  "viaNet m = (\<lambda>(w, s). case m (w, es_net s) of (r, (w', n)) \<Rightarrow> (r, (w', s\<lparr>es_net := n\<rparr>)))"

text \<open>The zero time of a token without an expiry is 0.\<close>

definition tokenUsable :: "oidc_session \<Rightarrow> int \<Rightarrow> bool" where
  "tokenUsable sess now \<longleftrightarrow> os_AccessToken sess \<noteq> [] \<and> \<not> (os_AccessTokenExpiry sess \<noteq> 0 \<and> now > os_AccessTokenExpiry sess)"

definition attach :: "('k, 'n) ergo_app \<Rightarrow> web_request \<Rightarrow> ('n, ergo_response) ergoio" where
  "attach A r = (case ea_kamara A of
     None \<Rightarrow> ret (httpError ''attach not configured'' 501)
   | Some C \<Rightarrow>
       bnd (SessionOf (ea_rp A) r) (\<lambda>s.
       case s of
         None \<Rightarrow> ret (httpError ''no session'' 401)
       | Some sess \<Rightarrow>
           bnd rpNow (\<lambda>now.
           if \<not> tokenUsable sess now then ret (httpError ''re-authentication required'' 401)
           else
             let name = (if wr_Query r ''name'' = [] then ''attachment'' else wr_Query r ''name'') in
             attempt (viaNet (clientUpload C (os_AccessToken sess) name (MaxBytesReader (wr_Body r) maxAttachBytes)))
               (\<lambda>_. ret (httpError ''attach failed'' 502))
               (\<lambda>i. ret (writeJSON 201 (JObj [(''fileId'', JStr i)]))))))"

section \<open>The routes\<close>

datatype ergo_page = TasksR | CreateTaskR | SetDoneR | DeleteTaskR | AttachR

definition ergoMethods :: "ergo_page \<Rightarrow> string list" where
  "ergoMethods p = (if p = TasksR then [''GET'', ''HEAD''] else [''POST''])"

definition ergoHandler :: "('k, 'n) ergo_app \<Rightarrow> ergo_page \<Rightarrow> web_request \<Rightarrow> ('n, ergo_response) ergoio" where
  "ergoHandler A p = (case p of
     TasksR \<Rightarrow> ergoIndex A | CreateTaskR \<Rightarrow> ergoCreate A | SetDoneR \<Rightarrow> ergoSetDone A | DeleteTaskR \<Rightarrow> ergoDelete A | AttachR \<Rightarrow> attach A)"

datatype ergo_endpoint =
    ErgoHealthz
  | ErgoLogin web_request
  | ErgoCallback web_request
  | ErgoLogout web_request
  | ErgoSite ergo_page web_request

definition ergoServe :: "('k, 'n) ergo_app \<Rightarrow> string \<Rightarrow> ergo_endpoint \<Rightarrow> ('n, ergo_response) ergoio" where
  "ergoServe A self e = (case e of
     ErgoHealthz \<Rightarrow> ret \<lparr>rs_Status = 200, rs_Header = [], rs_Body = PBytes (bytesOf ''ok'')\<rparr>
   | ErgoLogin r \<Rightarrow> Login (ea_rp A) r
   | ErgoCallback r \<Rightarrow> Callback (ea_rp A) r
   | ErgoLogout r \<Rightarrow> Logout (ea_rp A) r
   | ErgoSite p r \<Rightarrow> Middleware (ea_rp A) (SameOriginGuard self (ergoHandler A p)) (RedirectToLogin ''/auth/login'') r)"

section \<open>The start\<close>

text \<open>
  What \<open>main\<close> connects to: the database with its migrations, the authorization server, the discovery of the identity
  provider (for an issuer, a client, a redirect URL and scopes), files, and the libraries of the token exchange.
\<close>

record ('k, 'n) ergo_externals =
  ee_store :: "string \<Rightarrow> bool"
  ee_authz :: "string \<Rightarrow> fga option"
  ee_provider :: "string \<Rightarrow> string \<Rightarrow> string \<Rightarrow> string list \<Rightarrow> provider option"
  ee_readFile :: "string \<Rightarrow> bytes option"
  ee_hostname :: "string \<Rightarrow> string option"
  ee_lib :: "'k svc_library"
  ee_send :: "string \<Rightarrow> (string \<Rightarrow> string) \<Rightarrow> reader \<Rightarrow> 'n \<Rightarrow> reply \<times> 'n"
  ee_text :: "err \<Rightarrow> string"

definition ergoScopes :: "string \<Rightarrow> string list" where
  "ergoScopes projectID = [''openid'', ''profile'', ''email''] @ (if projectID \<noteq> [] then [ProjectAudienceScope projectID] else [])"

definition ergoKamara :: "(string \<Rightarrow> string) \<Rightarrow> ('k, 'n) ergo_externals \<Rightarrow> string \<Rightarrow> string \<Rightarrow> string + ('k, 'n) kamara_client option" where
  "ergoKamara getenv X issuer projectID =
    (let keyPath = getenv ''SVCAUTH_KEY_FILE'' in
     if keyPath \<noteq> [] \<and> projectID \<noteq> []
     then (case ee_readFile X keyPath of
         None \<Rightarrow> Inl ''svcauth key: ''
       | Some keyJSON \<Rightarrow> (case NewExchanger (ee_lib X) issuer projectID keyJSON of
             Inl e \<Rightarrow> Inl (''svcauth: '' @ e)
           | Inr ex \<Rightarrow> andThen (mustEnv getenv ''KAMARA_URL'') (\<lambda>url. Inr (Some (NewKamara (ee_send X) url ex)))))
     else Inr None)"

definition ergoMain :: "(string \<Rightarrow> string) \<Rightarrow> ('k, 'n) ergo_externals \<Rightarrow> string + ('k, 'n) ergo_app \<times> string \<times> rp_state" where
  "ergoMain getenv X =
    andThen (mustEnv getenv ''DATABASE_DSN'') (\<lambda>dsn.
    if \<not> ee_store X dsn then Inl ''database: ''
    else
      andThen (mustEnv getenv ''OPENFGA_API_URL'') (\<lambda>fgaURL.
      case ee_authz X fgaURL of
        None \<Rightarrow> Inl ''openfga: ''
      | Some az \<Rightarrow>
          andThen (mustEnv getenv ''OIDC_ISSUER'') (\<lambda>issuer.
          let baseURL = TrimSuffix (env getenv ''PUBLIC_URL'' ''http://localhost:5570'') ''/'';
              projectID = getenv ''OIDC_PROJECT_ID'' in
          andThen (mustEnv getenv ''OIDC_CLIENT_ID'') (\<lambda>clientID.
          case NewRelyingParty \<lparr>rc_Issuer = issuer, rc_SuccessURL = [], rc_PostLogoutURL = [], rc_CookieName = ''ergonomos_session'',
                 rc_Secure = HasPrefix baseURL ''https://'', rc_SessionTTL = 0\<rparr>
                 (ee_provider X issuer clientID (baseURL @ ''/auth/callback'') (ergoScopes projectID)) of
            None \<Rightarrow> Inl ''oidc: ''
          | Some (rp, st) \<Rightarrow>
              andThen (ergoKamara getenv X issuer projectID) (\<lambda>kam.
              Inr (\<lparr>ea_fga = az, ea_rp = rp, ea_instance = (case ee_hostname X issuer of None \<Rightarrow> issuer | Some h \<Rightarrow> h),
                    ea_kamara = kam, ea_text = ee_text X\<rparr>, baseURL, st))))))"

section \<open>What a request can change\<close>

lemma keeps_task_reads:
  fixes I :: "ergo_db world \<Rightarrow> bool"
  shows "faultless I \<Longrightarrow> keeps I (ListTasks F u)"
  unfolding ListTasks_def tasksByIDs_def by (intro keeps_rules)

lemma keeps_OnBehalfOf: "keeps I (OnBehalfOf e tok)"
  by (rule keepsI) (simp add: OnBehalfOf_def posted_def bnd_apply ret_apply fail_apply time_now_def split: sum.splits option.splits reply.splits)

text \<open>The clock of the world.\<close>

abbreviation eclock :: "int \<Rightarrow> ergo_db world \<Rightarrow> bool" where
  "eclock t \<equiv> \<lambda>w. w_now w = t"

lemma eclock_free [simp]: "faultless (eclock t)" "randless (eclock t)" "tupleless (eclock t)"
  by (simp_all add: faultless_def randless_def tupleless_def)

lemma eclock_parts [keeps_rules]:
  "keeps (eclock t) (exec f)" "keeps (eclock t) fn \<Longrightarrow> keeps (eclock t) (InTx fn)"
  "keeps (eclock t) (Emit actor act obj)" "keeps (eclock t) (Feed doc)" "keeps (eclock t) (Remove i)"
proof -
  show e: "keeps (eclock t) (exec f)" for f by (rule keeps_exec) simp_all
  show "keeps (eclock t) fn \<Longrightarrow> keeps (eclock t) (InTx fn)" by (rule keeps_InTx) simp_all
  show "keeps (eclock t) (Emit actor act obj)" "keeps (eclock t) (Feed doc)" "keeps (eclock t) (Remove i)"
    unfolding Emit_def auditAppend_def Feed_def searchUpsert_def Remove_def searchDelete_def
    by (intro keeps_rules keeps_TokenFor e; simp add: pseudless_def)+
qed

lemma eclock_ops:
  "keeps (eclock t) (CreateTask F u title)" "keeps (eclock t) (SetDone F u i b)" "keeps (eclock t) (DeleteTask F u i)"
proof -
  have "keeps (eclock t) (taskSetDone i b)"
    unfolding taskSetDone_def by (rule keeps_call) (auto intro!: keepsI simp: Let_def split: option.splits)
  then show "keeps (eclock t) (SetDone F u i b)"
    unfolding SetDone_def setDoneTx_def authorizeTask_def by (intro keeps_rules eclock_free)
  show "keeps (eclock t) (CreateTask F u title)" "keeps (eclock t) (DeleteTask F u i)"
    unfolding CreateTask_def createTaskTx_def taskInsert_def DeleteTask_def deleteTaskTx_def taskDelete_def authorizeTask_def
    by (intro keeps_rules eclock_free)+
qed

text \<open>
  An assertion on the world beside one on the login sessions: the handlers look sessions up, and at most drop
  expired ones.
\<close>

definition lookups :: "(oidc_session sstore \<Rightarrow> bool) \<Rightarrow> bool" where
  "lookups Q \<longleftrightarrow> (\<forall>now k c. Q c \<longrightarrow> Q (snd (GetSession now k c)))"

lemma lookups_free [simp]: "lookups (\<lambda>_. True)" "lookups (backed ttl P t)"
proof -
  show "lookups (\<lambda>_. True)" by (simp add: lookups_def)
  show "lookups (backed ttl P t)"
    unfolding lookups_def by (intro allI impI) (metis backed_get prod.collapse)
qed

abbreviation onErgo :: "(ergo_db world \<Rightarrow> bool) \<Rightarrow> (oidc_session sstore \<Rightarrow> bool) \<Rightarrow> ergo_db world \<times> 'n ergo_state \<Rightarrow> bool" where
  "onErgo I Q \<equiv> \<lambda>p. I (fst p) \<and> Q (rp_sessions (snd p))"

lemma keeps_ergo_parts:
  "lookups Q \<Longrightarrow> keeps (onErgo I Q) (SessionOf R r)" "keeps I m \<Longrightarrow> keeps (onErgo I Q) (lift m)"
  "keeps (onErgo I Q) (viaNet (clientUpload C tok name body))" "keeps (onErgo I Q) rpNow"
proof -
  show "keeps (onErgo I Q) (SessionOf R r)" if "lookups Q"
  proof -
    have "keeps (onErgo I Q) (getSession k)" for k
      using that by (intro keepsI) (auto simp: getSession_def lookups_def split: prod.splits, metis snd_conv)
    then show ?thesis unfolding SessionOf_def by (intro keeps_option keeps_ret)
  qed
  show "keeps I m \<Longrightarrow> keeps (onErgo I Q) (lift m)"
    by (rule keepsI) (auto simp: lift_def dest: keepsD split: prod.split)
  show "keeps (onErgo I Q) rpNow" by (rule keepsI) (simp add: rpNow_def)
  have "keeps (onWorld I) (clientUpload C tok name body)"
    unfolding clientUpload_def
    by (intro keeps_bnd keeps_lift keeps_OnBehalfOf) (auto intro!: keepsI simp: fail_apply ret_apply split: prod.splits reply.splits option.splits)
  then have "I (fst (snd (clientUpload C tok name body (w, n))))" if "I w" for w n
    using keepsD [where w = "(w, n)"] that by fastforce
  then show "keeps (onErgo I Q) (viaNet (clientUpload C tok name body))"
    by (intro keepsI) (simp add: viaNet_def split: prod.split, metis fst_conv snd_conv)
qed

lemma keeps_ergoAuthed: "lookups Q \<Longrightarrow> (\<And>u. keeps (onErgo I Q) (k u)) \<Longrightarrow> keeps (onErgo I Q) (ergoAuthed A r k)"
  unfolding ergoAuthed_def ergoCaller_def by (intro keeps_bnd keeps_ergo_parts keeps_option keeps_ret)

lemma keeps_ergoRender: "lookups Q \<Longrightarrow> faultless I \<Longrightarrow> keeps (onErgo I Q) (ergoRender A r whole)"
  unfolding ergoRender_def by (intro keeps_ergoAuthed keeps_attempt keeps_ergo_parts keeps_task_reads keeps_ret)

lemma keeps_attach: "lookups Q \<Longrightarrow> keeps (onErgo I Q) (attach A r)"
  unfolding attach_def by (intro keeps_option keeps_bnd keeps_ergo_parts keeps_if keeps_let keeps_attempt keeps_ret)

lemma keeps_ergoHandler:
  assumes Q: "lookups Q" and "faultless I" "\<And>u title. keeps I (CreateTask (ea_fga A) u title)" "\<And>u i b. keeps I (SetDone (ea_fga A) u i b)"
    "\<And>u i. keeps I (DeleteTask (ea_fga A) u i)"
  shows "keeps (onErgo I Q) (ergoHandler A p r)"
proof -
  have "keeps (onErgo I Q) (ergoIndex A r)" unfolding ergoIndex_def by (rule keeps_ergoRender [OF Q assms(2)])
  moreover have "keeps (onErgo I Q) (ergoCreate A r)" "keeps (onErgo I Q) (ergoSetDone A r)" "keeps (onErgo I Q) (ergoDelete A r)"
    unfolding ergoCreate_def ergoSetDone_def ergoDelete_def
    by (intro keeps_ergoAuthed keeps_attempt keeps_ergo_parts keeps_ergoRender keeps_ret assms)+
  ultimately show ?thesis using keeps_attach [OF Q] by (cases p) (simp_all add: ergoHandler_def)
qed

text \<open>The sessions stay backed by what the callback had verified, whoever sends what.\<close>

definition vouches :: "provider \<Rightarrow> (int \<Rightarrow> string \<Rightarrow> oidc_session \<Rightarrow> bool) \<Rightarrow> bool" where
  "vouches V P \<longleftrightarrow> (\<forall>t code v tok c k. pv_Exchange V t code v = Inr tok \<longrightarrow> pv_Verify V t (ot_IDToken tok) = Inr (Inr c) \<longrightarrow>
     P t k \<lparr>os_Claims = c, os_IDToken = ot_IDToken tok, os_AccessToken = ot_AccessToken tok, os_AccessTokenExpiry = ot_Expiry tok\<rparr>)"

lemma ergoServe_sessions:
  assumes V: "vouches (rp_provider (ea_rp A)) P" and b: "backed ttl P (w_now w) (rp_sessions s)"
    and run: "ergoServe A self e (w, s) = (res, (w', s'))"
  shows "w_now w' = w_now w \<and> backed ttl P (w_now w) (rp_sessions s')"
proof -
  have now: "w_now w' = w_now w" if "m (w, s) = (res2, (w', s'))" "keeps (onWorld (eclock (w_now w))) m" for m and res2 :: "err + ergo_response"
    using keepsD2 [OF that(2) _ that(1)] by simp
  note rp = keeps_rp [OF eclock_free(2)]
  show ?thesis
  proof (cases e)
    case ErgoHealthz
    then show ?thesis using run b by (simp add: ergoServe_def ret_apply)
  next
    case (ErgoLogin r)
    then have l: "Login (ea_rp A) r (w, s) = (res, (w', s'))" using run by (simp add: ergoServe_def)
    show ?thesis using Login_sessions [OF l] now [OF l rp(1)] b by simp
  next
    case (ErgoCallback r)
    then have c: "Callback (ea_rp A) r (w, s) = (res, (w', s'))" using run by (simp add: ergoServe_def)
    then show ?thesis using Callback_cases [OF c] b V now [OF _ rp(2)] by (auto simp: vouches_def intro!: backed_put)
  next
    case (ErgoLogout r)
    then have "w_now w' = w_now w" using run now [OF _ rp(3)] by (auto simp: ergoServe_def)
    moreover have "backed ttl P (w_now w) (rp_sessions s')"
      using run b ErgoLogout
      by (auto simp: ergoServe_def Logout_def bnd_apply ret_apply getSession_def onSessions_def intro!: backed_delete
          split: option.splits prod.splits) (drule (1) backed_get, simp)+
    ultimately show ?thesis by simp
  next
    case (ErgoSite p r)
    have "keeps (onErgo (eclock (w_now w)) (backed ttl P (w_now w))) (ergoServe A self e)"
      unfolding ErgoSite ergoServe_def ergo_endpoint.case Middleware_def SameOriginGuard_def RedirectToLogin_def
      by (intro keeps_bnd keeps_ergo_parts keeps_if keeps_let keeps_ret keeps_ergoHandler eclock_ops eclock_free lookups_free)
    from keepsD2 [OF this _ run] show ?thesis using b by simp
  qed
qed

section \<open>Tasks change as their users ask\<close>

text \<open>The operation a page stands for.\<close>

definition requested :: "ergo_page \<Rightarrow> web_request \<Rightarrow> task_op option" where
  "requested p r = (case p of
     CreateTaskR \<Rightarrow> Some (OpCreate (FormValue r ''title''))
   | SetDoneR \<Rightarrow> Some (OpSetDone (wr_ID r) (FormValue r ''done'' = ''true''))
   | DeleteTaskR \<Rightarrow> Some (OpDelete (wr_ID r))
   | _ \<Rightarrow> None)"

text \<open>Who may do it: anybody a new task, only its owner anything else.\<close>

definition permitted :: "subject \<Rightarrow> task_op \<Rightarrow> tuple list \<Rightarrow> bool" where
  "permitted u op ts = (case op of
     OpCreate _ \<Rightarrow> True
   | OpSetDone i _ \<Rightarrow> (OpenFGAObject u, Relation, taskObj i) \<in> set ts
   | OpDelete i \<Rightarrow> (OpenFGAObject u, Relation, taskObj i) \<in> set ts)"

lemma not_permitted:
  assumes "owner_fga F" "(OpenFGAObject u, Relation, taskObj i) \<notin> set (w_fga w)"
  shows "SetDone F u i b w = (res, w') \<Longrightarrow> w_db w' = w_db w" "DeleteTask F u i w = (res2, w') \<Longrightarrow> w_db w' = w_db w"
  using authorizeTask_denied [OF assms] by (auto simp: SetDone_def DeleteTask_def bnd_apply)

lemma ergoRender_db: "ergoRender A r whole (w, s) = (res, (w', s')) \<Longrightarrow> w_db w' = w_db w"
  using keepsD2 [OF keeps_ergoRender [OF lookups_free(1), where I = "\<lambda>v. w_db v = w_db w" and A = A and r = r and whole = whole], of "(w, s)" res "(w', s')"]
  by (simp add: faultless_def)

lemma SessionOf_run:
  assumes "SessionOf R r (w, s) = (res, (w', s'))"
  shows "\<exists>v. res = Inr v \<and> w' = w \<and> SessionOf R r (w, s') = (Inr v, (w, s'))"
  using assms
  by (auto simp: SessionOf_def getSession_def ret_apply GetSession_def split: option.splits prod.splits if_splits)

text \<open>A page that does an operation for its caller and then lists the tasks.\<close>

lemma thenRender:
  assumes s: "SessionOf (ea_rp A) r (w, s) = (Inr (Some x), (w, s))"
    and run: "ergoAuthed A r (\<lambda>u. attempt (lift (m u)) (\<lambda>e. ret (h e)) (\<lambda>_. ergoRender A r False)) (w, s) = (res, (w', s'))"
  obtains q w1 where "m \<lparr>sub_Instance = ea_instance A, sub_UserID = cl_Subject (os_Claims x)\<rparr> w = (q, w1)" "w_db w' = w_db w1"
proof -
  let ?u = "\<lparr>sub_Instance = ea_instance A, sub_UserID = cl_Subject (os_Claims x)\<rparr>"
  obtain q w1 where m: "m ?u w = (q, w1)" by fastforce
  have "w_db w' = w_db w1"
    using run s m ergoRender_db
    by (cases q) (auto simp: ergoAuthed_def ergoCaller_def bnd_apply ret_apply attempt_def lift_def)
  then show ?thesis using m that by blast
qed

lemma ergoHandler_change:
  assumes F: "owner_fga (ea_fga A)" and t: "tidy (w_db w)" and s: "SessionOf (ea_rp A) r (w, s) = (Inr (Some x), (w, s))"
    and run: "ergoHandler A p r (w, s) = (res, (w', s'))" and u: "u = \<lparr>sub_Instance = ea_instance A, sub_UserID = cl_Subject (os_Claims x)\<rparr>"
  shows "w_db w' = w_db w \<or> (\<exists>op i. requested p r = Some op \<and> permitted u op (w_fga w) \<and> did u op i (w_now w) (w_db w) (w_db w'))"
proof (cases p)
  case TasksR
  then show ?thesis using run ergoRender_db by (auto simp: ergoHandler_def ergoIndex_def)
next
  case CreateTaskR
  obtain q w1 where "CreateTask (ea_fga A) u (FormValue r ''title'') w = (q, w1)" "w_db w' = w_db w1"
    using thenRender [OF s run [unfolded CreateTaskR ergoHandler_def ergo_page.case ergoCreate_def]] u by blast
  then show ?thesis using CreateTask_outcome [OF t] CreateTaskR by (fastforce simp: requested_def permitted_def outcome_def)
next
  case SetDoneR
  obtain q w1 where m: "SetDone (ea_fga A) u (wr_ID r) (FormValue r ''done'' = ''true'') w = (q, w1)" "w_db w' = w_db w1"
    using thenRender [OF s run [unfolded SetDoneR ergoHandler_def ergo_page.case ergoSetDone_def]] u by blast
  then show ?thesis using SetDone_outcome [OF t m(1)] not_permitted(1) [OF F _ m(1)] SetDoneR
    by (fastforce simp: requested_def permitted_def outcome_def)
next
  case DeleteTaskR
  obtain q w1 where m: "DeleteTask (ea_fga A) u (wr_ID r) w = (q, w1)" "w_db w' = w_db w1"
    using thenRender [OF s run [unfolded DeleteTaskR ergoHandler_def ergo_page.case ergoDelete_def]] u by blast
  then show ?thesis using DeleteTask_outcome [OF t m(1)] not_permitted(2) [OF F _ m(1)] DeleteTaskR
    by (fastforce simp: requested_def permitted_def outcome_def)
next
  case AttachR
  have "w_db w' = w_db w"
    using keepsD2 [OF keeps_attach [OF lookups_free(1), where I = "\<lambda>v. w_db v = w_db w"], of "(w, s)" A r res "(w', s')"] run AttachR
    by (simp add: ergoHandler_def)
  then show ?thesis by simp
qed

lemma ergoServe_change:
  assumes F: "owner_fga (ea_fga A)" and t: "tidy (w_db w)" and run: "ergoServe A self e (w, s) = (res, (w', s'))"
    and m: "\<And>p r. e = ErgoSite p r \<Longrightarrow> wr_Method r \<in> set (ergoMethods p)"
  shows "w_db w' = w_db w \<or> (\<exists>p r x s1 u op i. e = ErgoSite p r \<and> sameOrigin self r \<and> SessionOf (ea_rp A) r (w, s) = (Inr (Some x), (w, s1)) \<and>
    u = \<lparr>sub_Instance = ea_instance A, sub_UserID = cl_Subject (os_Claims x)\<rparr> \<and> requested p r = Some op \<and> permitted u op (w_fga w) \<and>
    did u op i (w_now w) (w_db w) (w_db w'))"
proof (cases e)
  case ErgoHealthz
  then show ?thesis using run by (simp add: ergoServe_def ret_apply)
next
  case (ErgoLogin r)
  then have "Login (ea_rp A) r (w, s) = (res, (w', s'))" using run by (simp add: ergoServe_def)
  from keepsD2 [OF keeps_rp(1) [where I = "\<lambda>v. w_db v = w_db w"] _ this] show ?thesis by (simp add: randless_def)
next
  case (ErgoCallback r)
  then show ?thesis using run Callback_cases [of "ea_rp A" r w s res w' s'] by (auto simp: ergoServe_def)
next
  case (ErgoLogout r)
  then have "Logout (ea_rp A) r (w, s) = (res, (w', s'))" using run by (simp add: ergoServe_def)
  from keepsD2 [OF keeps_rp(3) [where I = "\<lambda>v. w_db v = w_db w"] _ this] show ?thesis by (simp add: randless_def)
next
  case (ErgoSite p r)
  obtain v0 w1 s1 where v0: "SessionOf (ea_rp A) r (w, s) = (v0, (w1, s1))" by (metis prod.exhaust)
  from SessionOf_run [OF this] obtain v where v: "v0 = Inr v" "w1 = w" "SessionOf (ea_rp A) r (w, s1) = (Inr v, (w, s1))" by blast
  have run': "(if v \<noteq> None then SameOriginGuard self (ergoHandler A p) r else ret (Redirect ''/auth/login'' 302)) (w, s1) = (res, (w', s'))"
    using run v0 v(1,2) by (simp add: ErgoSite ergoServe_def Middleware_def bnd_apply RedirectToLogin_def split: if_splits)
  show ?thesis
  proof (cases v)
    case None
    then show ?thesis using run' by (simp add: ret_apply)
  next
    case (Some x)
    have h: "w_db w' = w_db w \<or> ergoHandler A p r (w, s1) = (res, (w', s')) \<and> (wr_Method r \<in> {''GET'', ''HEAD'', ''OPTIONS''} \<or> sameOrigin self r)"
      using run' Some by (auto simp: SameOriginGuard_def sameOrigin_def Let_def ret_apply split: if_splits)
    have "requested p r = None" if "wr_Method r \<in> {''GET'', ''HEAD'', ''OPTIONS''}"
      using m [OF ErgoSite] that by (cases p) (auto simp: ergoMethods_def requested_def)
    then show ?thesis
      using h ergoHandler_change [OF F t v(3) [unfolded Some] _ refl, of p res w' s'] v0 v(1,2) Some ErgoSite by fastforce
  qed
qed

section \<open>Runs\<close>

text \<open>
  The states of the application beside its surroundings: requests (with a method their pattern matches and a body
  that makes progress), the passing of time with any faults and any change of the authorization tuples, steps of
  whatever is on the other side of the client, and restarts.
\<close>

definition proper :: "ergo_endpoint \<Rightarrow> bool" where
  "proper e = (case e of ErgoSite p r \<Rightarrow> wr_Method r \<in> set (ergoMethods p) \<and> progressing (wr_Body r) | _ \<Rightarrow> True)"

definition ergoStart :: "rp_state \<Rightarrow> 'n \<Rightarrow> 'n ergo_state" where
  "ergoStart st n = \<lparr>rp_sessions = rp_sessions st, rp_logins = rp_logins st, es_net = n\<rparr>"

inductive ergo_step :: "('k, 'n) ergo_app \<Rightarrow> string \<Rightarrow> rp_state \<Rightarrow> ('n \<Rightarrow> 'n \<Rightarrow> bool) \<Rightarrow>
    ergo_db world \<times> 'n ergo_state \<Rightarrow> ergo_db world \<times> 'n ergo_state \<Rightarrow> bool" for A self st net where
  request: "proper e \<Longrightarrow> ergoServe A self e p = (res, p') \<Longrightarrow> ergo_step A self st net p p'"
| environment: "w_now w \<le> t \<Longrightarrow> ergo_step A self st net (w, s) (w\<lparr>w_now := t, w_faults := fs, w_fga := g\<rparr>, s)"
| neighbour: "net (es_net s) n \<Longrightarrow> ergo_step A self st net (w, s) (w, s\<lparr>es_net := n\<rparr>)"
| restart: "ergo_step A self st net (w, s) (w, ergoStart st (es_net s))"

abbreviation ergo_run :: "('k, 'n) ergo_app \<Rightarrow> string \<Rightarrow> rp_state \<Rightarrow> ('n \<Rightarrow> 'n \<Rightarrow> bool) \<Rightarrow>
    ergo_db world \<times> 'n ergo_state \<Rightarrow> ergo_db world \<times> 'n ergo_state \<Rightarrow> bool" where
  "ergo_run A self st net \<equiv> (ergo_step A self st net)\<^sup>*\<^sup>*"

text \<open>What a started application knows in every state: its tables are in order and its sessions vouched for.\<close>

definition ergoInv :: "relying_party \<Rightarrow> (int \<Rightarrow> string \<Rightarrow> oidc_session \<Rightarrow> bool) \<Rightarrow> ergo_db world \<times> 'n ergo_state \<Rightarrow> bool" where
  "ergoInv R P p \<longleftrightarrow> tidy (w_db (fst p)) \<and> backed (rc_SessionTTL (rp_cfg R)) P (w_now (fst p)) (rp_sessions (snd p))"

lemma ergoMain_Inr:
  assumes "ergoMain getenv X = Inr (A, self, st)"
  shows "backed (rc_SessionTTL (rp_cfg (ea_rp A))) P t (rp_sessions st)" "getenv ''OIDC_ISSUER'' \<noteq> []"
    "ergoKamara getenv X (getenv ''OIDC_ISSUER'') (getenv ''OIDC_PROJECT_ID'') = Inr (ea_kamara A)"
  using assms
  by (auto simp: ergoMain_def andThen_def mustEnv_def Let_def NewRelyingParty_def backed_new split: sum.splits if_splits option.splits)

lemma ergo_step_inv:
  assumes "ergo_step A self st net p p'" "owner_fga (ea_fga A)" "vouches (rp_provider (ea_rp A)) P"
    "\<And>t. backed (rc_SessionTTL (rp_cfg (ea_rp A))) P t (rp_sessions st)"
    and i: "ergoInv (ea_rp A) P p"
  shows "ergoInv (ea_rp A) P p'"
  using assms(1)
proof (cases rule: ergo_step.cases)
  case (request e res)
  obtain w s w' s' where p: "p = (w, s)" "p' = (w', s')" by (metis prod.exhaust)
  note run = request(2) [unfolded p]
  have t: "tidy (w_db w)" and b: "backed (rc_SessionTTL (rp_cfg (ea_rp A))) P (w_now w) (rp_sessions s)" using i p by (simp_all add: ergoInv_def)
  have "tidy (w_db w')" using ergoServe_change [OF assms(2) t run] request(1) t by (fastforce simp: proper_def did_def)
  then show ?thesis using ergoServe_sessions [OF assms(3) b run] p by (simp add: ergoInv_def)
next
  case (environment w t s fs g)
  then show ?thesis using i by (auto simp: ergoInv_def intro: backed_later)
qed (use i assms(4) in \<open>simp_all add: ergoInv_def ergoStart_def\<close>)

lemma ergo_run_inv:
  assumes main: "ergoMain getenv X = Inr (A, self, st)" and F: "owner_fga (ea_fga A)" "vouches (rp_provider (ea_rp A)) P"
    and t: "tidy (w_db w0)" and run: "ergo_run A self st net (w0, ergoStart st n0) p"
  shows "ergoInv (ea_rp A) P p"
  using run
proof (induction rule: rtranclp_induct)
  case base
  then show ?case using t ergoMain_Inr(1) [OF main] by (simp add: ergoInv_def ergoStart_def)
next
  case (step p p')
  then show ?case using ergo_step_inv [OF step(2) F ergoMain_Inr(1) [OF main]] by blast
qed

section \<open>Properties\<close>

lemma genuine_vouched: "vouches (rp_provider R) (\<lambda>t _ x. genuine R t x)"
  by (simp add: vouches_def genuine_def)

text \<open>C18. Tasks change only as their users ask. In every state that a started task application reaches, a request that
  changes its tables comes from this site, under the unexpired login that its session cookie stands for, the ID token
  of which was verified within the session lifetime; the user of that login is the owner of the task, unless it is a new one; and the tables change exactly as the page
  says: the one task is created, ticked or removed, and one audit event with the user's pseudonym is added.\<close>

theorem ergonomos_requests:
  assumes main: "ergoMain getenv X = Inr (A, self, st)" and F: "owner_fga (ea_fga A)" and t: "tidy (w_db w0)"
    and run: "ergo_run A self st net (w0, ergoStart st n0) (w, s)" and e: "proper e"
    and req: "ergoServe A self e (w, s) = (res, (w', s'))" and ch: "w_db w' \<noteq> w_db w"
  shows "\<exists>p r x u op i ev. e = ErgoSite p r \<and> sameOrigin self r \<and> loggedIn (ea_rp A) r (w_now w) s x \<and> u = \<lparr>sub_Instance = ea_instance A, sub_UserID = cl_Subject (os_Claims x)\<rparr> \<and>
    requested p r = Some op \<and> permitted u op (w_fga w) \<and>
    intended op u (w_now w) i (findTask (w_db w)) = Some (findTask (w_db w')) \<and>
    audit_events (w_db w') = audit_events (w_db w) @ [ev] \<and> ev_Action ev = action op \<and> ev_Object ev = taskAudit i \<and>
    pgTokenOf (w_db w') u = Some (ev_ActorToken ev)"
proof -
  have inv: "ergoInv (ea_rp A) (\<lambda>t _ x. genuine (ea_rp A) t x) (w, s)" by (rule ergo_run_inv [OF main F genuine_vouched t run])
  then have ti: "tidy (w_db w)" and b: "rpInv (ea_rp A) (w_now w) s"
    by (simp_all add: ergoInv_def rpInv_def)
  from ergoServe_change [OF F ti req] e ch obtain p r x s1 u op i where *: "e = ErgoSite p r" "sameOrigin self r"
    "SessionOf (ea_rp A) r (w, s) = (Inr (Some x), (w, s1))" "u = \<lparr>sub_Instance = ea_instance A, sub_UserID = cl_Subject (os_Claims x)\<rparr>"
    "requested p r = Some op" "permitted u op (w_fga w)" "did u op i (w_now w) (w_db w) (w_db w')"
    by (fastforce simp: proper_def)
  show ?thesis using SessionOf_loggedIn [OF b *(3)] * by (auto simp: did_def)
qed

section \<open>Beside a running Kamara\<close>

text \<open>
  The network between the two applications: a request to Kamara's address with the path of the upload is one
  request of its multiplexer; the query is decoded as \<open>net/url\<close> does, the answer is its status and JSON document.
\<close>

definition queryGet :: "string \<Rightarrow> string \<Rightarrow> string" where
  "queryGet raw k = (case List.find (\<lambda>p. fst p = k) (formDecode raw) of None \<Rightarrow> [] | Some p \<Rightarrow> snd p)"

definition jsonOf :: "'z response \<Rightarrow> json option" where
  "jsonOf a = (case rs_Body a of PJson j \<Rightarrow> Some j | _ \<Rightarrow> None)"

definition uploadRequest :: "string \<Rightarrow> (string \<Rightarrow> string) \<Rightarrow> reader \<Rightarrow> request" where
  "uploadRequest raw hdr body = \<lparr>rq_Header = hdr, rq_Query = queryGet raw, rq_ID = [], rq_Body = body, rq_NameBody = None, rq_MoveBody = None\<rparr>"

definition deliver :: "process \<Rightarrow> string \<Rightarrow> string \<Rightarrow> (string \<Rightarrow> string) \<Rightarrow> reader \<Rightarrow> kstate \<Rightarrow> reply \<times> kstate" where
  "deliver K base url hdr body n =
    (if HasPrefix url base \<and> fst (Cut (drop (length base) url) (CHR ''?'')) = ''/v1/files''
     then (case Kamara.serve K (Api UploadR (uploadRequest (fst (snd (Cut (drop (length base) url) (CHR ''?'')))) hdr body)) n of
         (Inr (ApiAnswer a), n') \<Rightarrow> (Reply (rs_Status a) (jsonOf a), n')
       | (_, n') \<Rightarrow> (Unreachable, n'))
     else (Unreachable, n))"

lemma deliver_step: "progressing body \<Longrightarrow> kamara_run K n (snd (deliver K base url hdr body n))"
  by (auto simp: deliver_def steady_def uploadRequest_def intro!: r_into_rtranclp kamara_step.request split: prod.split sum.split answer.split)

lemma queryGet_name: "queryGet (''name='' @ QueryEscape name) ''name'' = name"
proof -
  have "formEncode [(''name'', name)] = ''name='' @ QueryEscape name"
    by (simp add: formEncode_def joinWith_def unreserved_def of_char_def)
  then show ?thesis using formDecode_encode [of "[(''name'', name)]"] by (simp add: queryGet_def)
qed

lemma queryGet_other: "queryGet (''name='' @ QueryEscape name) ''folder'' = []"
proof -
  have "formEncode [(''name'', name)] = ''name='' @ QueryEscape name"
    by (simp add: formEncode_def joinWith_def unreserved_def of_char_def)
  then show ?thesis using formDecode_encode [of "[(''name'', name)]"] by (simp add: queryGet_def)
qed

lemma deliver_upload:
  "deliver K base (base @ ''/v1/files?name='' @ QueryEscape name) hdr body n =
    (case Kamara.serve K (Api UploadR (uploadRequest (''name='' @ QueryEscape name) hdr body)) n of
         (Inr (ApiAnswer a), n') \<Rightarrow> (Reply (rs_Status a) (jsonOf a), n')
       | (_, n') \<Rightarrow> (Unreachable, n'))"
proof -
  have "Cut (''/v1/files?name='' @ QueryEscape name) (CHR ''?'') = (''/v1/files'', ''name='' @ QueryEscape name, True)"
    using Cut_append [of "CHR ''?''" "''/v1/files''" "''name='' @ QueryEscape name"] by simp
  then show ?thesis by (simp add: deliver_def HasPrefix_def)
qed

text \<open>What requests of the task application do to the other side.\<close>

abbreviation onNet :: "('n \<Rightarrow> bool) \<Rightarrow> ergo_db world \<times> 'n ergo_state \<Rightarrow> bool" where
  "onNet M \<equiv> \<lambda>p. M (es_net (snd p))"

lemma keeps_net_parts:
  "keeps (onNet M) rpNow" "keeps (onNet M) (onLogins g)" "keeps (onNet M) (onSessions h)" "keeps (onNet M) (getLogin k)" "keeps (onNet M) (getSession k)"
  "keeps (onNet M) (lift m)" "keeps (onNet M) (randID j)"
  by (auto intro!: keepsI simp: rpNow_def onLogins_def onSessions_def getLogin_def getSession_def lift_def randID_def split: prod.splits)

lemma keeps_net_SessionOf: "keeps (onNet M) (SessionOf R r)"
  unfolding SessionOf_def by (intro keeps_option keeps_ret keeps_net_parts)

lemma keeps_net_ergoAuthed: "(\<And>u. keeps (onNet M) (k u)) \<Longrightarrow> keeps (onNet M) (ergoAuthed A r k)"
  unfolding ergoAuthed_def ergoCaller_def by (intro keeps_bnd keeps_net_SessionOf keeps_option keeps_ret)

lemma keeps_net_client:
  assumes "\<And>url hdr n. M n \<Longrightarrow> M (snd (kc_do C url hdr body n))"
  shows "keeps (onNet M) (viaNet (clientUpload C tok name body))"
proof -
  have "keeps (\<lambda>p :: ergo_db world \<times> _. M (snd p)) (clientUpload C tok name body)"
    unfolding clientUpload_def using assms
    by (intro keeps_bnd) (auto intro!: keepsI simp: lift_def fail_apply ret_apply split: prod.splits reply.splits option.splits, metis snd_conv)
  then have "M (snd (snd (clientUpload C tok name body (w, n))))" if "M n" for w :: "ergo_db world" and n
    using keepsD [where w = "(w, n)"] that by fastforce
  then show ?thesis by (intro keepsI) (auto simp: viaNet_def split: prod.splits, metis snd_conv)
qed

lemma keeps_net_serve:
  assumes "\<And>C url hdr body n. ea_kamara A = Some C \<Longrightarrow> progressing body \<Longrightarrow> M n \<Longrightarrow> M (snd (kc_do C url hdr body n))" "proper e"
  shows "keeps (onNet M) (ergoServe A self e)"
proof (cases e)
  case (ErgoSite p r)
  then have r: "progressing (wr_Body r)" using assms(2) by (simp add: proper_def)
  have render: "keeps (onNet M) (ergoRender A r b)" for b
    unfolding ergoRender_def by (intro keeps_net_ergoAuthed keeps_attempt keeps_net_parts keeps_ret)
  have at: "keeps (onNet M) (attach A r)"
    unfolding attach_def
    by (intro keeps_option keeps_bnd keeps_net_SessionOf keeps_net_parts keeps_if keeps_let keeps_attempt keeps_net_client keeps_ret)
      (use assms(1) r in auto)
  have "keeps (onNet M) (ergoHandler A p r)"
    by (cases p) (auto simp: ergoHandler_def ergoIndex_def ergoCreate_def ergoSetDone_def ergoDelete_def
        intro!: keeps_net_ergoAuthed keeps_attempt keeps_net_parts keeps_ret render at)
  then show ?thesis
    unfolding ErgoSite ergoServe_def ergo_endpoint.case Middleware_def SameOriginGuard_def RedirectToLogin_def
    by (intro keeps_bnd keeps_net_SessionOf keeps_if keeps_let keeps_ret)
qed (auto simp: ergoServe_def Login_def Callback_def completeLogin_def Logout_def Let_def
    intro!: keeps_bnd keeps_ret keeps_option keeps_sum keeps_if keeps_net_parts)

lemma ergo_run_kamara:
  assumes "\<And>C. ea_kamara A = Some C \<Longrightarrow> kc_do C = deliver K base" "ergo_run A self st (kamara_step K) p p'"
  shows "kamara_run K (es_net (snd p)) (es_net (snd p'))"
  using assms(2)
proof (induction rule: rtranclp_induct)
  case (step p' p'')
  from step.hyps(2) step.IH show ?case
  proof (cases rule: ergo_step.cases)
    case (request e res)
    have "keeps (onNet (kamara_run K (es_net (snd p)))) (ergoServe A self e)"
      using assms(1) deliver_step request(1) by (intro keeps_net_serve) (auto intro: rtranclp_trans)
    from keepsD2 [OF this step.IH request(2)] show ?thesis .
  next
    case (neighbour s n w)
    then show ?thesis using step.IH by (auto intro: rtranclp.rtrancl_into_rtrancl)
  qed (simp_all add: ergoStart_def)
qed simp

text \<open>An upload by the client that is answered with 201 is an upload of the API, by the user the token is accepted for.\<close>

lemma clientUpload_created:
  assumes C: "kc_do C = deliver K (kc_baseURL C)" and run: "clientUpload C tok name body (w, n) = (Inr i, (w', n'))"
  obtains new a where "OnBehalfOf (kc_ex C) tok w = (Inr new, w)" "w' = w"
    "Kamara.serve K (Api UploadR (uploadRequest (''name='' @ QueryEscape name) (uploadHeader new) body)) n = (Inr (ApiAnswer a), n')"
    "rs_Status a = 201" "Option.bind (jsonOf a) (textField ''id'') = Some i"
proof -
  obtain q w1 where q: "OnBehalfOf (kc_ex C) tok w = (q, w1)" by fastforce
  obtain new where new: "q = Inr new" using run q by (cases q) (auto simp: clientUpload_def bnd_apply lift_def)
  have w1: "w1 = w" using OnBehalfOf_run(1) q new by blast
  obtain doc where d: "deliver K (kc_baseURL C) (kc_baseURL C @ ''/v1/files?name='' @ QueryEscape name) (uploadHeader new) body n = (Reply 201 doc, n')"
    "Option.bind doc (textField ''id'') = Some i" "w' = w"
    using run q new w1
    by (auto simp: clientUpload_def bnd_apply lift_def C fail_apply ret_apply split: prod.splits reply.splits option.splits if_splits)
  then show ?thesis
    unfolding deliver_upload using q new w1 by (auto split: prod.splits sum.splits answer.splits intro: that)
qed

lemma loggedIn_backed:
  assumes "loggedIn R r now s x" "backed ttl (\<lambda>_ _. P) now (rp_sessions s)"
  shows "P x"
proof -
  obtain c e where "st_items (rp_sessions s) c = Some e" "now \<le> en_exp e" "en_val e = x" using assms(1) by (auto simp: loggedIn_def)
  then have "fst (GetSession now c (rp_sessions s)) = Some x" by (simp add: GetSession_def)
  then show ?thesis using backed_get [OF assms(2), of now c] by (metis order_refl prod.collapse)
qed

lemma attach_created:
  assumes run: "attach A r (w, s) = (Inr resp, (w', s'))" "rs_Status resp = 201" and C: "ea_kamara A = Some C"
  obtains x i s1 where "SessionOf (ea_rp A) r (w, s) = (Inr (Some x), (w, s1))" "es_net s1 = es_net s"
    "clientUpload C (os_AccessToken x) (if wr_Query r ''name'' = [] then ''attachment'' else wr_Query r ''name'')
       (MaxBytesReader (wr_Body r) maxAttachBytes) (w, es_net s) = (Inr i, (w', es_net s'))"
    "resp = writeJSON 201 (JObj [(''fileId'', JStr i)])"
proof -
  obtain v0 w1 s1 where v0: "SessionOf (ea_rp A) r (w, s) = (v0, (w1, s1))" by (metis prod.exhaust)
  from SessionOf_run [OF this] obtain v where v: "v0 = Inr v" "w1 = w" by blast
  have net: "es_net s1 = es_net s"
    using keepsD2 [OF keeps_net_SessionOf [where M = "\<lambda>n. n = es_net s"] _ v0] by simp
  let ?b = "MaxBytesReader (wr_Body r) maxAttachBytes" and ?name = "if wr_Query r ''name'' = [] then ''attachment'' else wr_Query r ''name''"
  obtain x where x: "v = Some x" using run v0 v C by (cases v) (auto simp: attach_def bnd_apply ret_apply httpError_def)
  obtain q w2 n2 where q: "clientUpload C (os_AccessToken x) ?name ?b (w, es_net s) = (q, (w2, n2))" by (metis prod.exhaust)
  have us: "tokenUsable x (w_now w)" using run v0 v C x by (auto simp: attach_def bnd_apply ret_apply httpError_def rpNow_def split: if_splits)
  obtain i where i: "q = Inr i"
    using run v0 v C x q us net by (cases q) (auto simp: attach_def bnd_apply ret_apply httpError_def rpNow_def Let_def attempt_def viaNet_def)
  have "resp = writeJSON 201 (JObj [(''fileId'', JStr i)])" "w' = w2" "s' = s1\<lparr>es_net := n2\<rparr>"
    using run v0 v C x q us net i by (auto simp: attach_def bnd_apply ret_apply rpNow_def Let_def attempt_def viaNet_def)
  then show ?thesis using that [of x s1 i] v0 v x net q i by simp
qed

text \<open>
  What the two applications rely on of the identity provider, which knows the user of every access token: a login
  hands out an access token of the user in its ID token; userinfo names the user of a token; and a token issued in
  exchange for another is one of the same user, without white space around it.
\<close>

definition delegates :: "(string \<Rightarrow> string) \<Rightarrow> provider \<Rightarrow> userinfo_auth \<Rightarrow> 'k svc_library \<Rightarrow> bool" where
  "delegates user V U L \<longleftrightarrow>
    vouches V (\<lambda>_ _ x. user (os_AccessToken x) = cl_Subject (os_Claims x)) \<and>
    (\<forall>t tok u. accepts U t tok u \<longrightarrow> sub_UserID u = user tok) \<and>
    (\<forall>t url body status doc tok new. sl_post L t url body = Reply status (Some doc) \<longrightarrow> status < 300 \<longrightarrow>
       map_of (formDecode body) ''subject_token'' = Some tok \<longrightarrow> textField ''access_token'' doc = Some new \<longrightarrow>
       user new = user tok \<and> TrimSpace new = new)"

lemma exchange_same_user:
  assumes d: "delegates user V U (ex_lib e)" and run: "OnBehalfOf e tok w = (Inr new, w')"
  shows "user new = user tok \<and> TrimSpace new = new \<and> new \<noteq> []"
proof -
  let ?form = "exchangeForm e (w_now w) tok"
  have ne: "?form \<noteq> []" and ds: "distinct (map fst ?form)" by (simp_all add: exchangeForm_def)
  have "map_of (formDecode (formEncode ?form)) = map_of ?form" by (simp only: formDecode_encode [OF ne] map_of_sorted [OF ds])
  then have "map_of (formDecode (formEncode ?form)) ''subject_token'' = Some tok" by (simp add: exchangeForm_def)
  then show ?thesis using OnBehalfOf_run(3,4) [OF run] d unfolding delegates_def by blast
qed

lemma uploadHeader_bearer: "TrimSpace new = new \<Longrightarrow> new \<noteq> [] \<Longrightarrow> bearer (uploadRequest raw (uploadHeader new) body) = new"
  by (simp add: bearer_def uploadRequest_def uploadHeader_def)

lemma toFile_id: "textField ''id'' (toFile x) = Some (ob_ID x)"
  by (simp add: textField_def toFile_def decodeField_def jsonString_def lowerAscii_def of_char_def char_of_def bit_0)

lemma serve_upload:
  assumes "Kamara.serve K (Api route q) (w, c, s) = (Inr (ApiAnswer a), (w', c', s'))"
  shows "Routes (pr_svc K) (pr_apiLimit K) (Subject (pr_auth K)) route q (w, c) = (Inr a, (w', c'))"
  using assms by (auto simp: serve_def bnd_apply ret_apply viaCache_def split: prod.splits sum.splits)

text \<open>C17. An attachment belongs to the user who attached it. Put beside a running Kamara that it reaches under its
  configured address, in every state the two reach together: when the task application answers an upload with 201,
  Kamara has exactly one new file, the one whose identifier is in the answer; its owner is the user of the unexpired login that the
  request's session cookie stands for, in Kamara's own instance, not the calling service; it has the requested name, and its content is exactly
  the body of the request.\<close>

theorem attach_on_behalf:
  assumes kam: "main kenv KX = Inr K" "aead_ok (xt_prims KX)" "hash_ok (xt_prims KX)" "fga_ok (sv_fga (pr_svc K))"
    "consistent False (pr_svc K) (fsBlobs (kenv ''KAMARA_BLOB_DIR'') kw0) (w_db kw0)"
    and erg: "ergoMain getenv X = Inr (A, self, st)" "owner_fga (ea_fga A)" "tidy (w_db w0)"
      "ee_send X = deliver K (TrimRight (getenv ''KAMARA_URL'') (CHR ''/''))"
    and idp: "delegates user (rp_provider (ea_rp A)) (pr_auth K) (ee_lib X)"
    and run: "ergo_run A self st (kamara_step K) (w0, ergoStart st (kw0, pr_cache0 K, pr_site0 K)) (w, s)"
    and req: "attach A r (w, s) = (Inr resp, (w', s'))" "rs_Status resp = 201" "progressing (wr_Body r)"
  shows "\<exists>x sess. resp = writeJSON 201 (JObj [(''fileId'', JStr (ob_ID x))]) \<and>
    objects (w_db (fst (es_net s'))) = objects (w_db (fst (es_net s))) @ [x] \<and>
    loggedIn (ea_rp A) r (w_now w) s sess \<and>
    ob_Owner x = \<lparr>sub_Instance = ua_instance (pr_auth K), sub_UserID = cl_Subject (os_Claims sess)\<rparr> \<and>
    ob_Name x = (if wr_Query r ''name'' = [] then ''attachment'' else wr_Query r ''name'') \<and>
    presents (w_db (fst (es_net s'))) (ob_ID x) 0 (map (ChunkHash (xt_prims KX)) (chunks_of (content (wr_Body r)))) \<and>
    ob_Size x = int (length (content (wr_Body r)))"
proof -
  let ?P = "\<lambda>(_ :: int) (_ :: string) x. user (os_AccessToken x) = cl_Subject (os_Claims x)"
  obtain C where C: "ea_kamara A = Some C" using req(1,2) by (cases "ea_kamara A") (auto simp: attach_def ret_apply httpError_def)
  obtain e where kc: "kc_do C = deliver K (kc_baseURL C)" and ex: "kc_ex C = e" "ex_lib e = ee_lib X"
    using ergoMain_Inr(3) [OF erg(1)] C erg(4)
    by (auto simp: ergoKamara_def NewKamara_def NewExchanger_def andThen_def mustEnv_def Let_def split: if_splits option.splits sum.splits)
  have V: "vouches (rp_provider (ea_rp A)) ?P" using idp by (simp add: delegates_def)
  have "ergoInv (ea_rp A) ?P (w, s)" by (rule ergo_run_inv [OF erg(1,2) V erg(3) run])
  then have b: "backed (rc_SessionTTL (rp_cfg (ea_rp A))) ?P (w_now w) (rp_sessions s)" by (simp add: ergoInv_def)
  obtain kw kc ks kw' kc' ks' where n: "es_net s = (kw, kc, ks)" "es_net s' = (kw', kc', ks')" by (metis prod.exhaust)
  have krun: "kamara_run K (kw0, pr_cache0 K, pr_site0 K) (kw, kc, ks)"
    using ergo_run_kamara [OF _ run, of "kc_baseURL C"] C kc n by (simp add: ergoStart_def)
  note m = main_process [OF kam(1)]
  have tr: "trusted K (kw, kc, ks)" using run_trusted [OF m(1,6) krun m(6)] .
  have disk: "onDisk (kenv ''KAMARA_BLOB_DIR'') (pr_svc K) = pr_svc K" by (rule main_disk [OF kam(1)])
  have t: "tables_ok (w_db kw)" using run_consistent [OF kam(1-3) krun kam(5)] by (simp add: consistent_def good_def)
  let ?name = "if wr_Query r ''name'' = [] then ''attachment'' else wr_Query r ''name''" and ?body = "MaxBytesReader (wr_Body r) maxAttachBytes"
  obtain sess i s1 where at: "SessionOf (ea_rp A) r (w, s) = (Inr (Some sess), (w, s1))"
    "clientUpload C (os_AccessToken sess) ?name ?body (w, es_net s) = (Inr i, (w', es_net s'))" "resp = writeJSON 201 (JObj [(''fileId'', JStr i)])"
    using attach_created [OF req(1,2) C] by metis
  have "ergoInv (ea_rp A) (\<lambda>t _ x. genuine (ea_rp A) t x) (w, s)" by (rule ergo_run_inv [OF erg(1,2) genuine_vouched erg(3) run])
  then have li: "loggedIn (ea_rp A) r (w_now w) s sess" by (intro SessionOf_loggedIn [OF _ at(1)]) (simp add: ergoInv_def rpInv_def)
  have own: "user (os_AccessToken sess) = cl_Subject (os_Claims sess)" by (rule loggedIn_backed [OF li b])
  obtain new a where up: "OnBehalfOf (kc_ex C) (os_AccessToken sess) w = (Inr new, w)"
    "Kamara.serve K (Api UploadR (uploadRequest (''name='' @ QueryEscape ?name) (uploadHeader new) ?body)) (kw, kc, ks) = (Inr (ApiAnswer a), (kw', kc', ks'))"
    "rs_Status a = 201" "Option.bind (jsonOf a) (textField ''id'') = Some i"
    using clientUpload_created [OF kc at(2) [unfolded n]] by metis
  let ?q = "uploadRequest (''name='' @ QueryEscape ?name) (uploadHeader new) ?body"
  have new: "user new = user (os_AccessToken sess)" "TrimSpace new = new" "new \<noteq> []"
    using exchange_same_user [OF idp [folded ex] up(1)] by simp_all
  have br: "bearer ?q = new" by (rule uploadHeader_bearer [OF new(2,3)])
  have ci: "cacheInv (pr_auth K) (w_now kw) kc" using tr by (simp add: trusted_def)
  obtain u where u: "recentlyAccepted (pr_auth K) (w_now kw) new u" "apiUpload (pr_svc K) (pr_apiLimit K) ?q u kw = (Inr a, kw')"
    using userinfo.authed_cases [OF ci serve_upload [OF up(2), unfolded Routes_def]] up(3) br by (auto simp: apiHandler_def)
  have pr: "progressing (rq_Body ?q)" using req(3) by (simp add: uploadRequest_def)
  obtain x where x: "Upload (pr_svc K) u (optStr (rq_Query ?q ''folder'')) (rq_Query ?q ''name'') ?body kw = (Inr x, kw')" "a = writeJSON 201 (toFile x)"
    using apiUpload_created [where root = "kenv ''KAMARA_BLOB_DIR''" and V = "pr_svc K", unfolded disk, OF pr t kam(4) u(2) up(3)]
    by (auto simp: uploadRequest_def)
  note e = disk.Upload_effect [where root = "kenv ''KAMARA_BLOB_DIR''" and V = "pr_svc K", unfolded disk, OF _ t kam(4) x(1)]
  have whole: "?body = wr_Body r"
  proof (rule MaxBytesReader_within, rule ccontr)
    assume "\<not> length (content (wr_Body r)) \<le> maxAttachBytes"
    then have "rd_end ?body = RFail ErrTooLarge" using MaxBytesReader_beyond [of maxAttachBytes "wr_Body r"] by simp
    then show False using e(1) req(3) by simp
  qed
  have "i = ob_ID x" using up(4) x(2) by (simp add: jsonOf_def writeJSON_def toFile_id)
  moreover obtain t0 where ac: "accepts (pr_auth K) t0 new u" using u(1) by (auto simp: recentlyAccepted_def)
  then have "sub_UserID u = user new" using idp by (simp add: delegates_def)
  then have "u = \<lparr>sub_Instance = ua_instance (pr_auth K), sub_UserID = cl_Subject (os_Claims sess)\<rparr>"
    using ac new(1) own by (cases u) (simp add: accepts_def)
  moreover have "rq_Query ?q ''name'' = ?name" by (simp only: uploadRequest_def request.simps queryGet_name)
  ultimately show ?thesis using at(3) li e req(3) whole m(3) n by (intro exI [of _ x] exI [of _ sess]) simp
qed

section \<open>A login, a task removed, a file attached\<close>

text \<open>The tuples as they are, and nothing random: identifiers are the same on every draw.\<close>

definition directFga :: fga where
  "directFga = modelFga\<lparr>fga_check := (\<lambda>ts t. t \<in> set ts),
     fga_list := (\<lambda>ts u r typ. map (\<lambda>t. snd (snd t)) (filter (\<lambda>t. fst t = u \<and> fst (snd t) = r \<and> HasPrefix (snd (snd t)) (typ @ '':'')) ts))\<rparr>"

lemma directFga_ok: "owner_fga directFga"
  unfolding owner_fga_def by (simp add: directFga_def modelFga_def) force

definition ergoWorld :: "ergo_db world" where
  "ergoWorld = (demoWorld ergoDemo)\<lparr>w_rand := (\<lambda>_. 0), w_fga := [(OpenFGAObject ann, Relation, taskObj ''1'')]\<rparr>"

definition ergoEnv :: "string \<Rightarrow> string" where
  "ergoEnv k = (if k = ''PUBLIC_URL'' then [] else if k = ''KAMARA_URL'' then ''http://kamara'' else ''https://id'')"

definition ergoX :: "(unit, kstate) ergo_externals" where
  "ergoX = \<lparr>ee_store = (\<lambda>_. True), ee_authz = (\<lambda>_. Some directFga), ee_provider = (\<lambda>_ _ _ _. Some demoIdP), ee_readFile = (\<lambda>_. Some []),
     ee_hostname = (\<lambda>_. Some ''acme''), ee_lib = demoLib, ee_send = deliver demoProcess ''http://kamara'', ee_text = (\<lambda>_. [])\<rparr>"

definition ergoRP :: relying_party where
  "ergoRP = \<lparr>rp_cfg = \<lparr>rc_Issuer = ''https://id'', rc_SuccessURL = ''/'', rc_PostLogoutURL = ''/'', rc_CookieName = ''ergonomos_session'',
     rc_Secure = False, rc_SessionTTL = 12 * 60 * minute\<rparr>, rp_provider = demoIdP\<rparr>"

definition ergoRPState :: rp_state where
  "ergoRPState = \<lparr>rp_sessions = NewStore (12 * 60 * minute), rp_logins = NewStore (10 * minute)\<rparr>"

definition ergoDemoApp :: "(unit, kstate) ergo_app" where
  "ergoDemoApp = \<lparr>ea_fga = directFga, ea_rp = ergoRP, ea_instance = ''acme'',
     ea_kamara = Some \<lparr>kc_baseURL = ''http://kamara'', kc_ex = demoExchanger\<lparr>ex_projScope := ProjectAudienceScope ''https://id''\<rparr>, kc_do = deliver demoProcess ''http://kamara''\<rparr>, ea_text = (\<lambda>_. [])\<rparr>"

lemma ergo_key: "NewExchanger demoLib ''https://id'' p [] = Inr (demoExchanger\<lparr>ex_projScope := ProjectAudienceScope p\<rparr>)"
  unfolding NewExchanger_def demoLib_key
  by (simp add: parseRSAKey_def demoExchanger_def) (simp add: demoLib_def TrimRight_def)

lemma ergo_main: "ergoMain ergoEnv ergoX = Inr (ergoDemoApp, ''http://localhost:5570'', ergoRPState)"
  by (simp add: ergoMain_def ergoX_def ergoEnv_def mustEnv_def andThen_def env_def TrimSuffix_def HasSuffix_def HasPrefix_def NewRelyingParty_def
      ergoKamara_def ergo_key NewKamara_def TrimRight_def ergoDemoApp_def ergoRP_def ergoRPState_def)

definition zeros :: "nat \<Rightarrow> string" where
  "zeros n = hexEncode (replicate n 0)"

definition ergoVisit :: "string \<Rightarrow> string \<Rightarrow> web_request" where
  "ergoVisit method i = \<lparr>wr_Method = method, wr_Header = (\<lambda>_. []),
     wr_Query = (\<lambda>k. if k = ''state'' then zeros 16 else if k = ''name'' then ''a.txt'' else ''c''),
     wr_Cookie = (\<lambda>k. if k = stateCookie then Some (zeros 16) else Some (zeros 32)), wr_ID = i, wr_Body = demoReader,
     wr_Form = (\<lambda>_. (None, \<lambda>_. [])), wr_Multipart = (\<lambda>_. None)\<rparr>"

definition annSession :: oidc_session where
  "annSession = \<lparr>os_Claims = \<lparr>cl_Subject = ''ann'', cl_Name = ''Ann'', cl_Email = []\<rparr>, os_IDToken = ''id'', os_AccessToken = ''at'', os_AccessTokenExpiry = 0\<rparr>"

definition ergoLogged :: "kstate \<Rightarrow> kstate ergo_state" where
  "ergoLogged n = \<lparr>rp_sessions = PutSession 0 (zeros 32) annSession (NewStore (12 * 60 * minute)),
     rp_logins = DeleteSession (zeros 16) (PutSession 0 (zeros 16) ''v'' (NewStore (10 * minute))), es_net = n\<rparr>"

lemma ergo_login:
  "ergo_run ergoDemoApp self ergoRPState net (ergoWorld, ergoStart ergoRPState n) (ergoWorld, ergoLogged n)"
proof -
  let ?r = "ergoVisit ''GET'' []"
  let ?s = "\<lparr>rp_sessions = NewStore (12 * 60 * minute), rp_logins = PutSession 0 (zeros 16) ''v'' (NewStore (10 * minute)), es_net = n\<rparr>"
  have rnd: "map (\<lambda>_. 0 :: byte) [0..<k] = replicate k 0" for k by (simp add: map_replicate_const)
  have w: "w_now ergoWorld = 0" "w_rand ergoWorld = (\<lambda>_. 0)" "ergoWorld\<lparr>w_rand := (\<lambda>_. 0)\<rparr> = ergoWorld" by (simp_all add: ergoWorld_def)
  have "length (zeros 16) = 32" by (simp add: zeros_def)
  then have ne: "zeros 16 \<noteq> []" by (metis list.size(3) zero_neq_numeral)
  have ck: "stateCookie \<noteq> ''ergonomos_session''" by (simp add: stateCookie_def)
  have ttl: "0 \<le> 10 * minute" by (simp add: minute_def)
  have step: "ergo_step ergoDemoApp self ergoRPState net p p'" if "\<exists>res. ergoServe ergoDemoApp self e p = (res, p')" "proper e" for p p' e
    using that ergo_step.request by metis
  have "\<exists>res. ergoServe ergoDemoApp self (ErgoLogin ?r) (ergoWorld, ergoStart ergoRPState n) = (res, (ergoWorld, ?s))"
    by (simp add: ergoServe_def ergoDemoApp_def ergoRP_def Login_def bnd_apply ret_apply randID_def lift_def randRead_def rpNow_def onLogins_def Let_def
        ergoStart_def ergoRPState_def demoIdP_def w rnd zeros_def)
  then have "ergo_step ergoDemoApp self ergoRPState net (ergoWorld, ergoStart ergoRPState n) (ergoWorld, ?s)"
    by (rule step) (simp add: proper_def)
  moreover have "\<exists>res. ergoServe ergoDemoApp self (ErgoCallback ?r) (ergoWorld, ?s) = (res, (ergoWorld, ergoLogged n))"
    by (simp add: ergoServe_def ergoDemoApp_def ergoRP_def Callback_def ergoVisit_def ne getLogin_def demo_get ttl bnd_apply ret_apply onLogins_def
        completeLogin_def rpNow_def demoIdP_def Let_def randID_def lift_def randRead_def onSessions_def w rnd zeros_def [symmetric] ergoLogged_def annSession_def)
  then have "ergo_step ergoDemoApp self ergoRPState net (ergoWorld, ?s) (ergoWorld, ergoLogged n)"
    by (rule step) (simp add: proper_def)
  ultimately show ?thesis by (meson converse_rtranclp_into_rtranclp r_into_rtranclp)
qed

lemma ergo_session:
  "SessionOf ergoRP (ergoVisit m i) (ergoWorld, ergoLogged n) = (Inr (Some annSession), (ergoWorld, ergoLogged n))"
proof -
  have "0 \<le> 12 * 60 * minute" "stateCookie \<noteq> ''ergonomos_session''" "w_now ergoWorld = 0" by (simp_all add: minute_def stateCookie_def ergoWorld_def)
  then show ?thesis by (simp add: SessionOf_def ergoRP_def ergoVisit_def getSession_def ergoLogged_def demo_get)
qed

lemma ergo_delete: "\<exists>q w'. DeleteTask directFga ann ''1'' ergoWorld = (q, w') \<and> tasks (w_db w') = []"
proof -
  have c: "calm ergoWorld" "w_db ergoWorld = ergoDemo" "w_fga ergoWorld = [(OpenFGAObject ann, Relation, taskObj ''1'')]"
    by (simp_all add: ergoWorld_def calm_def)
  have a: "authorizeTask directFga ann ''1'' ergoWorld = (Inr (), ergoWorld)"
    using c by (simp add: authorizeTask_def Check_def fgaAsk_def bnd_apply ret_apply directFga_def userTuple_def rawTuple_def)
  obtain w1 where em: "Emit ann ''ergonomos.task.deleted'' (taskAudit ''1'') ergoWorld = (Inr (), w1)"
    using Emit_first [of ergoWorld ann "''ergonomos.task.deleted''" "taskAudit ''1''"] c
    by (auto simp: Zero_def ann_def taskAudit_def TaskType_def ergoDemo_def)
  have c1: "calm w1" by (rule keepsD2 [OF calm_conv(1) c(1) em])
  have "conv_ok (w_db ergoWorld)" using c by (simp add: conv_ok_def ergoDemo_def)
  from Emit_Inr [OF em this] have t1: "tasks (w_db w1) = [demoTask]" using c by (auto simp: ergoDemo_def)
  have "\<exists>w2. InTx (deleteTaskTx ann ''1'') ergoWorld = (Inr (), w2) \<and> tasks (w_db w2) = []"
    using c(1) em c1 t1 by (simp add: InTx_calm deleteTaskTx_def bnd_apply taskDelete_def Remove_def searchDelete_def demoTask_def)
  then obtain w2 where w2: "InTx (deleteTaskTx ann ''1'') ergoWorld = (Inr (), w2)" "tasks (w_db w2) = []" by blast
  obtain q w3 where q: "DeleteTuple directFga ann Relation (taskObj ''1'') w2 = (q, w3)" by fastforce
  then have "w_db w3 = w_db w2" by (rule DeleteTuple_db)
  then show ?thesis using a w2 q by (simp add: DeleteTask_def bnd_apply)
qed

theorem ergonomos_requests_witness:
  "\<exists>res w' s' u i. ergoServe ergoDemoApp ''http://localhost:5570'' (ErgoSite DeleteTaskR (ergoVisit ''POST'' ''1''))
      (ergoWorld, ergoLogged (demoWorld emptyDb, pr_cache0 demoProcess, pr_site0 demoProcess)) = (res, (w', s')) \<and>
    intended (OpDelete ''1'') u 0 i (findTask ergoDemo) = Some (findTask (w_db w'))"
proof -
  let ?n = "(demoWorld emptyDb, pr_cache0 demoProcess, pr_site0 demoProcess) :: kstate" and ?r = "ergoVisit ''POST'' ''1''"
  let ?e = "ErgoSite DeleteTaskR ?r" and ?self = "''http://localhost:5570''"
  obtain res w' s' where run: "ergoServe ergoDemoApp ?self ?e (ergoWorld, ergoLogged ?n) = (res, (w', s'))" by (metis prod.exhaust)
  have rp: "ea_rp ergoDemoApp = ergoRP" "ea_fga ergoDemoApp = directFga" "ea_instance ergoDemoApp = ''acme''" by (simp_all add: ergoDemoApp_def)
  have del: "ergoDelete ergoDemoApp ?r (ergoWorld, ergoLogged ?n) = (res, (w', s'))"
    using run ergo_session [of "''POST''" "''1''" ?n]
    by (simp add: ergoServe_def Middleware_def rp bnd_apply SameOriginGuard_def ergoHandler_def Let_def) (simp add: ergoVisit_def)
  have u: "\<lparr>sub_Instance = ea_instance ergoDemoApp, sub_UserID = cl_Subject (os_Claims annSession)\<rparr> = ann" "wr_ID ?r = ''1''"
    by (simp_all add: rp annSession_def ann_def ergoVisit_def)
  obtain q w1 where "DeleteTask directFga ann ''1'' ergoWorld = (q, w1)" "w_db w' = w_db w1"
    using thenRender [OF ergo_session [folded rp(1)] del [unfolded ergoDelete_def]] unfolding u rp(2) by blast
  then have gone: "tasks (w_db w') = []" using ergo_delete by auto
  have db: "w_db ergoWorld = ergoDemo" "w_now ergoWorld = 0" by (simp_all add: ergoWorld_def)
  have "tidy (w_db ergoWorld)" by (simp add: db tidy_def conv_ok_def ergoDemo_def)
  moreover have "proper ?e" by (simp add: proper_def ergoMethods_def ergoVisit_def)
  moreover have "w_db w' \<noteq> w_db ergoWorld" using gone by (auto simp: db ergoDemo_def)
  ultimately show ?thesis
    using ergonomos_requests [OF ergo_main _ _ ergo_login _ run] directFga_ok run rp db by (fastforce simp: requested_def ergoVisit_def)
qed

lemma demo_userinfo: "pr_auth demoProcess = \<lparr>ua_userinfo = demoProvider, ua_parse = (\<lambda>_. None), ua_instance = ''acme'', ua_ttl = 60 * 1000000000\<rparr>"
  "pr_cache0 demoProcess = NewStore (60 * 1000000000)"
  using demo_svc(3) by (auto simp: NewUserinfoAuth_def Let_def)

lemma ergo_idp: "delegates (\<lambda>_. ''ann'') (rp_provider (ea_rp ergoDemoApp)) (pr_auth demoProcess) (ee_lib ergoX)"
proof -
  have "foldName ''sub'' = ''sub''" "foldName ''access_token'' = ''access_token''" by (simp_all add: lowerAscii_def of_char_def)
  moreover have "TrimSpace ''obo'' = ''obo''" by (simp add: TrimSpace_def runePieces.simps isSpaceRune_def char_of_def bit_0)
  ultimately show ?thesis
    by (auto simp: delegates_def vouches_def ergoDemoApp_def ergoRP_def demoIdP_def accepts_def demo_userinfo demoProvider_def decodeField_def jsonString_def
        ergoX_def demoLib_def textField_def)
qed

lemma obo_auth: "Subject (pr_auth demoProcess) ''obo'' (w, pr_cache0 demoProcess) =
    (Inr (Some ann), (w, PutSession (w_now w) ''obo'' ann (pr_cache0 demoProcess)))"
proof -
  have "foldName ''sub'' = ''sub''" by (simp add: lowerAscii_def of_char_def)
  then show ?thesis
    by (simp add: demo_userinfo Subject_def bnd_apply ret_apply Let_def tokenExpired_def cacheGet_def cachePut_def
        GetSession_def NewStore_def demoProvider_def decodeField_def jsonString_def ann_def)
qed

lemma obo_served:
  "\<exists>x n'. Kamara.serve demoProcess (Api UploadR (uploadRequest (''name='' @ QueryEscape ''a.txt'') (uploadHeader ''obo'') demoReader))
     (demoWorld emptyDb, pr_cache0 demoProcess, pr_site0 demoProcess) = (Inr (ApiAnswer (writeJSON 201 (toFile x))), n')"
proof -
  let ?w = "demoWorld emptyDb :: kamara_db world"
  define r where "r = uploadRequest (''name='' @ QueryEscape ''a.txt'') (uploadHeader ''obo'') demoReader"
  have fit: "MaxBytesReader demoReader (NewApi 0) = demoReader"
    by (rule MaxBytesReader_within) (simp add: NewApi_def DefaultMaxUploadBytes_def)
  obtain x w1 where u: "Upload demoSvc ann None ''a.txt'' demoReader ?w = (Inr x, w1)" using demo_upload by auto
  have q: "rq_Query r ''name'' = ''a.txt''" "rq_Query r ''folder'' = []" "rq_Body r = demoReader"
    by (simp_all only: r_def uploadRequest_def request.simps queryGet_name queryGet_other)
  have up: "apiUpload demoSvc (NewApi 0) r ann ?w = (Inr (writeJSON 201 (toFile x)), w1)"
    using u fit by (simp add: apiUpload_def q optStr_def attempt_def ret_apply)
  have "TrimSpace ''obo'' = ''obo''" by (simp add: TrimSpace_def runePieces.simps isSpaceRune_def char_of_def bit_0)
  then have "bearer r = ''obo''" unfolding r_def by (rule uploadHeader_bearer) simp
  then have "Routes demoSvc (NewApi 0) (Subject (pr_auth demoProcess)) UploadR r (?w, pr_cache0 demoProcess) =
      (Inr (writeJSON 201 (toFile x)), (w1, PutSession (w_now ?w) ''obo'' ann (pr_cache0 demoProcess)))"
    using up by (simp add: Routes_def authed_def Let_def attempt_def obo_auth lift_def apiHandler_def)
  then show ?thesis unfolding r_def [symmetric] by (auto simp: serve_def demo_svc viaCache_def bnd_apply ret_apply)
qed

lemma ergo_attached:
  "\<exists>resp w' s'. attach ergoDemoApp (ergoVisit ''POST'' []) (ergoWorld, ergoLogged (demoWorld emptyDb, pr_cache0 demoProcess, pr_site0 demoProcess)) =
     (Inr resp, (w', s')) \<and> rs_Status resp = 201"
proof -
  let ?n = "(demoWorld emptyDb, pr_cache0 demoProcess, pr_site0 demoProcess) :: kstate" and ?r = "ergoVisit ''POST'' []"
  obtain x n' where sv: "Kamara.serve demoProcess (Api UploadR (uploadRequest (''name='' @ QueryEscape ''a.txt'') (uploadHeader ''obo'') demoReader)) ?n =
    (Inr (ApiAnswer (writeJSON 201 (toFile x))), n')" using obo_served by blast
  obtain C where kc: "kc_baseURL C = ''http://kamara''" "kc_do C = deliver demoProcess ''http://kamara''" "ea_kamara ergoDemoApp = Some C" "ea_rp ergoDemoApp = ergoRP"
    "kc_ex C = demoExchanger\<lparr>ex_projScope := ProjectAudienceScope ''https://id''\<rparr>"
    by (rule that [of "the (ea_kamara ergoDemoApp)"]) (simp_all add: ergoDemoApp_def)
  have ob: "OnBehalfOf (kc_ex C) ''at'' ergoWorld = (Inr ''obo'', ergoWorld)"
    by (simp add: kc(5) OnBehalfOf_def demoExchanger_def demoLib_def posted_def bnd_apply ret_apply time_now_def textField_def
        decodeField_def jsonString_def lowerAscii_def of_char_def)
  have up: "clientUpload C ''at'' ''a.txt'' demoReader (ergoWorld, ?n) = (Inr (ob_ID x), (ergoWorld, n'))"
    unfolding clientUpload_def kc(1,2) bnd_apply lift_def prod.case ob sum.case deliver_upload sv answer.case
    by (simp add: jsonOf_def writeJSON_def toFile_id ret_apply)
  have fit: "MaxBytesReader demoReader maxAttachBytes = demoReader" by (rule MaxBytesReader_within) (simp add: maxAttachBytes_def)
  have us: "tokenUsable annSession t" "os_AccessToken annSession = ''at''" for t by (simp_all add: tokenUsable_def annSession_def)
  have q: "wr_Query ?r ''name'' = ''a.txt''" "wr_Body ?r = demoReader" "es_net (ergoLogged ?n) = ?n" by (simp_all add: ergoVisit_def ergoLogged_def)
  show ?thesis
    unfolding attach_def kc(3,4) option.case
    by (simp add: bnd_apply ergo_session rpNow_def us q fit attempt_def viaNet_def up ret_apply writeJSON_def)
qed

theorem attach_on_behalf_witness:
  "\<exists>x w' s'. attach ergoDemoApp (ergoVisit ''POST'' []) (ergoWorld, ergoLogged (demoWorld emptyDb, pr_cache0 demoProcess, pr_site0 demoProcess)) =
     (Inr (writeJSON 201 (JObj [(''fileId'', JStr (ob_ID x))])), (w', s')) \<and> objects (w_db (fst (es_net s'))) = [x] \<and> ob_Owner x = ann"
proof -
  let ?n = "(demoWorld emptyDb, pr_cache0 demoProcess, pr_site0 demoProcess) :: kstate" and ?r = "ergoVisit ''POST'' []"
  obtain resp w' s' where at: "attach ergoDemoApp ?r (ergoWorld, ergoLogged ?n) = (Inr resp, (w', s'))" "rs_Status resp = 201" using ergo_attached by blast
  have db: "w_db ergoWorld = ergoDemo" by (simp add: ergoWorld_def)
  have "tidy (w_db ergoWorld)" by (simp add: db tidy_def conv_ok_def ergoDemo_def)
  moreover have "owner_fga (ea_fga ergoDemoApp)" using directFga_ok by (simp add: ergoDemoApp_def)
  moreover have "ee_send ergoX = deliver demoProcess (TrimRight (ergoEnv ''KAMARA_URL'') (CHR ''/''))"
    by (simp add: ergoX_def ergoEnv_def TrimRight_def)
  moreover have "progressing (wr_Body ?r)" by (simp add: ergoVisit_def)
  moreover have "fga_ok (sv_fga (pr_svc demoProcess))" by (simp add: demo_svc)
  moreover have "ua_instance (pr_auth demoProcess) = ''acme''" by (simp add: demo_userinfo)
  ultimately obtain x sess where x: "resp = writeJSON 201 (JObj [(''fileId'', JStr (ob_ID x))])"
      "objects (w_db (fst (es_net s'))) = objects (w_db (fst (es_net (ergoLogged ?n)))) @ [x]"
      "loggedIn (ea_rp ergoDemoApp) ?r (w_now ergoWorld) (ergoLogged ?n) sess"
      "ob_Owner x = \<lparr>sub_Instance = ''acme'', sub_UserID = cl_Subject (os_Claims sess)\<rparr>"
    using attach_on_behalf [OF demo_process _ _ _ demo_started ergo_main _ _ _ ergo_idp ergo_login at] by auto
  have "objects (w_db (fst (es_net (ergoLogged ?n)))) = []" by (simp add: ergoLogged_def)
  moreover have "sess = annSession"
    using x(3) by (auto simp: loggedIn_def ergoLogged_def PutSession_def NewStore_def Let_def sweepLocked_def split: option.splits if_splits)
  ultimately show ?thesis using at(1) x(1,2,4) by (auto simp: annSession_def ann_def)
qed

end
