(* ===== verification/Catalog.thy ===== *)
theory Catalog
  imports Kube
begin

text \<open>
  The app catalog of the control plane and its service topology: the catalog with its queries
  (\<open>control-plane/internal/controller/apps.go\<close>), the network policies generated from it (\<open>netpol.go\<close>) and the
  helpers of the optional-app reconcile (\<open>optional_apps.go\<close>). The theorems say who can reach whom under the
  generated policies, with the meaning Kubernetes documents for them.
\<close>

section \<open>The catalog\<close>

record catalog_app =
  ca_Name :: string
  ca_Image :: string
  ca_Port :: int
  ca_NeedsDatabase :: bool
  ca_NeedsOpenFGA :: bool
  ca_NeedsBlob :: bool
  ca_NeedsDEK :: bool
  ca_Calls :: "string list"
  ca_Optional :: bool
  ca_External :: bool

definition stubApp :: catalog_app where
  "stubApp = \<lparr>ca_Name = ''stub'', ca_Image = [], ca_Port = 5556, ca_NeedsDatabase = False, ca_NeedsOpenFGA = False,
     ca_NeedsBlob = False, ca_NeedsDEK = False, ca_Calls = [], ca_Optional = False, ca_External = False\<rparr>"

definition catalog :: "catalog_app list" where
  "catalog =
    [stubApp,
     stubApp\<lparr>ca_Name := ''ergonomos'', ca_Port := 5570, ca_NeedsDatabase := True, ca_NeedsOpenFGA := True, ca_Calls := [''kamara'']\<rparr>,
     stubApp\<lparr>ca_Name := ''kamara'', ca_Port := 5580, ca_NeedsDatabase := True, ca_NeedsOpenFGA := True, ca_NeedsBlob := True, ca_NeedsDEK := True\<rparr>,
     stubApp\<lparr>ca_Name := ''office'', ca_Image := ''collabora/code:latest'', ca_Port := 9980, ca_Optional := True, ca_External := True, ca_Calls := [''kamara'']\<rparr>]"

definition imageFor :: "reconciler \<Rightarrow> catalog_app \<Rightarrow> string" where
  "imageFor r app =
    (if ca_Image app \<noteq> [] then ca_Image app
     else (if rc_ImagePrefix r = [] then ''peristera-'' else rc_ImagePrefix r) @ ca_Name app @ '':'' @
          (if rc_ImageTag r = [] then ''dev'' else rc_ImageTag r))"

definition tenantEnables :: "tenant \<Rightarrow> string \<Rightarrow> bool" where
  "tenantEnables t name \<longleftrightarrow> name \<in> set (ts_Apps (tn_Spec t))"

text \<open>The test with which every loop over the catalog skips an app: optional, and not enabled.\<close>

definition provisioned :: "tenant \<Rightarrow> catalog_app \<Rightarrow> bool" where
  "provisioned t app \<longleftrightarrow> \<not> (ca_Optional app \<and> \<not> tenantEnables t (ca_Name app))"

definition callersOf :: "string \<Rightarrow> string list" where
  "callersOf target = concat (map (\<lambda>a. map (\<lambda>_. ca_Name a) (filter (\<lambda>c. c = target) (ca_Calls a))) catalog)"

definition enabledCallersOf :: "tenant \<Rightarrow> string \<Rightarrow> string list" where
  "enabledCallersOf t target =
    concat (map (\<lambda>a. map (\<lambda>_. ca_Name a) (filter (\<lambda>c. c = target) (ca_Calls a))) (filter (provisioned t) catalog))"

definition OptionalApps :: "string list" where
  "OptionalApps = map ca_Name (filter ca_Optional catalog)"

definition IsOptionalApp :: "string \<Rightarrow> bool" where
  "IsOptionalApp name = list_ex (\<lambda>a. ca_Optional a \<and> ca_Name a = name) catalog"

definition anyAppNeedsOpenFGA :: bool where
  "anyAppNeedsOpenFGA = list_ex ca_NeedsOpenFGA catalog"

definition plainEnv :: "string \<Rightarrow> string \<Rightarrow> env_var" where
  "plainEnv n v = \<lparr>en_Name = n, en_Value = v, en_From = None\<rparr>"

definition inCluster :: "string \<Rightarrow> string \<Rightarrow> string" where
  "inCluster svc ns = ''http://'' @ svc @ ''.'' @ ns @ ''.svc.cluster.local''"

definition officeEnv :: "reconciler \<Rightarrow> tenant \<Rightarrow> string \<Rightarrow> env_var list" where
  "officeEnv r t ns =
    (if \<not> tenantEnables t ''office'' then []
     else [plainEnv ''OFFICE_URL'' (publicURL r (''office.'' @ tenantDomain r t)),
           plainEnv ''WOPI_SRC_BASE'' (inCluster ''kamara'' ns)])"

section \<open>Network policies\<close>

definition nameLabel :: string where
  "nameLabel = ''app.kubernetes.io/name''"

definition nameSelector :: "string \<Rightarrow> selector" where
  "nameSelector app = \<lparr>sl_MatchLabels = [(nameLabel, app)], sl_In = []\<rparr>"

definition kubeSystemSelector :: selector where
  "kubeSystemSelector = \<lparr>sl_MatchLabels = [(''kubernetes.io/metadata.name'', ''kube-system'')], sl_In = []\<rparr>"

definition openFGAConsumerSelector :: selector where
  "openFGAConsumerSelector = \<lparr>sl_MatchLabels = [], sl_In = [(nameLabel, map ca_Name (filter ca_NeedsOpenFGA catalog))]\<rparr>"

definition everyPod :: selector where
  "everyPod = \<lparr>sl_MatchLabels = [], sl_In = []\<rparr>"

definition traefikPeer :: peer where
  "traefikPeer = \<lparr>pe_Namespaces = Some kubeSystemSelector, pe_Pods = Some (nameSelector ''traefik'')\<rparr>"

definition podPeer :: "selector \<Rightarrow> peer" where
  "podPeer s = \<lparr>pe_Namespaces = None, pe_Pods = Some s\<rparr>"

definition dnsEgress :: policy_rule where
  "dnsEgress =
    \<lparr>pr_Peers = [\<lparr>pe_Namespaces = Some kubeSystemSelector, pe_Pods = Some \<lparr>sl_MatchLabels = [(''k8s-app'', ''kube-dns'')], sl_In = []\<rparr>\<rparr>],
     pr_Ports = [(UDP, 53), (TCP, 53)]\<rparr>"

definition appEgress :: "policy_rule list" where
  "appEgress = [\<lparr>pr_Peers = [podPeer everyPod], pr_Ports = []\<rparr>, dnsEgress, \<lparr>pr_Peers = [traefikPeer], pr_Ports = []\<rparr>]"

definition callerPeers :: "tenant \<Rightarrow> string \<Rightarrow> peer list" where
  "callerPeers t target = traefikPeer # map (\<lambda>c. podPeer (nameSelector c)) (enabledCallersOf t target)"

definition appPolicy :: "tenant \<Rightarrow> catalog_app \<Rightarrow> network_policy" where
  "appPolicy t app =
    \<lparr>np_Pods = nameSelector (ca_Name app),
     np_Ingress = [\<lparr>pr_Peers = callerPeers t (ca_Name app), pr_Ports = [(TCP, ca_Port app)]\<rparr>],
     np_Egress = appEgress\<rparr>"

definition openFGAPolicy :: network_policy where
  "openFGAPolicy =
    \<lparr>np_Pods = nameSelector ''openfga'',
     np_Ingress = [\<lparr>pr_Peers = [podPeer openFGAConsumerSelector], pr_Ports = [(TCP, 8080), (TCP, 8081)]\<rparr>],
     np_Egress = [\<lparr>pr_Peers = [podPeer everyPod], pr_Ports = []\<rparr>, dnsEgress]\<rparr>"

definition managedBy :: labels where
  "managedBy = [(''app.kubernetes.io/managed-by'', ''peristera-control-plane'')]"

definition policyKey :: "string \<Rightarrow> string \<Rightarrow> objkey" where
  "policyKey ns app = (NetworkPolicy, ns, ''np-'' @ app)"

text \<open>The policies of a tenant, in the order the loop makes them, with their keys.\<close>

definition tenantPolicies :: "tenant \<Rightarrow> string \<Rightarrow> (objkey \<times> network_policy) list" where
  "tenantPolicies t ns =
    map (\<lambda>app. (policyKey ns (ca_Name app), appPolicy t app)) (filter (provisioned t) catalog) @
    (if anyAppNeedsOpenFGA then [(policyKey ns ''openfga'', openFGAPolicy)] else [])"

definition ensureNetworkPolicies :: "tenant \<Rightarrow> string \<Rightarrow> ('z, unit) cp" where
  "ensureNetworkPolicies t ns =
    foreach (\<lambda>(k, p). createIfAbsent t k (mkObject managedBy (PNetworkPolicy p))) (tenantPolicies t ns)"

section \<open>What a set of policies allows\<close>

text \<open>
  A pod is its namespace and its labels. Selectors, peers and rules have the documented meaning: a peer without a
  namespace selector is in the policy's own namespace, a pod that some policy selects accepts only what a rule of
  such a policy admits, and a pod that no policy selects accepts everything. \<open>nsl\<close> gives the labels of a
  namespace.
\<close>

type_synonym pod = "string \<times> labels"

definition selects :: "selector \<Rightarrow> labels \<Rightarrow> bool" where
  "selects s ls \<longleftrightarrow>
     list_all (\<lambda>(k, v). map_of ls k = Some v) (sl_MatchLabels s) \<and>
     list_all (\<lambda>(k, vs). case map_of ls k of None \<Rightarrow> False | Some v \<Rightarrow> v \<in> set vs) (sl_In s)"

definition peerMatches :: "(string \<Rightarrow> labels) \<Rightarrow> string \<Rightarrow> pod \<Rightarrow> peer \<Rightarrow> bool" where
  "peerMatches nsl ns other p =
    (case (pe_Namespaces p, pe_Pods p) of
       (None, None) \<Rightarrow> False
     | (None, Some s) \<Rightarrow> fst other = ns \<and> selects s (snd other)
     | (Some n, None) \<Rightarrow> selects n (nsl (fst other))
     | (Some n, Some s) \<Rightarrow> selects n (nsl (fst other)) \<and> selects s (snd other))"

definition ruleAdmits :: "(string \<Rightarrow> labels) \<Rightarrow> string \<Rightarrow> pod \<Rightarrow> protocol \<times> int \<Rightarrow> policy_rule \<Rightarrow> bool" where
  "ruleAdmits nsl ns other port rule \<longleftrightarrow>
     (pr_Peers rule = [] \<or> list_ex (peerMatches nsl ns other) (pr_Peers rule)) \<and>
     (pr_Ports rule = [] \<or> port \<in> set (pr_Ports rule))"

definition mayReach :: "(string \<Rightarrow> labels) \<Rightarrow> string \<Rightarrow> network_policy list \<Rightarrow> labels \<Rightarrow> pod \<Rightarrow> protocol \<times> int \<Rightarrow> bool" where
  "mayReach nsl ns ps ls from port =
    (let mine = filter (\<lambda>p. selects (np_Pods p) ls) ps
     in mine = [] \<or> list_ex (\<lambda>p. list_ex (ruleAdmits nsl ns from port) (np_Ingress p)) mine)"

definition mayCall :: "(string \<Rightarrow> labels) \<Rightarrow> string \<Rightarrow> network_policy list \<Rightarrow> labels \<Rightarrow> pod \<Rightarrow> protocol \<times> int \<Rightarrow> bool" where
  "mayCall nsl ns ps ls to port =
    (let mine = filter (\<lambda>p. selects (np_Pods p) ls) ps
     in mine = [] \<or> list_ex (\<lambda>p. list_ex (ruleAdmits nsl ns to port) (np_Egress p)) mine)"

text \<open>Kubernetes labels every namespace with its name.\<close>

definition namesNamespaces :: "(string \<Rightarrow> labels) \<Rightarrow> bool" where
  "namesNamespaces nsl \<longleftrightarrow> (\<forall>n. map_of (nsl n) ''kubernetes.io/metadata.name'' = Some n)"

definition isApp :: "string \<Rightarrow> labels \<Rightarrow> bool" where
  "isApp name ls \<longleftrightarrow> map_of ls nameLabel = Some name"

lemma selects_simps [simp]:
  "selects (nameSelector a) ls = isApp a ls" "selects everyPod ls"
  "selects openFGAConsumerSelector ls = (\<exists>a \<in> set catalog. ca_NeedsOpenFGA a \<and> isApp (ca_Name a) ls)"
  by (auto simp: selects_def nameSelector_def everyPod_def openFGAConsumerSelector_def isApp_def split: option.split)

lemma selects_kubeSystem: "namesNamespaces nsl \<Longrightarrow> selects kubeSystemSelector (nsl n) \<longleftrightarrow> n = ''kube-system''"
  by (auto simp: namesNamespaces_def selects_def kubeSystemSelector_def)

lemma peer_simps:
  "namesNamespaces nsl \<Longrightarrow> peerMatches nsl ns other traefikPeer \<longleftrightarrow> fst other = ''kube-system'' \<and> isApp ''traefik'' (snd other)"
  "peerMatches nsl ns other (podPeer s) \<longleftrightarrow> fst other = ns \<and> selects s (snd other)"
  by (simp_all add: peerMatches_def traefikPeer_def podPeer_def selects_kubeSystem)

lemma isApp_unique: "isApp a ls \<Longrightarrow> isApp b ls \<longleftrightarrow> a = b"
  by (auto simp: isApp_def)

lemma catalog_names: "distinct (map ca_Name catalog)" "''openfga'' \<notin> ca_Name ` set catalog" "anyAppNeedsOpenFGA"
  by (simp_all add: catalog_def stubApp_def anyAppNeedsOpenFGA_def)

lemma catalog_name_inj: "a \<in> set catalog \<Longrightarrow> b \<in> set catalog \<Longrightarrow> ca_Name a = ca_Name b \<Longrightarrow> a = b"
  using catalog_names(1) by (meson distinct_map inj_onD)

text \<open>Among the policies of a tenant exactly one selects the pods of an app.\<close>

lemma selecting_policy:
  assumes app: "app \<in> set catalog" "provisioned t app" and ls: "isApp (ca_Name app) ls"
  shows "set (filter (\<lambda>p. selects (np_Pods p) ls) (map snd (tenantPolicies t ns))) = {appPolicy t app}"
proof -
  have "selects (np_Pods (appPolicy t a)) ls \<longleftrightarrow> a = app" if "a \<in> set catalog" for a
    using isApp_unique [OF ls, of "ca_Name a"] catalog_name_inj [OF app(1) that] by (auto simp: appPolicy_def)
  moreover have "\<not> selects (np_Pods openFGAPolicy) ls"
    using isApp_unique [OF ls, of "''openfga''"] catalog_names(2) app(1) by (auto simp: openFGAPolicy_def image_iff)
  ultimately show ?thesis using app catalog_names(3) by (auto simp: tenantPolicies_def)
qed

lemma selecting_openFGA:
  assumes ls: "isApp ''openfga'' ls"
  shows "set (filter (\<lambda>p. selects (np_Pods p) ls) (map snd (tenantPolicies t ns))) = {openFGAPolicy}"
proof -
  have "\<not> selects (np_Pods (appPolicy t a)) ls" if "a \<in> set catalog" for a
    using isApp_unique [OF ls, of "ca_Name a"] catalog_names(2) that by (auto simp: appPolicy_def)
  moreover have "selects (np_Pods openFGAPolicy) ls" using ls by (simp add: openFGAPolicy_def)
  ultimately show ?thesis using catalog_names(3) by (auto simp: tenantPolicies_def)
qed

lemma mayReach_one:
  assumes "set (filter (\<lambda>p. selects (np_Pods p) ls) ps) = {p}"
  shows "mayReach nsl ns ps ls from port \<longleftrightarrow> (\<exists>r \<in> set (np_Ingress p). ruleAdmits nsl ns from port r)"
proof -
  let ?f = "filter (\<lambda>p. selects (np_Pods p) ls) ps"
  have "?f \<noteq> []" using assms by (metis empty_set insert_not_empty)
  then show ?thesis using assms unfolding mayReach_def Let_def list_ex_iff by simp
qed

lemma mayCall_one:
  assumes "set (filter (\<lambda>p. selects (np_Pods p) ls) ps) = {p}"
  shows "mayCall nsl ns ps ls to port \<longleftrightarrow> (\<exists>r \<in> set (np_Egress p). ruleAdmits nsl ns to port r)"
proof -
  let ?f = "filter (\<lambda>p. selects (np_Pods p) ls) ps"
  have "?f \<noteq> []" using assms by (metis empty_set insert_not_empty)
  then show ?thesis using assms unfolding mayCall_def Let_def list_ex_iff by simp
qed

text \<open>The declared callers, as a set.\<close>

lemma set_enabledCallersOf:
  "set (enabledCallersOf t target) = {ca_Name a | a. a \<in> set catalog \<and> provisioned t a \<and> target \<in> set (ca_Calls a)}"
  by (auto simp: enabledCallersOf_def)

section \<open>The optional-app helpers\<close>

definition callerNames :: "peer list \<Rightarrow> string list" where
  "callerNames peers = concat (map (\<lambda>p.
     if pe_Namespaces p \<noteq> None then []
     else case pe_Pods p of
       None \<Rightarrow> []
     | Some s \<Rightarrow> (case map_of (sl_MatchLabels s) nameLabel of
           None \<Rightarrow> []
         | Some name \<Rightarrow> if name \<noteq> [] then [name] else [])) peers)"

definition withoutOfficeEnv :: "env_var list \<Rightarrow> env_var list" where
  "withoutOfficeEnv env = filter (\<lambda>e. \<not> (en_Name e = ''OFFICE_URL'' \<or> en_Name e = ''WOPI_SRC_BASE'')) env"

definition equalEnv :: "env_var list \<Rightarrow> env_var list \<Rightarrow> bool" where
  "equalEnv a b \<longleftrightarrow> length a = length b \<and> list_all2 (\<lambda>x y. en_Name x = en_Name y \<and> en_Value x = en_Value y) a b"

definition equalStringSet :: "string list \<Rightarrow> string list \<Rightarrow> bool" where
  "equalStringSet a b \<longleftrightarrow> card (set a) = card (set b) \<and> set a \<subseteq> set b"

lemma equalStringSet_iff: "equalStringSet a b \<longleftrightarrow> set a = set b"
  unfolding equalStringSet_def by (metis List.finite_set card_subset_eq order_refl)

lemma caller_name_nonempty: "c \<in> set (enabledCallersOf t target) \<Longrightarrow> c \<noteq> []"
proof -
  have "\<forall>a \<in> set catalog. ca_Name a \<noteq> []" by (simp add: catalog_def stubApp_def)
  then show "c \<in> set (enabledCallersOf t target) \<Longrightarrow> c \<noteq> []" by (auto simp: set_enabledCallersOf)
qed

lemma callerNames_callerPeers: "callerNames (callerPeers t target) = enabledCallersOf t target"
proof -
  have "(\<forall>c \<in> set cs. c \<noteq> []) \<Longrightarrow> callerNames (map (\<lambda>c. podPeer (nameSelector c)) cs) = cs" for cs
    by (induction cs) (simp_all add: callerNames_def podPeer_def nameSelector_def)
  then show ?thesis
    using caller_name_nonempty [of _ t target] by (simp add: callerPeers_def callerNames_def traefikPeer_def)
qed

lemma officeEnv_only: "withoutOfficeEnv (officeEnv r t ns) = []"
  by (simp add: withoutOfficeEnv_def officeEnv_def plainEnv_def)

section \<open>Properties\<close>

text \<open>C20. Under the network policies generated for a tenant the pods of an app it runs are reachable on the app's own TCP
  port only, and only from the ingress controller or, in the tenant's own namespace, from the pods of the
  catalog apps that are provisioned for this tenant and declare a call to it: nothing in another tenant's
  namespace, and no sibling that declares no call, gets through.\<close>

theorem app_ingress_exact:
  assumes "app \<in> set catalog" "provisioned t app" "isApp (ca_Name app) ls" "namesNamespaces nsl"
  shows "mayReach nsl ns (map snd (tenantPolicies t ns)) ls from port \<longleftrightarrow>
    port = (TCP, ca_Port app) \<and>
    (fst from = ''kube-system'' \<and> isApp ''traefik'' (snd from) \<or>
     fst from = ns \<and> (\<exists>a \<in> set catalog. provisioned t a \<and> ca_Name app \<in> set (ca_Calls a) \<and> isApp (ca_Name a) (snd from)))"
proof -
  have "mayReach nsl ns (map snd (tenantPolicies t ns)) ls from port \<longleftrightarrow>
      port = (TCP, ca_Port app) \<and> (\<exists>p \<in> set (callerPeers t (ca_Name app)). peerMatches nsl ns from p)"
    unfolding mayReach_one [OF selecting_policy [OF assms(1-3)]]
    by (auto simp: appPolicy_def ruleAdmits_def list_ex_iff callerPeers_def)
  also have "(\<exists>p \<in> set (callerPeers t (ca_Name app)). peerMatches nsl ns from p) \<longleftrightarrow>
      fst from = ''kube-system'' \<and> isApp ''traefik'' (snd from) \<or>
      fst from = ns \<and> (\<exists>c \<in> set (enabledCallersOf t (ca_Name app)). isApp c (snd from))"
    by (auto simp: callerPeers_def peer_simps(1) [OF assms(4)] peer_simps(2))
  finally show ?thesis by (auto simp: set_enabledCallersOf)
qed

text \<open>The tenant's authorization server is reachable from the apps that use it and from nothing else.\<close>

lemma openFGA_ingress:
  assumes "isApp ''openfga'' ls"
  shows "mayReach nsl ns (map snd (tenantPolicies t ns)) ls from port \<longleftrightarrow>
    port \<in> {(TCP, 8080), (TCP, 8081)} \<and> fst from = ns \<and> (\<exists>a \<in> set catalog. ca_NeedsOpenFGA a \<and> isApp (ca_Name a) (snd from))"
  unfolding mayReach_one [OF selecting_openFGA [OF assms]]
  by (auto simp: openFGAPolicy_def ruleAdmits_def peer_simps(2))

text \<open>An app's pods can open connections within the tenant's namespace, to the ingress controller and to the DNS.\<close>

lemma dns_rule:
  "namesNamespaces nsl \<Longrightarrow> ruleAdmits nsl ns to port dnsEgress \<Longrightarrow>
   fst to = ''kube-system'' \<and> map_of (snd to) ''k8s-app'' = Some ''kube-dns'' \<and> snd port = 53"
  using selects_kubeSystem [of nsl "fst to"]
  by (auto simp: ruleAdmits_def dnsEgress_def peerMatches_def) (auto simp: selects_def)

lemma app_egress:
  assumes "app \<in> set catalog" "provisioned t app" "isApp (ca_Name app) ls" "namesNamespaces nsl"
    and "mayCall nsl ns (map snd (tenantPolicies t ns)) ls to port"
  shows "fst to = ns \<or> fst to = ''kube-system'' \<and>
    (isApp ''traefik'' (snd to) \<or> map_of (snd to) ''k8s-app'' = Some ''kube-dns'' \<and> snd port = 53)"
proof -
  have peers: "ruleAdmits nsl ns to port \<lparr>pr_Peers = [p], pr_Ports = []\<rparr> \<longleftrightarrow> peerMatches nsl ns to p" for p
    by (simp add: ruleAdmits_def)
  have "peerMatches nsl ns to (podPeer everyPod) \<or> ruleAdmits nsl ns to port dnsEgress \<or> peerMatches nsl ns to traefikPeer"
    using assms(5) unfolding mayCall_one [OF selecting_policy [OF assms(1-3)]] by (auto simp: appPolicy_def appEgress_def peers)
  then show ?thesis
    using dns_rule [OF assms(4), of ns to port] peer_simps(1) [OF assms(4), of ns to] peer_simps(2) [of nsl ns to everyPod] by blast
qed

section \<open>Hosts\<close>

text \<open>The hosts a tenant's ingresses claim: that of the issuer and one for every app it runs.\<close>

definition appHost :: "reconciler \<Rightarrow> tenant \<Rightarrow> catalog_app \<Rightarrow> string" where
  "appHost r t app = ca_Name app @ ''.'' @ tenantDomain r t"

definition tenantHosts :: "reconciler \<Rightarrow> tenant \<Rightarrow> string list" where
  "tenantHosts r t = instanceDomain r t # map (appHost r t) (filter (provisioned t) catalog)"

text \<open>A tenant on the platform's own domain: no custom domain, and an issuer (once it has one) on its slug host.\<close>

definition onPlatform :: "reconciler \<Rightarrow> tenant \<Rightarrow> bool" where
  "onPlatform r t \<longleftrightarrow>
     ValidSlug (ts_Slug (tn_Spec t)) \<and> ts_Domain (tn_Spec t) = [] \<and>
     (st_Issuer (tn_Status t) = [] \<or> st_Issuer (tn_Status t) = publicURL r (issuerHost r t))"

lemma onPlatform_domains:
  "rcOK r \<Longrightarrow> onPlatform r t \<Longrightarrow> tenantDomain r t = issuerHost r t \<and> instanceDomain r t = issuerHost r t"
  using hostOf_publicURL [of r "issuerHost r t"] dnsHost_issuerHost [of r t]
  by (auto simp: onPlatform_def tenantDomain_def instanceDomain_def issuerHost_def hostOf_def Let_def)

lemma first_label: "CHR ''.'' \<notin> set a \<Longrightarrow> CHR ''.'' \<notin> set b \<Longrightarrow> a @ CHR ''.'' # x = b @ CHR ''.'' # y \<longleftrightarrow> a = b \<and> x = y"
proof (induction a arbitrary: b)
  case Nil
  then show ?case by (cases b) auto
next
  case (Cons c a)
  then show ?case by (cases b) auto
qed

lemma catalog_no_dot: "a \<in> set catalog \<Longrightarrow> CHR ''.'' \<notin> set (ca_Name a)"
  by (auto simp: catalog_def stubApp_def)

text \<open>C23. Two tenants with different slugs that live on the platform's domain never claim the same host: no issuer host or
  app host of one is an issuer host or app host of the other.\<close>

theorem tenant_hosts_disjoint:
  assumes "rcOK r" "onPlatform r t" "onPlatform r u" "ts_Slug (tn_Spec t) \<noteq> ts_Slug (tn_Spec u)"
  shows "set (tenantHosts r t) \<inter> set (tenantHosts r u) = {}"
proof -
  note dom = onPlatform_domains [OF assms(1,2)] onPlatform_domains [OF assms(1,3)]
  have slugs: "CHR ''.'' \<notin> set (ts_Slug (tn_Spec t))" "CHR ''.'' \<notin> set (ts_Slug (tn_Spec u))"
    using assms(2,3) ValidSlug_no_dot by (auto simp: onPlatform_def)
  have hosts: "h \<in> set (tenantHosts r v) \<Longrightarrow> h = issuerHost r v \<or> (\<exists>a \<in> set catalog. h = ca_Name a @ CHR ''.'' # issuerHost r v)"
    if "onPlatform r v" for h v
    using onPlatform_domains [OF assms(1) that] by (auto simp: tenantHosts_def appHost_def)
  have iss: "issuerHost r v = ts_Slug (tn_Spec v) @ CHR ''.'' # rc_BaseDomain r" for v by (simp add: issuerHost_def)
  have long: "rc_BaseDomain r \<noteq> ts_Slug (tn_Spec v) @ CHR ''.'' # rc_BaseDomain r" for v
    by (metis add_cancel_right_left append_self_conv2 append_Cons append_assoc list.distinct(1) append_eq_append_conv self_append_conv2)
  show ?thesis
  proof (rule ccontr)
    assume "set (tenantHosts r t) \<inter> set (tenantHosts r u) \<noteq> {}"
    then obtain h where "h \<in> set (tenantHosts r t)" "h \<in> set (tenantHosts r u)" by blast
    then show False
      using hosts [OF assms(2), of h] hosts [OF assms(3), of h] assms(4) slugs catalog_no_dot long
      by (auto simp: iss first_label)
  qed
qed

text \<open>
  A custom domain is checked for its form only: a tenant may name the domain of another one, and then claims its
  app hosts.
\<close>

lemma custom_domain_collides:
  assumes "rcOK r" "onPlatform r u" "ts_Domain (tn_Spec t) = issuerHost r u" "st_Issuer (tn_Status t) = []"
    and "a \<in> set catalog"
  shows "appHost r t a = appHost r u a"
  using onPlatform_domains [OF assms(1,2)] assms(3,4) by (simp add: appHost_def tenantDomain_def hostOf_def issuerHost_def)

section \<open>Examples\<close>

definition demoHostname :: "string \<Rightarrow> string option" where
  "demoHostname u = Some (takeWhile (\<lambda>c. c \<noteq> CHR '':'' \<and> c \<noteq> CHR ''/'') (drop 3 (dropWhile (\<lambda>c. c \<noteq> CHR '':'') u)))"

lemma demoHostname_ok: "parsesHosts demoHostname"
proof -
  have host: "takeWhile (\<lambda>c. c \<noteq> CHR '':'' \<and> c \<noteq> CHR ''/'') (h @ s) = h" if "dnsHost h" "s = [] \<or> hd s = CHR '':''" for h s
  proof -
    have "\<not> lowerNumDash (CHR '':'')" "\<not> lowerNumDash (CHR ''/'')" by (simp_all add: lowerNumDash_def lowerNum_def of_char_def)
    then have "\<forall>c \<in> set h. c \<noteq> CHR '':'' \<and> c \<noteq> CHR ''/''" using that(1) by (auto simp: dnsHost_def list_all_iff)
    then show ?thesis using that(2) by (cases s) (auto simp: takeWhile_append2)
  qed
  show ?thesis unfolding parsesHosts_def demoHostname_def using host [of _ "[]"] host [of _ "CHR '':'' # _"] by auto
qed

definition demoRC :: reconciler where
  "demoRC = \<lparr>rc_BaseDomain = ''peristera.example'', rc_ExternalPort = ''443'', rc_ImagePrefix = [], rc_ImageTag = [],
     rc_URLScheme = ''https'', rc_TLSIssuer = ''letsencrypt'', rc_HTTP01Issuer = ''letsencrypt-http'', rc_LoginDomain = ''iam.peristera.example'',
     rc_BackupBucket = [], rc_BackupEndpoint = [], rc_BackupS3KeyID = [], rc_BackupS3Secret = [], rc_BackupRegion = [],
     rc_BackupAgeRecipient = [], rc_BackupHeartbeat = [], rc_hostname = demoHostname\<rparr>"

lemma demoRC_ok: "rcOK demoRC"
  by (simp add: rcOK_def demoRC_def demoHostname_ok isDecimal_def dnsHost_def lowerNumDash_def lowerNum_def of_char_def)

definition newTenant :: "string \<Rightarrow> string list \<Rightarrow> tenant" where
  "newTenant slug apps = \<lparr>tn_Name = slug, tn_Generation = 1, tn_Deleting = False, tn_Finalizers = [],
     tn_Spec = \<lparr>ts_Slug = slug, ts_DisplayName = [], ts_Domain = [], ts_Apps = apps\<rparr>, tn_Status = emptyStatus\<rparr>"

definition demoLabels :: "string \<Rightarrow> labels" where
  "demoLabels n = [(''kubernetes.io/metadata.name'', n)]"

lemma ValidSlug_demo: "ValidSlug ''acme''" "ValidSlug ''beta''"
  unfolding ValidSlug_def MatchString_lang slug_label
  by (simp_all add: lowerNumDash_def lowerNum_def of_char_def)

theorem app_ingress_exact_witness:
  "\<not> mayReach demoLabels ''tenant-acme'' (map snd (tenantPolicies (newTenant ''acme'' []) ''tenant-acme''))
     [(nameLabel, ''kamara'')] (''tenant-acme'', [(nameLabel, ''office'')]) (TCP, 5580)"
proof -
  let ?k = "stubApp\<lparr>ca_Name := ''kamara'', ca_Port := 5580, ca_NeedsDatabase := True, ca_NeedsOpenFGA := True, ca_NeedsBlob := True, ca_NeedsDEK := True\<rparr>"
  have k: "?k \<in> set catalog" by (simp add: catalog_def)
  have p: "provisioned (newTenant ''acme'' []) ?k" by (simp add: provisioned_def stubApp_def)
  have l: "isApp (ca_Name ?k) [(nameLabel, ''kamara'')]" by (simp add: isApp_def)
  have n: "namesNamespaces demoLabels" by (simp add: namesNamespaces_def demoLabels_def)
  show ?thesis
    using app_ingress_exact [OF k p l n, of "''tenant-acme''" "(''tenant-acme'', [(nameLabel, ''office'')])" "(TCP, 5580)"]
    by (simp add: isApp_def catalog_def stubApp_def provisioned_def tenantEnables_def newTenant_def)
qed

theorem tenant_hosts_disjoint_witness:
  "set (tenantHosts demoRC (newTenant ''acme'' [])) \<inter> set (tenantHosts demoRC (newTenant ''beta'' [''office''])) = {}"
  by (rule tenant_hosts_disjoint [OF demoRC_ok])
     (simp_all add: onPlatform_def newTenant_def emptyStatus_def ValidSlug_demo)

end
