(* ===== verification/Provision.thy ===== *)
theory Provision
  imports Catalog Zitadel
begin

text \<open>
  What the reconciler creates for a tenant: ingresses and certificates (\<open>ingress.go\<close>), backups (\<open>backup.go\<close>),
  databases, keys, volumes and the authorization server (\<open>infra.go\<close>), the office engine (\<open>office.go\<close>) and the
  catalog apps (\<open>ensureApps\<close> of \<open>apps.go\<close>), all under \<open>control-plane/internal/controller\<close>. Provisioning is create-only but
  for the backup credentials.
\<close>

section \<open>Ingresses\<close>

definition platformNamespace :: string where
  "platformNamespace = ''peristera-system''"

definition tlsEnabled :: "reconciler \<Rightarrow> bool" where
  "tlsEnabled r \<longleftrightarrow> rc_TLSIssuer r \<noteq> []"

definition issuerForHost :: "reconciler \<Rightarrow> string \<Rightarrow> string" where
  "issuerForHost r host =
    (if rc_HTTP01Issuer r = [] \<or> host = rc_BaseDomain r \<or> HasSuffix host (CHR ''.'' # rc_BaseDomain r)
     then rc_TLSIssuer r else rc_HTTP01Issuer r)"

definition ingressAnnotations :: "reconciler \<Rightarrow> string \<Rightarrow> labels" where
  "ingressAnnotations r host = (if \<not> tlsEnabled r then [] else [(''cert-manager.io/cluster-issuer'', issuerForHost r host)])"

definition ingressTLS :: "reconciler \<Rightarrow> string \<Rightarrow> string \<Rightarrow> (string list \<times> string) list" where
  "ingressTLS r host secretName = (if \<not> tlsEnabled r then [] else [([host], secretName)])"

definition issuerIngress :: "reconciler \<Rightarrow> tenant \<Rightarrow> objkey \<times> kobject" where
  "issuerIngress r t =
    (let host = instanceDomain r t; name = ''tenant-'' @ ts_Slug (tn_Spec t) @ ''-issuer'' in
     ((Ingress, platformNamespace, name),
      \<lparr>ob_Labels = managedBy @ [(''peristera.io/tenant'', tn_Name t)], ob_Annotations = ingressAnnotations r host, ob_Controller = None,
       ob_Payload = PIngress \<lparr>ig_Class = ''traefik'', ig_TLS = ingressTLS r host (name @ ''-tls''),
         ig_Rules = [(host, [(''/ui/v2/login'', ''zitadel-login'', 3000), (''/'', ''zitadel'', 8080)])]\<rparr>\<rparr>))"

definition ensureIssuerIngress :: "reconciler \<Rightarrow> tenant \<Rightarrow> ('z, unit) cp" where
  "ensureIssuerIngress r t =
    (if \<not> tlsEnabled r then ret () else case issuerIngress r t of (k, ob) \<Rightarrow> createIfAbsent t k ob)"

section \<open>Backups\<close>

definition backupCredsSecret :: string where
  "backupCredsSecret = ''backup-s3''"

definition backupsEnabled :: "reconciler \<Rightarrow> bool" where
  "backupsEnabled r \<longleftrightarrow> rc_BackupBucket r \<noteq> []"

definition secretRef :: "string \<Rightarrow> string \<Rightarrow> json" where
  "secretRef name key = JObj [(''name'', JStr name), (''key'', JStr key)]"

definition barmanBackup :: "reconciler \<Rightarrow> string \<Rightarrow> json option" where
  "barmanBackup r slug =
    (if \<not> backupsEnabled r then None
     else Some (JObj [(''retentionPolicy'', JStr ''7d''),
       (''barmanObjectStore'', JObj [
          (''destinationPath'', JStr (''s3://'' @ rc_BackupBucket r @ ''/tenants/'' @ slug)),
          (''endpointURL'', JStr (rc_BackupEndpoint r)),
          (''s3Credentials'', JObj [(''accessKeyId'', secretRef backupCredsSecret ''ACCESS_KEY_ID''),
                                    (''secretAccessKey'', secretRef backupCredsSecret ''ACCESS_SECRET_KEY'')]),
          (''wal'', JObj [(''compression'', JStr ''gzip'')]),
          (''data'', JObj [(''compression'', JStr ''gzip'')])])]))"

definition secretData :: "kobject \<Rightarrow> labels" where
  "secretData ob = (case ob_Payload ob of PSecret kv \<Rightarrow> kv | _ \<Rightarrow> [])"

text \<open>Reading a key of a Go map: the empty value when it is missing.\<close>

definition entryOf :: "labels \<Rightarrow> string \<Rightarrow> string" where
  "entryOf kv k = (case map_of kv k of None \<Rightarrow> [] | Some v \<Rightarrow> v)"

definition ensureBackupCreds :: "reconciler \<Rightarrow> tenant \<Rightarrow> string \<Rightarrow> ('z, unit) cp" where
  "ensureBackupCreds r t ns =
    (if \<not> backupsEnabled r then ret ()
     else
       let k = (Secret, ns, backupCredsSecret);
           want = [(''ACCESS_KEY_ID'', rc_BackupS3KeyID r), (''ACCESS_SECRET_KEY'', rc_BackupS3Secret r)]
       in attempt (kubeGet k)
         (\<lambda>e. if e \<noteq> ErrAbsent then fail e else setOwnerAndCreate t k (mkObject [] (PSecret want)))
         (\<lambda>sec. if entryOf (secretData sec) ''ACCESS_KEY_ID'' = rc_BackupS3KeyID r \<and>
                   entryOf (secretData sec) ''ACCESS_SECRET_KEY'' = rc_BackupS3Secret r
                then ret ()
                else kubeUpdate k (sec\<lparr>ob_Payload := PSecret want\<rparr>)))"

definition ensureScheduledBackup :: "reconciler \<Rightarrow> tenant \<Rightarrow> string \<Rightarrow> ('z, unit) cp" where
  "ensureScheduledBackup r t ns =
    (if \<not> backupsEnabled r then ret ()
     else createIfAbsent t (ScheduledBackup, ns, ''db'')
       (mkObject [] (PUnstructured (JObj [(''schedule'', JStr ''0 0 3 * * *''), (''backupOwnerReference'', JStr ''self''),
          (''cluster'', JObj [(''name'', JStr ''db'')])]))))"

definition blobBackupsEnabled :: "reconciler \<Rightarrow> bool" where
  "blobBackupsEnabled r \<longleftrightarrow> backupsEnabled r \<and> rc_BackupAgeRecipient r \<noteq> []"

definition backupImage :: "reconciler \<Rightarrow> string" where
  "backupImage r =
    (if rc_ImagePrefix r = [] then ''peristera-'' else rc_ImagePrefix r) @ ''backup:'' @
    (if rc_ImageTag r = [] then ''dev'' else rc_ImageTag r)"

definition fromSecret :: "string \<Rightarrow> string \<Rightarrow> string \<Rightarrow> env_var" where
  "fromSecret n secret key = \<lparr>en_Name = n, en_Value = [], en_From = Some (secret, key)\<rparr>"

definition lockedDown :: sec_context where
  "lockedDown = \<lparr>sc_PrivilegeEscalation = Some False, sc_ReadOnlyRoot = Some True, sc_Drop = [''ALL''], sc_Add = []\<rparr>"

definition plainContainer :: "string \<Rightarrow> string \<Rightarrow> container" where
  "plainContainer name img = \<lparr>cn_Name = name, cn_Image = img, cn_Command = [], cn_Ports = [], cn_Env = [], cn_Mounts = [],
     cn_Probe = None, cn_Security = None, cn_Resources = []\<rparr>"

definition blobBackupCronJob :: "reconciler \<Rightarrow> tenant \<Rightarrow> string \<Rightarrow> catalog_app \<Rightarrow> objkey \<times> kobject" where
  "blobBackupCronJob r t ns app =
    (let vars =
       [plainEnv ''BACKUP_BUCKET'' (rc_BackupBucket r), plainEnv ''BACKUP_PREFIX'' (''tenants/'' @ ts_Slug (tn_Spec t)),
        plainEnv ''BACKUP_ENDPOINT'' (rc_BackupEndpoint r), plainEnv ''BACKUP_REGION'' (rc_BackupRegion r),
        plainEnv ''AGE_RECIPIENT'' (rc_BackupAgeRecipient r), plainEnv ''BLOB_DIR'' ''/mnt/blob'', plainEnv ''HOME'' ''/tmp'',
        fromSecret ''ACCESS_KEY_ID'' backupCredsSecret ''ACCESS_KEY_ID'',
        fromSecret ''ACCESS_SECRET_KEY'' backupCredsSecret ''ACCESS_SECRET_KEY''] @
       (if rc_BackupHeartbeat r \<noteq> [] then [plainEnv ''HEARTBEAT_URL'' (rc_BackupHeartbeat r)] else []) @
       (if ca_NeedsDEK app then [plainEnv ''ESCROW_DIR'' ''/mnt/escrow''] else []);
         volumes =
       [\<lparr>vo_Name = ''blob'', vo_Source = VolPVC (ca_Name app @ ''-blob'') True\<rparr>, \<lparr>vo_Name = ''tmp'', vo_Source = VolEmptyDir\<rparr>] @
       (if ca_NeedsDEK app then [\<lparr>vo_Name = ''dek'', vo_Source = VolSecret (ca_Name app @ ''-dek'') []\<rparr>] else []);
         mounts =
       [\<lparr>vm_Name = ''blob'', vm_Path = ''/mnt/blob'', vm_ReadOnly = True\<rparr>, \<lparr>vm_Name = ''tmp'', vm_Path = ''/tmp'', vm_ReadOnly = False\<rparr>] @
       (if ca_NeedsDEK app then [\<lparr>vm_Name = ''dek'', vm_Path = ''/mnt/escrow/'' @ ca_Name app @ ''-dek'', vm_ReadOnly = True\<rparr>] else []);
         pod = \<lparr>ps_Labels = [], ps_RunAsNonRoot = True, ps_RunAsUser = Some 65532, ps_RunAsGroup = Some 65532, ps_FSGroup = None,
                ps_SeccompDefault = True, ps_AutomountToken = False, ps_InitContainers = [],
                ps_Containers = [(plainContainer ''backup'' (backupImage r))\<lparr>cn_Env := vars, cn_Mounts := mounts, cn_Security := Some lockedDown\<rparr>],
                ps_Volumes = volumes\<rparr>
     in ((CronJob, ns, ca_Name app @ ''-blob-backup''),
         mkObject [] (PCronJob \<lparr>cj_Schedule = ''30 3 * * *'', cj_Forbid = True, cj_BackoffLimit = 2, cj_Deadline = 4 * 60 * 60, cj_Template = pod\<rparr>)))"

definition ensureBlobBackup :: "reconciler \<Rightarrow> tenant \<Rightarrow> string \<Rightarrow> catalog_app \<Rightarrow> ('z, unit) cp" where
  "ensureBlobBackup r t ns app =
    (if \<not> blobBackupsEnabled r then ret () else case blobBackupCronJob r t ns app of (k, ob) \<Rightarrow> createIfAbsent t k ob)"

section \<open>Databases\<close>

text \<open>\<open>url.UserPassword\<close> in \<open>URL.String\<close>; host and path are made of characters that need no escape.\<close>

definition passwordChar :: "char \<Rightarrow> bool" where
  "passwordChar c \<longleftrightarrow> unreserved c \<or> c \<in> set ''$&+,;=''"

primrec escapeUserPassword :: "string \<Rightarrow> string" where
  "escapeUserPassword [] = []"
| "escapeUserPassword (c # cs) =
    (if passwordChar c then [c] else [CHR ''%'', upperHex (of_char c div 16), upperHex (of_char c mod 16)]) @ escapeUserPassword cs"

definition dsnURL :: "string \<Rightarrow> string \<Rightarrow> string \<Rightarrow> string" where
  "dsnURL ns app pw =
    ''postgresql://app:'' @ escapeUserPassword pw @ ''@db-rw.'' @ ns @ ''.svc.cluster.local:5432/'' @ app @ ''?sslmode=require''"

definition ensureDSNSecret :: "tenant \<Rightarrow> string \<Rightarrow> string \<Rightarrow> ('z, unit) cp" where
  "ensureDSNSecret t ns app =
    ifAbsent (Secret, ns, app @ ''-db-dsn'')
      (bnd (kubeGet (Secret, ns, ''db-app'')) (\<lambda>creds.
       setOwnerAndCreate t (Secret, ns, app @ ''-db-dsn'')
         (mkObject [] (PSecret [(''dsn'', dsnURL ns app (entryOf (secretData creds) ''password''))]))))"

definition ensureAppDatabase :: "tenant \<Rightarrow> string \<Rightarrow> string \<Rightarrow> ('z, unit) cp" where
  "ensureAppDatabase t ns app =
    bnd (createIfAbsent t (Database, ns, app @ ''-db'')
          (mkObject [] (PUnstructured (JObj [(''cluster'', JObj [(''name'', JStr ''db'')]), (''name'', JStr app), (''owner'', JStr ''app'')]))))
      (\<lambda>_. ensureDSNSecret t ns app)"

definition ensureDatabase :: "reconciler \<Rightarrow> tenant \<Rightarrow> string \<Rightarrow> ('z, unit) cp" where
  "ensureDatabase r t ns =
    bnd (ensureBackupCreds r t ns) (\<lambda>_.
    bnd (createIfAbsent t (Cluster, ns, ''db'')
          (mkObject [] (PUnstructured (JObj
            ([(''instances'', JNum 1), (''storage'', JObj [(''size'', JStr ''1Gi'')]),
              (''smartShutdownTimeout'', JNum 10), (''stopDelay'', JNum 30)] @
             (case barmanBackup r (ts_Slug (tn_Spec t)) of None \<Rightarrow> [] | Some b \<Rightarrow> [(''backup'', b)]))))))
      (\<lambda>_. ensureScheduledBackup r t ns))"

definition ensureNamespace :: "tenant \<Rightarrow> string \<Rightarrow> ('z, unit) cp" where
  "ensureNamespace t name =
    createIfAbsent t (Namespace, [], name) (mkObject (managedBy @ [(''peristera.io/tenant'', tn_Name t)]) PNamespace)"

section \<open>Keys and volumes\<close>

definition blobVolumeSize :: string where
  "blobVolumeSize = ''10Gi''"

definition dekKeySize :: nat where
  "dekKeySize = 32"

definition dekFileName :: string where
  "dekFileName = ''dek''"

definition ensureBlob :: "tenant \<Rightarrow> string \<Rightarrow> string \<Rightarrow> ('z, unit) cp" where
  "ensureBlob t ns app = createIfAbsent t (VolumeClaim, ns, app @ ''-blob'') (mkObject [] (PVolumeClaim [''ReadWriteOnce''] blobVolumeSize))"

definition dekKey :: "string \<Rightarrow> string \<Rightarrow> objkey" where
  "dekKey ns app = (Secret, ns, app @ ''-dek'')"

definition ensureDEK :: "tenant \<Rightarrow> string \<Rightarrow> string \<Rightarrow> ('z, unit) cp" where
  "ensureDEK t ns app =
    ifAbsent (dekKey ns app)
      (bnd (randRead dekKeySize) (\<lambda>key.
       setOwnerAndCreate t (dekKey ns app) (mkObject [] (PSecret [(dekFileName, stdEncode key)]))))"

definition openFGAKeySecret :: string where
  "openFGAKeySecret = ''openfga-authn-key''"

definition openFGAKeyField :: string where
  "openFGAKeyField = ''token''"

definition ensureOpenFGAKey :: "tenant \<Rightarrow> string \<Rightarrow> ('z, unit) cp" where
  "ensureOpenFGAKey t ns =
    ifAbsent (Secret, ns, openFGAKeySecret)
      (bnd (randRead 32) (\<lambda>key.
       setOwnerAndCreate t (Secret, ns, openFGAKeySecret) (mkObject [] (PSecret [(openFGAKeyField, rawURLEncode key)]))))"

definition s2sKeyFileName :: string where
  "s2sKeyFileName = ''key.json''"

definition ensureS2SIdentity :: "'z zitadel \<Rightarrow> tenant \<Rightarrow> string \<Rightarrow> string \<Rightarrow> string \<Rightarrow> ('z, unit) cp" where
  "ensureS2SIdentity z t ns org app =
    ifAbsent (Secret, ns, app @ ''-s2s-key'')
      (bnd (EnsureS2SClient z (st_Issuer (tn_Status t)) org (app @ ''-s2s'')) (\<lambda>(_, appID).
       bnd (AddAppKey z (st_Issuer (tn_Status t)) org appID) (\<lambda>keyJSON.
       setOwnerAndCreate t (Secret, ns, app @ ''-s2s-key'') (mkObject [] (PSecret [(s2sKeyFileName, stringOf keyJSON)])))))"

section \<open>The authorization server\<close>

definition appLabels :: "string \<Rightarrow> labels" where
  "appLabels name = (nameLabel, name) # managedBy"

definition openFGAImage :: string where
  "openFGAImage = ''openfga/openfga:v1.8.0''"

definition plainPod :: "labels \<Rightarrow> pod_spec" where
  "plainPod ls = \<lparr>ps_Labels = ls, ps_RunAsNonRoot = False, ps_RunAsUser = None, ps_RunAsGroup = None, ps_FSGroup = None,
     ps_SeccompDefault = False, ps_AutomountToken = True, ps_InitContainers = [], ps_Containers = [], ps_Volumes = []\<rparr>"

definition createAll :: "tenant \<Rightarrow> (objkey \<times> kobject) list \<Rightarrow> ('z, unit) cp" where
  "createAll t obs = foreach (\<lambda>(k, ob). createIfAbsent t k ob) obs"

definition openFGADeployment :: deployment where
  "openFGADeployment =
    (let dsn = fromSecret ''OPENFGA_DATASTORE_URI'' ''openfga-db-dsn'' ''dsn'';
         engine = plainEnv ''OPENFGA_DATASTORE_ENGINE'' ''postgres'';
         method = plainEnv ''OPENFGA_AUTHN_METHOD'' ''preshared'';
         keys = fromSecret ''OPENFGA_AUTHN_PRESHARED_KEYS'' openFGAKeySecret openFGAKeyField
     in \<lparr>dp_Replicas = None, dp_Selector = appLabels ''openfga'', dp_Recreate = False,
         dp_Template = (plainPod (appLabels ''openfga''))
           \<lparr>ps_InitContainers := [(plainContainer ''migrate'' openFGAImage)\<lparr>cn_Command := [''/openfga'', ''migrate''], cn_Env := [engine, dsn]\<rparr>],
            ps_Containers := [(plainContainer ''openfga'' openFGAImage)
              \<lparr>cn_Command := [''/openfga'', ''run''], cn_Env := [engine, dsn, method, keys], cn_Ports := [8080, 8081],
               cn_Probe := Some (''/healthz'', 8080)\<rparr>]\<rparr>\<rparr>)"

definition ensureOpenFGA :: "tenant \<Rightarrow> string \<Rightarrow> ('z, unit) cp" where
  "ensureOpenFGA t ns =
    bnd (ensureAppDatabase t ns ''openfga'') (\<lambda>_.
    bnd (ensureOpenFGAKey t ns) (\<lambda>_.
    createAll t
      [((Deployment, ns, ''openfga''), mkObject (appLabels ''openfga'') (PDeployment openFGADeployment)),
       ((Service, ns, ''openfga''), mkObject (appLabels ''openfga'')
          (PService \<lparr>se_Selector = appLabels ''openfga'', se_Ports = [(''http'', 8080, 8080), (''grpc'', 8081, 8081)]\<rparr>))]))"

section \<open>The office engine\<close>

definition boolText :: "bool \<Rightarrow> string" where
  "boolText b = (if b then ''true'' else ''false'')"

definition officeDeployment :: "reconciler \<Rightarrow> tenant \<Rightarrow> string \<Rightarrow> catalog_app \<Rightarrow> labels \<Rightarrow> deployment" where
  "officeDeployment r t ns app ls =
    (let kamaraOrigin = publicURL r (''kamara.'' @ tenantDomain r t);
         vars =
       [plainEnv ''aliasgroup1'' (inCluster ''kamara'' ns),
        plainEnv ''extra_params'' (''--o:ssl.enable=false --o:ssl.termination='' @ boolText (tlsEnabled r) @
          '' --o:net.frame_ancestors='' @ kamaraOrigin @ '' --o:admin_console.enable=false''),
        plainEnv ''DONT_GEN_SSL_CERT'' ''1'']
     in \<lparr>dp_Replicas = Some 1, dp_Selector = ls, dp_Recreate = False,
         dp_Template = (plainPod ls)
           \<lparr>ps_SeccompDefault := True,
            ps_Containers := [(plainContainer (ca_Name app) (imageFor r app))
              \<lparr>cn_Ports := [ca_Port app], cn_Env := vars,
               cn_Security := Some \<lparr>sc_PrivilegeEscalation = None, sc_ReadOnlyRoot = None, sc_Drop = [],
                 sc_Add = [''MKNOD'', ''SYS_CHROOT'', ''FOWNER'', ''CHOWN'', ''SYS_ADMIN'']\<rparr>,
               cn_Resources := [(''requests.cpu'', ''250m''), (''requests.memory'', ''640Mi''), (''limits.cpu'', ''2''), (''limits.memory'', ''2Gi'')]\<rparr>]\<rparr>\<rparr>)"

text \<open>The service and the ingress of an app, the same for the engine and for the catalog apps.\<close>

definition appService :: "catalog_app \<Rightarrow> kobject" where
  "appService app =
    mkObject (appLabels (ca_Name app)) (PService \<lparr>se_Selector = appLabels (ca_Name app), se_Ports = [([], 80, ca_Port app)]\<rparr>)"

definition appIngress :: "reconciler \<Rightarrow> catalog_app \<Rightarrow> string \<Rightarrow> kobject" where
  "appIngress r app host =
    \<lparr>ob_Labels = appLabels (ca_Name app), ob_Annotations = ingressAnnotations r host, ob_Controller = None,
     ob_Payload = PIngress \<lparr>ig_Class = ''traefik'', ig_TLS = ingressTLS r host (ca_Name app @ ''-tls''),
       ig_Rules = [(host, [(''/'', ca_Name app, 80)])]\<rparr>\<rparr>"

definition appObjects :: "reconciler \<Rightarrow> tenant \<Rightarrow> string \<Rightarrow> catalog_app \<Rightarrow> deployment \<Rightarrow> (objkey \<times> kobject) list" where
  "appObjects r t ns app d =
    [((Deployment, ns, ca_Name app), mkObject (appLabels (ca_Name app)) (PDeployment d)),
     ((Service, ns, ca_Name app), appService app),
     ((Ingress, ns, ca_Name app), appIngress r app (appHost r t app))]"

definition ensureOffice :: "reconciler \<Rightarrow> tenant \<Rightarrow> string \<Rightarrow> catalog_app \<Rightarrow> ('z, unit) cp" where
  "ensureOffice r t ns app =
    createAll t (appObjects r t ns app (officeDeployment r t ns app (appLabels (ca_Name app))))"

section \<open>The catalog apps\<close>

definition blobMountPath :: string where
  "blobMountPath = ''/mnt/kamara-blob''"

definition dekMountPath :: string where
  "dekMountPath = ''/mnt/kamara-dek''"

definition s2sKeyMountPath :: string where
  "s2sKeyMountPath = ''/mnt/s2s''"

definition upperAscii :: "char \<Rightarrow> char" where
  "upperAscii c = (if 97 \<le> (of_char c :: nat) \<and> (of_char c :: nat) \<le> 122 then char_of (of_char c - 32 :: nat) else c)"

text \<open>The environment of an app, in the order \<open>ensureApps\<close> appends it.\<close>

definition appEnv :: "reconciler \<Rightarrow> tenant \<Rightarrow> string \<Rightarrow> catalog_app \<Rightarrow> string \<Rightarrow> string \<Rightarrow> env_var list" where
  "appEnv r t ns app clientID projectID =
    [plainEnv ''OIDC_ISSUER'' (st_Issuer (tn_Status t)), plainEnv ''OIDC_CLIENT_ID'' clientID,
     plainEnv ''PUBLIC_URL'' (publicURL r (appHost r t app)), plainEnv ''LISTEN_ADDR'' (CHR '':'' # Itoa (ca_Port app))] @
    (if ca_NeedsDatabase app then [fromSecret ''DATABASE_DSN'' (ca_Name app @ ''-db-dsn'') ''dsn''] else []) @
    (if ca_NeedsOpenFGA app
     then [plainEnv ''OPENFGA_API_URL'' (inCluster ''openfga'' ns @ '':8080''), fromSecret ''OPENFGA_API_TOKEN'' openFGAKeySecret openFGAKeyField]
     else []) @
    (if ca_NeedsBlob app then [plainEnv ''KAMARA_BLOB_DIR'' blobMountPath] else []) @
    (if ca_NeedsDEK app then [plainEnv ''KAMARA_DEK_FILE'' (dekMountPath @ ''/'' @ dekFileName)] else []) @
    (if ca_Calls app \<noteq> []
     then [plainEnv ''OIDC_PROJECT_ID'' projectID, plainEnv ''SVCAUTH_KEY_FILE'' (s2sKeyMountPath @ ''/'' @ s2sKeyFileName)] @
          map (\<lambda>callee. plainEnv (map upperAscii callee @ ''_URL'') (inCluster callee ns)) (ca_Calls app)
     else []) @
    (if ca_Name app = ''kamara'' then officeEnv r t ns else [])"

definition appVolumes :: "catalog_app \<Rightarrow> volume list" where
  "appVolumes app =
    (if ca_NeedsBlob app then [\<lparr>vo_Name = ''blob'', vo_Source = VolPVC (ca_Name app @ ''-blob'') False\<rparr>] else []) @
    (if ca_NeedsDEK app then [\<lparr>vo_Name = ''dek'', vo_Source = VolSecret (ca_Name app @ ''-dek'') [(dekFileName, dekFileName)]\<rparr>] else []) @
    (if ca_Calls app \<noteq> [] then [\<lparr>vo_Name = ''s2s-key'', vo_Source = VolSecret (ca_Name app @ ''-s2s-key'') [(s2sKeyFileName, s2sKeyFileName)]\<rparr>] else []) @
    [\<lparr>vo_Name = ''tmp'', vo_Source = VolEmptyDir\<rparr>]"

definition appMounts :: "catalog_app \<Rightarrow> volume_mount list" where
  "appMounts app =
    (if ca_NeedsBlob app then [\<lparr>vm_Name = ''blob'', vm_Path = blobMountPath, vm_ReadOnly = False\<rparr>] else []) @
    (if ca_NeedsDEK app then [\<lparr>vm_Name = ''dek'', vm_Path = dekMountPath, vm_ReadOnly = True\<rparr>] else []) @
    (if ca_Calls app \<noteq> [] then [\<lparr>vm_Name = ''s2s-key'', vm_Path = s2sKeyMountPath, vm_ReadOnly = True\<rparr>] else []) @
    [\<lparr>vm_Name = ''tmp'', vm_Path = ''/tmp'', vm_ReadOnly = False\<rparr>]"

definition appDeployment :: "reconciler \<Rightarrow> tenant \<Rightarrow> string \<Rightarrow> catalog_app \<Rightarrow> string \<Rightarrow> string \<Rightarrow> deployment" where
  "appDeployment r t ns app clientID projectID =
    \<lparr>dp_Replicas = Some 1, dp_Selector = appLabels (ca_Name app), dp_Recreate = ca_NeedsBlob app,
     dp_Template = (plainPod (appLabels (ca_Name app)))
       \<lparr>ps_RunAsNonRoot := True, ps_RunAsUser := Some 65532, ps_RunAsGroup := Some 65532, ps_FSGroup := Some 65532, ps_SeccompDefault := True,
        ps_Containers := [(plainContainer (ca_Name app) (imageFor r app))
          \<lparr>cn_Ports := [ca_Port app], cn_Env := appEnv r t ns app clientID projectID, cn_Mounts := appMounts app, cn_Security := Some lockedDown\<rparr>],
        ps_Volumes := appVolumes app\<rparr>\<rparr>"

definition ensureApp :: "reconciler \<Rightarrow> 'z zitadel \<Rightarrow> tenant \<Rightarrow> string \<Rightarrow> string \<Rightarrow> string \<Rightarrow> catalog_app \<Rightarrow> ('z, unit) cp" where
  "ensureApp r z t ns orgID projectID app =
    (if \<not> provisioned t app then ret ()
     else if ca_External app then ensureOffice r t ns app
     else
       let url = publicURL r (appHost r t app); name = ca_Name app in
       bnd (EnsureWebApp z (st_Issuer (tn_Status t)) orgID name [url @ ''/auth/callback''] [url @ ''/'']) (\<lambda>clientID.
       bnd (guarded (ca_NeedsDatabase app) (ensureAppDatabase t ns name)) (\<lambda>_.
       bnd (guarded (ca_NeedsBlob app) (ensureBlob t ns name)) (\<lambda>_.
       bnd (guarded (ca_NeedsDEK app) (ensureDEK t ns name)) (\<lambda>_.
       bnd (guarded (ca_NeedsBlob app) (ensureBlobBackup r t ns app)) (\<lambda>_.
       bnd (guarded (ca_Calls app \<noteq> []) (ensureS2SIdentity z t ns orgID name)) (\<lambda>_.
       createAll t (appObjects r t ns app (appDeployment r t ns app clientID projectID)))))))))"

definition ensureApps :: "reconciler \<Rightarrow> 'z zitadel \<Rightarrow> tenant \<Rightarrow> string \<Rightarrow> ('z, unit) cp" where
  "ensureApps r z t ns =
    bnd (guarded anyAppNeedsOpenFGA (ensureOpenFGA t ns)) (\<lambda>_.
    bnd (FirstOrgID z (st_Issuer (tn_Status t))) (\<lambda>orgID.
    bnd (ProjectID z (st_Issuer (tn_Status t)) orgID) (\<lambda>projectID.
    bnd (foreach (ensureApp r z t ns orgID projectID) catalog) (\<lambda>_.
    ensureNetworkPolicies t ns))))"

section \<open>What the apps find\<close>

lemma passwordChar_facts: "passwordChar c \<Longrightarrow> c \<noteq> CHR ''%'' \<and> c \<notin> set ''@/:?#''"
  unfolding passwordChar_def by (auto simp: unreserved_def of_char_def)

lemma escapeUserPassword_step: "percentDecode (escapeUserPassword pw) = pw \<and> set (escapeUserPassword pw) \<inter> set ''@/:?#'' = {}"
proof (induction pw)
  case (Cons c pw)
  have lt: "(of_char c :: nat) div 16 < 16" "(of_char c :: nat) mod 16 < 16" by (rule of_char_nibbles)+
  have hex: "n < 16 \<Longrightarrow> upperHex n \<notin> set ''@/:?#''" for n
    using upperHex_unreserved [of n] passwordChar_facts [of "upperHex n"] by (simp add: passwordChar_def)
  have "char_of (16 * (of_char c div 16) + of_char c mod 16 :: nat) = c" by simp
  then show ?case
    using Cons passwordChar_facts [of c] upperHex_facts [OF lt(1)] upperHex_facts [OF lt(2)] hex [OF lt(1)] hex [OF lt(2)] by (cases "passwordChar c") simp_all
qed simp

text \<open>C35. The connection string survives any database password: percent-decoding the password part gives the password back, and
  that part contains none of the characters that would end it (at sign, slash, colon, question mark, number sign), so
  that the rest of the string, host, database and options, is read as it was written.\<close>

theorem dsn_password:
  "\<exists>p. dsnURL ns app pw = ''postgresql://app:'' @ p @ ''@db-rw.'' @ ns @ ''.svc.cluster.local:5432/'' @ app @ ''?sslmode=require'' \<and>
     percentDecode p = pw \<and> set p \<inter> set ''@/:?#'' = {}"
  using escapeUserPassword_step [of pw] by (intro exI [of _ "escapeUserPassword pw"]) (simp add: dsnURL_def)

lemma kubeGet_rand: "kubeGet k w = (x, w') \<Longrightarrow> w_rand w' = w_rand w \<and> w_db w' = w_db w"
  unfolding kubeGet_def query_def bnd_def
  by (auto elim!: call_cases simp: ret_def fail_def split: option.splits sum.splits prod.splits)

text \<open>C16. The key that the control plane makes is the key that Kamara encrypts with. When a tenant has no data-encryption key
  yet and \<open>ensureDEK\<close> succeeds, and Kamara is started in the environment its deployment sets and with the secret
  mounted as its deployment mounts it, \<open>loadDEK\<close> returns exactly the 32 random bytes that were drawn; it does not matter that the
  one side writes Base64 and the other also accepts raw keys.\<close>

theorem kamara_key:
  assumes "pf_objects (w_db w) (dekKey ns ''kamara'') = None" "ensureDEK t ns ''kamara'' w = (Inr (), w')"
    and "ca_Name app = ''kamara''" "ca_NeedsDEK app"
    and "\<And>n v. plainEnv n v \<in> set (appEnv r t ns app clientID projectID) \<Longrightarrow> getenv n = v"
    and "\<And>ob. pf_objects (w_db w') (dekKey ns ''kamara'') = Some ob \<Longrightarrow>
      readFile (dekMountPath @ ''/'' @ dekFileName) = Some (bytesOf (entryOf (secretData ob) dekFileName))"
  shows "loadDEK getenv readFile = Inr (map (w_rand w) [0..<32])"
proof -
  let ?k = "dekKey ns ''kamara''" and ?key = "map (w_rand w) [0..<32]"
  let ?ob = "SetControllerReference t (mkObject [] (PSecret [(dekFileName, stdEncode ?key)]))"
  obtain x w1 where g: "kubeGet ?k w = (x, w1)" by fastforce
  have w1: "w_rand w1 = w_rand w" "pf_objects (w_db w1) ?k = None" using kubeGet_rand [OF g] assms(1) by simp_all
  have "x = Inl ErrAbsent" using g assms(1,2) by (cases x) (auto simp: ensureDEK_def ifAbsent_def kubeGet_def query_def bnd_def ret_def fail_def
      elim!: call_cases split: sum.splits prod.splits option.splits if_splits)
  then have "bnd (randRead dekKeySize) (\<lambda>key. setOwnerAndCreate t ?k (mkObject [] (PSecret [(dekFileName, stdEncode key)]))) w1 = (Inr (), w')"
    using assms(2) g by (simp add: ensureDEK_def ifAbsent_def)
  then have "kubeCreate ?k ?ob (w1\<lparr>w_rand := (\<lambda>i. w_rand w (i + 32))\<rparr>) = (Inr (), w')"
    by (simp add: bnd_def randRead_def dekKeySize_def setOwnerAndCreate_def w1)
  then have "pf_objects (w_db w') ?k = Some ?ob"
    using w1(2) unfolding kubeCreate_def exec_def by (auto elim!: call_cases simp: execRaw_def split: if_splits)
  from assms(6) [OF this] have mounted: "readFile (dekMountPath @ ''/'' @ dekFileName) = Some (bytesOf (stdEncode ?key))"
    by (simp add: secretData_def entryOf_def SetControllerReference_def mkObject_def)
  have "plainEnv ''KAMARA_DEK_FILE'' (dekMountPath @ ''/'' @ dekFileName) \<in> set (appEnv r t ns app clientID projectID)"
    using assms(4) by (simp add: appEnv_def)
  from assms(5) [OF this] have vars: "getenv ''KAMARA_DEK_FILE'' = dekMountPath @ ''/'' @ dekFileName" .
  have "decodeKey (bytesOf ([] @ stdEncode ?key @ [])) = Inr ?key" by (rule decodeKey_encoded) (simp_all add: KeySize_def)
  then show ?thesis using mounted vars by (simp add: loadDEK_def dekMountPath_def)
qed

definition kamaraApp :: catalog_app where
  "kamaraApp = stubApp\<lparr>ca_Name := ''kamara'', ca_Port := 5580, ca_NeedsDatabase := True, ca_NeedsOpenFGA := True, ca_NeedsBlob := True, ca_NeedsDEK := True\<rparr>"

definition podEnv :: "env_var list \<Rightarrow> string \<Rightarrow> string" where
  "podEnv es n = entryOf (map (\<lambda>e. (en_Name e, en_Value e)) es) n"

definition bareWorld :: "unit platform world" where
  "bareWorld = demoWorld \<lparr>pf_tenants = Map.empty, pf_objects = Map.empty, pf_available = (\<lambda>_ _. 0), pf_ready = (\<lambda>_. None), pf_token = None, pf_iam = ()\<rparr>"

theorem kamara_key_witness:
  "loadDEK (podEnv (appEnv demoRC (newTenant ''acme'' []) ''tenant-acme'' kamaraApp ''c'' ''p''))
     (\<lambda>f. if f = ''/mnt/kamara-dek/dek'' then Some (bytesOf (stdEncode (map word_of_nat [0..<32]))) else None) = Inr (map word_of_nat [0..<32])"
proof -
  let ?t = "newTenant ''acme'' []" and ?k = "dekKey ''tenant-acme'' ''kamara''"
  let ?ob = "SetControllerReference ?t (mkObject [] (PSecret [(dekFileName, stdEncode (map word_of_nat [0..<32]))]))"
  let ?es = "appEnv demoRC ?t ''tenant-acme'' kamaraApp ''c'' ''p''"
  obtain w' where run: "ensureDEK ?t ''tenant-acme'' ''kamara'' bareWorld = (Inr (), w')" and ob: "pf_objects (w_db w') ?k = Some ?ob"
    by (simp add: ensureDEK_def ifAbsent_def kubeGet_def bareWorld_def bnd_def ret_def fail_def randRead_def dekKeySize_def setOwnerAndCreate_def
        kubeCreate_def demoWorld_def calm_def)
  have names: "ca_NeedsDatabase kamaraApp" "ca_NeedsOpenFGA kamaraApp" "ca_NeedsBlob kamaraApp" "ca_NeedsDEK kamaraApp"
    "ca_Calls kamaraApp = []" "ca_Name kamaraApp = ''kamara''" by (simp_all add: kamaraApp_def stubApp_def)
  have none: "officeEnv demoRC ?t ''tenant-acme'' = []" by (simp add: officeEnv_def tenantEnables_def newTenant_def)
  have "distinct (map en_Name ?es)" by (simp add: appEnv_def names none plainEnv_def fromSecret_def)
  then have "distinct (map fst (map (\<lambda>e. (en_Name e, en_Value e)) ?es))" by (simp only: map_map o_def fst_conv)
  then have vars: "podEnv ?es n = v" if "plainEnv n v \<in> set ?es" for n v
  proof -
    have "(n, v) \<in> set (map (\<lambda>e. (en_Name e, en_Value e)) ?es)" using that by (force simp: plainEnv_def)
    then show ?thesis using \<open>distinct (map fst _)\<close> unfolding podEnv_def entryOf_def by (subst map_of_is_SomeI) simp_all
  qed
  have rand: "w_rand bareWorld = word_of_nat" by (simp add: bareWorld_def demoWorld_def)
  have "pf_objects (w_db bareWorld) ?k = None" by (simp add: bareWorld_def)
  from kamara_key [OF this run names(6,4) vars] show ?thesis
    by (simp only: ob rand) (simp add: secretData_def entryOf_def SetControllerReference_def mkObject_def dekMountPath_def dekFileName_def)
qed

end
