(* ===== verification/Reconcile.thy ===== *)
theory Reconcile
  imports Provision
begin

text \<open>
  The tenant reconciler (\<open>control-plane/internal/controller/tenant_controller.go\<close> and \<open>optional_apps.go\<close>): \<open>Reconcile\<close> with
  everything it calls, in the order it calls it, over the platform state.
\<close>

section \<open>Optional apps\<close>

definition deleteIfPresent :: "objkey \<Rightarrow> ('z, unit) cp" where
  "deleteIfPresent k = catch (kubeDelete k) (\<lambda>e. if e = ErrAbsent then ret () else fail e)"

definition teardownApp :: "string \<Rightarrow> string \<Rightarrow> ('z, unit) cp" where
  "teardownApp ns name =
    foreach deleteIfPresent [(Deployment, ns, name), (Service, ns, name), (Ingress, ns, name), policyKey ns name]"

definition reconcileKamaraCallers :: "tenant \<Rightarrow> string \<Rightarrow> ('z, unit) cp" where
  "reconcileKamaraCallers t ns =
    (let k = policyKey ns ''kamara'' in
     attempt (kubeGet k)
       (\<lambda>e. if e = ErrAbsent then ret () else fail e)
       (\<lambda>ob. case ob_Payload ob of
          PNetworkPolicy np \<Rightarrow> (case np_Ingress np of
              [rule] \<Rightarrow>
                if equalStringSet (callerNames (pr_Peers rule)) (enabledCallersOf t ''kamara'') then ret ()
                else kubeUpdate k (ob\<lparr>ob_Payload := PNetworkPolicy (np\<lparr>np_Ingress := [rule\<lparr>pr_Peers := callerPeers t ''kamara''\<rparr>]\<rparr>)\<rparr>)
            | _ \<Rightarrow> ret ())
        | _ \<Rightarrow> ret ()))"

definition withEnv :: "kobject \<Rightarrow> deployment \<Rightarrow> container \<Rightarrow> container list \<Rightarrow> env_var list \<Rightarrow> kobject" where
  "withEnv ob d c cs vars =
    ob\<lparr>ob_Payload := PDeployment (d\<lparr>dp_Template := (dp_Template d)\<lparr>ps_Containers := c\<lparr>cn_Env := vars\<rparr> # cs\<rparr>\<rparr>)\<rparr>"

definition reconcileKamaraEnv :: "reconciler \<Rightarrow> tenant \<Rightarrow> string \<Rightarrow> ('z, unit) cp" where
  "reconcileKamaraEnv r t ns =
    (let k = (Deployment, ns, ''kamara'') in
     attempt (kubeGet k)
       (\<lambda>e. if e = ErrAbsent then ret () else fail e)
       (\<lambda>ob. case ob_Payload ob of
          PDeployment d \<Rightarrow> (case ps_Containers (dp_Template d) of
              [] \<Rightarrow> ret ()
            | c # cs \<Rightarrow>
                let desired = withoutOfficeEnv (cn_Env c) @ officeEnv r t ns in
                if equalEnv (cn_Env c) desired then ret () else kubeUpdate k (withEnv ob d c cs desired))
        | _ \<Rightarrow> ret ()))"

definition reconcileKamaraOfficeWiring :: "reconciler \<Rightarrow> tenant \<Rightarrow> string \<Rightarrow> ('z, unit) cp" where
  "reconcileKamaraOfficeWiring r t ns = bnd (reconcileKamaraCallers t ns) (\<lambda>_. reconcileKamaraEnv r t ns)"

definition reconcileOptionalApps :: "reconciler \<Rightarrow> tenant \<Rightarrow> string \<Rightarrow> ('z, unit) cp" where
  "reconcileOptionalApps r t ns =
    bnd (foreach (\<lambda>app. if \<not> ca_Optional app \<or> tenantEnables t (ca_Name app) then ret () else teardownApp ns (ca_Name app)) catalog)
      (\<lambda>_. reconcileKamaraOfficeWiring r t ns)"

section \<open>The tenant's identity instance\<close>

text \<open>
  \<open>provisionIAM\<close>: the tenant with the status fields it sets, whether the instance is ready, and after how long to
  look again.
\<close>

definition setInstanceID :: "tenant \<Rightarrow> string \<Rightarrow> tenant" where
  "setInstanceID t i = t\<lparr>tn_Status := (tn_Status t)\<lparr>st_InstanceID := i\<rparr>\<rparr>"

definition setClient :: "tenant \<Rightarrow> string \<Rightarrow> string \<Rightarrow> tenant" where
  "setClient t issuer clientID = t\<lparr>tn_Status := (tn_Status t)\<lparr>st_Issuer := issuer, st_ClientID := clientID\<rparr>\<rparr>"

definition provisionIAM :: "reconciler \<Rightarrow> 'z zitadel \<Rightarrow> tenant \<Rightarrow> ('z, tenant \<times> bool \<times> int) cp" where
  "provisionIAM r z t =
    (let domain = instanceDomain r t; issuer = tenantIssuer r t in
     bnd (ensureIssuerIngress r t) (\<lambda>_.
     if st_InstanceID (tn_Status t) = [] then
       bnd (catch (InstanceIDByDomain z domain)
             (\<lambda>e. if e = ErrIamNotFound then CreateInstance z (ts_Slug (tn_Spec t)) domain (orgName t) else fail e))
         (\<lambda>i. ret (setInstanceID t i, False, 3 * second))
     else if st_ClientID (tn_Status t) \<noteq> [] then ret (t, True, 0)
     else
       bnd (DiscoveryAlive z issuer) (\<lambda>alive.
       if \<not> alive then ret (t, False, 3 * second)
       else
         bnd (AddTrustedDomain z issuer (st_InstanceID (tn_Status t)) (rc_LoginDomain r)) (\<lambda>_.
         bnd (FirstOrgID z issuer) (\<lambda>orgID.
         let appBase = publicURL r (''stub.'' @ tenantDomain r t) in
         bnd (EnsureStubApp z issuer orgID [appBase @ ''/auth/callback''] [appBase @ ''/'']) (\<lambda>clientID.
         ret (setClient t issuer clientID, True, 0)))))))"

definition deleteInstance :: "reconciler \<Rightarrow> 'z zitadel \<Rightarrow> tenant \<Rightarrow> ('z, bool) cp" where
  "deleteInstance r z t =
    (let remove = (\<lambda>i. attempt (DeleteInstance z i)
           (\<lambda>e. if e = ErrIamNotFound then bnd (DiscoveryAlive z (tenantIssuer r t)) (\<lambda>alive. ret (\<not> alive)) else fail e)
           (\<lambda>_. ret True))
     in if st_InstanceID (tn_Status t) = []
        then attempt (InstanceIDByDomain z (instanceDomain r t)) (\<lambda>e. if e = ErrIamNotFound then ret True else fail e) remove
        else remove (st_InstanceID (tn_Status t)))"

section \<open>Readiness and status\<close>

definition tenantNamespace :: "tenant \<Rightarrow> string" where
  "tenantNamespace t = ''tenant-'' @ ts_Slug (tn_Spec t)"

definition databaseReady :: "string \<Rightarrow> ('z, bool) cp" where
  "databaseReady ns =
    bnd (query (\<lambda>d. case pf_objects d (Cluster, ns, ''db'') of None \<Rightarrow> None | Some _ \<Rightarrow> pf_ready d ns))
      (\<lambda>x. ret (case x of None \<Rightarrow> False | Some n \<Rightarrow> n \<ge> 1))"

primrec appsReadyFrom :: "tenant \<Rightarrow> string \<Rightarrow> catalog_app list \<Rightarrow> ('z, bool) cp" where
  "appsReadyFrom t ns [] = ret True"
| "appsReadyFrom t ns (app # apps) =
    (if \<not> provisioned t app then appsReadyFrom t ns apps
     else
       bnd (query (\<lambda>d. case pf_objects d (Deployment, ns, ca_Name app) of None \<Rightarrow> None | Some _ \<Rightarrow> Some (pf_available d ns (ca_Name app))))
         (\<lambda>n. case n of None \<Rightarrow> ret False | Some n \<Rightarrow> if n < 1 then ret False else appsReadyFrom t ns apps))"

definition appsReady :: "tenant \<Rightarrow> string \<Rightarrow> ('z, bool) cp" where
  "appsReady t ns = appsReadyFrom t ns catalog"

text \<open>\<open>meta.SetStatusCondition\<close>: replace the condition of this type, or append it.\<close>

definition setCondition :: "string \<Rightarrow> bool \<Rightarrow> tenant \<Rightarrow> tenant" where
  "setCondition knd ok t =
    (let cnd = \<lparr>cd_Type = knd, cd_Status = ok, cd_Reason = (if ok then ''Done'' else ''Pending''), cd_ObservedGeneration = tn_Generation t\<rparr>;
         old = st_Conditions (tn_Status t)
     in t\<lparr>tn_Status := (tn_Status t)\<lparr>st_Conditions :=
          (if list_ex (\<lambda>x. cd_Type x = knd) old then map (\<lambda>x. if cd_Type x = knd then cnd else x) old else old @ [cnd])\<rparr>\<rparr>)"

definition setPhase :: "tenant_phase \<Rightarrow> tenant \<Rightarrow> tenant" where
  "setPhase p t = t\<lparr>tn_Status := (tn_Status t)\<lparr>st_Phase := p\<rparr>\<rparr>"

section \<open>Reconcile\<close>

definition finalizer :: string where
  "finalizer = ''peristera.io/tenant''"

record 'z controller =
  ct_rc :: reconciler
  ct_IAM :: "'z zitadel option"

definition addFinalizer :: "tenant \<Rightarrow> ('z, tenant) cp" where
  "addFinalizer t =
    (if finalizer \<in> set (tn_Finalizers t) then ret t
     else let t' = t\<lparr>tn_Finalizers := tn_Finalizers t @ [finalizer]\<rparr> in bnd (UpdateTenantRes t') (\<lambda>_. ret t'))"

definition releaseTenant :: "tenant \<Rightarrow> ('z, int) cp" where
  "releaseTenant t =
    (if finalizer \<in> set (tn_Finalizers t)
     then bnd (UpdateTenantRes (t\<lparr>tn_Finalizers := filter (\<lambda>f. f \<noteq> finalizer) (tn_Finalizers t)\<rparr>)) (\<lambda>_. ret 0)
     else ret 0)"

text \<open>The branch of a tenant with a deletion time stamp; an error of the provider is retried, not returned.\<close>

definition reconcileDeletion :: "'z controller \<Rightarrow> tenant \<Rightarrow> ('z, int) cp" where
  "reconcileDeletion c t =
    (case ct_IAM c of
       None \<Rightarrow> releaseTenant t
     | Some z \<Rightarrow> attempt (deleteInstance (ct_rc c) z t) (\<lambda>_. ret (5 * second))
         (\<lambda>gone. if \<not> gone then ret (5 * second) else releaseTenant t))"

definition reportStatus :: "tenant \<Rightarrow> bool \<Rightarrow> bool \<Rightarrow> bool \<Rightarrow> int \<Rightarrow> ('z, int) cp" where
  "reportStatus t dbReady iamReady apps requeue =
    (let ready = (dbReady \<and> iamReady \<and> apps);
         requeue' = (if ready then requeue else if requeue = 0 then 10 * second else requeue);
         t' = setCondition ''AppsReady'' apps (setCondition ''IAMProvisioned'' iamReady (setCondition ''DatabaseReady'' dbReady t));
         t'' = setPhase (if ready then TenantReady else TenantPending) t'
     in bnd (UpdateTenantStatus t'') (\<lambda>_. ret requeue'))"

definition provisionApps :: "reconciler \<Rightarrow> 'z zitadel \<Rightarrow> tenant \<Rightarrow> string \<Rightarrow> ('z, unit) cp" where
  "provisionApps r z t ns = bnd (ensureApps r z t ns) (\<lambda>_. reconcileOptionalApps r t ns)"

definition reconcileIdentity :: "reconciler \<Rightarrow> 'z zitadel \<Rightarrow> tenant \<Rightarrow> string \<Rightarrow> bool \<Rightarrow> ('z, int) cp" where
  "reconcileIdentity r z t ns dbReady =
    bnd (provisionIAM r z t) (\<lambda>(t, iamReady, requeue).
    bnd (guarded (iamReady \<and> dbReady) (provisionApps r z t ns)) (\<lambda>_.
    bnd (if iamReady \<and> dbReady then appsReady t ns else ret False) (\<lambda>apps.
    reportStatus t dbReady iamReady apps requeue)))"

definition reconcileLive :: "'z controller \<Rightarrow> tenant \<Rightarrow> ('z, int) cp" where
  "reconcileLive c t =
    bnd (addFinalizer t) (\<lambda>t.
    let ns = tenantNamespace t in
    bnd (ensureNamespace t ns) (\<lambda>_.
    bnd (ensureDatabase (ct_rc c) t ns) (\<lambda>_.
    bnd (databaseReady ns) (\<lambda>dbReady.
    case ct_IAM c of
      None \<Rightarrow> reportStatus t dbReady True True 0
    | Some z \<Rightarrow> reconcileIdentity (ct_rc c) z t ns dbReady))))"

definition Reconcile :: "'z controller \<Rightarrow> string \<Rightarrow> ('z, int) cp" where
  "Reconcile c name =
    attempt (GetTenantRes name) (\<lambda>e. if e = ErrAbsent then ret 0 else fail e)
      (\<lambda>t. if tn_Deleting t then reconcileDeletion c t else reconcileLive c t)"

section \<open>Frames\<close>

text \<open>
  What an assertion has to withstand to be kept by a whole reconcile: the object calls the provisioning functions are
  made of. Network policies, the backup credentials and the optional-app changes are premises of their own, because
  an assertion may depend on what exactly they write. The tenant is known by its name and specification; its status
  changes on the way.
\<close>

lemma keeps_createAll: "(\<And>k ob. (k, ob) \<in> set obs \<Longrightarrow> keeps I (createIfAbsent t k ob)) \<Longrightarrow> keeps I (createAll t obs)"
  unfolding createAll_def by (rule keeps_foreach) auto

locale object_assertion =
  fixes I :: "'z platform world \<Rightarrow> bool" and name :: string and spec :: tenant_spec
  assumes quiet: "faultless I" "randless I" "iamless I"
    and create: "tn_Name t = name \<Longrightarrow> fst k \<noteq> NetworkPolicy \<Longrightarrow> keeps I (setOwnerAndCreate t k ob)"
    and creds: "tn_Name t = name \<Longrightarrow> keeps I (ensureBackupCreds r t ns)"
    and policies: "tn_Name t = name \<Longrightarrow> tn_Spec t = spec \<Longrightarrow> keeps I (ensureNetworkPolicies t ns)"
    and teardown: "app \<in> set catalog \<Longrightarrow> ca_Optional app \<Longrightarrow> ca_Name app \<notin> set (ts_Apps spec) \<Longrightarrow> keeps I (teardownApp ns (ca_Name app))"
    and callers: "tn_Spec t = spec \<Longrightarrow> keeps I (reconcileKamaraCallers t ns)"
    and vars: "tn_Spec t = spec \<Longrightarrow> keeps I (reconcileKamaraEnv r t ns)"
begin

lemma absent: "tn_Name t = name \<Longrightarrow> fst k \<noteq> NetworkPolicy \<Longrightarrow> keeps I (createIfAbsent t k ob)"
  unfolding createIfAbsent_def by (intro keeps_rules quiet create)

lemma namespace: "tn_Name t = name \<Longrightarrow> keeps I (ensureNamespace t ns)"
  unfolding ensureNamespace_def by (rule absent) simp_all

lemma database: "tn_Name t = name \<Longrightarrow> keeps I (ensureDatabase r t ns)"
  unfolding ensureDatabase_def ensureScheduledBackup_def by (intro keeps_rules absent creds) simp_all

lemma app_parts:
  assumes "tn_Name t = name"
  shows "keeps I (ensureAppDatabase t ns app)" "keeps I (ensureBlob t ns app)" "keeps I (ensureDEK t ns app)"
    "keeps I (ensureOpenFGAKey t ns)" "keeps I (ensureBlobBackup r t ns a)" "keeps I (ensureS2SIdentity z t ns g app)"
    "keeps I (ensureIssuerIngress r t)" "keeps I (createAll t (appObjects r t ns a d))" "keeps I (ensureOffice r t ns a)"
    "keeps I (ensureOpenFGA t ns)"
proof -
  have absent': "keeps I (createIfAbsent t k ob)" if "fst k \<noteq> NetworkPolicy" for k ob by (rule absent [OF assms that])
  show db: "keeps I (ensureAppDatabase t ns app)" for app
    unfolding ensureAppDatabase_def ensureDSNSecret_def by (intro keeps_rules absent' create assms quiet) simp_all
  show "keeps I (ensureBlob t ns app)" "keeps I (ensureDEK t ns app)"
    unfolding ensureBlob_def ensureDEK_def dekKey_def by (intro keeps_rules absent' create assms quiet; simp)+
  show key: "keeps I (ensureOpenFGAKey t ns)"
    unfolding ensureOpenFGAKey_def by (intro keeps_rules create assms quiet) simp
  show "keeps I (ensureBlobBackup r t ns a)"
    unfolding ensureBlobBackup_def blobBackupCronJob_def Let_def by (auto intro!: absent')
  show "keeps I (ensureS2SIdentity z t ns g app)"
    unfolding ensureS2SIdentity_def by (intro keeps_rules create keeps_iam assms quiet) simp
  show "keeps I (ensureIssuerIngress r t)"
    unfolding ensureIssuerIngress_def issuerIngress_def Let_def by (auto intro!: absent')
  show obs: "keeps I (createAll t (appObjects r t ns a d))" for d
    by (rule keeps_createAll) (auto simp: appObjects_def intro!: absent')
  show "keeps I (ensureOffice r t ns a)" unfolding ensureOffice_def by (rule obs)
  show "keeps I (ensureOpenFGA t ns)"
    unfolding ensureOpenFGA_def by (intro keeps_rules db key keeps_createAll) (auto intro!: absent')
qed

lemma apps: "tn_Name t = name \<Longrightarrow> tn_Spec t = spec \<Longrightarrow> keeps I (ensureApps r z t ns)"
proof -
  assume t: "tn_Name t = name" and sp: "tn_Spec t = spec"
  have a: "keeps I (ensureApp r z t ns g p a)" for g p a
    unfolding ensureApp_def Let_def by (intro keeps_rules app_parts t keeps_iam quiet)
  show ?thesis unfolding ensureApps_def by (intro keeps_rules a app_parts t policies sp keeps_iam quiet)
qed

lemma optional: "tn_Spec t = spec \<Longrightarrow> keeps I (reconcileOptionalApps r t ns)"
proof -
  assume t: "tn_Spec t = spec"
  have "keeps I (if \<not> ca_Optional app \<or> tenantEnables t (ca_Name app) then ret () else teardownApp ns (ca_Name app))"
    if "app \<in> set catalog" for app
    using teardown [OF that] t by (auto simp: tenantEnables_def)
  then show ?thesis
    unfolding reconcileOptionalApps_def reconcileKamaraOfficeWiring_def
    by (intro keeps_bnd keeps_foreach callers vars t) blast
qed

lemma provision: "tn_Name t = name \<Longrightarrow> tn_Spec t = spec \<Longrightarrow> keeps I (provisionApps r z t ns)"
  unfolding provisionApps_def by (intro keeps_rules apps optional)

end

lemma keeps_bnd_val:
  assumes "keeps I m" "\<And>w x w'. m w = (Inr x, w') \<Longrightarrow> keeps I (f x)"
  shows "keeps I (bnd m f)"
proof (rule keepsI)
  fix w assume I: "I w"
  obtain r w1 where m: "m w = (r, w1)" by fastforce
  have "I w1" by (rule keepsD2 [OF assms(1) I m])
  then show "I (snd (bnd m f w))"
    using m assms(2) [of w _ w1] keepsD by (auto simp: bnd_def split: sum.split)
qed

text \<open>What \<open>provisionIAM\<close> does to the tenant it works on.\<close>

lemma provisionIAM_result:
  assumes "provisionIAM r z t w = (Inr (t', ready, q), w')"
  shows "t' = t \<and> (ready \<longrightarrow> st_InstanceID (tn_Status t) \<noteq> [] \<and> st_ClientID (tn_Status t) \<noteq> []) \<or>
    st_InstanceID (tn_Status t) = [] \<and> (\<exists>i. t' = setInstanceID t i) \<and> \<not> ready \<or>
    st_InstanceID (tn_Status t) \<noteq> [] \<and> st_ClientID (tn_Status t) = [] \<and> (\<exists>c. t' = setClient t (tenantIssuer r t) c) \<and> ready"
  using assms unfolding provisionIAM_def Let_def by (auto elim!: bnd_InrE simp: ret_def split: if_splits)

lemma provisionIAM_same:
  "provisionIAM r z t w = (Inr (t', ready, q), w') \<Longrightarrow>
   tn_Name t' = tn_Name t \<and> tn_Spec t' = tn_Spec t \<and> tn_Generation t' = tn_Generation t \<and> tn_Finalizers t' = tn_Finalizers t"
  by (drule provisionIAM_result) (auto simp: setInstanceID_def setClient_def)

lemma keeps_tenant_calls:
  assumes "onObjects I \<or> onIam I"
  shows "keeps I (UpdateTenantRes t)" "keeps I (UpdateTenantStatus t)" "keeps I (CreateTenantRes n sp)" "keeps I (DeleteTenantRes n)"
proof -
  have f: "faultless I" using assms on_faultless by blast
  have u: "I (w\<lparr>w_db := w_db w\<lparr>pf_tenants := F\<rparr>\<rparr>) = I w" for w F
    using assms onD(2) [of I "w\<lparr>w_db := w_db w\<lparr>pf_tenants := F\<rparr>\<rparr>" w] onD(3) [of I "w\<lparr>w_db := w_db w\<lparr>pf_tenants := F\<rparr>\<rparr>" w]
    by auto
  show "keeps I (UpdateTenantRes t)" "keeps I (UpdateTenantStatus t)" "keeps I (CreateTenantRes n sp)" "keeps I (DeleteTenantRes n)"
    unfolding UpdateTenantRes_def UpdateTenantStatus_def CreateTenantRes_def DeleteTenantRes_def
    by (rule keeps_exec [OF f], auto simp: u split: if_splits option.splits)+
qed

lemma keeps_queries: "faultless I \<Longrightarrow> keeps I (databaseReady ns)" "faultless I \<Longrightarrow> keeps I (appsReady t ns)"
proof -
  assume f: "faultless I"
  show "keeps I (databaseReady ns)" unfolding databaseReady_def by (intro keeps_rules f)
  have "keeps I (appsReadyFrom t ns as)" for as by (induction as) (auto intro!: keeps_rules f)
  then show "keeps I (appsReady t ns)" unfolding appsReady_def .
qed

lemma addFinalizer_result:
  "addFinalizer t w = (Inr t', w') \<Longrightarrow> tn_Name t' = tn_Name t \<and> tn_Spec t' = tn_Spec t \<and> tn_Status t' = tn_Status t \<and> tn_Generation t' = tn_Generation t"
  by (auto simp: addFinalizer_def Let_def ret_def elim!: bnd_InrE split: if_splits)

lemma keeps_deleteInstance: "iamless I \<Longrightarrow> keeps I (deleteInstance r z t)"
  unfolding deleteInstance_def Let_def by (intro keeps_rules keeps_attempt_io keeps_iam)

text \<open>
  The whole reconcile. An assertion on the tenants may depend on what the status update writes: \<open>begins\<close> is what holds of
  the tenant that is read, \<open>good\<close> what holds of it, with the readiness of its identity instance, when its status is
  reported.
\<close>

locale reconcile_assertion = object_assertion I name spec for I :: "'z platform world \<Rightarrow> bool" and name spec +
  fixes c :: "'z controller" and begins :: "tenant \<Rightarrow> bool" and good :: "tenant \<Rightarrow> bool \<Rightarrow> bool"
  assumes update: "tn_Name t = name \<Longrightarrow> tn_Spec t = spec \<Longrightarrow> keeps I (UpdateTenantRes t)"
    and report: "tn_Name t = name \<Longrightarrow> tn_Spec t = spec \<Longrightarrow> good t rd \<Longrightarrow> keeps I (reportStatus t b rd a q)"
    and begun: "begins t \<Longrightarrow> begins (t\<lparr>tn_Finalizers := fs\<rparr>)"
    and plain: "begins t \<Longrightarrow> ct_IAM c = None \<Longrightarrow> good t True"
    and identified: "begins t \<Longrightarrow> ct_IAM c = Some z \<Longrightarrow> provisionIAM (ct_rc c) z t w = (Inr (t', rd, q), w') \<Longrightarrow> good t' rd"
begin

lemma identity:
  assumes t: "tn_Name t = name" "tn_Spec t = spec" and begins: "begins t" and z: "ct_IAM c = Some z"
  shows "keeps I (reconcileIdentity (ct_rc c) z t ns b)"
  unfolding reconcileIdentity_def
proof (rule keeps_bnd_val)
  show "keeps I (provisionIAM (ct_rc c) z t)"
    unfolding provisionIAM_def Let_def by (intro keeps_rules app_parts t keeps_iam quiet)
  fix w x w' assume run: "provisionIAM (ct_rc c) z t w = (Inr x, w')"
  obtain t' rd q where x: "x = (t', rd, q)" by (metis prod_cases3)
  have t': "tn_Name t' = name" "tn_Spec t' = spec" using provisionIAM_same run x t by metis+
  have good: "good t' rd" by (rule identified [OF begins z run [unfolded x]])
  show "keeps I ((\<lambda>(t, iamReady, requeue). bnd (guarded (iamReady \<and> b) (provisionApps (ct_rc c) z t ns)) (\<lambda>_.
      bnd (if iamReady \<and> b then appsReady t ns else ret False) (\<lambda>apps. reportStatus t b iamReady apps requeue))) x)"
    unfolding x prod.case by (intro keeps_rules provision t' report good keeps_queries quiet)
qed

lemma live:
  assumes t: "tn_Name t = name" "tn_Spec t = spec" and begins: "begins t"
  shows "keeps I (reconcileLive c t)"
  unfolding reconcileLive_def
proof (rule keeps_bnd_val)
  show "keeps I (addFinalizer t)"
    unfolding addFinalizer_def Let_def by (intro keeps_rules update) (simp_all add: t)
  fix w t' w' assume add: "addFinalizer t w = (Inr t', w')"
  have t': "tn_Name t' = name" "tn_Spec t' = spec" using addFinalizer_result [OF add] t by simp_all
  have b': "begins t'"
    using add begins begun [OF begins] by (auto simp: addFinalizer_def Let_def ret_def elim!: bnd_InrE split: if_splits)
  show "keeps I (let ns = tenantNamespace t' in bnd (ensureNamespace t' ns) (\<lambda>_. bnd (ensureDatabase (ct_rc c) t' ns) (\<lambda>_.
      bnd (databaseReady ns) (\<lambda>dbReady. case ct_IAM c of None \<Rightarrow> reportStatus t' dbReady True True 0
        | Some z \<Rightarrow> reconcileIdentity (ct_rc c) z t' ns dbReady))))"
    unfolding Let_def
    by (cases "ct_IAM c") (simp_all, intro keeps_rules namespace database keeps_queries report plain identity t' b' quiet, simp,
        intro keeps_rules namespace database keeps_queries identity t' b' quiet, simp)
qed

lemma deletion: "tn_Name t = name \<Longrightarrow> tn_Spec t = spec \<Longrightarrow> keeps I (reconcileDeletion c t)"
proof -
  assume t: "tn_Name t = name" "tn_Spec t = spec"
  have rel: "keeps I (releaseTenant t)"
    unfolding releaseTenant_def by (intro keeps_rules update) (simp_all add: t)
  show ?thesis unfolding reconcileDeletion_def by (intro keeps_rules keeps_attempt_io rel keeps_deleteInstance quiet)
qed

end

text \<open>An assertion on the objects alone needs nothing of the status.\<close>

locale object_reconcile = object_assertion +
  assumes objects: "onObjects I"

sublocale object_reconcile \<subseteq> status: reconcile_assertion I name spec c "\<lambda>_. True" "\<lambda>_ _. True" for c
proof unfold_locales
  show "keeps I (UpdateTenantRes t)" for t by (rule keeps_tenant_calls) (simp add: objects)
  show "keeps I (reportStatus t b rd a q)" for t b rd a q
    unfolding reportStatus_def Let_def by (intro keeps_rules keeps_tenant_calls) (simp add: objects)
qed simp_all

section \<open>What the object calls do\<close>

lemma kubeGet_outcome: "kubeGet k w = (Inr ob, w') \<Longrightarrow> pf_objects (w_db w') k = Some ob \<and> w_db w' = w_db w"
  unfolding kubeGet_def query_def
  by (auto elim!: bnd_InrE call_cases simp: ret_def fail_def split: option.splits)

lemma kubeUpdate_outcome:
  "kubeUpdate k ob w = (x, w') \<Longrightarrow> pf_objects (w_db w') = pf_objects (w_db w) \<or> pf_objects (w_db w') = (pf_objects (w_db w))(k \<mapsto> ob)"
  unfolding kubeUpdate_def exec_def
  by (auto elim!: call_cases simp: execRaw_def split: if_splits)

lemma kubeCreate_outcome:
  "kubeCreate k ob w = (x, w') \<Longrightarrow> pf_objects (w_db w') = pf_objects (w_db w) \<or>
     pf_objects (w_db w) k = None \<and> pf_objects (w_db w') = (pf_objects (w_db w))(k \<mapsto> ob)"
  unfolding kubeCreate_def exec_def
  by (auto elim!: call_cases simp: execRaw_def split: if_splits)

lemma kubeDelete_outcome:
  "kubeDelete k w = (x, w') \<Longrightarrow> pf_objects (w_db w') = pf_objects (w_db w) \<or> pf_objects (w_db w') = (pf_objects (w_db w))(k := None)"
  unfolding kubeDelete_def exec_def
  by (auto elim!: call_cases simp: execRaw_def split: if_splits)

lemma keeps_by_outcome:
  assumes "\<And>w x w'. Q (pf_objects (w_db w)) \<Longrightarrow> m w = (x, w') \<Longrightarrow> Q (pf_objects (w_db w'))"
  shows "keeps (\<lambda>w. Q (pf_objects (w_db w))) m"
  by (rule keepsI) (rule assms, assumption, rule prod.collapse [symmetric])

lemma keeps_objects:
  fixes Q :: "(objkey \<rightharpoonup> kobject) \<Rightarrow> bool"
  shows "(\<And>f. Q f \<Longrightarrow> f k = None \<Longrightarrow> Q (f(k \<mapsto> ob))) \<Longrightarrow> keeps (\<lambda>w. Q (pf_objects (w_db w))) (kubeCreate k ob)"
    "(\<And>f. Q f \<Longrightarrow> Q (f(k := None))) \<Longrightarrow> keeps (\<lambda>w. Q (pf_objects (w_db w))) (deleteIfPresent k)"
proof -
  show "keeps (\<lambda>w. Q (pf_objects (w_db w))) (kubeCreate k ob)" if q: "\<And>f. Q f \<Longrightarrow> f k = None \<Longrightarrow> Q (f(k \<mapsto> ob))"
    by (rule keeps_by_outcome) (drule kubeCreate_outcome, auto intro: q)
  assume q: "\<And>f. Q f \<Longrightarrow> Q (f(k := None))"
  have "keeps (\<lambda>w. Q (pf_objects (w_db w))) (kubeDelete k)"
    by (rule keeps_by_outcome) (drule kubeDelete_outcome, auto dest: q)
  then show "keeps (\<lambda>w. Q (pf_objects (w_db w))) (deleteIfPresent k)"
    unfolding deleteIfPresent_def by (intro keeps_rules)
qed

text \<open>An update of what was just read.\<close>

lemma keeps_get_update:
  fixes Q :: "(objkey \<rightharpoonup> kobject) \<Rightarrow> bool"
  assumes "\<And>e. keeps (\<lambda>w. Q (pf_objects (w_db w))) (h e)"
    and "\<And>ob (w :: 'z platform world). Q (pf_objects (w_db w)) \<Longrightarrow> pf_objects (w_db w) k = Some ob \<Longrightarrow> Q (pf_objects (w_db (snd (f ob w))))"
  shows "keeps (\<lambda>w. Q (pf_objects (w_db w))) (attempt (kubeGet k) h f)"
proof (rule keepsI)
  fix w :: "'z platform world" assume I: "Q (pf_objects (w_db w))"
  obtain x w1 where g: "kubeGet k w = (x, w1)" by fastforce
  have I1: "Q (pf_objects (w_db w1))"
    by (rule keepsD2 [where I = "\<lambda>w. Q (pf_objects (w_db w))", OF keeps_kubeGet I g]) (simp add: faultless_def)
  show "Q (pf_objects (w_db (snd (attempt (kubeGet k) h f w))))"
    using g I1 kubeGet_outcome [of k w _ w1] assms(2) [of w1] keepsD [OF assms(1), of w1]
    by (auto simp: attempt_def split: sum.split)
qed

text \<open>The three places where an object that exists is written: the payload changes, the rest stays.\<close>

lemma keeps_writes:
  fixes Q :: "(objkey \<rightharpoonup> kobject) \<Rightarrow> bool"
  shows "(\<And>f ob p. Q f \<Longrightarrow> f (policyKey ns ''kamara'') = Some ob \<Longrightarrow> Q (f(policyKey ns ''kamara'' \<mapsto> ob\<lparr>ob_Payload := p\<rparr>))) \<Longrightarrow>
      keeps (\<lambda>w. Q (pf_objects (w_db w))) (reconcileKamaraCallers t ns :: ('z, unit) cp)"
    "(\<And>f ob p. Q f \<Longrightarrow> f (Deployment, ns, ''kamara'') = Some ob \<Longrightarrow> Q (f((Deployment, ns, ''kamara'') \<mapsto> ob\<lparr>ob_Payload := p\<rparr>))) \<Longrightarrow>
      keeps (\<lambda>w. Q (pf_objects (w_db w))) (reconcileKamaraEnv r t ns :: ('z, unit) cp)"
    "(\<And>f ob p. Q f \<Longrightarrow> f (Secret, ns, backupCredsSecret) = Some ob \<Longrightarrow> Q (f((Secret, ns, backupCredsSecret) \<mapsto> ob\<lparr>ob_Payload := p\<rparr>))) \<Longrightarrow>
      (\<And>ob. keeps (\<lambda>w. Q (pf_objects (w_db w))) (setOwnerAndCreate t (Secret, ns, backupCredsSecret) ob :: ('z, unit) cp)) \<Longrightarrow>
      keeps (\<lambda>w. Q (pf_objects (w_db w))) (ensureBackupCreds r t ns :: ('z, unit) cp)"
proof -
  have upd: "Q (pf_objects (w_db (snd (kubeUpdate k ob' w))))"
    if "Q (pf_objects (w_db w))" "Q ((pf_objects (w_db w))(k \<mapsto> ob'))" for k ob' and w :: "'z platform world"
    using that kubeUpdate_outcome [of k ob' w] by (metis prod.collapse)
  show "keeps (\<lambda>w. Q (pf_objects (w_db w))) (reconcileKamaraCallers t ns :: ('z, unit) cp)"
    if "\<And>f ob p. Q f \<Longrightarrow> f (policyKey ns ''kamara'') = Some ob \<Longrightarrow> Q (f(policyKey ns ''kamara'' \<mapsto> ob\<lparr>ob_Payload := p\<rparr>))"
    unfolding reconcileKamaraCallers_def Let_def
    by (rule keeps_get_update, intro keeps_rules) (auto simp: ret_def split: payload_spec.split list.split intro!: upd that)
  show "keeps (\<lambda>w. Q (pf_objects (w_db w))) (reconcileKamaraEnv r t ns :: ('z, unit) cp)"
    if "\<And>f ob p. Q f \<Longrightarrow> f (Deployment, ns, ''kamara'') = Some ob \<Longrightarrow> Q (f((Deployment, ns, ''kamara'') \<mapsto> ob\<lparr>ob_Payload := p\<rparr>))"
    unfolding reconcileKamaraEnv_def Let_def withEnv_def
    by (rule keeps_get_update, intro keeps_rules) (auto simp: ret_def split: payload_spec.split list.split intro!: upd that)
  show "keeps (\<lambda>w. Q (pf_objects (w_db w))) (ensureBackupCreds r t ns :: ('z, unit) cp)"
    if "\<And>f ob p. Q f \<Longrightarrow> f (Secret, ns, backupCredsSecret) = Some ob \<Longrightarrow> Q (f((Secret, ns, backupCredsSecret) \<mapsto> ob\<lparr>ob_Payload := p\<rparr>))"
      "\<And>ob. keeps (\<lambda>w. Q (pf_objects (w_db w))) (setOwnerAndCreate t (Secret, ns, backupCredsSecret) ob :: ('z, unit) cp)"
  proof (cases "backupsEnabled r")
    case True
    then show ?thesis
      unfolding ensureBackupCreds_def Let_def
      by (simp, intro keeps_get_update keeps_rules that(2)) (auto simp: ret_def intro!: upd that(1))
  qed (simp add: ensureBackupCreds_def)
qed

section \<open>Data is kept, and everything is owned\<close>

text \<open>
  The objects that hold or protect tenant data: claims, databases, clusters and secrets. One secret is apart: the tenant's
  copy of the platform's backup credentials, which follows the configuration.
\<close>

definition durable :: "objkey \<Rightarrow> bool" where
  "durable k \<longleftrightarrow> fst k \<in> {VolumeClaim, Database, Cluster, ScheduledBackup, CronJob, Namespace} \<or>
     fst k = Secret \<and> snd (snd k) \<noteq> backupCredsSecret"

definition backupCopy :: "objkey \<Rightarrow> bool" where
  "backupCopy k \<longleftrightarrow> fst k = Secret \<and> snd (snd k) = backupCredsSecret"

definition keptAt :: "objkey \<Rightarrow> kobject \<Rightarrow> (objkey \<rightharpoonup> kobject) \<Rightarrow> bool" where
  "keptAt k ob f \<longleftrightarrow> (durable k \<longrightarrow> f k = Some ob) \<and> (backupCopy k \<longrightarrow> (\<exists>p. f k = Some (ob\<lparr>ob_Payload := p\<rparr>)))"

text \<open>Relative to the objects there were before, everything new is controlled by the tenant.\<close>

definition ownedSince :: "string \<Rightarrow> (objkey \<rightharpoonup> kobject) \<Rightarrow> (objkey \<rightharpoonup> kobject) \<Rightarrow> bool" where
  "ownedSince name old f \<longleftrightarrow> (\<forall>k ob. f k = Some ob \<longrightarrow> old k \<noteq> None \<or> ob_Controller ob = Some name)"

lemma object_parts:
  "faultless (\<lambda>w. Q (pf_objects (w_db w)))" "randless (\<lambda>w. Q (pf_objects (w_db w)))" "iamless (\<lambda>w. Q (pf_objects (w_db w)))"
  by (simp_all add: faultless_def randless_def)

lemma keptAt_other: "keptAt k ob f \<Longrightarrow> \<not> durable k' \<Longrightarrow> \<not> backupCopy k' \<Longrightarrow> keptAt k ob (f(k' := v))"
  by (cases "k = k'") (simp_all add: keptAt_def)

lemma keptAt_payload:
  assumes "keptAt k ob f" "f k' = Some ob'" "backupCopy k'"
  shows "keptAt k ob (f(k' \<mapsto> ob'\<lparr>ob_Payload := p\<rparr>))"
proof (cases "k = k'")
  case True
  then obtain q where "ob' = ob\<lparr>ob_Payload := q\<rparr>" using assms by (auto simp: keptAt_def)
  moreover have "\<not> durable k" using assms(3) True by (simp add: backupCopy_def durable_def)
  ultimately show ?thesis using True by (simp add: keptAt_def) (intro impI exI [of _ p] refl)
next
  case False
  then show ?thesis using assms(1) by (simp add: keptAt_def)
qed

lemma keeps_kept_create: "keeps (\<lambda>w. keptAt k ob (pf_objects (w_db w))) (kubeCreate k' ob')"
  by (rule keeps_objects) (auto simp: keptAt_def)

lemma keeps_owned_create: "tn_Name t = name \<Longrightarrow> keeps (\<lambda>w. ownedSince name old (pf_objects (w_db w))) (setOwnerAndCreate t k ob)"
  unfolding setOwnerAndCreate_def
  by (rule keeps_objects) (auto simp: ownedSince_def SetControllerReference_def)

lemma keeps_policies:
  assumes "faultless I" "\<And>k p. (k, p) \<in> set (tenantPolicies t ns) \<Longrightarrow> keeps I (setOwnerAndCreate t k (mkObject managedBy (PNetworkPolicy p)))"
  shows "keeps I (ensureNetworkPolicies t ns)"
  unfolding ensureNetworkPolicies_def createIfAbsent_def by (rule keeps_foreach) (auto intro!: keeps_rules assms)

interpretation kept: object_reconcile "\<lambda>w. keptAt k ob (pf_objects (w_db w))" name spec for k ob name spec
proof unfold_locales
  show on: "onObjects (\<lambda>w. keptAt k ob (pf_objects (w_db w)))" by simp
  then show "faultless (\<lambda>w. keptAt k ob (pf_objects (w_db w)))" "randless (\<lambda>w. keptAt k ob (pf_objects (w_db w)))"
    "iamless (\<lambda>w. keptAt k ob (pf_objects (w_db w)))"
    by (simp_all add: object_parts)
  show "keeps (\<lambda>w. keptAt k ob (pf_objects (w_db w))) (setOwnerAndCreate t k' ob')" for t k' ob'
    unfolding setOwnerAndCreate_def by (rule keeps_kept_create)
  show "keeps (\<lambda>w. keptAt k ob (pf_objects (w_db w))) (ensureBackupCreds r t ns)" for r t ns
  proof (rule keeps_writes(3))
    show "keeps (\<lambda>w. keptAt k ob (pf_objects (w_db w))) (setOwnerAndCreate t (Secret, ns, backupCredsSecret) ob')" for ob'
      unfolding setOwnerAndCreate_def by (rule keeps_kept_create)
  qed (rule keptAt_payload, assumption+, simp add: backupCopy_def)
  show "keeps (\<lambda>w. keptAt k ob (pf_objects (w_db w))) (ensureNetworkPolicies t ns)" for t ns
    by (rule keeps_policies) (simp_all add: object_parts setOwnerAndCreate_def keeps_kept_create)
  show "keeps (\<lambda>w. keptAt k ob (pf_objects (w_db w))) (teardownApp ns (ca_Name app))" for ns app
    unfolding teardownApp_def
    by (rule keeps_foreach, rule keeps_objects(2)) (rule keptAt_other, auto simp: durable_def backupCopy_def policyKey_def)
  show "keeps (\<lambda>w. keptAt k ob (pf_objects (w_db w))) (reconcileKamaraCallers t ns)" for t ns
    by (rule keeps_writes) (auto simp: keptAt_def durable_def backupCopy_def policyKey_def)
  show "keeps (\<lambda>w. keptAt k ob (pf_objects (w_db w))) (reconcileKamaraEnv r t ns)" for r t ns
    by (rule keeps_writes) (auto simp: keptAt_def durable_def backupCopy_def)
qed

interpretation owned: object_reconcile "\<lambda>w. ownedSince name old (pf_objects (w_db w))" name spec for old name spec
proof unfold_locales
  show on: "onObjects (\<lambda>w. ownedSince name old (pf_objects (w_db w)))" by simp
  then show f: "faultless (\<lambda>w. ownedSince name old (pf_objects (w_db w)))" "randless (\<lambda>w. ownedSince name old (pf_objects (w_db w)))"
    "iamless (\<lambda>w. ownedSince name old (pf_objects (w_db w)))"
    by (simp_all add: object_parts)
  show "keeps (\<lambda>w. ownedSince name old (pf_objects (w_db w))) (setOwnerAndCreate t k ob)" if "tn_Name t = name" for t k ob
    by (rule keeps_owned_create [OF that])
  show "keeps (\<lambda>w. ownedSince name old (pf_objects (w_db w))) (ensureBackupCreds r t ns)" if "tn_Name t = name" for r t ns
    by (rule keeps_writes(3) [OF _ keeps_owned_create [OF that]]) (auto simp: ownedSince_def)
  show "keeps (\<lambda>w. ownedSince name old (pf_objects (w_db w))) (ensureNetworkPolicies t ns)" if "tn_Name t = name" for t ns
    by (rule keeps_policies [OF f(1) keeps_owned_create [OF that]])
  show "keeps (\<lambda>w. ownedSince name old (pf_objects (w_db w))) (teardownApp ns (ca_Name app))" for ns app
    unfolding teardownApp_def by (rule keeps_foreach, rule keeps_objects(2)) (auto simp: ownedSince_def)
  show "keeps (\<lambda>w. ownedSince name old (pf_objects (w_db w))) (reconcileKamaraCallers t ns)" for t ns
    by (rule keeps_writes) (auto simp: ownedSince_def policyKey_def)
  show "keeps (\<lambda>w. ownedSince name old (pf_objects (w_db w))) (reconcileKamaraEnv r t ns)" for r t ns
    by (rule keeps_writes) (auto simp: ownedSince_def)
qed

lemma GetTenantRes_outcome:
  "GetTenantRes n w = (x, w') \<Longrightarrow> w_db w' = w_db w \<and> (\<forall>t. x = Inr t \<longrightarrow> pf_tenants (w_db w) n = Some t)"
  unfolding GetTenantRes_def query_def bnd_def
  by (auto elim!: call_cases simp: ret_def fail_def split: option.splits sum.splits prod.splits)

lemma Reconcile_cases:
  assumes "Reconcile c name w = (x, w')"
  obtains (none) "w_db w' = w_db w"
  | (deleting) t w1 where "pf_tenants (w_db w) name = Some t" "tn_Deleting t" "w_db w1 = w_db w" "reconcileDeletion c t w1 = (x, w')"
  | (live) t w1 where "pf_tenants (w_db w) name = Some t" "\<not> tn_Deleting t" "w_db w1 = w_db w" "reconcileLive c t w1 = (x, w')"
proof -
  obtain g w1 where g: "GetTenantRes name w = (g, w1)" by fastforce
  note out = GetTenantRes_outcome [OF g]
  show ?thesis
  proof (cases g)
    case (Inl e)
    then have "w_db w' = w_db w" using assms g out by (auto simp: Reconcile_def attempt_def ret_def fail_def split: if_splits)
    then show ?thesis by (rule none)
  next
    case (Inr t)
    then have "(if tn_Deleting t then reconcileDeletion c t else reconcileLive c t) w1 = (x, w')"
      using assms g by (simp add: Reconcile_def attempt_def)
    then show ?thesis using deleting [of t w1] live [of t w1] out Inr by (auto split: if_splits)
  qed
qed

lemma keeps_Reconcile:
  assumes "faultless I" "\<And>t. keeps I (reconcileDeletion c t)" "\<And>t. keeps I (reconcileLive c t)"
  shows "keeps I (Reconcile c name)"
  unfolding Reconcile_def by (intro keeps_rules keeps_attempt_io assms)

text \<open>C19. Whatever the faults, the configuration and the answers of the identity provider: a reconcile, of any tenant, leaves
  every existing volume claim, database, cluster, backup schedule, namespace and secret exactly as it is: no data-encryption
  key, database credential or client secret is ever rewritten, rotated or deleted by it. The one secret outside this is the
  tenant's copy of the platform's backup credentials (\<open>backup-s3\<close>), which a reconcile brings in line with the
  configuration by design: it is never deleted either, and nothing of it but its payload changes.\<close>

theorem Reconcile_keeps_data:
  assumes "pf_objects (w_db w) k = Some ob"
  shows "(durable k \<longrightarrow> pf_objects (w_db (snd (Reconcile c name w))) k = Some ob) \<and>
    (backupCopy k \<longrightarrow> (\<exists>p. pf_objects (w_db (snd (Reconcile c name w))) k = Some (ob\<lparr>ob_Payload := p\<rparr>)))"
proof -
  have "keeps (\<lambda>w. keptAt k ob (pf_objects (w_db w))) (Reconcile c name)"
    by (rule keeps_Reconcile [OF object_parts(1) kept.status.deletion kept.status.live]) simp_all
  moreover have "ob\<lparr>ob_Payload := ob_Payload ob\<rparr> = ob" by simp
  then have "keptAt k ob (pf_objects (w_db w))" using assms unfolding keptAt_def by metis
  ultimately have "keptAt k ob (pf_objects (w_db (snd (Reconcile c name w))))" by (rule keepsD)
  then show ?thesis by (simp only: keptAt_def)
qed

text \<open>C22. Everything a reconcile creates for a tenant, in its namespace or in the platform's, carries the tenant as its
  controller, so that deleting the tenant lets the cluster collect all of it; this holds for every pattern of faults,
  also when the reconcile stops half-way.\<close>

theorem Reconcile_owned:
  assumes "pf_tenants (w_db w) name = Some t" "Reconcile c name w = (x, w')"
    and "pf_objects (w_db w) k = None" "pf_objects (w_db w') k = Some ob"
  shows "ob_Controller ob = Some (tn_Name t)"
proof -
  let ?J = "\<lambda>v. ownedSince (tn_Name t) (pf_objects (w_db w)) (pf_objects (w_db v))"
  have start: "?J v" if "w_db v = w_db w" for v using that by (simp add: ownedSince_def)
  from assms(2) have "?J w'"
  proof (cases rule: Reconcile_cases)
    case none
    then show ?thesis by (rule start)
  next
    case (deleting t' w1)
    then have "t' = t" using assms(1) by simp
    then show ?thesis using keepsD2 [where I = ?J, OF owned.status.deletion start deleting(4)] deleting(3) by simp
  next
    case (live t' w1)
    then have "t' = t" using assms(1) by simp
    then show ?thesis
      using keepsD2 [where I = ?J, OF owned.status.live start live(4)] live(3) by simp
  qed
  then show ?thesis using assms(3,4) unfolding ownedSince_def by blast
qed

section \<open>The identity of a tenant\<close>

text \<open>
  What the status of a tenant with a given slug may record: an issuer, if any, on the tenant's slug host; a client only
  together with an issuer and an instance; and the phase \<open>Ready\<close>, when identities are provisioned at all, only with both.
\<close>

definition statusOK :: "'z controller \<Rightarrow> string \<Rightarrow> tenant_status \<Rightarrow> bool" where
  "statusOK c slug st \<longleftrightarrow>
     (st_Issuer st = [] \<or> st_Issuer st = publicURL (ct_rc c) (slug @ ''.'' @ rc_BaseDomain (ct_rc c))) \<and>
     (st_ClientID st \<noteq> [] \<longrightarrow> st_Issuer st \<noteq> [] \<and> st_InstanceID st \<noteq> []) \<and>
     (st_Phase st = TenantReady \<and> ct_IAM c \<noteq> None \<longrightarrow> st_Issuer st \<noteq> [] \<and> st_InstanceID st \<noteq> [])"

definition tenantsOK :: "'z controller \<Rightarrow> (string \<rightharpoonup> tenant) \<Rightarrow> bool" where
  "tenantsOK c f \<longleftrightarrow>
     (\<forall>n t. f n = Some t \<longrightarrow> tn_Name t = n \<and> admissible (tn_Spec t) \<and> statusOK c (ts_Slug (tn_Spec t)) (tn_Status t))"

definition steady :: "'z controller \<Rightarrow> string \<Rightarrow> string \<Rightarrow> (string \<rightharpoonup> tenant) \<Rightarrow> bool" where
  "steady c name slug f \<longleftrightarrow> tenantsOK c f \<and> (\<forall>t. f name = Some t \<longrightarrow> ts_Slug (tn_Spec t) = slug)"

definition reportable :: "'z controller \<Rightarrow> tenant \<Rightarrow> bool \<Rightarrow> bool" where
  "reportable c t rd \<longleftrightarrow>
     statusOK c (ts_Slug (tn_Spec t)) (tn_Status t) \<and>
     (rd \<and> ct_IAM c \<noteq> None \<longrightarrow> st_Issuer (tn_Status t) \<noteq> [] \<and> st_InstanceID (tn_Status t) \<noteq> [])"

lemma keeps_tenants:
  fixes Q :: "(string \<rightharpoonup> tenant) \<Rightarrow> bool"
  shows "(\<And>f old. Q f \<Longrightarrow> f (tn_Name t) = Some old \<Longrightarrow> admissible (tn_Spec t) \<Longrightarrow> ts_Slug (tn_Spec t) = ts_Slug (tn_Spec old) \<Longrightarrow>
        Q (f(tn_Name t := storeTenant old t))) \<Longrightarrow> keeps (\<lambda>w. Q (pf_tenants (w_db w))) (UpdateTenantRes t)"
    "(\<And>f old. Q f \<Longrightarrow> f (tn_Name t) = Some old \<Longrightarrow> Q (f(tn_Name t \<mapsto> old\<lparr>tn_Status := tn_Status t\<rparr>))) \<Longrightarrow>
        keeps (\<lambda>w. Q (pf_tenants (w_db w))) (UpdateTenantStatus t)"
    "(\<And>f. Q f \<Longrightarrow> admissible sp \<Longrightarrow> f n = None \<Longrightarrow> Q (f(n \<mapsto> \<lparr>tn_Name = n, tn_Generation = 1, tn_Deleting = False, tn_Finalizers = [],
        tn_Spec = sp, tn_Status = emptyStatus\<rparr>))) \<Longrightarrow> keeps (\<lambda>w. Q (pf_tenants (w_db w))) (CreateTenantRes n sp)"
    "(\<And>f t. Q f \<Longrightarrow> f n = Some t \<Longrightarrow> Q (f(n := None)) \<and> Q (f(n \<mapsto> t\<lparr>tn_Deleting := True\<rparr>))) \<Longrightarrow>
        keeps (\<lambda>w. Q (pf_tenants (w_db w))) (DeleteTenantRes n)"
proof -
  have f: "faultless (\<lambda>w. Q (pf_tenants (w_db w)))" by (simp add: faultless_def)
  show "keeps (\<lambda>w. Q (pf_tenants (w_db w))) (UpdateTenantRes t)"
    if "\<And>f old. Q f \<Longrightarrow> f (tn_Name t) = Some old \<Longrightarrow> admissible (tn_Spec t) \<Longrightarrow> ts_Slug (tn_Spec t) = ts_Slug (tn_Spec old) \<Longrightarrow>
        Q (f(tn_Name t := storeTenant old t))"
    unfolding UpdateTenantRes_def by (rule keeps_exec [OF f]) (auto split: option.splits if_splits intro: that)
  show "keeps (\<lambda>w. Q (pf_tenants (w_db w))) (UpdateTenantStatus t)"
    if "\<And>f old. Q f \<Longrightarrow> f (tn_Name t) = Some old \<Longrightarrow> Q (f(tn_Name t \<mapsto> old\<lparr>tn_Status := tn_Status t\<rparr>))"
    unfolding UpdateTenantStatus_def by (rule keeps_exec [OF f]) (auto split: option.splits intro: that)
  show "keeps (\<lambda>w. Q (pf_tenants (w_db w))) (CreateTenantRes n sp)"
    if "\<And>f. Q f \<Longrightarrow> admissible sp \<Longrightarrow> f n = None \<Longrightarrow> Q (f(n \<mapsto> \<lparr>tn_Name = n, tn_Generation = 1, tn_Deleting = False, tn_Finalizers = [],
        tn_Spec = sp, tn_Status = emptyStatus\<rparr>))"
    unfolding CreateTenantRes_def by (rule keeps_exec [OF f]) (auto split: if_splits intro: that)
  show "keeps (\<lambda>w. Q (pf_tenants (w_db w))) (DeleteTenantRes n)"
    if "\<And>f t. Q f \<Longrightarrow> f n = Some t \<Longrightarrow> Q (f(n := None)) \<and> Q (f(n \<mapsto> t\<lparr>tn_Deleting := True\<rparr>))"
    unfolding DeleteTenantRes_def by (rule keeps_exec [OF f]) (auto split: option.splits dest: that)
qed

lemma tenantsOK_set: "tenantsOK c f \<Longrightarrow> tn_Name t = n \<Longrightarrow> admissible (tn_Spec t) \<Longrightarrow> statusOK c (ts_Slug (tn_Spec t)) (tn_Status t) \<Longrightarrow> tenantsOK c (f(n \<mapsto> t))"
  by (simp add: tenantsOK_def)

lemma tenantsOK_del: "tenantsOK c f \<Longrightarrow> tenantsOK c (f(n := None))"
  by (simp add: tenantsOK_def)

lemma tenantsOK_store:
  assumes "tenantsOK c f" "f n = Some old" "admissible (tn_Spec t)" "ts_Slug (tn_Spec t) = ts_Slug (tn_Spec old)"
  shows "tenantsOK c (f(n := storeTenant old t))"
proof -
  have "tn_Name old = n" "statusOK c (ts_Slug (tn_Spec old)) (tn_Status old)" using assms(1,2) by (auto simp: tenantsOK_def)
  then show ?thesis
    using assms by (auto simp: storeTenant_def Let_def intro!: tenantsOK_set tenantsOK_del)
qed

lemma steady_store:
  assumes "steady c name slug f" "f n = Some old" "admissible (tn_Spec t)" "ts_Slug (tn_Spec t) = ts_Slug (tn_Spec old)"
  shows "steady c name slug (f(n := storeTenant old t))"
proof -
  have "storeTenant old t = Some t' \<Longrightarrow> tn_Spec t' = tn_Spec t" for t' by (auto simp: storeTenant_def Let_def split: if_splits)
  then show ?thesis
    using assms tenantsOK_store [of c f n old t] by (auto simp: steady_def simp del: fun_upd_apply) (auto split: if_splits)
qed

lemma reportStatus_keeps:
  assumes "tn_Name t = name" "ts_Slug (tn_Spec t) = slug" "reportable c t rd"
  shows "keeps (\<lambda>w. steady c name slug (pf_tenants (w_db w))) (reportStatus t b rd a q)"
proof -
  let ?t = "setPhase (if b \<and> rd \<and> a then TenantReady else TenantPending)
    (setCondition ''AppsReady'' a (setCondition ''IAMProvisioned'' rd (setCondition ''DatabaseReady'' b t)))"
  have st: "statusOK c slug (tn_Status ?t)" and nm: "tn_Name ?t = name"
    using assms by (auto simp: reportable_def statusOK_def setPhase_def setCondition_def Let_def)
  have "keeps (\<lambda>w. steady c name slug (pf_tenants (w_db w))) (UpdateTenantStatus ?t)"
  proof (rule keeps_tenants(2))
    fix f old assume f: "steady c name slug f" "f (tn_Name ?t) = Some old"
    then have old: "tn_Name old = name" "admissible (tn_Spec old)" "ts_Slug (tn_Spec old) = slug"
      unfolding steady_def tenantsOK_def nm by auto
    show "steady c name slug (f(tn_Name ?t \<mapsto> old\<lparr>tn_Status := tn_Status ?t\<rparr>))"
      unfolding steady_def nm using f(1) old st by (auto simp: steady_def intro!: tenantsOK_set)
  qed
  then show ?thesis unfolding reportStatus_def Let_def by (intro keeps_rules)
qed

lemma provisionIAM_reportable:
  assumes "statusOK c (ts_Slug (tn_Spec t)) (tn_Status t)" "provisionIAM (ct_rc c) z t w = (Inr (t', rd, q), w')"
  shows "reportable c t' rd"
  using provisionIAM_result [OF assms(2)] assms(1)
  by (auto simp: reportable_def statusOK_def setInstanceID_def setClient_def tenantIssuer_def Tenant.issuerHost_def)

interpretation steady: reconcile_assertion "\<lambda>w. steady c name (ts_Slug spec) (pf_tenants (w_db w))" name spec c
    "\<lambda>t. statusOK c (ts_Slug (tn_Spec t)) (tn_Status t)" "reportable c" for c name spec
proof unfold_locales
  let ?I = "\<lambda>w. steady c name (ts_Slug spec) (pf_tenants (w_db w))"
  have on: "onTenants ?I" by simp
  show q: "faultless ?I" "randless ?I" "iamless ?I" by (simp_all add: faultless_def randless_def)
  have obj: "onTenants ?I \<or> onIam ?I" using on by blast
  show cr: "keeps ?I (setOwnerAndCreate t k ob)" for t k ob by (rule keeps_object_calls [OF obj])
  show "keeps ?I (ensureBackupCreds r t ns)" for r t ns
    unfolding ensureBackupCreds_def Let_def by (intro keeps_rules keeps_attempt_io keeps_object_calls [OF obj] q)
  show "keeps ?I (ensureNetworkPolicies t ns)" for t ns by (rule keeps_policies [OF q(1) cr])
  have del: "keeps ?I (deleteIfPresent k)" for k
    unfolding deleteIfPresent_def by (intro keeps_rules keeps_object_calls [OF obj])
  show "keeps ?I (teardownApp ns (ca_Name app))" for ns app
    unfolding teardownApp_def by (intro keeps_rules del)
  show "keeps ?I (reconcileKamaraCallers t ns)" for t ns
    unfolding reconcileKamaraCallers_def Let_def
    by (intro keeps_attempt_io keeps_kubeGet q keeps_rules) (auto split: payload_spec.split list.split intro!: keeps_object_calls [OF obj])
  show "keeps ?I (reconcileKamaraEnv r t ns)" for r t ns
    unfolding reconcileKamaraEnv_def Let_def
    by (intro keeps_attempt_io keeps_kubeGet q keeps_rules) (auto split: payload_spec.split list.split intro!: keeps_object_calls [OF obj])
  show "keeps ?I (UpdateTenantRes t)" for t
    by (rule keeps_tenants(1)) (rule steady_store)
  show "keeps ?I (reportStatus t b rd a q)" if "tn_Name t = name" "tn_Spec t = spec" "reportable c t rd" for t b rd a q
    by (rule reportStatus_keeps) (simp_all add: that)
  show "reportable c t True" if "statusOK c (ts_Slug (tn_Spec t)) (tn_Status t)" "ct_IAM c = None" for t
    using that by (simp add: reportable_def)
  show "reportable c t' rd"
    if "statusOK c (ts_Slug (tn_Spec t)) (tn_Status t)" "provisionIAM (ct_rc c) z t w = (Inr (t', rd, q), w')" for z t w t' rd q w'
    by (rule provisionIAM_reportable [OF that])
qed simp

lemma keeps_tenantsOK_Reconcile:
  fixes c :: "'z controller"
  shows "keeps (\<lambda>w. tenantsOK c (pf_tenants (w_db w))) (Reconcile c name)"
proof (rule keepsI)
  fix w :: "'z platform world" assume I: "tenantsOK c (pf_tenants (w_db w))"
  obtain x w' where run: "Reconcile c name w = (x, w')" by fastforce
  have start: "steady c (tn_Name t) (ts_Slug (tn_Spec t)) (pf_tenants (w_db w1))" "statusOK c (ts_Slug (tn_Spec t)) (tn_Status t)"
    if "pf_tenants (w_db w) name = Some t" "w_db w1 = w_db w" for t w1
    using that I by (auto simp: steady_def tenantsOK_def)
  have "tenantsOK c (pf_tenants (w_db w'))"
    using run
  proof (cases rule: Reconcile_cases)
    case none
    then show ?thesis using I by simp
  next
    case (deleting t w1)
    have "steady c (tn_Name t) (ts_Slug (tn_Spec t)) (pf_tenants (w_db w'))"
      by (rule keepsD2 [where I = "\<lambda>w. steady c (tn_Name t) (ts_Slug (tn_Spec t)) (pf_tenants (w_db w))",
            OF steady.deletion start(1) [OF deleting(1,3)] deleting(4)]) simp_all
    then show ?thesis by (simp add: steady_def)
  next
    case (live t w1)
    have "steady c (tn_Name t) (ts_Slug (tn_Spec t)) (pf_tenants (w_db w'))"
      by (rule keepsD2 [where I = "\<lambda>w. steady c (tn_Name t) (ts_Slug (tn_Spec t)) (pf_tenants (w_db w))",
            OF steady.live start(1) [OF live(1,3)] live(4)]) (simp_all add: start(2) [OF live(1,3)])
    then show ?thesis by (simp add: steady_def)
  qed
  then show "tenantsOK c (pf_tenants (w_db (snd (Reconcile c name w))))" using run by simp
qed

section \<open>Off-boarding\<close>

lemma serve_calm: "calm w \<Longrightarrow> serve z q w = (case zt_serve z (w_now w) q (pf_iam (w_db w)) of (a, s) \<Rightarrow> (Inr a, w\<lparr>w_db := (w_db w)\<lparr>pf_iam := s\<rparr>\<rparr>))"
  by (simp add: serve_def)








lemma keeps_releaseTenant: "onIam I \<Longrightarrow> keeps I (releaseTenant t)"
  unfolding releaseTenant_def by (intro keeps_rules keeps_tenant_calls) simp


text \<open>
  What the evidence does not exclude. No instance was recorded: then an empty search by domain is taken as proof that there is
  none, and discovery is not asked: an instance that the search does not show yet is left behind.
\<close>

lemma deleteInstance_unseen:
  assumes "st_InstanceID (tn_Status t) = []" "InstanceIDByDomain z (instanceDomain r t) w = (Inl ErrIamNotFound, w')"
  shows "deleteInstance r z t w = (Inr True, w')"
  using assms by (simp add: deleteInstance_def attempt_def ret_def)

text \<open>And a discovery call that fails counts as an instance that does not answer.\<close>

lemma deleteInstance_outage:
  assumes "st_InstanceID (tn_Status t) = i" "i \<noteq> []" "DeleteInstance z i w = (Inl ErrIamNotFound, w1)"
    and "serve z (discoveryRequest (tenantIssuer r t)) w1 = (Inl e, w')"
  shows "deleteInstance r z t w = (Inr True, w')"
  using assms by (simp add: deleteInstance_def attempt_def DiscoveryAlive_def catch_def bnd_def ret_def)

section \<open>A tenant without and with an identity provider\<close>

definition demoPlatform :: "tenant \<Rightarrow> (objkey \<rightharpoonup> kobject) \<Rightarrow> 'z \<Rightarrow> 'z platform" where
  "demoPlatform t obs s = \<lparr>pf_tenants = [tn_Name t \<mapsto> t], pf_objects = obs, pf_available = (\<lambda>_ _. 1), pf_ready = (\<lambda>_. Some 1),
     pf_token = None, pf_iam = s\<rparr>"

definition finalized :: "tenant \<Rightarrow> tenant" where
  "finalized t = t\<lparr>tn_Finalizers := [finalizer]\<rparr>"

definition offline :: "unit controller" where
  "offline = \<lparr>ct_rc = demoRC, ct_IAM = None\<rparr>"

theorem Reconcile_keeps_data_witness:
  "pf_objects (w_db (snd (Reconcile offline ''acme''
      ((demoWorld (demoPlatform (newTenant ''acme'' []) [dekKey ''tenant-acme'' ''kamara'' \<mapsto> mkObject [] (PSecret [(''dek'', ''k'')])] ()))
        \<lparr>w_faults := [FNone, FNone, FNone, FNone, FAfter]\<rparr>))))
     (dekKey ''tenant-acme'' ''kamara'') = Some (mkObject [] (PSecret [(''dek'', ''k'')]))"
  by (rule Reconcile_keeps_data [THEN conjunct1, THEN mp]) (simp_all add: durable_def dekKey_def backupCredsSecret_def demoPlatform_def)

theorem Reconcile_owned_witness:
  "\<exists>ob. pf_objects (w_db (snd (Reconcile offline ''acme'' (demoWorld (demoPlatform (finalized (newTenant ''acme'' [])) Map.empty ())))))
     (Cluster, ''tenant-acme'', ''db'') = Some ob \<and> ob_Controller ob = Some ''acme''"
proof -
  let ?w = "demoWorld (demoPlatform (finalized (newTenant ''acme'' [])) Map.empty ())" and ?k = "(Cluster, ''tenant-acme'', ''db'')"
  obtain x w' where run: "Reconcile offline ''acme'' ?w = (x, w')" by fastforce
  have "pf_objects (w_db (snd (Reconcile offline ''acme'' ?w))) ?k \<noteq> None" by code_simp
  then obtain ob where ob: "pf_objects (w_db w') ?k = Some ob" using run by auto
  have t: "pf_tenants (w_db ?w) ''acme'' = Some (finalized (newTenant ''acme'' []))" "pf_objects (w_db ?w) ?k = None"
    by (simp_all add: demoPlatform_def finalized_def newTenant_def)
  show ?thesis using Reconcile_owned [OF t(1) run t(2) ob] ob run by (simp add: finalized_def newTenant_def)
qed




end
