(* ===== verification/Isolation.thy ===== *)
theory Isolation
  imports Reconcile
begin

text \<open>
  What a reconcile that ends well has achieved: the network policies in the tenant's namespace are exactly those its
  specification asks for, whatever optional apps were enabled before, and a tenant is reported \<open>Ready\<close> only when its
  database and every app it runs are up behind these policies.
\<close>

section \<open>Policies in the cluster\<close>

definition policiesIn :: "(objkey \<rightharpoonup> kobject) \<Rightarrow> string \<Rightarrow> (string \<times> network_policy) set" where
  "policiesIn f ns = {(n, np). \<exists>ob. f (NetworkPolicy, ns, n) = Some ob \<and> ob_Payload ob = PNetworkPolicy np}"

text \<open>
  A namespace whose network policies were all generated by the control plane, for this or for an earlier specification.
\<close>

definition genuinePolicy :: "string \<Rightarrow> kobject \<Rightarrow> bool" where
  "genuinePolicy n ob \<longleftrightarrow>
     (\<exists>app \<in> set catalog. n = ''np-'' @ ca_Name app \<and> (\<exists>u. ob_Payload ob = PNetworkPolicy (appPolicy u app))) \<or>
     n = ''np-openfga'' \<and> ob_Payload ob = PNetworkPolicy openFGAPolicy"

definition genuinePolicies :: "string \<Rightarrow> (objkey \<rightharpoonup> kobject) \<Rightarrow> bool" where
  "genuinePolicies ns f \<longleftrightarrow> (\<forall>n ob. f (NetworkPolicy, ns, n) = Some ob \<longrightarrow> genuinePolicy n ob)"

lemma genuine_upd: "genuinePolicies ns f \<Longrightarrow> (\<And>n. k = (NetworkPolicy, ns, n) \<Longrightarrow> genuinePolicy n ob) \<Longrightarrow> genuinePolicies ns (f(k \<mapsto> ob))"
  by (simp add: genuinePolicies_def)

lemma genuine_del: "genuinePolicies ns f \<Longrightarrow> genuinePolicies ns (f(k := None))"
  by (simp add: genuinePolicies_def)

lemma np_app_not_openfga: "app \<in> set catalog \<Longrightarrow> ca_Name app \<noteq> ''openfga''"
  using catalog_names(2) by (auto simp: image_iff)

lemma genuine_kamara:
  assumes "genuinePolicies ns f" "f (policyKey ns ''kamara'') = Some ob"
  shows "\<exists>app \<in> set catalog. ca_Name app = ''kamara'' \<and> (\<exists>u. ob_Payload ob = PNetworkPolicy (appPolicy u app))"
proof -
  have "genuinePolicy ''np-kamara'' ob" using assms by (simp add: genuinePolicies_def policyKey_def)
  then show ?thesis by (auto simp: genuinePolicy_def)
qed

text \<open>The rewritten policy of Kamara is the generated one.\<close>

lemma callers_write:
  "ca_Name app = ''kamara'' \<Longrightarrow> np_Ingress (appPolicy u app) = [rule] \<Longrightarrow>
   (appPolicy u app)\<lparr>np_Ingress := [rule\<lparr>pr_Peers := callerPeers t ''kamara''\<rparr>]\<rparr> = appPolicy t app"
  by (auto simp: appPolicy_def)

lemma tenantPolicies_genuine: "(k, p) \<in> set (tenantPolicies t ns') \<Longrightarrow> k = (NetworkPolicy, ns, n) \<Longrightarrow> genuinePolicy n (SetControllerReference t (mkObject managedBy (PNetworkPolicy p)))"
  by (auto simp: tenantPolicies_def policyKey_def genuinePolicy_def mkObject_def SetControllerReference_def split: if_splits)

lemma keeps_genuine_callers:
  "keeps (\<lambda>w. genuinePolicies ns (pf_objects (w_db w))) (reconcileKamaraCallers t ns' :: ('z, unit) cp)"
  unfolding reconcileKamaraCallers_def Let_def
proof (rule keeps_get_update, intro keeps_rules)
  fix ob and w :: "'z platform world" assume g: "genuinePolicies ns (pf_objects (w_db w))" "pf_objects (w_db w) (policyKey ns' ''kamara'') = Some ob"
  have upd: "genuinePolicies ns (pf_objects (w_db (snd (kubeUpdate k ob' w))))" if "genuinePolicies ns ((pf_objects (w_db w))(k \<mapsto> ob'))" for k ob'
    using that g(1) kubeUpdate_outcome [of k ob' w] by (metis prod.collapse)
  have new: "genuinePolicies ns ((pf_objects (w_db w))(policyKey ns' ''kamara'' \<mapsto>
      ob\<lparr>ob_Payload := PNetworkPolicy (np\<lparr>np_Ingress := [rule\<lparr>pr_Peers := callerPeers t ''kamara''\<rparr>]\<rparr>)\<rparr>))"
    if "ob_Payload ob = PNetworkPolicy np" "np_Ingress np = [rule]" for np rule
  proof (rule genuine_upd [OF g(1)])
    fix n assume k: "policyKey ns' ''kamara'' = (NetworkPolicy, ns, n)"
    then have ns: "ns' = ns" "n = ''np-kamara''" by (simp_all add: policyKey_def)
      obtain app u where app: "app \<in> set catalog" "ca_Name app = ''kamara''" and pay: "ob_Payload ob = PNetworkPolicy (appPolicy u app)"
        using genuine_kamara [OF g(1)] g(2) ns by blast
      from pay that(1) have "np = appPolicy u app" by simp
      note app = app this
    then show "genuinePolicy n (ob\<lparr>ob_Payload := PNetworkPolicy (np\<lparr>np_Ingress := [rule\<lparr>pr_Peers := callerPeers t ''kamara''\<rparr>]\<rparr>)\<rparr>)"
      using callers_write [OF app(2), of u rule t] that(2) ns by (auto simp: genuinePolicy_def intro!: bexI [of _ app])
  qed
  show "genuinePolicies ns (pf_objects (w_db (snd ((case ob_Payload ob of
      PNetworkPolicy np \<Rightarrow> (case np_Ingress np of
          [rule] \<Rightarrow> if equalStringSet (callerNames (pr_Peers rule)) (enabledCallersOf t ''kamara'') then ret ()
            else kubeUpdate (policyKey ns' ''kamara'') (ob\<lparr>ob_Payload := PNetworkPolicy (np\<lparr>np_Ingress := [rule\<lparr>pr_Peers := callerPeers t ''kamara''\<rparr>]\<rparr>)\<rparr>)
        | _ \<Rightarrow> ret ())
    | _ \<Rightarrow> ret ()) w))))"
    using g(1) upd new by (auto simp: ret_def split: payload_spec.split list.split)
qed

interpretation genuine: object_reconcile "\<lambda>w. genuinePolicies ns (pf_objects (w_db w))" name spec for ns name spec
proof unfold_locales
  let ?I = "\<lambda>w. genuinePolicies ns (pf_objects (w_db w))"
  show "onObjects ?I" by simp
  show q: "faultless ?I" "randless ?I" "iamless ?I" by (simp_all add: object_parts)
  show cr: "keeps ?I (setOwnerAndCreate t k ob)" if "fst k \<noteq> NetworkPolicy" for t k ob
    unfolding setOwnerAndCreate_def using that by (intro keeps_objects(1)) (rule genuine_upd, assumption, simp)
  show "keeps ?I (ensureBackupCreds r t ns')" for r t ns'
    by (rule keeps_writes(3)) (auto intro!: genuine_upd cr simp del: fun_upd_apply)
  show "keeps ?I (ensureNetworkPolicies t ns')" for t ns'
  proof (rule keeps_policies [OF q(1)])
    fix k p assume "(k, p) \<in> set (tenantPolicies t ns')"
    then show "keeps ?I (setOwnerAndCreate t k (mkObject managedBy (PNetworkPolicy p)))"
      unfolding setOwnerAndCreate_def by (intro keeps_objects(1)) (rule genuine_upd, assumption, erule tenantPolicies_genuine)
  qed
  show "keeps ?I (teardownApp ns' (ca_Name app))" for ns' app
    unfolding teardownApp_def by (rule keeps_foreach, rule keeps_objects(2)) (rule genuine_del)
  show "keeps ?I (reconcileKamaraEnv r t ns')" for r t ns'
    by (rule keeps_writes(2)) (auto intro!: genuine_upd simp del: fun_upd_apply)
  show "keeps ?I (reconcileKamaraCallers t ns')" for t ns' by (rule keeps_genuine_callers)
qed

section \<open>What a successful run has done\<close>

lemma foreach_all:
  assumes "\<And>x w w'. x \<in> set xs \<Longrightarrow> f x w = (Inr (), w') \<Longrightarrow> P x w'"
    and "\<And>x y w r w'. x \<in> set xs \<Longrightarrow> y \<in> set xs \<Longrightarrow> P x w \<Longrightarrow> f y w = (r, w') \<Longrightarrow> P x w'"
    and "foreach f xs w = (Inr (), w')"
  shows "\<forall>x \<in> set xs. P x w'"
  using assms
proof (induction xs arbitrary: w)
  case (Cons x xs)
  obtain w1 where w1: "f x w = (Inr (), w1)" "foreach f xs w1 = (Inr (), w')"
    using Cons.prems(3) by (auto elim!: bnd_InrE)
  have "keeps (P x) (foreach f xs)"
    by (rule keeps_foreach, rule keepsI) (metis Cons.prems(2) list.set_intros prod.collapse)
  then have "P x w'" using keepsD2 [where I = "P x" and m = "foreach f xs"] w1(2) Cons.prems(1) [OF _ w1(1)] by fastforce
  moreover have "\<forall>y \<in> set xs. P y w'"
    using Cons.IH [OF _ _ w1(2)] Cons.prems(1,2) by (meson list.set_intros(2))
  ultimately show ?case by simp
qed simp

lemma createIfAbsent_present: "createIfAbsent t k ob w = (Inr (), w') \<Longrightarrow> pf_objects (w_db w') k \<noteq> None"
proof -
  assume run: "createIfAbsent t k ob w = (Inr (), w')"
  have create: "kubeCreate k ob' w1 = (Inr (), w2) \<Longrightarrow> pf_objects (w_db w2) k \<noteq> None" for ob' w1 w2
    unfolding kubeCreate_def exec_def by (auto elim!: call_cases simp: execRaw_def split: if_splits)
  obtain g w1 where g: "kubeGet k w = (g, w1)" by fastforce
  then show ?thesis
    using run create kubeGet_outcome [of k w _ w1]
    by (auto simp: createIfAbsent_def ifAbsent_def setOwnerAndCreate_def split: sum.splits if_splits)
qed

lemma createIfAbsent_stays: "pf_objects (w_db w) k \<noteq> None \<Longrightarrow> createIfAbsent t k' ob w = (r, w') \<Longrightarrow> pf_objects (w_db w') k \<noteq> None"
proof -
  have "keeps (\<lambda>w. pf_objects (w_db w) k \<noteq> None) (createIfAbsent t k' ob)"
    unfolding createIfAbsent_def setOwnerAndCreate_def
    by (intro keeps_ifAbsent keeps_objects(1)) (auto simp: faultless_def)
  then show "pf_objects (w_db w) k \<noteq> None \<Longrightarrow> createIfAbsent t k' ob w = (r, w') \<Longrightarrow> pf_objects (w_db w') k \<noteq> None"
    by (rule keepsD2)
qed

lemma ensureNetworkPolicies_present:
  fixes w :: "'z platform world"
  assumes "ensureNetworkPolicies t ns w = (Inr (), w')" "(k, p) \<in> set (tenantPolicies t ns)"
  shows "pf_objects (w_db w') k \<noteq> None"
proof -
  have "\<forall>x \<in> set (tenantPolicies t ns). pf_objects (w_db w') (fst x) \<noteq> None"
  proof (rule foreach_all [OF _ _ assms(1) [unfolded ensureNetworkPolicies_def]])
    fix x y :: "objkey \<times> network_policy" and v v' :: "'z platform world" and r
    show "(case x of (k, p) \<Rightarrow> createIfAbsent t k (mkObject managedBy (PNetworkPolicy p))) v = (Inr (), v') \<Longrightarrow> pf_objects (w_db v') (fst x) \<noteq> None"
      by (cases x) (simp only: prod.case fst_conv, rule createIfAbsent_present)
    show "pf_objects (w_db v) (fst x) \<noteq> None \<Longrightarrow>
        (case y of (k, p) \<Rightarrow> createIfAbsent t k (mkObject managedBy (PNetworkPolicy p))) v = (r, v') \<Longrightarrow> pf_objects (w_db v') (fst x) \<noteq> None"
      by (cases y) (simp only: prod.case, rule createIfAbsent_stays)
  qed
  then show ?thesis using assms(2) by fastforce
qed

lemma deleteIfPresent_gone: "deleteIfPresent k w = (Inr (), w') \<Longrightarrow> pf_objects (w_db w') k = None"
proof -
  assume run: "deleteIfPresent k w = (Inr (), w')"
  obtain x w1 where d: "kubeDelete k w = (x, w1)" by fastforce
  have "x = Inr () \<or> x = Inl ErrAbsent" "w1 = w'"
    using run d by (auto simp: deleteIfPresent_def catch_def ret_def fail_def split: sum.splits if_splits)
  moreover have "x = Inr () \<or> x = Inl ErrAbsent \<Longrightarrow> pf_objects (w_db w1) k = None"
    using d unfolding kubeDelete_def exec_def by (auto elim!: call_cases simp: execRaw_def split: if_splits)
  ultimately show ?thesis by blast
qed

text \<open>Tearing an app down removes its policy and touches no other.\<close>

lemma keeps_teardown_policy:
  assumes "n \<noteq> ''np-'' @ name \<or> ns' \<noteq> ns"
  shows "keeps (\<lambda>w. Q (pf_objects (w_db w) (NetworkPolicy, ns', n))) (teardownApp ns name)"
  unfolding teardownApp_def
proof (rule keeps_foreach)
  fix k assume k: "k \<in> set [(Deployment, ns, name), (Service, ns, name), (Ingress, ns, name), policyKey ns name]"
  have "k \<noteq> (NetworkPolicy, ns', n)" using k assms by (auto simp: policyKey_def)
  then show "keeps (\<lambda>w. Q (pf_objects (w_db w) (NetworkPolicy, ns', n))) (deleteIfPresent k)"
    using keeps_objects(2) [where Q = "\<lambda>f. Q (f (NetworkPolicy, ns', n))" and k = k] by simp
qed

lemma teardownApp_gone:
  assumes "teardownApp ns name w = (Inr (), w')"
  shows "pf_objects (w_db w') (policyKey ns name) = None"
  using assms unfolding teardownApp_def by (auto elim!: bnd_InrE dest: deleteIfPresent_gone simp: ret_def)

section \<open>The caller set of Kamara\<close>

lemma enabled_callers_kamara:
  "enabledCallersOf t ''kamara'' = ''ergonomos'' # (if tenantEnables t ''office'' then [''office''] else [])"
  by (simp add: enabledCallersOf_def catalog_def stubApp_def provisioned_def)

lemma no_callers: "target \<noteq> ''kamara'' \<Longrightarrow> enabledCallersOf u target = []"
proof -
  assume a: "target \<noteq> ''kamara''"
  have "list_all (\<lambda>b. ca_Calls b = [] \<or> ca_Calls b = [''kamara'']) catalog" by (simp add: catalog_def stubApp_def)
  then have "filter (\<lambda>c. c = target) (ca_Calls b) = []" if "b \<in> set catalog" for b using that a by (auto simp: list_all_iff filter_empty_conv)
  then show ?thesis by (auto simp: enabledCallersOf_def)
qed

lemma enabled_callers_eq:
  "set (enabledCallersOf u target) = set (enabledCallersOf t target) \<Longrightarrow> enabledCallersOf u target = enabledCallersOf t target"
proof (cases "target = ''kamara''")
  case True
  assume "set (enabledCallersOf u target) = set (enabledCallersOf t target)"
  then have "(''office'' \<in> set (enabledCallersOf u ''kamara'')) = (''office'' \<in> set (enabledCallersOf t ''kamara''))" unfolding True by simp
  then have "tenantEnables u ''office'' = tenantEnables t ''office''" unfolding enabled_callers_kamara by simp
  then show ?thesis unfolding True enabled_callers_kamara by simp
qed (simp add: no_callers)

lemma appPolicy_same: "set (enabledCallersOf u (ca_Name app)) = set (enabledCallersOf t (ca_Name app)) \<Longrightarrow> appPolicy u app = appPolicy t app"
  by (simp add: appPolicy_def callerPeers_def enabled_callers_eq [of u _ t])

lemma callerNames_appPolicy: "ca_Name app = ''kamara'' \<Longrightarrow> np_Ingress (appPolicy u app) = [rule] \<Longrightarrow> callerNames (pr_Peers rule) = enabledCallersOf u ''kamara''"
  by (auto simp: appPolicy_def callerNames_callerPeers)

lemma keeps_callers_others:
  "k \<noteq> policyKey ns ''kamara'' \<Longrightarrow> keeps (\<lambda>w. Q (pf_objects (w_db w) k)) (reconcileKamaraCallers t ns :: ('z, unit) cp)"
  using keeps_writes(1) [where Q = "\<lambda>f. Q (f k)" and ns = ns] by simp

lemma callers_present:
  "keeps (\<lambda>w. pf_objects (w_db w) k \<noteq> None) (reconcileKamaraCallers t ns :: ('z, unit) cp)"
  by (rule keeps_writes(1) [where Q = "\<lambda>f. f k \<noteq> None"]) simp

text \<open>After a successful caller update the policy of Kamara is the one generated for this specification.\<close>

lemma reconcileKamaraCallers_done:
  fixes w :: "'z platform world"
  assumes g: "genuinePolicies ns (pf_objects (w_db w))" and run: "reconcileKamaraCallers t ns w = (Inr (), w')"
    and ob: "pf_objects (w_db w') (policyKey ns ''kamara'') = Some ob" and app: "app \<in> set catalog" "ca_Name app = ''kamara''"
  shows "ob_Payload ob = PNetworkPolicy (appPolicy t app)"
proof -
  let ?k = "policyKey ns ''kamara''"
  obtain x w1 where get: "kubeGet ?k w = (x, w1)" by fastforce
  have o1: "pf_objects (w_db w1) = pf_objects (w_db w)"
    by (rule keepsD2 [where I = "\<lambda>v. pf_objects (w_db v) = pf_objects (w_db w)", OF keeps_kubeGet _ get]) (simp_all add: faultless_def)
  show ?thesis
  proof (cases x)
    case (Inl e)
    have abs: "kubeGet ?k w = (Inl ErrAbsent, w1) \<Longrightarrow> pf_objects (w_db w) ?k = None"
      unfolding kubeGet_def query_def bnd_def
      by (auto elim!: call_cases simp: ret_def fail_def split: option.splits sum.splits prod.splits)
    have "e = ErrAbsent" "w' = w1"
      using run get Inl by (auto simp: reconcileKamaraCallers_def Let_def attempt_def ret_def fail_def split: if_splits)
    then show ?thesis using abs get Inl o1 ob by simp
  next
    case (Inr ob1)
    have at: "pf_objects (w_db w1) ?k = Some ob1" using kubeGet_outcome get Inr by blast
    obtain a' u where "a' \<in> set catalog" "ca_Name a' = ''kamara''" "ob_Payload ob1 = PNetworkPolicy (appPolicy u a')"
      using genuine_kamara [OF g] at o1 by auto
    then have pay: "ob_Payload ob1 = PNetworkPolicy (appPolicy u app)" using catalog_name_inj app by metis
    obtain rule where rule: "np_Ingress (appPolicy u app) = [rule]" by (simp add: appPolicy_def)
    let ?new = "ob1\<lparr>ob_Payload := PNetworkPolicy (appPolicy t app)\<rparr>"
    have body: "(if equalStringSet (enabledCallersOf u ''kamara'') (enabledCallersOf t ''kamara'') then ret () else kubeUpdate ?k ?new) w1 = (Inr (), w')"
      using run get Inr pay rule callers_write [OF app(2) rule, of t]
      by (simp add: reconcileKamaraCallers_def Let_def attempt_def callerNames_appPolicy [OF app(2) rule] split: if_splits)
    show ?thesis
    proof (cases "equalStringSet (enabledCallersOf u ''kamara'') (enabledCallersOf t ''kamara'')")
      case True
      then have "w' = w1" "appPolicy u app = appPolicy t app"
        using body app(2) appPolicy_same [of u app t] by (simp_all add: ret_def equalStringSet_iff)
      then show ?thesis using at ob pay by simp
    next
      case False
      then have "kubeUpdate ?k ?new w1 = (Inr (), w')" using body by simp
      then have "pf_objects (w_db w') ?k = Some ?new"
        unfolding kubeUpdate_def exec_def by (auto elim!: call_cases simp: execRaw_def split: if_splits)
      then show ?thesis using ob by simp
    qed
  qed
qed

section \<open>The policies after a successful provisioning\<close>

lemma present_assertion:
  assumes "(k, p) \<in> set (tenantPolicies u ns)" "tn_Spec u = spec"
  shows "object_assertion (\<lambda>w :: 'z platform world. pf_objects (w_db w) k \<noteq> None) name spec"
proof unfold_locales
  let ?I = "\<lambda>w :: 'z platform world. pf_objects (w_db w) k \<noteq> None"
  show q: "faultless ?I" "randless ?I" "iamless ?I"
    using object_parts [where Q = "\<lambda>f. f k \<noteq> None"] by simp_all
  show cr: "keeps ?I (setOwnerAndCreate t k' ob)" for t k' ob
    unfolding setOwnerAndCreate_def by (rule keeps_objects(1) [where Q = "\<lambda>f. f k \<noteq> None"]) simp
  show "keeps ?I (ensureBackupCreds r t ns')" for r t ns'
    by (rule keeps_writes(3) [where Q = "\<lambda>f. f k \<noteq> None"]) (simp, rule cr)
  show "keeps ?I (ensureNetworkPolicies t ns')" for t ns' by (rule keeps_policies [OF q(1) cr])
  show "keeps ?I (reconcileKamaraEnv r t ns')" for r t ns'
    by (rule keeps_writes(2) [where Q = "\<lambda>f. f k \<noteq> None"]) simp
  show "keeps ?I (reconcileKamaraCallers t ns')" for t ns' by (rule callers_present)
  show "keeps ?I (teardownApp ns' (ca_Name app))"
    if app: "app \<in> set catalog" "ca_Optional app" "ca_Name app \<notin> set (ts_Apps spec)" for app ns'
  proof -
    have "k \<noteq> policyKey ns' (ca_Name app)" "fst k = NetworkPolicy"
      using assms app np_app_not_openfga [OF app(1)]
      by (auto simp: tenantPolicies_def policyKey_def provisioned_def tenantEnables_def split: if_splits dest: catalog_name_inj)
    then obtain n ns1 where k: "k = (NetworkPolicy, ns1, n)" "n \<noteq> ''np-'' @ ca_Name app \<or> ns1 \<noteq> ns'"
      by (cases k) (auto simp: policyKey_def)
    show ?thesis unfolding k(1) by (rule keeps_teardown_policy [OF k(2), where Q = "\<lambda>x. x \<noteq> None"])
  qed
qed

text \<open>The policies of the apps that are off are gone.\<close>

lemma reconcileOptionalApps_gone:
  fixes w :: "'z platform world"
  assumes run: "reconcileOptionalApps r t ns w = (Inr (), w')" and app: "app \<in> set catalog" "\<not> provisioned t app"
  shows "pf_objects (w_db w') (policyKey ns (ca_Name app)) = None"
proof -
  let ?f = "\<lambda>app. if \<not> ca_Optional app \<or> tenantEnables t (ca_Name app) then ret () else teardownApp ns (ca_Name app)"
  let ?P = "\<lambda>a (w :: 'z platform world). \<not> provisioned t a \<longrightarrow> pf_objects (w_db w) (policyKey ns (ca_Name a)) = None"
  obtain w1 where w1: "foreach ?f catalog w = (Inr (), w1)" "reconcileKamaraOfficeWiring r t ns w1 = (Inr (), w')"
    using run unfolding reconcileOptionalApps_def by (auto elim!: bnd_InrE)
  have del: "keeps (\<lambda>w :: 'z platform world. pf_objects (w_db w) k = None) (teardownApp ns n)" for k n
    unfolding teardownApp_def by (rule keeps_foreach, rule keeps_objects(2) [where Q = "\<lambda>f. f k = None"]) simp
  have "\<forall>a \<in> set catalog. ?P a w1"
  proof (rule foreach_all [OF _ _ w1(1)])
    show "?f a v = (Inr (), v') \<Longrightarrow> ?P a v'" for a and v v' :: "'z platform world"
      by (auto simp: provisioned_def dest: teardownApp_gone)
    show "?P a v \<Longrightarrow> ?f b v = (x, v') \<Longrightarrow> ?P a v'" for a b x and v v' :: "'z platform world"
      using keepsD2 [OF del, of v "policyKey ns (ca_Name a)" "ca_Name b"] by (auto simp: ret_def split: if_splits)
  qed
  then have "pf_objects (w_db w1) (policyKey ns (ca_Name app)) = None" using app by blast
  moreover have "keeps (\<lambda>w :: 'z platform world. pf_objects (w_db w) k = None) (reconcileKamaraOfficeWiring r t ns)" for k
  proof -
    have "keeps (\<lambda>w :: 'z platform world. pf_objects (w_db w) k = None) (reconcileKamaraCallers t ns)"
      by (rule keeps_writes(1) [where Q = "\<lambda>f. f k = None"]) (simp, metis option.distinct(1))
    moreover have "keeps (\<lambda>w :: 'z platform world. pf_objects (w_db w) k = None) (reconcileKamaraEnv r t ns)"
      by (rule keeps_writes(2) [where Q = "\<lambda>f. f k = None"]) (simp, metis option.distinct(1))
    ultimately show ?thesis unfolding reconcileKamaraOfficeWiring_def by (rule keeps_bnd)
  qed
  ultimately show ?thesis using keepsD2 [where m = "reconcileKamaraOfficeWiring r t ns", OF _ _ w1(2)] by blast
qed

text \<open>
  After a successful provisioning the network policies of the namespace are those of the tenant's specification, each with
  the content generated for it, whatever earlier specifications had left behind.
\<close>

lemma provisionApps_policies:
  fixes w :: "'z platform world"
  assumes g: "genuinePolicies ns (pf_objects (w_db w))" and run: "provisionApps r z t ns w = (Inr (), w')"
  shows "policiesIn (pf_objects (w_db w')) ns = {(n, p). ((NetworkPolicy, ns, n), p) \<in> set (tenantPolicies t ns)}"
proof -
  let ?I = "\<lambda>w :: 'z platform world. genuinePolicies ns (pf_objects (w_db w))"
  let ?f = "\<lambda>app. if \<not> ca_Optional app \<or> tenantEnables t (ca_Name app) then ret () else teardownApp ns (ca_Name app) :: ('z, unit) cp"
  obtain w1 where w1: "ensureApps r z t ns w = (Inr (), w1)" "reconcileOptionalApps r t ns w1 = (Inr (), w')"
    using run unfolding provisionApps_def by (auto elim!: bnd_InrE)
  obtain w2 w3 where w2: "reconcileKamaraCallers t ns w2 = (Inr (), w3)" "reconcileKamaraEnv r t ns w3 = (Inr (), w')"
    and f: "foreach ?f catalog w1 = (Inr (), w2)"
    using w1(2) unfolding reconcileOptionalApps_def reconcileKamaraOfficeWiring_def by (auto elim!: bnd_InrE)
  have g1: "?I w1" by (rule keepsD2 [where I = ?I, OF genuine.apps g w1(1)]) simp_all
  have "keeps ?I (teardownApp ns (ca_Name app))" for app
    unfolding teardownApp_def by (rule keeps_foreach, rule keeps_objects(2)) (rule genuine_del)
  then have "keeps ?I (foreach ?f catalog)" by (intro keeps_rules)
  then have g2: "?I w2" by (rule keepsD2 [where I = ?I and m = "foreach ?f catalog"]) (rule g1, rule f)
  have g': "?I w'" by (rule keepsD2 [where I = ?I, OF genuine.optional g1 w1(2)]) simp
  have same: "pf_objects (w_db w') (NetworkPolicy, ns, n) = pf_objects (w_db w3) (NetworkPolicy, ns, n)" for n
    by (rule keepsD2 [where I = "\<lambda>v. pf_objects (w_db v) (NetworkPolicy, ns, n) = pf_objects (w_db w3) (NetworkPolicy, ns, n)", OF
          keeps_writes(2) [where Q = "\<lambda>f. f (NetworkPolicy, ns, n) = pf_objects (w_db w3) (NetworkPolicy, ns, n)"] refl w2(2)]) simp
  have content: "ob_Payload ob = PNetworkPolicy (appPolicy t app)"
    if app: "app \<in> set catalog" and ob: "pf_objects (w_db w') (policyKey ns (ca_Name app)) = Some ob" for app ob
  proof (cases "ca_Name app = ''kamara''")
    case True
    then show ?thesis using reconcileKamaraCallers_done [OF g2 w2(1) _ app True] ob same by (simp add: policyKey_def)
  next
    case False
    have "genuinePolicy (''np-'' @ ca_Name app) ob" using g' ob by (simp add: genuinePolicies_def policyKey_def)
    then obtain a u where a: "a \<in> set catalog" "ca_Name a = ca_Name app" "ob_Payload ob = PNetworkPolicy (appPolicy u a)"
      using np_app_not_openfga [OF app] by (auto simp: genuinePolicy_def)
    have "a = app" by (rule catalog_name_inj [OF a(1) app a(2)])
    then show ?thesis using a(3) appPolicy_same [of u app t] no_callers [OF False] by simp
  qed
  have present: "pf_objects (w_db w') k \<noteq> None" if k: "(k, p) \<in> set (tenantPolicies t ns)" for k p
  proof -
    obtain v1 where "ensureNetworkPolicies t ns v1 = (Inr (), w1)"
      using w1(1) unfolding ensureApps_def by (auto elim!: bnd_InrE)
    then have "pf_objects (w_db w1) k \<noteq> None" using k by (rule ensureNetworkPolicies_present)
    then show ?thesis
      using keepsD2 [OF object_assertion.optional [OF present_assertion [OF k refl]] _ w1(2)] by blast
  qed
  have absent: "pf_objects (w_db w') (policyKey ns (ca_Name app)) = None" if "app \<in> set catalog" "\<not> provisioned t app" for app
    by (rule reconcileOptionalApps_gone [OF w1(2) that])
  show ?thesis
  proof (intro set_eqI iffI)
    fix x assume "x \<in> policiesIn (pf_objects (w_db w')) ns"
    then obtain n p ob where x: "x = (n, p)" "pf_objects (w_db w') (NetworkPolicy, ns, n) = Some ob" "ob_Payload ob = PNetworkPolicy p"
      by (auto simp: policiesIn_def)
    have "genuinePolicy n ob" using g' x(2) by (simp add: genuinePolicies_def)
    then show "x \<in> {(n, p). ((NetworkPolicy, ns, n), p) \<in> set (tenantPolicies t ns)}"
      using x content absent catalog_names(3) by (fastforce simp: genuinePolicy_def tenantPolicies_def policyKey_def)
  next
    fix x assume "x \<in> {(n, p). ((NetworkPolicy, ns, n), p) \<in> set (tenantPolicies t ns)}"
    then obtain n p where x: "x = (n, p)" "((NetworkPolicy, ns, n), p) \<in> set (tenantPolicies t ns)" by blast
    obtain ob where ob: "pf_objects (w_db w') (NetworkPolicy, ns, n) = Some ob" using present [OF x(2)] by blast
    have "genuinePolicy n ob" using g' ob by (simp add: genuinePolicies_def)
    then have "ob_Payload ob = PNetworkPolicy p"
      using x(2) ob content np_app_not_openfga by (fastforce simp: tenantPolicies_def policyKey_def genuinePolicy_def split: if_splits)
    then show "x \<in> policiesIn (pf_objects (w_db w')) ns" using x(1) ob by (auto simp: policiesIn_def)
  qed
qed

section \<open>A ready tenant\<close>

text \<open>
  What runs, and the time, is not touched by any call of the reconciler: availability is the cluster's answer.
\<close>

definition capacityIs :: "(string \<Rightarrow> int option) \<Rightarrow> (string \<Rightarrow> string \<Rightarrow> int) \<Rightarrow> int \<Rightarrow> 'z platform world \<Rightarrow> bool" where
  "capacityIs rd av nw w \<longleftrightarrow> pf_ready (w_db w) = rd \<and> pf_available (w_db w) = av \<and> w_now w = nw"

lemma capacity_calls:
  "faultless (capacityIs rd av nw)" "randless (capacityIs rd av nw)" "iamless (capacityIs rd av nw)"
  "keeps (capacityIs rd av nw) (kubeCreate k ob)" "keeps (capacityIs rd av nw) (kubeUpdate k ob)" "keeps (capacityIs rd av nw) (kubeDelete k)"
  "keeps (capacityIs rd av nw) (UpdateTenantRes t)" "keeps (capacityIs rd av nw) (UpdateTenantStatus t)"
proof -
  show f: "faultless (capacityIs rd av nw)" "randless (capacityIs rd av nw)" "iamless (capacityIs rd av nw)" by (simp_all add: capacityIs_def faultless_def randless_def iamless_def)
  show "keeps (capacityIs rd av nw) (kubeCreate k ob)" unfolding kubeCreate_def by (rule keeps_exec [OF f(1)]) (auto simp: capacityIs_def split: if_splits)
  show "keeps (capacityIs rd av nw) (kubeUpdate k ob)" unfolding kubeUpdate_def by (rule keeps_exec [OF f(1)]) (auto simp: capacityIs_def split: if_splits)
  show "keeps (capacityIs rd av nw) (kubeDelete k)" unfolding kubeDelete_def by (rule keeps_exec [OF f(1)]) (auto simp: capacityIs_def split: if_splits)
  show "keeps (capacityIs rd av nw) (UpdateTenantRes t)" unfolding UpdateTenantRes_def
    by (rule keeps_exec [OF f(1)]) (auto simp: capacityIs_def split: if_splits option.splits)
  show "keeps (capacityIs rd av nw) (UpdateTenantStatus t)" unfolding UpdateTenantStatus_def
    by (rule keeps_exec [OF f(1)]) (auto simp: capacityIs_def split: option.splits)
qed

interpretation capacity: reconcile_assertion "capacityIs rd av nw" name spec c
    "\<lambda>_. True" "\<lambda>_ _. True" for rd av nw name spec c
proof unfold_locales
  let ?I = "capacityIs rd av nw"
  note q = capacity_calls
  show "faultless ?I" by (rule q)
  show "randless ?I" by (rule q)
  show "iamless ?I" by (rule q)
  show cr: "keeps ?I (setOwnerAndCreate t k ob)" for t k ob unfolding setOwnerAndCreate_def by (rule q)
  show "keeps ?I (ensureBackupCreds r t ns)" for r t ns
    unfolding ensureBackupCreds_def Let_def by (intro keeps_rules keeps_attempt_io q cr)
  show "keeps ?I (ensureNetworkPolicies t ns)" for t ns by (rule keeps_policies [OF q(1) cr])
  have del: "keeps ?I (deleteIfPresent k)" for k unfolding deleteIfPresent_def by (intro keeps_rules q)
  show "keeps ?I (teardownApp ns (ca_Name app))" for ns app unfolding teardownApp_def by (intro keeps_rules del)
  show "keeps ?I (reconcileKamaraCallers t ns)" for t ns
    unfolding reconcileKamaraCallers_def Let_def
    by (intro keeps_attempt_io keeps_kubeGet q keeps_rules) (auto split: payload_spec.split list.split intro!: q)
  show "keeps ?I (reconcileKamaraEnv r t ns)" for r t ns
    unfolding reconcileKamaraEnv_def Let_def
    by (intro keeps_attempt_io keeps_kubeGet q keeps_rules) (auto split: payload_spec.split list.split intro!: q)
  show "keeps ?I (UpdateTenantRes t)" for t by (rule q)
  show "keeps ?I (reportStatus t b r a d)" for t b r a d
    unfolding reportStatus_def Let_def by (intro keeps_rules q)
qed simp_all

definition databaseUp :: "'z platform \<Rightarrow> string \<Rightarrow> bool" where
  "databaseUp d ns \<longleftrightarrow> pf_objects d (Cluster, ns, ''db'') \<noteq> None \<and> (\<exists>n. pf_ready d ns = Some n \<and> n \<ge> 1)"

definition appUp :: "'z platform \<Rightarrow> string \<Rightarrow> catalog_app \<Rightarrow> bool" where
  "appUp d ns app \<longleftrightarrow> pf_objects d (Deployment, ns, ca_Name app) \<noteq> None \<and> pf_available d ns (ca_Name app) \<ge> 1"

lemma platform_query_outcome: "query q w = (Inr x, w') \<Longrightarrow> x = q (w_db w) \<and> w_db w' = w_db w"
  unfolding query_def by (auto elim!: call_cases simp: ret_def)

lemma databaseReady_outcome: "databaseReady ns w = (Inr b, w') \<Longrightarrow> w_db w' = w_db w \<and> (b \<longrightarrow> databaseUp (w_db w) ns)"
  unfolding databaseReady_def databaseUp_def
  by (auto elim!: bnd_InrE dest!: platform_query_outcome simp: ret_def split: option.splits)

lemma appsReady_outcome: "appsReady t ns w = (Inr b, w') \<Longrightarrow> w_db w' = w_db w \<and> (b \<longrightarrow> (\<forall>app \<in> set catalog. provisioned t app \<longrightarrow> appUp (w_db w) ns app))"
proof -
  have "appsReadyFrom t ns as w = (Inr b, w') \<Longrightarrow> w_db w' = w_db w \<and> (b \<longrightarrow> (\<forall>app \<in> set as. provisioned t app \<longrightarrow> appUp (w_db w) ns app))" for as w
  proof (induction as arbitrary: w)
    case (Cons a as)
    then show ?case
      by (cases "provisioned t a")
        (fastforce elim!: bnd_InrE dest!: platform_query_outcome simp: ret_def appUp_def split: option.splits if_splits)+
  qed (simp add: ret_def)
  then show "appsReady t ns w = (Inr b, w') \<Longrightarrow> w_db w' = w_db w \<and> (b \<longrightarrow> (\<forall>app \<in> set catalog. provisioned t app \<longrightarrow> appUp (w_db w) ns app))"
    unfolding appsReady_def .
qed

lemma UpdateTenantStatus_outcome:
  "UpdateTenantStatus t w = (Inr (), w') \<Longrightarrow> \<exists>old. pf_tenants (w_db w') (tn_Name t) = Some (old\<lparr>tn_Status := tn_Status t\<rparr>)"
  unfolding UpdateTenantStatus_def exec_def by (fastforce elim!: call_cases simp: execRaw_def split: option.splits)

lemma reportStatus_outcome:
  assumes run: "reportStatus t b rd a q w = (Inr q', w')" and t': "pf_tenants (w_db w') (tn_Name t) = Some t'"
  shows "st_Phase (tn_Status t') = TenantReady \<longleftrightarrow> b \<and> rd \<and> a"
proof -
  have name: "tn_Name (setPhase p (setCondition k ok (setCondition k' ok' (setCondition k'' ok'' t)))) = tn_Name t" for p k ok k' ok' k'' ok''
    by (simp add: setPhase_def setCondition_def Let_def)
  have phase: "st_Phase (tn_Status (setPhase p u)) = p" for p u by (simp add: setPhase_def)
  from run obtain u where u: "UpdateTenantStatus (setPhase (if b \<and> rd \<and> a then TenantReady else TenantPending) u) w = (Inr (), w')"
    and n: "tn_Name (setPhase (if b \<and> rd \<and> a then TenantReady else TenantPending) u) = tn_Name t"
    unfolding reportStatus_def Let_def by (elim bnd_InrE) (simp add: ret_def name)
  show ?thesis using UpdateTenantStatus_outcome [OF u] t' n by (auto simp: phase split: if_splits)
qed

lemma Reconcile_live:
  assumes "pf_tenants (w_db w) n = Some t" "\<not> tn_Deleting t" "Reconcile c n w = (Inr q, w')"
  obtains w1 where "w_db w1 = w_db w" "reconcileLive c t w1 = (Inr q, w')"
proof -
  obtain g w1 where g: "GetTenantRes n w = (g, w1)" by fastforce
  have abs: "GetTenantRes n w = (Inl ErrAbsent, w1) \<Longrightarrow> pf_tenants (w_db w) n = None"
    unfolding GetTenantRes_def query_def bnd_def
    by (auto elim!: call_cases simp: ret_def fail_def split: option.splits sum.splits prod.splits)
  have "g = Inr t"
    using assms g abs GetTenantRes_outcome [OF g] by (cases g) (auto simp: Reconcile_def attempt_def fail_def split: if_splits)
  then have "reconcileLive c t w1 = (Inr q, w')" using assms(2,3) g by (simp add: Reconcile_def attempt_def)
  then show ?thesis using that GetTenantRes_outcome [OF g] by blast
qed

text \<open>The steps of a live reconcile under a provider, with the worlds between them.\<close>

lemma reconcileLive_steps:
  assumes "ct_IAM c = Some z" "reconcileLive c t w = (Inr q, w')"
  obtains u v1 v2 v3 v4 b where "tn_Name u = tn_Name t" "tn_Spec u = tn_Spec t" "addFinalizer t w = (Inr u, v1)"
    "ensureNamespace u (tenantNamespace t) v1 = (Inr (), v2)" "ensureDatabase (ct_rc c) u (tenantNamespace t) v2 = (Inr (), v3)"
    "databaseReady (tenantNamespace t) v3 = (Inr b, v4)" "reconcileIdentity (ct_rc c) z u (tenantNamespace t) b v4 = (Inr q, w')"
proof -
  obtain u v1 v2 v3 v4 b where s: "addFinalizer t w = (Inr u, v1)"
    "ensureNamespace u (tenantNamespace u) v1 = (Inr (), v2)" "ensureDatabase (ct_rc c) u (tenantNamespace u) v2 = (Inr (), v3)"
    "databaseReady (tenantNamespace u) v3 = (Inr b, v4)" "reconcileIdentity (ct_rc c) z u (tenantNamespace u) b v4 = (Inr q, w')"
    using assms unfolding reconcileLive_def Let_def by (auto elim!: bnd_InrE)
  note same = addFinalizer_result [OF s(1)]
  have ns: "tenantNamespace u = tenantNamespace t" using same by (simp add: tenantNamespace_def)
  show ?thesis using that [OF _ _ s(1) s(2-5) [unfolded ns]] same by blast
qed

lemma spec_determines: "tn_Spec u = tn_Spec t \<Longrightarrow> provisioned u = provisioned t \<and> tenantPolicies u ns = tenantPolicies t ns"
proof -
  assume sp: "tn_Spec u = tn_Spec t"
  have p: "provisioned u = provisioned t" by (simp add: fun_eq_iff provisioned_def tenantEnables_def sp)
  moreover have "appPolicy u = appPolicy t" by (simp add: fun_eq_iff appPolicy_def callerPeers_def enabledCallersOf_def p)
  ultimately show ?thesis by (simp add: tenantPolicies_def)
qed

lemma keeps_genuine_provisionIAM: "keeps (\<lambda>w. genuinePolicies ns (pf_objects (w_db w))) (provisionIAM r z t)"
  unfolding provisionIAM_def Let_def by (intro keeps_rules genuine.app_parts(7) [OF refl] keeps_iam genuine.quiet)

lemma reconcileIdentity_ready:
  fixes w :: "'z platform world"
  assumes run: "reconcileIdentity r z t ns b w = (Inr q, w')" and g: "genuinePolicies ns (pf_objects (w_db w))"
    and t': "pf_tenants (w_db w') (tn_Name t) = Some t'" "st_Phase (tn_Status t') = TenantReady"
  shows "b" "list_all (\<lambda>app. \<not> provisioned t app \<or> appUp (w_db w') ns app) catalog"
    "policiesIn (pf_objects (w_db w')) ns = {(n, p). ((NetworkPolicy, ns, n), p) \<in> set (tenantPolicies t ns)}"
proof -
  obtain u rd q1 w1 w2 w3 a where s: "provisionIAM r z t w = (Inr (u, rd, q1), w1)"
    "guarded (rd \<and> b) (provisionApps r z u ns) w1 = (Inr (), w2)"
    "(if rd \<and> b then appsReady u ns else ret False) w2 = (Inr a, w3)" "reportStatus u b rd a q1 w3 = (Inr q, w')"
    using run unfolding reconcileIdentity_def by (auto elim!: bnd_InrE)
  note same = provisionIAM_same [OF s(1)]
  have ready: "b" "rd" "a" using reportStatus_outcome [OF s(4), of t'] t' same by auto
  have ap: "appsReady u ns w2 = (Inr True, w3)" using s(3) ready by simp
  note up = appsReady_outcome [OF ap]
  have obs: "pf_objects (w_db w') = pf_objects (w_db w2) \<and> capacityIs (pf_ready (w_db w2)) (pf_available (w_db w2)) (w_now w3) w'"
  proof
    have "keeps (\<lambda>v. pf_objects (w_db v) = pf_objects (w_db w2)) (reportStatus u b rd a q1)"
      unfolding reportStatus_def Let_def by (intro keeps_rules keeps_tenant_calls disjI1 on_parts(2))
    then show "pf_objects (w_db w') = pf_objects (w_db w2)"
      by (rule keepsD2 [where I = "\<lambda>v. pf_objects (w_db v) = pf_objects (w_db w2)" and m = "reportStatus u b rd a q1", OF _ _ s(4)]) (simp add: up)
    show "capacityIs (pf_ready (w_db w2)) (pf_available (w_db w2)) (w_now w3) w'"
      by (rule keepsD2 [OF capacity.report _ s(4)]) (simp_all add: up capacityIs_def)
  qed
  have pr: "provisioned u = provisioned t" "tenantPolicies u ns = tenantPolicies t ns" 
    using spec_determines [of u t ns] same by blast+
  show "b" by (rule ready)
  show "list_all (\<lambda>app. \<not> provisioned t app \<or> appUp (w_db w') ns app) catalog"
    using up obs by (auto simp: list_all_iff appUp_def capacityIs_def pr)
  have g1: "genuinePolicies ns (pf_objects (w_db w1))"
    by (rule keepsD2 [where I = "\<lambda>w. genuinePolicies ns (pf_objects (w_db w))", OF keeps_genuine_provisionIAM g s(1)])
  show "policiesIn (pf_objects (w_db w')) ns = {(n, p). ((NetworkPolicy, ns, n), p) \<in> set (tenantPolicies t ns)}"
    using provisionApps_policies [OF g1, of r z u w2] s(2) ready obs pr by (simp add: guarded_def)
qed

text \<open>C13. A reconcile that ends with the tenant reported \<open>Ready\<close> has established it: the database cluster exists with at least
  one instance ready, every app the specification asks for has a deployment with at least one pod available, and the
  network policies of the namespace are exactly the ones generated from this specification, also when optional apps
  were switched on or off since the policies were first made. The controller is one with an identity provider configured
  (without one it reports on the database alone and provisions no app). The only premise on the past is that the policies
  found in the namespace were generated by the control plane, for whatever specification.
\<close>

theorem Ready_established:
  fixes w :: "'z platform world"
  assumes "ct_IAM c = Some z" "pf_tenants (w_db w) (tn_Name t) = Some t" "\<not> tn_Deleting t"
    and "genuinePolicies (tenantNamespace t) (pf_objects (w_db w))"
    and "Reconcile c (tn_Name t) w = (Inr q, w')"
    and "pf_tenants (w_db w') (tn_Name t) = Some t'" "st_Phase (tn_Status t') = TenantReady"
  shows "databaseUp (w_db w') (tenantNamespace t) \<and> list_all (\<lambda>app. \<not> provisioned t app \<or> appUp (w_db w') (tenantNamespace t) app) catalog \<and>
    policiesIn (pf_objects (w_db w')) (tenantNamespace t) =
      {(n, p). ((NetworkPolicy, tenantNamespace t, n), p) \<in> set (tenantPolicies t (tenantNamespace t))}"
proof -
  let ?ns = "tenantNamespace t" and ?g = "\<lambda>w. genuinePolicies (tenantNamespace t) (pf_objects (w_db w))"
  obtain v0 where v0: "w_db v0 = w_db w" "reconcileLive c t v0 = (Inr q, w')"
    using Reconcile_live [OF assms(2,3,5)] .
  obtain u v1 v2 v3 v4 b where u: "tn_Name u = tn_Name t" "tn_Spec u = tn_Spec t" and s: "addFinalizer t v0 = (Inr u, v1)"
    "ensureNamespace u ?ns v1 = (Inr (), v2)" "ensureDatabase (ct_rc c) u ?ns v2 = (Inr (), v3)"
    "databaseReady ?ns v3 = (Inr b, v4)" "reconcileIdentity (ct_rc c) z u ?ns b v4 = (Inr q, w')"
    using reconcileLive_steps [OF assms(1) v0(2)] .
  note db = databaseReady_outcome [OF s(4)]
  have fin: "keeps ?g (addFinalizer t)"
    unfolding addFinalizer_def Let_def by (intro keeps_rules genuine.status.update [OF refl refl])
  have "?g v1" by (rule keepsD2 [where I = ?g, OF fin _ s(1)]) (simp add: assms(4) v0(1))
  then have "?g v2" by (rule keepsD2 [where I = ?g, OF genuine.namespace [OF refl] _ s(2)])
  then have "?g v3" by (rule keepsD2 [where I = ?g, OF genuine.database [OF refl] _ s(3)])
  then have "?g v4" using db by simp
  note ready = reconcileIdentity_ready [OF s(5) this, unfolded u(1), OF assms(6,7)]
  obtain ob where ob: "pf_objects (w_db v4) (Cluster, ?ns, ''db'') = Some ob" using db ready(1) by (auto simp: databaseUp_def)
  have "keptAt (Cluster, ?ns, ''db'') ob (pf_objects (w_db w'))"
    by (rule keepsD2 [where I = "\<lambda>w. keptAt (Cluster, ?ns, ''db'') ob (pf_objects (w_db w))",
          OF kept.status.identity [OF refl refl TrueI assms(1)] _ s(5)]) (simp add: keptAt_def backupCopy_def ob)
  moreover have "capacityIs (pf_ready (w_db v4)) (pf_available (w_db v4)) (w_now v4) w'"
    by (rule keepsD2 [OF capacity.identity [OF refl refl TrueI assms(1)] _ s(5)]) (simp add: capacityIs_def)
  ultimately have "databaseUp (w_db w') ?ns" using db ready(1) by (auto simp: databaseUp_def keptAt_def durable_def capacityIs_def)
  then show ?thesis using ready(2,3) spec_determines [OF u(2)] by simp
qed

section \<open>A tenant that gains an optional app\<close>

text \<open>
  A provider that answers every call in the same way, and a cluster in which everything but the network policies of
  the new specification exists.
\<close>

definition demoReply :: json where
  "demoReply = JObj [(''id'', JStr ''1''), (''clientId'', JStr ''c''), (''result'', JArr [JObj [(''id'', JStr ''1'')]]), (''sub'', JStr ''1'')]"

definition demoZitadel :: "unit zitadel" where
  "demoZitadel = \<lparr>zt_BaseURL = ''https://iam.peristera.example'', zt_UserID = ''cp'', zt_DevMode = False, zt_jwt = (\<lambda>_. Some ''jwt''),
     zt_serve = (\<lambda>_ _ s. (Reply 200 (Some demoReply), s))\<rparr>"

definition online :: "unit controller" where
  "online = \<lparr>ct_rc = demoRC, ct_IAM = Some demoZitadel\<rparr>"

definition demoTenant :: tenant where
  "demoTenant = (newTenant ''acme'' [''office''])\<lparr>tn_Finalizers := [finalizer],
     tn_Status := emptyStatus\<lparr>st_InstanceID := ''7'', st_Issuer := ''https://acme.peristera.example'', st_ClientID := ''c''\<rparr>\<rparr>"

text \<open>A world in which everything but network policies is there, and calls go through.\<close>

definition populated :: "unit platform world \<Rightarrow> bool" where
  "populated w \<longleftrightarrow> calm w \<and> w_now w = 0 \<and> pf_token (w_db w) = Some (''jwt'', 3600 * second) \<and>
     pf_tenants (w_db w) = [''acme'' \<mapsto> demoTenant] \<and> pf_available (w_db w) = (\<lambda>_ _. 1) \<and> pf_ready (w_db w) = (\<lambda>_. Some 1) \<and>
     (\<forall>k. fst k \<noteq> NetworkPolicy \<longrightarrow> pf_objects (w_db w) k = Some (mkObject [] PNamespace))"

lemma populatedD:
  "populated w \<Longrightarrow> calm w" "populated w \<Longrightarrow> w_now w = 0" "populated w \<Longrightarrow> pf_token (w_db w) = Some (''jwt'', 3600 * second)"
  "populated w \<Longrightarrow> fst k \<noteq> NetworkPolicy \<Longrightarrow> pf_objects (w_db w) k = Some (mkObject [] PNamespace)"
  "populated w \<Longrightarrow> pf_tenants (w_db w) = [''acme'' \<mapsto> demoTenant]" "populated w \<Longrightarrow> pf_available (w_db w) = (\<lambda>_ _. 1)"
  "populated w \<Longrightarrow> pf_ready (w_db w) = (\<lambda>_. Some 1)"
  unfolding populated_def by blast+

lemma populated_policy: "populated w \<Longrightarrow> fst k = NetworkPolicy \<Longrightarrow> populated (w\<lparr>w_db := (w_db w)\<lparr>pf_objects := (pf_objects (w_db w))(k \<mapsto> ob)\<rparr>\<rparr>)"
  unfolding populated_def by auto

lemma kubeGet_calm: "calm w \<Longrightarrow> kubeGet k w = (case pf_objects (w_db w) k of None \<Rightarrow> (Inl ErrAbsent, w) | Some ob \<Rightarrow> (Inr ob, w))"
  by (simp add: kubeGet_def bnd_def ret_def fail_def split: option.split)

lemma populated_present:
  assumes "populated w" "fst k \<noteq> NetworkPolicy"
  shows "ifAbsent k m w = (Inr (), w)" "createIfAbsent t k ob w = (Inr (), w)"
  using populatedD(4) [OF assms] by (simp_all add: createIfAbsent_def ifAbsent_def kubeGet_calm [OF populatedD(1) [OF assms(1)]])

lemma createAll_present: "populated w \<Longrightarrow> list_all (\<lambda>(k, _). fst k \<noteq> NetworkPolicy) obs \<Longrightarrow> createAll t obs w = (Inr (), w)"
  unfolding createAll_def by (induction obs) (auto simp: ret_def bnd_def populated_present)

lemma demo_zdo: "populated w \<Longrightarrow> zdo demoZitadel m u g b res w = (res (Reply 200 (Some demoReply)), w)"
  using populatedD(1-3) [of w]
  by (simp add: zdo_def bearerToken_def bnd_def time_now_def run serve_calm demoZitadel_def ret_def second_def)

lemma demo_answers:
  "answer (textField ''id'') (Reply 200 (Some demoReply)) = Inr ''1''"
  "answer (textField ''clientid'') (Reply 200 (Some demoReply)) = Inr ''c''"
  "answer (resultField (textField ''id'')) (Reply 200 (Some demoReply)) = Inr [''1'']"
  "answer (resultField decodeApp) (Reply 200 (Some demoReply)) = Inr [\<lparr>oa_ID = ''1'', oa_ClientID = [], oa_RedirectURIs = [], oa_PostLogoutRedirectURIs = [], oa_DevMode = False\<rparr>]"
  by code_simp+

lemma demo_calls:
  assumes "populated w"
  shows "FirstOrgID demoZitadel base w = (Inr ''1'', w)" "ProjectID demoZitadel base g w = (Inr ''1'', w)"
    "EnsureWebApp demoZitadel base g name rs ls w = (Inr ''c'', w)"
proof -
  show "FirstOrgID demoZitadel base w = (Inr ''1'', w)"
    by (simp add: FirstOrgID_def zpost_def bnd_def demo_zdo [OF assms] demo_answers firstID_def ret_def)
  show p: "ProjectID demoZitadel base g w = (Inr ''1'', w)"
    by (simp add: ProjectID_def projectIDByName_def catch_def zpost_def bnd_def demo_zdo [OF assms] demo_answers firstID_def ret_def)
  show "EnsureWebApp demoZitadel base g name rs ls w = (Inr ''c'', w)"
    by (simp add: EnsureWebApp_def bnd_def p attempt_def oidcAppByName_def zpost_def demo_zdo [OF assms] demo_answers fail_def)
qed

lemma demo_ensureApp:
  assumes "populated w"
  shows "ensureApp demoRC demoZitadel t ns g p app w = (Inr (), w)"
  using assms
  by (simp add: ensureApp_def Let_def bnd_def demo_calls guarded_def ensureOffice_def createAll_present appObjects_def ret_def
      ensureAppDatabase_def ensureDSNSecret_def ensureBlob_def ensureDEK_def dekKey_def ensureS2SIdentity_def populated_present
      ensureBlobBackup_def blobBackupsEnabled_def backupsEnabled_def demoRC_def)

lemma demo_ensureApps: "populated w \<Longrightarrow> ensureApps demoRC demoZitadel t ns w = ensureNetworkPolicies t ns w"
proof -
  assume w: "populated w"
  have "foreach (ensureApp demoRC demoZitadel t ns g p) as w = (Inr (), w)" for g p as
    by (induction as) (simp_all add: bnd_def ret_def demo_ensureApp [OF w])
  moreover have "ensureOpenFGA t ns w = (Inr (), w)"
    by (simp add: ensureOpenFGA_def bnd_def ensureAppDatabase_def ensureDSNSecret_def ensureOpenFGAKey_def populated_present [OF w] createAll_present [OF w])
  ultimately show ?thesis
    by (simp add: ensureApps_def bnd_def demo_calls [OF w] guarded_def ret_def)
qed


lemma demo_policies: "populated w \<Longrightarrow> \<exists>w'. ensureNetworkPolicies t ns w = (Inr (), w') \<and> populated w'"
proof -
  have one: "\<exists>w'. createIfAbsent t k ob w = (Inr (), w') \<and> populated w'" if "populated w" "fst k = NetworkPolicy" for k ob w
    using that populated_policy [OF that] populatedD(1) [OF that(1)]
    by (cases "pf_objects (w_db w) k")
       (auto simp: createIfAbsent_def ifAbsent_def kubeGet_calm setOwnerAndCreate_def kubeCreate_def execRaw_def)
  have "\<exists>w'. foreach (\<lambda>(k, p). createIfAbsent t k (mkObject managedBy (PNetworkPolicy p))) ps w = (Inr (), w') \<and> populated w'"
    if "populated w" "list_all (\<lambda>(k, _). fst k = NetworkPolicy) ps" for w ps
    using that
  proof (induction ps arbitrary: w)
    case (Cons x ps)
    obtain k p where x: "x = (k, p)" by fastforce
    obtain w1 where "createIfAbsent t k (mkObject managedBy (PNetworkPolicy p)) w = (Inr (), w1)" "populated w1"
      using one [OF Cons.prems(1), of k] Cons.prems(2) x by auto
    then show ?case using Cons.IH [of w1] Cons.prems x by (simp add: bnd_def)
  qed (simp add: ret_def)
  moreover have "list_all (\<lambda>(k, _). fst k = NetworkPolicy) (tenantPolicies t ns)" by (auto simp: list_all_iff tenantPolicies_def policyKey_def)
  moreover assume "populated w"
  ultimately show ?thesis unfolding ensureNetworkPolicies_def by blast
qed

lemma demo_optional: "populated w \<Longrightarrow> \<exists>w'. reconcileOptionalApps r demoTenant ns w = (Inr (), w') \<and> populated w'"
proof -
  assume w: "populated w"
  have "\<not> ca_Optional app \<or> tenantEnables demoTenant (ca_Name app)" if "app \<in> set catalog" for app
  proof -
    have "list_all (\<lambda>a. \<not> ca_Optional a \<or> tenantEnables demoTenant (ca_Name a)) catalog"
      by (simp add: catalog_def stubApp_def tenantEnables_def demoTenant_def newTenant_def)
    then show ?thesis using that by (auto simp: list_all_iff)
  qed
  then have "foreach (\<lambda>app. if \<not> ca_Optional app \<or> tenantEnables demoTenant (ca_Name app) then ret () else teardownApp ns (ca_Name app)) as w = (Inr (), w)"
    if "set as \<subseteq> set catalog" for as
    using that by (induction as) (auto simp: bnd_def ret_def)
  note loop = this [OF order_refl]
  have upd: "\<exists>w'. kubeUpdate k ob w = (Inr (), w') \<and> populated w'" if "pf_objects (w_db w) k = Some x" "fst k = NetworkPolicy" for k ob x
    using that populated_policy [OF w that(2)] populatedD(1) [OF w] by (simp add: kubeUpdate_def)
  have idle: "\<exists>w'. ret () w = (Inr (), w') \<and> populated w'" using w by (simp add: ret_def)
  let ?k = "policyKey ns ''kamara''"
  have "\<exists>w'. reconcileKamaraCallers demoTenant ns w = (Inr (), w') \<and> populated w'"
  proof (cases "pf_objects (w_db w) ?k")
    case None
    then show ?thesis using idle by (simp add: reconcileKamaraCallers_def Let_def attempt_def kubeGet_calm [OF populatedD(1) [OF w]])
  next
    case (Some ob)
    have "fst ?k = NetworkPolicy" by (simp add: policyKey_def)
    then show ?thesis
      using Some idle upd [OF Some]
      by (auto simp: reconcileKamaraCallers_def Let_def attempt_def kubeGet_calm [OF populatedD(1) [OF w]] split: payload_spec.split list.split)
  qed
  then obtain w1 where w1: "reconcileKamaraCallers demoTenant ns w = (Inr (), w1)" "populated w1" by blast
  have "reconcileKamaraEnv r demoTenant ns w1 = (Inr (), w1)"
    using populatedD(4) [OF w1(2), of "(Deployment, ns, ''kamara'')"]
    by (simp add: reconcileKamaraEnv_def Let_def attempt_def kubeGet_calm [OF populatedD(1) [OF w1(2)]] mkObject_def ret_def)
  then show ?thesis using w1 loop by (simp add: reconcileOptionalApps_def reconcileKamaraOfficeWiring_def bnd_def)
qed

lemma demo_ready:
  assumes "populated w"
  shows "appsReady t ns w = (Inr True, w)" "databaseReady ns w = (Inr True, w)"
proof -
  have "appsReadyFrom t ns as w = (Inr True, w)" for as
    by (induction as) (simp_all add: ret_def bnd_def populatedD [OF assms])
  then show "appsReady t ns w = (Inr True, w)" by (simp add: appsReady_def)
  show "databaseReady ns w = (Inr True, w)" by (simp add: databaseReady_def bnd_def ret_def populatedD [OF assms])
qed

lemma demo_Reconcile:
  assumes w: "populated w"
  shows "\<exists>q w' t'. Reconcile online ''acme'' w = (Inr q, w') \<and> pf_tenants (w_db w') ''acme'' = Some t' \<and> st_Phase (tn_Status t') = TenantReady"
proof -
  let ?ns = "tenantNamespace demoTenant"
  have iam: "provisionIAM demoRC demoZitadel demoTenant w = (Inr (demoTenant, True, 0), w)"
    by (simp add: provisionIAM_def Let_def bnd_def ret_def ensureIssuerIngress_def issuerIngress_def populated_present [OF w] demoTenant_def split: prod.split)
  obtain w1 where w1: "ensureNetworkPolicies demoTenant ?ns w = (Inr (), w1)" "populated w1" using demo_policies [OF w] by blast
  obtain w2 where w2: "reconcileOptionalApps demoRC demoTenant ?ns w1 = (Inr (), w2)" "populated w2" using demo_optional [OF w1(2)] by blast
  have apps: "provisionApps demoRC demoZitadel demoTenant ?ns w = (Inr (), w2)"
    by (simp add: provisionApps_def bnd_def demo_ensureApps [OF w] w1 w2)
  have name: "tn_Name (setPhase p (setCondition k ok (setCondition k' ok' (setCondition k'' ok'' t)))) = tn_Name t" for p k ok k' ok' k'' ok'' t
    by (simp add: setPhase_def setCondition_def Let_def)
  have phase: "st_Phase (tn_Status (setPhase p u)) = p" for p u by (simp add: setPhase_def)
  have acme: "tn_Name demoTenant = ''acme''" "finalizer \<in> set (tn_Finalizers demoTenant)" "\<not> tn_Deleting demoTenant"
    by (simp_all add: demoTenant_def newTenant_def)
  have report: "\<exists>w' t'. reportStatus demoTenant True True True 0 w2 = (Inr 0, w') \<and> pf_tenants (w_db w') ''acme'' = Some t' \<and> st_Phase (tn_Status t') = TenantReady"
    using populatedD(1,5) [OF w2(2)]
    by (simp add: reportStatus_def Let_def UpdateTenantStatus_def bnd_def ret_def name phase acme)
  have dbs: "ensureNamespace demoTenant ?ns w = (Inr (), w)" "ensureDatabase demoRC demoTenant ?ns w = (Inr (), w)"
    by (simp_all add: ensureNamespace_def ensureDatabase_def ensureBackupCreds_def ensureScheduledBackup_def backupsEnabled_def demoRC_def
        bnd_def ret_def populated_present [OF w])
  have "reconcileLive online demoTenant w = reportStatus demoTenant True True True 0 w2"
    by (simp add: reconcileLive_def addFinalizer_def Let_def acme bnd_def ret_def online_def dbs demo_ready [OF w] reconcileIdentity_def iam
        guarded_def apps demo_ready [OF w2(2)])
  moreover have "Reconcile online ''acme'' w = reconcileLive online demoTenant w"
    using populatedD(1,5) [OF w] by (simp add: Reconcile_def attempt_def GetTenantRes_def bnd_def ret_def acme)
  ultimately show ?thesis using report by metis
qed

definition staleObjects :: "objkey \<rightharpoonup> kobject" where
  "staleObjects k = (if fst k \<noteq> NetworkPolicy then Some (mkObject [] PNamespace)
     else map_of (map (\<lambda>(k, p). (k, mkObject managedBy (PNetworkPolicy p))) (tenantPolicies (newTenant ''acme'' []) ''tenant-acme'')) k)"

definition staleWorld :: "unit platform world" where
  "staleWorld = demoWorld \<lparr>pf_tenants = [''acme'' \<mapsto> demoTenant], pf_objects = staleObjects, pf_available = (\<lambda>_ _. 1), pf_ready = (\<lambda>_. Some 1),
     pf_token = Some (''jwt'', 3600 * second), pf_iam = ()\<rparr>"

lemma stale_genuine: "genuinePolicies ns staleObjects"
  unfolding genuinePolicies_def
proof (intro allI impI)
  fix n ob assume "staleObjects (NetworkPolicy, ns, n) = Some ob"
  then obtain p where p: "((NetworkPolicy, ns, n), p) \<in> set (tenantPolicies (newTenant ''acme'' []) ''tenant-acme'')" "ob = mkObject managedBy (PNetworkPolicy p)"
    by (auto simp: staleObjects_def dest!: map_of_SomeD)
  then show "genuinePolicy n ob"
    using tenantPolicies_genuine [OF p(1) refl, of] by (simp add: genuinePolicy_def SetControllerReference_def)
qed

theorem Ready_established_witness:
  "\<exists>q w' t'. Reconcile online ''acme'' staleWorld = (Inr q, w') \<and> pf_tenants (w_db w') ''acme'' = Some t' \<and> st_Phase (tn_Status t') = TenantReady \<and>
     databaseUp (w_db w') ''tenant-acme'' \<and> list_all (appUp (w_db w') ''tenant-acme'') catalog \<and>
     policiesIn (pf_objects (w_db w')) ''tenant-acme'' =
       {(n, p). ((NetworkPolicy, ''tenant-acme'', n), p) \<in> set (tenantPolicies demoTenant ''tenant-acme'')}"
proof -
  have "populated staleWorld" by (simp add: populated_def staleWorld_def staleObjects_def)
  then obtain q w' t' where run: "Reconcile online ''acme'' staleWorld = (Inr q, w')" "pf_tenants (w_db w') ''acme'' = Some t'" "st_Phase (tn_Status t') = TenantReady"
    using demo_Reconcile by blast
  have t: "tn_Name demoTenant = ''acme''" "tenantNamespace demoTenant = ''tenant-acme''" "\<not> tn_Deleting demoTenant"
    by (simp_all add: demoTenant_def newTenant_def tenantNamespace_def)
  have all: "list_all (\<lambda>app. provisioned demoTenant app) catalog"
    by (simp add: catalog_def stubApp_def provisioned_def tenantEnables_def demoTenant_def newTenant_def)
  have "databaseUp (w_db w') ''tenant-acme'' \<and> list_all (\<lambda>app. \<not> provisioned demoTenant app \<or> appUp (w_db w') ''tenant-acme'' app) catalog \<and>
     policiesIn (pf_objects (w_db w')) ''tenant-acme'' =
       {(n, p). ((NetworkPolicy, ''tenant-acme'', n), p) \<in> set (tenantPolicies demoTenant ''tenant-acme'')}"
    using Ready_established [of online demoZitadel staleWorld demoTenant q w' t', unfolded t] run stale_genuine t(3)
    by (simp add: online_def staleWorld_def)
  then show ?thesis using run all by (auto simp: list_all_iff)
qed

end
