(* ===== verification/Operator.thy ===== *)
theory Operator
  imports Isolation Web
begin

text \<open>
  The operator's side of the control plane (\<open>control-plane/internal/server\<close>): who may use it (\<open>auth.go\<close>), the HTTP API
  (\<open>api.go\<close>), the browser interface (\<open>ui.go\<close>), users of a tenant (\<open>users.go\<close>) and the way the server puts them
  together (\<open>server.go\<close>), next to the reconciler that shares the tenants with it.
\<close>

section \<open>The server\<close>

text \<open>
  A request as the handlers read it: the browser's part; the value a JSON decoder reads from the body (\<open>None\<close>: no JSON);
  and the values of the form field \<open>apps\<close> (\<open>None\<close>: the form could not be parsed). The path parameter is \<open>wr_ID\<close>.
\<close>

record op_request =
  oq_Web :: web_request
  oq_Json :: "json option"
  oq_Apps :: "string list option"

text \<open>
  \<open>Config\<close> and \<open>Server\<close>. Of the libraries: \<open>op_hostname\<close> is the host of a URL that parses, \<open>op_parse\<close> the JSON parser,
  \<open>op_email\<close> the decoder of the generated e-mail type, \<open>op_text\<close> the text of an error, \<open>op_List\<close> the order in which the
  cluster lists its tenants.
\<close>

record op_config =
  og_PublicURL :: string
  og_Issuer :: string
  og_OperatorSubs :: "string list"

record op_library =
  ol_hostname :: "string \<Rightarrow> string option"
  ol_parse :: "bytes \<Rightarrow> json option"
  ol_email :: "json \<Rightarrow> string option"
  ol_text :: "err \<Rightarrow> string"
  ol_List :: "(string \<rightharpoonup> tenant) \<Rightarrow> tenant list"

record 'z op_server =
  op_IAM :: "'z zitadel"
  op_Cfg :: op_config
  op_rp :: relying_party
  op_fga :: fga
  op_clientID :: string
  op_lib :: op_library

record op_state = rp_state +
  op_tokens :: "subject sstore"

datatype app_toggle = AppToggle string bool

record row_data =
  rw_Slug :: string
  rw_DisplayName :: string
  rw_Phase :: string
  rw_Issuer :: string
  rw_OptionalApps :: "app_toggle list"

text \<open>What the templates render.\<close>

datatype op_page = IndexPage "claims option" "row_data list" | RowPage row_data | CredsPage string string | CredsError string

type_synonym op_response = "op_page response"

type_synonym ('z, 'a) op = "('z platform world \<times> op_state, 'a) io"

section \<open>Who is an operator\<close>

definition platformObject :: string where
  "platformObject = ''platform:peristera''"

definition operatorRelation :: string where
  "operatorRelation = ''operator''"

definition opHost :: "op_library \<Rightarrow> string \<Rightarrow> string" where
  "opHost L issuer = (case ol_hostname L issuer of None \<Rightarrow> issuer | Some h \<Rightarrow> h)"

definition newTokenCache :: "int \<Rightarrow> subject sstore" where
  "newTokenCache ttl = NewStore ttl"

definition tokenGet :: "string \<Rightarrow> ('z, subject option) op" where
  "tokenGet tok = (\<lambda>(w, s). case GetSession (w_now w) tok (op_tokens s) of (v, c) \<Rightarrow> (Inr v, (w, s\<lparr>op_tokens := c\<rparr>)))"

definition tokenPut :: "string \<Rightarrow> subject \<Rightarrow> ('z, unit) op" where
  "tokenPut tok u = (\<lambda>(w, s). (Inr (), (w, s\<lparr>op_tokens := PutSession (w_now w) tok u (op_tokens s)\<rparr>)))"

definition seedOperators :: "op_library \<Rightarrow> op_config \<Rightarrow> fga \<Rightarrow> ('z, unit) cp" where
  "seedOperators L cfg F =
    foreach (\<lambda>sub.
      let subject = \<lparr>sub_Instance = opHost L (og_Issuer cfg), sub_UserID = sub\<rparr> in
      bnd (Check F subject operatorRelation platformObject) (\<lambda>ok.
      if ok then ret () else WriteTuple F subject operatorRelation platformObject)) (og_OperatorSubs cfg)"

text \<open>
  \<open>parseAud\<close> on the raw member: a \<open>null\<close> decodes as the empty string, and among the elements of an array too.
\<close>

definition parseAud :: "json option \<Rightarrow> string list" where
  "parseAud raw = (case raw of
     None \<Rightarrow> []
   | Some JNull \<Rightarrow> [[]]
   | Some (JStr s) \<Rightarrow> [s]
   | Some (JArr js) \<Rightarrow> (case those (map jsonText js) of None \<Rightarrow> [] | Some ss \<Rightarrow> ss)
   | Some _ \<Rightarrow> [])"

text \<open>The raw \<open>aud\<close> member of a claims document, the last one if there are several; \<open>None\<close> when the document is no object.\<close>

definition audMember :: "json \<Rightarrow> json option option" where
  "audMember doc = (case doc of
     JNull \<Rightarrow> Some None
   | JObj ms \<Rightarrow> Some (foldl (\<lambda>acc m. if foldName (fst m) = ''aud'' then Some (snd m) else acc) None ms)
   | _ \<Rightarrow> None)"

definition audienceOK :: "op_library \<Rightarrow> string \<Rightarrow> string \<Rightarrow> bool" where
  "audienceOK L token clientID =
    (let parts = splitOn (CHR ''.'') token in
     if length parts \<noteq> 3 then True
     else case rawURLDecode (parts ! 1) of
       None \<Rightarrow> True
     | Some payload \<Rightarrow> (case Option.bind (ol_parse L payload) audMember of
           None \<Rightarrow> True
         | Some raw \<Rightarrow> let auds = parseAud raw in auds = [] \<or> clientID \<in> set auds))"

text \<open>The bearer token of a request: the scheme in any case, and something after it.\<close>

definition bearerOf :: "web_request \<Rightarrow> string option" where
  "bearerOf r =
    (let h = wr_Header r ''Authorization'' in
     if length h \<le> 7 \<or> map lowerAscii (take 7 h) \<noteq> map lowerAscii ''Bearer '' then None else Some (TrimSpace (drop 7 h)))"

definition operatorSubject :: "'z op_server \<Rightarrow> web_request \<Rightarrow> ('z, subject option) op" where
  "operatorSubject S r =
    (let inst = opHost (op_lib S) (og_Issuer (op_Cfg S)) in
     bnd (SessionOf (op_rp S) r) (\<lambda>sess.
     case sess of
       Some x \<Rightarrow> ret (Some \<lparr>sub_Instance = inst, sub_UserID = cl_Subject (os_Claims x)\<rparr>)
     | None \<Rightarrow> (case bearerOf r of
           None \<Rightarrow> ret None
         | Some tok \<Rightarrow>
             if \<not> audienceOK (op_lib S) tok (op_clientID S) then ret None
             else
               bnd (tokenGet tok) (\<lambda>hit.
               case hit of
                 Some u \<Rightarrow> ret (Some u)
               | None \<Rightarrow>
                   bnd (lift (UserinfoSubject (op_IAM S) (og_Issuer (op_Cfg S)) tok)) (\<lambda>sub.
                   case sub of
                     None \<Rightarrow> ret None
                   | Some u \<Rightarrow>
                       let subject = \<lparr>sub_Instance = inst, sub_UserID = u\<rparr> in
                       bnd (tokenPut tok subject) (\<lambda>_. ret (Some subject)))))))"

definition deny :: "bool \<Rightarrow> nat \<Rightarrow> string \<Rightarrow> op_response" where
  "deny isAPI code msg = (if isAPI then writeErr code msg else httpError msg code)"

definition denyUnauthenticated :: "bool \<Rightarrow> op_response" where
  "denyUnauthenticated isAPI = (if isAPI then writeErr 401 ''authentication required'' else Redirect ''/auth/login'' 302)"

definition requireAuth :: "'z op_server \<Rightarrow> (op_request \<Rightarrow> ('z, op_response) op) \<Rightarrow> bool \<Rightarrow> op_request \<Rightarrow> ('z, op_response) op" where
  "requireAuth S handler isAPI r =
    bnd (operatorSubject S (oq_Web r)) (\<lambda>subject.
    case subject of
      None \<Rightarrow> ret (denyUnauthenticated isAPI)
    | Some u \<Rightarrow>
        attempt (lift (Check (op_fga S) u operatorRelation platformObject))
          (\<lambda>_. ret (deny isAPI 502 ''authorization unavailable''))
          (\<lambda>allowed. if \<not> allowed then ret (deny isAPI 403 ''not authorized as an operator'') else handler r))"

section \<open>The API\<close>

definition phaseText :: "tenant_phase \<Rightarrow> string" where
  "phaseText p = (case p of PhaseUnset \<Rightarrow> [] | TenantPending \<Rightarrow> ''Pending'' | TenantReady \<Rightarrow> ''Ready'' | TenantDeleting \<Rightarrow> ''Deleting'' | TenantFailed \<Rightarrow> ''Failed'')"

definition omitEmpty :: "string \<Rightarrow> string \<Rightarrow> (string \<times> json) list" where
  "omitEmpty name v = (if v = [] then [] else [(name, JStr v)])"

definition toAPITenant :: "'z op_server \<Rightarrow> tenant \<Rightarrow> json" where
  "toAPITenant S t =
    JObj ([(''apps'', JArr (map JStr (ts_Apps (tn_Spec t))))] @ omitEmpty ''clientId'' (st_ClientID (tn_Status t)) @
      omitEmpty ''displayName'' (ts_DisplayName (tn_Spec t)) @ omitEmpty ''issuer'' (st_Issuer (tn_Status t)) @
      [(''permalink'', JStr (og_PublicURL (op_Cfg S) @ ''/api/v1/tenants/'' @ ts_Slug (tn_Spec t))),
       (''phase'', JStr (phaseText (st_Phase (tn_Status t)))), (''slug'', JStr (ts_Slug (tn_Spec t)))])"

definition listed :: "'z op_server \<Rightarrow> ('z, tenant list) cp" where
  "listed S = bnd (query (\<lambda>d. ol_List (op_lib S) (pf_tenants d))) (\<lambda>ts. ret (sort_key (\<lambda>t. ts_Slug (tn_Spec t)) ts))"

definition apiError :: "nat \<Rightarrow> string \<Rightarrow> op_response" where
  "apiError code msg = writeErr code msg"

definition internalError :: "'z op_server \<Rightarrow> err \<Rightarrow> op_response" where
  "internalError S e = apiError 500 (ol_text (op_lib S) e)"

definition ListTenants :: "'z op_server \<Rightarrow> ('z, op_response) cp" where
  "ListTenants S = attempt (listed S) (\<lambda>e. ret (internalError S e)) (\<lambda>ts. ret (writeJSON 200 (JArr (map (toAPITenant S) ts))))"

text \<open>
  Members of the generated input types: an optional string (a later \<open>null\<close> clears it) and a list of strings.
\<close>

definition memberField :: "(json \<Rightarrow> 'a option) \<Rightarrow> 'a \<Rightarrow> string \<Rightarrow> json \<Rightarrow> 'a option" where
  "memberField conv zero name doc = (case doc of
     JNull \<Rightarrow> Some zero
   | JObj ms \<Rightarrow>
       foldl (\<lambda>acc m. if foldName (fst m) \<noteq> name then acc
                      else case acc of None \<Rightarrow> None | Some _ \<Rightarrow> conv (snd m)) (Some zero) ms
   | _ \<Rightarrow> None)"

definition optionalString :: "json \<Rightarrow> string option option" where
  "optionalString j = (case j of JNull \<Rightarrow> Some None | JStr s \<Rightarrow> Some (Some s) | _ \<Rightarrow> None)"

definition stringList :: "json \<Rightarrow> string list option" where
  "stringList j = (case j of JNull \<Rightarrow> Some [] | JArr js \<Rightarrow> those (map jsonText js) | _ \<Rightarrow> None)"

definition decodeCreate :: "json \<Rightarrow> (string \<times> string option \<times> string option) option" where
  "decodeCreate doc =
    Option.bind (decodeField jsonString ''slug'' [] doc) (\<lambda>slug.
    Option.bind (memberField optionalString None ''displayname'' doc) (\<lambda>name.
    Option.bind (memberField optionalString None ''domain'' doc) (\<lambda>domain. Some (slug, name, domain))))"

definition invalidJSON :: "'z op_server \<Rightarrow> op_response" where
  "invalidJSON S = apiError 400 (''invalid JSON: '' @ ol_text (op_lib S) ErrDecode)"

definition orEmpty :: "string option \<Rightarrow> string" where
  "orEmpty x = (case x of None \<Rightarrow> [] | Some s \<Rightarrow> s)"

text \<open>The resource as the cluster returns it after a create.\<close>

definition createdTenant :: "string \<Rightarrow> tenant_spec \<Rightarrow> tenant" where
  "createdTenant name spec = \<lparr>tn_Name = name, tn_Generation = 1, tn_Deleting = False, tn_Finalizers = [], tn_Spec = spec, tn_Status = emptyStatus\<rparr>"

definition CreateTenant :: "'z op_server \<Rightarrow> op_request \<Rightarrow> ('z, op_response) cp" where
  "CreateTenant S r = (case Option.bind (oq_Json r) decodeCreate of
     None \<Rightarrow> ret (invalidJSON S)
   | Some (slug, name, domain) \<Rightarrow>
       if \<not> ValidSlug slug then ret (apiError 400 ''slug must be a DNS label'')
       else if orEmpty domain \<noteq> [] \<and> \<not> ValidDomain (orEmpty domain) then ret (apiError 400 ''domain must be a valid FQDN'')
       else
         let spec = \<lparr>ts_Slug = slug, ts_DisplayName = orEmpty name, ts_Domain = orEmpty domain, ts_Apps = []\<rparr> in
         attempt (CreateTenantRes slug spec)
           (\<lambda>e. ret (if e = ErrAlreadyExists then apiError 409 ''tenant exists'' else internalError S e))
           (\<lambda>_. ret (writeJSON 201 (toAPITenant S (createdTenant slug spec)))))"

definition missing :: "'z op_server \<Rightarrow> err \<Rightarrow> op_response" where
  "missing S e = (if e = ErrAbsent then apiError 404 ''no such tenant'' else internalError S e)"

definition GetTenant :: "'z op_server \<Rightarrow> op_request \<Rightarrow> ('z, op_response) cp" where
  "GetTenant S r = attempt (GetTenantRes (wr_ID (oq_Web r))) (\<lambda>e. ret (missing S e)) (\<lambda>t. ret (writeJSON 200 (toAPITenant S t)))"

definition DeleteTenant :: "'z op_server \<Rightarrow> op_request \<Rightarrow> ('z, op_response) cp" where
  "DeleteTenant S r = attempt (DeleteTenantRes (wr_ID (oq_Web r))) (\<lambda>e. ret (missing S e)) (\<lambda>_. ret (statusOnly 204))"

definition validateOptionalApps :: "string list \<Rightarrow> string + string list" where
  "validateOptionalApps names =
    foldl (\<lambda>acc n. case acc of
       Inl e \<Rightarrow> Inl e
     | Inr out \<Rightarrow> if \<not> IsOptionalApp n then Inl (''not an optional app: '' @ n)
                  else if n \<in> set out then Inr out else Inr (out @ [n])) (Inr []) names"

definition withApps :: "tenant \<Rightarrow> string list \<Rightarrow> tenant" where
  "withApps t apps = t\<lparr>tn_Spec := (tn_Spec t)\<lparr>ts_Apps := apps\<rparr>\<rparr>"

definition SetTenantApps :: "'z op_server \<Rightarrow> op_request \<Rightarrow> ('z, op_response) cp" where
  "SetTenantApps S r = (case Option.bind (oq_Json r) (memberField stringList [] ''apps'') of
     None \<Rightarrow> ret (invalidJSON S)
   | Some names \<Rightarrow> (case validateOptionalApps names of
         Inl msg \<Rightarrow> ret (apiError 400 msg)
       | Inr apps \<Rightarrow>
           attempt (GetTenantRes (wr_ID (oq_Web r))) (\<lambda>e. ret (missing S e)) (\<lambda>t.
           attempt (UpdateTenantRes (withApps t apps)) (\<lambda>e. ret (internalError S e)) (\<lambda>_.
           ret (writeJSON 200 (toAPITenant S (withApps t apps)))))))"

section \<open>Users of a tenant\<close>

definition genPassword :: "('z, string) cp" where
  "genPassword = bnd (randRead 18) (\<lambda>raw. ret (''Aa1!'' @ rawURLEncode raw))"

definition createTenantUser :: "'z zitadel \<Rightarrow> string \<Rightarrow> string \<Rightarrow> ('z, string \<times> string) cp" where
  "createTenantUser z slug email =
    (let email = TrimSpace email in
     case Cut email (CHR ''@'') of (localPart, domain, ok) \<Rightarrow>
     if \<not> ok \<or> localPart = [] \<or> domain = [] then fail ErrBadEmail
     else
       attempt (GetTenantRes slug) (\<lambda>e. fail (if e = ErrAbsent then ErrNoTenant else e)) (\<lambda>t.
       let issuer = st_Issuer (tn_Status t) in
       if issuer = [] then fail ErrNotProvisioned
       else
         bnd (FirstOrgID z issuer) (\<lambda>orgID.
         bnd genPassword (\<lambda>password.
         bnd (CreateHumanUser z issuer orgID email localPart ''Admin'' password) (\<lambda>userID.
         bnd (AddOrgMember z issuer orgID userID [''ORG_OWNER'']) (\<lambda>_.
         ret (email, password)))))))"

definition CreateTenantUser :: "'z op_server \<Rightarrow> op_request \<Rightarrow> ('z, op_response) cp" where
  "CreateTenantUser S r = (case Option.bind (oq_Json r) (memberField (ol_email (op_lib S)) [] ''email'') of
     None \<Rightarrow> ret (invalidJSON S)
   | Some email \<Rightarrow>
       attempt (createTenantUser (op_IAM S) (wr_ID (oq_Web r)) email)
         (\<lambda>e. ret (if e = ErrBadEmail then apiError 400 ''email must be a valid address''
                   else if e = ErrNoTenant then apiError 404 ''no such tenant''
                   else if e = ErrNotProvisioned then apiError 422 ''tenant is not provisioned yet (no issuer)''
                   else if e = ErrUserExists then apiError 409 ''a user with this email already exists''
                   else internalError S e))
         (\<lambda>(login, password). ret (writeJSON 201 (JObj [(''login'', JStr login), (''password'', JStr password)]))))"

datatype api_route = ListTenantsR | CreateTenantR | GetTenantR | DeleteTenantR | SetTenantAppsR | CreateTenantUserR

definition apiRoutes :: "'z op_server \<Rightarrow> api_route \<Rightarrow> op_request \<Rightarrow> ('z, op_response) cp" where
  "apiRoutes S route r = (case route of
     ListTenantsR \<Rightarrow> ListTenants S
   | CreateTenantR \<Rightarrow> CreateTenant S r
   | GetTenantR \<Rightarrow> GetTenant S r
   | DeleteTenantR \<Rightarrow> DeleteTenant S r
   | SetTenantAppsR \<Rightarrow> SetTenantApps S r
   | CreateTenantUserR \<Rightarrow> CreateTenantUser S r)"

section \<open>The browser interface\<close>

definition tenantHasApp :: "tenant \<Rightarrow> string \<Rightarrow> bool" where
  "tenantHasApp t name = list_ex (\<lambda>a. a = name) (ts_Apps (tn_Spec t))"

definition toRow :: "tenant \<Rightarrow> row_data" where
  "toRow t = \<lparr>rw_Slug = ts_Slug (tn_Spec t), rw_DisplayName = ts_DisplayName (tn_Spec t), rw_Phase = phaseText (st_Phase (tn_Status t)),
     rw_Issuer = st_Issuer (tn_Status t), rw_OptionalApps = map (\<lambda>n. AppToggle n (tenantHasApp t n)) OptionalApps\<rparr>"

definition page :: "op_page \<Rightarrow> op_response" where
  "page p = \<lparr>rs_Status = 200, rs_Header = [], rs_Body = POther p\<rparr>"

definition refresh :: op_response where
  "refresh = \<lparr>rs_Status = 204, rs_Header = [(''HX-Refresh'', ''true'')], rs_Body = PNone\<rparr>"

definition uiError :: "'z op_server \<Rightarrow> nat \<Rightarrow> err \<Rightarrow> op_response" where
  "uiError S code e = httpError (ol_text (op_lib S) e) code"

definition uiIndex :: "'z op_server \<Rightarrow> op_request \<Rightarrow> ('z, op_response) op" where
  "uiIndex S r = attempt (lift (listed S)) (\<lambda>e. ret (uiError S 500 e)) (\<lambda>ts.
     bnd (SessionOf (op_rp S) (oq_Web r)) (\<lambda>u. ret (page (IndexPage (map_option os_Claims u) (map toRow ts)))))"

definition uiCreate :: "'z op_server \<Rightarrow> op_request \<Rightarrow> ('z, op_response) cp" where
  "uiCreate S r =
    (let slug = FormValue (oq_Web r) ''slug''; domain = FormValue (oq_Web r) ''domain'' in
     if \<not> ValidSlug slug then ret (httpError ''Slug'' 400)
     else if domain \<noteq> [] \<and> \<not> ValidDomain domain then ret (httpError ''custom domain (optional)'' 400)
     else
       attempt (CreateTenantRes slug \<lparr>ts_Slug = slug, ts_DisplayName = FormValue (oq_Web r) ''displayName'', ts_Domain = domain, ts_Apps = []\<rparr>)
         (\<lambda>e. ret (if e = ErrAlreadyExists then refresh else uiError S 500 e)) (\<lambda>_. ret refresh))"

definition uiDelete :: "'z op_server \<Rightarrow> op_request \<Rightarrow> ('z, op_response) cp" where
  "uiDelete S r = attempt (DeleteTenantRes (wr_ID (oq_Web r)))
     (\<lambda>e. ret (if e = ErrAbsent then refresh else uiError S 500 e)) (\<lambda>_. ret refresh)"

definition uiRow :: "'z op_server \<Rightarrow> op_request \<Rightarrow> ('z, op_response) cp" where
  "uiRow S r = attempt (GetTenantRes (wr_ID (oq_Web r))) (\<lambda>_. ret (statusOnly 200)) (\<lambda>t. ret (page (RowPage (toRow t))))"

definition userErrMessage :: "err \<Rightarrow> string" where
  "userErrMessage e =
    (if e = ErrBadEmail then ''admin email''
     else if e = ErrNoTenant then ''no such tenant''
     else if e = ErrNotProvisioned then ''tenant is not provisioned yet''
     else if e = ErrUserExists then ''a user with this email already exists''
     else ''could not create user'')"

definition uiCreateUser :: "'z op_server \<Rightarrow> op_request \<Rightarrow> ('z, op_response) cp" where
  "uiCreateUser S r =
    attempt (createTenantUser (op_IAM S) (wr_ID (oq_Web r)) (FormValue (oq_Web r) ''email''))
      (\<lambda>e. ret (page (CredsError (userErrMessage e)))) (\<lambda>(login, password). ret (page (CredsPage login password)))"

definition uiSetApps :: "'z op_server \<Rightarrow> op_request \<Rightarrow> ('z, op_response) cp" where
  "uiSetApps S r = (case oq_Apps r of
     None \<Rightarrow> ret (uiError S 400 ErrDecode)
   | Some names \<Rightarrow> (case validateOptionalApps names of
         Inl msg \<Rightarrow> ret (httpError msg 400)
       | Inr apps \<Rightarrow>
           attempt (GetTenantRes (wr_ID (oq_Web r)))
             (\<lambda>e. ret (if e = ErrAbsent then httpError ''no such tenant'' 404 else uiError S 500 e)) (\<lambda>t.
           attempt (UpdateTenantRes (withApps t apps)) (\<lambda>e. ret (uiError S 500 e)) (\<lambda>_. ret refresh))))"

datatype ui_route = UiIndex | UiCreate | UiDelete | UiRow | UiCreateUser | UiSetApps

definition uiMethod :: "ui_route \<Rightarrow> string" where
  "uiMethod route = (case route of UiIndex \<Rightarrow> ''GET'' | UiCreate \<Rightarrow> ''POST'' | UiDelete \<Rightarrow> ''DELETE'' | UiRow \<Rightarrow> ''GET'' | UiCreateUser \<Rightarrow> ''POST'' | UiSetApps \<Rightarrow> ''PUT'')"

definition uiMux :: "'z op_server \<Rightarrow> ui_route \<Rightarrow> op_request \<Rightarrow> ('z, op_response) op" where
  "uiMux S route r = (case route of
     UiIndex \<Rightarrow> uiIndex S r
   | UiCreate \<Rightarrow> lift (uiCreate S r)
   | UiDelete \<Rightarrow> lift (uiDelete S r)
   | UiRow \<Rightarrow> lift (uiRow S r)
   | UiCreateUser \<Rightarrow> lift (uiCreateUser S r)
   | UiSetApps \<Rightarrow> lift (uiSetApps S r))"

section \<open>The server's routes\<close>

datatype op_route = Healthz | LoginRoute | CallbackRoute | LogoutRoute | ApiRoute api_route | UiRoute ui_route

definition opServe :: "'z op_server \<Rightarrow> op_route \<Rightarrow> op_request \<Rightarrow> ('z, op_response) op" where
  "opServe S route r = (case route of
     Healthz \<Rightarrow> ret \<lparr>rs_Status = 200, rs_Header = [], rs_Body = PBytes (bytesOf ''ok'')\<rparr>
   | LoginRoute \<Rightarrow> Login (op_rp S) (oq_Web r)
   | CallbackRoute \<Rightarrow> Callback (op_rp S) (oq_Web r)
   | LogoutRoute \<Rightarrow> Logout (op_rp S) (oq_Web r)
   | ApiRoute a \<Rightarrow> requireAuth S (\<lambda>r. lift (apiRoutes S a r)) True r
   | UiRoute u \<Rightarrow>
       requireAuth S (\<lambda>r. SameOriginGuard (og_PublicURL (op_Cfg S)) (\<lambda>_. uiMux S u r) (oq_Web r)) False r)"

text \<open>
  \<open>Start\<close> up to the point where the server listens: its own app at the identity provider, the authorization server
  (\<open>None\<close>: it could not be reached), the first operators, the discovery of the provider, an empty token cache.
\<close>

definition opStart :: "'z zitadel \<Rightarrow> op_config \<Rightarrow> op_library \<Rightarrow> fga option \<Rightarrow> (string \<Rightarrow> provider option) \<Rightarrow> ('z, 'z op_server \<times> op_state) cp" where
  "opStart z cfg L connect discover =
    bnd (FirstOrgID z (og_Issuer cfg)) (\<lambda>orgID.
    bnd (EnsureWebApp z (og_Issuer cfg) orgID ''control-plane'' [og_PublicURL cfg @ ''/auth/callback''] [og_PublicURL cfg @ ''/'']) (\<lambda>clientID.
    case connect of
      None \<Rightarrow> fail ErrIO
    | Some F \<Rightarrow>
        bnd (seedOperators L cfg F) (\<lambda>_.
        case NewRelyingParty \<lparr>rc_Issuer = og_Issuer cfg, rc_SuccessURL = [], rc_PostLogoutURL = [], rc_CookieName = ''cp_session'',
               rc_Secure = HasPrefix (og_PublicURL cfg) ''https://'', rc_SessionTTL = 0\<rparr> (discover clientID) of
          None \<Rightarrow> fail ErrIO
        | Some (R, st) \<Rightarrow>
            ret (\<lparr>op_IAM = z, op_Cfg = cfg, op_rp = R, op_fga = F, op_clientID = clientID, op_lib = L\<rparr>,
                 \<lparr>rp_sessions = rp_sessions st, rp_logins = rp_logins st, op_tokens = newTokenCache minute\<rparr>))))"

section \<open>Frames of the browser login\<close>

text \<open>The world and the token cache around a step of the relying party: only random bytes are drawn.\<close>

definition beside :: "int \<Rightarrow> 'z platform \<Rightarrow> tuple list \<Rightarrow> subject sstore \<Rightarrow> 'z platform world \<times> op_state \<Rightarrow> bool" where
  "beside n d ts tk = (\<lambda>(w, s). w_now w = n \<and> w_db w = d \<and> w_fga w = ts \<and> op_tokens s = tk)"

lemma keeps_beside [keeps_rules]:
  "keeps (beside n d ts tk) (randID k)" "keeps (beside n d ts tk) (lift (randRead k))" "keeps (beside n d ts tk) rpNow"
  "keeps (beside n d ts tk) (onLogins g)" "keeps (beside n d ts tk) (onSessions h)"
  "keeps (beside n d ts tk) (getLogin key)" "keeps (beside n d ts tk) (getSession key)"
  by (rule keepsI, auto simp: beside_def randID_def lift_def bnd_apply ret_apply randRead_def rpNow_def onLogins_def onSessions_def getLogin_def
      getSession_def split: prod.splits)+

lemma keeps_login:
  "keeps (beside n d ts tk) (Login R r)" "keeps (beside n d ts tk) (Callback R r)" "keeps (beside n d ts tk) (Logout R r)"
  "keeps (beside n d ts tk) (SessionOf R r)"
proof -
  have c: "keeps (beside n d ts tk) (completeLogin R code v)" for code v
    unfolding completeLogin_def Let_def by (intro keeps_rules)
  show "keeps (beside n d ts tk) (Login R r)" unfolding Login_def Let_def by (intro keeps_rules)
  show "keeps (beside n d ts tk) (Callback R r)" unfolding Callback_def Let_def by (intro keeps_rules c)
  show "keeps (beside n d ts tk) (Logout R r)" unfolding Logout_def by (intro keeps_rules)
  show "keeps (beside n d ts tk) (SessionOf R r)" unfolding SessionOf_def by (intro keeps_rules)
qed

lemma beside_step:
  assumes "\<And>n d ts tk. keeps (beside n d ts tk) m" "m (w, s) = (x, (w', s'))"
  shows "w_now w' = w_now w \<and> w_db w' = w_db w \<and> w_fga w' = w_fga w \<and> op_tokens s' = op_tokens s"
  using keepsD2 [OF assms(1) [of "w_now w" "w_db w" "w_fga w" "op_tokens s"] _ assms(2)] by (simp add: beside_def)

section \<open>Where a subject comes from\<close>

definition opIssuerHost :: "'z op_server \<Rightarrow> string" where
  "opIssuerHost S = opHost (op_lib S) (og_Issuer (op_Cfg S))"

text \<open>The provider answered the userinfo request of a token, at a time, with this subject.\<close>

definition accepted :: "'z op_server \<Rightarrow> int \<Rightarrow> string \<Rightarrow> subject \<Rightarrow> bool" where
  "accepted S t tok u \<longleftrightarrow> sub_Instance u = opIssuerHost S \<and>
     (\<exists>st. userinfoSub (fst (zt_serve (op_IAM S) t (userinfoRequest (og_Issuer (op_Cfg S)) tok) st)) = Some (sub_UserID u))"

definition opInv :: "'z op_server \<Rightarrow> int \<Rightarrow> op_state \<Rightarrow> bool" where
  "opInv S t s \<longleftrightarrow> rpInv (op_rp S) t s \<and> backed minute (accepted S) t (op_tokens s)"

text \<open>
  The subject of a request, now: that of the login its session cookie stands for, or that of its bearer token, which is
  for this audience and which the provider accepted at most a minute ago.
\<close>

definition authentic :: "'z op_server \<Rightarrow> int \<Rightarrow> op_state \<Rightarrow> web_request \<Rightarrow> subject \<Rightarrow> bool" where
  "authentic S now s r u \<longleftrightarrow> sub_Instance u = opIssuerHost S \<and>
     ((\<exists>x. loggedIn (op_rp S) r now s x \<and> sub_UserID u = cl_Subject (os_Claims x)) \<or>
      (\<exists>t \<le> now. \<exists>tok. now - t \<le> minute \<and> bearerOf r = Some tok \<and> audienceOK (op_lib S) tok (op_clientID S) \<and> accepted S t tok u))"

lemma opInv_later: "opInv S t s \<Longrightarrow> t \<le> t' \<Longrightarrow> opInv S t' s"
  unfolding opInv_def using rpInv_later backed_later by blast

lemma opInv_login:
  fixes w :: "'z platform world"
  assumes "opInv S (w_now w) s"
  shows "Login (op_rp S) r (w, s) = (x, (w', s')) \<Longrightarrow> opInv S (w_now w) s'"
    "Callback (op_rp S) r (w, s) = (x, (w', s')) \<Longrightarrow> opInv S (w_now w) s'"
    "Logout (op_rp S) r (w, s) = (x, (w', s')) \<Longrightarrow> opInv S (w_now w) s'"
    "SessionOf (op_rp S) r (w, s) = (y, (w', s')) \<Longrightarrow> opInv S (w_now w) s'"
proof -
  have i: "rpInv (op_rp S) (w_now w) s" and b: "backed minute (accepted S) (w_now w) (op_tokens s)" using assms by (simp_all add: opInv_def)
  show "opInv S (w_now w) s'" if m: "Login (op_rp S) r (w, s) = (x, (w', s'))"
    using rpInv_ops(1) [OF i m] beside_step [OF keeps_login(1) m] b by (simp add: opInv_def)
  show "opInv S (w_now w) s'" if m: "Callback (op_rp S) r (w, s) = (x, (w', s'))"
    using rpInv_ops(2) [OF i m] beside_step [OF keeps_login(2) m] b by (simp add: opInv_def)
  show "opInv S (w_now w) s'" if m: "Logout (op_rp S) r (w, s) = (x, (w', s'))"
    using rpInv_ops(4) [OF i m] beside_step [OF keeps_login(3) m] b by (simp add: opInv_def)
  show "opInv S (w_now w) s'" if m: "SessionOf (op_rp S) r (w, s) = (y, (w', s'))"
    using rpInv_ops(3) [OF i m] beside_step [OF keeps_login(4) m] b by (simp add: opInv_def)
qed

text \<open>What a call leaves alone that changes nothing but the identity provider's side.\<close>

definition untouched :: "'z platform world \<Rightarrow> 'z platform world \<Rightarrow> bool" where
  "untouched w w' \<longleftrightarrow> w_now w' = w_now w \<and> w_fga w' = w_fga w \<and> pf_tenants (w_db w') = pf_tenants (w_db w) \<and> pf_objects (w_db w') = pf_objects (w_db w)"

lemma UserinfoSubject_outcome:
  assumes "UserinfoSubject z issuer tok w = (x, w')"
  shows "untouched w w' \<and> (\<exists>v. x = Inr v \<and> (\<forall>u. v = Some u \<longrightarrow> (\<exists>st. userinfoSub (fst (zt_serve z (w_now w) (userinfoRequest issuer tok) st)) = Some u)))"
  using assms unfolding UserinfoSubject_def catch_def serve_def bnd_def
  by (auto elim!: call_cases simp: ret_def untouched_def split: prod.splits sum.splits) (metis fst_conv)

lemma SessionOf_outcome:
  fixes w :: "'z platform world"
  assumes "opInv S (w_now w) s" "SessionOf (op_rp S) r (w, s) = (x, (w', s'))"
  shows "w' = w \<and> opInv S (w_now w) s' \<and> (\<exists>v. x = Inr v \<and> (\<forall>y. v = Some y \<longrightarrow> loggedIn (op_rp S) r (w_now w) s y))"
proof -
  have "rpInv (op_rp S) (w_now w) s" using assms(1) by (simp add: opInv_def)
  then show ?thesis using SessionOf_cookie [OF assms(2)] SessionOf_loggedIn [of "op_rp S" w s r] opInv_login(4) [OF assms] assms(2) by blast
qed

lemma tokenGet_outcome:
  assumes "opInv S (w_now w) s" "tokenGet tok (w, s) = (x, (w', s'))"
  shows "w' = w \<and> opInv S (w_now w) s' \<and> (\<exists>v. x = Inr v \<and> (\<forall>u. v = Some u \<longrightarrow> (\<exists>t \<le> w_now w. accepted S t tok u \<and> w_now w - t \<le> minute)))"
  using assms backed_get [of minute "accepted S" "w_now w" "op_tokens s" "w_now w" tok]
  by (force simp: tokenGet_def opInv_def rpInv_def split: prod.splits)

lemma tokenPut_inv: "opInv S (w_now w) s \<Longrightarrow> accepted S (w_now w) tok u \<Longrightarrow> tokenPut tok u (w, s) = (x, (w', s')) \<Longrightarrow> w' = w \<and> x = Inr () \<and> opInv S (w_now w) s'"
  by (auto simp: tokenPut_def opInv_def rpInv_def intro!: backed_put)

lemma untouched_refl [simp]: "untouched w w"
  by (simp add: untouched_def)

lemma operatorSubject_outcome:
  assumes inv: "opInv S (w_now w) s" and run: "operatorSubject S r (w, s) = (x, (w', s'))"
  shows "untouched w w' \<and> opInv S (w_now w) s' \<and> (\<exists>v. x = Inr v \<and> (\<forall>u. v = Some u \<longrightarrow> authentic S (w_now w) s r u))"
proof -
  obtain y w1 s1 where se: "SessionOf (op_rp S) r (w, s) = (y, (w1, s1))" by (metis prod.exhaust)
  note so = SessionOf_outcome [OF inv se]
  then obtain v where v: "y = Inr v" "w1 = w" and inv1: "opInv S (w_now w) s1" by blast
  show ?thesis
  proof (cases v)
    case (Some sess)
    then have "x = Inr (Some \<lparr>sub_Instance = opIssuerHost S, sub_UserID = cl_Subject (os_Claims sess)\<rparr>)" "w' = w" "s' = s1"
      using run se v by (auto simp: operatorSubject_def Let_def bnd_apply ret_apply opIssuerHost_def)
    then show ?thesis using so v Some inv1 by (auto simp: authentic_def)
  next
    case None
    note noSession = this
    show ?thesis
    proof (cases "bearerOf r")
      case None
      then show ?thesis using run se v noSession inv1 by (auto simp: operatorSubject_def Let_def bnd_apply ret_apply)
    next
      case (Some tok)
      note tok = this
      show ?thesis
      proof (cases "audienceOK (op_lib S) tok (op_clientID S)")
        case False
        then show ?thesis using run se v noSession tok inv1 by (auto simp: operatorSubject_def Let_def bnd_apply ret_apply)
      next
        case True
        obtain g w2 s2 where g: "tokenGet tok (w, s1) = (g, (w2, s2))" by (metis prod.exhaust)
        note tg = tokenGet_outcome [OF inv1 g]
        then obtain hit where hit: "g = Inr hit" "w2 = w" and inv2: "opInv S (w_now w) s2" by blast
        show ?thesis
        proof (cases hit)
          case (Some u)
          then have "x = Inr (Some u)" "w' = w" "s' = s2"
            using run se v noSession tok True g hit by (auto simp: operatorSubject_def Let_def bnd_apply ret_apply)
          then show ?thesis using tg hit Some inv2 tok True by (auto simp: authentic_def accepted_def)
        next
          case None
          obtain q w3 where q: "UserinfoSubject (op_IAM S) (og_Issuer (op_Cfg S)) tok w = (q, w3)" by fastforce
          note us = UserinfoSubject_outcome [OF q]
          then obtain sub where sub: "q = Inr sub" and w3: "untouched w w3" by blast
          then have now: "w_now w3 = w_now w" by (simp add: untouched_def)
          show ?thesis
          proof (cases sub)
            case None
            then show ?thesis
              using run se v noSession tok True g hit \<open>hit = None\<close> q sub w3 inv2
              by (auto simp: operatorSubject_def Let_def bnd_apply ret_apply lift_def)
          next
            case (Some i)
            let ?u = "\<lparr>sub_Instance = opIssuerHost S, sub_UserID = i\<rparr>"
            have acc: "accepted S (w_now w) tok ?u" using us sub Some by (auto simp: accepted_def)
            have "x = Inr (Some ?u)" "w' = w3" "s' = s2\<lparr>op_tokens := PutSession (w_now w3) tok ?u (op_tokens s2)\<rparr>"
              using run se v noSession tok True g hit \<open>hit = None\<close> q sub Some
              by (auto simp: operatorSubject_def Let_def bnd_apply ret_apply lift_def tokenPut_def opIssuerHost_def)
            moreover have "opInv S (w_now w) (s2\<lparr>op_tokens := PutSession (w_now w3) tok ?u (op_tokens s2)\<rparr>)"
              using tokenPut_inv [OF inv2 acc, of _ w] now by (simp add: tokenPut_def)
            moreover have "minute \<ge> 0" by (simp add: minute_def)
            ultimately show ?thesis using w3 acc tok True by (auto simp: authentic_def intro!: exI [of _ "w_now w"])
          qed
        qed
      qed
    qed
  qed
qed

section \<open>The guard\<close>

text \<open>
  The installed model makes \<open>operator\<close> a direct relation: a check holds for exactly the tuples that were written.
\<close>

definition servesOperators :: "fga \<Rightarrow> bool" where
  "servesOperators F \<longleftrightarrow> (\<forall>ts u. fga_check F ts (u, operatorRelation, platformObject) \<longleftrightarrow> (u, operatorRelation, platformObject) \<in> set ts)"

definition isOperator :: "'z op_server \<Rightarrow> tuple list \<Rightarrow> subject \<Rightarrow> bool" where
  "isOperator S ts u \<longleftrightarrow> fga_check (op_fga S) ts (userTuple u operatorRelation platformObject)"

lemma Check_outcome:
  assumes "Check F u rel ob w = (x, w')"
  shows "untouched w w' \<and> (\<forall>b. x = Inr b \<longrightarrow> b = fga_check F (w_fga w) (userTuple u rel ob))"
  using assms unfolding Check_def fgaAsk_def by (auto elim!: call_cases simp: untouched_def)

lemma untouched_trans: "untouched w1 w2 \<Longrightarrow> untouched w2 w3 \<Longrightarrow> untouched w1 w3"
  by (simp add: untouched_def)

text \<open>A guarded request either ends with a refusal that leaves the platform as it is, or is that of an operator.\<close>

lemma requireAuth_cases:
  fixes w :: "'z platform world"
  assumes inv: "opInv S (w_now w) s" and run: "requireAuth S h isAPI r (w, s) = (x, (w', s'))"
  obtains (refused) resp where "x = Inr resp" "rs_Status resp \<in> {302, 401, 403, 502}" "untouched w w'" "opInv S (w_now w') s'"
  | (allowed) u w1 s1 where "authentic S (w_now w) s (oq_Web r) u" "isOperator S (w_fga w) u" "untouched w w1" "opInv S (w_now w1) s1" "h r (w1, s1) = (x, (w', s'))"
proof -
  obtain y w1 s1 where o: "operatorSubject S (oq_Web r) (w, s) = (y, (w1, s1))" by (metis prod.exhaust)
  note os = operatorSubject_outcome [OF inv o]
  then obtain v where v: "y = Inr v" and w1: "untouched w w1" and inv1: "opInv S (w_now w1) s1" by (auto simp: untouched_def)
  have codes: "rs_Status (denyUnauthenticated isAPI) \<in> {302, 401, 403, 502}"
    "c \<in> {403, 502} \<Longrightarrow> rs_Status (deny isAPI c msg) \<in> {302, 401, 403, 502}" for c msg
    by (auto simp: denyUnauthenticated_def deny_def writeErr_def writeJSON_def httpError_def Redirect_def)
  show ?thesis
  proof (cases v)
    case None
    then show ?thesis using refused [of "denyUnauthenticated isAPI"] run o v w1 inv1 codes by (auto simp: requireAuth_def bnd_apply ret_apply)
  next
    case (Some u)
    obtain q w2 where q: "Check (op_fga S) u operatorRelation platformObject w1 = (q, w2)" by fastforce
    note ch = Check_outcome [OF q]
    have w2: "untouched w w2" using ch w1 untouched_trans by blast
    have inv2: "opInv S (w_now w2) s1" using ch inv1 by (simp add: untouched_def)
    show ?thesis
    proof (cases "q = Inr True")
      case True
      then have "h r (w2, s1) = (x, (w', s'))" using run o v Some q by (simp add: requireAuth_def bnd_apply attempt_def lift_def)
      moreover have "isOperator S (w_fga w) u" using ch True w1 by (auto simp: isOperator_def untouched_def)
      ultimately show ?thesis using allowed [of u w2 s1] os v Some w2 inv2 by blast
    next
      case False
      then obtain c msg where "x = Inr (deny isAPI c msg)" "w' = w2" "s' = s1" "c \<in> {403, 502}"
        using run o v Some q by (auto simp: requireAuth_def bnd_apply attempt_def lift_def ret_apply split: sum.splits if_splits)
      then show ?thesis using refused codes w2 inv2 by blast
    qed
  qed
qed

text \<open>What the handlers leave alone: the objects, the tuples, the time.\<close>

definition around :: "int \<Rightarrow> tuple list \<Rightarrow> (objkey \<rightharpoonup> kobject) \<Rightarrow> 'z platform world \<Rightarrow> bool" where
  "around n ts obs w \<longleftrightarrow> w_now w = n \<and> w_fga w = ts \<and> pf_objects (w_db w) = obs"

lemma around_calls:
  "faultless (around n ts obs)" "randless (around n ts obs)" "iamless (around n ts obs)"
  "keeps (around n ts obs) (CreateTenantRes nm sp)" "keeps (around n ts obs) (DeleteTenantRes nm)" "keeps (around n ts obs) (UpdateTenantRes t)"
proof -
  show f: "faultless (around n ts obs)" "randless (around n ts obs)" "iamless (around n ts obs)"
    by (simp_all add: around_def faultless_def randless_def iamless_def)
  show "keeps (around n ts obs) (CreateTenantRes nm sp)" unfolding CreateTenantRes_def
    by (rule keeps_exec [OF f(1)]) (auto simp: around_def split: if_splits)
  show "keeps (around n ts obs) (DeleteTenantRes nm)" unfolding DeleteTenantRes_def
    by (rule keeps_exec [OF f(1)]) (auto simp: around_def split: option.splits)
  show "keeps (around n ts obs) (UpdateTenantRes t)" unfolding UpdateTenantRes_def
    by (rule keeps_exec [OF f(1)]) (auto simp: around_def split: if_splits option.splits)
qed

lemma lift_run: "lift m (w, s) = (x, (w', s')) \<Longrightarrow> m w = (x, w') \<and> s' = s"
  by (auto simp: lift_def split: prod.splits)

text \<open>An assertion that every call of the handlers keeps is kept by the handlers.\<close>

locale handler_assertion =
  fixes I :: "'z platform world \<Rightarrow> bool"
  assumes quiet: "faultless I" "randless I" "iamless I"
    and seen: "untouched w w' \<Longrightarrow> I w \<Longrightarrow> I w'"
    and creates: "keeps I (CreateTenantRes nm sp)" and deletes: "keeps I (DeleteTenantRes nm)" and updates: "keeps I (UpdateTenantRes t)"
begin

lemma user: "keeps I (createTenantUser z slug email)"
  unfolding createTenantUser_def genPassword_def Let_def by (intro keeps_rules keeps_attempt_io keeps_iam quiet)

lemma api: "keeps I (apiRoutes S route r)"
  by (cases route)
     (simp_all add: apiRoutes_def ListTenants_def listed_def CreateTenant_def GetTenant_def DeleteTenant_def SetTenantApps_def CreateTenantUser_def Let_def,
      (intro keeps_rules keeps_attempt_io quiet creates deletes updates user)+)

lemma ui:
  "keeps I (uiCreate S r)" "keeps I (uiDelete S r)" "keeps I (uiRow S r)" "keeps I (uiCreateUser S r)" "keeps I (uiSetApps S r)" "keeps I (listed S)"
  unfolding uiCreate_def uiDelete_def uiRow_def uiCreateUser_def uiSetApps_def listed_def Let_def
  by (intro keeps_rules keeps_attempt_io quiet creates deletes updates user)+

lemma mux:
  assumes I: "I w" and run: "uiMux S k r (w, s) = (x, (w', s'))"
  shows "I w'"
proof (cases "k = UiIndex")
  case True
  obtain l w1 where l: "listed S w = (l, w1)" by fastforce
  have I1: "I w1" by (rule keepsD2 [OF ui(6) I l])
  obtain y w2 s2 where y: "SessionOf (op_rp S) (oq_Web r) (w1, s) = (y, (w2, s2))" by (metis prod.exhaust)
  have "untouched w1 w2" using beside_step [OF keeps_login(4) y] by (simp add: untouched_def)
  then have "I w2" using seen I1 by blast
  then show ?thesis
    using run True l y I1 by (auto simp: uiMux_def uiIndex_def attempt_def lift_def bnd_apply ret_apply split: sum.splits)
next
  case False
  then show ?thesis
    using run keepsD2 [where I = I and w = w and w' = w' and r = x, OF ui(1) I] keepsD2 [where I = I and w = w and w' = w' and r = x, OF ui(2) I]
      keepsD2 [where I = I and w = w and w' = w' and r = x, OF ui(3) I] keepsD2 [where I = I and w = w and w' = w' and r = x, OF ui(4) I]
      keepsD2 [where I = I and w = w and w' = w' and r = x, OF ui(5) I]
    by (cases k) (auto simp: uiMux_def dest!: lift_run)
qed

end

interpretation around: handler_assertion "around n ts obs" for n ts obs
proof unfold_locales
  show "around n ts obs w'" if "untouched w w'" "around n ts obs w" for w w' using that by (simp add: around_def untouched_def)
qed (rule around_calls)+

section \<open>One request\<close>

lemma uiMux_inv:
  fixes w :: "'z platform world"
  assumes inv: "opInv S (w_now w) s" and run: "uiMux S k r (w, s) = (x, (w', s'))"
  shows "opInv S (w_now w) s'"
proof (cases "k = UiIndex")
  case True
  obtain l w1 where l: "listed S w = (l, w1)" by fastforce
  have now: "w_now w1 = w_now w"
    using keepsD2 [OF around.ui(6), of "w_now w" "w_fga w" "pf_objects (w_db w)" w] l by (auto simp: around_def)
  show ?thesis
  proof (cases l)
    case (Inl e)
    then show ?thesis using run True l inv by (auto simp: uiMux_def uiIndex_def attempt_def lift_def ret_apply)
  next
    case (Inr ts)
    obtain y w2 s2 where y: "SessionOf (op_rp S) (oq_Web r) (w1, s) = (y, (w2, s2))" by (metis prod.exhaust)
    have "opInv S (w_now w) s2" using SessionOf_outcome [of S w1 s, OF _ y] inv now by simp
    then show ?thesis using run True l Inr y SessionOf_outcome [of S w1 s, OF _ y] inv now
      by (auto simp: uiMux_def uiIndex_def attempt_def lift_def bnd_apply ret_apply)
  qed
next
  case False
  then show ?thesis using run inv by (cases k) (auto simp: uiMux_def dest!: lift_run)
qed

lemma untouched_login:
  fixes w :: "'z platform world" and s :: op_state
  shows "Login R r (w, s) = (x, (w', s')) \<Longrightarrow> untouched w w'" "Callback R r (w, s) = (x, (w', s')) \<Longrightarrow> untouched w w'"
    "Logout R r (w, s) = (x, (w', s')) \<Longrightarrow> untouched w w'"
  using beside_step [OF keeps_login(1), of R r w s x w' s'] beside_step [OF keeps_login(2), of R r w s x w' s'] beside_step [OF keeps_login(3), of R r w s x w' s']
  by (simp_all add: untouched_def)

text \<open>The guarded part of a request that got through: a handler of the API, or one of the browser interface behind the origin guard.\<close>

lemma opServe_cases:
  fixes w :: "'z platform world"
  assumes inv: "opInv S (w_now w) s" and run: "opServe S route r (w, s) = (x, (w', s'))"
  obtains (other) "untouched w w'" "opInv S (w_now w') s'"
  | (handled) u w1 s1 where "authentic S (w_now w) s (oq_Web r) u" "isOperator S (w_fga w) u" "untouched w w1" "opInv S (w_now w1) s1"
      "(\<exists>a. route = ApiRoute a \<and> lift (apiRoutes S a r) (w1, s1) = (x, (w', s'))) \<or>
       (\<exists>k. route = UiRoute k \<and> uiMux S k r (w1, s1) = (x, (w', s')) \<and> (wr_Method (oq_Web r) \<in> {''GET'', ''HEAD'', ''OPTIONS''} \<or> sameOrigin (og_PublicURL (op_Cfg S)) (oq_Web r)))"
proof (cases route)
  case Healthz
  then show ?thesis using other run inv by (auto simp: opServe_def ret_apply)
next
  case LoginRoute
  then have m: "Login (op_rp S) (oq_Web r) (w, s) = (x, (w', s'))" using run by (simp add: opServe_def)
  show ?thesis using other untouched_login(1) [OF m] opInv_login(1) [OF inv m] by (simp add: untouched_def)
next
  case CallbackRoute
  then have m: "Callback (op_rp S) (oq_Web r) (w, s) = (x, (w', s'))" using run by (simp add: opServe_def)
  show ?thesis using other untouched_login(2) [OF m] opInv_login(2) [OF inv m] by (simp add: untouched_def)
next
  case LogoutRoute
  then have m: "Logout (op_rp S) (oq_Web r) (w, s) = (x, (w', s'))" using run by (simp add: opServe_def)
  show ?thesis using other untouched_login(3) [OF m] opInv_login(3) [OF inv m] by (simp add: untouched_def)
next
  case (ApiRoute a)
  then have "requireAuth S (\<lambda>r. lift (apiRoutes S a r)) True r (w, s) = (x, (w', s'))" using run by (simp add: opServe_def)
  with inv show ?thesis
  proof (cases rule: requireAuth_cases)
    case refused
    then show ?thesis by (intro other)
  next
    case (allowed u w1 s1)
    then show ?thesis using handled [OF allowed(1-4)] ApiRoute by simp
  qed
next
  case (UiRoute k)
  let ?h = "\<lambda>r. SameOriginGuard (og_PublicURL (op_Cfg S)) (\<lambda>_. uiMux S k r) (oq_Web r)"
  have "requireAuth S ?h False r (w, s) = (x, (w', s'))" using run UiRoute by (simp add: opServe_def)
  with inv show ?thesis
  proof (cases rule: requireAuth_cases)
    case refused
    then show ?thesis by (intro other)
  next
    case (allowed u w1 s1)
    show ?thesis
    proof (cases "wr_Method (oq_Web r) \<in> {''GET'', ''HEAD'', ''OPTIONS''} \<or> sameOrigin (og_PublicURL (op_Cfg S)) (oq_Web r)")
      case True
      then have "uiMux S k r (w1, s1) = (x, (w', s'))"
        using allowed(5) unfolding SameOriginGuard_def sameOrigin_def Let_def by (simp split: if_splits)
      then show ?thesis using handled [OF allowed(1-4)] UiRoute True by blast
    next
      case False
      then have "SameOriginGuard (og_PublicURL (op_Cfg S)) (\<lambda>_. uiMux S k r) (oq_Web r) = ret (httpError ''cross-origin request rejected'' 403)"
        unfolding SameOriginGuard_def sameOrigin_def Let_def by (auto split: if_splits)
      then have "w' = w1" "s' = s1" using allowed(5) by (simp_all add: ret_apply)
      then show ?thesis using other allowed by simp
    qed
  qed
qed

context handler_assertion
begin

lemma request:
  assumes "opInv S (w_now w) s" "I w" "opServe S route r (w, s) = (x, (w', s'))"
  shows "I w'"
  using assms(1,3)
proof (cases rule: opServe_cases)
  case other
  then show ?thesis using seen assms(2) by blast
next
  case (handled u w1 s1)
  have I1: "I w1" using seen handled(3) assms(2) by blast
  consider (api) a where "lift (apiRoutes S a r) (w1, s1) = (x, (w', s'))" | (ui) k where "uiMux S k r (w1, s1) = (x, (w', s'))"
    using handled(5) by blast
  then show ?thesis
  proof cases
    case api
    from lift_run [OF this] have "apiRoutes S a r w1 = (x, w')" ..
    then show ?thesis by (rule keepsD2 [where I = I, OF handler_assertion.api [OF handler_assertion_axioms] I1])
  next
    case ui
    then show ?thesis by (rule mux [OF I1])
  qed
qed

end

lemma opServe_inv:
  fixes w :: "'z platform world"
  assumes inv: "opInv S (w_now w) s" and run: "opServe S route r (w, s) = (x, (w', s'))"
  shows "opInv S (w_now w') s' \<and> around (w_now w) (w_fga w) (pf_objects (w_db w)) w'"
proof
  show a: "around (w_now w) (w_fga w) (pf_objects (w_db w)) w'" by (rule around.request [OF inv _ run]) (simp add: around_def)
  from inv run show "opInv S (w_now w') s'"
  proof (cases rule: opServe_cases)
    case (handled u w1 s1)
    have now: "w_now w1 = w_now w'" using handled(3) a by (simp add: untouched_def around_def)
    consider (api) a where "lift (apiRoutes S a r) (w1, s1) = (x, (w', s'))" | (ui) k where "uiMux S k r (w1, s1) = (x, (w', s'))"
      using handled(5) by blast
    then show ?thesis
    proof cases
      case api
      from lift_run [OF this] have "s' = s1" ..
      then show ?thesis using handled(4) now by simp
    next
      case ui
      then show ?thesis using uiMux_inv [OF handled(4)] now by simp
    qed
  qed
qed

text \<open>The routes of the browser interface that only read.\<close>

lemma reading_routes:
  fixes w :: "'z platform world"
  assumes "k = UiIndex \<or> k = UiRow" "uiMux S k r (w, s) = (x, (w', s'))"
  shows "pf_tenants (w_db w') = pf_tenants (w_db w)"
proof -
  let ?I = "\<lambda>v. pf_tenants (w_db v) = pf_tenants (w_db w)"
  have f: "faultless ?I" by (simp add: faultless_def)
  have l: "keeps ?I (listed S)" "keeps ?I (uiRow S r)"
    unfolding listed_def uiRow_def by (intro keeps_rules keeps_attempt_io f)+
  from assms(1) show ?thesis
  proof
    assume k: "k = UiRow"
    have "uiRow S r w = (x, w')" using assms(2) lift_run [of "uiRow S r" w s x w' s'] by (simp add: k uiMux_def)
    then show ?thesis by (rule keepsD2 [where I = ?I, OF l(2) refl])
  next
    assume k: "k = UiIndex"
    obtain ts w1 where ts: "listed S w = (ts, w1)" by fastforce
    have w1: "?I w1" by (rule keepsD2 [where I = ?I, OF l(1) refl ts])
    obtain y w2 s2 where y: "SessionOf (op_rp S) (oq_Web r) (w1, s) = (y, (w2, s2))" by (metis prod.exhaust)
    have "w_db w2 = w_db w1" using beside_step [OF keeps_login(4) y] by simp
    then show ?thesis
      using assms(2) ts y w1 by (auto simp: k uiMux_def uiIndex_def attempt_def lift_def bnd_apply ret_apply split: sum.splits)
  qed
qed

section \<open>The control plane in operation\<close>

text \<open>
  The operator server and the reconciler share the tenants. Around them everything else may change at any time: the clock
  moves on, the cluster's other controllers work on the objects, the identity provider and the authorization server on
  their data, and the schedule of faults is whatever it is.
\<close>

inductive cpRun :: "'z controller \<Rightarrow> 'z op_server \<Rightarrow> 'z platform world \<times> op_state \<Rightarrow> 'z platform world \<times> op_state \<Rightarrow> bool" for c S x0 where
  start: "cpRun c S x0 x0"
| request: "cpRun c S x0 (w, s) \<Longrightarrow> opServe S route r (w, s) = (res, x) \<Longrightarrow> cpRun c S x0 x"
| reconcile: "cpRun c S x0 (w, s) \<Longrightarrow> Reconcile c name w = (q, w') \<Longrightarrow> cpRun c S x0 (w', s)"
| elsewhere: "cpRun c S x0 (w, s) \<Longrightarrow> w_now w \<le> w_now w' \<Longrightarrow> pf_tenants (w_db w') = pf_tenants (w_db w) \<Longrightarrow> cpRun c S x0 (w', s)"

interpretation tenants: handler_assertion "\<lambda>w. tenantsOK c (pf_tenants (w_db w))" for c
proof unfold_locales
  let ?I = "\<lambda>w. tenantsOK c (pf_tenants (w_db w))"
  show "faultless ?I" "randless ?I" "iamless ?I" by (simp_all add: faultless_def randless_def)
  show "?I w'" if "untouched w w'" "?I w" for w w' using that by (simp add: untouched_def)
  show "keeps ?I (CreateTenantRes nm sp)" for nm sp
    by (rule keeps_tenants(3)) (rule tenantsOK_set, simp_all add: statusOK_def emptyStatus_def)
  show "keeps ?I (DeleteTenantRes nm)" for nm
    by (rule keeps_tenants(4)) (simp add: tenantsOK_def)
  show "keeps ?I (UpdateTenantRes t)" for t by (rule keeps_tenants(1)) (rule tenantsOK_store)
qed

lemma Reconcile_now: "Reconcile c name w = (q, w') \<Longrightarrow> w_now w' = w_now w"
proof -
  assume run: "Reconcile c name w = (q, w')"
  have "keeps (capacityIs (pf_ready (w_db w)) (pf_available (w_db w)) (w_now w)) (Reconcile c name)"
    by (rule keeps_Reconcile [OF capacity_calls(1) capacity.deletion capacity.live]) simp_all
  from keepsD2 [OF this _ run] show ?thesis by (simp add: capacityIs_def)
qed

lemma cpRun_inv:
  assumes "cpRun c S x0 x" "opInv S (w_now (fst x0)) (snd x0)" "tenantsOK c (pf_tenants (w_db (fst x0)))"
  shows "opInv S (w_now (fst x)) (snd x) \<and> tenantsOK c (pf_tenants (w_db (fst x)))"
  using assms
proof (induction rule: cpRun.induct)
  case (request w s route r res x)
  obtain w' s' where x: "x = (w', s')" by fastforce
  have inv: "opInv S (w_now w) s" "tenantsOK c (pf_tenants (w_db w))" using request by simp_all
  have run: "opServe S route r (w, s) = (res, (w', s'))" using request.hyps x by simp
  show ?case using opServe_inv [OF inv(1) run] tenants.request [OF inv(1) _ run] inv(2) x by auto
next
  case (reconcile w s name q w')
  then show ?case using Reconcile_now [of c name w q w'] keepsD2 [OF keeps_tenantsOK_Reconcile, of c w name q w'] by simp
next
  case (elsewhere w s w')
  then show ?case using opInv_later by auto
qed simp

text \<open>The start leaves the tenants alone and begins with empty stores.\<close>

lemma opStart_outcome:
  assumes "opStart z cfg L connect discover w = (Inr (S, s), w')"
  shows "opInv S t s \<and> pf_tenants (w_db w') = pf_tenants (w_db w) \<and> connect = Some (op_fga S)"
proof -
  have "keeps (\<lambda>v. pf_tenants (w_db v) = pf_tenants (w_db w)) (opStart z cfg L connect discover)"
  proof -
    let ?I = "\<lambda>v. pf_tenants (w_db v) = pf_tenants (w_db w)"
    have q: "faultless ?I" "iamless ?I" "tupleless ?I" by (simp_all add: faultless_def iamless_def tupleless_def)
    show ?thesis unfolding opStart_def seedOperators_def Let_def by (intro keeps_rules keeps_iam q)
  qed
  then have "pf_tenants (w_db w') = pf_tenants (w_db w)" by (rule keepsD2) (simp, rule assms)
  moreover obtain cfg' P st where "NewRelyingParty cfg' P = Some (op_rp S, st)" "rp_sessions s = rp_sessions st" "op_tokens s = NewStore minute"
      "connect = Some (op_fga S)"
  proof (cases connect)
    case None
    then show ?thesis using assms unfolding opStart_def None option.case by (elim bnd_InrE) (simp add: fail_def)
  next
    case (Some F)
    from assms [unfolded opStart_def Some option.case newTokenCache_def] show ?thesis
      by (elim bnd_InrE) (auto simp: fail_def ret_def Some split: option.splits intro: that)
  qed
  moreover have "backed minute (accepted S) t (NewStore minute)" by (rule backed_new)
  ultimately show ?thesis using rpInv_new [of cfg' P "op_rp S" st t] by (simp add: opInv_def rpInv_def)
qed

text \<open>C15. The control plane keeps its tenants in order: whatever operators ask for, whatever fails and whatever happens around
  it, in every state reached after the start each tenant has its own name, a specification the cluster accepts (a valid
  slug that is not reserved, a well-formed domain), an issuer, if any, on the permanent host of its slug, a client only
  together with an issuer and an instance, and is Ready only with both.\<close>

theorem control_plane_invariant:
  assumes "opStart z cfg L connect discover w0 = (Inr (S, s0), w1)" "tenantsOK c (pf_tenants (w_db w0))"
    and "cpRun c S (w1, s0) (w, s)"
  shows "tenantsOK c (pf_tenants (w_db w))"
  using cpRun_inv [OF assms(3)] opStart_outcome [OF assms(1)] assms(2) by simp

text \<open>C14. Only operators operate: in every state the control plane reaches, a request that changes the tenants in any way is
  made by a subject that has the operator relation in the authorization server and is authentic: it is the subject of the
  unexpired session stored for the request's session cookie, made from an ID token verified at most one session lifetime
  ago, or that of the request's bearer token, not meant for another audience, which the identity provider accepted at
  most a minute ago; on the browser interface the request also comes from the same origin.\<close>

theorem operators_only:
  assumes "opStart z cfg L (Some F) discover w0 = (Inr (S, s0), w1)" "tenantsOK c (pf_tenants (w_db w0))"
    and "servesOperators F" "cpRun c S (w1, s0) (w, s)"
    and "opServe S route r (w, s) = (res, (w', s'))" "pf_tenants (w_db w') \<noteq> pf_tenants (w_db w)"
    and "\<And>k. route = UiRoute k \<Longrightarrow> wr_Method (oq_Web r) = uiMethod k"
  shows "\<exists>u. authentic S (w_now w) s (oq_Web r) u \<and> userTuple u operatorRelation platformObject \<in> set (w_fga w) \<and>
    (case route of ApiRoute a \<Rightarrow> True | UiRoute k \<Rightarrow> sameOrigin (og_PublicURL (op_Cfg S)) (oq_Web r) | _ \<Rightarrow> False)"
proof -
  have inv: "opInv S (w_now w) s" using cpRun_inv [OF assms(4)] opStart_outcome [OF assms(1)] assms(2) by simp
  have F: "op_fga S = F" using opStart_outcome [OF assms(1)] by simp
  from inv assms(5) show ?thesis
  proof (cases rule: opServe_cases)
    case other
    then show ?thesis using assms(6) by (simp add: untouched_def)
  next
    case (handled u w1 s1)
    have "userTuple u operatorRelation platformObject \<in> set (w_fga w)"
      using handled(2) assms(3) F by (simp add: isOperator_def servesOperators_def userTuple_def rawTuple_def)
    moreover have "sameOrigin (og_PublicURL (op_Cfg S)) (oq_Web r)" if "route = UiRoute k" "uiMux S k r (w1, s1) = (res, (w', s'))"
      "wr_Method (oq_Web r) \<in> {''GET'', ''HEAD'', ''OPTIONS''} \<or> sameOrigin (og_PublicURL (op_Cfg S)) (oq_Web r)" for k
    proof (rule ccontr)
      assume "\<not> sameOrigin (og_PublicURL (op_Cfg S)) (oq_Web r)"
      then have "k = UiIndex \<or> k = UiRow" using that(1,3) assms(7) by (cases k) (auto simp: uiMethod_def)
      then have "pf_tenants (w_db w') = pf_tenants (w_db w1)" using reading_routes that(2) by blast
      then show False using assms(6) handled(3) by (simp add: untouched_def)
    qed
    ultimately show ?thesis using handled(1,5) by auto
  qed
qed

section \<open>An operator deletes a tenant\<close>

definition demoOpConfig :: op_config where
  "demoOpConfig = \<lparr>og_PublicURL = ''https://cp.peristera.example'', og_Issuer = ''https://iam.peristera.example'', og_OperatorSubs = [''1'']\<rparr>"

definition demoLibrary :: op_library where
  "demoLibrary = \<lparr>ol_hostname = (\<lambda>_. Some ''iam''), ol_parse = (\<lambda>_. None), ol_email = (\<lambda>_. None), ol_text = (\<lambda>_. []), ol_List = (\<lambda>_. [])\<rparr>"

definition demoOperator :: subject where
  "demoOperator = \<lparr>sub_Instance = ''iam'', sub_UserID = ''1''\<rparr>"

definition seededWorld :: "unit platform world" where
  "seededWorld = staleWorld\<lparr>w_fga := [userTuple demoOperator operatorRelation platformObject]\<rparr>"

definition demoOpState :: op_state where
  "demoOpState = \<lparr>rp_sessions = NewStore (12 * 60 * minute), rp_logins = NewStore (10 * minute), op_tokens = NewStore minute\<rparr>"

definition demoServer :: "unit op_server" where
  "demoServer = \<lparr>op_IAM = demoZitadel, op_Cfg = demoOpConfig,
     op_rp = \<lparr>rp_cfg = \<lparr>rc_Issuer = ''https://iam.peristera.example'', rc_SuccessURL = ''/'', rc_PostLogoutURL = ''/'', rc_CookieName = ''cp_session'',
       rc_Secure = True, rc_SessionTTL = 12 * 60 * minute\<rparr>, rp_provider = demoIdP\<rparr>,
     op_fga = modelFga, op_clientID = ''c'', op_lib = demoLibrary\<rparr>"

lemma populated_stale: "populated staleWorld"
  by (simp add: populated_def staleWorld_def staleObjects_def)

lemma servesOperators_model: "servesOperators modelFga"
  by (simp add: servesOperators_def modelFga_def operatorRelation_def AccessRelation_def)

lemma demo_opStart: "opStart demoZitadel demoOpConfig demoLibrary (Some modelFga) (\<lambda>_. Some demoIdP) staleWorld = (Inr (demoServer, demoOpState), seededWorld)"
proof -
  have c: "calm staleWorld" "w_fga staleWorld = []" by (simp_all add: staleWorld_def)
  have seed: "seedOperators demoLibrary demoOpConfig modelFga staleWorld = (Inr (), seededWorld)"
    using c by (simp add: seedOperators_def demoOpConfig_def opHost_def demoLibrary_def Let_def Check_def fgaAsk_def WriteTuple_def fgaChange_def bnd_def
        run modelFga_def operatorRelation_def AccessRelation_def ret_def seededWorld_def userTuple_def rawTuple_def demoOperator_def)
  show ?thesis
    by (simp add: opStart_def bnd_def demo_calls [OF populated_stale] seed [unfolded demoOpConfig_def] NewRelyingParty_def Let_def ret_def demoServer_def demoOpState_def
        newTokenCache_def demoOpConfig_def HasPrefix_def)
qed

lemma stale_tenantsOK: "tenantsOK online (pf_tenants (w_db staleWorld))"
proof -
  have "publicURL demoRC (''acme'' @ ''.'' @ rc_BaseDomain demoRC) = ''https://acme.peristera.example''" by code_simp
  then have "tn_Name demoTenant = ''acme''" "admissible (tn_Spec demoTenant)" "statusOK online (ts_Slug (tn_Spec demoTenant)) (tn_Status demoTenant)"
    using ValidSlug_demo(1) by (simp_all add: demoTenant_def newTenant_def admissible_def statusOK_def online_def emptyStatus_def)
  then show ?thesis by (simp add: tenantsOK_def staleWorld_def)
qed

definition demoDelete :: op_request where
  "demoDelete = \<lparr>oq_Web = \<lparr>wr_Method = ''DELETE'', wr_Header = (\<lambda>h. if h = ''Authorization'' then ''Bearer t'' else []), wr_Query = (\<lambda>_. []),
     wr_Cookie = (\<lambda>_. None), wr_ID = ''acme'', wr_Body = demoReader, wr_Form = (\<lambda>_. (None, \<lambda>_. [])), wr_Multipart = (\<lambda>_. None)\<rparr>, oq_Json = None, oq_Apps = None\<rparr>"

lemma demo_request:
  "\<exists>res w' s'. opServe demoServer (ApiRoute DeleteTenantR) demoDelete (seededWorld, demoOpState) = (res, (w', s')) \<and>
     (\<exists>t. pf_tenants (w_db w') ''acme'' = Some t \<and> tn_Deleting t)"
proof -
  have c: "calm seededWorld" "w_now seededWorld = 0" "w_db seededWorld = w_db staleWorld"
    "w_fga seededWorld = [userTuple demoOperator operatorRelation platformObject]" by (simp_all add: seededWorld_def staleWorld_def)
  have b: "bearerOf (oq_Web demoDelete) = Some ''t''"
    by (simp add: bearerOf_def demoDelete_def TrimSpace_def runePieces.simps isSpaceRune_def char_of_def bit_0 lowerAscii_def)
  have a: "audienceOK demoLibrary ''t'' ''c''" by code_simp
  have i: "userinfoSub (Reply 200 (Some demoReply)) = Some ''1''" by code_simp
  have u: "UserinfoSubject demoZitadel issuer ''t'' seededWorld = (Inr (Some ''1''), seededWorld)" for issuer
    using c by (simp add: UserinfoSubject_def catch_def bnd_def serve_calm demoZitadel_def ret_def i)
  let ?s = "demoOpState\<lparr>op_tokens := PutSession 0 ''t'' demoOperator (NewStore minute)\<rparr>"
  have cookie: "wr_Cookie (oq_Web demoDelete) n = None" for n by (simp add: demoDelete_def)
  have g: "tokenGet ''t'' (seededWorld, demoOpState) = (Inr None, (seededWorld, demoOpState))"
    by (simp add: tokenGet_def demoOpState_def GetSession_def NewStore_def)
  have p: "tokenPut ''t'' demoOperator (seededWorld, demoOpState) = (Inr (), (seededWorld, ?s))"
    by (simp add: tokenPut_def demoOpState_def c(2))
  have h: "opHost demoLibrary n = ''iam''" for n by (simp add: opHost_def demoLibrary_def)
  have o: "operatorSubject demoServer (oq_Web demoDelete) (seededWorld, demoOpState) = (Inr (Some demoOperator), (seededWorld, ?s))"
    using p by (simp add: operatorSubject_def Let_def bnd_apply SessionOf_def cookie ret_apply b demoServer_def a g lift_def u h demoOperator_def)
  have k: "Check modelFga demoOperator operatorRelation platformObject seededWorld = (Inr True, seededWorld)"
    using c by (simp add: Check_def fgaAsk_def run modelFga_def userTuple_def rawTuple_def operatorRelation_def AccessRelation_def)
  have "pf_tenants (w_db staleWorld) = [''acme'' \<mapsto> demoTenant]" "tn_Finalizers demoTenant = [finalizer]"
    by (simp_all add: staleWorld_def demoTenant_def)
  moreover have "wr_ID (oq_Web demoDelete) = ''acme''" by (simp add: demoDelete_def)
  moreover have "op_fga demoServer = modelFga" by (simp add: demoServer_def)
  ultimately show ?thesis
    using c by (simp add: opServe_def requireAuth_def bnd_apply o attempt_def lift_def k apiRoutes_def DeleteTenant_def DeleteTenantRes_def ret_apply)
qed

theorem control_plane_invariant_witness:
  "\<exists>w' s'. cpRun online demoServer (seededWorld, demoOpState) (w', s') \<and> (\<exists>t. pf_tenants (w_db w') ''acme'' = Some t \<and> tn_Deleting t) \<and>
     tenantsOK online (pf_tenants (w_db w'))"
proof -
  obtain res w' s' where r: "opServe demoServer (ApiRoute DeleteTenantR) demoDelete (seededWorld, demoOpState) = (res, (w', s'))"
    "\<exists>t. pf_tenants (w_db w') ''acme'' = Some t \<and> tn_Deleting t" using demo_request by blast
  have run: "cpRun online demoServer (seededWorld, demoOpState) (w', s')" by (rule cpRun.request [OF cpRun.start r(1)])
  show ?thesis using control_plane_invariant [OF demo_opStart stale_tenantsOK run] run r(2) by blast
qed

theorem operators_only_witness:
  "\<exists>u. authentic demoServer 0 demoOpState (oq_Web demoDelete) u \<and> userTuple u operatorRelation platformObject \<in> set (w_fga seededWorld)"
proof -
  obtain res w' s' t where r: "opServe demoServer (ApiRoute DeleteTenantR) demoDelete (seededWorld, demoOpState) = (res, (w', s'))"
    "pf_tenants (w_db w') ''acme'' = Some t" "tn_Deleting t" using demo_request by blast
  have "pf_tenants (w_db seededWorld) ''acme'' = Some demoTenant" "\<not> tn_Deleting demoTenant" "w_now seededWorld = 0"
    by (simp_all add: seededWorld_def staleWorld_def demoTenant_def newTenant_def)
  then have ne: "pf_tenants (w_db w') \<noteq> pf_tenants (w_db seededWorld)" using r(2,3) by force
  show ?thesis
    using operators_only [OF demo_opStart stale_tenantsOK servesOperators_model cpRun.start r(1) ne] \<open>w_now seededWorld = 0\<close> by auto
qed

end
