(* ===== verification/Spec2Isabelle.thy ===== *)
theory Spec2Isabelle
  imports Ergonomos Operator
begin

text \<open>
  A verification library for Peristera: the file application Kamara, the task application Ergonomos, the libraries
  they share, and the control plane that gives every tenant its own copies of them.

  \<^bold>\<open>The program.\<close> Kamara stores files for the users of one tenant. Its front doors (the storage API, the endpoints of
  the office engine and the browser pages) call the file service, which keeps its rows in a database, its content as
  encrypted, content-addressed chunks in a blob store, and its permissions in an authorization server (OpenFGA).
  Ergonomos is the same architecture around a list of tasks. Users are authenticated by an identity provider
  (Zitadel). The control plane turns a tenant resource into a namespace with a database, keys, policies and the
  deployments of the catalog, gives the tenant an instance of its own at the identity provider, and lets operators
  create and delete tenants.

  \<^bold>\<open>How programs are modelled.\<close> \<open>Prelude\<close> has the state-and-error monad (\<open>bnd\<close>, \<open>ret\<close>, \<open>fail\<close>, \<open>attempt\<close>, \<open>foreach\<close>) in which
  every effectful Go function is one definition with all its branches: an error is \<open>Inl\<close> of a value of \<open>err\<close>, and the
  state it leaves behind is returned too, because a failed call may have had effects. \<open>keeps I m\<close> says that \<open>m\<close> keeps an
  assertion whether it succeeds or fails. \<open>State\<close> has the world: clock, random source, file system, authorization
  tuples and a database of any type. Each call that leaves the process consumes one entry of a fault schedule
  (succeed, fail before or after the effect, be cut short, lose a race), so that a theorem about all worlds is a theorem about
  every way the surroundings can fail. Transactions are \<open>InTx\<close>: the body runs on a copy that is kept or thrown away.
  Requests and reconciles are atomic: they follow one another, they do not interleave. The exception is the race that the
  code itself provides for, two saves of one file (\<open>writeVersion\<close>): the fault \<open>FConflict\<close> names the users and contents of saves that
  win the ordinal; the insert fails with the unique violation, the transaction rolls back, and the winners, each a run of
  the same code up to its commit (\<open>rivalSave\<close>), have changed the database when the loop of the loser tries again.

  \<^bold>\<open>Which theory models what.\<close>
  \<^item> \<open>GoStrings\<close>, \<open>State\<close>: the Go standard library on strings and bytes; the world.
  \<^item> \<open>Chunk\<close>, \<open>Crypto\<close>, \<open>Blob\<close>, \<open>Engine\<close> (\<open>kamara/internal/chunk\<close>, \<open>crypto\<close>, \<open>blob\<close>, \<open>engine\<close>): the content-defined chunker with
    its buffered reader, the format of a sealed chunk, the blob store on a file system with its rename and sync
    steps, and the pipeline over any blob store. The chunks do not depend on how the stream is read, they are within
    their bounds and give the content back; a blob is there completely or not at all; whatever is served was sealed
    with the key for that place.
  \<^item> \<open>Uuid\<close>, \<open>Pii\<close>, \<open>Conventions\<close>, \<open>Session\<close>, \<open>Authz\<close> (\<open>lib/id\<close>, \<open>lib/pii\<close>, \<open>lib/pgconv\<close>, \<open>lib/audit\<close>, \<open>lib/search\<close>, \<open>lib/session\<close>,
    \<open>lib/authz\<close>, \<open>lib/dbtx\<close>): identifiers, data subjects and pseudonyms (both stores behind one locale), retention rules,
    the audit log, the search index, expiring sessions, permission checks.
  \<^item> \<open>Store\<close>, \<open>Store_Inv\<close> (\<open>kamara/internal/store/repos.go\<close>): one definition per repository method and the invariant of the tables.
  \<^item> \<open>File_Service\<close>, \<open>File_Laws\<close>, \<open>File_Effects\<close>, \<open>File_Spec\<close> (\<open>kamara/internal/file/file.go\<close>): the file service, its consistency under
    every fault schedule (every row of a version has its blob, reference counts are right), what each operation does
    to the rows, and its promises: what is uploaded is downloaded, a save never overwrites a version it has not
    seen, a deletion frees exactly the chunks nobody else uses.
  \<^item> \<open>Folder\<close>, \<open>Folder_Laws\<close>, \<open>Folder_Spec\<close> (\<open>folder.go\<close>), \<open>Subject_Data\<close>, \<open>Subject_Spec\<close> (\<open>subject_data.go\<close>), \<open>Zip\<close> (\<open>zip.go\<close>): the folder tree
    stays a forest; export and erasure of a person's data as a refinement of an abstract erasure; zip downloads.
  \<^item> \<open>Http\<close>, \<open>Api\<close> (\<open>kamara/internal/api/api.go\<close>), \<open>Userinfo\<close> (\<open>auth_userinfo.go\<close>), \<open>Wopi\<close>, \<open>Discovery\<close> (\<open>kamara/internal/wopi\<close>, \<open>wopi_handlers.go\<close>),
    \<open>Oidcrp\<close> (\<open>lib/oidcrp\<close>), \<open>Web\<close> (\<open>kamara/cmd/kamara/web.go\<close>): the handlers with their status codes and the three ways a caller is
    authenticated. \<open>loggedIn\<close> is the login that a request's session cookie stands for, read off the state; the properties
    of the three web applications are stated with it.
  \<^item> \<open>Reading\<close>, \<open>Handlers\<close>, \<open>Audit_Trail\<close>, \<open>Contracts\<close>: the contract between the file service and its front doors as the locale
    \<open>service_contract\<close>, interpreted three times (consistency, append-only audit log, clock).
  \<^item> \<open>Startup\<close>, \<open>Kamara\<close> (\<open>kamara/cmd/kamara/main.go\<close>): the environment, the key, the wiring, the multiplexer, and the states the
    running application can reach; the end-to-end properties of the file application.
  \<^item> \<open>Task\<close> (\<open>ergonomos/internal/task\<close>, \<open>ergonomos/internal/store/stores.go\<close>): the task service as a refinement of a map of tasks.
  \<^item> \<open>Svcauth\<close> (\<open>lib/svcauth\<close>): the exchange of a user's token for one that another service accepts, the signed client assertions,
    and the introspection of tokens; forms and assertions are read back as they were written.
  \<^item> \<open>Ergonomos\<close> (\<open>ergonomos/cmd/ergonomos\<close>, \<open>ergonomos/internal/kamara\<close>): the pages, the start and the runs of the task application, and the
    application beside a running Kamara: its tasks change only as their users ask, and a file attached through it
    belongs to the user who attached it.
  \<^item> \<open>Tenant\<close>, \<open>Kube\<close>, \<open>Catalog\<close> (\<open>control-plane/apis/v1alpha1\<close>, \<open>apps.go\<close>, \<open>netpol.go\<close>, \<open>optional_apps.go\<close> of \<open>control-plane/internal/controller\<close>): the
    tenant resource and its hosts, the cluster's objects and calls, the catalog, and the network policies with the
    meaning Kubernetes gives them.
  \<^item> \<open>Zitadel\<close> (\<open>control-plane/internal/zitadel\<close>), \<open>Provision\<close> (\<open>infra.go\<close>, \<open>apps.go\<close>, \<open>ingress.go\<close>, \<open>backup.go\<close>, \<open>office.go\<close>), \<open>Reconcile\<close>
    (\<open>tenant_controller.go\<close>, \<open>optional_apps.go\<close>), \<open>Isolation\<close>: every object the controller writes, \<open>Reconcile\<close> with all it calls, and what it
    guarantees: existing keys and data are never rewritten (the copy of the platform's backup credentials, which follows the
    configuration, is the stated exception), everything belongs to the tenant, a Ready tenant is isolated, a tenant
    is let go only on evidence that its identities are gone. The assertions a reconcile keeps are one hierarchy of locales
    (\<open>object_assertion\<close>, \<open>reconcile_assertion\<close>, \<open>object_reconcile\<close>).
  \<^item> \<open>Operator\<close> (\<open>control-plane/internal/server\<close>): the operators' API and pages behind their two gates, beside the reconciler.

  \<^bold>\<open>Parameters.\<close> Code outside the repository is an argument of the definitions that use it, and what is assumed of it is a
  named hypothesis with a witness: the authenticated cipher and the hash functions, the authorization server
  (\<open>fga\<close>: the model it is given and the tuples it holds), the identity provider, JSON and XML parsers and the signing
  of tokens, the table of MIME types, the database's collation, \<open>url.Parse\<close>, PEM and private-key parsing, the order in which the cluster lists
  tenants, the garbage collector of the cluster.

  \<^bold>\<open>Bounds and fuel.\<close> \<open>maxAttempts\<close> (5) of \<open>WriteVersion\<close> is the code's. The recursion of a zip download takes \<open>Suc\<close> (number of folders)
  as fuel, enough in a forest, which is proved together with its termination. The walk up the folder tree ends because
  it never visits a folder twice, as the code's own guard says. All other loops are structural.

  \<^bold>\<open>Not modelled.\<close> Generated code (the API router and types, deep copies); templates, styles and scripts (a page
  is the value it is rendered from); opening database pools and running migrations; the bootstrap of a store in the
  authorization server (\<open>Connect\<close> of \<open>lib/authz\<close>); \<open>control-plane/cmd/controller\<close> and the registration of watches, which only wire
  the Kubernetes runtime; reading the key file of the identity client and \<open>EnableImpersonation\<close>, which nothing calls;
  the command-line tools and spikes beside the services. Concurrent requests are not interleaved and the client's
  cache is never stale; memory, time-outs and cancellation are not modelled.
\<close>

end
